(* ===== verification/Prelude.thy ===== *)
theory Prelude
  imports Complex_Main "HOL-Library.AList" "HOL-Library.Char_ord" "HOL-Library.List_Lexorder"
begin

text \<open>
  Shared vocabulary of the development: results that may fail (\<open>error + value\<close>), the list
  operations the TypeScript sources use (de-duplication through a \<open>Set\<close>, the SQL verbs on a table
  held as a list of rows), and the collections of facts the component proofs draw on.
\<close>

named_theorems rule_facts \<open>characterisations of successful validations\<close>
named_theorems table_facts \<open>facts about the table operations\<close>

section \<open>Results\<close>

text \<open>
  A call that may throw returns \<open>Inl error\<close> or \<open>Inr value\<close>; \<open>rbind\<close> is sequencing (the rest runs
  only when the first part returned) and \<open>ensure\<close> is a guard that throws.
\<close>

type_synonym ('e, 'a) result = "'e + 'a"

definition rbind :: "'e + 'a \<Rightarrow> ('a \<Rightarrow> 'e + 'b) \<Rightarrow> 'e + 'b" where
  "rbind m f = (case m of Inl e \<Rightarrow> Inl e | Inr x \<Rightarrow> f x)"

definition ensure :: "bool \<Rightarrow> 'e \<Rightarrow> 'e + unit" where
  "ensure b e = (if b then Inr () else Inl e)"

lemma rbind_simps [simp]:
  "rbind (Inl e) f = Inl e"
  "rbind (Inr x) f = f x"
  by (simp_all add: rbind_def)

lemma rbind_eq_Inr [rule_facts]: "rbind m f = Inr y \<longleftrightarrow> (\<exists>x. m = Inr x \<and> f x = Inr y)"
  by (cases m) simp_all

lemma rbind_eq_Inl: "rbind m f = Inl e \<longleftrightarrow> m = Inl e \<or> (\<exists>x. m = Inr x \<and> f x = Inl e)"
  by (cases m) simp_all

lemma ensure_simps [simp]:
  "ensure True e = Inr ()"
  "ensure False e = Inl e"
  by (simp_all add: ensure_def)

lemma ensure_eq_Inr [rule_facts]: "ensure b e = Inr u \<longleftrightarrow> b"
  by (cases b) simp_all

lemma ensure_eq_Inl: "ensure b e = Inl e' \<longleftrightarrow> \<not> b \<and> e' = e"
  by (cases b) auto

fun is_ok :: "'e + 'a \<Rightarrow> bool" where
  "is_ok (Inl e) = False"
| "is_ok (Inr x) = True"

lemma is_ok_iff: "is_ok m \<longleftrightarrow> (\<exists>x. m = Inr x)"
  by (cases m) simp_all

text \<open>A loop over a list whose body may throw: the first failure stops it.\<close>

fun rmap :: "('a \<Rightarrow> 'e + 'b) \<Rightarrow> 'a list \<Rightarrow> 'e + 'b list" where
  "rmap f [] = Inr []"
| "rmap f (x # xs) = rbind (f x) (\<lambda>y. rbind (rmap f xs) (\<lambda>ys. Inr (y # ys)))"

lemma rmap_eq_Inr: "rmap f xs = Inr ys \<longleftrightarrow> list_all2 (\<lambda>x y. f x = Inr y) xs ys"
proof (induction xs arbitrary: ys)
  case Nil
  then show ?case by auto
next
  case (Cons x xs)
  then show ?case by (cases ys) (auto simp: rbind_eq_Inr)
qed

section \<open>Lists\<close>

text \<open>\<open>[...new Set(xs)]\<close>: the distinct elements in order of first appearance.\<close>

fun dedup :: "'a list \<Rightarrow> 'a list" where
  "dedup [] = []"
| "dedup (x # xs) = x # filter (\<lambda>y. y \<noteq> x) (dedup xs)"

lemma set_dedup [simp]: "set (dedup xs) = set xs"
  by (induction xs) auto

lemma distinct_dedup [simp]: "distinct (dedup xs)"
  by (induction xs) auto

lemma dedup_distinct: "distinct xs \<Longrightarrow> dedup xs = xs"
  by (induction xs) (auto simp: filter_id_conv)

lemma dedup_Nil_iff [simp]: "dedup xs = [] \<longleftrightarrow> xs = []"
  by (cases xs) auto

lemma dedup_snoc: "dedup (xs @ [x]) = (if x \<in> set xs then dedup xs else dedup xs @ [x])"
  by (induction xs) auto

lemma dedup_filter: "dedup (filter P xs) = filter P (dedup xs)"
  by (induction xs) (auto simp: filter_id_conv intro: filter_cong)

lemma sort_key_same: "(\<And>x. x \<in> set xs \<Longrightarrow> f x = n) \<Longrightarrow> sort_key f xs = xs"
  by (induction xs) (auto simp: insort_is_Cons)

lemma fold_max_ge: "m \<le> fold max ns (m :: 'a :: linorder)"
  by (induction ns arbitrary: m) (auto, meson max.boundedE)

lemma fold_max_mem: "x \<in> set ns \<Longrightarrow> x \<le> fold max ns (m :: 'a :: linorder)"
proof (induction ns arbitrary: m)
  case (Cons n ns)
  then show ?case using fold_max_ge [of "max n m" ns] by auto
qed simp

text \<open>\<open>xs.find(p)\<close> of the sources is \<open>List.find\<close>; its two outcomes.\<close>

lemma find_SomeD: "List.find P xs = Some x \<Longrightarrow> x \<in> set xs \<and> P x"
  by (auto simp: find_Some_iff)

lemma find_exists: "x \<in> set xs \<Longrightarrow> P x \<Longrightarrow> \<exists>y. List.find P xs = Some y \<and> P y"
  by (induction xs) auto

text \<open>The first row of a query, \<open>rows[0]\<close>, which is \<open>undefined\<close> on no row.\<close>

fun first_row :: "'a list \<Rightarrow> 'a option" where
  "first_row [] = None"
| "first_row (x # xs) = Some x"

lemma first_row_None [simp]: "first_row xs = None \<longleftrightarrow> xs = []"
  by (cases xs) simp_all

lemma first_row_Some: "first_row xs = Some x \<Longrightarrow> x \<in> set xs"
  by (cases xs) simp_all

section \<open>Tables\<close>

text \<open>
  A database table is the list of its rows in insertion order. \<open>update_where\<close> is
  \<open>UPDATE ... SET ... WHERE\<close>, \<open>delete_where\<close> is \<open>DELETE ... WHERE\<close> and \<open>insert_ignore\<close> is
  \<open>INSERT IGNORE\<close> on a row that is its own key.
\<close>

definition update_where :: "('r \<Rightarrow> bool) \<Rightarrow> ('r \<Rightarrow> 'r) \<Rightarrow> 'r list \<Rightarrow> 'r list" where
  "update_where P f rows = map (\<lambda>r. if P r then f r else r) rows"

definition delete_where :: "('r \<Rightarrow> bool) \<Rightarrow> 'r list \<Rightarrow> 'r list" where
  "delete_where P rows = filter (\<lambda>r. \<not> P r) rows"

definition insert_ignore :: "'r \<Rightarrow> 'r list \<Rightarrow> 'r list" where
  "insert_ignore r rows = (if r \<in> set rows then rows else rows @ [r])"

lemma set_update_where [table_facts]:
  "set (update_where P f rows) = {r \<in> set rows. \<not> P r} \<union> f ` {r \<in> set rows. P r}"
  by (auto simp: update_where_def)

lemma length_update_where [simp]: "length (update_where P f rows) = length rows"
  by (simp add: update_where_def)

lemma map_update_where_key:
  assumes "\<And>r. key (f r) = key r"
  shows "map key (update_where P f rows) = map key rows"
  using assms by (auto simp: update_where_def)

lemma find_update_where_other:
  assumes "\<And>r. P r \<Longrightarrow> \<not> Q r \<and> \<not> Q (f r)"
  shows "List.find Q (update_where P f rows) = List.find Q rows"
  using assms by (induction rows) (auto simp: update_where_def)

lemma find_update_where_same:
  assumes "\<And>r. Q (f r) = Q r"
  shows "List.find Q (update_where Q f rows) = map_option f (List.find Q rows)"
  using assms by (induction rows) (auto simp: update_where_def)

lemma set_delete_where [table_facts, simp]: "set (delete_where P rows) = {r \<in> set rows. \<not> P r}"
  by (auto simp: delete_where_def)

lemma set_insert_ignore [table_facts, simp]: "set (insert_ignore r rows) = insert r (set rows)"
  by (auto simp: insert_ignore_def)

lemma distinct_insert_ignore [simp]: "distinct (insert_ignore r rows) \<longleftrightarrow> distinct rows"
  by (auto simp: insert_ignore_def)

lemma distinct_delete_where [intro]: "distinct rows \<Longrightarrow> distinct (delete_where P rows)"
  by (simp add: delete_where_def)

lemma set_fold_insert_ignore [table_facts, simp]:
  "set (fold (\<lambda>x. insert_ignore (g x)) xs rows) = set rows \<union> g ` set xs"
  by (induction xs arbitrary: rows) auto

lemma distinct_fold_insert_ignore [simp]:
  "distinct (fold (\<lambda>x. insert_ignore (g x)) xs rows) \<longleftrightarrow> distinct rows"
  by (induction xs arbitrary: rows) auto

section \<open>Keyed stores\<close>

text \<open>
  The contract of a table that is read by key and written row by row: storing under a free key and
  deleting a key change the lookup at that key only, and both keep the table well formed.
\<close>

locale keyed_store =
  fixes lookup :: "'db \<Rightarrow> 'k \<Rightarrow> 'v option"
    and put :: "'db \<Rightarrow> 'k \<Rightarrow> 'v \<Rightarrow> 'db"
    and del :: "'db \<Rightarrow> 'k \<Rightarrow> 'db"
    and wf :: "'db \<Rightarrow> bool"
    and fits :: "'k \<Rightarrow> 'v \<Rightarrow> bool"
  assumes lookup_put: "\<lbrakk>wf db; fits k v; lookup db k = None\<rbrakk> \<Longrightarrow> lookup (put db k v) = (lookup db)(k \<mapsto> v)"
    and lookup_del: "wf db \<Longrightarrow> lookup (del db k) = (lookup db)(k := None)"
    and wf_put: "\<lbrakk>wf db; fits k v\<rbrakk> \<Longrightarrow> wf (put db k v)"
    and wf_del: "wf db \<Longrightarrow> wf (del db k)"
begin

lemma lookup_replace: "\<lbrakk>wf db; fits k v\<rbrakk> \<Longrightarrow> lookup (put (del db k) k v) = (lookup db)(k \<mapsto> v)"
  by (simp add: lookup_put lookup_del wf_del)

lemma wf_replace: "\<lbrakk>wf db; fits k v\<rbrakk> \<Longrightarrow> wf (put (del db k) k v)"
  by (simp add: wf_put wf_del)

lemma put_other: "\<lbrakk>wf db; fits k v; lookup db k = None; j \<noteq> k\<rbrakk> \<Longrightarrow> lookup (put db k v) j = lookup db j"
  by (simp add: lookup_put)

lemma put_del: "\<lbrakk>wf db; fits k v; lookup db k = None\<rbrakk> \<Longrightarrow> lookup (del (put db k v) k) = lookup db"
  by (simp add: lookup_put lookup_del wf_put fun_upd_idem)

end

section \<open>Versioned stores\<close>

text \<open>
  The contract of rows that carry a version: an accepted edit was made on the present version and raises it
  by one, and no operation takes a row away or lowers its version. It gives the absence of lost updates:
  whatever happened in between, a later edit was made on a later version.
\<close>

locale versioned_store =
  fixes version :: "'db \<Rightarrow> 'k \<Rightarrow> int option"
    and edit :: "'k \<Rightarrow> int \<Rightarrow> 'db \<Rightarrow> 'db \<Rightarrow> bool"
    and step :: "'db \<Rightarrow> 'db \<Rightarrow> bool"
    and good :: "'db \<Rightarrow> bool"
  assumes edit_version: "\<lbrakk>good db; edit k v db db'\<rbrakk> \<Longrightarrow> version db k = Some v \<and> version db' k = Some (v + 1)"
    and edit_step: "edit k v db db' \<Longrightarrow> step db db'"
    and step_good: "\<lbrakk>good db; step db db'\<rbrakk> \<Longrightarrow> good db'"
    and step_version: "\<lbrakk>good db; step db db'; version db k = Some v\<rbrakk> \<Longrightarrow> \<exists>w \<ge> v. version db' k = Some w"
begin

lemma run_good: "step\<^sup>*\<^sup>* db db' \<Longrightarrow> good db \<Longrightarrow> good db'"
  by (induction rule: rtranclp_induct) (auto intro: step_good)

lemma run_version: "step\<^sup>*\<^sup>* db db' \<Longrightarrow> good db \<Longrightarrow> version db k = Some v \<Longrightarrow> \<exists>w \<ge> v. version db' k = Some w"
proof (induction rule: rtranclp_induct)
  case (step db1 db2)
  then obtain w where w: "w \<ge> v" "version db1 k = Some w" by blast
  have "good db1" using run_good [OF step.hyps(1)] step.prems(1) .
  then obtain u where "u \<ge> w" "version db2 k = Some u" using step_version step.hyps(2) w(2) by blast
  then show ?case using w(1) by (blast intro: order_trans)
qed blast

lemma no_lost_update:
  assumes "good db" "edit k v db db1" "step\<^sup>*\<^sup>* db1 db2" "edit k w db2 db3"
  shows "v < w"
proof -
  have g: "good db1" using step_good [OF assms(1) edit_step [OF assms(2)]] .
  obtain u where u: "u \<ge> v + 1" "version db2 k = Some u" using run_version [OF assms(3) g] edit_version [OF assms(1,2)] by blast
  have "version db2 k = Some w" using edit_version [OF run_good [OF assms(3) g] assms(4)] by blast
  then show ?thesis using u by simp
qed

end

end
