(* ===== verification/Js_Values.thy ===== *)
theory Js_Values
  imports Prelude
begin

text \<open>
  The JavaScript values the sources receive as \<open>unknown\<close> (JSON bodies and query strings) and the
  standard conversions they apply to them: \<open>String(v)\<close>, \<open>Number(v)\<close>, \<open>trim\<close>, \<open>slice\<close>,
  \<open>toUpperCase\<close>, \<open>replace(/\s+/g, ' ')\<close>, and the fixed-width date patterns. A string is the
  list of its code units, a \<open>char\<close> each, so the model covers the code units below 256; case mapping
  is that of the ASCII letters. A finite number is the rational it denotes: integers below
  \<open>2^53\<close> and the comparisons made on them are exact, binary rounding of other values is not modelled.
\<close>

section \<open>Values\<close>

datatype jsnum = NaN | PosInf | NegInf | Fin rat

datatype jsval =
    JUndef | JNull | JBool bool | JNum jsnum | JStr string
  | JArr "jsval list" | JObj "(string \<times> jsval) list"

text \<open>The own property \<open>k\<close> of an object; a missing one reads as \<open>undefined\<close>.\<close>

fun field_of :: "jsval \<Rightarrow> string \<Rightarrow> jsval" where
  "field_of (JObj kvs) k = (case map_of kvs k of None \<Rightarrow> JUndef | Some v \<Rightarrow> v)"
| "field_of _ k = JUndef"

fun nullish :: "jsval \<Rightarrow> bool" where
  "nullish JUndef = True"
| "nullish JNull = True"
| "nullish _ = False"

section \<open>Characters and strings\<close>

definition code_of :: "char \<Rightarrow> nat" where
  "code_of c = of_char c"

definition is_digit :: "char \<Rightarrow> bool" where
  "is_digit c \<longleftrightarrow> 48 \<le> code_of c \<and> code_of c \<le> 57"

definition is_upper :: "char \<Rightarrow> bool" where
  "is_upper c \<longleftrightarrow> 65 \<le> code_of c \<and> code_of c \<le> 90"

definition is_lower :: "char \<Rightarrow> bool" where
  "is_lower c \<longleftrightarrow> 97 \<le> code_of c \<and> code_of c \<le> 122"

definition is_letter :: "char \<Rightarrow> bool" where
  "is_letter c \<longleftrightarrow> is_upper c \<or> is_lower c"

definition is_space :: "char \<Rightarrow> bool" where
  "is_space c \<longleftrightarrow> (9 \<le> code_of c \<and> code_of c \<le> 13) \<or> code_of c = 32 \<or> code_of c = 160"

definition to_upper_char :: "char \<Rightarrow> char" where
  "to_upper_char c = (if is_lower c then char_of (code_of c - 32) else c)"

definition to_lower_char :: "char \<Rightarrow> char" where
  "to_lower_char c = (if is_upper c then char_of (code_of c + 32) else c)"

definition to_upper :: "string \<Rightarrow> string" where
  "to_upper s = map to_upper_char s"

definition to_lower :: "string \<Rightarrow> string" where
  "to_lower s = map to_lower_char s"

definition trim :: "string \<Rightarrow> string" where
  "trim s = rev (dropWhile is_space (rev (dropWhile is_space s)))"

text \<open>\<open>s.replace(/\s+/g, ' ')\<close>: every maximal run of white space becomes one space.\<close>

fun squeeze_spaces :: "string \<Rightarrow> string" where
  "squeeze_spaces [] = []"
| "squeeze_spaces [c] = [if is_space c then CHR '' '' else c]"
| "squeeze_spaces (c # d # s) =
     (if is_space c \<and> is_space d then squeeze_spaces (d # s)
      else (if is_space c then CHR '' '' else c) # squeeze_spaces (d # s))"

fun starts_with :: "string \<Rightarrow> string \<Rightarrow> bool" where
  "starts_with [] s = True"
| "starts_with (p # ps) [] = False"
| "starts_with (p # ps) (c # s) = (p = c \<and> starts_with ps s)"

fun contains_sub :: "string \<Rightarrow> string \<Rightarrow> bool" where
  "contains_sub p [] = (p = [])"
| "contains_sub p (c # s) = (starts_with p (c # s) \<or> contains_sub p s)"

definition ends_with :: "string \<Rightarrow> string \<Rightarrow> bool" where
  "ends_with p s = starts_with (rev p) (rev s)"

fun split_on :: "char \<Rightarrow> string \<Rightarrow> string list" where
  "split_on d [] = [[]]"
| "split_on d (c # s) =
     (if c = d then [] # split_on d s
      else (case split_on d s of [] \<Rightarrow> [[c]] | w # ws \<Rightarrow> (c # w) # ws))"

fun join_with :: "string \<Rightarrow> string list \<Rightarrow> string" where
  "join_with d [] = []"
| "join_with d [w] = w"
| "join_with d (w # v # ws) = w @ d @ join_with d (v # ws)"

lemma starts_with_iff: "starts_with p s \<longleftrightarrow> (\<exists>t. s = p @ t)"
  by (induction p s rule: starts_with.induct) auto

lemma ends_with_iff: "ends_with p s \<longleftrightarrow> (\<exists>t. s = t @ p)"
  unfolding ends_with_def starts_with_iff by (metis append_eq_conv_conj rev_append rev_rev_ident)

lemma contains_sub_iff: "contains_sub p s \<longleftrightarrow> (\<exists>t u. s = t @ p @ u)"
proof (induction s)
  case Nil
  then show ?case by auto
next
  case (Cons c s)
  have "(\<exists>t u. c # s = t @ p @ u) \<longleftrightarrow> (\<exists>u. c # s = p @ u) \<or> (\<exists>t u. s = t @ p @ u)"
    by (metis append_Cons append_Nil list.exhaust list.inject)
  then show ?case by (simp add: Cons starts_with_iff)
qed

lemma trim_ends:
  "trim s \<noteq> [] \<Longrightarrow> \<not> is_space (hd (trim s)) \<and> \<not> is_space (last (trim s))"
proof
  assume ne: "trim s \<noteq> []"
  let ?u = "dropWhile is_space (rev (dropWhile is_space s))"
  have u: "?u \<noteq> []" using ne by (simp add: trim_def)
  show "\<not> is_space (last (trim s))"
    using hd_dropWhile [OF u] u by (simp add: trim_def last_rev del: dropWhile_eq_Nil_conv)
  obtain pre where pre: "rev (dropWhile is_space s) = pre @ ?u"
    by (metis takeWhile_dropWhile_id)
  then have "dropWhile is_space s = trim s @ rev pre"
    by (metis rev_append rev_rev_ident trim_def)
  then show "\<not> is_space (hd (trim s))"
    using ne by (metis append_is_Nil_conv hd_append2 hd_dropWhile dropWhile_eq_Nil_conv)
qed

lemma trim_fixed: "s = [] \<or> \<not> is_space (hd s) \<and> \<not> is_space (last s) \<Longrightarrow> trim s = s"
proof (cases "s = []")
  case False
  assume "s = [] \<or> \<not> is_space (hd s) \<and> \<not> is_space (last s)"
  then have h: "\<not> is_space (hd s)" "\<not> is_space (last s)" using False by auto
  have "hd (rev s) = last s" using False by (metis last_rev rev_is_Nil_conv rev_rev_ident)
  then have "\<not> is_space (hd (rev s))" using h(2) by simp
  then have "dropWhile is_space s = s" "dropWhile is_space (rev s) = rev s"
    using h(1) unfolding dropWhile_eq_self_iff by blast+
  then show ?thesis by (simp add: trim_def)
qed (simp add: trim_def)

lemma trim_idem [simp]: "trim (trim s) = trim s"
  using trim_fixed trim_ends by blast

lemma length_trim: "length (trim s) \<le> length s"
  unfolding trim_def by (metis length_dropWhile_le length_rev order_trans)

lemma length_map_case [simp]: "length (to_upper s) = length s" "length (to_lower s) = length s"
  by (simp_all add: to_upper_def to_lower_def)

section \<open>Numbers in text\<close>

definition digit_val :: "char \<Rightarrow> nat" where
  "digit_val c = code_of c - 48"

definition dec_val :: "string \<Rightarrow> nat" where
  "dec_val ds = foldl (\<lambda>a c. 10 * a + digit_val c) 0 ds"

definition digit_char :: "nat \<Rightarrow> char" where
  "digit_char n = char_of (48 + n)"

fun dec_digits :: "nat \<Rightarrow> string" where
  "dec_digits n = (if n < 10 then [digit_char n] else dec_digits (n div 10) @ [digit_char (n mod 10)])"

declare dec_digits.simps [simp del]

text \<open>\<open>String(n).padStart(w, '0')\<close> for a natural number below \<open>10^w\<close>: its last \<open>w\<close> digits.\<close>

fun pad_digits :: "nat \<Rightarrow> nat \<Rightarrow> string" where
  "pad_digits 0 n = []"
| "pad_digits (Suc w) n = pad_digits w (n div 10) @ [digit_char (n mod 10)]"

lemma code_of_char_of [simp]: "n < 256 \<Longrightarrow> code_of (char_of n) = n"
  by (simp add: code_of_def)

lemma digit_char_val [simp]: "n < 10 \<Longrightarrow> digit_val (digit_char n) = n"
  by (simp add: digit_val_def digit_char_def)

lemma is_digit_digit_char [simp]: "n < 10 \<Longrightarrow> is_digit (digit_char n)"
  by (simp add: is_digit_def digit_char_def)

lemma dec_val_snoc [simp]: "dec_val (ds @ [c]) = 10 * dec_val ds + digit_val c"
  by (simp add: dec_val_def)

lemma dec_val_Nil [simp]: "dec_val [] = 0"
  by (simp add: dec_val_def)

lemma dec_val_dec_digits [simp]: "dec_val (dec_digits n) = n"
proof (induction n rule: dec_digits.induct)
  case (1 n)
  show ?case
  proof (cases "n < 10")
    case True
    then show ?thesis using dec_val_snoc [of "[]"] by (simp add: dec_digits.simps [of n])
  next
    case False
    with 1 show ?thesis by (simp add: dec_digits.simps [of n])
  qed
qed

lemma dec_digits_digits: "list_all is_digit (dec_digits n)"
proof (induction n rule: dec_digits.induct)
  case (1 n)
  then show ?case by (cases "n < 10") (simp_all add: dec_digits.simps [of n])
qed

lemma dec_digits_nonempty [simp]: "dec_digits n \<noteq> []"
  by (subst dec_digits.simps) simp

lemma length_pad_digits [simp]: "length (pad_digits w n) = w"
  by (induction w arbitrary: n) simp_all

lemma pad_digits_digits: "list_all is_digit (pad_digits w n)"
  by (induction w arbitrary: n) simp_all

lemma dec_val_pad_digits: "n < 10 ^ w \<Longrightarrow> dec_val (pad_digits w n) = n"
proof (induction w arbitrary: n)
  case 0
  then show ?case by simp
next
  case (Suc w)
  then have "n div 10 < 10 ^ w" by (simp add: less_mult_imp_div_less)
  with Suc.IH show ?case by simp
qed

text \<open>
  \<open>StringToNumber\<close>: white space around the literal is dropped, the empty string is 0, \<open>0x\<close>, \<open>0o\<close>
  and \<open>0b\<close> prefixes take no sign, a decimal literal has an optional sign, fraction and exponent, and
  anything else is \<open>NaN\<close>.
\<close>

definition radix_digit :: "char \<Rightarrow> nat" where
  "radix_digit c =
     (if is_digit c then code_of c - 48
      else if is_lower c then code_of c - 87
      else if is_upper c then code_of c - 55 else 99)"

definition radix_num :: "nat \<Rightarrow> string \<Rightarrow> jsnum" where
  "radix_num b ds =
     (if ds \<noteq> [] \<and> list_all (\<lambda>c. radix_digit c < b) ds
      then Fin (of_nat (foldl (\<lambda>a c. b * a + radix_digit c) 0 ds)) else NaN)"

definition scale10 :: "rat \<Rightarrow> int \<Rightarrow> rat" where
  "scale10 r e = (if 0 \<le> e then r * 10 ^ nat e else r / 10 ^ nat (- e))"

definition exponent_part :: "string \<Rightarrow> int option" where
  "exponent_part s =
     (case s of [] \<Rightarrow> Some 0
      | c # t \<Rightarrow>
          if c \<noteq> CHR ''e'' \<and> c \<noteq> CHR ''E'' then None
          else (let (neg, ds) = (case t of [] \<Rightarrow> (False, [])
                    | d # ds \<Rightarrow> if d = CHR ''-'' then (True, ds)
                                else if d = CHR ''+'' then (False, ds) else (False, t))
                in if ds \<noteq> [] \<and> list_all is_digit ds
                   then Some (if neg then - int (dec_val ds) else int (dec_val ds)) else None))"

definition decimal_num :: "string \<Rightarrow> rat option" where
  "decimal_num s =
     (let ip = takeWhile is_digit s; r = dropWhile is_digit s;
          (fp, r') = (case r of [] \<Rightarrow> ([], [])
             | c # t \<Rightarrow> if c = CHR ''.'' then (takeWhile is_digit t, dropWhile is_digit t) else ([], r))
      in if ip @ fp = [] then None
         else map_option (\<lambda>e. scale10 (of_nat (dec_val (ip @ fp))) (e - int (length fp))) (exponent_part r'))"

definition neg_num :: "jsnum \<Rightarrow> jsnum" where
  "neg_num n = (case n of NaN \<Rightarrow> NaN | PosInf \<Rightarrow> NegInf | NegInf \<Rightarrow> PosInf | Fin r \<Rightarrow> Fin (- r))"

definition unsigned_num :: "string \<Rightarrow> jsnum" where
  "unsigned_num s =
     (if s = ''Infinity'' then PosInf
      else case decimal_num s of None \<Rightarrow> NaN | Some r \<Rightarrow> Fin r)"

definition string_to_number :: "string \<Rightarrow> jsnum" where
  "string_to_number s0 =
     (let s = trim s0; p = take 2 s in
      if s = [] then Fin 0
      else if p = ''0x'' \<or> p = ''0X'' then radix_num 16 (drop 2 s)
      else if p = ''0o'' \<or> p = ''0O'' then radix_num 8 (drop 2 s)
      else if p = ''0b'' \<or> p = ''0B'' then radix_num 2 (drop 2 s)
      else if hd s = CHR ''-'' then neg_num (unsigned_num (tl s))
      else if hd s = CHR ''+'' then unsigned_num (tl s)
      else unsigned_num s)"

text \<open>
  \<open>Number::toString\<close> for the numbers with at most 20 decimals below \<open>10^21\<close> (JavaScript switches
  to exponent notation outside): sign, integer digits, and the fraction digits until they are used up.
\<close>

fun frac_digits :: "nat \<Rightarrow> rat \<Rightarrow> string" where
  "frac_digits 0 r = []"
| "frac_digits (Suc k) r =
     (if r = 0 then []
      else digit_char (nat \<lfloor>10 * r\<rfloor>) # frac_digits k (10 * r - of_int \<lfloor>10 * r\<rfloor>))"

definition rat_str :: "rat \<Rightarrow> string" where
  "rat_str r =
     (let a = abs r; i = \<lfloor>a\<rfloor>; f = frac_digits 20 (a - of_int i) in
      (if r < 0 then ''-'' else []) @ dec_digits (nat i) @ (if f = [] then [] else CHR ''.'' # f))"

fun num_str :: "jsnum \<Rightarrow> string" where
  "num_str NaN = ''NaN''"
| "num_str PosInf = ''Infinity''"
| "num_str NegInf = ''-Infinity''"
| "num_str (Fin r) = rat_str r"

text \<open>\<open>String(v)\<close>; an array prints its elements joined with commas, a nullish element as nothing.\<close>

fun to_string :: "jsval \<Rightarrow> string" where
  "to_string JUndef = ''undefined''"
| "to_string JNull = ''null''"
| "to_string (JBool b) = (if b then ''true'' else ''false'')"
| "to_string (JNum n) = num_str n"
| "to_string (JStr s) = s"
| "to_string (JArr vs) = join_with '','' (map (\<lambda>v. if nullish v then [] else to_string v) vs)"
| "to_string (JObj kvs) = ''[object Object]''"

text \<open>\<open>Number(v)\<close>; an array or object goes through its string.\<close>

fun to_number :: "jsval \<Rightarrow> jsnum" where
  "to_number JUndef = NaN"
| "to_number JNull = Fin 0"
| "to_number (JBool b) = (if b then Fin 1 else Fin 0)"
| "to_number (JNum n) = n"
| "to_number (JStr s) = string_to_number s"
| "to_number (JArr vs) = string_to_number (to_string (JArr vs))"
| "to_number (JObj kvs) = NaN"

text \<open>The truth value \<open>if (v)\<close> tests.\<close>

fun truthy :: "jsval \<Rightarrow> bool" where
  "truthy JUndef = False"
| "truthy JNull = False"
| "truthy (JBool b) = b"
| "truthy (JNum n) = (n \<noteq> NaN \<and> n \<noteq> Fin 0)"
| "truthy (JStr s) = (s \<noteq> [])"
| "truthy _ = True"

text \<open>\<open>Number.isInteger\<close>, with the integer it is.\<close>

fun as_integer :: "jsnum \<Rightarrow> int option" where
  "as_integer (Fin r) = (if of_int \<lfloor>r\<rfloor> = r then Some \<lfloor>r\<rfloor> else None)"
| "as_integer _ = None"

lemma as_integer_of_int [simp]: "as_integer (Fin (of_int i)) = Some i"
  by simp

lemma as_integer_Some: "as_integer n = Some i \<longleftrightarrow> n = Fin (of_int i)"
  by (cases n) auto

definition int_str :: "int \<Rightarrow> string" where
  "int_str i = (if i < 0 then CHR ''-'' # dec_digits (nat (- i)) else dec_digits (nat i))"

lemma rat_str_of_int: "rat_str (of_int i) = int_str i"
proof -
  have "abs (of_int i :: rat) = of_int \<bar>i\<bar>" by simp
  then have f: "\<lfloor>abs (of_int i :: rat)\<rfloor> = \<bar>i\<bar>" by (metis floor_of_int)
  have "frac_digits 20 (abs (of_int i :: rat) - of_int \<bar>i\<bar>) = []"
    by (simp add: numeral_eq_Suc)
  then show ?thesis by (simp add: rat_str_def int_str_def f)
qed

end
