(* ===== verification/Calendar.thy ===== *)
theory Calendar
  imports Js_Values
begin

text \<open>
  Calendar dates. The first part is the date arithmetic of the language (ECMA-262 21.4.1: day numbers
  counted from 1970-01-01, \<open>MakeDay\<close> with overflowing months and days, the year, month and date of a
  day number, the week day, and the ISO form \<open>yyyy-mm-dd\<close>); a date-only \<open>Date\<close> at UTC midnight or
  noon is its day number. The second part is the code that uses it: the business week
  (\<open>backend/src/lib/businessWeek.ts\<close>), the reporting windows and target proration
  (\<open>backend/src/measures/filters.ts\<close>) and campaign durations (\<open>backend/src/marcomKpi/formulas.ts\<close>).
\<close>

section \<open>Day numbers\<close>

definition leap :: "int \<Rightarrow> bool" where
  "leap y \<longleftrightarrow> 4 dvd y \<and> (\<not> 100 dvd y \<or> 400 dvd y)"

definition day_from_year :: "int \<Rightarrow> int" where
  "day_from_year y = 365 * (y - 1970) + (y - 1969) div 4 - (y - 1901) div 100 + (y - 1601) div 400"

definition month_len :: "int \<Rightarrow> int \<Rightarrow> int" where
  "month_len y m =
     (if m = 2 then (if leap y then 29 else 28)
      else if m = 4 \<or> m = 6 \<or> m = 9 \<or> m = 11 then 30 else 31)"

definition month_cum :: "bool \<Rightarrow> int \<Rightarrow> int" where
  "month_cum l m =
     (if m \<le> 1 then 0 else if m = 2 then 31
      else (if l then 1 else 0) +
        (if m = 3 then 59 else if m = 4 then 90 else if m = 5 then 120 else if m = 6 then 151
         else if m = 7 then 181 else if m = 8 then 212 else if m = 9 then 243
         else if m = 10 then 273 else if m = 11 then 304 else 334))"

definition make_day :: "int \<Rightarrow> int \<Rightarrow> int \<Rightarrow> int" where
  "make_day y m d =
     (let ym = y + (m - 1) div 12; mn = (m - 1) mod 12 + 1
      in day_from_year ym + month_cum (leap ym) mn + d - 1)"

function month_up :: "bool \<Rightarrow> int \<Rightarrow> int \<Rightarrow> int" where
  "month_up l m k = (if m < 12 \<and> month_cum l (m + 1) \<le> k then month_up l (m + 1) k else m)"
  by pat_completeness auto
termination
  by (relation "measure (\<lambda>(l, m, k). nat (12 - m))") auto

declare month_up.simps [simp del]

definition month_of_doy :: "bool \<Rightarrow> int \<Rightarrow> int" where
  "month_of_doy l k = month_up l 1 k"

lemma div_succ: "0 < k \<Longrightarrow> (x + 1) div k = x div k + (if k dvd x + 1 then 1 else 0)" for x k :: int
proof -
  assume k: "0 < k"
  have x: "x = k * (x div k) + x mod k" by simp
  have r: "0 \<le> x mod k" "x mod k < k" using k by simp_all
  show ?thesis
  proof (cases "x mod k + 1 = k")
    case True
    then have e: "x + 1 = k * (x div k) + k" using x by linarith
    then have "x + 1 = k * (x div k + 1)" by (simp add: distrib_left)
    then show ?thesis using k by simp
  next
    case False
    have e: "x + 1 = k * (x div k) + (x mod k + 1)" using x by linarith
    have b: "0 \<le> x mod k + 1" "x mod k + 1 < k" using False r by auto
    have "(x + 1) div k = x div k" and m: "(x + 1) mod k = x mod k + 1"
      using int_div_pos_eq [OF e b] int_mod_pos_eq [OF e b] by simp_all
    moreover have "\<not> k dvd x + 1" using m r by (simp add: dvd_eq_mod_eq_0)
    ultimately show ?thesis by simp
  qed
qed

lemma day_from_year_succ: "day_from_year (y + 1) = day_from_year y + (if leap y then 366 else 365)"
proof -
  have 4: "(y - 1968) div 4 = (y - 1969) div 4 + (if 4 dvd y then 1 else 0)"
  proof -
    have "(4 :: int) dvd y - 1968 \<longleftrightarrow> 4 dvd y" by presburger
    with div_succ [of 4 "y - 1969"] show ?thesis by simp
  qed
  have 100: "(y - 1900) div 100 = (y - 1901) div 100 + (if 100 dvd y then 1 else 0)"
  proof -
    have "(100 :: int) dvd y - 1900 \<longleftrightarrow> 100 dvd y"
      using dvd_diff_left_iff [of 100 1900 y] by simp
    with div_succ [of 100 "y - 1901"] show ?thesis by simp
  qed
  have 400: "(y - 1600) div 400 = (y - 1601) div 400 + (if 400 dvd y then 1 else 0)"
  proof -
    have "(400 :: int) dvd y - 1600 \<longleftrightarrow> 400 dvd y"
      using dvd_diff_left_iff [of 400 1600 y] by simp
    with div_succ [of 400 "y - 1601"] show ?thesis by simp
  qed
  have d: "400 dvd y \<Longrightarrow> 100 dvd y" "100 dvd y \<Longrightarrow> 4 dvd y"
    using dvd_trans [of 100 400 y] dvd_trans [of 4 100 y] by simp_all
  have "day_from_year (y + 1) = 365 * (y - 1970) + 365 + (y - 1968) div 4 - (y - 1900) div 100 + (y - 1600) div 400"
    by (simp add: day_from_year_def algebra_simps)
  then have "day_from_year (y + 1) =
      day_from_year y + 365 + (if 4 dvd y then 1 else 0) - (if 100 dvd y then 1 else 0) + (if 400 dvd y then 1 else 0)"
    unfolding 4 100 400 day_from_year_def by linarith
  then show ?thesis using d unfolding leap_def by presburger
qed

text \<open>The year of a day number, by search from a year that is not after it.\<close>

function year_up :: "int \<Rightarrow> int \<Rightarrow> int" where
  "year_up y n = (if day_from_year (y + 1) \<le> n then year_up (y + 1) n else y)"
  by pat_completeness auto
termination
  by (relation "measure (\<lambda>(y, n). nat (n - day_from_year y))") (auto simp: day_from_year_succ split: if_splits)

declare year_up.simps [simp del]

definition year_from_day :: "int \<Rightarrow> int" where
  "year_from_day n = year_up (1970 + (if 0 \<le> n then n div 366 else n div 365)) n"

definition civil_of_day :: "int \<Rightarrow> int \<times> int \<times> int" where
  "civil_of_day n =
     (let y = year_from_day n; k = n - day_from_year y; m = month_of_doy (leap y) k
      in (y, m, k - month_cum (leap y) m + 1))"

definition week_day :: "int \<Rightarrow> int" where
  "week_day n = (n + 4) mod 7"

text \<open>A civil date, a \<open>year/month/day\<close> triple that names a day of the calendar.\<close>

definition valid_civil :: "int \<times> int \<times> int \<Rightarrow> bool" where
  "valid_civil t = (case t of (y, m, d) \<Rightarrow> 1 \<le> m \<and> m \<le> 12 \<and> 1 \<le> d \<and> d \<le> month_len y m)"

lemma year_up_bounds:
  "day_from_year y \<le> n \<Longrightarrow>
   day_from_year (year_up y n) \<le> n \<and> n < day_from_year (year_up y n + 1)"
proof (induction y n rule: year_up.induct)
  case (1 y n)
  then show ?case by (cases "day_from_year (y + 1) \<le> n") (simp_all add: year_up.simps [of y n])
qed

lemma day_from_year_upper: "day_from_year (1970 + int k) \<le> 366 * int k"
proof (induction k)
  case 0
  then show ?case by (simp add: day_from_year_def)
next
  case (Suc k)
  have "1970 + int (Suc k) = (1970 + int k) + 1" by simp
  then show ?case using Suc day_from_year_succ [of "1970 + int k"] by (auto split: if_splits)
qed

lemma day_from_year_lower: "day_from_year (1970 - int k) \<le> - 365 * int k"
proof (induction k)
  case 0
  then show ?case by (simp add: day_from_year_def)
next
  case (Suc k)
  have "1970 - int k = (1970 - int (Suc k)) + 1" by simp
  then show ?case using Suc day_from_year_succ [of "1970 - int (Suc k)"] by (auto split: if_splits)
qed

lemma year_from_day_bounds:
  "day_from_year (year_from_day n) \<le> n \<and> n < day_from_year (year_from_day n + 1)"
proof (cases "0 \<le> n")
  case True
  have "day_from_year (1970 + n div 366) \<le> n"
    using day_from_year_upper [of "nat (n div 366)"] True
    by (simp add: pos_imp_zdiv_nonneg_iff)
  then show ?thesis using True by (simp add: year_from_day_def year_up_bounds)
next
  case False
  then have "n div 365 \<le> 0" by (simp add: div_nonpos_pos_le0 order_less_imp_le)
  then have "day_from_year (1970 + n div 365) \<le> 365 * (n div 365)"
    using day_from_year_lower [of "nat (- (n div 365))"] by simp
  also have "\<dots> \<le> n" using mult_div_mod_eq [of 365 n] pos_mod_sign [of 365 n] by linarith
  finally show ?thesis using False by (simp add: year_from_day_def year_up_bounds)
qed

lemma day_from_year_mono: "y \<le> y' \<Longrightarrow> day_from_year y \<le> day_from_year y'"
proof -
  have "day_from_year y \<le> day_from_year (y + int k)" for k
  proof (induction k)
    case 0
    then show ?case by simp
  next
    case (Suc k)
    have e: "y + int (Suc k) = (y + int k) + 1" by simp
    show ?case using Suc day_from_year_succ [of "y + int k"] unfolding e by (auto split: if_splits)
  qed
  from this [of "nat (y' - y)"] show "y \<le> y' \<Longrightarrow> ?thesis" by simp
qed

lemma year_from_day_unique:
  assumes "day_from_year y \<le> n" "n < day_from_year (y + 1)"
  shows "year_from_day n = y"
proof (rule ccontr)
  assume ne: "year_from_day n \<noteq> y"
  let ?z = "year_from_day n"
  have b: "day_from_year ?z \<le> n" "n < day_from_year (?z + 1)" using year_from_day_bounds by auto
  show False
  proof (cases "?z < y")
    case True
    then have "day_from_year (?z + 1) \<le> day_from_year y" by (intro day_from_year_mono) simp
    with b assms show False by simp
  next
    case False
    with ne have "day_from_year (y + 1) \<le> day_from_year ?z" by (intro day_from_year_mono) simp
    with b assms show False by simp
  qed
qed

lemma month_cum_succ:
  assumes "1 \<le> m" "m < 12"
  shows "month_cum (leap y) (m + 1) = month_cum (leap y) m + month_len y m"
proof -
  have "m = 1 \<or> m = 2 \<or> m = 3 \<or> m = 4 \<or> m = 5 \<or> m = 6 \<or> m = 7 \<or> m = 8 \<or> m = 9 \<or> m = 10 \<or> m = 11"
    using assms by presburger
  then show ?thesis
    by (elim disjE; simp add: month_cum_def month_len_def)
qed

lemma month_cum_mono: "m \<le> m' \<Longrightarrow> month_cum l m \<le> month_cum l m'"
proof -
  have step: "month_cum l i \<le> month_cum l (i + 1)" for i
    by (auto simp: month_cum_def)
  have "month_cum l m \<le> month_cum l (m + int k)" for k
  proof (induction k)
    case 0
    then show ?case by simp
  next
    case (Suc k)
    have e: "m + int (Suc k) = (m + int k) + 1" by simp
    show ?case using Suc step [of "m + int k"] unfolding e by simp
  qed
  from this [of "nat (m' - m)"] show "m \<le> m' \<Longrightarrow> ?thesis" by simp
qed

lemma month_len_bounds: "28 \<le> month_len y m \<and> month_len y m \<le> 31"
  by (simp add: month_len_def)

lemma month_up_bounds:
  "1 \<le> m \<Longrightarrow> m \<le> 12 \<Longrightarrow> month_cum l m \<le> k \<Longrightarrow>
   1 \<le> month_up l m k \<and> month_up l m k \<le> 12 \<and> month_cum l (month_up l m k) \<le> k \<and>
   (month_up l m k < 12 \<longrightarrow> k < month_cum l (month_up l m k + 1))"
proof (induction l m k rule: month_up.induct)
  case (1 l m k)
  then show ?case
    by (cases "m < 12 \<and> month_cum l (m + 1) \<le> k") (auto simp: month_up.simps [of l m k])
qed

lemma month_of_doy_bounds:
  assumes "0 \<le> k" "k < (if leap y then 366 else 365)" "m = month_of_doy (leap y) k"
  shows "1 \<le> m" "m \<le> 12" "month_cum (leap y) m \<le> k" "k < month_cum (leap y) m + month_len y m"
proof -
  have b: "1 \<le> m \<and> m \<le> 12 \<and> month_cum (leap y) m \<le> k \<and>
      (m < 12 \<longrightarrow> k < month_cum (leap y) (m + 1))"
    using month_up_bounds [of 1 "leap y" k] assms(1) unfolding assms(3) month_of_doy_def
    by (simp add: month_cum_def [of _ 1])
  then show "1 \<le> m" "m \<le> 12" "month_cum (leap y) m \<le> k" by auto
  show "k < month_cum (leap y) m + month_len y m"
  proof (cases "m < 12")
    case True
    then show ?thesis using b month_cum_succ [of m y] by simp
  next
    case False
    then have "m = 12" using b by simp
    then show ?thesis using assms(2) by (simp add: month_cum_def month_len_def split: if_splits)
  qed
qed

lemma month_of_doy_cum:
  assumes m: "1 \<le> m" "m \<le> 12" and d: "1 \<le> d" "d \<le> month_len y m"
  shows "month_of_doy (leap y) (month_cum (leap y) m + d - 1) = m"
    "0 \<le> month_cum (leap y) m + d - 1"
    "month_cum (leap y) m + d - 1 < (if leap y then 366 else 365)"
proof -
  let ?k = "month_cum (leap y) m + d - 1" and ?m = "month_of_doy (leap y) (month_cum (leap y) m + d - 1)"
  show z: "0 \<le> ?k" using d month_cum_mono [of 1 m "leap y"] m by (simp add: month_cum_def [of _ 1])
  have top: "month_cum (leap y) m + month_len y m \<le> (if leap y then 366 else 365)"
  proof (cases "m < 12")
    case True
    then show ?thesis
      using month_cum_succ [of m y] m month_cum_mono [of "m + 1" 12 "leap y"]
      by (cases "leap y") (simp_all add: month_cum_def [of _ 12])
  next
    case False
    then have "m = 12" using m by simp
    then show ?thesis by (simp add: month_cum_def month_len_def)
  qed
  then show lt: "?k < (if leap y then 366 else 365)" using d by linarith
  note b = month_of_doy_bounds [OF z lt refl]
  show "?m = m"
  proof (rule ccontr)
    assume "?m \<noteq> m"
    then consider "?m + 1 \<le> m" | "m + 1 \<le> ?m" by linarith
    then show False
    proof cases
      case 1
      then have "month_cum (leap y) (?m + 1) \<le> month_cum (leap y) m" by (rule month_cum_mono)
      then show False using 1 b m d month_cum_succ [of ?m y] by simp
    next
      case 2
      then have "month_cum (leap y) (m + 1) \<le> month_cum (leap y) ?m" by (rule month_cum_mono)
      then show False using 2 b m d month_cum_succ [of m y] by simp
    qed
  qed
qed

lemma make_day_simple:
  "1 \<le> m \<Longrightarrow> m \<le> 12 \<Longrightarrow> make_day y m d = day_from_year y + month_cum (leap y) m + d - 1"
  by (simp add: make_day_def Let_def div_pos_pos_trivial mod_pos_pos_trivial)

lemma civil_of_day_doy:
  "0 \<le> n - day_from_year (year_from_day n) \<and>
   n - day_from_year (year_from_day n) < (if leap (year_from_day n) then 366 else 365)"
  using year_from_day_bounds [of n] day_from_year_succ [of "year_from_day n"] by auto

lemma civil_of_day_props:
  assumes "civil_of_day n = (y, m, d)"
  shows "valid_civil (y, m, d)" "make_day y m d = n" "year_from_day n = y"
proof -
  let ?k = "n - day_from_year y"
  have y: "y = year_from_day n" and m: "m = month_of_doy (leap y) ?k"
    and d: "d = ?k - month_cum (leap y) m + 1"
    using assms by (auto simp: civil_of_day_def Let_def)
  have k: "0 \<le> ?k" "?k < (if leap y then 366 else 365)"
    using civil_of_day_doy [of n] unfolding y by auto
  note b = month_of_doy_bounds [OF k m]
  show "valid_civil (y, m, d)" using b d by (simp add: valid_civil_def)
  show "make_day y m d = n" using b d by (simp add: make_day_simple)
  show "year_from_day n = y" using y by simp
qed

lemma civil_of_day_make_day:
  assumes "valid_civil (y, m, d)"
  shows "civil_of_day (make_day y m d) = (y, m, d)"
proof -
  have v: "1 \<le> m" "m \<le> 12" "1 \<le> d" "d \<le> month_len y m"
    using assms by (simp_all add: valid_civil_def)
  note c = month_of_doy_cum [OF v]
  have e: "make_day y m d = day_from_year y + (month_cum (leap y) m + d - 1)"
    using v by (simp add: make_day_simple)
  have "year_from_day (make_day y m d) = y"
    using c day_from_year_succ [of y] unfolding e by (intro year_from_day_unique) auto
  then show ?thesis using c by (simp add: civil_of_day_def Let_def e)
qed

section \<open>ISO dates\<close>

definition iso_shape :: "string \<Rightarrow> bool" where
  "iso_shape s \<longleftrightarrow> length s = 10 \<and> s ! 4 = CHR ''-'' \<and> s ! 7 = CHR ''-'' \<and>
     list_all is_digit (take 4 s) \<and> list_all is_digit (take 2 (drop 5 s)) \<and> list_all is_digit (drop 8 s)"

definition iso_fields :: "string \<Rightarrow> int \<times> int \<times> int" where
  "iso_fields s = (int (dec_val (take 4 s)), int (dec_val (take 2 (drop 5 s))), int (dec_val (drop 8 s)))"

text \<open>
  \<open>Date.parse\<close> of a \<open>yyyy-mm-dd\<close> date: Node accepts months 1 to 12 and days 1 to 31 and lets a day
  past the end of its month roll over; any other text is an invalid date (\<open>None\<close>).
\<close>

definition parse_iso :: "string \<Rightarrow> int option" where
  "parse_iso s =
     (case iso_fields s of (y, m, d) \<Rightarrow>
        if iso_shape s \<and> 1 \<le> m \<and> m \<le> 12 \<and> 1 \<le> d \<and> d \<le> 31 then Some (make_day y m d) else None)"

definition year_str :: "int \<Rightarrow> string" where
  "year_str y =
     (if 0 \<le> y \<and> y \<le> 9999 then pad_digits 4 (nat y)
      else (if y < 0 then CHR ''-'' else CHR ''+'') # pad_digits 6 (nat \<bar>y\<bar>))"

definition iso_of_civil :: "int \<times> int \<times> int \<Rightarrow> string" where
  "iso_of_civil t = (case t of (y, m, d) \<Rightarrow>
     year_str y @ [CHR ''-''] @ pad_digits 2 (nat m) @ [CHR ''-''] @ pad_digits 2 (nat d))"

text \<open>\<open>d.toISOString().slice(0, 10)\<close>\<close>

definition iso_of_day :: "int \<Rightarrow> string" where
  "iso_of_day n = take 10 (iso_of_civil (civil_of_day n))"

definition four_digit_year :: "int \<Rightarrow> bool" where
  "four_digit_year n \<longleftrightarrow> 0 \<le> year_from_day n \<and> year_from_day n \<le> 9999"

lemma iso_of_day_shape:
  assumes "four_digit_year n" "civil_of_day n = (y, m, d)"
  shows "iso_of_day n = pad_digits 4 (nat y) @ [CHR ''-''] @ pad_digits 2 (nat m) @ [CHR ''-''] @ pad_digits 2 (nat d)"
proof -
  have "year_str y = pad_digits 4 (nat y)"
    using assms civil_of_day_props(3) [OF assms(2)] by (simp add: year_str_def four_digit_year_def)
  then show ?thesis using assms(2) by (simp add: iso_of_day_def iso_of_civil_def)
qed

lemma iso_of_day_fields:
  assumes "four_digit_year n" "civil_of_day n = (y, m, d)"
  shows "iso_shape (iso_of_day n)" "iso_fields (iso_of_day n) = (y, m, d)"
proof -
  note p = civil_of_day_props [OF assms(2)]
  have v: "1 \<le> m" "m \<le> 12" "1 \<le> d" "d \<le> 31"
    using p(1) month_len_bounds [of y m] by (auto simp: valid_civil_def)
  have yb: "0 \<le> y" "y \<le> 9999" using assms(1) p(3) by (auto simp: four_digit_year_def)
  note s = iso_of_day_shape [OF assms]
  show "iso_fields (iso_of_day n) = (y, m, d)"
    using v yb by (simp add: s iso_fields_def dec_val_pad_digits)
  show "iso_shape (iso_of_day n)"
    by (simp add: s iso_shape_def nth_append pad_digits_digits)
qed

lemma parse_iso_of_day:
  assumes "four_digit_year n"
  shows "parse_iso (iso_of_day n) = Some n"
proof -
  obtain y m d where c: "civil_of_day n = (y, m, d)" by (metis prod_cases3)
  note p = civil_of_day_props [OF c]
  show ?thesis
    using p(1,2) month_len_bounds [of y m] iso_of_day_fields [OF assms c]
    by (simp add: parse_iso_def valid_civil_def)
qed

section \<open>The business week (lib/businessWeek.ts)\<close>

text \<open>An invalid date makes \<open>toISOString\<close> throw a \<open>RangeError\<close>: \<open>None\<close>.\<close>

definition addDaysIso :: "string \<Rightarrow> int \<Rightarrow> string option" where
  "addDaysIso s n = map_option (\<lambda>d. iso_of_day (d + n)) (parse_iso s)"

definition weekStartIso :: "string \<Rightarrow> string option" where
  "weekStartIso s =
     (case parse_iso s of None \<Rightarrow> None
      | Some d \<Rightarrow> addDaysIso s (- ((week_day d + 1) mod 7)))"

text \<open>
  The SQL form of the rule as a function of the day, with the server's \<open>DAYOFWEEK\<close> as a parameter
  (documented as 1 for Sunday to 7 for Saturday).
\<close>

definition weekStartSql :: "(int \<Rightarrow> int) \<Rightarrow> int \<Rightarrow> int" where
  "weekStartSql dayofweek d = d - dayofweek d mod 7"

definition week_start_day :: "int \<Rightarrow> int" where
  "week_start_day d = d - (week_day d + 1) mod 7"

section \<open>Reporting windows (measures/filters.ts)\<close>

text \<open>\<open>Date.UTC\<close> reads a year from 0 to 99 as 1900 to 1999.\<close>

definition utc_year :: "int \<Rightarrow> int" where
  "utc_year y = (if 0 \<le> y \<and> y \<le> 99 then 1900 + y else y)"

definition dateOnlyUTC :: "int \<Rightarrow> int \<Rightarrow> int \<Rightarrow> int" where
  "dateOnlyUTC year month1to12 day = make_day (utc_year year) month1to12 day"

definition utc_full_year :: "int \<Rightarrow> int" where
  "utc_full_year d = (case civil_of_day d of (y, m, dd) \<Rightarrow> y)"

definition utc_month :: "int \<Rightarrow> int" where
  "utc_month d = (case civil_of_day d of (y, m, dd) \<Rightarrow> m - 1)"

definition utc_date :: "int \<Rightarrow> int" where
  "utc_date d = (case civil_of_day d of (y, m, dd) \<Rightarrow> dd)"

text \<open>Day 0 of the next month is the last day of this month.\<close>

definition daysInMonth :: "int \<Rightarrow> int \<Rightarrow> int" where
  "daysInMonth year month1to12 = utc_date (make_day (utc_year year) (month1to12 + 1) 0)"

record date_window =
  win_start :: int
  win_end :: int

definition mtdWindow :: "int \<Rightarrow> date_window" where
  "mtdWindow anchor =
     (let y = utc_full_year anchor; m = utc_month anchor + 1
      in \<lparr>win_start = dateOnlyUTC y m 1, win_end = anchor\<rparr>)"

definition ytdWindow :: "int \<Rightarrow> date_window" where
  "ytdWindow anchor = \<lparr>win_start = dateOnlyUTC (utc_full_year anchor) 1 1, win_end = anchor\<rparr>"

definition todayUTC :: "int \<Rightarrow> int" where
  "todayUTC now = dateOnlyUTC (utc_full_year now) (utc_month now + 1) (utc_date now)"

definition parsePipelineAnchor :: "int \<Rightarrow> jsval \<Rightarrow> int" where
  "parsePipelineAnchor now raw =
     (let today = todayUTC now in
      case raw of
        JStr s \<Rightarrow>
          (if \<not> iso_shape s then today
           else (case iso_fields s of (y, m, d) \<Rightarrow>
             let parsed = dateOnlyUTC y m d in
             if utc_full_year parsed \<noteq> utc_full_year today \<or> parsed > today then today else parsed))
      | _ \<Rightarrow> today)"

definition shiftOneYearBack :: "int \<Rightarrow> int" where
  "shiftOneYearBack anchor =
     (let y = utc_full_year anchor - 1; m = utc_month anchor + 1; d = utc_date anchor
      in if m = 2 \<and> d = 29 \<and> daysInMonth y 2 < 29 then dateOnlyUTC y 2 28 else dateOnlyUTC y m d)"

definition lastYearMonthWindows :: "int \<Rightarrow> date_window \<times> date_window" where
  "lastYearMonthWindows anchor =
     (let sameDay = shiftOneYearBack anchor; y = utc_full_year sameDay; m = utc_month sameDay + 1;
          start = dateOnlyUTC y m 1
      in (\<lparr>win_start = start, win_end = sameDay\<rparr>,
          \<lparr>win_start = start, win_end = dateOnlyUTC y m (daysInMonth y m)\<rparr>))"

definition lmtdWindow :: "int \<Rightarrow> date_window" where
  "lmtdWindow anchor = fst (lastYearMonthWindows anchor)"

definition lytdWindow :: "int \<Rightarrow> date_window" where
  "lytdWindow anchor = ytdWindow (shiftOneYearBack anchor)"

definition flyWindow :: "int \<Rightarrow> date_window" where
  "flyWindow anchor =
     (let y = utc_full_year anchor - 1
      in \<lparr>win_start = dateOnlyUTC y 1 1, win_end = dateOnlyUTC y 12 31\<rparr>)"

definition flmWindow :: "int \<Rightarrow> date_window" where
  "flmWindow anchor = snd (lastYearMonthWindows anchor)"

section \<open>Target proration (measures/filters.ts)\<close>

text \<open>\<open>null\<close> and \<open>undefined\<close> targets are both \<open>None\<close>: the code never tells them apart.\<close>

definition monthElapsedFraction :: "int \<Rightarrow> rat" where
  "monthElapsedFraction anchor =
     (let y = utc_full_year anchor; m = utc_month anchor + 1; d = utc_date anchor
      in of_int d / of_int (daysInMonth y m))"

definition prorateMtdTarget :: "rat option \<Rightarrow> int \<Rightarrow> rat option" where
  "prorateMtdTarget fmTarget anchor =
     (case fmTarget of None \<Rightarrow> None | Some t \<Rightarrow> Some (t * monthElapsedFraction anchor))"

definition prorateYtdTarget :: "rat option \<Rightarrow> rat option \<Rightarrow> int \<Rightarrow> rat option" where
  "prorateYtdTarget completedMonthsTargetSum fmTargetCurrentMonth anchor =
     (if completedMonthsTargetSum = None \<and> fmTargetCurrentMonth = None then None
      else let completed = (case completedMonthsTargetSum of None \<Rightarrow> 0 | Some c \<Rightarrow> c);
               currentProrated = (case prorateMtdTarget fmTargetCurrentMonth anchor of None \<Rightarrow> 0 | Some c \<Rightarrow> c)
           in Some (completed + currentProrated))"

section \<open>Durations (marcomKpi/formulas.ts)\<close>

definition slice_int :: "string \<Rightarrow> nat \<Rightarrow> nat \<Rightarrow> int option" where
  "slice_int s i j = as_integer (string_to_number (take (j - i) (drop i s)))"

definition iso_utc :: "string \<Rightarrow> int option" where
  "iso_utc s =
     (case (slice_int s 0 4, slice_int s 5 7, slice_int s 8 10) of
        (Some y, Some m, Some d) \<Rightarrow> Some (dateOnlyUTC y m d)
      | _ \<Rightarrow> None)"

definition durationDays :: "string \<Rightarrow> string \<Rightarrow> int option" where
  "durationDays startIso endIso =
     (case (iso_utc startIso, iso_utc endIso) of
        (Some a, Some b) \<Rightarrow> Some (b - a)
      | _ \<Rightarrow> None)"

section \<open>What the windows are\<close>

lemma week_start_day_Saturday: "week_day (week_start_day d) = 6"
  unfolding week_day_def week_start_day_def by presburger

lemma week_start_day_bounds: "week_start_day d \<le> d \<and> d < week_start_day d + 7"
  unfolding week_day_def week_start_day_def by presburger

lemma week_start_day_idem: "week_start_day (week_start_day d) = week_start_day d"
  by (simp add: week_start_day_def [of "week_start_day d"] week_start_day_Saturday)

lemma week_start_day_unique: "week_day w = 6 \<Longrightarrow> w \<le> d \<Longrightarrow> d < w + 7 \<Longrightarrow> week_start_day d = w"
  unfolding week_day_def week_start_day_def by presburger

lemma weekStartIso_of_day:
  "four_digit_year d \<Longrightarrow> weekStartIso (iso_of_day d) = Some (iso_of_day (week_start_day d))"
  by (simp add: weekStartIso_def addDaysIso_def parse_iso_of_day week_start_day_def)

text \<open>The fields of a day, and the day of its fields.\<close>

lemma utc_fields:
  assumes "civil_of_day d = (y, m, dd)"
  shows "utc_full_year d = y" "utc_month d = m - 1" "utc_date d = dd"
  using assms by (simp_all add: utc_full_year_def utc_month_def utc_date_def)

lemma utc_year_id [simp]: "100 \<le> y \<Longrightarrow> utc_year y = y"
  by (simp add: utc_year_def)

lemma valid_civilD:
  "valid_civil (y, m, d) \<Longrightarrow> 1 \<le> m \<and> m \<le> 12 \<and> 1 \<le> d \<and> d \<le> month_len y m"
  by (simp add: valid_civil_def)

lemma make_day_last: "1 \<le> m \<Longrightarrow> m \<le> 12 \<Longrightarrow> make_day y (m + 1) 0 = make_day y m (month_len y m)"
proof (cases "m < 12")
  case True
  assume "1 \<le> m" "m \<le> 12"
  with True show ?thesis by (simp add: make_day_simple month_cum_succ)
next
  case False
  assume "1 \<le> m" "m \<le> 12"
  with False have "m = 12" by simp
  then show ?thesis
    using day_from_year_succ [of y] by (simp add: make_day_def Let_def month_cum_def month_len_def)
qed

lemma daysInMonth_eq:
  assumes "100 \<le> y" "1 \<le> m" "m \<le> 12"
  shows "daysInMonth y m = month_len y m"
proof -
  have "valid_civil (y, m, month_len y m)"
    using assms month_len_bounds [of y m] by (simp add: valid_civil_def)
  then show ?thesis
    using assms by (simp add: daysInMonth_def make_day_last utc_fields [OF civil_of_day_make_day])
qed

lemma shiftOneYearBack_eq:
  assumes "civil_of_day a = (y, m, d)" "101 \<le> y"
  shows "shiftOneYearBack a = make_day (y - 1) m (min d (month_len (y - 1) m))"
    "valid_civil (y - 1, m, min d (month_len (y - 1) m))"
proof -
  note v = valid_civilD [OF civil_of_day_props(1) [OF assms(1)]]
  have len: "m \<noteq> 2 \<Longrightarrow> month_len (y - 1) m = month_len y m" by (simp add: month_len_def)
  show "valid_civil (y - 1, m, min d (month_len (y - 1) m))"
    using v month_len_bounds [of "y - 1" m] by (simp add: valid_civil_def)
  have "daysInMonth (y - 1) 2 = month_len (y - 1) 2" using assms by (simp add: daysInMonth_eq)
  then show "shiftOneYearBack a = make_day (y - 1) m (min d (month_len (y - 1) m))"
    using v len assms
    by (cases "m = 2") (auto simp: shiftOneYearBack_def utc_fields Let_def dateOnlyUTC_def month_len_def min_def split: if_splits)
qed

lemma lastYearMonthWindows_eq:
  assumes "civil_of_day a = (y, m, d)" "101 \<le> y"
  shows "lastYearMonthWindows a =
    (\<lparr>win_start = make_day (y - 1) m 1, win_end = make_day (y - 1) m (min d (month_len (y - 1) m))\<rparr>,
     \<lparr>win_start = make_day (y - 1) m 1, win_end = make_day (y - 1) m (month_len (y - 1) m)\<rparr>)"
proof -
  note v = valid_civilD [OF civil_of_day_props(1) [OF assms(1)]]
  note s = shiftOneYearBack_eq [OF assms]
  note f = utc_fields [OF civil_of_day_make_day [OF s(2)]]
  show ?thesis
    using v assms by (simp add: lastYearMonthWindows_def Let_def s(1) f dateOnlyUTC_def daysInMonth_eq)
qed

lemma monthElapsedFraction_eq:
  assumes "civil_of_day a = (y, m, d)" "100 \<le> y"
  shows "monthElapsedFraction a = of_int d / of_int (month_len y m)"
  using valid_civilD [OF civil_of_day_props(1) [OF assms(1)]] assms
  by (simp add: monthElapsedFraction_def Let_def utc_fields daysInMonth_eq)

lemma monthElapsedFraction_bounds:
  assumes "100 \<le> utc_full_year a"
  shows "0 < monthElapsedFraction a \<and> monthElapsedFraction a \<le> 1"
proof -
  obtain y m d where c: "civil_of_day a = (y, m, d)" by (metis prod_cases3)
  then have "100 \<le> y" using assms by (simp add: utc_fields)
  then show ?thesis
    using valid_civilD [OF civil_of_day_props(1) [OF c]] month_len_bounds [of y m]
    by (simp add: monthElapsedFraction_eq [OF c])
qed

section \<open>Properties\<close>

text \<open>The business week: for a date with a four-digit year whose week also starts in such a year,
\<open>weekStartIso\<close> returns the ISO date of the one Saturday \<open>w\<close> with \<open>w \<le> d < w + 7\<close>, and applying it
again changes nothing.\<close>

theorem weekStartIso_Saturday:
  assumes "four_digit_year d" "four_digit_year (week_start_day d)"
  shows "weekStartIso (iso_of_day d) = Some (iso_of_day (week_start_day d)) \<and>
    weekStartIso (iso_of_day (week_start_day d)) = Some (iso_of_day (week_start_day d)) \<and>
    week_day (week_start_day d) = 6 \<and> week_start_day d \<le> d \<and> d < week_start_day d + 7"
  using assms week_start_day_bounds [of d]
  by (simp add: weekStartIso_of_day week_start_day_idem week_start_day_Saturday)

theorem weekStartIso_Saturday_witness:
  "weekStartIso (iso_of_day 20742) = Some (iso_of_day (week_start_day 20742)) \<and>
   week_day (week_start_day 20742) = 6"
proof -
  have "four_digit_year 20742" "four_digit_year (week_start_day 20742)" by code_simp+
  from weekStartIso_Saturday [OF this] show ?thesis by blast
qed

text \<open>The SQL form of the week rule agrees with the TypeScript form: where the server numbers the
week days 1 (Sunday) to 7 (Saturday), \<open>DATE_SUB(d, INTERVAL MOD(DAYOFWEEK(d), 7) DAY)\<close> is the day
\<open>weekStartIso\<close> names.\<close>

theorem weekStartSql_agrees:
  assumes "dayofweek d = week_day d + 1" "four_digit_year d"
  shows "weekStartIso (iso_of_day d) = Some (iso_of_day (weekStartSql dayofweek d))"
  using assms by (simp add: weekStartIso_of_day weekStartSql_def week_start_day_def)

theorem weekStartSql_agrees_witness:
  "weekStartIso (iso_of_day 20742) = Some (iso_of_day (weekStartSql (\<lambda>k. (k + 4) mod 7 + 1) 20742))"
proof -
  have "(\<lambda>k. (k + 4) mod 7 + 1) 20742 = week_day 20742 + 1" by (simp add: week_day_def)
  moreover have "four_digit_year 20742" by code_simp
  ultimately show ?thesis by (rule weekStartSql_agrees)
qed

text \<open>Last year's month windows: for an anchor \<open>y-m-d\<close>, LMTD runs from the first of the same month
a year earlier to the same day, or to the month's last day when last year's month is shorter
(29 February), LFM runs to that month's real last day, and LMTD is a non-empty prefix of LFM.\<close>

theorem last_year_windows:
  assumes "civil_of_day a = (y, m, d)" "101 \<le> y"
  shows "lmtdWindow a =
      \<lparr>win_start = make_day (y - 1) m 1, win_end = make_day (y - 1) m (min d (month_len (y - 1) m))\<rparr> \<and>
    flmWindow a =
      \<lparr>win_start = make_day (y - 1) m 1, win_end = make_day (y - 1) m (month_len (y - 1) m)\<rparr> \<and>
    win_start (lmtdWindow a) \<le> win_end (lmtdWindow a) \<and> win_end (lmtdWindow a) \<le> win_end (flmWindow a)"
proof -
  note v = valid_civilD [OF civil_of_day_props(1) [OF assms(1)]]
  have "1 \<le> min d (month_len (y - 1) m)" using v month_len_bounds [of "y - 1" m] by auto
  then show ?thesis
    using v by (simp add: lmtdWindow_def flmWindow_def lastYearMonthWindows_eq [OF assms] make_day_simple)
qed

theorem last_year_windows_witness:
  "lmtdWindow (make_day 2024 2 29) = \<lparr>win_start = make_day 2023 2 1, win_end = make_day 2023 2 28\<rparr>"
proof -
  have v: "valid_civil (2024, 2, 29)" by code_simp
  have "month_len 2023 2 = 28" by code_simp
  then show ?thesis
    using last_year_windows [OF civil_of_day_make_day [OF v]] by simp
qed

text \<open>Proration never exceeds the target: a month's target prorated to an anchor lies strictly above
zero and at most at the target for a positive target, it reaches the target exactly on the month's last
day, and a year-to-date target is at least the completed months' sum and at most that sum plus the
current month's full target.\<close>

theorem proration_bounds:
  assumes "civil_of_day a = (y, m, d)" "100 \<le> y" "0 < t"
  shows "\<exists>p. prorateMtdTarget (Some t) a = Some p \<and> 0 < p \<and> p \<le> t \<and> (p = t \<longleftrightarrow> d = month_len y m) \<and>
    prorateYtdTarget (Some c) (Some t) a = Some (c + p)"
proof -
  let ?f = "monthElapsedFraction a"
  note v = valid_civilD [OF civil_of_day_props(1) [OF assms(1)]]
  have f: "?f = of_int d / of_int (month_len y m)" by (rule monthElapsedFraction_eq [OF assms(1,2)])
  have b: "0 < ?f \<and> ?f \<le> 1"
    using monthElapsedFraction_bounds [of a] assms(1,2) by (simp add: utc_fields)
  have "?f = 1 \<longleftrightarrow> d = month_len y m" using v month_len_bounds [of y m] by (auto simp: f)
  then show ?thesis
    using b assms(3) by (simp add: prorateMtdTarget_def prorateYtdTarget_def)
qed

theorem proration_bounds_witness:
  "\<exists>p. prorateMtdTarget (Some 300) (make_day 2026 9 10) = Some p \<and> 0 < p \<and> p \<le> 300"
proof -
  have v: "valid_civil (2026, 9, 10)" by code_simp
  show ?thesis using proration_bounds [OF civil_of_day_make_day [OF v], of 300 0] by auto
qed

text \<open>The pipeline anchor is always a day of the current year that is not in the future, whatever the
client sent; a date of the current year up to today is taken as it is.\<close>

theorem pipeline_anchor_current_year:
  assumes "100 \<le> utc_full_year now"
  shows "utc_full_year (parsePipelineAnchor now raw) = utc_full_year now \<and> parsePipelineAnchor now raw \<le> now \<and>
    (utc_full_year p = utc_full_year now \<and> p \<le> now \<and> four_digit_year p \<longrightarrow>
       parsePipelineAnchor now (JStr (iso_of_day p)) = p)"
proof -
  obtain y m d where c: "civil_of_day now = (y, m, d)" by (metis prod_cases3)
  obtain y' m' d' where c': "civil_of_day p = (y', m', d')" by (metis prod_cases3)
  have t: "todayUTC now = now"
    using assms civil_of_day_props(2) [OF c] by (simp add: todayUTC_def dateOnlyUTC_def utc_fields [OF c])
  have "utc_full_year p = utc_full_year now \<Longrightarrow> dateOnlyUTC y' m' d' = p"
    using assms civil_of_day_props(2) [OF c'] by (simp add: dateOnlyUTC_def utc_fields [OF c'])
  then have "utc_full_year p = utc_full_year now \<and> p \<le> now \<and> four_digit_year p \<longrightarrow>
      parsePipelineAnchor now (JStr (iso_of_day p)) = p"
    using iso_of_day_fields [OF _ c'] by (simp add: parsePipelineAnchor_def t Let_def)
  then show ?thesis
    by (cases raw) (auto simp: parsePipelineAnchor_def t Let_def split: prod.splits)
qed

theorem pipeline_anchor_current_year_witness:
  "utc_full_year (parsePipelineAnchor 20742 (JStr ''2025-12-31'')) = 2026 \<and>
   parsePipelineAnchor 20742 (JStr ''2026-02-03'') = make_day 2026 2 3"
proof
  have y: "utc_full_year 20742 = 2026" by code_simp
  then show "utc_full_year (parsePipelineAnchor 20742 (JStr ''2025-12-31'')) = 2026"
    using pipeline_anchor_current_year [of 20742 "JStr ''2025-12-31''" 0] by simp
  show "parsePipelineAnchor 20742 (JStr ''2026-02-03'') = make_day 2026 2 3" by code_simp
qed

end
