(* ===== verification/Scope_Filters.thy ===== *)
theory Scope_Filters
  imports Js_Values
begin

text \<open>
  The filter model of the reports and its two access locks (\<open>backend/src/measures/filters.ts\<close>): the
  \<open>Filters\<close> object, the WHERE clause built from it, the salesperson lock, and the role data scope from
  stored rows to the values a request may use. A \<open>Filters\<close> object is a function from its keys to the
  selected values (\<open>None\<close> for an absent property). A clause is kept as the list of its conditions (the
  column or override-aware expression, and the bound values) and is given the meaning SQL gives it on
  a row; a NULL column is \<open>None\<close>.
\<close>

section \<open>Filters\<close>

datatype dimension =
  companyKeys | segmentKeys | channelKeys | salesTeamKeys | salespersonKeys | customerKeys

definition all_dimensions :: "dimension list" where
  "all_dimensions = [companyKeys, segmentKeys, channelKeys, salesTeamKeys, salespersonKeys, customerKeys]"

text \<open>Keys are numbers, those of \<open>salesTeamKeys\<close> strings.\<close>

datatype fkey = KNum jsnum | KStr string

type_synonym filters = "dimension \<Rightarrow> fkey list option"

definition EMPTY_FILTERS :: filters where
  "EMPTY_FILTERS = (\<lambda>d. None)"

definition selected :: "filters \<Rightarrow> dimension \<Rightarrow> fkey list" where
  "selected f d = (case f d of None \<Rightarrow> [] | Some vs \<Rightarrow> vs)"

lemma dimension_cases_all: "d \<in> set all_dimensions"
  by (cases d) (simp_all add: all_dimensions_def)

section \<open>The WHERE clause\<close>

text \<open>A fact row's columns, and the admin overrides of a salesperson (\<open>salesperson_admin_profile\<close>).\<close>

record fact_row =
  CompanyKey :: "fkey option"
  SegmentKey :: "fkey option"
  ChannelKey :: "fkey option"
  SalesTeamKey :: "fkey option"
  SalespersonKey :: "fkey option"
  CustomerKey :: "fkey option"

record admin_profile =
  segment_key_override :: "fkey option"
  channel_key_override :: "fkey option"
  sales_team_key_override :: "fkey option"

type_synonym profiles = "fkey \<rightharpoonup> admin_profile"

datatype column_expr =
    Column dimension
  | EffectiveSegment
  | EffectiveChannel
  | EffectiveSalesTeam

definition FILTER_COLUMNS :: "dimension \<Rightarrow> fact_row \<Rightarrow> fkey option" where
  "FILTER_COLUMNS d = (case d of companyKeys \<Rightarrow> CompanyKey | segmentKeys \<Rightarrow> SegmentKey
     | channelKeys \<Rightarrow> ChannelKey | salesTeamKeys \<Rightarrow> SalesTeamKey
     | salespersonKeys \<Rightarrow> SalespersonKey | customerKeys \<Rightarrow> CustomerKey)"

definition coalesce :: "'a option \<Rightarrow> 'a option \<Rightarrow> 'a option" where
  "coalesce a b = (case a of None \<Rightarrow> b | Some x \<Rightarrow> Some x)"

text \<open>The scalar subquery on the profile of the row's salesperson; NULL when there is none.\<close>

definition profile_of :: "profiles \<Rightarrow> fact_row \<Rightarrow> (admin_profile \<Rightarrow> fkey option) \<Rightarrow> fkey option" where
  "profile_of P r sel =
     (case SalespersonKey r of None \<Rightarrow> None
      | Some k \<Rightarrow> (case P k of None \<Rightarrow> None | Some p \<Rightarrow> sel p))"

definition num_key :: "int \<Rightarrow> fkey" where
  "num_key i = KNum (Fin (of_int i))"

definition effectiveSegmentExpr :: "profiles \<Rightarrow> fact_row \<Rightarrow> fkey option" where
  "effectiveSegmentExpr P r = coalesce (profile_of P r segment_key_override) (SegmentKey r)"

definition effectiveSalesTeamExpr :: "profiles \<Rightarrow> fact_row \<Rightarrow> fkey option" where
  "effectiveSalesTeamExpr P r = coalesce (profile_of P r sales_team_key_override) (SalesTeamKey r)"

definition effectiveChannelExpr :: "profiles \<Rightarrow> fact_row \<Rightarrow> fkey option" where
  "effectiveChannelExpr P r =
     coalesce (profile_of P r channel_key_override)
       (if ChannelKey r \<noteq> None \<and> ChannelKey r \<noteq> Some (num_key (-1)) then ChannelKey r
        else if effectiveSegmentExpr P r \<in> {Some (num_key 2), Some (num_key 3)} then Some (num_key 3)
        else if effectiveSegmentExpr P r \<in> {Some (num_key 1), Some (num_key 4)} then Some (num_key 2)
        else Some (num_key (-1)))"

definition OVERRIDE_EXPR :: "dimension \<Rightarrow> column_expr option" where
  "OVERRIDE_EXPR d = (case d of segmentKeys \<Rightarrow> Some EffectiveSegment
     | channelKeys \<Rightarrow> Some EffectiveChannel
     | salesTeamKeys \<Rightarrow> Some EffectiveSalesTeam
     | _ \<Rightarrow> None)"

fun eval_expr :: "profiles \<Rightarrow> column_expr \<Rightarrow> fact_row \<Rightarrow> fkey option" where
  "eval_expr P (Column d) r = FILTER_COLUMNS d r"
| "eval_expr P EffectiveSegment r = effectiveSegmentExpr P r"
| "eval_expr P EffectiveChannel r = effectiveChannelExpr P r"
| "eval_expr P EffectiveSalesTeam r = effectiveSalesTeamExpr P r"

text \<open>
  \<open>buildWhereClause\<close>: one \<open>expr IN (?, ...)\<close> per field with a selection, in field order, the customer
  field only where the query opts in. The parameters are the values of the conditions in order, and no
  condition at all is the clause \<open>1=1\<close>.
\<close>

type_synonym condition = "column_expr \<times> fkey list"

definition buildWhereClause :: "filters \<Rightarrow> bool \<Rightarrow> condition list" where
  "buildWhereClause f supportsCustomer =
     concat (map (\<lambda>field.
       if field = customerKeys \<and> \<not> supportsCustomer then []
       else if selected f field \<noteq> []
         then [(case OVERRIDE_EXPR field of None \<Rightarrow> Column field | Some e \<Rightarrow> e, selected f field)]
         else []) all_dimensions)"

definition clause_params :: "condition list \<Rightarrow> fkey list" where
  "clause_params cs = concat (map snd cs)"

definition holds_in :: "fkey option \<Rightarrow> fkey list \<Rightarrow> bool" where
  "holds_in v vs = (case v of None \<Rightarrow> False | Some k \<Rightarrow> k \<in> set vs)"

definition where_holds :: "profiles \<Rightarrow> condition list \<Rightarrow> fact_row \<Rightarrow> bool" where
  "where_holds P cs r = list_all (\<lambda>(e, vs). holds_in (eval_expr P e r) vs) cs"

text \<open>The CRM facts have no channel column.\<close>

definition buildCrmWhereClause :: "filters \<Rightarrow> condition list" where
  "buildCrmWhereClause f = buildWhereClause (f(channelKeys := None)) False"

text \<open>The status clauses of the opportunity queries and the cancelled-document clause.\<close>

definition openOpportunityClause :: "string option \<Rightarrow> bool" where
  "openOpportunityClause status = (status = Some ''Pending'')"

definition notArchivedClause :: "string option \<Rightarrow> bool" where
  "notArchivedClause status = (status \<in> {Some ''Pending'', Some ''Won'', Some ''Lost''})"

definition excludeLostClause :: "string option \<Rightarrow> bool" where
  "excludeLostClause status = (status \<in> {Some ''Pending'', Some ''Won''})"

definition excludeCancelledDocumentsClause :: "string option \<Rightarrow> bool" where
  "excludeCancelledDocumentsClause state = (coalesce state (Some []) \<noteq> Some ''cancel'')"

text \<open>The key of a row a field is matched against, and the rows a filter object lets through.\<close>

definition effective_key :: "profiles \<Rightarrow> fact_row \<Rightarrow> dimension \<Rightarrow> fkey option" where
  "effective_key P r d =
     (case d of segmentKeys \<Rightarrow> effectiveSegmentExpr P r
      | channelKeys \<Rightarrow> effectiveChannelExpr P r
      | salesTeamKeys \<Rightarrow> effectiveSalesTeamExpr P r
      | _ \<Rightarrow> FILTER_COLUMNS d r)"

type_synonym row_keys = "dimension \<Rightarrow> fkey option"

definition admits_at :: "filters \<Rightarrow> row_keys \<Rightarrow> dimension \<Rightarrow> bool" where
  "admits_at f r d = (selected f d = [] \<or> holds_in (r d) (selected f d))"

definition admits :: "filters \<Rightarrow> row_keys \<Rightarrow> bool" where
  "admits f r = list_all (admits_at f r) all_dimensions"

lemma admits_iff: "admits f r \<longleftrightarrow> (\<forall>d. admits_at f r d)"
  unfolding admits_def list_all_iff using dimension_cases_all by blast

section \<open>The salesperson lock\<close>

record user_context =
  roleCode :: string
  salespersonKey :: "jsnum option"
  roleId :: "int option"
  dataScopeRules :: "(dimension \<times> string) list"

datatype scope_error =
    SalespersonLockError_no_key
  | SalespersonLockError_other fkey
  | DataScopeError dimension "fkey list" "fkey list"

text \<open>\<open>===\<close> on keys: \<open>NaN\<close> is not equal to itself.\<close>

definition strict_eq :: "fkey \<Rightarrow> fkey \<Rightarrow> bool" where
  "strict_eq a b = (a = b \<and> a \<noteq> KNum NaN)"

definition applySalespersonLock :: "filters \<Rightarrow> user_context \<Rightarrow> scope_error + filters" where
  "applySalespersonLock f user =
     (if roleCode user \<noteq> ''SALESPERSON'' then Inr f
      else case salespersonKey user of
        None \<Rightarrow> Inl SalespersonLockError_no_key
      | Some key \<Rightarrow>
          (case List.find (\<lambda>k. \<not> strict_eq k (KNum key)) (selected f salespersonKeys) of
             Some other \<Rightarrow> Inl (SalespersonLockError_other other)
           | None \<Rightarrow> Inr (\<lambda>d. case d of
                 salespersonKeys \<Rightarrow> Some [KNum key]
               | customerKeys \<Rightarrow> f customerKeys
               | _ \<Rightarrow> Some [])))"

section \<open>Role data scope\<close>

datatype scope_operator = OpIn | OpNotIn

definition SCOPE_OPERATORS :: "(string \<times> scope_operator) list" where
  "SCOPE_OPERATORS = [(''in'', OpIn), (''not_in'', OpNotIn)]"

definition SCOPE_DIMENSIONS :: "dimension list" where
  "SCOPE_DIMENSIONS = [companyKeys, segmentKeys, channelKeys, salesTeamKeys, salespersonKeys]"

definition dimension_name :: "dimension \<Rightarrow> string" where
  "dimension_name d = (case d of companyKeys \<Rightarrow> ''companyKeys'' | segmentKeys \<Rightarrow> ''segmentKeys''
     | channelKeys \<Rightarrow> ''channelKeys'' | salesTeamKeys \<Rightarrow> ''salesTeamKeys''
     | salespersonKeys \<Rightarrow> ''salespersonKeys'' | customerKeys \<Rightarrow> ''customerKeys'')"

definition scope_dimension_of :: "string \<Rightarrow> dimension option" where
  "scope_dimension_of s = List.find (\<lambda>d. dimension_name d = s) SCOPE_DIMENSIONS"

record scope_rule =
  sr_dimension :: dimension
  sr_ruleNo :: int
  sr_operator :: scope_operator
  sr_values :: "string list"

definition scopeNoMatchValue :: "dimension \<Rightarrow> string" where
  "scopeNoMatchValue d = (if d = salesTeamKeys then ''__no_scope_match__'' else ''-2147483648'')"

text \<open>A stored row as it is read: columns a database lacks read as NULL.\<close>

record scope_row =
  row_dimension :: string
  row_rule_no :: "int option"
  row_operator :: "string option"
  row_value :: string

definition row_rule_number :: "scope_row \<Rightarrow> int" where
  "row_rule_number r = (let n = (case row_rule_no r of None \<Rightarrow> 1 | Some k \<Rightarrow> k) in if n = 0 then 1 else n)"

definition row_op :: "scope_row \<Rightarrow> scope_operator" where
  "row_op r = (if row_operator r = Some ''not_in'' then OpNotIn else OpIn)"

type_synonym rule_map = "((dimension \<times> int) \<times> scope_rule) list"

definition group_step :: "rule_map \<times> dimension list \<Rightarrow> scope_row \<Rightarrow> rule_map \<times> dimension list" where
  "group_step st r =
     (case scope_dimension_of (row_dimension r) of
        None \<Rightarrow> st
      | Some d \<Rightarrow>
          (let n = row_rule_number r; opr = row_op r; key = (d, n);
               order = (if d \<in> set (snd st) then snd st else snd st @ [d])
           in case map_of (fst st) key of
                None \<Rightarrow> (fst st @ [(key, \<lparr>sr_dimension = d, sr_ruleNo = n, sr_operator = opr, sr_values = [row_value r]\<rparr>)], order)
              | Some rule \<Rightarrow>
                  (let rule1 = (if opr = OpNotIn then rule\<lparr>sr_operator := OpNotIn\<rparr> else rule);
                       rule2 = (if row_value r \<in> set (sr_values rule1) then rule1
                                else rule1\<lparr>sr_values := sr_values rule1 @ [row_value r]\<rparr>)
                   in (AList.update key rule2 (fst st), order))))"

fun index_of :: "'a list \<Rightarrow> 'a \<Rightarrow> int" where
  "index_of [] x = -1"
| "index_of (y # ys) x = (if x = y then 0 else (let i = index_of ys x in if i < 0 then -1 else i + 1))"

definition groupScopeRows :: "scope_row list \<Rightarrow> scope_rule list" where
  "groupScopeRows rows =
     (let (byRule, order) = foldl group_step ([], []) rows
      in sort_key (\<lambda>r. index_of order (sr_dimension r)) (sort_key sr_ruleNo (map snd byRule)))"

definition combineDimensionRules :: "(scope_operator \<times> string list) list \<Rightarrow> string list \<Rightarrow> string list" where
  "combineDimensionRules rules domain =
     (let inRules = filter (\<lambda>r. fst r = OpIn) rules;
          excluded = concat (map snd (filter (\<lambda>r. fst r = OpNotIn) rules));
          allowed = (case inRules of
              [] \<Rightarrow> dedup domain
            | first # rest \<Rightarrow> fold (\<lambda>rule allowed. filter (\<lambda>v. v \<in> set (snd rule)) allowed) rest (dedup (snd first)))
      in filter (\<lambda>v. v \<notin> set excluded) allowed)"

definition rule_body :: "scope_rule \<Rightarrow> scope_operator \<times> string list" where
  "rule_body r = (sr_operator r, sr_values r)"

definition dimensionsNeedingDomain :: "scope_rule list \<Rightarrow> dimension list" where
  "dimensionsNeedingDomain rules =
     filter (\<lambda>d. let own = filter (\<lambda>r. sr_dimension r = d) rules
                 in own \<noteq> [] \<and> list_all (\<lambda>r. sr_operator r = OpNotIn) own) SCOPE_DIMENSIONS"

definition resolve_dimension :: "scope_rule list \<Rightarrow> (dimension \<Rightarrow> string list) \<Rightarrow> dimension \<Rightarrow> string list" where
  "resolve_dimension rules domain d =
     (let allowed = combineDimensionRules (map rule_body (filter (\<lambda>r. sr_dimension r = d) rules)) (domain d)
      in if allowed = [] then [scopeNoMatchValue d] else allowed)"

definition resolveRoleScope :: "scope_rule list \<Rightarrow> (dimension \<Rightarrow> string list) \<Rightarrow> (dimension \<times> string) list" where
  "resolveRoleScope rules domain =
     concat (map (\<lambda>d. map (\<lambda>v. (d, v)) (resolve_dimension rules domain d))
       (dedup (map sr_dimension rules)))"

definition castScopeValue :: "dimension \<Rightarrow> string \<Rightarrow> fkey" where
  "castScopeValue d v = (if d = salesTeamKeys then KStr v else KNum (string_to_number v))"

definition allowed_keys :: "(dimension \<times> string) list \<Rightarrow> dimension \<Rightarrow> fkey list" where
  "allowed_keys rules d = map (\<lambda>r. castScopeValue d (snd r)) (filter (\<lambda>r. fst r = d) rules)"

definition restrict_dimension ::
  "filters \<Rightarrow> (dimension \<times> string) list \<Rightarrow> dimension \<Rightarrow> filters \<Rightarrow> scope_error + filters" where
  "restrict_dimension f rules d result =
     (let allowed = allowed_keys rules d; requested = selected f d in
      if requested = [] then Inr (result(d := Some allowed))
      else let intersected = filter (\<lambda>v. v \<in> set allowed) requested in
        if intersected = [] then Inl (DataScopeError d requested allowed)
        else Inr (result(d := Some intersected)))"

fun restrict_all ::
  "filters \<Rightarrow> (dimension \<times> string) list \<Rightarrow> dimension list \<Rightarrow> filters \<Rightarrow> scope_error + filters" where
  "restrict_all f rules [] result = Inr result"
| "restrict_all f rules (d # ds) result =
     rbind (restrict_dimension f rules d result) (restrict_all f rules ds)"

definition applyRoleDataScope :: "filters \<Rightarrow> (dimension \<times> string) list \<Rightarrow> scope_error + filters" where
  "applyRoleDataScope f rules =
     (if rules = [] then Inr f else restrict_all f rules (dedup (map fst rules)) f)"

section \<open>Interfaces: what a guard on filters promises\<close>

text \<open>
  A guard turns the requested filters into the filters a query may use, or refuses. Its contract is
  that whatever passes the guarded filters is confined to a set of rows; a narrowing guard moreover
  never lets a row through that the request did not ask for.
\<close>

locale scope_guard =
  fixes guard :: "filters \<Rightarrow> 'e + filters"
    and confined :: "row_keys \<Rightarrow> bool"
  assumes confines: "guard f = Inr g \<Longrightarrow> admits g r \<Longrightarrow> confined r"

locale narrowing_guard = scope_guard +
  assumes narrows: "guard f = Inr g \<Longrightarrow> admits g r \<Longrightarrow> admits f r"
begin

lemma narrowed: "guard f = Inr g \<Longrightarrow> admits g r \<Longrightarrow> admits f r \<and> confined r"
  using confines narrows by blast

text \<open>A request refused by its own selection stays refused by every later selection of the guard.\<close>

lemma excluded: "guard f = Inr g \<Longrightarrow> \<not> admits f r \<or> \<not> confined r \<Longrightarrow> \<not> admits g r"
  using narrowed by blast

end

section \<open>Facts about the clause\<close>

lemma eval_override:
  "eval_expr P (case OVERRIDE_EXPR d of None \<Rightarrow> Column d | Some e \<Rightarrow> e) r = effective_key P r d"
  by (cases d) (simp_all add: OVERRIDE_EXPR_def effective_key_def)

lemma where_holds_build:
  "where_holds P (buildWhereClause f sc) r \<longleftrightarrow>
   (\<forall>d. (d = customerKeys \<longrightarrow> sc) \<longrightarrow> admits_at f (effective_key P r) d)"
proof -
  have "where_holds P (buildWhereClause f sc) r \<longleftrightarrow>
      (\<forall>d \<in> set all_dimensions. (d = customerKeys \<longrightarrow> sc) \<longrightarrow> admits_at f (effective_key P r) d)"
    by (auto simp: where_holds_def buildWhereClause_def list_all_iff admits_at_def eval_override)
  then show ?thesis using dimension_cases_all by blast
qed

section \<open>Facts about the role scope\<close>

lemma fold_filter_inter:
  "set (fold (\<lambda>rule allowed. filter (\<lambda>v. v \<in> set (snd rule)) allowed) rest xs) =
   {v \<in> set xs. \<forall>rule \<in> set rest. v \<in> set (snd rule)}"
  by (induction rest arbitrary: xs) auto

lemma combine_iff:
  "v \<in> set (combineDimensionRules rules domain) \<longleftrightarrow>
     (\<forall>(opr, vs) \<in> set rules. opr = OpIn \<longrightarrow> v \<in> set vs) \<and>
     (\<forall>(opr, vs) \<in> set rules. opr = OpNotIn \<longrightarrow> v \<notin> set vs) \<and>
     ((\<forall>(opr, vs) \<in> set rules. opr \<noteq> OpIn) \<longrightarrow> v \<in> set domain)"
proof -
  let ?in = "filter (\<lambda>r. fst r = OpIn) rules"
  have ins: "set ?in = {r \<in> set rules. fst r = OpIn}" by auto
  show ?thesis
  proof (cases ?in)
    case Nil
    then have "\<forall>(opr, vs) \<in> set rules. opr \<noteq> OpIn" by (auto simp: filter_empty_conv)
    then show ?thesis using Nil by (fastforce simp: combineDimensionRules_def)
  next
    case (Cons r rest)
    then have "r \<in> set ?in" by simp
    then have "r \<in> set rules \<and> fst r = OpIn" by simp
    then have "\<not> (\<forall>(opr, vs) \<in> set rules. opr \<noteq> OpIn)" by (cases r) auto
    moreover have "(\<forall>(opr, vs) \<in> set rules. opr = OpIn \<longrightarrow> v \<in> set vs) \<longleftrightarrow>
        (\<forall>q \<in> set (r # rest). v \<in> set (snd q))"
      unfolding Cons [symmetric] by auto
    ultimately show ?thesis
      using Cons by (fastforce simp: combineDimensionRules_def fold_filter_inter)
  qed
qed

lemma resolveRoleScope_iff:
  "(d, v) \<in> set (resolveRoleScope rules domain) \<longleftrightarrow>
     d \<in> sr_dimension ` set rules \<and> v \<in> set (resolve_dimension rules domain d)"
  by (auto simp: resolveRoleScope_def)

lemma resolve_dimension_nonempty [simp]: "resolve_dimension rules domain d \<noteq> []"
  by (simp add: resolve_dimension_def Let_def)

definition within_scope :: "(dimension \<times> string) list \<Rightarrow> row_keys \<Rightarrow> bool" where
  "within_scope rules r =
     list_all (\<lambda>d. holds_in (r d) (allowed_keys rules d)) (dedup (map fst rules))"

lemma within_scope_iff:
  "within_scope rules r \<longleftrightarrow> (\<forall>d \<in> fst ` set rules. holds_in (r d) (allowed_keys rules d))"
  by (simp add: within_scope_def list_all_iff)

lemma allowed_keys_nonempty: "d \<in> fst ` set rules \<Longrightarrow> allowed_keys rules d \<noteq> []"
  by (auto simp: allowed_keys_def filter_empty_conv)

text \<open>What one step of the restriction leaves selected.\<close>

definition scoped_selection :: "filters \<Rightarrow> (dimension \<times> string) list \<Rightarrow> dimension \<Rightarrow> fkey list" where
  "scoped_selection f rules d =
     (if selected f d = [] then allowed_keys rules d
      else filter (\<lambda>v. v \<in> set (allowed_keys rules d)) (selected f d))"

lemma restrict_dimension_simp:
  "restrict_dimension f rules d result =
     (if selected f d \<noteq> [] \<and> scoped_selection f rules d = []
      then Inl (DataScopeError d (selected f d) (allowed_keys rules d))
      else Inr (result(d := Some (scoped_selection f rules d))))"
  by (simp add: restrict_dimension_def scoped_selection_def Let_def)

lemma restrict_all_Inr:
  "restrict_all f rules ds result = Inr g \<Longrightarrow>
   (\<forall>d. g d = (if d \<in> set ds then Some (scoped_selection f rules d) else result d)) \<and>
   (\<forall>d \<in> set ds. selected f d \<noteq> [] \<longrightarrow> scoped_selection f rules d \<noteq> [])"
  by (induction ds arbitrary: result) (auto simp: restrict_dimension_simp split: if_splits)

lemma restrict_all_Inl:
  "(\<exists>e. restrict_all f rules ds result = Inl e) \<longleftrightarrow>
   (\<exists>d \<in> set ds. selected f d \<noteq> [] \<and> scoped_selection f rules d = [])"
  by (induction ds arbitrary: result) (auto simp: restrict_dimension_simp)

lemma applyRoleDataScope_selected:
  assumes "applyRoleDataScope f rules = Inr g"
  shows "selected g d = (if d \<in> fst ` set rules then scoped_selection f rules d else selected f d)"
    "d \<in> fst ` set rules \<Longrightarrow> scoped_selection f rules d \<noteq> []"
proof -
  note a = restrict_all_Inr [of f rules "dedup (map fst rules)" f g]
  show "selected g d = (if d \<in> fst ` set rules then scoped_selection f rules d else selected f d)"
    using a assms by (auto simp: applyRoleDataScope_def selected_def split: if_splits)
  assume d: "d \<in> fst ` set rules"
  then have "selected f d \<noteq> [] \<Longrightarrow> scoped_selection f rules d \<noteq> []"
    using a assms by (auto simp: applyRoleDataScope_def split: if_splits)
  then show "scoped_selection f rules d \<noteq> []"
    using allowed_keys_nonempty [OF d] by (auto simp: scoped_selection_def)
qed

lemma scoped_selection_subset:
  "set (scoped_selection f rules d) \<subseteq> set (allowed_keys rules d)"
  "selected f d \<noteq> [] \<Longrightarrow> set (scoped_selection f rules d) \<subseteq> set (selected f d)"
  by (auto simp: scoped_selection_def)

lemma holds_in_mono: "holds_in v xs \<Longrightarrow> set xs \<subseteq> set ys \<Longrightarrow> holds_in v ys"
  by (auto simp: holds_in_def split: option.splits)

lemma role_scope_at:
  assumes "applyRoleDataScope f rules = Inr g" "admits_at g r d"
  shows "admits_at f r d \<and> (d \<in> fst ` set rules \<longrightarrow> holds_in (r d) (allowed_keys rules d))"
proof -
  note sel = applyRoleDataScope_selected [OF assms(1)]
  have "holds_in (r d) (allowed_keys rules d)" if d: "d \<in> fst ` set rules"
  proof -
    have "holds_in (r d) (scoped_selection f rules d)"
      using assms(2) d sel(2) [OF d] unfolding admits_at_def sel(1) by simp
    then show ?thesis by (rule holds_in_mono [OF _ scoped_selection_subset(1)])
  qed
  moreover have "admits_at f r d"
    using assms(2) sel holds_in_mono [OF _ scoped_selection_subset(2)]
    by (cases "selected f d = []") (auto simp: admits_at_def split: if_splits)
  ultimately show ?thesis by blast
qed

lemma role_scope_exact_at:
  assumes "applyRoleDataScope f rules = Inr g"
  shows "admits_at g r d \<longleftrightarrow> admits_at f r d \<and> (d \<in> fst ` set rules \<longrightarrow> holds_in (r d) (allowed_keys rules d))"
proof
  assume "admits_at f r d \<and> (d \<in> fst ` set rules \<longrightarrow> holds_in (r d) (allowed_keys rules d))"
  then show "admits_at g r d"
    using applyRoleDataScope_selected(1) [OF assms, of d]
    by (auto simp: admits_at_def scoped_selection_def holds_in_def split: option.splits)
qed (rule role_scope_at [OF assms])

interpretation role_scope: narrowing_guard "\<lambda>f. applyRoleDataScope f rules" "within_scope rules" for rules
proof
  fix f g r
  assume g: "applyRoleDataScope f rules = Inr g" and r: "admits g r"
  show "within_scope rules r" using role_scope_at [OF g] r unfolding within_scope_iff admits_iff by blast
  show "admits f r" using role_scope_at [OF g] r unfolding admits_iff by blast
qed

text \<open>The lock confines a salesperson to their own rows and leaves every other user unconfined.\<close>

definition own_rows :: "user_context \<Rightarrow> row_keys \<Rightarrow> bool" where
  "own_rows user r =
     (roleCode user = ''SALESPERSON'' \<longrightarrow>
      (case salespersonKey user of None \<Rightarrow> False | Some k \<Rightarrow> r salespersonKeys = Some (KNum k)))"

interpretation lock: scope_guard "\<lambda>f. applySalespersonLock f user" "own_rows user" for user
proof
  fix f g r
  assume g: "applySalespersonLock f user = Inr g" and r: "admits g r"
  have "admits_at g r salespersonKeys" using r by (simp add: admits_iff)
  then show "own_rows user r"
    using g
    by (auto simp: own_rows_def applySalespersonLock_def admits_at_def selected_def holds_in_def
        split: if_splits option.splits)
qed

section \<open>Properties\<close>

text \<open>The key a row is counted under, independently of the SQL: an override of the row's salesperson wins, then
the row's own key; a row without a channel is counted under the majority channel of its segment (projects for B2B and
inter-company, retail for B2C and back office), and as unknown for any other segment.\<close>

definition override_at :: "dimension \<Rightarrow> admin_profile \<Rightarrow> fkey option" where
  "override_at d = (case d of segmentKeys \<Rightarrow> segment_key_override | channelKeys \<Rightarrow> channel_key_override
     | salesTeamKeys \<Rightarrow> sales_team_key_override | _ \<Rightarrow> (\<lambda>_. None))"

definition overridden :: "profiles \<Rightarrow> fact_row \<Rightarrow> dimension \<Rightarrow> fkey \<Rightarrow> bool" where
  "overridden P r d k \<longleftrightarrow> (\<exists>s p. SalespersonKey r = Some s \<and> P s = Some p \<and> override_at d p = Some k)"

definition own_key :: "profiles \<Rightarrow> fact_row \<Rightarrow> dimension \<Rightarrow> fkey \<Rightarrow> bool" where
  "own_key P r d k \<longleftrightarrow> (\<nexists>o'. overridden P r d o') \<and>
     (case d of companyKeys \<Rightarrow> CompanyKey r | segmentKeys \<Rightarrow> SegmentKey r | channelKeys \<Rightarrow> ChannelKey r
       | salesTeamKeys \<Rightarrow> SalesTeamKey r | salespersonKeys \<Rightarrow> SalespersonKey r | customerKeys \<Rightarrow> CustomerKey r) = Some k"

definition segment_channels :: "(int \<times> int) list" where
  "segment_channels = [(1, 2), (2, 3), (3, 3), (4, 2)]"

definition channel_unknown :: "profiles \<Rightarrow> fact_row \<Rightarrow> bool" where
  "channel_unknown P r \<longleftrightarrow> (\<nexists>o'. overridden P r channelKeys o') \<and> (\<forall>k. ChannelKey r = Some k \<longrightarrow> k = num_key (-1))"

inductive counts_under :: "profiles \<Rightarrow> fact_row \<Rightarrow> dimension \<Rightarrow> fkey \<Rightarrow> bool" where
  by_override: "overridden P r d k \<Longrightarrow> counts_under P r d k"
| by_column: "own_key P r d k \<Longrightarrow> d = channelKeys \<longrightarrow> k \<noteq> num_key (-1) \<Longrightarrow> counts_under P r d k"
| by_segment: "channel_unknown P r \<Longrightarrow> overridden P r segmentKeys (num_key s) \<or> own_key P r segmentKeys (num_key s) \<Longrightarrow>
    (s, c) \<in> set segment_channels \<Longrightarrow> counts_under P r channelKeys (num_key c)"
| still_unknown: "channel_unknown P r \<Longrightarrow>
    (\<And>s c. (s, c) \<in> set segment_channels \<Longrightarrow> \<not> overridden P r segmentKeys (num_key s) \<and> \<not> own_key P r segmentKeys (num_key s)) \<Longrightarrow>
    counts_under P r channelKeys (num_key (-1))"

inductive_cases counts_underE: "counts_under P r d k"

lemma num_key_inject [simp]: "num_key i = num_key j \<longleftrightarrow> i = j"
  by (simp add: num_key_def)

lemma overridden_profile:
  "overridden P r segmentKeys k \<longleftrightarrow> profile_of P r segment_key_override = Some k"
  "overridden P r channelKeys k \<longleftrightarrow> profile_of P r channel_key_override = Some k"
  "overridden P r salesTeamKeys k \<longleftrightarrow> profile_of P r sales_team_key_override = Some k"
  "\<not> overridden P r companyKeys k" "\<not> overridden P r salespersonKeys k" "\<not> overridden P r customerKeys k"
  by (auto simp: overridden_def override_at_def profile_of_def split: option.splits)

lemma coalesce_iff: "coalesce a b = Some k \<longleftrightarrow> a = Some k \<or> a = None \<and> b = Some k"
  by (auto simp: coalesce_def split: option.split)

lemma segment_or: "overridden P r segmentKeys k \<or> own_key P r segmentKeys k \<longleftrightarrow> effectiveSegmentExpr P r = Some k"
  by (auto simp: effectiveSegmentExpr_def coalesce_iff overridden_profile own_key_def)

lemma channel_unknown_iff:
  "channel_unknown P r \<longleftrightarrow> profile_of P r channel_key_override = None \<and> (ChannelKey r = None \<or> ChannelKey r = Some (num_key (-1)))"
  by (cases "ChannelKey r") (auto simp: channel_unknown_def overridden_profile)

lemma channel_counts: "counts_under P r channelKeys k \<longleftrightarrow> effectiveChannelExpr P r = Some k"
proof
  assume "counts_under P r channelKeys k"
  then show "effectiveChannelExpr P r = Some k"
  proof (cases rule: counts_under.cases)
    case (by_segment s c)
    then show ?thesis
      unfolding segment_or channel_unknown_iff by (auto simp: effectiveChannelExpr_def coalesce_iff segment_channels_def)
  next
    case still_unknown
    then have "\<not> (\<exists>s c. (s, c) \<in> set segment_channels \<and> effectiveSegmentExpr P r = Some (num_key s))" by (metis segment_or)
    then show ?thesis
      using still_unknown(1,2) unfolding channel_unknown_iff by (auto simp: effectiveChannelExpr_def coalesce_iff segment_channels_def)
  qed (auto simp: effectiveChannelExpr_def coalesce_iff overridden_profile own_key_def)
next
  assume e: "effectiveChannelExpr P r = Some k"
  show "counts_under P r channelKeys k"
  proof (cases "channel_unknown P r")
    case True
    show ?thesis
    proof (cases "\<exists>s c. (s, c) \<in> set segment_channels \<and> effectiveSegmentExpr P r = Some (num_key s)")
      case seg: True
      then obtain s c where sc: "(s, c) \<in> set segment_channels" "effectiveSegmentExpr P r = Some (num_key s)" by blast
      then have "k = num_key c"
        using e True unfolding channel_unknown_iff by (auto simp: effectiveChannelExpr_def coalesce_iff segment_channels_def)
      then show ?thesis using by_segment [OF True _ sc(1)] sc(2) segment_or by blast
    next
      case False
      then have "k = num_key (-1)"
        using e True unfolding channel_unknown_iff
        by (auto simp: effectiveChannelExpr_def coalesce_iff segment_channels_def split: if_splits)
      then show ?thesis using still_unknown [OF True] False segment_or by blast
    qed
  next
    case False
    then have "overridden P r channelKeys k \<or> own_key P r channelKeys k \<and> k \<noteq> num_key (-1)"
      using e unfolding channel_unknown_iff
      by (auto simp: effectiveChannelExpr_def coalesce_iff overridden_profile own_key_def split: if_splits)
    then show ?thesis using by_override by_column by blast
  qed
qed

lemma counts_under_iff: "counts_under P r d k \<longleftrightarrow> effective_key P r d = Some k"
proof (cases "d = channelKeys")
  case False
  then have "counts_under P r d k \<longleftrightarrow> overridden P r d k \<or> own_key P r d k"
    by (auto intro: by_override by_column elim: counts_underE)
  then show ?thesis
    using False
    by (cases d) (auto simp: effective_key_def FILTER_COLUMNS_def overridden_profile own_key_def effectiveSegmentExpr_def
        effectiveSalesTeamExpr_def coalesce_iff)
qed (simp add: channel_counts effective_key_def)

lemma admits_at_counts:
  "admits_at f (effective_key P r) d \<longleftrightarrow> selected f d = [] \<or> (\<exists>k \<in> set (selected f d). counts_under P r d k)"
  by (auto simp: admits_at_def holds_in_def counts_under_iff split: option.splits)

text \<open>C30. The WHERE clause selects exactly the intended rows: a row satisfies the clause built from a
filter object iff, for every field with a selection (the customer field only where the query supports it; neither the
customer nor the channel field in a CRM query), the row counts under one of the selected values: the override of
segment, channel or branch its salesperson has, else its own key, and for a row without a channel the channel its
segment points to -- B2B and inter-company to projects, B2C and back office to retail, any other to none.\<close>

theorem where_clause_meaning:
  "(where_holds P (buildWhereClause f sc) r \<longleftrightarrow>
     (\<forall>d. (d = customerKeys \<longrightarrow> sc) \<longrightarrow> selected f d = [] \<or> (\<exists>k \<in> set (selected f d). counts_under P r d k))) \<and>
   (where_holds P (buildCrmWhereClause f) r \<longleftrightarrow>
     (\<forall>d. d \<noteq> customerKeys \<longrightarrow> d \<noteq> channelKeys \<longrightarrow> selected f d = [] \<or> (\<exists>k \<in> set (selected f d). counts_under P r d k)))"
proof -
  have "admits_at (f(channelKeys := None)) (effective_key P r) d \<longleftrightarrow> d = channelKeys \<or> admits_at f (effective_key P r) d" for d
    by (simp add: admits_at_def selected_def)
  then show ?thesis unfolding buildCrmWhereClause_def where_holds_build admits_at_counts by auto
qed

theorem where_clause_meaning_witness:
  "where_holds (\<lambda>_. None)
     (buildWhereClause (EMPTY_FILTERS(channelKeys := Some [num_key 2])) False)
     \<lparr>CompanyKey = Some (num_key 1), SegmentKey = Some (num_key 4), ChannelKey = Some (num_key (-1)),
      SalesTeamKey = None, SalespersonKey = None, CustomerKey = None\<rparr>"
proof -
  let ?r = "\<lparr>CompanyKey = Some (num_key 1), SegmentKey = Some (num_key 4), ChannelKey = Some (num_key (-1)),
      SalesTeamKey = None, SalespersonKey = None, CustomerKey = None\<rparr>"
  have "channel_unknown (\<lambda>_. None) ?r" "own_key (\<lambda>_. None) ?r segmentKeys (num_key 4)" "(4, 2) \<in> set segment_channels"
    by (auto simp: channel_unknown_def own_key_def overridden_def segment_channels_def)
  then have "counts_under (\<lambda>_. None) ?r channelKeys (num_key 2)" using by_segment by blast
  then show ?thesis
    using where_clause_meaning [of "\<lambda>_. None" "EMPTY_FILTERS(channelKeys := Some [num_key 2])" False ?r]
    by (auto simp: EMPTY_FILTERS_def selected_def)
qed

text \<open>The three kinds of clause the measures build, and the fields each of them applies.\<close>

datatype clause_kind = With_customers | Without_customers | Crm_facts

definition measure_clause :: "clause_kind \<Rightarrow> filters \<Rightarrow> condition list" where
  "measure_clause kind f = (case kind of With_customers \<Rightarrow> buildWhereClause f True
     | Without_customers \<Rightarrow> buildWhereClause f False | Crm_facts \<Rightarrow> buildCrmWhereClause f)"

definition applied :: "clause_kind \<Rightarrow> dimension \<Rightarrow> bool" where
  "applied kind d \<longleftrightarrow> (d = customerKeys \<longrightarrow> kind = With_customers) \<and> (d = channelKeys \<longrightarrow> kind \<noteq> Crm_facts)"

lemma measure_clause_iff:
  "where_holds P (measure_clause kind f) r \<longleftrightarrow> (\<forall>d. applied kind d \<longrightarrow> admits_at f (effective_key P r) d)"
proof (cases kind)
  case Crm_facts
  have "admits_at (f(channelKeys := None)) (effective_key P r) d \<longleftrightarrow> d = channelKeys \<or> admits_at f (effective_key P r) d" for d
    by (simp add: admits_at_def selected_def)
  then show ?thesis using Crm_facts by (auto simp: measure_clause_def applied_def buildCrmWhereClause_def where_holds_build)
qed (auto simp: measure_clause_def applied_def where_holds_build)

text \<open>The specification of a dimension's rules taken together: every ``is any of'' rule lists the value, no
``is none of'' rule does, and without an ``is any of'' rule it is a current key of the dimension.\<close>

definition rule_allows :: "scope_rule list \<Rightarrow> (dimension \<Rightarrow> string list) \<Rightarrow> dimension \<Rightarrow> string \<Rightarrow> bool" where
  "rule_allows rules domain d v =
     (let own = filter (\<lambda>r. sr_dimension r = d) rules in
      list_all (\<lambda>r. if sr_operator r = OpIn then v \<in> set (sr_values r) else v \<notin> set (sr_values r)) own \<and>
      (list_all (\<lambda>r. sr_operator r = OpNotIn) own \<longrightarrow> v \<in> set (domain d)))"

lemma combine_rule_allows:
  "v \<in> set (combineDimensionRules (map rule_body (filter (\<lambda>r. sr_dimension r = d) rules)) (domain d)) \<longleftrightarrow>
   rule_allows rules domain d v"
proof -
  have neg: "opr \<noteq> OpIn \<longleftrightarrow> opr = OpNotIn" for opr by (cases opr) auto
  show ?thesis
    by (auto simp: combine_iff rule_allows_def rule_body_def Let_def list_all_iff neg)
qed

lemma resolve_dimension_iff:
  "v \<in> set (resolve_dimension rules domain d) \<longleftrightarrow>
    (if \<exists>w. rule_allows rules domain d w then rule_allows rules domain d v else v = scopeNoMatchValue d)"
proof -
  let ?c = "combineDimensionRules (map rule_body (filter (\<lambda>r. sr_dimension r = d) rules)) (domain d)"
  have "?c = [] \<longleftrightarrow> \<not> (\<exists>w. rule_allows rules domain d w)"
    using combine_rule_allows [of _ d rules domain] by (metis list.set_intros(1) neq_Nil_conv empty_iff empty_set)
  then show ?thesis
    using combine_rule_allows [of v d rules domain] by (auto simp: resolve_dimension_def Let_def)
qed

lemma role_scope_total:
  assumes "\<And>d. selected f d = []"
  shows "\<exists>g. applyRoleDataScope f rules = Inr g"
proof -
  have "\<not> (\<exists>e. restrict_all f rules (dedup (map fst rules)) f = Inl e)"
    unfolding restrict_all_Inl using assms by simp
  then show ?thesis
    by (cases "applyRoleDataScope f rules") (auto simp: applyRoleDataScope_def split: if_splits)
qed

lemma lock_exact:
  assumes "roleCode user = ''SALESPERSON''" "salespersonKey user = Some k" "k \<noteq> NaN"
  shows "if \<forall>v \<in> set (selected f salespersonKeys). v = KNum k
    then \<exists>g. applySalespersonLock f user = Inr g \<and>
       (\<forall>r. admits g r \<longleftrightarrow> r salespersonKeys = Some (KNum k) \<and> admits_at f r customerKeys)
    else \<exists>v. v \<noteq> KNum k \<and> applySalespersonLock f user = Inl (SalespersonLockError_other v)"
proof -
  let ?g = "\<lambda>d. case d of salespersonKeys \<Rightarrow> Some [KNum k] | customerKeys \<Rightarrow> f customerKeys | _ \<Rightarrow> Some []"
  have adm: "admits ?g r \<longleftrightarrow> r salespersonKeys = Some (KNum k) \<and> admits_at f r customerKeys" for r
    by (auto simp: admits_def all_dimensions_def admits_at_def selected_def holds_in_def split: option.splits)
  have eq: "strict_eq v (KNum k) \<longleftrightarrow> v = KNum k" for v
    using assms by (auto simp: strict_eq_def)
  show ?thesis
  proof (cases "List.find (\<lambda>v. \<not> strict_eq v (KNum k)) (selected f salespersonKeys)")
    case None
    moreover from None have "\<forall>v \<in> set (selected f salespersonKeys). v = KNum k"
      by (simp add: find_None_iff eq)
    moreover have "applySalespersonLock f user = Inr ?g"
      using assms None by (simp add: applySalespersonLock_def)
    ultimately show ?thesis using adm by simp
  next
    case (Some w)
    then have w: "w \<in> set (selected f salespersonKeys)" "w \<noteq> KNum k"
      using find_SomeD [OF Some] by (auto simp: eq)
    moreover have "applySalespersonLock f user = Inl (SalespersonLockError_other w)"
      using assms Some by (simp add: applySalespersonLock_def)
    ultimately show ?thesis by auto
  qed
qed

text \<open>Resolution of a role's rules: a dimension with at least one rule resolves to exactly the values
its rules allow together (\<open>rule_allows\<close>); when no value is left it resolves to the no-match value alone,
never to nothing, and a dimension without a rule does not occur in the result.\<close>

theorem role_scope_resolution:
  "(d, v) \<in> set (resolveRoleScope rules domain) \<longleftrightarrow>
    (\<exists>r \<in> set rules. sr_dimension r = d) \<and>
    (if \<exists>w. rule_allows rules domain d w then rule_allows rules domain d v else v = scopeNoMatchValue d)"
  by (simp add: resolveRoleScope_iff resolve_dimension_iff) blast

theorem role_scope_resolution_witness:
  "(companyKeys, ''3'') \<in> set (resolveRoleScope
     [\<lparr>sr_dimension = companyKeys, sr_ruleNo = 1, sr_operator = OpNotIn, sr_values = [''1'']\<rparr>]
     (\<lambda>_. [''1'', ''2'', ''3'']))"
proof -
  let ?R = "[\<lparr>sr_dimension = companyKeys, sr_ruleNo = 1, sr_operator = OpNotIn, sr_values = [''1'']\<rparr>]"
  have "rule_allows ?R (\<lambda>_. [''1'', ''2'', ''3'']) companyKeys ''3''" by code_simp
  then show ?thesis unfolding role_scope_resolution by auto
qed

text \<open>C15. The role data scope only restricts: filters that pass it let a row through only if the request
asked for the row and every ruled dimension of the row has one of the allowed values; an empty request
on a ruled dimension becomes the whole allowed set, and a request is refused exactly when some ruled
dimension is requested with no allowed value in it.\<close>

theorem role_scope_restricts:
  "(applyRoleDataScope f rules = Inr g \<longrightarrow> admits g r \<longrightarrow> admits f r \<and> within_scope rules r) \<and>
   ((\<exists>e. applyRoleDataScope f rules = Inl e) \<longleftrightarrow>
      (\<exists>d \<in> fst ` set rules. selected f d \<noteq> [] \<and> set (selected f d) \<inter> set (allowed_keys rules d) = {})) \<and>
   (applyRoleDataScope f rules = Inr g \<longrightarrow> d \<in> fst ` set rules \<longrightarrow> selected f d = [] \<longrightarrow>
      selected g d = allowed_keys rules d)"
proof -
  have ne: "scoped_selection f rules d = [] \<longleftrightarrow> set (selected f d) \<inter> set (allowed_keys rules d) = {}"
    if "selected f d \<noteq> []" for d
    using that by (auto simp: scoped_selection_def filter_empty_conv)
  have "(\<exists>e. applyRoleDataScope f rules = Inl e) \<longleftrightarrow>
      (\<exists>d \<in> fst ` set rules. selected f d \<noteq> [] \<and> scoped_selection f rules d = [])"
    by (cases "rules = []") (simp_all add: applyRoleDataScope_def restrict_all_Inl)
  then show ?thesis
    using ne role_scope.narrowed [of f rules g r] applyRoleDataScope_selected(1) [of f rules g d]
    by (auto simp: scoped_selection_def)
qed

theorem role_scope_restricts_witness:
  "\<exists>e. applyRoleDataScope (EMPTY_FILTERS(segmentKeys := Some [num_key 2])) [(segmentKeys, ''1'')] = Inl e"
proof -
  have n: "string_to_number ''1'' = Fin 1" by code_simp
  have "set (selected (EMPTY_FILTERS(segmentKeys := Some [num_key 2])) segmentKeys) \<inter>
      set (allowed_keys [(segmentKeys, ''1'')] segmentKeys) = {}"
    by (simp add: selected_def allowed_keys_def castScopeValue_def n num_key_def)
  then show ?thesis
    using role_scope_restricts [of "EMPTY_FILTERS(segmentKeys := Some [num_key 2])" "[(segmentKeys, ''1'')]"]
    by (auto simp: selected_def)
qed

text \<open>C21. The salesperson lock: for a salesperson with a key, a request that names no other salesperson is
turned into filters that let through exactly the rows of that salesperson (within the customer
selection), a request that names another one is refused, and so is every request of a salesperson
without a key; other users' filters are returned unchanged.\<close>

theorem salesperson_lock_exact:
  "(roleCode user \<noteq> ''SALESPERSON'' \<longrightarrow> applySalespersonLock f user = Inr f) \<and>
   (roleCode user = ''SALESPERSON'' \<and> salespersonKey user = None \<longrightarrow>
      applySalespersonLock f user = Inl SalespersonLockError_no_key) \<and>
   (roleCode user = ''SALESPERSON'' \<and> salespersonKey user = Some k \<and> k \<noteq> NaN \<longrightarrow>
      (if \<forall>v \<in> set (selected f salespersonKeys). v = KNum k
       then \<exists>g. applySalespersonLock f user = Inr g \<and>
          (\<forall>r. admits g r \<longleftrightarrow> r salespersonKeys = Some (KNum k) \<and> admits_at f r customerKeys)
       else \<exists>v. v \<noteq> KNum k \<and> applySalespersonLock f user = Inl (SalespersonLockError_other v)))"
proof -
  have "applySalespersonLock f user = Inr f" if "roleCode user \<noteq> ''SALESPERSON''"
    using that by (simp add: applySalespersonLock_def)
  moreover have "applySalespersonLock f user = Inl SalespersonLockError_no_key"
    if "roleCode user = ''SALESPERSON''" "salespersonKey user = None"
    using that by (simp add: applySalespersonLock_def)
  ultimately show ?thesis using lock_exact [of user k f] by blast
qed

theorem salesperson_lock_exact_witness:
  "\<exists>g. applySalespersonLock (EMPTY_FILTERS(companyKeys := Some [num_key 4]))
     \<lparr>roleCode = ''SALESPERSON'', salespersonKey = Some (Fin 7), roleId = None, dataScopeRules = []\<rparr> = Inr g \<and>
     (\<forall>r. admits g r \<longrightarrow> r salespersonKeys = Some (KNum (Fin 7)))"
  using salesperson_lock_exact [of "\<lparr>roleCode = ''SALESPERSON'', salespersonKey = Some (Fin 7), roleId = None, dataScopeRules = []\<rparr>"
      "EMPTY_FILTERS(companyKeys := Some [num_key 4])" "Fin 7"]
  by (auto simp: EMPTY_FILTERS_def selected_def)

end
