(* ===== verification/Data_Scope.thy ===== *)
theory Data_Scope
  imports Scope_Filters
begin

text \<open>
  The role data scope as it is stored and served: reading, validating and saving a role's rules
  (\<open>backend/src/services/dataScopeService.ts\<close>) and the request middleware that applies the resolved
  scope and the salesperson lock (\<open>backend/src/middleware/scopeContext.ts\<close>). The database state is the
  table \<open>role_data_scope\<close> in \<open>scope_id\<close> order, which of its two optional columns exist, and the keys of
  the dimension tables; a transaction that fails leaves the state as it was.
\<close>

section \<open>State\<close>

record scope_columns =
  col_operator :: bool
  col_ruleNo :: bool

record scope_table_row =
  t_role_id :: int
  t_dimension :: string
  t_rule_no :: int
  t_operator :: string
  t_value :: string

record scope_db =
  sdb_rows :: "scope_table_row list"
  sdb_columns :: scope_columns
  sdb_keys :: "dimension \<Rightarrow> string list"

datatype save_error =
    UnknownDimension string
  | BadOperator
  | ValuesNotAList
  | NoValues
  | BadValue
  | UnknownValues "string list"
  | NoMatch
  | NeedsMigration0044
  | NeedsMigration0056
  | RuleGone

section \<open>Reading\<close>

text \<open>
  The three SELECT variants are tried in order; a missing column fails the variant. The rows come
  ordered by \<open>rule_no\<close> (where it exists), then \<open>scope_id\<close>.
\<close>

definition read_columns :: "scope_db \<Rightarrow> scope_columns" where
  "read_columns db =
     (if col_operator (sdb_columns db) \<and> col_ruleNo (sdb_columns db)
        then \<lparr>col_operator = True, col_ruleNo = True\<rparr>
      else if col_operator (sdb_columns db) then \<lparr>col_operator = True, col_ruleNo = False\<rparr>
      else \<lparr>col_operator = False, col_ruleNo = False\<rparr>)"

definition as_scope_row :: "scope_columns \<Rightarrow> scope_table_row \<Rightarrow> scope_row" where
  "as_scope_row c r =
     \<lparr>row_dimension = t_dimension r,
      row_rule_no = (if col_ruleNo c then Some (t_rule_no r) else None),
      row_operator = (if col_operator c then Some (t_operator r) else None),
      row_value = t_value r\<rparr>"

definition readScopeRows :: "scope_db \<Rightarrow> int \<Rightarrow> scope_row list \<times> scope_columns" where
  "readScopeRows db role =
     (let c = read_columns db; own = filter (\<lambda>r. t_role_id r = role) (sdb_rows db);
          ordered = (if col_ruleNo c then sort_key t_rule_no own else own)
      in (map (as_scope_row c) ordered, c))"

definition dimensionKeys :: "scope_db \<Rightarrow> dimension list \<Rightarrow> dimension \<Rightarrow> string list" where
  "dimensionKeys db dims d = (if d \<in> set dims then sdb_keys db d else [])"

definition getRoleScopeRules :: "scope_db \<Rightarrow> int option \<Rightarrow> scope_rule list" where
  "getRoleScopeRules db role =
     (case role of None \<Rightarrow> [] | Some r \<Rightarrow> groupScopeRows (fst (readScopeRows db r)))"

definition getRoleDataScopeRules :: "scope_db \<Rightarrow> int option \<Rightarrow> (dimension \<times> string) list" where
  "getRoleDataScopeRules db role =
     (let rules = getRoleScopeRules db role in
      if rules = [] then []
      else resolveRoleScope rules (dimensionKeys db (dimensionsNeedingDomain rules)))"

section \<open>Validation\<close>

definition scope_value_text :: "jsval \<Rightarrow> string" where
  "scope_value_text v =
     (case v of JNum n \<Rightarrow> trim (num_str n) | JStr s \<Rightarrow> trim s | _ \<Rightarrow> [])"

definition or_empty :: "jsval \<Rightarrow> string" where
  "or_empty v = (if nullish v then [] else to_string v)"

definition parseScopeRuleInput :: "jsval \<Rightarrow> save_error + (dimension \<times> scope_operator \<times> string list)" where
  "parseScopeRuleInput raw =
     (case scope_dimension_of (or_empty (field_of raw ''dimension'')) of
        None \<Rightarrow> Inl (UnknownDimension (to_string (field_of raw ''dimension'')))
      | Some d \<Rightarrow>
     (case map_of SCOPE_OPERATORS (or_empty (field_of raw ''operator'')) of
        None \<Rightarrow> Inl BadOperator
      | Some opr \<Rightarrow>
     (case field_of raw ''values'' of
        JArr vs \<Rightarrow>
          (let values = dedup (map scope_value_text vs) in
           if values = [] then Inl NoValues
           else if list_ex (\<lambda>v. v = [] \<or> length v > 64) values then Inl BadValue
           else Inr (d, opr, values))
      | _ \<Rightarrow> Inl ValuesNotAList)))"

definition assertRulesMatchData :: "(scope_operator \<times> string list) list \<Rightarrow> string list \<Rightarrow> save_error + unit" where
  "assertRulesMatchData rules domain =
     (if length rules < 2 then Inr ()
      else ensure (combineDimensionRules rules domain \<noteq> []) NoMatch)"

definition validatedRule ::
  "scope_db \<Rightarrow> jsval \<Rightarrow> save_error + ((dimension \<times> scope_operator \<times> string list) \<times> string list)" where
  "validatedRule db input =
     rbind (parseScopeRuleInput input) (\<lambda>(d, opr, vs).
       let domain = sdb_keys db d; unknown = filter (\<lambda>v. v \<notin> set domain) vs
       in if unknown \<noteq> [] then Inl (UnknownValues unknown) else Inr ((d, opr, vs), domain))"

section \<open>Saving\<close>

definition operator_name :: "scope_operator \<Rightarrow> string" where
  "operator_name opr = (case opr of OpIn \<Rightarrow> ''in'' | OpNotIn \<Rightarrow> ''not_in'')"

text \<open>
  The rows of one rule, one per value. A database without \<open>rule_no\<close> stores none (read back as rule 1);
  one without \<open>operator\<close> fails the INSERT.
\<close>

definition rule_rows :: "int \<Rightarrow> scope_rule \<Rightarrow> scope_table_row list" where
  "rule_rows role rule =
     map (\<lambda>v. \<lparr>t_role_id = role, t_dimension = dimension_name (sr_dimension rule),
        t_rule_no = sr_ruleNo rule, t_operator = operator_name (sr_operator rule), t_value = v\<rparr>)
       (sr_values rule)"

definition insertRuleRows :: "scope_db \<Rightarrow> int \<Rightarrow> scope_rule \<Rightarrow> save_error + scope_db" where
  "insertRuleRows db role rule =
     (if sr_values rule \<noteq> [] \<and> \<not> col_operator (sdb_columns db) then Inl NeedsMigration0044
      else Inr (db\<lparr>sdb_rows := sdb_rows db @ rule_rows role rule\<rparr>))"

definition next_rule_no :: "scope_rule list \<Rightarrow> int" where
  "next_rule_no existing = fold max (map sr_ruleNo existing) 0 + 1"

definition make_rule :: "dimension \<times> scope_operator \<times> string list \<Rightarrow> int \<Rightarrow> scope_rule" where
  "make_rule r n = (case r of (d, opr, vs) \<Rightarrow>
     \<lparr>sr_dimension = d, sr_ruleNo = n, sr_operator = opr, sr_values = vs\<rparr>)"

definition addRoleScopeRule :: "scope_db \<Rightarrow> int \<Rightarrow> jsval \<Rightarrow> save_error + (scope_db \<times> scope_rule)" where
  "addRoleScopeRule db role input =
     rbind (validatedRule db input) (\<lambda>(rule, domain).
       let (rows, columns) = readScopeRows db role;
           existing = filter (\<lambda>r. sr_dimension r = fst rule) (groupScopeRows rows) in
       if existing \<noteq> [] \<and> \<not> col_ruleNo columns then Inl NeedsMigration0056
       else rbind (assertRulesMatchData (map rule_body existing @ [snd rule]) domain) (\<lambda>_.
         let saved = make_rule rule (next_rule_no existing) in
         rbind (insertRuleRows db role saved) (\<lambda>db'. Inr (db', saved))))"

definition delete_rule :: "scope_db \<Rightarrow> int \<Rightarrow> string \<Rightarrow> int option \<Rightarrow> scope_db" where
  "delete_rule db role dimn n =
     db\<lparr>sdb_rows := delete_where
        (\<lambda>r. t_role_id r = role \<and> t_dimension r = dimn \<and> (case n of None \<Rightarrow> True | Some k \<Rightarrow> t_rule_no r = k))
        (sdb_rows db)\<rparr>"

definition updateRoleScopeRule ::
  "scope_db \<Rightarrow> int \<Rightarrow> int \<Rightarrow> jsval \<Rightarrow> save_error + (scope_db \<times> scope_rule)" where
  "updateRoleScopeRule db role ruleNo input =
     rbind (validatedRule db input) (\<lambda>(rule, domain).
       let (rows, columns) = readScopeRows db role;
           existing = filter (\<lambda>r. sr_dimension r = fst rule) (groupScopeRows rows) in
       if \<not> list_ex (\<lambda>r. sr_ruleNo r = ruleNo) existing then Inl RuleGone
       else rbind (assertRulesMatchData
           (map rule_body (filter (\<lambda>r. sr_ruleNo r \<noteq> ruleNo) existing) @ [snd rule]) domain) (\<lambda>_.
         let saved = make_rule rule ruleNo;
             cleared = delete_rule db role (dimension_name (fst rule))
               (if col_ruleNo columns then Some ruleNo else None) in
         rbind (insertRuleRows cleared role saved) (\<lambda>db'. Inr (db', saved))))"

definition setRoleScopeRule :: "scope_db \<Rightarrow> int \<Rightarrow> jsval \<Rightarrow> save_error + (scope_db \<times> scope_rule)" where
  "setRoleScopeRule db role input =
     rbind (validatedRule db input) (\<lambda>(rule, domain).
       let saved = make_rule rule 1;
           cleared = delete_rule db role (dimension_name (fst rule)) None in
       rbind (insertRuleRows cleared role saved) (\<lambda>db'. Inr (db', saved)))"

definition removeRoleScopeRule :: "scope_db \<Rightarrow> int \<Rightarrow> string \<Rightarrow> int option \<Rightarrow> save_error + scope_db" where
  "removeRoleScopeRule db role dimn ruleNo =
     (if scope_dimension_of dimn = None then Inl (UnknownDimension dimn)
      else case ruleNo of
        None \<Rightarrow> Inr (delete_rule db role dimn None)
      | Some n \<Rightarrow>
          (if col_ruleNo (snd (readScopeRows db role)) then Inr (delete_rule db role dimn (Some n))
           else if n = 1 then Inr (delete_rule db role dimn None)
           else Inr db))"

section \<open>The request middleware\<close>

text \<open>A handler replies with a status, passes an unexpected error on, or lets the request continue.\<close>

datatype 'a outcome = Reply nat string | NextError | Next 'a

record scope_user =
  u_roleTierCode :: "string option"
  u_roleId :: "int option"
  u_salespersonKey :: "jsnum option"

text \<open>\<open>load\<close> is the database read of the role's rules, \<open>None\<close> when it rejects.\<close>

definition attachUserContext ::
  "scope_user option \<Rightarrow> (int option \<Rightarrow> (dimension \<times> string) list option) \<Rightarrow> user_context outcome" where
  "attachUserContext user load =
     (case user of
        None \<Rightarrow> Reply 401 ''Unauthenticated''
      | Some u \<Rightarrow>
          (case u_roleTierCode u of
             None \<Rightarrow> Reply 403 ''no data-scope role''
           | Some tier \<Rightarrow>
               if tier = [] then Reply 403 ''no data-scope role''
               else (case load (u_roleId u) of
                  None \<Rightarrow> NextError
                | Some rules \<Rightarrow> Next \<lparr>roleCode = tier, salespersonKey = u_salespersonKey u,
                     roleId = u_roleId u, dataScopeRules = rules\<rparr>)))"

definition query_values :: "jsval \<Rightarrow> jsval list" where
  "query_values raw = (case raw of JUndef \<Rightarrow> [] | JArr vs \<Rightarrow> vs | v \<Rightarrow> [v])"

definition parseNumberArray :: "jsval \<Rightarrow> fkey list" where
  "parseNumberArray raw = map KNum (filter (\<lambda>n. n \<noteq> NaN) (map to_number (query_values raw)))"

definition parseStringArray :: "jsval \<Rightarrow> fkey list" where
  "parseStringArray raw = map (\<lambda>v. KStr (to_string v)) (query_values raw)"

definition raw_filters :: "(dimension \<Rightarrow> jsval) \<Rightarrow> filters" where
  "raw_filters q = (\<lambda>d. Some (if d = salesTeamKeys then parseStringArray (q d) else parseNumberArray (q d)))"

definition scoped_filters :: "filters \<Rightarrow> user_context \<Rightarrow> scope_error + filters" where
  "scoped_filters raw user =
     rbind (applyRoleDataScope raw (dataScopeRules user)) (\<lambda>f. applySalespersonLock f user)"

definition resolveScopedFilters ::
  "user_context option \<Rightarrow> (dimension \<Rightarrow> jsval) \<Rightarrow> filters outcome" where
  "resolveScopedFilters ctx q =
     (case ctx of
        None \<Rightarrow> Reply 401 ''Unauthenticated''
      | Some user \<Rightarrow>
          (case scoped_filters (raw_filters q) user of
             Inl e \<Rightarrow> Reply 403 ''Forbidden: request is outside your assigned scope.''
           | Inr f \<Rightarrow> Next f))"

section \<open>What grouping reads\<close>

text \<open>The rule a list of rows denotes at a dimension and rule number: the values of its rows in order,
without repetition, an exclusion if any row is one.\<close>

definition row_key :: "scope_row \<Rightarrow> (dimension \<times> int) option" where
  "row_key r = map_option (\<lambda>d. (d, row_rule_number r)) (scope_dimension_of (row_dimension r))"

definition rule_at :: "scope_row list \<Rightarrow> dimension \<times> int \<Rightarrow> scope_rule option" where
  "rule_at rows k =
     (let own = filter (\<lambda>r. row_key r = Some k) rows in
      if own = [] then None
      else Some \<lparr>sr_dimension = fst k, sr_ruleNo = snd k,
        sr_operator = (if list_ex (\<lambda>r. row_op r = OpNotIn) own then OpNotIn else OpIn),
        sr_values = dedup (map row_value own)\<rparr>)"

lemma scope_operator_neq [simp]: "opr \<noteq> OpIn \<longleftrightarrow> opr = OpNotIn"
  by (cases opr) auto

lemma rule_at_snoc_other: "row_key r \<noteq> Some k \<Longrightarrow> rule_at (rows @ [r]) k = rule_at rows k"
  by (simp add: rule_at_def)

lemma rule_at_snoc_new:
  "row_key r = Some k \<Longrightarrow> rule_at rows k = None \<Longrightarrow>
   rule_at (rows @ [r]) k = Some \<lparr>sr_dimension = fst k, sr_ruleNo = snd k, sr_operator = row_op r,
      sr_values = [row_value r]\<rparr>"
  by (cases "row_op r") (auto simp: rule_at_def Let_def split: if_splits)

lemma rule_at_snoc_old:
  "row_key r = Some k \<Longrightarrow> rule_at rows k = Some rule \<Longrightarrow>
   rule_at (rows @ [r]) k =
     Some (let rule1 = (if row_op r = OpNotIn then rule\<lparr>sr_operator := OpNotIn\<rparr> else rule)
           in if row_value r \<in> set (sr_values rule1) then rule1
              else rule1\<lparr>sr_values := sr_values rule1 @ [row_value r]\<rparr>)"
  by (auto simp: rule_at_def Let_def dedup_snoc split: if_splits)

lemma group_step_invariant:
  assumes at: "\<And>k. map_of (fst st) k = rule_at rows k" and dist: "distinct (map fst (fst st))"
  shows "map_of (fst (group_step st r)) k = rule_at (rows @ [r]) k \<and>
    distinct (map fst (fst (group_step st r)))"
proof (cases "scope_dimension_of (row_dimension r)")
  case None
  then have "row_key r = None" by (simp add: row_key_def)
  then show ?thesis using at dist None by (simp add: group_step_def rule_at_snoc_other)
next
  case (Some d)
  let ?k = "(d, row_rule_number r)"
  have rk: "row_key r = Some ?k" using Some by (simp add: row_key_def)
  show ?thesis
  proof (cases "rule_at rows ?k")
    case None
    then have m: "map_of (fst st) ?k = None" using at by simp
    then have "?k \<notin> fst ` set (fst st)" by (simp add: map_of_eq_None_iff)
    then show ?thesis
      using at dist m Some rk rule_at_snoc_new [OF rk None] rule_at_snoc_other [of r k rows]
      by (cases "k = ?k") (auto simp: group_step_def Let_def map_add_def split: option.splits)
  next
    case at_old: (Some rule)
    then have m: "map_of (fst st) ?k = Some rule" using at by simp
    show ?thesis
      using at dist m Some rk rule_at_snoc_old [OF rk at_old] rule_at_snoc_other [of r k rows]
      by (cases "k = ?k") (auto simp: group_step_def Let_def update_conv distinct_update)
  qed
qed

lemma group_fold:
  "map_of (fst (foldl group_step ([], []) rows)) k = rule_at rows k \<and>
   distinct (map fst (fst (foldl group_step ([], []) rows)))"
proof (induction rows arbitrary: k rule: rev_induct)
  case Nil
  then show ?case by (simp add: rule_at_def)
next
  case (snoc r rows)
  then show ?case
    using group_step_invariant [of "foldl group_step ([], []) rows" rows r k] by simp
qed

lemma rule_at_key: "rule_at rows k = Some rule \<Longrightarrow> (sr_dimension rule, sr_ruleNo rule) = k"
  by (auto simp: rule_at_def Let_def split: if_splits)

lemma groupScopeRows_iff:
  "rule \<in> set (groupScopeRows rows) \<longleftrightarrow> rule_at rows (sr_dimension rule, sr_ruleNo rule) = Some rule"
proof -
  let ?m = "fst (foldl group_step ([], []) rows)"
  have g: "map_of ?m k = rule_at rows k" "distinct (map fst ?m)" for k using group_fold by blast+
  have "set (groupScopeRows rows) = snd ` set ?m"
    by (simp add: groupScopeRows_def case_prod_beta)
  moreover have "rule \<in> snd ` set ?m \<longleftrightarrow> (\<exists>k. map_of ?m k = Some rule)"
    using g(2) by (force simp: map_of_eq_Some_iff)
  ultimately show ?thesis using g(1) rule_at_key by metis
qed

section \<open>The rule store\<close>

text \<open>The abstract view of the table: the rule of a role at a dimension and rule number.\<close>

definition rule_lookup :: "scope_db \<Rightarrow> int \<times> dimension \<times> int \<Rightarrow> scope_rule option" where
  "rule_lookup db k = rule_at (fst (readScopeRows db (fst k))) (snd k)"

text \<open>A migrated table: both columns exist and rule numbers are numbered from 1.\<close>

definition migrated :: "scope_db \<Rightarrow> bool" where
  "migrated db \<longleftrightarrow> col_operator (sdb_columns db) \<and> col_ruleNo (sdb_columns db) \<and>
     list_all (\<lambda>r. t_rule_no r \<ge> 1) (sdb_rows db)"

definition rule_fits :: "int \<times> dimension \<times> int \<Rightarrow> scope_rule \<Rightarrow> bool" where
  "rule_fits k rule \<longleftrightarrow> (sr_dimension rule, sr_ruleNo rule) = snd k \<and> sr_dimension rule \<in> set SCOPE_DIMENSIONS \<and>
     sr_ruleNo rule \<ge> 1 \<and> sr_values rule \<noteq> [] \<and> distinct (sr_values rule)"

definition put_rule :: "scope_db \<Rightarrow> int \<times> dimension \<times> int \<Rightarrow> scope_rule \<Rightarrow> scope_db" where
  "put_rule db k rule = db\<lparr>sdb_rows := sdb_rows db @ rule_rows (fst k) rule\<rparr>"

definition del_rule :: "scope_db \<Rightarrow> int \<times> dimension \<times> int \<Rightarrow> scope_db" where
  "del_rule db k = delete_rule db (fst k) (dimension_name (fst (snd k))) (Some (snd (snd k)))"

definition stored_rows :: "scope_db \<Rightarrow> int \<times> dimension \<times> int \<Rightarrow> scope_table_row list" where
  "stored_rows db k = (case k of (role, d, n) \<Rightarrow>
     filter (\<lambda>r. t_role_id r = role \<and> t_dimension r = dimension_name d \<and> t_rule_no r = n) (sdb_rows db))"

definition stored_rule :: "dimension \<times> int \<Rightarrow> scope_table_row list \<Rightarrow> scope_rule option" where
  "stored_rule k own =
     (if fst k \<notin> set SCOPE_DIMENSIONS \<or> own = [] then None
      else Some \<lparr>sr_dimension = fst k, sr_ruleNo = snd k,
        sr_operator = (if list_ex (\<lambda>r. t_operator r = ''not_in'') own then OpNotIn else OpIn),
        sr_values = dedup (map t_value own)\<rparr>)"

lemma dimension_name_inject [simp]: "dimension_name d = dimension_name e \<longleftrightarrow> d = e"
  by (cases d; cases e) (simp_all add: dimension_name_def)

lemma scope_dimension_of_eq [simp]:
  "scope_dimension_of s = Some d \<longleftrightarrow> d \<in> set SCOPE_DIMENSIONS \<and> s = dimension_name d"
  by (cases d) (auto simp: scope_dimension_of_def SCOPE_DIMENSIONS_def dimension_name_def)

lemma row_key_stored:
  "col_ruleNo c \<Longrightarrow> t_rule_no r \<ge> 1 \<Longrightarrow>
   row_key (as_scope_row c r) = Some (d, n) \<longleftrightarrow>
   d \<in> set SCOPE_DIMENSIONS \<and> t_dimension r = dimension_name d \<and> t_rule_no r = n"
  by (auto simp: row_key_def as_scope_row_def row_rule_number_def)

lemma rule_lookup_stored:
  assumes "migrated db"
  shows "rule_lookup db k = stored_rule (snd k) (stored_rows db k)"
proof -
  obtain role d n where k: "k = (role, d, n)" by (cases k)
  let ?c = "\<lparr>col_operator = True, col_ruleNo = True\<rparr>"
  let ?own = "filter (\<lambda>r. t_role_id r = role) (sdb_rows db)"
  have c: "read_columns db = ?c" using assms by (simp add: migrated_def read_columns_def)
  have pos: "t_rule_no r \<ge> 1" if "r \<in> set (sdb_rows db)" for r
    using assms that by (simp add: migrated_def list_all_iff)
  have "filter (\<lambda>r. row_key r = Some (d, n)) (map (as_scope_row ?c) (sort_key t_rule_no ?own)) =
      map (as_scope_row ?c) (sort_key t_rule_no (filter (\<lambda>r. row_key (as_scope_row ?c r) = Some (d, n)) ?own))"
    by (simp add: filter_map filter_sort comp_def)
  also have "filter (\<lambda>r. row_key (as_scope_row ?c r) = Some (d, n)) ?own =
      (if d \<in> set SCOPE_DIMENSIONS then stored_rows db k else [])"
    using pos by (auto simp: row_key_stored stored_rows_def k intro!: filter_cong)
  also have "sort_key t_rule_no \<dots> = \<dots>"
    by (rule sort_key_same [of _ _ n]) (auto simp: stored_rows_def k split: if_splits)
  finally have own: "filter (\<lambda>r. row_key r = Some (d, n)) (map (as_scope_row ?c) (sort_key t_rule_no ?own)) =
      map (as_scope_row ?c) (if d \<in> set SCOPE_DIMENSIONS then stored_rows db k else [])" .
  have op: "row_op (as_scope_row ?c r) = OpNotIn \<longleftrightarrow> t_operator r = ''not_in''" for r
    by (simp add: row_op_def as_scope_row_def)
  have val: "map row_value (map (as_scope_row ?c) rs) = map t_value rs" for rs
    by (induction rs) (simp_all add: as_scope_row_def)
  show ?thesis
    using own op
    by (auto simp: rule_lookup_def rule_at_def readScopeRows_def c k stored_rule_def Let_def val list_ex_iff simp del: map_map)
qed

section \<open>The table as a keyed store\<close>

lemma stored_rows_put:
  "stored_rows (put_rule db k rule) j =
     stored_rows db j @ (if rule_fits k rule \<and> j = k then rule_rows (fst k) rule
       else filter (\<lambda>r. t_role_id r = fst j \<and> t_dimension r = dimension_name (fst (snd j)) \<and>
              t_rule_no r = snd (snd j)) (rule_rows (fst k) rule))"
  by (cases j; cases k) (auto simp: stored_rows_def put_rule_def rule_rows_def rule_fits_def filter_id_conv)

lemma stored_rows_put_other:
  "rule_fits k rule \<Longrightarrow> j \<noteq> k \<Longrightarrow> stored_rows (put_rule db k rule) j = stored_rows db j"
  by (cases j; cases k) (auto simp: stored_rows_def put_rule_def rule_rows_def rule_fits_def filter_empty_conv)

lemma stored_rule_rows:
  "rule_fits k rule \<Longrightarrow> stored_rule (snd k) (rule_rows (fst k) rule) = Some rule"
  by (cases k; cases rule; cases "sr_operator rule")
    (auto simp: stored_rule_def rule_rows_def rule_fits_def operator_name_def list_ex_iff dedup_distinct comp_def
      neq_Nil_conv)

lemma stored_rows_del:
  "stored_rows (del_rule db k) j = (if j = k then [] else stored_rows db j)"
  by (cases j; cases k)
    (auto simp: stored_rows_def del_rule_def delete_rule_def delete_where_def filter_empty_conv intro!: filter_cong)

lemma migrated_put: "migrated db \<Longrightarrow> rule_fits k rule \<Longrightarrow> migrated (put_rule db k rule)"
  by (auto simp: migrated_def put_rule_def rule_rows_def rule_fits_def list_all_iff)

lemma migrated_del: "migrated db \<Longrightarrow> migrated (del_rule db k)"
  by (auto simp: migrated_def del_rule_def delete_rule_def list_all_iff)

interpretation rule_store: keyed_store rule_lookup put_rule del_rule migrated rule_fits
proof
  fix db k v
  assume m: "migrated db" and f: "rule_fits k v" and n: "rule_lookup db k = None"
  have e: "stored_rows db k = []"
    using n f
    by (cases "snd k") (auto simp: rule_lookup_stored [OF m] stored_rule_def rule_fits_def split: if_splits)
  show "rule_lookup (put_rule db k v) = (rule_lookup db)(k \<mapsto> v)"
  proof
    fix j
    show "rule_lookup (put_rule db k v) j = ((rule_lookup db)(k \<mapsto> v)) j"
      using f e m stored_rule_rows [OF f]
      by (cases "j = k") (simp_all add: rule_lookup_stored migrated_put stored_rows_put_other, simp add: stored_rows_put)
  qed
next
  fix db k
  assume m: "migrated db"
  show "rule_lookup (del_rule db k) = (rule_lookup db)(k := None)"
    by (rule ext) (simp add: rule_lookup_stored m migrated_del stored_rows_del, simp add: stored_rule_def)
qed (simp_all add: migrated_put migrated_del)

text \<open>What the rule list of a role is in terms of the store.\<close>

lemma getRoleScopeRules_lookup:
  "rule \<in> set (getRoleScopeRules db (Some role)) \<longleftrightarrow>
   rule_lookup db (role, sr_dimension rule, sr_ruleNo rule) = Some rule"
  by (simp add: getRoleScopeRules_def groupScopeRows_iff rule_lookup_def)

lemma rule_lookup_key:
  "rule_lookup db (role, d, n) = Some rule \<Longrightarrow> sr_dimension rule = d \<and> sr_ruleNo rule = n"
  by (auto simp: rule_lookup_def dest!: rule_at_key)

lemma next_rule_no_fresh: "rule \<in> set existing \<Longrightarrow> sr_ruleNo rule < next_rule_no existing"
  and next_rule_no_pos: "next_rule_no existing \<ge> 1"
  using fold_max_mem [of "sr_ruleNo rule" "map sr_ruleNo existing" 0] fold_max_ge [of 0 "map sr_ruleNo existing"]
  by (auto simp: next_rule_no_def)

lemma rule_allows_cong: "set R = set S \<Longrightarrow> rule_allows R domain d v = rule_allows S domain d v"
  by (simp add: rule_allows_def Let_def list_all_iff)

section \<open>Saving a rule\<close>

lemma parseScopeRuleInput_fits:
  assumes "parseScopeRuleInput raw = Inr (d, opr, vs)" "n \<ge> 1"
  shows "rule_fits (role, d, n) (make_rule (d, opr, vs) n)"
  using assms
  by (auto simp: parseScopeRuleInput_def rule_fits_def make_rule_def Let_def split: option.splits jsval.splits if_splits)

lemma validatedRule_Inr [rule_facts]:
  "validatedRule db input = Inr ((d, opr, vs), keys) \<longleftrightarrow>
   parseScopeRuleInput input = Inr (d, opr, vs) \<and> keys = sdb_keys db d \<and> set vs \<subseteq> set keys"
  by (cases "parseScopeRuleInput input") (auto simp: validatedRule_def Let_def filter_empty_conv split: if_splits)

lemma assertRulesMatchData_Inr [rule_facts]:
  "assertRulesMatchData rules keys = Inr u \<longleftrightarrow> length rules < 2 \<or> combineDimensionRules rules keys \<noteq> []"
  by (auto simp: assertRulesMatchData_def ensure_eq_Inr)

lemma insertRuleRows_Inr:
  "insertRuleRows db role rule = Inr db' \<Longrightarrow> db' = put_rule db (role, sr_dimension rule, sr_ruleNo rule) rule"
  by (auto simp: insertRuleRows_def put_rule_def split: if_splits)

lemma make_rule_simps [simp]:
  "sr_dimension (make_rule (d, opr, vs) n) = d" "sr_ruleNo (make_rule (d, opr, vs) n) = n"
  "rule_body (make_rule (d, opr, vs) n) = (opr, vs)" "sr_values (make_rule (d, opr, vs) n) = vs"
  by (simp_all add: make_rule_def rule_body_def)

definition other_rules :: "scope_db \<Rightarrow> int \<Rightarrow> dimension \<Rightarrow> scope_rule list" where
  "other_rules db role d = filter (\<lambda>r. sr_dimension r = d) (getRoleScopeRules db (Some role))"

lemma readScopeRows_rules: "readScopeRows db role = (rows, c) \<Longrightarrow>
   groupScopeRows rows = getRoleScopeRules db (Some role) \<and> c = read_columns db"
  by (auto simp: getRoleScopeRules_def readScopeRows_def Let_def)

lemma addRoleScopeRule_Inr:
  assumes "addRoleScopeRule db role input = Inr (db', saved)"
  obtains d opr vs n where
    "parseScopeRuleInput input = Inr (d, opr, vs)" "n = next_rule_no (other_rules db role d)"
    "saved = make_rule (d, opr, vs) n" "db' = put_rule db (role, d, n) saved"
    "set vs \<subseteq> set (sdb_keys db d)"
    "other_rules db role d \<noteq> [] \<longrightarrow>
       combineDimensionRules (map rule_body (other_rules db role d @ [saved])) (sdb_keys db d) \<noteq> []"
proof -
  obtain d opr vs keys where v: "validatedRule db input = Inr ((d, opr, vs), keys)"
  proof (cases "validatedRule db input")
    case (Inl e)
    then show thesis using assms(1) by (simp add: addRoleScopeRule_def)
  next
    case (Inr r)
    then show thesis using that by (cases r) auto
  qed
  obtain rows c where r: "readScopeRows db role = (rows, c)" by (metis prod.exhaust)
  have e: "filter (\<lambda>r. sr_dimension r = d) (groupScopeRows rows) = other_rules db role d"
    using readScopeRows_rules [OF r] by (simp add: other_rules_def)
  show ?thesis
    using assms that [of d opr vs "next_rule_no (other_rules db role d)"] v r e
    by (auto simp: addRoleScopeRule_def rule_facts Let_def less_Suc_eq split: if_splits dest!: insertRuleRows_Inr)
qed

lemma updateRoleScopeRule_Inr:
  assumes "updateRoleScopeRule db role n input = Inr (db', saved)" "migrated db"
  obtains d opr vs where
    "parseScopeRuleInput input = Inr (d, opr, vs)"
    "saved = make_rule (d, opr, vs) n" "db' = put_rule (del_rule db (role, d, n)) (role, d, n) saved"
    "set vs \<subseteq> set (sdb_keys db d)" "\<exists>old \<in> set (other_rules db role d). sr_ruleNo old = n"
proof -
  obtain d opr vs keys where v: "validatedRule db input = Inr ((d, opr, vs), keys)"
  proof (cases "validatedRule db input")
    case (Inl e)
    then show thesis using assms(1) by (simp add: updateRoleScopeRule_def)
  next
    case (Inr r)
    then show thesis using that by (cases r) auto
  qed
  obtain rows c where r: "readScopeRows db role = (rows, c)" by (metis prod.exhaust)
  have e: "filter (\<lambda>r. sr_dimension r = d) (groupScopeRows rows) = other_rules db role d" and c: "col_ruleNo c"
    using readScopeRows_rules [OF r] assms by (simp_all add: other_rules_def migrated_def read_columns_def)
  have x: "list_ex (\<lambda>r. sr_ruleNo r = n) (filter (\<lambda>r. sr_dimension r = d) (groupScopeRows rows)) \<longleftrightarrow>
      (\<exists>old \<in> set (other_rules db role d). sr_ruleNo old = n)"
    unfolding e list_ex_iff ..
  show ?thesis
    using assms that [of d opr vs] v r e c x
    by (auto simp: updateRoleScopeRule_def rule_facts Let_def del_rule_def
        split: if_splits dest!: insertRuleRows_Inr)
qed

section \<open>Properties\<close>

text \<open>Adding a rule to a role stores it beside the others: the new rule gets a number no rule of its
dimension has, the role's rules afterwards are the old ones and the new one, no other role's rules
change, every value is a current key of the dimension, and -- unless it is the dimension's first rule --
some value still satisfies all rules of the dimension.\<close>

theorem add_rule_effect:
  assumes "migrated db" and "addRoleScopeRule db role input = Inr (db', saved)"
  shows "migrated db' \<and>
    rule_lookup db (role, sr_dimension saved, sr_ruleNo saved) = None \<and>
    rule_lookup db' = (rule_lookup db)((role, sr_dimension saved, sr_ruleNo saved) \<mapsto> saved) \<and>
    set (getRoleScopeRules db' (Some role)) = insert saved (set (getRoleScopeRules db (Some role))) \<and>
    set (sr_values saved) \<subseteq> set (sdb_keys db (sr_dimension saved)) \<and>
    ((\<exists>r \<in> set (getRoleScopeRules db (Some role)). sr_dimension r = sr_dimension saved) \<longrightarrow>
      (\<exists>v. rule_allows (getRoleScopeRules db' (Some role)) (sdb_keys db) (sr_dimension saved) v))"
proof -
  obtain d opr vs n where p: "parseScopeRuleInput input = Inr (d, opr, vs)"
    and n: "n = next_rule_no (other_rules db role d)" and s: "saved = make_rule (d, opr, vs) n"
    and db': "db' = put_rule db (role, d, n) saved" and vs: "set vs \<subseteq> set (sdb_keys db d)"
    and c: "other_rules db role d \<noteq> [] \<longrightarrow>
       combineDimensionRules (map rule_body (other_rules db role d @ [saved])) (sdb_keys db d) \<noteq> []"
    using addRoleScopeRule_Inr [OF assms(2)] .
  have fits: "rule_fits (role, d, n) saved"
    using parseScopeRuleInput_fits [OF p] next_rule_no_pos n s by simp
  have sd: "sr_dimension saved = d" "sr_ruleNo saved = n" by (simp_all add: s)
  have free: "rule_lookup db (role, d, n) = None"
  proof (rule ccontr)
    assume "rule_lookup db (role, d, n) \<noteq> None"
    then obtain rule where r: "rule_lookup db (role, d, n) = Some rule" by blast
    then have "rule \<in> set (other_rules db role d)" "sr_ruleNo rule = n"
      using rule_lookup_key [OF r] by (simp_all add: other_rules_def getRoleScopeRules_lookup)
    then show False using next_rule_no_fresh n by fastforce
  qed
  have look: "rule_lookup db' = (rule_lookup db)((role, d, n) \<mapsto> saved)"
    using rule_store.lookup_put [OF assms(1) fits free] db' by simp
  have set': "set (getRoleScopeRules db' (Some role)) = insert saved (set (getRoleScopeRules db (Some role)))"
  proof (rule set_eqI)
    fix rule :: scope_rule
    have k: "rule_lookup db' (role, sr_dimension rule, sr_ruleNo rule) =
        (if (sr_dimension rule, sr_ruleNo rule) = (d, n) then Some saved
         else rule_lookup db (role, sr_dimension rule, sr_ruleNo rule))"
      by (simp add: look)
    have "rule \<noteq> saved" if "(sr_dimension rule, sr_ruleNo rule) \<noteq> (d, n)" using that sd by blast
    then show "rule \<in> set (getRoleScopeRules db' (Some role)) \<longleftrightarrow>
        rule \<in> insert saved (set (getRoleScopeRules db (Some role)))"
      unfolding insert_iff getRoleScopeRules_lookup k using free
      by (cases "(sr_dimension rule, sr_ruleNo rule) = (d, n)") auto
  qed
  have "\<exists>v. rule_allows (getRoleScopeRules db' (Some role)) (sdb_keys db) d v" if "other_rules db role d \<noteq> []"
  proof -
    let ?R = "getRoleScopeRules db (Some role) @ [saved]"
    have eq: "other_rules db role d @ [saved] = filter (\<lambda>r. sr_dimension r = d) ?R"
      by (simp add: other_rules_def sd)
    let ?c = "combineDimensionRules (map rule_body (filter (\<lambda>r. sr_dimension r = d) ?R)) (sdb_keys db d)"
    have "?c \<noteq> []" using c that unfolding eq by blast
    then have "hd ?c \<in> set ?c" by (rule hd_in_set)
    then obtain v where "v \<in> set ?c" by blast
    then have "rule_allows ?R (sdb_keys db) d v" by (simp only: combine_rule_allows)
    moreover have "set ?R = set (getRoleScopeRules db' (Some role))" using set' by simp
    ultimately show ?thesis using rule_allows_cong by blast
  qed
  moreover have "(\<exists>r \<in> set (getRoleScopeRules db (Some role)). sr_dimension r = d) \<longleftrightarrow> other_rules db role d \<noteq> []"
    by (auto simp: other_rules_def filter_empty_conv)
  moreover have "sr_values saved = vs" by (simp add: s)
  moreover have "migrated db'" using rule_store.wf_put [OF assms(1) fits] db' by simp
  ultimately show ?thesis
    unfolding sd using free look set' vs by simp
qed

text \<open>A database with two rules stored, used by the examples below.\<close>

definition example_db :: scope_db where
  "example_db = \<lparr>sdb_rows =
      [\<lparr>t_role_id = 5, t_dimension = ''segmentKeys'', t_rule_no = 1, t_operator = ''in'', t_value = ''1''\<rparr>,
       \<lparr>t_role_id = 5, t_dimension = ''segmentKeys'', t_rule_no = 1, t_operator = ''in'', t_value = ''2''\<rparr>],
     sdb_columns = \<lparr>col_operator = True, col_ruleNo = True\<rparr>,
     sdb_keys = (\<lambda>d. if d = segmentKeys then [''1'', ''2'', ''3''] else [])\<rparr>"

definition example_input :: jsval where
  "example_input = JObj [(''dimension'', JStr ''segmentKeys''), (''operator'', JStr ''not_in''),
     (''values'', JArr [JNum (Fin 2), JStr '' 2 ''])]"

lemma example_migrated: "migrated example_db"
  by (simp add: migrated_def example_db_def)

theorem add_rule_effect_witness:
  "\<exists>db' saved. addRoleScopeRule example_db 5 example_input = Inr (db', saved) \<and> sr_ruleNo saved = 2 \<and>
     set (getRoleScopeRules db' (Some 5)) = insert saved (set (getRoleScopeRules example_db (Some 5)))"
proof -
  have "is_ok (addRoleScopeRule example_db 5 example_input) \<and>
    (case addRoleScopeRule example_db 5 example_input of Inl _ \<Rightarrow> False | Inr p \<Rightarrow> sr_ruleNo (snd p) = 2)"
    by code_simp
  then obtain db' saved where r: "addRoleScopeRule example_db 5 example_input = Inr (db', saved)" "sr_ruleNo saved = 2"
    by (auto simp: is_ok_iff)
  show ?thesis using add_rule_effect [OF example_migrated r(1)] r by blast
qed

text \<open>C29. Editing and removing a rule: an edit needs an existing rule of that number and replaces it by the
new one, a removal of a rule number deletes that rule (and succeeds when there is none), a removal
without a number deletes every rule of the dimension; no other rule of any role changes.\<close>

theorem edit_and_remove_rule_effect:
  assumes "migrated db"
  shows "(updateRoleScopeRule db role n input = Inr (db', saved) \<longrightarrow>
      rule_lookup db (role, sr_dimension saved, n) \<noteq> None \<and>
      rule_lookup db' = (rule_lookup db)((role, sr_dimension saved, n) \<mapsto> saved)) \<and>
    (d \<in> set SCOPE_DIMENSIONS \<longrightarrow>
      (\<exists>db'. removeRoleScopeRule db role (dimension_name d) (Some n) = Inr db' \<and>
         rule_lookup db' = (rule_lookup db)((role, d, n) := None)) \<and>
      (\<exists>db'. removeRoleScopeRule db role (dimension_name d) None = Inr db' \<and>
         rule_lookup db' = (\<lambda>k. if fst k = role \<and> fst (snd k) = d then None else rule_lookup db k)))"
proof (intro conjI impI)
  assume u: "updateRoleScopeRule db role n input = Inr (db', saved)"
  obtain e opr vs where p: "parseScopeRuleInput input = Inr (e, opr, vs)"
    and s: "saved = make_rule (e, opr, vs) n" and db': "db' = put_rule (del_rule db (role, e, n)) (role, e, n) saved"
    and old: "\<exists>old \<in> set (other_rules db role e). sr_ruleNo old = n"
    using updateRoleScopeRule_Inr [OF u assms] .
  have sd: "sr_dimension saved = e" by (simp add: s)
  have present: "rule_lookup db (role, e, n) \<noteq> None"
    using old by (auto simp: other_rules_def getRoleScopeRules_lookup)
  then have "stored_rows db (role, e, n) \<noteq> []"
    by (auto simp: rule_lookup_stored [OF assms] stored_rule_def)
  then have "n \<ge> 1" using assms by (auto simp: stored_rows_def migrated_def list_all_iff filter_empty_conv)
  then have "rule_fits (role, e, n) saved" using parseScopeRuleInput_fits [OF p] s by simp
  then show "rule_lookup db (role, sr_dimension saved, n) \<noteq> None"
    "rule_lookup db' = (rule_lookup db)((role, sr_dimension saved, n) \<mapsto> saved)"
    unfolding sd db' using present rule_store.lookup_replace [OF assms] by simp_all
next
  assume d: "d \<in> set SCOPE_DIMENSIONS"
  have k: "scope_dimension_of (dimension_name d) \<noteq> None" using d by simp
  have c: "col_ruleNo (snd (readScopeRows db role))"
    using assms by (simp add: readScopeRows_def read_columns_def migrated_def Let_def)
  have "removeRoleScopeRule db role (dimension_name d) (Some n) = Inr (del_rule db (role, d, n))"
    using k c by (simp add: removeRoleScopeRule_def del_rule_def)
  then show "\<exists>db'. removeRoleScopeRule db role (dimension_name d) (Some n) = Inr db' \<and>
      rule_lookup db' = (rule_lookup db)((role, d, n) := None)"
    using rule_store.lookup_del [OF assms] by blast
  let ?db = "delete_rule db role (dimension_name d) None"
  have m: "migrated ?db" using assms by (auto simp: migrated_def delete_rule_def list_all_iff)
  have "stored_rows ?db j = (if fst j = role \<and> fst (snd j) = d then [] else stored_rows db j)" for j
    by (cases j) (auto simp: stored_rows_def delete_rule_def delete_where_def filter_empty_conv intro!: filter_cong)
  then have "rule_lookup ?db = (\<lambda>j. if fst j = role \<and> fst (snd j) = d then None else rule_lookup db j)"
    by (intro ext) (simp add: rule_lookup_stored m assms, simp add: stored_rule_def)
  moreover have "removeRoleScopeRule db role (dimension_name d) None = Inr ?db"
    using k by (simp add: removeRoleScopeRule_def)
  ultimately show "\<exists>db'. removeRoleScopeRule db role (dimension_name d) None = Inr db' \<and>
      rule_lookup db' = (\<lambda>k. if fst k = role \<and> fst (snd k) = d then None else rule_lookup db k)" by blast
qed

theorem edit_and_remove_rule_effect_witness:
  "(\<exists>db'. removeRoleScopeRule example_db 5 ''segmentKeys'' (Some 1) = Inr db' \<and>
       rule_lookup db' (5, segmentKeys, 1) = None) \<and>
   (\<exists>db' saved. updateRoleScopeRule example_db 5 1 example_input = Inr (db', saved) \<and>
       rule_lookup db' (5, segmentKeys, 1) = Some saved)"
proof
  have "segmentKeys \<in> set SCOPE_DIMENSIONS" "dimension_name segmentKeys = ''segmentKeys''"
    by (simp_all add: SCOPE_DIMENSIONS_def dimension_name_def)
  then show "\<exists>db'. removeRoleScopeRule example_db 5 ''segmentKeys'' (Some 1) = Inr db' \<and>
       rule_lookup db' (5, segmentKeys, 1) = None"
    using edit_and_remove_rule_effect [OF example_migrated, where d = segmentKeys and n = 1 and role = 5]
    by (metis fun_upd_same)
  have "is_ok (updateRoleScopeRule example_db 5 1 example_input) \<and>
    (case updateRoleScopeRule example_db 5 1 example_input of Inl _ \<Rightarrow> False | Inr p \<Rightarrow> sr_dimension (snd p) = segmentKeys)"
    by code_simp
  then obtain db' saved where r: "updateRoleScopeRule example_db 5 1 example_input = Inr (db', saved)"
    "sr_dimension saved = segmentKeys"
    by (auto simp: is_ok_iff)
  then show "\<exists>db' saved. updateRoleScopeRule example_db 5 1 example_input = Inr (db', saved) \<and>
       rule_lookup db' (5, segmentKeys, 1) = Some saved"
    using edit_and_remove_rule_effect [OF example_migrated, of 5 1 example_input db' saved] by auto
qed

section \<open>The request pipeline\<close>

text \<open>Only the keys of the dimensions that need them are read, and the result does not depend on the others.\<close>

lemma rule_allows_needed_domain:
  assumes "d \<in> set SCOPE_DIMENSIONS" "\<exists>r \<in> set rules. sr_dimension r = d"
  shows "rule_allows rules (dimensionKeys db (dimensionsNeedingDomain rules)) d v = rule_allows rules (sdb_keys db) d v"
proof -
  have "list_all (\<lambda>r. sr_operator r = OpNotIn) (filter (\<lambda>r. sr_dimension r = d) rules) \<longrightarrow>
      d \<in> set (dimensionsNeedingDomain rules)"
    using assms by (auto simp: dimensionsNeedingDomain_def filter_empty_conv Let_def)
  then show ?thesis by (auto simp: rule_allows_def dimensionKeys_def Let_def)
qed

lemma getRoleScopeRules_dimension:
  "rule \<in> set (getRoleScopeRules db role) \<Longrightarrow> sr_dimension rule \<in> set SCOPE_DIMENSIONS"
proof -
  have "row_key r = Some (d, n) \<Longrightarrow> d \<in> set SCOPE_DIMENSIONS" for r d n
    by (auto simp: row_key_def)
  then show "rule \<in> set (getRoleScopeRules db role) \<Longrightarrow> sr_dimension rule \<in> set SCOPE_DIMENSIONS"
    by (auto simp: getRoleScopeRules_def groupScopeRows_iff rule_at_def Let_def filter_empty_conv
        split: option.splits if_splits)
qed

lemma getRoleDataScopeRules_values:
  assumes "\<exists>r \<in> set (getRoleScopeRules db role). sr_dimension r = d"
  shows "(d, v) \<in> set (getRoleDataScopeRules db role) \<longleftrightarrow>
    (if \<exists>w. rule_allows (getRoleScopeRules db role) (sdb_keys db) d w
     then rule_allows (getRoleScopeRules db role) (sdb_keys db) d v else v = scopeNoMatchValue d)"
proof -
  let ?R = "getRoleScopeRules db role"
  have d: "d \<in> set SCOPE_DIMENSIONS" using assms getRoleScopeRules_dimension by blast
  have ne: "?R \<noteq> []" using assms by auto
  have "(d, v) \<in> set (getRoleDataScopeRules db role) \<longleftrightarrow>
      (d, v) \<in> set (resolveRoleScope ?R (dimensionKeys db (dimensionsNeedingDomain ?R)))"
    using ne by (simp add: getRoleDataScopeRules_def Let_def)
  also have "\<dots> \<longleftrightarrow> v \<in> set (resolve_dimension ?R (dimensionKeys db (dimensionsNeedingDomain ?R)) d)"
    using assms by (auto simp: resolveRoleScope_iff)
  also have "\<dots> \<longleftrightarrow> (if \<exists>w. rule_allows ?R (sdb_keys db) d w then rule_allows ?R (sdb_keys db) d v
      else v = scopeNoMatchValue d)"
    by (simp add: resolve_dimension_iff rule_allows_needed_domain [OF d assms])
  finally show ?thesis .
qed

lemma resolveScopedFilters_Next:
  "resolveScopedFilters (Some user) q = Next g \<longleftrightarrow> scoped_filters (raw_filters q) user = Inr g"
  by (auto simp: resolveScopedFilters_def split: sum.splits)

lemma scoped_filters_other:
  "roleCode user \<noteq> ''SALESPERSON'' \<Longrightarrow> scoped_filters raw user = applyRoleDataScope raw (dataScopeRules user)"
  by (cases "applyRoleDataScope raw (dataScopeRules user)") (simp_all add: scoped_filters_def applySalespersonLock_def)

lemma ruled_dimensions: "d \<in> fst ` set (getRoleDataScopeRules db role) \<longleftrightarrow> (\<exists>rule \<in> set (getRoleScopeRules db role). sr_dimension rule = d)"
proof
  assume "d \<in> fst ` set (getRoleDataScopeRules db role)"
  then show "\<exists>rule \<in> set (getRoleScopeRules db role). sr_dimension rule = d"
    by (auto simp: getRoleDataScopeRules_def Let_def resolveRoleScope_iff split: if_splits)
next
  assume "\<exists>rule \<in> set (getRoleScopeRules db role). sr_dimension rule = d"
  from getRoleDataScopeRules_values [OF this] obtain v where "(d, v) \<in> set (getRoleDataScopeRules db role)" by (metis (full_types))
  then show "d \<in> fst ` set (getRoleDataScopeRules db role)" by force
qed

text \<open>What the stored rules of a role allow: the key of the row is one the rules of the field allow together, or
the no-match value when they allow none.\<close>

definition rules_allow :: "scope_db \<Rightarrow> int option \<Rightarrow> profiles \<Rightarrow> fact_row \<Rightarrow> dimension \<Rightarrow> bool" where
  "rules_allow db role P row d \<longleftrightarrow> (\<exists>v. counts_under P row d (castScopeValue d v) \<and>
     (if \<exists>w. rule_allows (getRoleScopeRules db role) (sdb_keys db) d w
      then rule_allows (getRoleScopeRules db role) (sdb_keys db) d v else v = scopeNoMatchValue d))"

lemma allowed_by_rules:
  assumes "\<exists>rule \<in> set (getRoleScopeRules db role). sr_dimension rule = d"
  shows "holds_in (effective_key P row d) (allowed_keys (getRoleDataScopeRules db role) d) \<longleftrightarrow> rules_allow db role P row d"
proof -
  have "holds_in (effective_key P row d) (allowed_keys (getRoleDataScopeRules db role) d) \<longleftrightarrow>
      (\<exists>v. effective_key P row d = Some (castScopeValue d v) \<and> (d, v) \<in> set (getRoleDataScopeRules db role))"
    by (force simp: holds_in_def allowed_keys_def split: option.splits)
  then show ?thesis unfolding getRoleDataScopeRules_values [OF assms] rules_allow_def counts_under_iff .
qed

lemma locked_clause:
  assumes "applySalespersonLock f user = Inr g" "roleCode user = ''SALESPERSON''"
  shows "\<exists>k. salespersonKey user = Some k \<and> (where_holds P (measure_clause kind g) row \<longleftrightarrow>
    SalespersonKey row = Some (KNum k) \<and> (kind = With_customers \<longrightarrow> admits_at f (effective_key P row) customerKeys))"
proof -
  obtain k where k: "salespersonKey user = Some k"
    and g: "g = (\<lambda>d. case d of salespersonKeys \<Rightarrow> Some [KNum k] | customerKeys \<Rightarrow> f customerKeys | _ \<Rightarrow> Some [])"
    using assms by (auto simp: applySalespersonLock_def fun_eq_iff split: option.splits if_splits)
  have "admits_at g r d \<longleftrightarrow> (d = salespersonKeys \<longrightarrow> r d = Some (KNum k)) \<and> (d = customerKeys \<longrightarrow> admits_at f r customerKeys)" for r d
    unfolding g by (cases d) (auto simp: admits_at_def selected_def holds_in_def split: option.splits)
  then have "where_holds P (measure_clause kind g) row \<longleftrightarrow> (\<forall>d. applied kind d \<longrightarrow>
      (d = salespersonKeys \<longrightarrow> effective_key P row d = Some (KNum k)) \<and> (d = customerKeys \<longrightarrow> admits_at f (effective_key P row) customerKeys))"
    unfolding measure_clause_iff by blast
  also have "\<dots> \<longleftrightarrow> effective_key P row salespersonKeys = Some (KNum k) \<and>
      (kind = With_customers \<longrightarrow> admits_at f (effective_key P row) customerKeys)"
    by (auto simp: applied_def)
  finally show ?thesis using k by (simp add: effective_key_def FILTER_COLUMNS_def)
qed

text \<open>C7. Which rows a signed-in user's report query selects, from the stored rules to the WHERE clause a measure
builds. For a user who is not on the salesperson tier: exactly the rows that, in every field the query applies, count under
a selected value (when the request selects any) and, when the user's role has rules on the field, under a value
the stored rules allow together. A query on the CRM facts applies neither the channel nor the customer field, one without
customers not the customer field: a rule on channels does not bind there. For a salesperson: exactly the salesperson's own
rows, whatever else the request selects or the role's rules say -- of the request only a customer selection is kept.\<close>

theorem scoped_request_rows:
  assumes "attachUserContext (Some u) (\<lambda>role. Some (getRoleDataScopeRules db role)) = Next ctx"
    and "resolveScopedFilters (Some ctx) q = Next g"
  shows "(u_roleTierCode u \<noteq> Some ''SALESPERSON'' \<longrightarrow>
       (where_holds P (measure_clause kind g) row \<longleftrightarrow> (\<forall>d. applied kind d \<longrightarrow>
          (selected (raw_filters q) d = [] \<or> (\<exists>k \<in> set (selected (raw_filters q) d). counts_under P row d k)) \<and>
          ((\<exists>rule \<in> set (getRoleScopeRules db (u_roleId u)). sr_dimension rule = d) \<longrightarrow> rules_allow db (u_roleId u) P row d)))) \<and>
     (u_roleTierCode u = Some ''SALESPERSON'' \<longrightarrow>
       (\<exists>k. u_salespersonKey u = Some k \<and>
         (where_holds P (measure_clause kind g) row \<longleftrightarrow> SalespersonKey row = Some (KNum k) \<and>
           (kind = With_customers \<longrightarrow> selected (raw_filters q) customerKeys = [] \<or>
              (\<exists>c \<in> set (selected (raw_filters q) customerKeys). CustomerKey row = Some c)))))"
proof (intro conjI impI)
  have ctx: "u_roleTierCode u = Some (roleCode ctx)" "salespersonKey ctx = u_salespersonKey u"
    "dataScopeRules ctx = getRoleDataScopeRules db (u_roleId u)"
    using assms(1) by (auto simp: attachUserContext_def split: option.splits if_splits)
  have g: "scoped_filters (raw_filters q) ctx = Inr g" using assms(2) by (simp add: resolveScopedFilters_Next)
  then obtain f where f: "applyRoleDataScope (raw_filters q) (dataScopeRules ctx) = Inr f" "applySalespersonLock f ctx = Inr g"
    by (auto simp: scoped_filters_def rbind_eq_Inr)
  note at = role_scope_exact_at [OF f(1)]
  {
    assume "u_roleTierCode u \<noteq> Some ''SALESPERSON''"
    then have gf: "g = f" using f(2) ctx(1) by (simp add: applySalespersonLock_def)
    have field: "admits_at f (effective_key P row) d \<longleftrightarrow>
        (selected (raw_filters q) d = [] \<or> (\<exists>k \<in> set (selected (raw_filters q) d). counts_under P row d k)) \<and>
        ((\<exists>rule \<in> set (getRoleScopeRules db (u_roleId u)). sr_dimension rule = d) \<longrightarrow> rules_allow db (u_roleId u) P row d)" for d
      unfolding at ctx(3) unfolding ruled_dimensions admits_at_counts using allowed_by_rules [of db "u_roleId u" d P row] by blast
    show "where_holds P (measure_clause kind g) row \<longleftrightarrow> (\<forall>d. applied kind d \<longrightarrow>
        (selected (raw_filters q) d = [] \<or> (\<exists>k \<in> set (selected (raw_filters q) d). counts_under P row d k)) \<and>
        ((\<exists>rule \<in> set (getRoleScopeRules db (u_roleId u)). sr_dimension rule = d) \<longrightarrow> rules_allow db (u_roleId u) P row d))"
      unfolding measure_clause_iff gf field ..
  next
    assume tier: "u_roleTierCode u = Some ''SALESPERSON''"
    have "customerKeys \<notin> fst ` set (dataScopeRules ctx)"
      unfolding ctx(3) ruled_dimensions using getRoleScopeRules_dimension [of _ db "u_roleId u"] by (force simp: SCOPE_DIMENSIONS_def)
    then have "admits_at f (effective_key P row) customerKeys \<longleftrightarrow> selected (raw_filters q) customerKeys = [] \<or>
        (\<exists>c \<in> set (selected (raw_filters q) customerKeys). CustomerKey row = Some c)"
      unfolding at unfolding admits_at_counts counts_under_iff by (simp add: effective_key_def FILTER_COLUMNS_def)
    then show "\<exists>k. u_salespersonKey u = Some k \<and>
         (where_holds P (measure_clause kind g) row \<longleftrightarrow> SalespersonKey row = Some (KNum k) \<and>
           (kind = With_customers \<longrightarrow> selected (raw_filters q) customerKeys = [] \<or>
              (\<exists>c \<in> set (selected (raw_filters q) customerKeys). CustomerKey row = Some c)))"
      using locked_clause [OF f(2), of P kind row] tier ctx by simp
  }
qed

definition example_user :: scope_user where
  "example_user = \<lparr>u_roleTierCode = Some ''MANAGER'', u_roleId = Some 5, u_salespersonKey = None\<rparr>"

definition example_row :: fact_row where
  "example_row = \<lparr>CompanyKey = None, SegmentKey = Some (num_key 2), ChannelKey = None, SalesTeamKey = None,
     SalespersonKey = None, CustomerKey = None\<rparr>"

theorem scoped_request_rows_witness:
  "\<exists>ctx g. attachUserContext (Some example_user) (\<lambda>role. Some (getRoleDataScopeRules example_db role)) = Next ctx \<and>
     resolveScopedFilters (Some ctx) (\<lambda>_. JUndef) = Next g \<and> where_holds (\<lambda>_. None) (measure_clause Crm_facts g) example_row \<and>
     rules_allow example_db (Some 5) (\<lambda>_. None) example_row segmentKeys"
proof -
  let ?load = "\<lambda>role. Some (getRoleDataScopeRules example_db role)"
  have "case attachUserContext (Some example_user) ?load of
      Next ctx \<Rightarrow> (case resolveScopedFilters (Some ctx) (\<lambda>_. JUndef) of
        Next g \<Rightarrow> where_holds (\<lambda>_. None) (measure_clause Crm_facts g) example_row | _ \<Rightarrow> False)
    | _ \<Rightarrow> False"
    by code_simp
  then obtain ctx g where r: "attachUserContext (Some example_user) ?load = Next ctx"
    "resolveScopedFilters (Some ctx) (\<lambda>_. JUndef) = Next g" "where_holds (\<lambda>_. None) (measure_clause Crm_facts g) example_row"
    by (auto split: outcome.splits)
  have "u_roleTierCode example_user \<noteq> Some ''SALESPERSON''" "u_roleId example_user = Some 5" by (simp_all add: example_user_def)
  moreover have "list_ex (\<lambda>rule. sr_dimension rule = segmentKeys) (getRoleScopeRules example_db (Some 5))" by code_simp
  moreover have "applied Crm_facts segmentKeys" by (simp add: applied_def)
  ultimately show ?thesis
    using scoped_request_rows [OF r(1,2), of "\<lambda>_. None" Crm_facts example_row] r unfolding list_ex_iff by metis
qed

text \<open>For a salesperson the role's data scope has no effect: whatever values the role's rules allow on
company, segment, channel or team, a request with no filter of its own continues with filters that let
through every row of that salesperson, also the rows outside the role's scope. The lock empties those
fields after the role scope has filled them.\<close>

theorem salesperson_lock_drops_role_scope:
  assumes "roleCode user = ''SALESPERSON''" and "salespersonKey user = Some k" and "k \<noteq> NaN"
    and "fst ` set (dataScopeRules user) \<subseteq> {companyKeys, segmentKeys, channelKeys, salesTeamKeys}"
    and "\<forall>d. q d = JUndef"
  shows "\<exists>g. resolveScopedFilters (Some user) q = Next g \<and>
    (\<forall>r. admits g r \<longleftrightarrow> r salespersonKeys = Some (KNum k))"
proof -
  let ?rules = "dataScopeRules user"
  have raw: "selected (raw_filters q) d = []" for d
    using assms(5) by (simp add: raw_filters_def selected_def parseStringArray_def parseNumberArray_def query_values_def)
  then obtain f where f: "applyRoleDataScope (raw_filters q) ?rules = Inr f"
    using role_scope_total [of "raw_filters q" ?rules] by blast
  have sel: "selected f salespersonKeys = []" "selected f customerKeys = []"
    using assms(4) raw by (auto simp: applyRoleDataScope_selected(1) [OF f])
  obtain g where g: "applySalespersonLock f user = Inr g"
    "\<forall>r. admits g r \<longleftrightarrow> r salespersonKeys = Some (KNum k) \<and> admits_at f r customerKeys"
    using lock_exact [OF assms(1-3), of f] sel(1) by auto
  then show ?thesis
    using f sel(2) by (auto simp: resolveScopedFilters_Next scoped_filters_def admits_at_def)
qed

theorem salesperson_lock_drops_role_scope_witness:
  "\<exists>g. resolveScopedFilters (Some \<lparr>roleCode = ''SALESPERSON'', salespersonKey = Some (Fin 7), roleId = Some 5,
       dataScopeRules = [(companyKeys, ''1'')]\<rparr>) (\<lambda>_. JUndef) = Next g \<and>
     admits g ((\<lambda>_. None)(salespersonKeys := Some (KNum (Fin 7)), companyKeys := Some (num_key 2))) \<and>
     \<not> within_scope [(companyKeys, ''1'')]
         ((\<lambda>_. None)(salespersonKeys := Some (KNum (Fin 7)), companyKeys := Some (num_key 2)))"
proof -
  let ?u = "\<lparr>roleCode = ''SALESPERSON'', salespersonKey = Some (Fin 7), roleId = Some 5,
       dataScopeRules = [(companyKeys, ''1'')]\<rparr>"
  let ?r = "(\<lambda>_. None)(salespersonKeys := Some (KNum (Fin 7)), companyKeys := Some (num_key 2))"
  have "\<not> within_scope [(companyKeys, ''1'')] ?r" by code_simp
  moreover obtain g where "resolveScopedFilters (Some ?u) (\<lambda>_. JUndef) = Next g"
    "\<forall>r. admits g r \<longleftrightarrow> r salespersonKeys = Some (KNum (Fin 7))"
    using salesperson_lock_drops_role_scope [of ?u "Fin 7" "\<lambda>_. JUndef"] by auto
  ultimately show ?thesis by auto
qed

end
