(* ===== verification/Cascade.thy ===== *)
theory Cascade
  imports Scope_Filters
begin

text \<open>
  The cross-filtering of the filter bar (\<open>backend/src/filters/cascade.ts\<close>): which options remain valid
  for every dimension given the other dimensions' selections, and the pruning of selected values that no
  longer are. A combo is one occurring combination of dimension values (\<open>None\<close> for a missing one), a
  selection or scope lists the values of each dimension (empty for no restriction), and a JavaScript
  \<open>Set\<close> of options is a set. The bounded \<open>for\<close> loop is a recursion on the passes left.
\<close>

section \<open>The model\<close>

type_synonym combo = "dimension \<Rightarrow> string option"

type_synonym selection = "dimension \<Rightarrow> string list"

definition DIMENSIONS :: "dimension list" where
  "DIMENSIONS = [companyKeys, segmentKeys, channelKeys, salesTeamKeys, salespersonKeys, customerKeys]"

definition emptySelection :: selection where
  "emptySelection = (\<lambda>d. [])"

definition PRUNE_ORDER :: "dimension list" where
  "PRUNE_ORDER = [customerKeys, salespersonKeys, salesTeamKeys, channelKeys, segmentKeys, companyKeys]"

definition MAX_PASSES :: nat where
  "MAX_PASSES = length DIMENSIONS + 2"

record cascade_result =
  options :: "dimension \<Rightarrow> string set"
  selection :: selection
  matchingCombos :: nat

definition emptyOptions :: "dimension \<Rightarrow> string set" where
  "emptyOptions = (\<lambda>d. {})"

text \<open>A dimension's selection (or scope) lets a value through when it is empty or lists the value.\<close>

definition lets_through :: "string list \<Rightarrow> string option \<Rightarrow> bool" where
  "lets_through vs v = (vs = [] \<or> (case v of None \<Rightarrow> False | Some k \<Rightarrow> k \<in> set vs))"

text \<open>
  The inner loop over the dimensions: the number of failed selections and the last failed dimension. A
  dimension outside the scope counts as two failures; the loop stops at the second failure.
\<close>

fun combo_failures ::
  "selection \<Rightarrow> selection \<Rightarrow> combo \<Rightarrow> dimension list \<Rightarrow> nat \<Rightarrow> dimension option \<Rightarrow> nat \<times> dimension option" where
  "combo_failures scope current combo [] failures failed = (failures, failed)"
| "combo_failures scope current combo (d # ds) failures failed =
     (if \<not> lets_through (scope d) (combo d) then (2, failed)
      else if \<not> lets_through (current d) (combo d) then
        (if failures + 1 > 1 then (failures + 1, Some d)
         else combo_failures scope current combo ds (failures + 1) (Some d))
      else combo_failures scope current combo ds failures failed)"

definition add_option :: "(dimension \<Rightarrow> string set) \<Rightarrow> combo \<Rightarrow> dimension \<Rightarrow> (dimension \<Rightarrow> string set)" where
  "add_option opts combo d = (case combo d of None \<Rightarrow> opts | Some v \<Rightarrow> opts(d := insert v (opts d)))"

definition add_combo ::
  "selection \<Rightarrow> selection \<Rightarrow> combo \<Rightarrow> (dimension \<Rightarrow> string set) \<times> nat \<Rightarrow> (dimension \<Rightarrow> string set) \<times> nat" where
  "add_combo scope current combo st =
     (case combo_failures scope current combo DIMENSIONS 0 None of (failures, failed) \<Rightarrow>
        if failures = 0 then (fold (\<lambda>d opts. add_option opts combo d) DIMENSIONS (fst st), snd st + 1)
        else if failures = 1 then
          (case failed of None \<Rightarrow> st | Some d \<Rightarrow> (add_option (fst st) combo d, snd st))
        else st)"

definition cascade_pass :: "combo list \<Rightarrow> selection \<Rightarrow> selection \<Rightarrow> (dimension \<Rightarrow> string set) \<times> nat" where
  "cascade_pass combos scope current = fold (add_combo scope current) combos (emptyOptions, 0)"

definition drop_dimension :: "selection \<Rightarrow> (dimension \<Rightarrow> string set) \<Rightarrow> dimension option" where
  "drop_dimension current opts = List.find (\<lambda>d. list_ex (\<lambda>v. v \<notin> opts d) (current d)) PRUNE_ORDER"

fun cascade_loop ::
  "nat \<Rightarrow> combo list \<Rightarrow> selection \<Rightarrow> selection \<Rightarrow> (dimension \<Rightarrow> string set) \<Rightarrow> nat \<Rightarrow> cascade_result" where
  "cascade_loop 0 combos scope current opts matching =
     \<lparr>options = opts, selection = current, matchingCombos = matching\<rparr>"
| "cascade_loop (Suc n) combos scope current opts matching =
     (case cascade_pass combos scope current of (opts', matching') \<Rightarrow>
       (case drop_dimension current opts' of
          None \<Rightarrow> \<lparr>options = opts', selection = current, matchingCombos = matching'\<rparr>
        | Some d \<Rightarrow> cascade_loop n combos scope
            (current(d := filter (\<lambda>v. v \<in> opts' d) (current d))) opts' matching'))"

definition computeCascade :: "combo list \<Rightarrow> selection \<Rightarrow> selection \<Rightarrow> cascade_result" where
  "computeCascade combos sel scope = cascade_loop MAX_PASSES combos scope sel emptyOptions 0"

section \<open>What one pass computes\<close>

definition in_scope :: "selection \<Rightarrow> combo \<Rightarrow> bool" where
  "in_scope scope c \<longleftrightarrow> (\<forall>d. lets_through (scope d) (c d))"

text \<open>A combo is valid for a dimension when it is in scope and passes every other dimension's selection.\<close>

definition valid_for :: "selection \<Rightarrow> selection \<Rightarrow> combo \<Rightarrow> dimension \<Rightarrow> bool" where
  "valid_for scope current c d \<longleftrightarrow> in_scope scope c \<and> (\<forall>e. e \<noteq> d \<longrightarrow> lets_through (current e) (c e))"

definition matches :: "selection \<Rightarrow> selection \<Rightarrow> combo \<Rightarrow> bool" where
  "matches scope current c \<longleftrightarrow> in_scope scope c \<and> (\<forall>e. lets_through (current e) (c e))"

definition valid_options :: "combo list \<Rightarrow> selection \<Rightarrow> selection \<Rightarrow> dimension \<Rightarrow> string set" where
  "valid_options combos scope current d =
     {v. \<exists>c \<in> set combos. c d = Some v \<and> valid_for scope current c d}"

lemma DIMENSIONS_all [simp]: "d \<in> set DIMENSIONS" "distinct DIMENSIONS"
  by (cases d) (simp_all add: DIMENSIONS_def)

lemma PRUNE_ORDER_all [simp]: "d \<in> set PRUNE_ORDER"
  by (cases d) (simp_all add: PRUNE_ORDER_def)

lemma combo_failures_spec:
  "n \<le> 1 \<Longrightarrow>
   (let r = combo_failures scope current c ds n f; bad = filter (\<lambda>d. \<not> lets_through (current d) (c d)) ds in
    if (\<forall>d \<in> set ds. lets_through (scope d) (c d)) \<and> n + length bad \<le> 1
    then r = (n + length bad, if bad = [] then f else Some (hd bad)) else fst r \<ge> 2)"
  by (induction ds arbitrary: n f) (auto simp: Let_def)

lemma valid_for_cases:
  defines "bad \<equiv> \<lambda>c current. filter (\<lambda>d. \<not> lets_through (current d) (c d)) DIMENSIONS"
  shows "valid_for scope current c d \<longleftrightarrow> in_scope scope c \<and> (bad c current = [] \<or> bad c current = [d])"
    and "matches scope current c \<longleftrightarrow> in_scope scope c \<and> bad c current = []"
proof -
  have mem: "e \<in> set (bad c current) \<longleftrightarrow> \<not> lets_through (current e) (c e)" for e
    by (simp add: bad_def)
  have dist: "distinct (bad c current)" by (simp add: bad_def)
  have "(\<forall>e. e \<noteq> d \<longrightarrow> lets_through (current e) (c e)) \<longleftrightarrow> set (bad c current) \<subseteq> {d}"
    using mem by blast
  also have "\<dots> \<longleftrightarrow> bad c current = [] \<or> bad c current = [d]"
    using dist by (cases "bad c current" rule: list.exhaust; cases "tl (bad c current)") auto
  finally show "valid_for scope current c d \<longleftrightarrow> in_scope scope c \<and> (bad c current = [] \<or> bad c current = [d])"
    by (simp add: valid_for_def)
  show "matches scope current c \<longleftrightarrow> in_scope scope c \<and> bad c current = []"
    using mem by (simp add: matches_def) (metis all_not_in_conv set_empty)
qed

lemma fst_add_option_fold:
  "fold (\<lambda>d opts. add_option opts c d) ds opts d =
     opts d \<union> (if d \<in> set ds then {v. c d = Some v} else {})"
  by (induction ds arbitrary: opts) (auto simp: add_option_def split: option.splits)

lemma add_combo_spec:
  "fst (add_combo scope current c st) d = fst st d \<union> {v. c d = Some v \<and> valid_for scope current c d}"
  "snd (add_combo scope current c st) = snd st + (if matches scope current c then 1 else 0)"
proof -
  let ?bad = "filter (\<lambda>d. \<not> lets_through (current d) (c d)) DIMENSIONS"
  let ?r = "combo_failures scope current c DIMENSIONS 0 None"
  note spec = combo_failures_spec [of 0 scope current c DIMENSIONS None, simplified Let_def, simplified]
  note v = valid_for_cases [where scope = scope and current = current and c = c]
  consider (none) "in_scope scope c" "?bad = []" | (one) f where "in_scope scope c" "?bad = [f]"
    | (out) "\<not> in_scope scope c \<or> length ?bad \<ge> 2"
    by (cases ?bad rule: list.exhaust; cases "tl ?bad") auto
  then have "(fst (add_combo scope current c st) d = fst st d \<union> {v. c d = Some v \<and> valid_for scope current c d}) \<and>
      (snd (add_combo scope current c st) = snd st + (if matches scope current c then 1 else 0))"
  proof cases
    case none
    then have "?r = (0, None)" using spec by (simp add: in_scope_def)
    then show ?thesis using none by (auto simp: add_combo_def fst_add_option_fold v)
  next
    case one
    then have "?r = (1, Some f)" using spec by (simp add: in_scope_def)
    then show ?thesis using one by (auto simp: add_combo_def add_option_def v split: option.splits)
  next
    case out
    then have "\<not> ((\<forall>d \<in> set DIMENSIONS. lets_through (scope d) (c d)) \<and> length ?bad \<le> Suc 0)"
      by (auto simp: in_scope_def)
    then have "fst ?r \<ge> 2" using spec by (simp only: if_False)
    then show ?thesis using out by (auto simp: add_combo_def v split: prod.splits)
  qed
  then show "fst (add_combo scope current c st) d = fst st d \<union> {v. c d = Some v \<and> valid_for scope current c d}"
    "snd (add_combo scope current c st) = snd st + (if matches scope current c then 1 else 0)" by blast+
qed

lemma fold_add_combo:
  "fst (fold (add_combo scope current) cs st) d =
     fst st d \<union> {v. \<exists>c \<in> set cs. c d = Some v \<and> valid_for scope current c d} \<and>
   snd (fold (add_combo scope current) cs st) = snd st + length (filter (matches scope current) cs)"
  by (induction cs arbitrary: st) (auto simp: add_combo_spec)

lemma cascade_pass_eq:
  "cascade_pass combos scope current =
     (valid_options combos scope current, length (filter (matches scope current) combos))"
  using fold_add_combo [of scope current combos "(emptyOptions, 0)"]
  by (auto simp: cascade_pass_def valid_options_def emptyOptions_def intro!: prod_eqI)

section \<open>Pruning\<close>

text \<open>One pruning step, and the selections it leads to.\<close>

definition prune :: "combo list \<Rightarrow> selection \<Rightarrow> dimension \<Rightarrow> selection \<Rightarrow> selection" where
  "prune combos scope d current =
     current(d := filter (\<lambda>v. v \<in> valid_options combos scope current d) (current d))"

definition next_drop :: "combo list \<Rightarrow> selection \<Rightarrow> selection \<Rightarrow> dimension option" where
  "next_drop combos scope current = drop_dimension current (valid_options combos scope current)"

definition dirty :: "combo list \<Rightarrow> selection \<Rightarrow> selection \<Rightarrow> dimension \<Rightarrow> bool" where
  "dirty combos scope current d \<longleftrightarrow> \<not> set (current d) \<subseteq> valid_options combos scope current d"

inductive prunes_to :: "combo list \<Rightarrow> selection \<Rightarrow> selection \<Rightarrow> selection \<Rightarrow> bool" for combos scope where
  done_pruning: "prunes_to combos scope current current"
| prune_once: "next_drop combos scope current = Some d \<Longrightarrow>
     prunes_to combos scope (prune combos scope d current) final \<Longrightarrow> prunes_to combos scope current final"

lemma next_drop_dirty: "next_drop combos scope current = Some d \<Longrightarrow> dirty combos scope current d"
  by (auto simp: next_drop_def drop_dimension_def dirty_def list_ex_iff dest!: find_SomeD)

lemma next_drop_None: "next_drop combos scope current = None \<longleftrightarrow> (\<forall>d. \<not> dirty combos scope current d)"
  by (auto simp: next_drop_def drop_dimension_def dirty_def find_None_iff list_ex_iff)

definition some_match :: "combo list \<Rightarrow> selection \<Rightarrow> selection \<Rightarrow> bool" where
  "some_match combos scope current \<longleftrightarrow> (\<exists>c \<in> set combos. matches scope current c)"

text \<open>A selected value is still valid iff it occurs in a combo that matches the whole selection.\<close>

lemma valid_selected:
  "v \<in> set (current d) \<Longrightarrow> v \<in> valid_options combos scope current d \<longleftrightarrow>
     (\<exists>c \<in> set combos. c d = Some v \<and> matches scope current c)"
proof -
  assume v: "v \<in> set (current d)"
  have "valid_for scope current c d \<longleftrightarrow> matches scope current c" if "c d = Some v" for c
  proof -
    have "lets_through (current d) (c d)" using v that by (simp add: lets_through_def)
    then show ?thesis unfolding valid_for_def matches_def by metis
  qed
  then show ?thesis unfolding valid_options_def by blast
qed

lemma prune_other [simp]: "e \<noteq> d \<Longrightarrow> prune combos scope d current e = current e"
  by (simp add: prune_def)

lemma prune_no_match: "\<not> some_match combos scope current \<Longrightarrow> prune combos scope d current d = []"
  by (auto simp: prune_def filter_empty_conv valid_selected some_match_def)

lemma set_prune: "set (prune combos scope d current e) \<subseteq> set (current e)"
  by (cases "e = d") (auto simp: prune_def)

lemma prune_match:
  assumes "some_match combos scope current"
  shows "prune combos scope d current e = [] \<longleftrightarrow> current e = []"
    and "c \<in> set combos \<Longrightarrow> matches scope (prune combos scope d current) c = matches scope current c"
proof -
  have keep: "v \<in> set (prune combos scope d current d)"
    if "c \<in> set combos" "matches scope current c" "c d = Some v" "current d \<noteq> []" for c v
  proof -
    have "v \<in> set (current d)" using that by (auto simp: matches_def lets_through_def split: option.splits dest!: spec [of _ d])
    then show ?thesis using that valid_selected [of v current d] by (auto simp: prune_def)
  qed
  have occurs: "\<exists>v. c d = Some v" if "matches scope current c" "current d \<noteq> []" for c
    using that by (auto simp: matches_def lets_through_def split: option.splits dest!: spec [of _ d])
  obtain c0 where c0: "c0 \<in> set combos" "matches scope current c0" using assms by (auto simp: some_match_def)
  have ne: "prune combos scope d current d \<noteq> []" if "current d \<noteq> []"
    using keep [OF c0] occurs [OF c0(2) that] that by fastforce
  then show "prune combos scope d current e = [] \<longleftrightarrow> current e = []"
    by (cases "e = d") (auto simp: prune_def)
  assume c: "c \<in> set combos"
  have "lets_through (prune combos scope d current d) (c d) \<longleftrightarrow> lets_through (current d) (c d)"
    if "\<forall>e. e \<noteq> d \<longrightarrow> lets_through (current e) (c e)" "in_scope scope c"
  proof (cases "current d = []")
    case True
    then show ?thesis by (simp add: prune_def)
  next
    case False
    show ?thesis
    proof
      assume "lets_through (prune combos scope d current d) (c d)"
      then show "lets_through (current d) (c d)"
        using ne [OF False] set_prune [of combos scope d current d]
        by (auto simp: lets_through_def split: option.splits)
    next
      assume l: "lets_through (current d) (c d)"
      then have m: "matches scope current c" using that by (metis matches_def)
      then show "lets_through (prune combos scope d current d) (c d)"
        using keep [OF c m _ False] occurs [OF m False] by (auto simp: lets_through_def)
    qed
  qed
  then show "matches scope (prune combos scope d current) c = matches scope current c"
    unfolding matches_def by (metis prune_other)
qed

lemma some_match_prune: "some_match combos scope current \<Longrightarrow> some_match combos scope (prune combos scope d current)"
  using prune_match(2) by (fastforce simp: some_match_def)

lemma dirty_prune:
  assumes "some_match combos scope current"
  shows "dirty combos scope (prune combos scope d current) e \<longleftrightarrow> e \<noteq> d \<and> dirty combos scope current e"
proof -
  have val: "v \<in> valid_options combos scope (prune combos scope d current) e \<longleftrightarrow>
      v \<in> valid_options combos scope current e" if "v \<in> set (prune combos scope d current e)" for v
    using that set_prune [of combos scope d current e] prune_match(2) [OF assms]
    by (auto simp: valid_selected subset_iff)
  show ?thesis
  proof (cases "e = d")
    case True
    have "v \<in> valid_options combos scope current d" if "v \<in> set (prune combos scope d current d)" for v
      using that by (simp add: prune_def)
    then show ?thesis using True val by (auto simp: dirty_def)
  next
    case False
    then show ?thesis using val by (auto simp: dirty_def)
  qed
qed

text \<open>The dimensions that can still be dropped; every pass removes one of them.\<close>

definition droppable :: "combo list \<Rightarrow> selection \<Rightarrow> selection \<Rightarrow> dimension set" where
  "droppable combos scope current =
     {d. if some_match combos scope current then dirty combos scope current d else current d \<noteq> []}"

lemma finite_dimensions [simp]: "finite (S :: dimension set)"
  by (rule finite_subset [of _ "set DIMENSIONS"]) auto

lemma dirty_nonempty: "dirty combos scope current d \<Longrightarrow> current d \<noteq> []"
  by (auto simp: dirty_def)

lemma droppable_prune:
  assumes "next_drop combos scope current = Some d"
  shows "card (droppable combos scope (prune combos scope d current)) < card (droppable combos scope current)"
proof (rule psubset_card_mono)
  note d = next_drop_dirty [OF assms]
  show "droppable combos scope (prune combos scope d current) \<subset> droppable combos scope current"
  proof (cases "some_match combos scope current")
    case True
    then show ?thesis using d by (auto simp: droppable_def some_match_prune dirty_prune)
  next
    case False
    have "prune combos scope d current e \<noteq> [] \<longrightarrow> e \<noteq> d \<and> current e \<noteq> []" for e
      using prune_no_match [OF False, of d] by (cases "e = d") auto
    then have "droppable combos scope (prune combos scope d current) \<subseteq> {e. current e \<noteq> []} - {d}"
      by (auto simp: droppable_def dest!: dirty_nonempty split: if_splits)
    moreover have "droppable combos scope current = {e. current e \<noteq> []}" using False by (simp add: droppable_def)
    ultimately show ?thesis using dirty_nonempty [OF d] by blast
  qed
qed simp

lemma card_droppable: "card (droppable combos scope current) \<le> length DIMENSIONS"
proof -
  have "card (droppable combos scope current) \<le> card (set DIMENSIONS)" by (rule card_mono) auto
  also have "\<dots> = length DIMENSIONS" by (simp add: distinct_card)
  finally show ?thesis .
qed

section \<open>The loop\<close>

lemma cascade_loop_Suc:
  "cascade_loop (Suc n) combos scope current opts matching =
     (case next_drop combos scope current of
        None \<Rightarrow> \<lparr>options = valid_options combos scope current, selection = current,
                  matchingCombos = length (filter (matches scope current) combos)\<rparr>
      | Some d \<Rightarrow> cascade_loop n combos scope (prune combos scope d current)
          (valid_options combos scope current) (length (filter (matches scope current) combos)))"
  by (simp add: cascade_pass_eq next_drop_def prune_def split: option.split)

declare cascade_loop.simps(2) [simp del]

text \<open>With more passes than droppable dimensions the loop ends on a selection with nothing to drop.\<close>

lemma cascade_loop_result:
  assumes "card (droppable combos scope current) < n"
  shows "let final = selection (cascade_loop n combos scope current opts matching) in
    prunes_to combos scope current final \<and> next_drop combos scope final = None \<and>
    cascade_loop n combos scope current opts matching =
      \<lparr>options = valid_options combos scope final, selection = final,
       matchingCombos = length (filter (matches scope final) combos)\<rparr>"
  using assms
proof (induction n arbitrary: current opts matching)
  case (Suc n)
  show ?case
  proof (cases "next_drop combos scope current")
    case None
    then show ?thesis by (simp add: cascade_loop_Suc done_pruning)
  next
    case (Some d)
    have "card (droppable combos scope (prune combos scope d current)) < n"
      using droppable_prune [OF Some] Suc.prems by simp
    from Suc.IH [OF this, of "valid_options combos scope current"] Some show ?thesis
      by (auto simp: cascade_loop_Suc Let_def intro: prune_once)
  qed
qed simp

lemma passes_enough: "card (droppable combos scope current) < MAX_PASSES"
  using card_droppable [of combos scope current] by (simp add: MAX_PASSES_def)

lemma computeCascade_result:
  obtains final where "prunes_to combos scope sel final" "next_drop combos scope final = None"
    "computeCascade combos sel scope =
      \<lparr>options = valid_options combos scope final, selection = final,
       matchingCombos = length (filter (matches scope final) combos)\<rparr>"
  using cascade_loop_result [OF passes_enough] that by (metis computeCascade_def)

lemma prunes_to_subset: "prunes_to combos scope sel final \<Longrightarrow> set (final d) \<subseteq> set (sel d)"
  by (induction rule: prunes_to.induct) (use set_prune in blast)+

lemma prunes_to_matching:
  "prunes_to combos scope sel final \<Longrightarrow> some_match combos scope sel \<Longrightarrow>
   (\<forall>c \<in> set combos. matches scope final c = matches scope sel c) \<and>
   final d = filter (\<lambda>v. v \<in> set (final d)) (sel d) \<and> (final d = [] \<longleftrightarrow> sel d = [])"
proof (induction rule: prunes_to.induct)
  case (done_pruning current)
  then show ?case by (simp add: filter_id_conv)
next
  case (prune_once current e final)
  note m = prune_match [OF prune_once.prems, where d = e]
  note IH = prune_once.IH [OF some_match_prune [OF prune_once.prems]]
  have sub: "set (final d) \<subseteq> set (prune combos scope e current d)"
    using prunes_to_subset [OF prune_once.hyps(2)] .
  have "filter (\<lambda>v. v \<in> set (final d)) (prune combos scope e current d) = filter (\<lambda>v. v \<in> set (final d)) (current d)"
    using sub by (cases "d = e") (auto simp: prune_def intro!: filter_cong)
  then show ?case using IH m by metis
qed

lemma stable_no_match:
  assumes "next_drop combos scope final = None" "\<not> some_match combos scope final"
  shows "final d = []"
proof (rule ccontr)
  assume "final d \<noteq> []"
  then have "hd (final d) \<in> set (final d)" by simp
  moreover have "hd (final d) \<in> valid_options combos scope final d"
    using calculation assms(1) by (auto simp: next_drop_None dirty_def)
  ultimately show False using assms(2) by (auto simp: valid_selected some_match_def)
qed

section \<open>Properties\<close>

text \<open>The result of the cascade is consistent: a value is offered for a dimension iff some occurring
combination within the scope has it and passes the returned selection of every other dimension, every
value still selected is offered, nothing is selected that the caller had not selected, and the count is
the number of combinations that match the returned selection.\<close>

theorem cascade_consistent:
  "let r = computeCascade combos sel scope in
    (\<forall>d v. v \<in> options r d \<longleftrightarrow> (\<exists>c \<in> set combos. c d = Some v \<and> (\<forall>e. lets_through (scope e) (c e)) \<and>
        (\<forall>e. e \<noteq> d \<longrightarrow> lets_through (selection r e) (c e)))) \<and>
    (\<forall>d. set (selection r d) \<subseteq> options r d) \<and>
    (\<forall>d. set (selection r d) \<subseteq> set (sel d)) \<and>
    matchingCombos r = length (filter (\<lambda>c. (\<forall>e. lets_through (scope e) (c e)) \<and>
        (\<forall>e. lets_through (selection r e) (c e))) combos)"
proof -
  obtain final where f: "prunes_to combos scope sel final" "next_drop combos scope final = None"
    "computeCascade combos sel scope = \<lparr>options = valid_options combos scope final, selection = final,
       matchingCombos = length (filter (matches scope final) combos)\<rparr>"
    by (rule computeCascade_result)
  have m: "matches scope final = (\<lambda>c. (\<forall>e. lets_through (scope e) (c e)) \<and> (\<forall>e. lets_through (final e) (c e)))"
    by (intro ext) (simp add: matches_def in_scope_def)
  show ?thesis
    using f(2) prunes_to_subset [OF f(1)] unfolding f(3) m
    by (simp add: valid_options_def valid_for_def in_scope_def next_drop_None dirty_def)
qed

definition pair_combo :: "string \<Rightarrow> string \<Rightarrow> combo" where
  "pair_combo a b = (\<lambda>d. if d = companyKeys then Some a else if d = segmentKeys then Some b else None)"

theorem cascade_consistent_witness:
  "let r = computeCascade [pair_combo ''1'' ''2'', pair_combo ''3'' ''4'']
       (emptySelection(companyKeys := [''1''], segmentKeys := [''4''])) emptySelection in
    set (selection r segmentKeys) \<subseteq> options r segmentKeys"
  using cascade_consistent [of "[pair_combo ''1'' ''2'', pair_combo ''3'' ''4'']"
      "emptySelection(companyKeys := [''1''], segmentKeys := [''4''])" emptySelection]
  by (simp add: Let_def)

text \<open>C36. The cascade never leaves the reports without data by its own doing: it returns a selection that
matches no combination only when no combination lies in the scope at all, and when the requested
selection already matches something, exactly the same combinations match afterwards, each dimension
keeps (in order) those of its values that occur in a matching combination, and no dimension becomes
unrestricted.\<close>

theorem cascade_keeps_matches:
  "(matchingCombos (computeCascade combos sel scope) = 0 \<longrightarrow>
     (\<forall>c \<in> set combos. \<not> (\<forall>e. lets_through (scope e) (c e)))) \<and>
   ((\<exists>c \<in> set combos. matches scope sel c) \<longrightarrow>
     (\<forall>c \<in> set combos. matches scope (selection (computeCascade combos sel scope)) c = matches scope sel c) \<and>
     (\<forall>d. selection (computeCascade combos sel scope) d =
        filter (\<lambda>v. \<exists>c \<in> set combos. c d = Some v \<and> matches scope sel c) (sel d)) \<and>
     (\<forall>d. selection (computeCascade combos sel scope) d = [] \<longleftrightarrow> sel d = []))"
proof -
  obtain final where f: "prunes_to combos scope sel final" "next_drop combos scope final = None"
    "computeCascade combos sel scope = \<lparr>options = valid_options combos scope final, selection = final,
       matchingCombos = length (filter (matches scope final) combos)\<rparr>"
    by (rule computeCascade_result)
  have none: "\<forall>c \<in> set combos. \<not> (\<forall>e. lets_through (scope e) (c e))" if "filter (matches scope final) combos = []"
  proof -
    have "\<not> some_match combos scope final" using that by (auto simp: some_match_def filter_empty_conv)
    then have "final d = []" for d using stable_no_match [OF f(2)] by blast
    then show ?thesis using that by (auto simp: filter_empty_conv matches_def in_scope_def lets_through_def)
  qed
  have keep: "(\<forall>c \<in> set combos. matches scope final c = matches scope sel c) \<and>
      (\<forall>d. final d = filter (\<lambda>v. \<exists>c \<in> set combos. c d = Some v \<and> matches scope sel c) (sel d)) \<and>
      (\<forall>d. final d = [] \<longleftrightarrow> sel d = [])" if "\<exists>c \<in> set combos. matches scope sel c"
  proof -
    have s: "some_match combos scope sel" using that by (simp add: some_match_def)
    note m = prunes_to_matching [OF f(1) s]
    have mem: "v \<in> set (final d) \<longleftrightarrow> (\<exists>c \<in> set combos. c d = Some v \<and> matches scope sel c)" if v: "v \<in> set (sel d)" for d v
    proof
      assume "v \<in> set (final d)"
      then show "\<exists>c \<in> set combos. c d = Some v \<and> matches scope sel c"
        using f(2) m valid_selected [of v final d combos scope] by (auto simp: next_drop_None dirty_def)
    next
      assume "\<exists>c \<in> set combos. c d = Some v \<and> matches scope sel c"
      then obtain c where c: "c \<in> set combos" "c d = Some v" "matches scope final c" using m by blast
      have "final d \<noteq> []" using m [of d] v by auto
      then show "v \<in> set (final d)" using c by (auto simp: matches_def lets_through_def dest!: spec [of _ d])
    qed
    have "filter (\<lambda>v. v \<in> set (final d)) (sel d) =
        filter (\<lambda>v. \<exists>c \<in> set combos. c d = Some v \<and> matches scope sel c) (sel d)" for d
      by (rule filter_cong [OF refl]) (rule mem)
    then show ?thesis using m by metis
  qed
  have r: "matchingCombos (computeCascade combos sel scope) = length (filter (matches scope final) combos)"
    "selection (computeCascade combos sel scope) = final" unfolding f(3) by simp_all
  show ?thesis
    unfolding r length_0_conv using none keep by (intro conjI impI) blast+
qed

theorem cascade_keeps_matches_witness:
  "selection (computeCascade [pair_combo ''1'' ''2'', pair_combo ''3'' ''4'']
       (emptySelection(companyKeys := [''1'', ''3''], segmentKeys := [''2''])) emptySelection) companyKeys = [''1'']"
proof -
  let ?cs = "[pair_combo ''1'' ''2'', pair_combo ''3'' ''4'']"
  let ?s = "emptySelection(companyKeys := [''1'', ''3''], segmentKeys := [''2''])"
  have m: "matches emptySelection ?s (pair_combo ''1'' ''2'')" "\<not> matches emptySelection ?s (pair_combo ''3'' ''4'')"
    by (auto simp: matches_def in_scope_def lets_through_def emptySelection_def pair_combo_def)
  have v: "pair_combo a b companyKeys = Some a" for a b by (simp add: pair_combo_def)
  have "selection (computeCascade ?cs ?s emptySelection) companyKeys =
      filter (\<lambda>v. \<exists>c \<in> set ?cs. c companyKeys = Some v \<and> matches emptySelection ?s c) (?s companyKeys)"
    using cascade_keeps_matches [of ?cs ?s emptySelection] m(1) by auto
  then show ?thesis using m by (simp add: v)
qed

text \<open>C37. The bound on the passes is never the reason the loop stops: allowing any number of further passes
gives the same result, and running the cascade on its own selection changes nothing.\<close>

theorem cascade_passes_suffice:
  "cascade_loop (MAX_PASSES + k) combos scope sel emptyOptions 0 = computeCascade combos sel scope \<and>
   computeCascade combos (selection (computeCascade combos sel scope)) scope = computeCascade combos sel scope"
proof
  have more: "cascade_loop (n + k) combos scope current opts m = cascade_loop n combos scope current opts m"
    if "card (droppable combos scope current) < n" for n current opts m
    using that
  proof (induction n arbitrary: current opts m)
    case (Suc n)
    show ?case
    proof (cases "next_drop combos scope current")
      case (Some d)
      have "card (droppable combos scope (prune combos scope d current)) < n"
        using droppable_prune [OF Some] Suc.prems by simp
      then show ?thesis using Suc.IH Some by (simp add: cascade_loop_Suc)
    qed (simp add: cascade_loop_Suc)
  qed simp
  show "cascade_loop (MAX_PASSES + k) combos scope sel emptyOptions 0 = computeCascade combos sel scope"
    unfolding computeCascade_def by (rule more [OF passes_enough])
  obtain final where f: "next_drop combos scope final = None"
    "computeCascade combos sel scope = \<lparr>options = valid_options combos scope final, selection = final,
       matchingCombos = length (filter (matches scope final) combos)\<rparr>"
    by (rule computeCascade_result)
  have "MAX_PASSES = Suc (1 + length DIMENSIONS)" by (simp add: MAX_PASSES_def)
  note e = this
  have "computeCascade combos final scope = \<lparr>options = valid_options combos scope final, selection = final,
       matchingCombos = length (filter (matches scope final) combos)\<rparr>"
    unfolding computeCascade_def e by (simp add: cascade_loop_Suc f(1) del: add_Suc_right)
  then show "computeCascade combos (selection (computeCascade combos sel scope)) scope = computeCascade combos sel scope"
    unfolding f(2) by simp
qed

end
