(* ===== verification/Identity_Db.thy ===== *)
theory Identity_Db
  imports Data_Scope
begin

text \<open>
  The identity tables of the warehouse as the services see them: \<open>app_user\<close>, \<open>roles\<close>, \<open>user_roles\<close>,
  \<open>user_role\<close> (the data-scope tier record), \<open>pages\<close>, \<open>permissions\<close>, \<open>role_permissions\<close>,
  \<open>user_permissions\<close>, \<open>role_data_scope\<close>, the login history, the revoked tokens and the audit log, and
  the queries several services share. An auto-increment column gives a number above all present ones.
  Text columns are compared by the collation of the database, a parameter \<open>collate\<close> that maps a text
  to its sort key; times are seconds since the epoch, the precision of a \<open>TIMESTAMP\<close> column.
\<close>

section \<open>Actions\<close>

datatype perm_action = AView | ACreate | AEdit | ADelete | AExport

definition PERMISSION_ACTIONS :: "perm_action list" where
  "PERMISSION_ACTIONS = [AView, ACreate, AEdit, ADelete, AExport]"

definition action_name :: "perm_action \<Rightarrow> string" where
  "action_name a = (case a of AView \<Rightarrow> ''view'' | ACreate \<Rightarrow> ''create'' | AEdit \<Rightarrow> ''edit''
     | ADelete \<Rightarrow> ''delete'' | AExport \<Rightarrow> ''export'')"

definition action_of :: "string \<Rightarrow> perm_action option" where
  "action_of s = List.find (\<lambda>a. action_name a = s) PERMISSION_ACTIONS"

lemma PERMISSION_ACTIONS_all [simp]: "a \<in> set PERMISSION_ACTIONS" "distinct PERMISSION_ACTIONS"
  by (cases a) (simp_all add: PERMISSION_ACTIONS_def)

lemma action_of_name [simp]: "action_of (action_name a) = Some a"
  by (cases a) (simp_all add: action_of_def action_name_def PERMISSION_ACTIONS_def)

lemma action_name_inject [simp]: "action_name a = action_name b \<longleftrightarrow> a = b"
  by (metis action_of_name option.inject)

lemma action_of_Some: "action_of s = Some a \<Longrightarrow> action_name a = s"
  by (auto simp: action_of_def dest: find_SomeD)

text \<open>Actions sort by their names, as an array of strings does.\<close>

definition action_rank :: "perm_action \<Rightarrow> nat" where
  "action_rank a = (case a of ACreate \<Rightarrow> 0 | ADelete \<Rightarrow> 1 | AEdit \<Rightarrow> 2 | AExport \<Rightarrow> 3 | AView \<Rightarrow> 4)"

lemma action_rank_inject: "action_rank a = action_rank b \<longleftrightarrow> a = b"
  by (cases a; cases b) (simp_all add: action_rank_def)

instantiation perm_action :: linorder
begin

definition less_eq_perm_action :: "perm_action \<Rightarrow> perm_action \<Rightarrow> bool" where
  "less_eq_perm_action a b = (action_rank a \<le> action_rank b)"

definition less_perm_action :: "perm_action \<Rightarrow> perm_action \<Rightarrow> bool" where
  "less_perm_action a b = (action_rank a < action_rank b)"

instance
  by standard (auto simp: less_eq_perm_action_def less_perm_action_def action_rank_inject)

end

section \<open>Rows\<close>

datatype user_status = ACTIVE | INACTIVE | LOCKED | PENDING_PASSWORD_CHANGE

record app_user =
  au_id :: int
  au_email :: string
  au_name :: string
  au_company_scope :: string
  au_salesperson_key :: "int option"
  au_password_hash :: string
  au_status :: user_status
  au_must_change :: bool
  au_last_login :: "int option"
  au_failed :: int
  au_password_changed :: "int option"
  au_reset_hash :: "string option"
  au_reset_expires :: "int option"
  au_sessions_revoked :: "int option"
  au_role :: "int option"

record role_row =
  r_id :: int
  r_name :: string
  r_label :: string
  r_description :: "string option"
  r_system :: bool
  r_tier :: "string option"
  r_created_by :: "int option"

record page_row =
  pg_id :: int
  pg_key :: string
  pg_label :: string
  pg_nav_group :: string
  pg_sort_order :: int

record permission_row =
  p_id :: int
  p_page :: int
  p_action :: perm_action

record role_permission =
  rp_role :: int
  rp_permission :: int
  rp_allowed :: bool

record user_permission =
  up_user :: int
  up_permission :: int
  up_allowed :: bool

datatype login_event =
    LOGIN_SUCCESS | LOGIN_FAILED_PASSWORD | LOGIN_FAILED_LOCKED | LOGIN_FAILED_INACTIVE | LOGOUT
  | PASSWORD_RESET_REQUESTED | PASSWORD_RESET_COMPLETED | PASSWORD_CHANGED | FORCE_PASSWORD_CHANGE_SET
  | ACCOUNT_LOCKED_AUTO | ACCOUNT_STATUS_CHANGED | SESSIONS_REVOKED

record history_row =
  h_user :: "int option"
  h_email :: string
  h_event :: login_event

datatype audit_action = AUDIT_CREATE | AUDIT_UPDATE | AUDIT_DELETE

record audit_row =
  a_entity_type :: string
  a_entity_id :: int
  a_action :: audit_action
  a_changed_by :: "int option"

record identity_db =
  db_users :: "app_user list"
  db_roles :: "role_row list"
  db_user_roles :: "(int \<times> int) list"
  db_tiers :: "string list"
  db_user_tier :: "(int \<times> string) list"
  db_pages :: "page_row list"
  db_permissions :: "permission_row list"
  db_role_permissions :: "role_permission list"
  db_user_permissions :: "user_permission list"
  db_scope :: "scope_table_row list"
  db_history :: "history_row list"
  db_salesperson_history :: "(int \<times> int option \<times> int option \<times> int option) list"
  db_revoked :: "string list"
  db_audit :: "audit_row list"

section \<open>Shared queries\<close>

definition next_id :: "int list \<Rightarrow> int" where
  "next_id ids = fold max ids 0 + 1"

lemma next_id_fresh [simp]: "next_id ids \<notin> set ids"
  using fold_max_mem [of "next_id ids" ids 0] by (auto simp: next_id_def)

lemma next_id_pos [simp]: "next_id ids \<ge> 1"
  using fold_max_ge [of 0 ids] by (simp add: next_id_def)

definition find_role :: "identity_db \<Rightarrow> int \<Rightarrow> role_row option" where
  "find_role db role = List.find (\<lambda>r. r_id r = role) (db_roles db)"

definition find_user :: "identity_db \<Rightarrow> int \<Rightarrow> app_user option" where
  "find_user db uid = List.find (\<lambda>u. au_id u = uid) (db_users db)"

definition ADMIN_ROLE_NAME :: string where
  "ADMIN_ROLE_NAME = ''ADMIN''"

text \<open>The join of a list of permission numbers with \<open>permissions\<close> and \<open>pages\<close>.\<close>

definition permission_pages :: "identity_db \<Rightarrow> int \<Rightarrow> (string \<times> perm_action) list" where
  "permission_pages db pid =
     concat (map (\<lambda>p. map (\<lambda>pg. (pg_key pg, p_action p)) (filter (\<lambda>pg. pg_id pg = p_page p) (db_pages db)))
       (filter (\<lambda>p. p_id p = pid) (db_permissions db)))"

definition writeAuditLog ::
  "identity_db \<Rightarrow> string \<Rightarrow> int \<Rightarrow> audit_action \<Rightarrow> int option \<Rightarrow> identity_db" where
  "writeAuditLog db entity i act by =
     db\<lparr>db_audit := db_audit db @ [\<lparr>a_entity_type = entity, a_entity_id = i, a_action = act, a_changed_by = by\<rparr>]\<rparr>"

definition recordLoginHistory :: "identity_db \<Rightarrow> int option \<Rightarrow> string \<Rightarrow> login_event \<Rightarrow> identity_db" where
  "recordLoginHistory db uid mail ev =
     db\<lparr>db_history := db_history db @ [\<lparr>h_user = uid, h_email = mail, h_event = ev\<rparr>]\<rparr>"

end
