(* ===== verification/Permissions.thy ===== *)
theory Permissions
  imports Identity_Db
begin

text \<open>
  The permission system: the registry of pages and actions
  (\<open>backend/src/config/permissionRegistry.ts\<close>), the evaluation of a user's effective permissions and its
  storage (\<open>backend/src/services/permissionService.ts\<close>), and the route gates
  (\<open>backend/src/middleware/permission.ts\<close>).
\<close>

section \<open>The registry\<close>

datatype registry_group = GDashboard | GDataEntry | GAdmin

record registry_entry =
  re_key :: string
  re_label :: string
  re_group :: registry_group
  re_actions :: "perm_action list"

definition DASHBOARD :: "perm_action list" where
  "DASHBOARD = [AView, AExport]"

definition CRUD :: "perm_action list" where
  "CRUD = [AView, ACreate, AEdit, ADelete]"

definition entry :: "string \<Rightarrow> string \<Rightarrow> registry_group \<Rightarrow> perm_action list \<Rightarrow> registry_entry" where
  "entry k l g as = \<lparr>re_key = k, re_label = l, re_group = g, re_actions = as\<rparr>"

definition PERMISSION_REGISTRY :: "registry_entry list" where
  "PERMISSION_REGISTRY = [
     entry ''tachometer'' ''Tachometer'' GDashboard DASHBOARD,
     entry ''critical_number'' ''Critical Number'' GDashboard DASHBOARD,
     entry ''revenue_trend'' ''Revenue Trend'' GDashboard DASHBOARD,
     entry ''invoices_engine'' ''Invoices Engine'' GDashboard DASHBOARD,
     entry ''customer_growth'' ''Customer Growth'' GDashboard DASHBOARD,
     entry ''pipeline_health'' ''Pipeline Health'' GDashboard DASHBOARD,
     entry ''pipeline_trend'' ''Pipeline Trend'' GDashboard DASHBOARD,
     entry ''activity_momentum'' ''Activity Momentum'' GDashboard DASHBOARD,
     entry ''marcom_spending'' ''MARCOM Spending'' GDashboard DASHBOARD,
     entry ''marcom_media_campaigns'' ''Media Campaign Performance'' GDashboard DASHBOARD,
     entry ''marcom_digital'' ''Digital Performance'' GDashboard DASHBOARD,
     entry ''marcom_trade'' ''Trade Marketing & Retail'' GDashboard DASHBOARD,
     entry ''bcg_matrix'' ''BCG Matrix'' GDashboard DASHBOARD,
     entry ''stock_velocity'' ''Stock Velocity'' GDashboard DASHBOARD,
     entry ''pim_contribution'' ''PIM Contribution'' GDashboard DASHBOARD,
     entry ''product_lifecycle'' ''Product Lifecycle'' GDashboard DASHBOARD,
     entry ''kaizen_board'' ''Kaizen Board'' GDashboard DASHBOARD,
     entry ''kaizen_cards'' ''Kaizen Cards'' GDataEntry [AView, ACreate, AEdit, ADelete, AExport],
     entry ''nps_score'' ''NPS Score'' GDashboard DASHBOARD,
     entry ''nps_comments'' ''NPS Score detractor list and comments'' GDashboard DASHBOARD,
     entry ''nps_followup'' ''Detractor Follow-up'' GDataEntry [AView, AEdit, AExport],
     entry ''nps_followup_reasons'' ''Detractor Follow-up reasons'' GDataEntry CRUD,
     entry ''quality_assurance'' ''Quality Assurance (coming soon)'' GDashboard DASHBOARD,
     entry ''customer_pulse'' ''Customer Pulse (coming soon)'' GDashboard DASHBOARD,
     entry ''product_development_plan'' ''Product Development Plan (coming soon)'' GDashboard DASHBOARD,
     entry ''debt_report'' ''Receivables and Collections'' GDashboard DASHBOARD,
     entry ''admin_users'' ''Users'' GAdmin [AView, ACreate, AEdit],
     entry ''admin_roles'' ''Roles & Permissions'' GAdmin CRUD,
     entry ''admin_salespersons'' ''Salespersons'' GAdmin [AView, AEdit],
     entry ''admin_salesteams'' ''Sales Teams'' GAdmin [AView, AEdit],
     entry ''admin_customer_groups'' ''Customer Groups'' GAdmin CRUD,
     entry ''admin_distribution_channels'' ''Distribution Channels'' GAdmin CRUD,
     entry ''admin_companies'' ''Companies'' GAdmin CRUD,
     entry ''admin_holidays'' ''Official Holidays'' GAdmin CRUD,
     entry ''admin_closures'' ''Forced Closures'' GAdmin CRUD,
     entry ''admin_marcom_upload'' ''MARCOM Data Upload'' GAdmin [AView, ACreate, ADelete, AExport],
     entry ''admin_login_history'' ''Login History'' GAdmin [AView],
     entry ''admin_etl'' ''ETL Runs'' GAdmin [AView]
    ]"

definition getRegistryEntry :: "string \<Rightarrow> registry_entry option" where
  "getRegistryEntry k = List.find (\<lambda>e. re_key e = k) PERMISSION_REGISTRY"

definition isRegisteredAction :: "string \<Rightarrow> string \<Rightarrow> bool" where
  "isRegisteredAction k a =
     (case getRegistryEntry k of None \<Rightarrow> False | Some e \<Rightarrow> list_ex (\<lambda>b. action_name b = a) (re_actions e))"

definition dashboardPageKeys :: "string list" where
  "dashboardPageKeys = map re_key (filter (\<lambda>e. re_group e = GDashboard) PERMISSION_REGISTRY)"

definition navGroupOf :: "registry_group \<Rightarrow> string" where
  "navGroupOf g = (case g of GDataEntry \<Rightarrow> ''Data Entry'' | GDashboard \<Rightarrow> ''Sales'' | GAdmin \<Rightarrow> ''Administration'')"

definition normalizePageActions :: "string \<Rightarrow> string list \<Rightarrow> perm_action list" where
  "normalizePageActions k actions =
     (case getRegistryEntry k of
        None \<Rightarrow> []
      | Some e \<Rightarrow>
          (let kept = filter (\<lambda>a. action_name a \<in> set actions) (re_actions e);
               kept' = (if kept \<noteq> [] \<and> AView \<notin> set kept then AView # kept else kept)
           in filter (\<lambda>a. a \<in> set kept') PERMISSION_ACTIONS))"

section \<open>Evaluation\<close>

record page_permission =
  canView :: bool
  canCreate :: bool
  canEdit :: bool
  canDelete :: bool
  canExport :: bool

type_synonym effective_permissions = "(string \<times> page_permission) list"

definition emptyPagePermission :: page_permission where
  "emptyPagePermission = \<lparr>canView = False, canCreate = False, canEdit = False, canDelete = False, canExport = False\<rparr>"

definition FLAG :: "perm_action \<Rightarrow> page_permission \<Rightarrow> bool" where
  "FLAG a = (case a of AView \<Rightarrow> canView | ACreate \<Rightarrow> canCreate | AEdit \<Rightarrow> canEdit
     | ADelete \<Rightarrow> canDelete | AExport \<Rightarrow> canExport)"

definition set_FLAG :: "perm_action \<Rightarrow> bool \<Rightarrow> page_permission \<Rightarrow> page_permission" where
  "set_FLAG a b p = (case a of AView \<Rightarrow> p\<lparr>canView := b\<rparr> | ACreate \<Rightarrow> p\<lparr>canCreate := b\<rparr>
     | AEdit \<Rightarrow> p\<lparr>canEdit := b\<rparr> | ADelete \<Rightarrow> p\<lparr>canDelete := b\<rparr> | AExport \<Rightarrow> p\<lparr>canExport := b\<rparr>)"

definition allows :: "effective_permissions \<Rightarrow> string \<Rightarrow> perm_action \<Rightarrow> bool" where
  "allows perms k a = (case map_of perms k of None \<Rightarrow> False | Some p \<Rightarrow> FLAG a p)"

record grant_row =
  g_page :: string
  g_action :: perm_action
  g_allowed :: "bool option"

text \<open>The key of a page and an action: both, separated by a NUL.\<close>

definition grant_key :: "string \<Rightarrow> perm_action \<Rightarrow> string" where
  "grant_key k a = k @ CHR 0x00 # action_name a"

definition role_allowed :: "grant_row list \<Rightarrow> string list" where
  "role_allowed grants = map (\<lambda>g. grant_key (g_page g) (g_action g)) (filter (\<lambda>g. g_allowed g = Some True) grants)"

definition override_map :: "grant_row list \<Rightarrow> (string \<times> bool) list" where
  "override_map overrides =
     fold (\<lambda>o' m. case g_allowed o' of None \<Rightarrow> m | Some b \<Rightarrow> AList.update (grant_key (g_page o') (g_action o')) b m)
       overrides []"

definition action_allowed :: "bool \<Rightarrow> grant_row list \<Rightarrow> grant_row list \<Rightarrow> string \<Rightarrow> perm_action \<Rightarrow> bool" where
  "action_allowed isAdmin grants overrides k a =
     (isAdmin \<or> (case map_of (override_map overrides) (grant_key k a) of
        Some b \<Rightarrow> b | None \<Rightarrow> grant_key k a \<in> set (role_allowed grants)))"

definition page_permissions :: "bool \<Rightarrow> grant_row list \<Rightarrow> grant_row list \<Rightarrow> registry_entry \<Rightarrow> page_permission" where
  "page_permissions isAdmin grants overrides e =
     (let page = fold (\<lambda>a. set_FLAG a (action_allowed isAdmin grants overrides (re_key e) a)) (re_actions e)
        emptyPagePermission
      in if canView page then page
         else page\<lparr>canCreate := False, canEdit := False, canDelete := False, canExport := False\<rparr>)"

definition computeEffectivePermissions ::
  "bool \<Rightarrow> grant_row list \<Rightarrow> grant_row list \<Rightarrow> effective_permissions" where
  "computeEffectivePermissions isAdmin grants overrides =
     map (\<lambda>e. (re_key e, page_permissions isAdmin grants overrides e)) PERMISSION_REGISTRY"

section \<open>Loading\<close>

definition getUserRoles :: "(string \<Rightarrow> string) \<Rightarrow> identity_db \<Rightarrow> int \<Rightarrow> int option \<Rightarrow> role_row list" where
  "getUserRoles collate db uid fallback =
     (let own = sort_key (\<lambda>r. collate (r_label r))
            (concat (map (\<lambda>ur. filter (\<lambda>r. r_id r = snd ur) (db_roles db))
              (filter (\<lambda>ur. fst ur = uid) (db_user_roles db))))
      in if own \<noteq> [] then own
         else case fallback of None \<Rightarrow> own | Some f \<Rightarrow> filter (\<lambda>r. r_id r = f) (db_roles db))"

definition role_grants :: "identity_db \<Rightarrow> int list \<Rightarrow> grant_row list" where
  "role_grants db ids =
     concat (map (\<lambda>rp. map (\<lambda>(k, a). \<lparr>g_page = k, g_action = a, g_allowed = Some (rp_allowed rp)\<rparr>)
         (permission_pages db (rp_permission rp)))
       (filter (\<lambda>rp. rp_role rp \<in> set ids) (db_role_permissions db)))"

definition user_overrides :: "identity_db \<Rightarrow> int \<Rightarrow> grant_row list" where
  "user_overrides db uid =
     concat (map (\<lambda>up. map (\<lambda>(k, a). \<lparr>g_page = k, g_action = a, g_allowed = Some (up_allowed up)\<rparr>)
         (permission_pages db (up_permission up)))
       (filter (\<lambda>up. up_user up = uid) (db_user_permissions db)))"

definition is_admin_role :: "role_row \<Rightarrow> bool" where
  "is_admin_role r = (r_name r = ADMIN_ROLE_NAME)"

definition getEffectivePermissions ::
  "(string \<Rightarrow> string) \<Rightarrow> identity_db \<Rightarrow> int \<Rightarrow> int option \<Rightarrow> effective_permissions" where
  "getEffectivePermissions collate db uid role =
     (let roles = getUserRoles collate db uid role in
      if list_ex is_admin_role roles then computeEffectivePermissions True [] []
      else computeEffectivePermissions False
        (if roles \<noteq> [] then role_grants db (map r_id roles) else []) (user_overrides db uid))"

definition hasPermission ::
  "(string \<Rightarrow> string) \<Rightarrow> identity_db \<Rightarrow> int \<Rightarrow> int option \<Rightarrow> string \<Rightarrow> perm_action \<Rightarrow> bool" where
  "hasPermission collate db uid role k a = allows (getEffectivePermissions collate db uid role) k a"

definition canViewAnyDashboard :: "effective_permissions \<Rightarrow> bool" where
  "canViewAnyDashboard perms = list_ex (\<lambda>k. allows perms k AView) dashboardPageKeys"

section \<open>Storing\<close>

text \<open>
  \<open>syncPermissionRegistry\<close>: skipped while the column type of \<open>permissions.action\<close> lacks an action;
  otherwise every registry page is inserted or refreshed, every missing action is inserted, and the
  Admin role gets a row for every permission it has none for.
\<close>

definition missing_actions :: "string \<Rightarrow> perm_action list" where
  "missing_actions columnType =
     filter (\<lambda>a. \<not> contains_sub (CHR 0x27 # action_name a @ [CHR 0x27]) columnType) PERMISSION_ACTIONS"

definition upsert_page :: "int \<Rightarrow> registry_entry \<Rightarrow> identity_db \<Rightarrow> identity_db" where
  "upsert_page index e db =
     (if list_ex (\<lambda>pg. pg_key pg = re_key e) (db_pages db)
      then db\<lparr>db_pages := update_where (\<lambda>pg. pg_key pg = re_key e)
             (\<lambda>pg. pg\<lparr>pg_label := re_label e, pg_nav_group := navGroupOf (re_group e), pg_sort_order := index + 1\<rparr>)
             (db_pages db)\<rparr>
      else db\<lparr>db_pages := db_pages db @ [\<lparr>pg_id = next_id (map pg_id (db_pages db)), pg_key = re_key e,
             pg_label = re_label e, pg_nav_group = navGroupOf (re_group e), pg_sort_order = index + 1\<rparr>]\<rparr>)"

definition insert_permission :: "perm_action \<Rightarrow> int \<Rightarrow> permission_row list \<Rightarrow> permission_row list" where
  "insert_permission a page rows =
     (if list_ex (\<lambda>p. p_page p = page \<and> p_action p = a) rows then rows
      else rows @ [\<lparr>p_id = next_id (map p_id rows), p_page = page, p_action = a\<rparr>])"

definition insert_page_action :: "string \<Rightarrow> perm_action \<Rightarrow> identity_db \<Rightarrow> identity_db" where
  "insert_page_action k a db =
     db\<lparr>db_permissions := fold (\<lambda>pg. insert_permission a (pg_id pg))
        (filter (\<lambda>pg. pg_key pg = k) (db_pages db)) (db_permissions db)\<rparr>"

definition sync_entry :: "int \<times> registry_entry \<Rightarrow> identity_db \<Rightarrow> identity_db" where
  "sync_entry ie db =
     fold (insert_page_action (re_key (snd ie))) (re_actions (snd ie)) (upsert_page (fst ie) (snd ie) db)"

definition insert_role_permission :: "int \<Rightarrow> int \<Rightarrow> bool \<Rightarrow> role_permission list \<Rightarrow> role_permission list" where
  "insert_role_permission role pid b rows =
     (if list_ex (\<lambda>rp. rp_role rp = role \<and> rp_permission rp = pid) rows then rows
      else rows @ [\<lparr>rp_role = role, rp_permission = pid, rp_allowed = b\<rparr>])"

definition grant_admin :: "(string \<Rightarrow> string) \<Rightarrow> identity_db \<Rightarrow> identity_db" where
  "grant_admin collate db =
     db\<lparr>db_role_permissions :=
        fold (\<lambda>r rows. fold (\<lambda>p. insert_role_permission (r_id r) (p_id p) True) (db_permissions db) rows)
          (filter (\<lambda>r. collate (r_name r) = collate ADMIN_ROLE_NAME) (db_roles db)) (db_role_permissions db)\<rparr>"

definition syncPermissionRegistry :: "(string \<Rightarrow> string) \<Rightarrow> string \<Rightarrow> identity_db \<Rightarrow> identity_db" where
  "syncPermissionRegistry collate columnType db =
     (if missing_actions columnType \<noteq> [] then db
      else grant_admin collate
        (fold sync_entry (zip (map int [0..<length PERMISSION_REGISTRY]) PERMISSION_REGISTRY) db))"

text \<open>\<open>getPermissionId\<close> returns nothing where it throws a validation error.\<close>

definition getPermissionId :: "identity_db \<Rightarrow> string \<Rightarrow> string \<Rightarrow> int option" where
  "getPermissionId db k a =
     (if \<not> isRegisteredAction k a then None
      else case first_row (concat (map (\<lambda>p. map (\<lambda>pg. p_id p)
               (filter (\<lambda>pg. pg_id pg = p_page p \<and> pg_key pg = k) (db_pages db)))
             (filter (\<lambda>p. action_name (p_action p) = a) (db_permissions db)))) of
        None \<Rightarrow> None | Some i \<Rightarrow> if i = 0 then None else Some i)"

definition set_override_rows :: "int \<Rightarrow> int \<Rightarrow> bool option \<Rightarrow> user_permission list \<Rightarrow> user_permission list" where
  "set_override_rows uid pid allowed rows =
     (let own = (\<lambda>up. up_user up = uid \<and> up_permission up = pid) in
      case allowed of
        None \<Rightarrow> delete_where own rows
      | Some b \<Rightarrow>
          (if list_ex own rows then update_where own (\<lambda>up. up\<lparr>up_allowed := b\<rparr>) rows
           else rows @ [\<lparr>up_user = uid, up_permission = pid, up_allowed = b\<rparr>]))"

definition setUserPermissionOverride ::
  "identity_db \<Rightarrow> int \<Rightarrow> string \<Rightarrow> perm_action \<Rightarrow> bool option \<Rightarrow> identity_db option" where
  "setUserPermissionOverride db uid k a allowed =
     (case getPermissionId db k (action_name a) of
        None \<Rightarrow> None
      | Some pid \<Rightarrow> Some (db\<lparr>db_user_permissions := set_override_rows uid pid allowed (db_user_permissions db)\<rparr>))"

definition getUserPermissionOverrides :: "identity_db \<Rightarrow> int \<Rightarrow> ((string \<times> perm_action) \<times> bool) list" where
  "getUserPermissionOverrides db uid =
     fold (\<lambda>g. AList.update (g_page g, g_action g) (g_allowed g = Some True)) (user_overrides db uid) []"

section \<open>The route gates\<close>

record request_user =
  q_id :: int
  q_roleId :: "int option"
  q_isAdmin :: bool
  q_mustChangePassword :: bool

definition PASSWORD_CHANGE_ALLOWLIST :: "string list" where
  "PASSWORD_CHANGE_ALLOWLIST = [''/auth/me'', ''/auth/change-password'', ''/auth/logout'']"

definition requirePasswordChangeCleared :: "request_user option \<Rightarrow> string \<Rightarrow> unit outcome" where
  "requirePasswordChangeCleared user path =
     (case user of
        None \<Rightarrow> Reply 401 ''Unauthenticated''
      | Some u \<Rightarrow>
          if q_mustChangePassword u \<and> path \<notin> set PASSWORD_CHANGE_ALLOWLIST
          then Reply 403 ''PASSWORD_CHANGE_REQUIRED'' else Next ())"

definition requireAdminRole :: "request_user option \<Rightarrow> unit outcome" where
  "requireAdminRole user =
     (case user of
        None \<Rightarrow> Reply 401 ''Unauthenticated''
      | Some u \<Rightarrow> if \<not> q_isAdmin u then Reply 403 ''Admin access required.'' else Next ())"

text \<open>\<open>load\<close> is the loading of the request's permissions, \<open>None\<close> when it fails.\<close>

definition requirePermission ::
  "string \<Rightarrow> perm_action \<Rightarrow> request_user option \<Rightarrow> (request_user \<Rightarrow> effective_permissions option) \<Rightarrow> unit outcome" where
  "requirePermission k a user load =
     (case user of
        None \<Rightarrow> Reply 401 ''Unauthenticated''
      | Some u \<Rightarrow>
          (case load u of
             None \<Rightarrow> NextError
           | Some perms \<Rightarrow> if \<not> allows perms k a then Reply 403 ''FORBIDDEN'' else Next ()))"

definition requireAnyDashboardView ::
  "request_user option \<Rightarrow> (request_user \<Rightarrow> effective_permissions option) \<Rightarrow> unit outcome" where
  "requireAnyDashboardView user load =
     (case user of
        None \<Rightarrow> Reply 401 ''Unauthenticated''
      | Some u \<Rightarrow>
          (case load u of
             None \<Rightarrow> NextError
           | Some perms \<Rightarrow> if \<not> canViewAnyDashboard perms then Reply 403 ''FORBIDDEN'' else Next ()))"

definition getRequestPermissions ::
  "(string \<Rightarrow> string) \<Rightarrow> identity_db \<Rightarrow> request_user \<Rightarrow> effective_permissions option" where
  "getRequestPermissions collate db u = Some (getEffectivePermissions collate db (q_id u) (q_roleId u))"

section \<open>Facts about the registry\<close>

lemma registry_keys_distinct: "distinct (map re_key PERMISSION_REGISTRY)"
  by code_simp

lemma registry_well_formed:
  "list_all (\<lambda>e. AView \<in> set (re_actions e) \<and> distinct (re_actions e)) PERMISSION_REGISTRY"
  by code_simp

lemma registry_entry_view: "e \<in> set PERMISSION_REGISTRY \<Longrightarrow> AView \<in> set (re_actions e)"
  and registry_entry_distinct: "e \<in> set PERMISSION_REGISTRY \<Longrightarrow> distinct (re_actions e)"
  using registry_well_formed by (auto simp: list_all_iff)

lemma getRegistryEntry_iff:
  "getRegistryEntry k = Some e \<longleftrightarrow> e \<in> set PERMISSION_REGISTRY \<and> re_key e = k"
proof
  assume "e \<in> set PERMISSION_REGISTRY \<and> re_key e = k"
  moreover from this obtain f where f: "getRegistryEntry k = Some f"
    using find_exists [of e PERMISSION_REGISTRY "\<lambda>e. re_key e = k"] by (auto simp: getRegistryEntry_def)
  moreover from f have "f \<in> set PERMISSION_REGISTRY" "re_key f = k"
    by (auto simp: getRegistryEntry_def dest!: find_SomeD)
  ultimately show "getRegistryEntry k = Some e"
    using registry_keys_distinct by (auto simp: distinct_map inj_on_def)
qed (auto simp: getRegistryEntry_def dest!: find_SomeD)

lemma isRegisteredAction_entry:
  "isRegisteredAction k s \<longleftrightarrow> (\<exists>e a. getRegistryEntry k = Some e \<and> a \<in> set (re_actions e) \<and> action_name a = s)"
  by (auto simp: isRegisteredAction_def list_ex_iff split: option.split)

lemma isRegisteredAction_iff:
  "isRegisteredAction k s \<longleftrightarrow> (\<exists>e \<in> set PERMISSION_REGISTRY. re_key e = k \<and> (\<exists>a \<in> set (re_actions e). action_name a = s))"
  unfolding isRegisteredAction_entry getRegistryEntry_iff by blast

lemma FLAG_set_FLAG [simp]: "FLAG a (set_FLAG b v p) = (if a = b then v else FLAG a p)"
  by (cases a; cases b) (simp_all add: FLAG_def set_FLAG_def)

lemma FLAG_fold:
  "FLAG a (fold (\<lambda>b. set_FLAG b (v b)) as p) = (if a \<in> set as then v a else FLAG a p)"
  by (induction as arbitrary: p) auto

lemma FLAG_empty [simp]: "\<not> FLAG a emptyPagePermission"
  by (cases a) (simp_all add: FLAG_def emptyPagePermission_def)

lemma FLAG_page_permissions:
  "FLAG a (page_permissions isAdmin grants overrides e) \<longleftrightarrow>
     a \<in> set (re_actions e) \<and> AView \<in> set (re_actions e) \<and>
     action_allowed isAdmin grants overrides (re_key e) a \<and>
     action_allowed isAdmin grants overrides (re_key e) AView"
proof -
  let ?p = "fold (\<lambda>a. set_FLAG a (action_allowed isAdmin grants overrides (re_key e) a)) (re_actions e) emptyPagePermission"
  have v: "canView ?p = FLAG AView ?p" by (simp add: FLAG_def)
  have "FLAG a (?p\<lparr>canCreate := False, canEdit := False, canDelete := False, canExport := False\<rparr>) =
      (a = AView \<and> canView ?p)"
    by (cases a) (simp_all add: FLAG_def)
  then show ?thesis
    unfolding page_permissions_def Let_def using v FLAG_fold [of a _ "re_actions e" emptyPagePermission]
      FLAG_fold [of AView _ "re_actions e" emptyPagePermission]
    by auto
qed

lemma allows_compute:
  "allows (computeEffectivePermissions isAdmin grants overrides) k a \<longleftrightarrow>
     isRegisteredAction k (action_name a) \<and>
     action_allowed isAdmin grants overrides k a \<and> action_allowed isAdmin grants overrides k AView"
proof -
  let ?f = "page_permissions isAdmin grants overrides"
  have m: "map_of (map (\<lambda>e. (re_key e, ?f e)) es) k = map_option ?f (List.find (\<lambda>e. re_key e = k) es)" for es
    by (induction es) auto
  show ?thesis
  proof (cases "getRegistryEntry k")
    case None
    then show ?thesis
      unfolding allows_def computeEffectivePermissions_def m getRegistryEntry_def [symmetric] isRegisteredAction_entry
      by simp
  next
    case (Some e)
    then have e: "re_key e = k" "AView \<in> set (re_actions e)"
      using registry_entry_view by (auto simp: getRegistryEntry_iff)
    show ?thesis
      unfolding allows_def computeEffectivePermissions_def m getRegistryEntry_def [symmetric] isRegisteredAction_entry Some
      using e by (simp add: FLAG_page_permissions)
  qed
qed

section \<open>Facts about grants and overrides\<close>

lemma action_name_no_NUL: "CHR 0x00 \<notin> set (action_name a)"
  by (cases a) (simp_all add: action_name_def)

lemma grant_key_inject [simp]: "grant_key k a = grant_key k' a' \<longleftrightarrow> k = k' \<and> a = a'"
proof
  assume e: "grant_key k a = grant_key k' a'"
  have split: "takeWhile (\<lambda>c. c \<noteq> CHR 0x00) (rev (grant_key k a)) = rev (action_name a)" for k a
    using action_name_no_NUL [of a] by (simp add: grant_key_def takeWhile_append takeWhile_eq_all_conv)
  have "a = a'" using split [of k a] split [of k' a'] e by simp
  then show "k = k' \<and> a = a'" using e by (simp add: grant_key_def)
qed simp

text \<open>The last non-null override row of a page and action decides.\<close>

definition last_override :: "grant_row list \<Rightarrow> string \<Rightarrow> perm_action \<Rightarrow> bool option" where
  "last_override overrides k a =
     (let own = filter (\<lambda>g. g_page g = k \<and> g_action g = a \<and> g_allowed g \<noteq> None) overrides
      in if own = [] then None else g_allowed (last own))"

lemma override_map_last: "map_of (override_map overrides) (grant_key k a) = last_override overrides k a"
  unfolding override_map_def
  by (induction overrides rule: rev_induct)
    (auto simp: last_override_def update_conv Let_def split: option.splits)

text \<open>Whether a page and action are granted before View is considered.\<close>

definition decided :: "grant_row list \<Rightarrow> grant_row list \<Rightarrow> string \<Rightarrow> perm_action \<Rightarrow> bool" where
  "decided grants overrides k a =
     (case last_override overrides k a of
        Some b \<Rightarrow> b
      | None \<Rightarrow> list_ex (\<lambda>g. g_page g = k \<and> g_action g = a \<and> g_allowed g = Some True) grants)"

lemma action_allowed_decided: "action_allowed isAdmin grants overrides k a \<longleftrightarrow> isAdmin \<or> decided grants overrides k a"
  by (auto simp: action_allowed_def override_map_last decided_def role_allowed_def list_ex_iff split: option.splits)

text \<open>Identifiers of the permission tables are unique.\<close>

definition wf_permissions :: "identity_db \<Rightarrow> bool" where
  "wf_permissions db \<longleftrightarrow> distinct (map pg_id (db_pages db)) \<and> distinct (map pg_key (db_pages db)) \<and>
     distinct (map p_id (db_permissions db)) \<and>
     distinct (map (\<lambda>p. (p_page p, p_action p)) (db_permissions db))"

lemma permission_pages_iff:
  "(k, a) \<in> set (permission_pages db pid) \<longleftrightarrow>
     (\<exists>p \<in> set (db_permissions db). \<exists>pg \<in> set (db_pages db). p_id p = pid \<and> pg_id pg = p_page p \<and> pg_key pg = k \<and> p_action p = a)"
  by (auto simp: permission_pages_def)

lemma permission_pages_unique:
  assumes "wf_permissions db" "(k, a) \<in> set (permission_pages db p1)" "(k, a) \<in> set (permission_pages db p2)"
  shows "p1 = p2"
proof -
  obtain p pg where p: "p \<in> set (db_permissions db)" "pg \<in> set (db_pages db)" "p_id p = p1" "pg_id pg = p_page p"
      "pg_key pg = k" "p_action p = a" using assms(2) by (auto simp: permission_pages_iff)
  obtain q qg where q: "q \<in> set (db_permissions db)" "qg \<in> set (db_pages db)" "p_id q = p2" "pg_id qg = p_page q"
      "pg_key qg = k" "p_action q = a" using assms(3) by (auto simp: permission_pages_iff)
  have "pg = qg" using assms(1) p q by (auto simp: wf_permissions_def distinct_map dest: inj_onD)
  then have "(p_page p, p_action p) = (p_page q, p_action q)" using p q by simp
  then have "p = q" using assms(1) p q by (auto simp: wf_permissions_def distinct_map dest: inj_onD)
  then show ?thesis using p q by simp
qed

lemma filter_key_single: "distinct (map f xs) \<Longrightarrow> x \<in> set xs \<Longrightarrow> filter (\<lambda>y. f y = f x) xs = [x]"
proof (induction xs)
  case (Cons y xs)
  show ?case
  proof (cases "x = y")
    case True
    then have "filter (\<lambda>z. f z = f x) xs = []" using Cons.prems by (auto simp: filter_empty_conv image_iff)
    then show ?thesis using True by simp
  next
    case False
    then show ?thesis using Cons by auto
  qed
qed simp

lemma permission_pages_single:
  assumes "wf_permissions db" "(k, a) \<in> set (permission_pages db pid)"
  shows "permission_pages db pid = [(k, a)]"
proof -
  obtain p pg where p: "p \<in> set (db_permissions db)" "pg \<in> set (db_pages db)" "p_id p = pid" "pg_id pg = p_page p"
      "pg_key pg = k" "p_action p = a" using assms(2) by (auto simp: permission_pages_iff)
  have "filter (\<lambda>q. p_id q = p_id p) (db_permissions db) = [p]" "filter (\<lambda>q. pg_id q = pg_id pg) (db_pages db) = [pg]"
    using assms(1) p filter_key_single [of p_id "db_permissions db" p] filter_key_single [of pg_id "db_pages db" pg]
    by (simp_all add: wf_permissions_def)
  then show ?thesis using p by (simp add: permission_pages_def)
qed

lemma getPermissionId_pages:
  assumes "getPermissionId db k (action_name a) = Some pid"
  shows "(k, a) \<in> set (permission_pages db pid)"
proof -
  let ?L = "concat (map (\<lambda>p. map (\<lambda>pg. p_id p)
      (filter (\<lambda>pg. pg_id pg = p_page p \<and> pg_key pg = k) (db_pages db)))
      (filter (\<lambda>p. p_action p = a) (db_permissions db)))"
  have "first_row ?L = Some pid"
    using assms by (auto simp: getPermissionId_def split: if_splits option.splits)
  then have "pid \<in> set ?L" by (rule first_row_Some)
  then show ?thesis by (auto simp: permission_pages_iff)
qed

lemma user_overrides_filter:
  assumes "wf_permissions db" "(k, a) \<in> set (permission_pages db pid)"
  shows "filter (\<lambda>g. g_page g = k \<and> g_action g = a \<and> g_allowed g \<noteq> None) (user_overrides db uid) =
    map (\<lambda>up. \<lparr>g_page = k, g_action = a, g_allowed = Some (up_allowed up)\<rparr>)
      (filter (\<lambda>up. up_user up = uid \<and> up_permission up = pid) (db_user_permissions db))"
proof -
  have one: "filter (\<lambda>g. g_page g = k \<and> g_action g = a \<and> g_allowed g \<noteq> None)
        (map (\<lambda>(k, a). \<lparr>g_page = k, g_action = a, g_allowed = Some b\<rparr>) (permission_pages db q)) =
      (if q = pid then [\<lparr>g_page = k, g_action = a, g_allowed = Some b\<rparr>] else [])" for q b
  proof (cases "q = pid")
    case True
    then show ?thesis using permission_pages_single [OF assms] by simp
  next
    case False
    then have "(k, a) \<notin> set (permission_pages db q)" using permission_pages_unique [OF assms] by blast
    then show ?thesis using False by (auto simp: filter_empty_conv)
  qed
  have "filter (\<lambda>g. g_page g = k \<and> g_action g = a \<and> g_allowed g \<noteq> None)
      (concat (map (\<lambda>up. map (\<lambda>(k, a). \<lparr>g_page = k, g_action = a, g_allowed = Some (up_allowed up)\<rparr>)
         (permission_pages db (up_permission up))) (filter (\<lambda>up. up_user up = uid) ups))) =
    map (\<lambda>up. \<lparr>g_page = k, g_action = a, g_allowed = Some (up_allowed up)\<rparr>)
      (filter (\<lambda>up. up_user up = uid \<and> up_permission up = pid) ups)" for ups
    by (induction ups) (simp_all add: one del: not_None_eq)
  then show ?thesis by (simp add: user_overrides_def)
qed

lemma last_override_rows:
  assumes "wf_permissions db" "(k, a) \<in> set (permission_pages db pid)"
  shows "last_override (user_overrides db uid) k a =
    (let own = filter (\<lambda>up. up_user up = uid \<and> up_permission up = pid) (db_user_permissions db)
     in if own = [] then None else Some (up_allowed (last own)))"
  unfolding last_override_def user_overrides_filter [OF assms] by (simp add: Let_def last_map)

lemma last_override_unknown:
  assumes "\<And>pid. (k, a) \<notin> set (permission_pages db pid)"
  shows "last_override (user_overrides db uid) k a = None"
  using assms by (auto simp: last_override_def user_overrides_def filter_empty_conv Let_def)

lemma filter_update_where:
  "(\<And>r. own (f r) = own r) \<Longrightarrow> filter own (update_where own f rows) = map f (filter own rows)"
  by (induction rows) (auto simp: update_where_def)

lemma set_override_rows_same:
  "(let own = filter (\<lambda>up. up_user up = uid \<and> up_permission up = pid) (set_override_rows uid pid allowed rows)
    in if own = [] then None else Some (up_allowed (last own))) = allowed"
proof (cases allowed)
  case None
  then show ?thesis by (simp add: set_override_rows_def delete_where_def)
next
  case (Some b)
  let ?own = "\<lambda>up. up_user up = uid \<and> up_permission up = pid"
  have f: "filter ?own (update_where ?own (\<lambda>up. up\<lparr>up_allowed := b\<rparr>) rows) =
      map (\<lambda>up. up\<lparr>up_allowed := b\<rparr>) (filter ?own rows)" by (rule filter_update_where) simp
  have ne: "list_ex ?own rows \<longleftrightarrow> filter ?own rows \<noteq> []" by (auto simp: list_ex_iff filter_empty_conv)
  show ?thesis
    unfolding set_override_rows_def Let_def Some option.case ne
    by (cases "filter ?own rows = []") (simp_all add: f last_map)
qed

lemma set_override_rows_other:
  assumes "(v, q) \<noteq> (uid, pid)"
  shows "filter (\<lambda>up. up_user up = v \<and> up_permission up = q) (set_override_rows uid pid allowed rows) =
    filter (\<lambda>up. up_user up = v \<and> up_permission up = q) rows"
proof -
  let ?own = "\<lambda>up. up_user up = uid \<and> up_permission up = pid" and ?sel = "\<lambda>up. up_user up = v \<and> up_permission up = q"
  have "filter ?sel (delete_where ?own rows) = filter ?sel rows"
    using assms by (auto simp: delete_where_def intro!: filter_cong)
  moreover have "filter ?sel (update_where ?own (\<lambda>up. up\<lparr>up_allowed := b\<rparr>) rows) = filter ?sel rows" for b
    using assms by (induction rows) (auto simp: update_where_def)
  ultimately show ?thesis using assms by (auto simp: set_override_rows_def Let_def split: option.split)
qed

section \<open>Properties\<close>

text \<open>Evaluation of permissions: an action on a page is allowed iff the registry lists it for that page
and the user is an Admin, or both the action and View are granted, where the user's own (last, non-null)
override decides if there is one and otherwise any granting role row does.\<close>

theorem effective_permissions_exact:
  "allows (computeEffectivePermissions isAdmin grants overrides) k a \<longleftrightarrow>
     (\<exists>e \<in> set PERMISSION_REGISTRY. re_key e = k \<and> a \<in> set (re_actions e)) \<and>
     (isAdmin \<or> decided grants overrides k a \<and> decided grants overrides k AView)"
  unfolding allows_compute action_allowed_decided isRegisteredAction_iff by auto

text \<open>C14. The permission gate of a route lets a request through iff there is a signed-in user and the action is
registered for the page and, unless one of the user's roles is the Admin role, both the action and View
are granted by the user's own override or, without one, by a role the user holds; the stored rows read
are those of the current database.\<close>

theorem route_permission_exact:
  "requirePermission k a user (getRequestPermissions collate db) = Next () \<longleftrightarrow>
     (\<exists>u. user = Some u \<and>
        (\<exists>e \<in> set PERMISSION_REGISTRY. re_key e = k \<and> a \<in> set (re_actions e)) \<and>
        (let roles = getUserRoles collate db (q_id u) (q_roleId u) in
         (\<exists>r \<in> set roles. r_name r = ''ADMIN'') \<or>
         (\<forall>b \<in> {a, AView}. case last_override (user_overrides db (q_id u)) k b of
            Some granted \<Rightarrow> granted
          | None \<Rightarrow> \<exists>rp \<in> set (db_role_permissions db). rp_role rp \<in> r_id ` set roles \<and> rp_allowed rp \<and>
              (k, b) \<in> set (permission_pages db (rp_permission rp)))))"
proof -
  have g: "list_ex (\<lambda>g. g_page g = k \<and> g_action g = b \<and> g_allowed g = Some True)
        (role_grants db (map r_id rs)) \<longleftrightarrow>
      (\<exists>rp \<in> set (db_role_permissions db). rp_role rp \<in> r_id ` set rs \<and> rp_allowed rp \<and>
        (k, b) \<in> set (permission_pages db (rp_permission rp)))" for b rs
    by (force simp: list_ex_iff role_grants_def)
  have admin: "list_ex is_admin_role rs \<longleftrightarrow> (\<exists>r \<in> set rs. r_name r = ''ADMIN'')" for rs
    by (auto simp: list_ex_iff is_admin_role_def ADMIN_ROLE_NAME_def)
  have empty: "(if rs \<noteq> [] then role_grants db (map r_id rs) else []) = role_grants db (map r_id rs)" for rs
    by (simp add: role_grants_def)
  have perms: "allows (getEffectivePermissions collate db uid role) k a \<longleftrightarrow>
      (\<exists>e \<in> set PERMISSION_REGISTRY. re_key e = k \<and> a \<in> set (re_actions e)) \<and>
      (let roles = getUserRoles collate db uid role in
         (\<exists>r \<in> set roles. r_name r = ''ADMIN'') \<or>
         (\<forall>b \<in> {a, AView}. case last_override (user_overrides db uid) k b of
            Some granted \<Rightarrow> granted
          | None \<Rightarrow> \<exists>rp \<in> set (db_role_permissions db). rp_role rp \<in> r_id ` set roles \<and> rp_allowed rp \<and>
              (k, b) \<in> set (permission_pages db (rp_permission rp))))" for uid role
    unfolding getEffectivePermissions_def Let_def admin empty
    by (simp add: allows_compute isRegisteredAction_iff action_allowed_decided decided_def g conj_commute
        cong: option.case_cong)
  show ?thesis
    by (auto simp: requirePermission_def getRequestPermissions_def perms split: option.split)
qed

text \<open>Setting or clearing a user's override of a registered page and action changes exactly the override
of that user on that page and action: afterwards it reads back as what was set (or as absent), and every
other override of every user reads as before.\<close>

theorem override_effect:
  assumes "wf_permissions db" and "setUserPermissionOverride db uid k a allowed = Some db'"
  shows "wf_permissions db' \<and>
    last_override (user_overrides db' v) j b =
      (if (v, j, b) = (uid, k, a) then allowed else last_override (user_overrides db v) j b)"
proof -
  obtain pid where pid: "getPermissionId db k (action_name a) = Some pid"
    using assms(2) by (auto simp: setUserPermissionOverride_def split: option.splits)
  note ka = getPermissionId_pages [OF pid]
  have same: "db_pages db' = db_pages db" "db_permissions db' = db_permissions db"
    and ups: "db_user_permissions db' = set_override_rows uid pid allowed (db_user_permissions db)"
    using assms(2) pid by (auto simp: setUserPermissionOverride_def)
  have wf: "wf_permissions db'" using assms(1) by (simp add: wf_permissions_def same)
  have pp: "permission_pages db' = permission_pages db" by (intro ext) (simp add: permission_pages_def same)
  show ?thesis
  proof (cases "\<exists>q. (j, b) \<in> set (permission_pages db q)")
    case False
    then show ?thesis using wf ka last_override_unknown [of j b db'] last_override_unknown [of j b db]
      by (auto simp: pp)
  next
    case True
    then obtain q where q: "(j, b) \<in> set (permission_pages db q)" by blast
    have "q = pid" if "(j, b) = (k, a)" using permission_pages_unique [OF assms(1) q] ka that by simp
    moreover have "(j, b) = (k, a)" if "q = pid"
      using permission_pages_single [OF assms(1) q] permission_pages_single [OF assms(1) ka] that by simp
    ultimately have key: "(v, j, b) = (uid, k, a) \<longleftrightarrow> v = uid \<and> q = pid" by blast
    note L = last_override_rows [OF wf, unfolded pp, OF q, of v] last_override_rows [OF assms(1) q, of v]
    show ?thesis
    proof (cases "(v, q) = (uid, pid)")
      case True
      then have "last_override (user_overrides db' v) j b = allowed"
        unfolding L(1) ups by (simp only: prod.inject set_override_rows_same)
      then show ?thesis using wf key True by simp
    next
      case False
      then have "last_override (user_overrides db' v) j b = last_override (user_overrides db v) j b"
        unfolding L ups set_override_rows_other [OF False] by simp
      then show ?thesis using wf key False by auto
    qed
  qed
qed

text \<open>An example: one page with two permissions, a role that grants them, and one user.\<close>

definition example_identity :: identity_db where
  "example_identity = \<lparr>db_users = [], db_roles = [\<lparr>r_id = 2, r_name = ''C_OPS'', r_label = ''Ops'',
       r_description = None, r_system = False, r_tier = None, r_created_by = None\<rparr>],
     db_user_roles = [(7, 2)], db_tiers = [], db_user_tier = [],
     db_pages = [\<lparr>pg_id = 1, pg_key = ''kaizen_cards'', pg_label = ''Kaizen Cards'', pg_nav_group = ''Data Entry'', pg_sort_order = 18\<rparr>],
     db_permissions = [\<lparr>p_id = 1, p_page = 1, p_action = AView\<rparr>, \<lparr>p_id = 2, p_page = 1, p_action = AEdit\<rparr>],
     db_role_permissions = [\<lparr>rp_role = 2, rp_permission = 1, rp_allowed = True\<rparr>],
     db_user_permissions = [], db_scope = [], db_history = [], db_salesperson_history = [], db_revoked = [], db_audit = []\<rparr>"

lemma example_identity_wf: "wf_permissions example_identity"
  by code_simp

theorem route_permission_exact_witness:
  "requirePermission ''kaizen_cards'' AView (Some \<lparr>q_id = 7, q_roleId = Some 2, q_isAdmin = False, q_mustChangePassword = False\<rparr>) (getRequestPermissions id example_identity) = Next ()"
proof -
  have r: "getUserRoles id example_identity 7 (Some 2) = db_roles example_identity" by code_simp
  have o': "user_overrides example_identity 7 = []" by code_simp
  have e: "list_ex (\<lambda>e. re_key e = ''kaizen_cards'' \<and> AView \<in> set (re_actions e)) PERMISSION_REGISTRY" by code_simp
  have p: "(''kaizen_cards'', AView) \<in> set (permission_pages example_identity 1)" by code_simp
  have rp: "\<lparr>rp_role = 2, rp_permission = 1, rp_allowed = True\<rparr> \<in> set (db_role_permissions example_identity)"
    "2 \<in> r_id ` set (db_roles example_identity)" by (simp_all add: example_identity_def)
  have granted: "\<exists>rp \<in> set (db_role_permissions example_identity). rp_role rp \<in> r_id ` set (db_roles example_identity) \<and>
      rp_allowed rp \<and> (''kaizen_cards'', AView) \<in> set (permission_pages example_identity (rp_permission rp))"
    by (rule bexI [OF _ rp(1)]) (simp add: p rp(2))
  have last_override_none: "last_override [] k b = None" for k b by (simp add: last_override_def)
  show ?thesis
    unfolding route_permission_exact Let_def
    using e granted by (simp add: r o' list_ex_iff last_override_none)
qed

theorem override_effect_witness:
  "\<exists>db'. setUserPermissionOverride example_identity 7 ''kaizen_cards'' AEdit (Some True) = Some db' \<and>
     last_override (user_overrides db' 7) ''kaizen_cards'' AEdit = Some True"
proof -
  have "setUserPermissionOverride example_identity 7 ''kaizen_cards'' AEdit (Some True) \<noteq> None" by code_simp
  then obtain db' where r: "setUserPermissionOverride example_identity 7 ''kaizen_cards'' AEdit (Some True) = Some db'"
    by blast
  show ?thesis using override_effect [OF example_identity_wf r, of 7 "''kaizen_cards''" AEdit] r by simp
qed

lemma normalizePageActions_mem:
  "a \<in> set (normalizePageActions k as) \<longleftrightarrow>
     (\<exists>e \<in> set PERMISSION_REGISTRY. re_key e = k \<and>
        (a \<in> set (re_actions e) \<and> action_name a \<in> set as \<or>
         a = AView \<and> (\<exists>b \<in> set (re_actions e). action_name b \<in> set as)))"
proof (cases "getRegistryEntry k")
  case None
  then have "\<not> (\<exists>e \<in> set PERMISSION_REGISTRY. re_key e = k)" by (metis getRegistryEntry_iff option.distinct(1))
  then show ?thesis using None by (simp add: normalizePageActions_def)
next
  case (Some e)
  then have e: "e \<in> set PERMISSION_REGISTRY" "re_key e = k" by (auto simp: getRegistryEntry_iff)
  have uniq: "f = e" if "f \<in> set PERMISSION_REGISTRY" "re_key f = k" for f
    using Some that by (metis getRegistryEntry_iff option.inject)
  have view: "AView \<in> set (re_actions e)" using e registry_entry_view by blast
  have "a \<in> set (normalizePageActions k as) \<longleftrightarrow> a \<in> set (re_actions e) \<and> action_name a \<in> set as \<or>
      a = AView \<and> (\<exists>b \<in> set (re_actions e). action_name b \<in> set as)"
    using view by (auto simp: normalizePageActions_def Some Let_def filter_empty_conv)
  moreover have "(\<exists>f \<in> set PERMISSION_REGISTRY. re_key f = k \<and> Q f) \<longleftrightarrow> Q e" for Q
    using e uniq by blast
  ultimately show ?thesis by simp
qed

lemma normalizePageActions_canonical:
  "normalizePageActions k as = filter (\<lambda>a. a \<in> set (normalizePageActions k as)) PERMISSION_ACTIONS"
  by (cases "getRegistryEntry k") (simp_all add: normalizePageActions_def Let_def cong: filter_cong)

lemma normalizePageActions_cong:
  "set (normalizePageActions k as) = set (normalizePageActions k bs) \<Longrightarrow> normalizePageActions k as = normalizePageActions k bs"
  by (subst (1 2) normalizePageActions_canonical) simp

lemma normalizePageActions_idem [simp]:
  "normalizePageActions k (map action_name (normalizePageActions k as)) = normalizePageActions k as"
proof (rule normalizePageActions_cong, rule set_eqI)
  fix a
  have n: "action_name b \<in> set (map action_name (normalizePageActions k as)) \<longleftrightarrow> b \<in> set (normalizePageActions k as)" for b
    by (auto simp: image_iff)
  show "a \<in> set (normalizePageActions k (map action_name (normalizePageActions k as))) \<longleftrightarrow>
      a \<in> set (normalizePageActions k as)"
    unfolding normalizePageActions_mem [of a k "map action_name (normalizePageActions k as)"] n
    unfolding normalizePageActions_mem using registry_entry_view by blast
qed

lemma normalizePageActions_view: "normalizePageActions k as \<noteq> [] \<Longrightarrow> AView \<in> set (normalizePageActions k as)"
proof -
  assume "normalizePageActions k as \<noteq> []"
  then obtain a where "a \<in> set (normalizePageActions k as)" by (meson hd_in_set)
  then show ?thesis unfolding normalizePageActions_mem by blast
qed

text \<open>Normalisation of a requested action set: the result is in the canonical order without repetition,
contains only actions of the page, exactly the requested ones and View when there is any, and
normalising again changes nothing; an unknown page gets no action.\<close>

theorem normalize_actions_exact:
  "(a \<in> set (normalizePageActions k actions) \<longleftrightarrow>
      (\<exists>e \<in> set PERMISSION_REGISTRY. re_key e = k \<and>
        (a \<in> set (re_actions e) \<and> action_name a \<in> set actions \<or>
         a = AView \<and> (\<exists>b \<in> set (re_actions e). action_name b \<in> set actions)))) \<and>
   distinct (normalizePageActions k actions) \<and>
   normalizePageActions k (map action_name (normalizePageActions k actions)) = normalizePageActions k actions"
proof -
  have "distinct (normalizePageActions k actions)" by (subst normalizePageActions_canonical) simp
  then show ?thesis by (simp add: normalizePageActions_mem)
qed

section \<open>Synchronisation with the registry\<close>

text \<open>What a synchronised database holds for an entry, and that the steps establish and keep it.\<close>

definition page_synced :: "int \<times> registry_entry \<Rightarrow> page_row \<Rightarrow> bool" where
  "page_synced ie pg \<longleftrightarrow> pg_key pg = re_key (snd ie) \<and> pg_label pg = re_label (snd ie) \<and>
     pg_nav_group pg = navGroupOf (re_group (snd ie)) \<and> pg_sort_order pg = fst ie + 1"

definition entry_synced :: "identity_db \<Rightarrow> int \<times> registry_entry \<Rightarrow> bool" where
  "entry_synced db ie \<longleftrightarrow> (\<exists>pg \<in> set (db_pages db). page_synced ie pg \<and>
     (\<forall>a \<in> set (re_actions (snd ie)). \<exists>p \<in> set (db_permissions db). p_page p = pg_id pg \<and> p_action p = a))"

definition same_ids :: "identity_db \<Rightarrow> identity_db \<Rightarrow> bool" where
  "same_ids db db' \<longleftrightarrow> (\<lambda>pg. (pg_id pg, pg_key pg)) ` set (db_pages db) \<subseteq> (\<lambda>pg. (pg_id pg, pg_key pg)) ` set (db_pages db') \<and>
     set (db_permissions db) \<subseteq> set (db_permissions db')"

lemma same_ids_trans: "same_ids db db' \<Longrightarrow> same_ids db' db'' \<Longrightarrow> same_ids db db''"
  unfolding same_ids_def by (meson subset_trans)

lemma insert_permission_set:
  "set rows \<subseteq> set (insert_permission a page rows)"
  "\<exists>p \<in> set (insert_permission a page rows). p_page p = page \<and> p_action p = a"
  by (auto simp: insert_permission_def list_ex_iff)

lemma insert_permission_distinct:
  "distinct (map p_id rows) \<and> distinct (map (\<lambda>p. (p_page p, p_action p)) rows) \<Longrightarrow>
   distinct (map p_id (insert_permission a page rows)) \<and>
   distinct (map (\<lambda>p. (p_page p, p_action p)) (insert_permission a page rows))"
  using next_id_fresh [of "map p_id rows"] by (auto simp: insert_permission_def list_ex_iff)

lemma fold_insert_permission:
  "set rows \<subseteq> set (fold (\<lambda>pg. insert_permission a (pg_id pg)) pgs rows)"
  "pg \<in> set pgs \<Longrightarrow> \<exists>p \<in> set (fold (\<lambda>pg. insert_permission a (pg_id pg)) pgs rows). p_page p = pg_id pg \<and> p_action p = a"
  "distinct (map p_id rows) \<and> distinct (map (\<lambda>p. (p_page p, p_action p)) rows) \<Longrightarrow>
     distinct (map p_id (fold (\<lambda>pg. insert_permission a (pg_id pg)) pgs rows)) \<and>
     distinct (map (\<lambda>p. (p_page p, p_action p)) (fold (\<lambda>pg. insert_permission a (pg_id pg)) pgs rows))"
proof -
  show sub: "set rows \<subseteq> set (fold (\<lambda>pg. insert_permission a (pg_id pg)) pgs rows)" for rows pgs
  proof (induction pgs arbitrary: rows)
    case (Cons x pgs)
    then show ?case using insert_permission_set(1) by fastforce
  qed simp
  show "pg \<in> set pgs \<Longrightarrow> \<exists>p \<in> set (fold (\<lambda>pg. insert_permission a (pg_id pg)) pgs rows). p_page p = pg_id pg \<and> p_action p = a"
  proof (induction pgs arbitrary: rows)
    case (Cons x pgs)
    then show ?case
    proof (cases "pg = x")
      case True
      obtain p where "p \<in> set (insert_permission a (pg_id x) rows)" "p_page p = pg_id x" "p_action p = a"
        using insert_permission_set(2) by blast
      then show ?thesis using sub [of "insert_permission a (pg_id x) rows" pgs] True by auto
    qed simp
  qed simp
  show "distinct (map p_id rows) \<and> distinct (map (\<lambda>p. (p_page p, p_action p)) rows) \<Longrightarrow>
     distinct (map p_id (fold (\<lambda>pg. insert_permission a (pg_id pg)) pgs rows)) \<and>
     distinct (map (\<lambda>p. (p_page p, p_action p)) (fold (\<lambda>pg. insert_permission a (pg_id pg)) pgs rows))"
    by (induction pgs arbitrary: rows) (use insert_permission_distinct in \<open>simp, fastforce\<close>)
qed

lemma insert_page_action_facts:
  assumes "wf_permissions db"
  shows "wf_permissions (insert_page_action k a db)" "db_pages (insert_page_action k a db) = db_pages db"
    "set (db_permissions db) \<subseteq> set (db_permissions (insert_page_action k a db))"
    "pg \<in> set (db_pages db) \<Longrightarrow> pg_key pg = k \<Longrightarrow>
      \<exists>p \<in> set (db_permissions (insert_page_action k a db)). p_page p = pg_id pg \<and> p_action p = a"
proof -
  let ?pgs = "filter (\<lambda>pg. pg_key pg = k) (db_pages db)"
  note f = fold_insert_permission [where a = a and pgs = ?pgs and rows = "db_permissions db"]
  show "wf_permissions (insert_page_action k a db)" "db_pages (insert_page_action k a db) = db_pages db"
    "set (db_permissions db) \<subseteq> set (db_permissions (insert_page_action k a db))"
    using assms f(1,3) by (simp_all add: insert_page_action_def wf_permissions_def)
  show "pg \<in> set (db_pages db) \<Longrightarrow> pg_key pg = k \<Longrightarrow>
      \<exists>p \<in> set (db_permissions (insert_page_action k a db)). p_page p = pg_id pg \<and> p_action p = a"
    using f(2) [of pg] by (simp add: insert_page_action_def)
qed

lemma fold_insert_page_action:
  assumes "wf_permissions db"
  shows "wf_permissions (fold (insert_page_action k) as db) \<and> db_pages (fold (insert_page_action k) as db) = db_pages db \<and>
    set (db_permissions db) \<subseteq> set (db_permissions (fold (insert_page_action k) as db)) \<and>
    (\<forall>pg \<in> set (db_pages db). pg_key pg = k \<longrightarrow> (\<forall>a \<in> set as.
      \<exists>p \<in> set (db_permissions (fold (insert_page_action k) as db)). p_page p = pg_id pg \<and> p_action p = a))"
  using assms
proof (induction as arbitrary: db)
  case (Cons a as)
  note f = insert_page_action_facts [OF Cons.prems, where k = k and a = a]
  note IH = Cons.IH [OF f(1)]
  have "\<exists>p \<in> set (db_permissions (fold (insert_page_action k) as (insert_page_action k a db))).
      p_page p = pg_id pg \<and> p_action p = b"
    if "pg \<in> set (db_pages db)" "pg_key pg = k" "b \<in> set (a # as)" for pg b
    using IH f(2) f(4) [OF that(1,2)] that by (cases "b = a") auto
  then show ?case using IH f by auto
qed simp

lemma upsert_page_facts:
  assumes "wf_permissions db"
  shows "wf_permissions (upsert_page i e db)" "db_permissions (upsert_page i e db) = db_permissions db"
    "\<exists>pg \<in> set (db_pages (upsert_page i e db)). page_synced (i, e) pg"
    "(\<lambda>pg. (pg_id pg, pg_key pg)) ` set (db_pages db) \<subseteq> (\<lambda>pg. (pg_id pg, pg_key pg)) ` set (db_pages (upsert_page i e db))"
    "pg \<in> set (db_pages db) \<Longrightarrow> pg_key pg \<noteq> re_key e \<Longrightarrow> pg \<in> set (db_pages (upsert_page i e db))"
proof -
  let ?f = "\<lambda>pg. pg\<lparr>pg_label := re_label e, pg_nav_group := navGroupOf (re_group e), pg_sort_order := i + 1\<rparr>"
  let ?P = "\<lambda>pg. pg_key pg = re_key e"
  have m: "map pg_id (update_where ?P ?f rows) = map pg_id rows" "map pg_key (update_where ?P ?f rows) = map pg_key rows"
    "map (\<lambda>pg. (pg_id pg, pg_key pg)) (update_where ?P ?f rows) = map (\<lambda>pg. (pg_id pg, pg_key pg)) rows" for rows
    by (simp_all add: map_update_where_key)
  show "wf_permissions (upsert_page i e db)"
    using assms next_id_fresh [of "map pg_id (db_pages db)"]
    by (auto simp: upsert_page_def wf_permissions_def m list_ex_iff)
  show "db_permissions (upsert_page i e db) = db_permissions db" by (simp add: upsert_page_def)
  show "\<exists>pg \<in> set (db_pages (upsert_page i e db)). page_synced (i, e) pg"
  proof (cases "list_ex ?P (db_pages db)")
    case True
    then obtain pg where "pg \<in> set (db_pages db)" "pg_key pg = re_key e" by (auto simp: list_ex_iff)
    then have "?f pg \<in> set (db_pages (upsert_page i e db))" "page_synced (i, e) (?f pg)"
      using True by (simp_all add: upsert_page_def set_update_where page_synced_def)
    then show ?thesis by blast
  qed (simp add: upsert_page_def page_synced_def)
  show "(\<lambda>pg. (pg_id pg, pg_key pg)) ` set (db_pages db) \<subseteq> (\<lambda>pg. (pg_id pg, pg_key pg)) ` set (db_pages (upsert_page i e db))"
    using arg_cong [OF m(3) [of "db_pages db"], of set] by (auto simp: upsert_page_def)
  show "pg \<in> set (db_pages db) \<Longrightarrow> pg_key pg \<noteq> re_key e \<Longrightarrow> pg \<in> set (db_pages (upsert_page i e db))"
    by (auto simp: upsert_page_def set_update_where)
qed

lemma sync_entry_facts:
  assumes "wf_permissions db"
  shows "wf_permissions (sync_entry ie db)" "same_ids db (sync_entry ie db)" "entry_synced (sync_entry ie db) ie"
    "entry_synced db je \<Longrightarrow> re_key (snd je) \<noteq> re_key (snd ie) \<Longrightarrow> entry_synced (sync_entry ie db) je"
proof -
  let ?u = "upsert_page (fst ie) (snd ie) db"
  note u = upsert_page_facts [OF assms, where i = "fst ie" and e = "snd ie"]
  note f = fold_insert_page_action [OF u(1), of "re_key (snd ie)" "re_actions (snd ie)", folded sync_entry_def]
  show "wf_permissions (sync_entry ie db)" using f by (simp add: sync_entry_def)
  show "same_ids db (sync_entry ie db)" using f u(2,4) by (auto simp: same_ids_def sync_entry_def)
  show "entry_synced (sync_entry ie db) ie"
    using f u(3) by (fastforce simp: entry_synced_def sync_entry_def page_synced_def)
  assume je: "entry_synced db je" "re_key (snd je) \<noteq> re_key (snd ie)"
  then obtain pg where pg: "pg \<in> set (db_pages db)" "page_synced je pg"
    "\<forall>a \<in> set (re_actions (snd je)). \<exists>p \<in> set (db_permissions db). p_page p = pg_id pg \<and> p_action p = a"
    by (auto simp: entry_synced_def)
  then have "pg \<in> set (db_pages ?u)" using u(5) je(2) by (simp add: page_synced_def)
  then show "entry_synced (sync_entry ie db) je"
    using f pg u(2) unfolding entry_synced_def sync_entry_def by (metis subsetD)
qed

lemma sync_entry_idle:
  assumes "wf_permissions db" "entry_synced db ie"
  shows "sync_entry ie db = db"
proof -
  obtain pg where pg: "pg \<in> set (db_pages db)" "page_synced ie pg"
    "\<forall>a \<in> set (re_actions (snd ie)). \<exists>p \<in> set (db_permissions db). p_page p = pg_id pg \<and> p_action p = a"
    using assms(2) by (auto simp: entry_synced_def)
  have only: "x = pg" if "x \<in> set (db_pages db)" "pg_key x = re_key (snd ie)" for x
    using assms(1) that pg inj_onD [of pg_key "set (db_pages db)" x pg]
    by (simp add: wf_permissions_def distinct_map page_synced_def)
  have "pg\<lparr>pg_label := re_label (snd ie), pg_nav_group := navGroupOf (re_group (snd ie)), pg_sort_order := fst ie + 1\<rparr> = pg"
    using pg(2) by (cases pg) (simp add: page_synced_def)
  note upd = this
  let ?f = "\<lambda>pg. pg\<lparr>pg_label := re_label (snd ie), pg_nav_group := navGroupOf (re_group (snd ie)), pg_sort_order := fst ie + 1\<rparr>"
  have "update_where (\<lambda>x. pg_key x = re_key (snd ie)) ?f (db_pages db) = db_pages db"
    unfolding update_where_def
  proof (rule map_idI)
    fix x assume "x \<in> set (db_pages db)"
    then show "(if pg_key x = re_key (snd ie) then ?f x else x) = x" using only [of x] upd by presburger
  qed
  moreover have "list_ex (\<lambda>x. pg_key x = re_key (snd ie)) (db_pages db)"
    using pg(1,2) by (auto simp: list_ex_iff page_synced_def)
  ultimately have up: "upsert_page (fst ie) (snd ie) db = db"
    unfolding upsert_page_def by simp
  have single: "filter (\<lambda>x. pg_key x = re_key (snd ie)) (db_pages db) = [pg]"
    using filter_key_single [of pg_key "db_pages db" pg] assms(1) pg by (simp add: wf_permissions_def page_synced_def)
  have "insert_page_action (re_key (snd ie)) a db = db" if "a \<in> set (re_actions (snd ie))" for a
    using pg(3) that by (auto simp: insert_page_action_def single insert_permission_def list_ex_iff)
  then have "fold (insert_page_action (re_key (snd ie))) as db = db" if "set as \<subseteq> set (re_actions (snd ie))" for as
    using that by (induction as) auto
  then show ?thesis by (simp add: sync_entry_def up)
qed

lemma fold_sync_entry:
  assumes "wf_permissions db" "distinct (map (re_key \<circ> snd) ies)"
  shows "wf_permissions (fold sync_entry ies db) \<and> same_ids db (fold sync_entry ies db) \<and>
    (\<forall>ie \<in> set ies. entry_synced (fold sync_entry ies db) ie) \<and>
    (\<forall>je. entry_synced db je \<and> re_key (snd je) \<notin> re_key ` snd ` set ies \<longrightarrow> entry_synced (fold sync_entry ies db) je)"
  using assms
proof (induction ies arbitrary: db)
  case (Cons ie ies)
  note f = sync_entry_facts [OF Cons.prems(1), where ie = ie]
  have dist: "distinct (map (re_key \<circ> snd) ies)" using Cons.prems(2) by (simp add: comp_def)
  note IH = Cons.IH [OF f(1) dist]
  have "same_ids db (fold sync_entry ies (sync_entry ie db))"
    using IH Cons.prems(2) f(2) same_ids_trans by simp
  moreover have "re_key (snd ie) \<notin> re_key ` snd ` set ies" using Cons.prems(2) by (auto simp: image_iff)
  moreover have "entry_synced (fold sync_entry ies (sync_entry ie db)) ie"
    using IH f(3) calculation(2) by blast
  ultimately show ?case using IH f(4) by simp
qed (simp add: same_ids_def)

lemma fold_insert_role_permission:
  "p \<in> set ps \<Longrightarrow> list_ex (\<lambda>rp. rp_role rp = role \<and> rp_permission rp = p_id p)
     (fold (\<lambda>p. insert_role_permission role (p_id p) True) ps rows)"
  "set rows \<subseteq> set (fold (\<lambda>p. insert_role_permission role (p_id p) True) ps rows)"
proof -
  show sub: "set rows \<subseteq> set (fold (\<lambda>p. insert_role_permission role (p_id p) True) ps rows)" for rows ps
  proof (induction ps arbitrary: rows)
    case (Cons x ps)
    have "set rows \<subseteq> set (insert_role_permission role (p_id x) True rows)" by (auto simp: insert_role_permission_def)
    then show ?case using Cons by fastforce
  qed simp
  show "p \<in> set ps \<Longrightarrow> list_ex (\<lambda>rp. rp_role rp = role \<and> rp_permission rp = p_id p)
     (fold (\<lambda>p. insert_role_permission role (p_id p) True) ps rows)"
  proof (induction ps arbitrary: rows)
    case (Cons x ps)
    show ?case
    proof (cases "p = x")
      case True
      have "list_ex (\<lambda>rp. rp_role rp = role \<and> rp_permission rp = p_id x) (insert_role_permission role (p_id x) True rows)"
        by (auto simp: insert_role_permission_def)
      then show ?thesis using sub [of "insert_role_permission role (p_id x) True rows" ps] True
        by (auto simp: list_ex_iff)
    qed (use Cons in simp)
  qed simp
qed

definition admin_complete :: "(string \<Rightarrow> string) \<Rightarrow> identity_db \<Rightarrow> bool" where
  "admin_complete collate db \<longleftrightarrow>
     (\<forall>r \<in> set (db_roles db). collate (r_name r) = collate ADMIN_ROLE_NAME \<longrightarrow> (\<forall>p \<in> set (db_permissions db).
        list_ex (\<lambda>rp. rp_role rp = r_id r \<and> rp_permission rp = p_id p) (db_role_permissions db)))"

lemma grant_admin_facts:
  "admin_complete collate (grant_admin collate db)" "db_pages (grant_admin collate db) = db_pages db"
  "db_permissions (grant_admin collate db) = db_permissions db"
  "admin_complete collate db \<Longrightarrow> grant_admin collate db = db"
proof -
  let ?g = "\<lambda>ps r rows. fold (\<lambda>p. insert_role_permission (r_id r) (p_id p) True) ps rows"
  have sub: "set rows \<subseteq> set (fold (?g ps) rs rows)" for ps rs rows
  proof (induction rs arbitrary: rows)
    case (Cons r rs)
    then show ?case using fold_insert_role_permission(2) by fastforce
  qed simp
  have all: "list_ex (\<lambda>rp. rp_role rp = r_id r \<and> rp_permission rp = p_id p) (fold (?g ps) rs rows)"
    if "r \<in> set rs" "p \<in> set ps" for r rs p ps rows
    using that(1)
  proof (induction rs arbitrary: rows)
    case (Cons x rs)
    show ?case
    proof (cases "r = x")
      case True
      then show ?thesis
        using fold_insert_role_permission(1) [OF that(2), of "r_id x" rows] sub [of "?g ps x rows" ps rs]
        by (auto simp: list_ex_iff)
    qed (use Cons in simp)
  qed simp
  show "admin_complete collate (grant_admin collate db)"
    unfolding admin_complete_def
  proof (intro ballI impI)
    fix r p assume "r \<in> set (db_roles (grant_admin collate db))" "collate (r_name r) = collate ADMIN_ROLE_NAME"
      "p \<in> set (db_permissions (grant_admin collate db))"
    then have "r \<in> set (filter (\<lambda>r. collate (r_name r) = collate ADMIN_ROLE_NAME) (db_roles db))"
      "p \<in> set (db_permissions db)" by (simp_all add: grant_admin_def)
    from all [OF this] show "list_ex (\<lambda>rp. rp_role rp = r_id r \<and> rp_permission rp = p_id p)
        (db_role_permissions (grant_admin collate db))" by (simp add: grant_admin_def)
  qed
  show "db_pages (grant_admin collate db) = db_pages db" "db_permissions (grant_admin collate db) = db_permissions db"
    by (simp_all add: grant_admin_def)
  assume c: "admin_complete collate db"
  have "?g ps r (db_role_permissions db) = db_role_permissions db"
    if "r \<in> set (db_roles db)" "collate (r_name r) = collate ADMIN_ROLE_NAME" "set ps \<subseteq> set (db_permissions db)" for r ps
    using that(3) c that(1,2) by (induction ps) (auto simp: insert_role_permission_def admin_complete_def)
  then have "fold (?g (db_permissions db)) rs (db_role_permissions db) = db_role_permissions db"
    if "set rs \<subseteq> {r \<in> set (db_roles db). collate (r_name r) = collate ADMIN_ROLE_NAME}" for rs
    using that by (induction rs) auto
  then show "grant_admin collate db = db" by (simp add: grant_admin_def)
qed

lemma indexed_registry:
  "map (re_key \<circ> snd) (zip (map int [0..<length PERMISSION_REGISTRY]) PERMISSION_REGISTRY) = map re_key PERMISSION_REGISTRY"
  by (simp flip: map_map)

text \<open>Synchronising the permission tables with the registry: afterwards every registered page and action
has a permission row (with the page's label, group and position from the registry), no page or permission
number changed, so every stored grant keeps its meaning, every Admin role has a row for every permission,
the identifiers are still unique, and synchronising again changes nothing.\<close>

theorem sync_registry_complete:
  assumes "wf_permissions db" and "missing_actions columnType = []"
  shows "let db' = syncPermissionRegistry collate columnType db in
    wf_permissions db' \<and>
    (\<forall>e \<in> set PERMISSION_REGISTRY. \<forall>a \<in> set (re_actions e). \<exists>pid. (re_key e, a) \<in> set (permission_pages db' pid)) \<and>
    (\<forall>pid. set (permission_pages db pid) \<subseteq> set (permission_pages db' pid)) \<and>
    (\<forall>r \<in> set (db_roles db'). r_name r = ''ADMIN'' \<longrightarrow> (\<forall>p \<in> set (db_permissions db').
       \<exists>rp \<in> set (db_role_permissions db'). rp_role rp = r_id r \<and> rp_permission rp = p_id p)) \<and>
    syncPermissionRegistry collate columnType db' = db'"
proof -
  let ?ies = "zip (map int [0..<length PERMISSION_REGISTRY]) PERMISSION_REGISTRY"
  let ?s = "fold sync_entry ?ies db"
  let ?d = "syncPermissionRegistry collate columnType db"
  have dist: "distinct (map (re_key \<circ> snd) ?ies)" unfolding indexed_registry by (rule registry_keys_distinct)
  note f = fold_sync_entry [OF assms(1) dist]
  have d: "?d = grant_admin collate ?s" by (simp add: syncPermissionRegistry_def assms(2))
  note g = grant_admin_facts [of collate ?s, folded d]
  have wf: "wf_permissions ?d" using f g by (simp add: wf_permissions_def)
  have synced: "entry_synced ?d ie" if "ie \<in> set ?ies" for ie
    using f that by (simp add: entry_synced_def g)
  have "fold sync_entry ies ?d = ?d" if "set ies \<subseteq> set ?ies" for ies
    using that by (induction ies) (auto simp: sync_entry_idle [OF wf synced])
  then have idem: "syncPermissionRegistry collate columnType ?d = ?d"
    using grant_admin_facts(4) [OF g(1)] by (simp add: syncPermissionRegistry_def [of collate columnType ?d] assms(2))
  have ids: "same_ids db ?d" using f by (simp add: same_ids_def g)
  have keep: "(k, a) \<in> set (permission_pages ?d pid)" if kp: "(k, a) \<in> set (permission_pages db pid)" for k a pid
  proof -
    obtain p pg where p: "p \<in> set (db_permissions db)" "pg \<in> set (db_pages db)" "p_id p = pid" "pg_id pg = p_page p"
      "pg_key pg = k" "p_action p = a" using kp by (auto simp: permission_pages_iff)
    from p(2) have "(pg_id pg, pg_key pg) \<in> (\<lambda>pg. (pg_id pg, pg_key pg)) ` set (db_pages db)" by (rule imageI)
    then have "(pg_id pg, pg_key pg) \<in> (\<lambda>pg. (pg_id pg, pg_key pg)) ` set (db_pages ?d)" "p \<in> set (db_permissions ?d)"
      using ids p(1) unfolding same_ids_def by blast+
    then obtain pg' where pg': "pg' \<in> set (db_pages ?d)" "pg_id pg' = p_page p" "pg_key pg' = k" "p \<in> set (db_permissions ?d)"
      using p(4,5) by auto
    then show ?thesis unfolding permission_pages_iff using p(3,6) by blast
  qed
  have "\<exists>pid. (re_key e, a) \<in> set (permission_pages ?d pid)"
    if e: "e \<in> set PERMISSION_REGISTRY" "a \<in> set (re_actions e)" for e a
  proof -
    have "e \<in> snd ` set ?ies" using e(1) by (metis length_map length_upt map_snd_zip set_map diff_zero)
    then obtain i where "(i, e) \<in> set ?ies" by force
    from synced [OF this] obtain pg p where "pg \<in> set (db_pages ?d)" "pg_key pg = re_key e"
      "p \<in> set (db_permissions ?d)" "p_page p = pg_id pg" "p_action p = a"
      using e(2) by (auto simp: entry_synced_def page_synced_def)
    then have "(re_key e, a) \<in> set (permission_pages ?d (p_id p))" unfolding permission_pages_iff by metis
    then show ?thesis ..
  qed
  moreover have "\<forall>r \<in> set (db_roles ?d). r_name r = ''ADMIN'' \<longrightarrow> (\<forall>p \<in> set (db_permissions ?d).
       \<exists>rp \<in> set (db_role_permissions ?d). rp_role rp = r_id r \<and> rp_permission rp = p_id p)"
    using g(1) by (simp add: admin_complete_def list_ex_iff ADMIN_ROLE_NAME_def)
  ultimately show ?thesis using wf keep idem unfolding Let_def by (intro conjI) auto
qed

theorem sync_registry_complete_witness:
  "let db' = syncPermissionRegistry id ''enum('view','create','edit','delete','export')'' example_identity in
     syncPermissionRegistry id ''enum('view','create','edit','delete','export')'' db' = db'"
proof -
  have "missing_actions ''enum('view','create','edit','delete','export')'' = []" by code_simp
  from sync_registry_complete [OF example_identity_wf this, of id] show ?thesis by (simp add: Let_def)
qed

end
