(* ===== verification/Accounts.thy ===== *)
theory Accounts
  imports Permissions
begin

text \<open>
  Accounts and sign-in: passwords (\<open>backend/src/lib/password.ts\<close>), access tokens
  (\<open>backend/src/lib/token.ts\<close>), the administration of users (\<open>backend/src/services/userService.ts\<close>), the
  last-admin guard of \<open>backend/src/services/roleService.ts\<close> and the sign-in services
  (\<open>backend/src/services/authService.ts\<close>). An operation maps the identity tables to the new tables and an
  error or a value. \<open>bcrypt\<close>, the SHA-256 of reset tokens, \<open>jsonwebtoken\<close> and the random sources are
  parameters; \<open>now\<close> is the database clock in seconds. Sending mail is not modelled.
\<close>

section \<open>Passwords\<close>

datatype auth_error =
    ValidationError string
  | InvalidCredentialsError string
  | AccountUnavailableError string

definition validatePasswordPolicy :: "jsval \<Rightarrow> string option" where
  "validatePasswordPolicy plain =
     (case plain of
        JStr s \<Rightarrow>
          if length s < 8 then Some ''Password must be at least 8 characters long.''
          else if \<not> list_ex is_letter s \<or> \<not> list_ex is_digit s
            then Some ''Password must contain at least one letter and one number.''
          else None
      | _ \<Rightarrow> Some ''Password must be at least 8 characters long.'')"

definition TEMP_PASSWORD_ALPHABET :: string where
  "TEMP_PASSWORD_ALPHABET = ''ABCDEFGHJKLMNPQRSTUVWXYZabcdefghijkmnpqrstuvwxyz23456789!@#$%''"

text \<open>\<open>bytes\<close> are the \<open>length\<close> random bytes, \<open>digit\<close> the last random digit.\<close>

definition generateTempPassword :: "nat list \<Rightarrow> nat \<Rightarrow> string" where
  "generateTempPassword bytes digit =
     butlast (map (\<lambda>b. TEMP_PASSWORD_ALPHABET ! (b mod length TEMP_PASSWORD_ALPHABET)) bytes) @ [digit_char digit]"

section \<open>Tokens\<close>

text \<open>The payload of a token and what verifying one yields; \<open>decode\<close> is \<open>jwt.verify\<close>, \<open>None\<close> when it throws.\<close>

record jwt_payload =
  pl_sub :: "string option"
  pl_jti :: "string option"
  pl_iat :: jsval
  pl_exp :: jsval

record verified_token =
  vt_user :: jsnum
  vt_jti :: string
  vt_issued :: jsnum
  vt_expires :: jsnum

definition verifyAccessToken :: "(string \<Rightarrow> jwt_payload option) \<Rightarrow> string \<Rightarrow> verified_token option" where
  "verifyAccessToken decode token =
     (case decode token of
        None \<Rightarrow> None
      | Some p \<Rightarrow>
          (case (pl_sub p, pl_jti p, pl_iat p, pl_exp p) of
             (Some sub, Some jti, JNum iat, JNum expiry) \<Rightarrow>
               if sub = [] \<or> jti = [] then None
               else if string_to_number sub = NaN then None
               else Some \<lparr>vt_user = string_to_number sub, vt_jti = jti, vt_issued = iat, vt_expires = expiry\<rparr>
           | _ \<Rightarrow> None))"

definition ACCESS_TOKEN_TTL :: int where
  "ACCESS_TOKEN_TTL = 365 * 24 * 60 * 60"

text \<open>\<open>iat\<close> is the clock of the server at signing and \<open>jti\<close> the random identifier.\<close>

definition issueAccessToken :: "(jwt_payload \<Rightarrow> string) \<Rightarrow> int \<Rightarrow> string \<Rightarrow> int \<Rightarrow> string" where
  "issueAccessToken sign uid jti iat =
     sign \<lparr>pl_sub = Some (int_str uid), pl_jti = Some jti, pl_iat = JNum (Fin (of_int iat)),
       pl_exp = JNum (Fin (of_int (iat + ACCESS_TOKEN_TTL)))\<rparr>"

section \<open>Users\<close>

definition getUserByEmail :: "(string \<Rightarrow> string) \<Rightarrow> identity_db \<Rightarrow> string \<Rightarrow> app_user option" where
  "getUserByEmail collate db mail = first_row (filter (\<lambda>u. collate (au_email u) = collate mail) (db_users db))"

definition getUserById :: "identity_db \<Rightarrow> int \<Rightarrow> app_user option" where
  "getUserById db uid = first_row (filter (\<lambda>u. au_id u = uid) (db_users db))"

definition getRoleById :: "identity_db \<Rightarrow> int \<Rightarrow> role_row option" where
  "getRoleById db rid = first_row (filter (\<lambda>r. r_id r = rid) (db_roles db))"

definition update_user :: "int \<Rightarrow> (app_user \<Rightarrow> app_user) \<Rightarrow> identity_db \<Rightarrow> identity_db" where
  "update_user uid f db = db\<lparr>db_users := update_where (\<lambda>u. au_id u = uid) f (db_users db)\<rparr>"

definition email_of :: "identity_db \<Rightarrow> int \<Rightarrow> string" where
  "email_of db uid = (case getUserById db uid of None \<Rightarrow> [] | Some u \<Rightarrow> au_email u)"

text \<open>The record of a user's data-scope tier (\<open>user_role\<close>).\<close>

definition syncRoleTierAssignment :: "int \<Rightarrow> string option \<Rightarrow> identity_db \<Rightarrow> identity_db" where
  "syncRoleTierAssignment uid tier db =
     db\<lparr>db_user_tier := delete_where (\<lambda>t. fst t = uid) (db_user_tier db) @
        (case tier of None \<Rightarrow> [] | Some t \<Rightarrow> if t = [] then [] else [(uid, t)])\<rparr>"

definition recordSalespersonLinkChange ::
  "int \<Rightarrow> int option \<Rightarrow> int option \<Rightarrow> int option \<Rightarrow> identity_db \<Rightarrow> identity_db" where
  "recordSalespersonLinkChange uid old new actor db =
     (if old = new then db
      else db\<lparr>db_salesperson_history := db_salesperson_history db @ [(uid, old, new, actor)]\<rparr>)"

definition insert_user_role :: "int \<Rightarrow> int \<Rightarrow> identity_db \<Rightarrow> identity_db" where
  "insert_user_role uid rid db = db\<lparr>db_user_roles := insert_ignore (uid, rid) (db_user_roles db)\<rparr>"

section \<open>The last admin\<close>

definition adminRoleId :: "(string \<Rightarrow> string) \<Rightarrow> identity_db \<Rightarrow> int option" where
  "adminRoleId collate db =
     map_option r_id (first_row (filter (\<lambda>r. collate (r_name r) = collate ADMIN_ROLE_NAME) (db_roles db)))"

definition can_sign_in :: "user_status \<Rightarrow> bool" where
  "can_sign_in s = (s = ACTIVE \<or> s = PENDING_PASSWORD_CHANGE)"

definition countOtherActiveAdmins :: "(string \<Rightarrow> string) \<Rightarrow> identity_db \<Rightarrow> int \<Rightarrow> nat" where
  "countOtherActiveAdmins collate db uid =
     (case adminRoleId collate db of
        None \<Rightarrow> 0
      | Some admin \<Rightarrow> length (concat (map (\<lambda>ur. filter (\<lambda>u. au_id u = fst ur \<and> can_sign_in (au_status u)) (db_users db))
          (filter (\<lambda>ur. snd ur = admin \<and> fst ur \<noteq> uid) (db_user_roles db)))))"

definition userHoldsAdmin :: "(string \<Rightarrow> string) \<Rightarrow> identity_db \<Rightarrow> int \<Rightarrow> bool" where
  "userHoldsAdmin collate db uid =
     (case adminRoleId collate db of None \<Rightarrow> False | Some admin \<Rightarrow> (uid, admin) \<in> set (db_user_roles db))"

definition getUserRoleIds :: "identity_db \<Rightarrow> int \<Rightarrow> int list" where
  "getUserRoleIds db uid = sort (map snd (filter (\<lambda>ur. fst ur = uid) (db_user_roles db)))"

definition assertCanDeactivate :: "(string \<Rightarrow> string) \<Rightarrow> identity_db \<Rightarrow> int \<Rightarrow> auth_error + unit" where
  "assertCanDeactivate collate db uid =
     ensure (\<not> (userHoldsAdmin collate db uid \<and> countOtherActiveAdmins collate db uid = 0))
       (ValidationError ''This is the last active Admin and cannot be disabled or locked.'')"

section \<open>Administration of users\<close>

record create_user_input =
  cu_name :: string
  cu_email :: string
  cu_role :: int
  cu_extra_roles :: "int list"
  cu_status :: "user_status option"
  cu_temp_password :: "jsval option"
  cu_salesperson_key :: "int option"
  cu_company_scope :: "string option"
  cu_actor :: "int option"

text \<open>\<open>temp\<close> is the generated password and \<open>hash\<close> is bcrypt (with the salt it drew).\<close>

definition createUser ::
  "(string \<Rightarrow> string) \<Rightarrow> (string \<Rightarrow> string) \<Rightarrow> string \<Rightarrow> create_user_input \<Rightarrow> identity_db \<Rightarrow>
   auth_error + (identity_db \<times> int \<times> jsval)" where
  "createUser collate hash temp input db =
     rbind (ensure (getUserByEmail collate db (cu_email input) = None)
         (ValidationError ''A user with this email already exists.'')) (\<lambda>_.
     (case getRoleById db (cu_role input) of
        None \<Rightarrow> Inl (ValidationError ''Unknown role.'')
      | Some role \<Rightarrow>
          (let password = (case cu_temp_password input of None \<Rightarrow> JStr temp | Some p \<Rightarrow> p) in
           case validatePasswordPolicy password of
             Some e \<Rightarrow> Inl (ValidationError e)
           | None \<Rightarrow>
               (let uid = next_id (map au_id (db_users db));
                    user = \<lparr>au_id = uid, au_email = cu_email input, au_name = cu_name input,
                      au_company_scope = (case cu_company_scope input of Some s \<Rightarrow> s
                        | None \<Rightarrow> if r_name role = ''TIKA_CEO'' then ''TIKA'' else ''ALL''),
                      au_salesperson_key = cu_salesperson_key input, au_password_hash = hash (to_string password),
                      au_status = (case cu_status input of None \<Rightarrow> PENDING_PASSWORD_CHANGE | Some s \<Rightarrow> s),
                      au_must_change = True, au_last_login = None, au_failed = 0, au_password_changed = None,
                      au_reset_hash = None, au_reset_expires = None, au_sessions_revoked = None,
                      au_role = Some (cu_role input)\<rparr>;
                    known = filter (\<lambda>r. r_id r \<in> set (dedup (cu_role input # cu_extra_roles input))) (db_roles db);
                    db1 = db\<lparr>db_users := db_users db @ [user]\<rparr>;
                    db2 = fold (\<lambda>r. insert_user_role uid (r_id r)) known db1;
                    db3 = syncRoleTierAssignment uid (r_tier role) db2;
                    db4 = (if cu_salesperson_key input \<in> {None, Some 0} then db3
                       else recordSalespersonLinkChange uid None (cu_salesperson_key input) (cu_actor input) db3)
                in Inr (db4, uid, password)))))"

record update_user_input =
  uu_name :: "string option"
  uu_salesperson_key :: "int option option"
  uu_company_scope :: "string option"

definition updateUser :: "int \<Rightarrow> update_user_input \<Rightarrow> int option \<Rightarrow> identity_db \<Rightarrow> identity_db" where
  "updateUser uid input actor db =
     (if uu_name input = None \<and> uu_salesperson_key input = None \<and> uu_company_scope input = None then db
      else
        (let previous = (case getUserById db uid of None \<Rightarrow> None | Some u \<Rightarrow> au_salesperson_key u);
             set_name = (case uu_name input of None \<Rightarrow> id | Some n \<Rightarrow> au_name_update (\<lambda>_. n));
             set_key = (case uu_salesperson_key input of None \<Rightarrow> id | Some k \<Rightarrow> au_salesperson_key_update (\<lambda>_. k));
             set_scope = (case uu_company_scope input of None \<Rightarrow> id | Some s \<Rightarrow> au_company_scope_update (\<lambda>_. s));
             db1 = update_user uid (set_scope \<circ> set_key \<circ> set_name) db
         in case uu_salesperson_key input of
              None \<Rightarrow> db1
            | Some k \<Rightarrow> recordSalespersonLinkChange uid previous k actor db1))"

definition setUserStatus ::
  "(string \<Rightarrow> string) \<Rightarrow> int \<Rightarrow> user_status \<Rightarrow> identity_db \<Rightarrow> auth_error + identity_db" where
  "setUserStatus collate uid status db =
     rbind (if status = INACTIVE \<or> status = LOCKED then assertCanDeactivate collate db uid else Inr ()) (\<lambda>_.
       let db1 = update_user uid (\<lambda>u. u\<lparr>au_status := status, au_failed := 0\<rparr>) db
       in Inr (recordLoginHistory db1 (Some uid) (email_of db1 uid) ACCOUNT_STATUS_CHANGED))"

text \<open>\<open>IF(status = 'ACTIVE', 'PENDING_PASSWORD_CHANGE', status)\<close> and its inverse.\<close>

definition to_pending :: "user_status \<Rightarrow> user_status" where
  "to_pending s = (if s = ACTIVE then PENDING_PASSWORD_CHANGE else s)"

definition from_pending :: "user_status \<Rightarrow> user_status" where
  "from_pending s = (if s = PENDING_PASSWORD_CHANGE then ACTIVE else s)"

definition forcePasswordChange :: "int \<Rightarrow> identity_db \<Rightarrow> identity_db" where
  "forcePasswordChange uid db =
     (let db1 = update_user uid (\<lambda>u. u\<lparr>au_must_change := True, au_status := to_pending (au_status u)\<rparr>) db
      in recordLoginHistory db1 (Some uid) (email_of db1 uid) FORCE_PASSWORD_CHANGE_SET)"

definition adminResetPassword ::
  "(string \<Rightarrow> string) \<Rightarrow> string \<Rightarrow> int \<Rightarrow> int \<Rightarrow> jsval option \<Rightarrow> identity_db \<Rightarrow>
   auth_error + (identity_db \<times> jsval)" where
  "adminResetPassword hash temp now uid explicit db =
     (case getUserById db uid of
        None \<Rightarrow> Inl (ValidationError ''User not found.'')
      | Some user \<Rightarrow>
          (let password = (case explicit of None \<Rightarrow> JStr temp | Some p \<Rightarrow> p) in
           case validatePasswordPolicy password of
             Some e \<Rightarrow> Inl (ValidationError e)
           | None \<Rightarrow>
               (let db1 = update_user uid (\<lambda>u. u\<lparr>au_password_hash := hash (to_string password), au_must_change := True,
                      au_status := to_pending (au_status u), au_password_changed := Some now,
                      au_sessions_revoked := Some now, au_failed := 0\<rparr>) db
                in Inr (recordLoginHistory db1 (Some uid) (au_email user) PASSWORD_CHANGED, password))))"

definition revokeSessions :: "int \<Rightarrow> int \<Rightarrow> identity_db \<Rightarrow> identity_db" where
  "revokeSessions now uid db =
     (let db1 = update_user uid (\<lambda>u. u\<lparr>au_sessions_revoked := Some now\<rparr>) db
      in recordLoginHistory db1 (Some uid) (email_of db1 uid) SESSIONS_REVOKED)"

section \<open>Signing in\<close>

text \<open>What the services take from outside: the collation, bcrypt, the signing of tokens, the hash and the
value of a fresh reset token, the random token identifier, both clocks and the configured limits.\<close>

record auth_env =
  e_collate :: "string \<Rightarrow> string"
  e_verify :: "string \<Rightarrow> string \<Rightarrow> bool"
  e_hash :: "string \<Rightarrow> string"
  e_sign :: "jwt_payload \<Rightarrow> string"
  e_jti :: string
  e_iat :: int
  e_now :: int
  e_reset_hash :: "string \<Rightarrow> string"
  e_reset_token :: string
  e_lock_threshold :: int
  e_reset_ttl_min :: int

record public_user =
  pu_id :: int
  pu_email :: string
  pu_fullName :: string
  pu_status :: user_status
  pu_mustChangePassword :: bool
  pu_role :: "int option \<times> string option \<times> string option"
  pu_roles :: "(int \<times> string \<times> string) list"
  pu_isAdmin :: bool
  pu_lastLoginAt :: "int option"
  pu_isSalesperson :: bool
  pu_salespersonKey :: "int option"

text \<open>The primary role of a user, joined by \<open>USER_WITH_ROLE_SELECT\<close>.\<close>

definition primary_role :: "identity_db \<Rightarrow> app_user \<Rightarrow> role_row option" where
  "primary_role db u = (case au_role u of None \<Rightarrow> None | Some rid \<Rightarrow> getRoleById db rid)"

definition tier_of :: "identity_db \<Rightarrow> app_user \<Rightarrow> string option" where
  "tier_of db u = (case primary_role db u of None \<Rightarrow> None | Some r \<Rightarrow> r_tier r)"

definition toPublicUser :: "identity_db \<Rightarrow> app_user \<Rightarrow> role_row list \<Rightarrow> public_user" where
  "toPublicUser db u roles =
     \<lparr>pu_id = au_id u, pu_email = au_email u, pu_fullName = au_name u, pu_status = au_status u,
      pu_mustChangePassword = au_must_change u,
      pu_role = (au_role u, map_option r_name (primary_role db u), map_option r_label (primary_role db u)),
      pu_roles = map (\<lambda>r. (r_id r, r_name r, r_label r)) roles,
      pu_isAdmin = list_ex is_admin_role roles, pu_lastLoginAt = au_last_login u,
      pu_isSalesperson = (tier_of db u = Some ''SALESPERSON''), pu_salespersonKey = au_salesperson_key u\<rparr>"

definition buildMeResponse ::
  "(string \<Rightarrow> string) \<Rightarrow> identity_db \<Rightarrow> app_user \<Rightarrow> public_user \<times> effective_permissions \<times> registry_entry list" where
  "buildMeResponse collate db u =
     (toPublicUser db u (getUserRoles collate db (au_id u) (au_role u)),
      getEffectivePermissions collate db (au_id u) (au_role u), PERMISSION_REGISTRY)"

type_synonym login_result = "string \<times> public_user \<times> effective_permissions \<times> registry_entry list"

definition should_auto_lock :: "auth_env \<Rightarrow> app_user \<Rightarrow> bool" where
  "should_auto_lock env u =
     (au_failed u + 1 \<ge> e_lock_threshold env \<and> (au_status u = ACTIVE \<or> au_status u = PENDING_PASSWORD_CHANGE))"

definition bad_login :: auth_error where
  "bad_login = InvalidCredentialsError ''Invalid email or password.''"

definition login ::
  "auth_env \<Rightarrow> string \<Rightarrow> string \<Rightarrow> identity_db \<Rightarrow> identity_db \<times> (auth_error + login_result)" where
  "login env mail password db =
     (case getUserByEmail (e_collate env) db mail of
        None \<Rightarrow> (recordLoginHistory db None mail LOGIN_FAILED_PASSWORD, Inl bad_login)
      | Some user \<Rightarrow>
          if \<not> e_verify env password (au_password_hash user) then
            (let lock = should_auto_lock env user;
                 db1 = update_user (au_id user) (\<lambda>u. u\<lparr>au_failed := au_failed user + 1,
                   au_status := (if lock then LOCKED else au_status user)\<rparr>) db;
                 db2 = recordLoginHistory db1 (Some (au_id user)) mail LOGIN_FAILED_PASSWORD;
                 db3 = (if lock then recordLoginHistory db2 (Some (au_id user)) mail ACCOUNT_LOCKED_AUTO else db2)
             in (db3, Inl bad_login))
          else if au_status user = LOCKED then
            (recordLoginHistory db (Some (au_id user)) mail LOGIN_FAILED_LOCKED,
             Inl (AccountUnavailableError ''Your account is locked. Contact your administrator.''))
          else if au_status user = INACTIVE then
            (recordLoginHistory db (Some (au_id user)) mail LOGIN_FAILED_INACTIVE,
             Inl (AccountUnavailableError ''Your account is inactive. Contact your administrator.''))
          else
            (let db1 = update_user (au_id user) (\<lambda>u. u\<lparr>au_failed := 0, au_last_login := Some (e_now env)\<rparr>) db;
                 db2 = recordLoginHistory db1 (Some (au_id user)) mail LOGIN_SUCCESS;
                 token = issueAccessToken (e_sign env) (au_id user) (e_jti env) (e_iat env)
             in (case getUserById db2 (au_id user) of
                   None \<Rightarrow> (db2, Inl (ValidationError ''User not found.''))
                 | Some fresh \<Rightarrow> (db2, Inr (token, buildMeResponse (e_collate env) db2 fresh)))))"

definition logout :: "int \<Rightarrow> string \<Rightarrow> identity_db \<Rightarrow> identity_db" where
  "logout uid jti db =
     (let db1 = db\<lparr>db_revoked := db_revoked db @ [jti]\<rparr>
      in recordLoginHistory db1 (Some uid) (email_of db1 uid) LOGOUT)"

definition change_account :: "auth_env \<Rightarrow> jsval \<Rightarrow> app_user \<Rightarrow> app_user" where
  "change_account env new u = u\<lparr>au_password_hash := e_hash env (to_string new), au_must_change := False,
     au_status := from_pending (au_status u), au_password_changed := Some (e_now env)\<rparr>"

definition reset_account :: "auth_env \<Rightarrow> jsval \<Rightarrow> app_user \<Rightarrow> app_user" where
  "reset_account env new u = u\<lparr>au_password_hash := e_hash env (to_string new), au_must_change := False,
     au_status := from_pending (au_status u), au_password_changed := Some (e_now env),
     au_sessions_revoked := Some (e_now env), au_reset_hash := None, au_reset_expires := None, au_failed := 0\<rparr>"

definition changePassword ::
  "auth_env \<Rightarrow> int \<Rightarrow> string \<Rightarrow> jsval \<Rightarrow> identity_db \<Rightarrow> auth_error + (identity_db \<times> string)" where
  "changePassword env uid current new db =
     (case getUserById db uid of
        None \<Rightarrow> Inl (ValidationError ''User not found.'')
      | Some user \<Rightarrow>
          if \<not> e_verify env current (au_password_hash user)
          then Inl (InvalidCredentialsError ''Current password is incorrect.'')
          else (case validatePasswordPolicy new of
             Some e \<Rightarrow> Inl (ValidationError e)
           | None \<Rightarrow>
               (let db1 = update_user uid (change_account env new) db
                in Inr (recordLoginHistory db1 (Some uid) (au_email user) PASSWORD_CHANGED,
                        issueAccessToken (e_sign env) uid (e_jti env) (e_iat env)))))"

definition forgotPassword :: "auth_env \<Rightarrow> string \<Rightarrow> identity_db \<Rightarrow> identity_db" where
  "forgotPassword env mail db =
     (case getUserByEmail (e_collate env) db mail of
        None \<Rightarrow> db
      | Some user \<Rightarrow>
          if au_status user = LOCKED \<or> au_status user = INACTIVE then db
          else recordLoginHistory
            (update_user (au_id user) (\<lambda>u. u\<lparr>au_reset_hash := Some (e_reset_hash env (e_reset_token env)),
               au_reset_expires := Some (e_now env + e_reset_ttl_min env * 60)\<rparr>) db)
            (Some (au_id user)) mail PASSWORD_RESET_REQUESTED)"

definition live_reset :: "auth_env \<Rightarrow> string \<Rightarrow> app_user \<Rightarrow> bool" where
  "live_reset env token u =
     (au_reset_hash u = Some (e_reset_hash env token) \<and>
      (case au_reset_expires u of None \<Rightarrow> False | Some t \<Rightarrow> t > e_now env))"

definition resetPassword :: "auth_env \<Rightarrow> string \<Rightarrow> jsval \<Rightarrow> identity_db \<Rightarrow> auth_error + identity_db" where
  "resetPassword env token new db =
     (case first_row (filter (live_reset env token) (db_users db)) of
        None \<Rightarrow> Inl (InvalidCredentialsError ''This reset link is invalid or has expired.'')
      | Some user \<Rightarrow>
          (case validatePasswordPolicy new of
             Some e \<Rightarrow> Inl (ValidationError e)
           | None \<Rightarrow>
               (let db1 = update_user (au_id user) (reset_account env new) db
                in Inr (recordLoginHistory db1 (Some (au_id user)) (au_email user) PASSWORD_RESET_COMPLETED))))"

section \<open>The session check of every request\<close>

record auth_user = request_user +
  q_email :: string
  q_fullName :: string
  q_status :: user_status
  q_roleName :: "string option"
  q_roleLabel :: "string option"
  q_roles :: "role_row list"
  q_roleTierCode :: "string option"
  q_salespersonKey :: "int option"
  q_companyScope :: string
  q_jti :: string

datatype db_fault = Connection_fault | Other_fault

definition isTokenRevoked :: "identity_db \<Rightarrow> string \<Rightarrow> bool" where
  "isTokenRevoked db jti = (jti \<in> set (db_revoked db))"

definition user_by_number :: "identity_db \<Rightarrow> jsnum \<Rightarrow> app_user option" where
  "user_by_number db n = first_row (filter (\<lambda>u. Fin (of_int (au_id u)) = n) (db_users db))"

definition before :: "jsnum \<Rightarrow> int option \<Rightarrow> bool" where
  "before issued mark =
     (case (issued, mark) of (Fin q, Some t) \<Rightarrow> q < of_int t | (NegInf, Some t) \<Rightarrow> True | _ \<Rightarrow> False)"

definition request_user_of :: "(string \<Rightarrow> string) \<Rightarrow> identity_db \<Rightarrow> app_user \<Rightarrow> string \<Rightarrow> auth_user" where
  "request_user_of collate db u jti =
     (let roles = getUserRoles collate db (au_id u) (au_role u) in
      \<lparr>q_id = au_id u, q_roleId = au_role u, q_isAdmin = list_ex is_admin_role roles,
       q_mustChangePassword = au_must_change u, q_email = au_email u, q_fullName = au_name u,
       q_status = au_status u, q_roleName = map_option r_name (primary_role db u),
       q_roleLabel = map_option r_label (primary_role db u), q_roles = roles, q_roleTierCode = tier_of db u,
       q_salespersonKey = au_salesperson_key u, q_companyScope = au_company_scope u, q_jti = jti\<rparr>)"

text \<open>\<open>fault\<close> is the failure of the database reads, if any.\<close>

definition requireAuth ::
  "(string \<Rightarrow> string) \<Rightarrow> (string \<Rightarrow> jwt_payload option) \<Rightarrow> db_fault option \<Rightarrow> identity_db \<Rightarrow> string option \<Rightarrow>
   auth_user outcome" where
  "requireAuth collate decode fault db header =
     (case header of
        None \<Rightarrow> Reply 401 ''Missing bearer token''
      | Some h \<Rightarrow>
          if \<not> starts_with ''Bearer '' h then Reply 401 ''Missing bearer token''
          else (case verifyAccessToken decode (drop 7 h) of
             None \<Rightarrow> Reply 401 ''Invalid or expired session''
           | Some v \<Rightarrow>
               (case fault of
                  Some Connection_fault \<Rightarrow> Reply 503 ''Service unavailable''
                | Some Other_fault \<Rightarrow> NextError
                | None \<Rightarrow>
                    if isTokenRevoked db (vt_jti v) then Reply 401 ''Session has been signed out''
                    else (case user_by_number db (vt_user v) of
                       None \<Rightarrow> Reply 401 ''Invalid or expired session''
                     | Some u \<Rightarrow>
                         if au_status u = INACTIVE \<or> au_status u = LOCKED
                           then Reply 401 ''Your account is no longer active. Contact your administrator.''
                         else if before (vt_issued v) (au_sessions_revoked u)
                           then Reply 401 ''Session has been revoked. Please sign in again.''
                         else if before (vt_issued v) (au_password_changed u)
                           then Reply 401 ''Session is no longer valid. Please sign in again.''
                         else Next (request_user_of collate db u (vt_jti v))))))"

section \<open>Facts about the users table\<close>

lemma first_row_update:
  assumes "\<And>r. key (f r) = key r"
  shows "first_row (filter (\<lambda>r. key r = v) (update_where (\<lambda>r. key r = k) f rows)) =
    (if v = k then map_option f (first_row (filter (\<lambda>r. key r = v) rows)) else first_row (filter (\<lambda>r. key r = v) rows))"
  using assms by (induction rows) (auto simp: update_where_def)

lemma getUserById_update [simp]:
  "(\<And>u. au_id (f u) = au_id u) \<Longrightarrow>
   getUserById (update_user uid f db) v = (if v = uid then map_option f (getUserById db v) else getUserById db v)"
  by (simp add: getUserById_def update_user_def first_row_update)

lemma update_user_tables [simp]:
  "db_roles (update_user uid f db) = db_roles db" "db_user_roles (update_user uid f db) = db_user_roles db"
  "db_role_permissions (update_user uid f db) = db_role_permissions db"
  "db_user_permissions (update_user uid f db) = db_user_permissions db"
  "db_permissions (update_user uid f db) = db_permissions db" "db_pages (update_user uid f db) = db_pages db"
  "db_scope (update_user uid f db) = db_scope db" "db_revoked (update_user uid f db) = db_revoked db"
  "db_user_tier (update_user uid f db) = db_user_tier db"
  by (simp_all add: update_user_def)

lemma recordLoginHistory_tables [simp]:
  "db_users (recordLoginHistory db i mail ev) = db_users db"
  "db_roles (recordLoginHistory db i mail ev) = db_roles db"
  "db_user_roles (recordLoginHistory db i mail ev) = db_user_roles db"
  "db_role_permissions (recordLoginHistory db i mail ev) = db_role_permissions db"
  "db_user_permissions (recordLoginHistory db i mail ev) = db_user_permissions db"
  "db_permissions (recordLoginHistory db i mail ev) = db_permissions db"
  "db_pages (recordLoginHistory db i mail ev) = db_pages db"
  "db_scope (recordLoginHistory db i mail ev) = db_scope db"
  "db_revoked (recordLoginHistory db i mail ev) = db_revoked db"
  "db_user_tier (recordLoginHistory db i mail ev) = db_user_tier db"
  by (simp_all add: recordLoginHistory_def)

lemma getUserById_history [simp]: "getUserById (recordLoginHistory db i mail ev) = getUserById db"
  by (intro ext) (simp add: getUserById_def)

lemma getUserById_id: "getUserById db uid = Some u \<Longrightarrow> au_id u = uid \<and> u \<in> set (db_users db)"
  by (auto simp: getUserById_def dest!: first_row_Some)

lemma getUserByEmail_in: "getUserByEmail collate db mail = Some u \<Longrightarrow> u \<in> set (db_users db)"
  by (auto simp: getUserByEmail_def dest!: first_row_Some)

lemma getUserById_in:
  assumes "distinct (map au_id (db_users db))" "u \<in> set (db_users db)"
  shows "getUserById db (au_id u) = Some u"
  using filter_key_single [OF assms] by (simp add: getUserById_def)

lemma change_account_fields [simp]:
  "au_id (change_account env new u) = au_id u" "au_status (change_account env new u) = from_pending (au_status u)"
  "au_id (reset_account env new u) = au_id u" "au_status (reset_account env new u) = from_pending (au_status u)"
  by (simp_all add: change_account_def reset_account_def)

text \<open>The tables that decide what a user may do.\<close>

definition same_grants :: "identity_db \<Rightarrow> identity_db \<Rightarrow> bool" where
  "same_grants db db' \<longleftrightarrow> db_roles db' = db_roles db \<and> db_user_roles db' = db_user_roles db \<and>
     db_role_permissions db' = db_role_permissions db \<and> db_user_permissions db' = db_user_permissions db \<and>
     db_permissions db' = db_permissions db \<and> db_pages db' = db_pages db \<and> db_scope db' = db_scope db"

lemma same_grants_roles: "same_grants db db' \<Longrightarrow> getUserRoles collate db' uid role = getUserRoles collate db uid role"
  by (cases role) (simp_all add: same_grants_def getUserRoles_def Let_def)

lemma same_grants_permissions:
  assumes "same_grants db db'"
  shows "getEffectivePermissions collate db' uid role = getEffectivePermissions collate db uid role"
proof -
  have "permission_pages db' = permission_pages db"
    using assms by (intro ext) (simp add: same_grants_def permission_pages_def)
  then have "role_grants db' = role_grants db" "user_overrides db' = user_overrides db"
    using assms by (auto simp: same_grants_def role_grants_def user_overrides_def)
  then show ?thesis by (simp add: getEffectivePermissions_def same_grants_roles [OF assms] Let_def)
qed

lemma same_grants_trans: "same_grants a b \<Longrightarrow> same_grants b c \<Longrightarrow> same_grants a c"
  by (simp add: same_grants_def)

lemma same_grants_update [simp]:
  "same_grants db (update_user uid f db)" "same_grants db (recordLoginHistory db i mail ev)"
  "same_grants db (recordLoginHistory (update_user uid f db) i mail ev)" "same_grants db db"
  by (simp_all add: same_grants_def)

lemma login_same_grants: "same_grants db (fst (login env mail password db))"
  by (simp add: login_def same_grants_def Let_def split: option.split)

lemma primary_role_same: "same_grants db db' \<Longrightarrow> primary_role db' = primary_role db"
  by (intro ext) (simp add: same_grants_def primary_role_def getRoleById_def split: option.split)

lemma request_user_same_grants:
  "same_grants db db' \<Longrightarrow> request_user_of collate db' u jti = request_user_of collate db u jti"
  using primary_role_same [of db db']
  by (simp add: request_user_of_def same_grants_roles tier_of_def)

lemma user_by_number_int: "user_by_number db (Fin (of_int uid)) = getUserById db uid"
  by (simp add: user_by_number_def getUserById_def)

section \<open>Properties of signing in\<close>

lemma login_exact_lemma:
  assumes "distinct (map au_id (db_users db))" and "login env mail password db = (db', res)"
  shows "same_grants db db' \<and>
    (case getUserByEmail (e_collate env) db mail of
       None \<Rightarrow> res = Inl bad_login \<and> getUserById db' = getUserById db
     | Some u \<Rightarrow>
        (\<forall>v. v \<noteq> au_id u \<longrightarrow> getUserById db' v = getUserById db v) \<and>
        (if \<not> e_verify env password (au_password_hash u) then
           res = Inl bad_login \<and>
           getUserById db' (au_id u) = Some (u\<lparr>au_failed := au_failed u + 1,
             au_status := (if can_sign_in (au_status u) \<and> au_failed u + 1 \<ge> e_lock_threshold env then LOCKED
               else au_status u)\<rparr>)
         else if can_sign_in (au_status u) then
           (\<exists>token pu. res = Inr (token, pu, getEffectivePermissions (e_collate env) db (au_id u) (au_role u), PERMISSION_REGISTRY) \<and>
             pu_id pu = au_id u) \<and>
           getUserById db' (au_id u) = Some (u\<lparr>au_failed := 0, au_last_login := Some (e_now env)\<rparr>)
         else (\<exists>m. res = Inl (AccountUnavailableError m)) \<and> getUserById db' (au_id u) = Some u))"
proof (cases "getUserByEmail (e_collate env) db mail")
  case None
  then show ?thesis using assms(2) by (auto simp: login_def)
next
  case (Some u)
  have u: "getUserById db (au_id u) = Some u"
    using getUserById_in [OF assms(1)] getUserByEmail_in [OF Some] by blast
  have sg: "same_grants db db'" using login_same_grants [of db env mail password] assms(2) by simp
  consider (wrong) "\<not> e_verify env password (au_password_hash u)"
    | (blocked) "e_verify env password (au_password_hash u)" "\<not> can_sign_in (au_status u)"
    | (good) "e_verify env password (au_password_hash u)" "can_sign_in (au_status u)"
    by blast
  then show ?thesis
  proof cases
    case wrong
    then show ?thesis
      using assms(2) Some u sg
      by (auto simp: login_def Let_def should_auto_lock_def can_sign_in_def)
  next
    case blocked
    then have "au_status u = LOCKED \<or> au_status u = INACTIVE" by (cases "au_status u") (simp_all add: can_sign_in_def)
    then show ?thesis using assms(2) Some u sg blocked by (auto simp: login_def)
  next
    case good
    then have st: "au_status u \<noteq> LOCKED" "au_status u \<noteq> INACTIVE" by (auto simp: can_sign_in_def)
    let ?f = "\<lambda>u. u\<lparr>au_failed := 0, au_last_login := Some (e_now env)\<rparr>"
    let ?d = "recordLoginHistory (update_user (au_id u) ?f db) (Some (au_id u)) mail LOGIN_SUCCESS"
    have d: "db' = ?d" "res = Inr (issueAccessToken (e_sign env) (au_id u) (e_jti env) (e_iat env),
        buildMeResponse (e_collate env) ?d (?f u))"
      using assms(2) Some u st good(1) by (auto simp: login_def Let_def)
    have "getEffectivePermissions (e_collate env) ?d (au_id u) (au_role u) =
        getEffectivePermissions (e_collate env) db (au_id u) (au_role u)"
      by (rule same_grants_permissions) simp
    then show ?thesis
      using Some u sg good d by (simp add: buildMeResponse_def toPublicUser_def)
  qed
qed

text \<open>C10. Signing in: it succeeds iff the address belongs to a user, the password verifies and the account is
neither locked nor inactive, and then the permissions returned are the user's current ones and the
failure counter is reset; an unknown address and a wrong password give the same error; a wrong password
raises the counter by one and locks an account that could sign in exactly when the counter reaches the
threshold; no other user and no role or permission changes.\<close>

theorem login_exact:
  assumes "distinct (map au_id (db_users db))" and "login env mail password db = (db', res)"
  shows "same_grants db db' \<and>
    (case getUserByEmail (e_collate env) db mail of
       None \<Rightarrow> res = Inl bad_login \<and> getUserById db' = getUserById db
     | Some u \<Rightarrow>
        (\<forall>v. v \<noteq> au_id u \<longrightarrow> getUserById db' v = getUserById db v) \<and>
        (if \<not> e_verify env password (au_password_hash u) then
           res = Inl bad_login \<and>
           getUserById db' (au_id u) = Some (u\<lparr>au_failed := au_failed u + 1,
             au_status := (if can_sign_in (au_status u) \<and> au_failed u + 1 \<ge> e_lock_threshold env then LOCKED
               else au_status u)\<rparr>)
         else if can_sign_in (au_status u) then
           (\<exists>token pu. res = Inr (token, pu, getEffectivePermissions (e_collate env) db (au_id u) (au_role u), PERMISSION_REGISTRY) \<and>
             pu_id pu = au_id u) \<and>
           getUserById db' (au_id u) = Some (u\<lparr>au_failed := 0, au_last_login := Some (e_now env)\<rparr>)
         else (\<exists>m. res = Inl (AccountUnavailableError m)) \<and> getUserById db' (au_id u) = Some u))"
  by (rule login_exact_lemma [OF assms])

text \<open>C1. The session check: a request is let through iff it carries a bearer token that verifies, the
database answers, the token is not signed out, its user exists and can sign in, and the token was not
issued before the last revocation of sessions or the last password change; the request user then has
the roles, status, scope tier and salesperson key stored now.\<close>

theorem session_check_exact:
  "requireAuth collate decode fault db header = Next au \<longleftrightarrow>
     (\<exists>h v u. header = Some (''Bearer '' @ h) \<and> verifyAccessToken decode h = Some v \<and> fault = None \<and>
        vt_jti v \<notin> set (db_revoked db) \<and> user_by_number db (vt_user v) = Some u \<and> can_sign_in (au_status u) \<and>
        \<not> before (vt_issued v) (au_sessions_revoked u) \<and> \<not> before (vt_issued v) (au_password_changed u) \<and>
        au = request_user_of collate db u (vt_jti v))"
proof -
  have st: "(au_status u = INACTIVE \<or> au_status u = LOCKED) \<longleftrightarrow> \<not> can_sign_in (au_status u)" for u
    by (cases "au_status u") (simp_all add: can_sign_in_def)
  have bearer: "starts_with ''Bearer '' h \<longleftrightarrow> (\<exists>t. h = ''Bearer '' @ t)" for h by (rule starts_with_iff)
  show ?thesis
  proof
    assume n: "requireAuth collate decode fault db header = Next au"
    then obtain t where h: "header = Some (''Bearer '' @ t)"
      by (auto simp: requireAuth_def bearer split: option.splits if_splits)
    have d: "drop 7 (''Bearer '' @ t) = t" by simp
    show "\<exists>h v u. header = Some (''Bearer '' @ h) \<and> verifyAccessToken decode h = Some v \<and> fault = None \<and>
        vt_jti v \<notin> set (db_revoked db) \<and> user_by_number db (vt_user v) = Some u \<and> can_sign_in (au_status u) \<and>
        \<not> before (vt_issued v) (au_sessions_revoked u) \<and> \<not> before (vt_issued v) (au_password_changed u) \<and>
        au = request_user_of collate db u (vt_jti v)"
      using n unfolding requireAuth_def h option.case d st
      by (simp add: isTokenRevoked_def split: option.splits db_fault.splits if_splits)
  next
    assume "\<exists>h v u. header = Some (''Bearer '' @ h) \<and> verifyAccessToken decode h = Some v \<and> fault = None \<and>
        vt_jti v \<notin> set (db_revoked db) \<and> user_by_number db (vt_user v) = Some u \<and> can_sign_in (au_status u) \<and>
        \<not> before (vt_issued v) (au_sessions_revoked u) \<and> \<not> before (vt_issued v) (au_password_changed u) \<and>
        au = request_user_of collate db u (vt_jti v)"
    then show "requireAuth collate decode fault db header = Next au"
      by (auto simp: requireAuth_def isTokenRevoked_def can_sign_in_def)
  qed
qed

definition example_account :: app_user where
  "example_account = \<lparr>au_id = 7, au_email = ''a@b.c'', au_name = ''A'', au_company_scope = ''ALL'',
     au_salesperson_key = None, au_password_hash = ''hash'', au_status = ACTIVE, au_must_change = False,
     au_last_login = None, au_failed = 4, au_password_changed = None, au_reset_hash = Some ''link'',
     au_reset_expires = Some 900, au_sessions_revoked = None, au_role = Some 2\<rparr>"

definition example_accounts :: identity_db where
  "example_accounts = example_identity\<lparr>db_users := [example_account]\<rparr>"

definition example_env :: auth_env where
  "example_env = \<lparr>e_collate = id, e_verify = (\<lambda>p h. p = ''right''), e_hash = (\<lambda>p. ''hash''), e_sign = (\<lambda>p. ''token''),
     e_jti = ''j'', e_iat = 100, e_now = 100, e_reset_hash = (\<lambda>t. t), e_reset_token = ''link'',
     e_lock_threshold = 5, e_reset_ttl_min = 60\<rparr>"

lemma example_accounts_distinct: "distinct (map au_id (db_users example_accounts))"
  by (simp add: example_accounts_def)

lemma example_accounts_user [simp]:
  "getUserById example_accounts 7 = Some example_account"
  "getUserByEmail id example_accounts ''a@b.c'' = Some example_account"
  by (simp_all add: getUserById_def getUserByEmail_def example_accounts_def example_account_def)

theorem login_exact_witness:
  "\<exists>u. getUserById (fst (login example_env ''a@b.c'' ''wrong'' example_accounts)) 7 = Some u \<and> au_status u = LOCKED"
  using login_exact [OF example_accounts_distinct, of example_env "''a@b.c''" "''wrong''"
      "fst (login example_env ''a@b.c'' ''wrong'' example_accounts)" "snd (login example_env ''a@b.c'' ''wrong'' example_accounts)"]
  by (simp add: example_env_def example_account_def can_sign_in_def)

text \<open>The tokens of a user issued before a moment are refused.\<close>

definition refuses :: "(string \<Rightarrow> string) \<Rightarrow> (string \<Rightarrow> jwt_payload option) \<Rightarrow> identity_db \<Rightarrow> string \<Rightarrow> bool" where
  "refuses collate decode db h = (case requireAuth collate decode None db (Some (''Bearer '' @ h)) of Reply n m \<Rightarrow> n = 401 | _ \<Rightarrow> False)"

lemma requireAuth_verified:
  assumes "verifyAccessToken decode h = Some v"
  shows "refuses collate decode db h \<longleftrightarrow>
    \<not> (vt_jti v \<notin> set (db_revoked db) \<and> (\<exists>u. user_by_number db (vt_user v) = Some u \<and> can_sign_in (au_status u) \<and>
        \<not> before (vt_issued v) (au_sessions_revoked u) \<and> \<not> before (vt_issued v) (au_password_changed u)))"
proof -
  have st: "(au_status u = INACTIVE \<or> au_status u = LOCKED) \<longleftrightarrow> \<not> can_sign_in (au_status u)" for u
    by (cases "au_status u") (simp_all add: can_sign_in_def)
  show ?thesis
    using assms by (auto simp: refuses_def requireAuth_def isTokenRevoked_def st split: option.splits)
qed

text \<open>Revoking a user's sessions: afterwards every token of the user issued in an earlier second than
the revocation is refused, a token issued in the same second or later is accepted exactly as before, and
the tokens of other users are not affected. Signing out refuses exactly the signed-out token.\<close>

theorem revoke_sessions_exact:
  assumes "verifyAccessToken decode h = Some v" and "vt_issued v = Fin (of_int t)" and "vt_user v = Fin (of_int w)"
    and "\<forall>u. getUserById db w = Some u \<longrightarrow> (case au_sessions_revoked u of None \<Rightarrow> True | Some m \<Rightarrow> m \<le> now)"
  shows "(refuses collate decode (revokeSessions now uid db) h \<longleftrightarrow>
      refuses collate decode db h \<or> w = uid \<and> t < now) \<and>
    (refuses collate decode (logout uid jti db) h \<longleftrightarrow> refuses collate decode db h \<or> vt_jti v = jti)"
proof -
  have r: "refuses collate decode (revokeSessions now uid db) h \<longleftrightarrow> refuses collate decode db h \<or> w = uid \<and> t < now"
  proof (cases "getUserById db w")
    case None
    then show ?thesis
      unfolding requireAuth_verified [OF assms(1)] assms(3) user_by_number_int by (auto simp: revokeSessions_def Let_def)
  next
    case (Some u)
    have now: "before (Fin (of_int t)) (Some now) \<longleftrightarrow> t < now" by (simp add: before_def)
    have "before (Fin (of_int t)) (au_sessions_revoked u) \<Longrightarrow> t < now"
      using assms(4) Some by (auto simp: before_def split: option.splits)
    then show ?thesis
      unfolding requireAuth_verified [OF assms(1)] assms(2,3) user_by_number_int
      using Some by (auto simp: revokeSessions_def Let_def now)
  qed
  have "getUserById (logout uid jti db) = getUserById db" "set (db_revoked (logout uid jti db)) = insert jti (set (db_revoked db))"
    by (auto simp: logout_def getUserById_def Let_def)
  then show ?thesis
    using r unfolding requireAuth_verified [OF assms(1)] assms(3) user_by_number_int by auto
qed

definition example_decode :: "string \<Rightarrow> jwt_payload option" where
  "example_decode h = Some \<lparr>pl_sub = Some ''7'', pl_jti = Some ''j'', pl_iat = JNum (Fin 100), pl_exp = JNum (Fin 200)\<rparr>"

lemma example_verified:
  "verifyAccessToken example_decode h = Some \<lparr>vt_user = Fin 7, vt_jti = ''j'', vt_issued = Fin 100, vt_expires = Fin 200\<rparr>"
proof -
  have "string_to_number ''7'' = Fin 7" by code_simp
  then show ?thesis by (simp add: verifyAccessToken_def example_decode_def)
qed

theorem revoke_sessions_exact_witness:
  "refuses id example_decode (revokeSessions 101 7 example_accounts) ''t'' \<and>
   \<not> refuses id example_decode (revokeSessions 100 7 example_accounts) ''t''"
proof -
  let ?v = "\<lparr>vt_user = Fin 7, vt_jti = ''j'', vt_issued = Fin 100, vt_expires = Fin 200\<rparr>"
  have seven: "(Fin 7) = Fin (of_int 7)" "(Fin 100) = Fin (of_int 100)" by simp_all
  have ok: "\<not> refuses id example_decode example_accounts ''t''"
    unfolding requireAuth_verified [OF example_verified] using user_by_number_int [of example_accounts 7]
    by (simp add: example_account_def can_sign_in_def before_def) (simp add: example_accounts_def example_identity_def)
  have none: "\<forall>u. getUserById example_accounts 7 = Some u \<longrightarrow>
      (case au_sessions_revoked u of None \<Rightarrow> True | Some m \<Rightarrow> m \<le> n)" for n
    by (simp add: example_account_def)
  show ?thesis
    using revoke_sessions_exact [OF example_verified, of 100 7 example_accounts 101 id 7 "''t''" "''k''"]
      revoke_sessions_exact [OF example_verified, of 100 7 example_accounts 100 id 7 "''t''" "''k''"] ok none by simp
qed

section \<open>What a user can do without an administrator\<close>

text \<open>The steps anyone can take at the sign-in endpoints, at any time and with any input.\<close>

inductive self_step :: "identity_db \<Rightarrow> identity_db \<Rightarrow> bool" where
  step_login: "self_step db (fst (login env mail password db))"
| step_logout: "self_step db (logout uid jti db)"
| step_change: "changePassword env uid current new db = Inr (db', token) \<Longrightarrow> self_step db db'"
| step_forgot: "self_step db (forgotPassword env mail db)"
| step_reset: "resetPassword env token new db = Inr db' \<Longrightarrow> self_step db db'"

inductive self_service :: "identity_db \<Rightarrow> identity_db \<Rightarrow> bool" where
  self_done: "self_service db db"
| self_more: "self_service db db' \<Longrightarrow> self_step db' db'' \<Longrightarrow> self_service db db''"

inductive_cases self_stepE: "self_step db db'"
inductive_simps self_service_simp: "self_service db db'"

text \<open>A blocked account is locked or inactive; a step keeps every blocked account as it is.\<close>

definition blocked :: "identity_db \<Rightarrow> int \<Rightarrow> user_status \<Rightarrow> bool" where
  "blocked db uid s \<longleftrightarrow> (\<exists>u. getUserById db uid = Some u \<and> au_status u = s) \<and> \<not> can_sign_in s"

lemma blocked_update:
  assumes "blocked db uid s" "\<And>u. au_id (f u) = au_id u"
    "\<And>u. getUserById db uid = Some u \<Longrightarrow> w = uid \<Longrightarrow> au_status (f u) = au_status u"
  shows "blocked (update_user w f db) uid s"
  using assms by (auto simp: blocked_def)

lemma blocked_history [simp]: "blocked (recordLoginHistory db i mail ev) uid s = blocked db uid s"
  by (simp add: blocked_def)

lemma login_blocked:
  assumes "distinct (map au_id (db_users db))" "blocked db uid s"
  shows "blocked (fst (login env mail password db)) uid s"
proof -
  obtain u where u: "getUserById db uid = Some u" "au_status u = s" "\<not> can_sign_in s"
    using assms(2) by (auto simp: blocked_def)
  obtain db' res where r: "login env mail password db = (db', res)" by (cases "login env mail password db")
  note e = login_exact_lemma [OF assms(1) r]
  have "\<exists>u'. getUserById db' uid = Some u' \<and> au_status u' = s"
  proof (cases "getUserByEmail (e_collate env) db mail")
    case None
    then show ?thesis using e u by simp
  next
    case (Some w)
    then have w: "getUserById db (au_id w) = Some w"
      using getUserById_in [OF assms(1)] getUserByEmail_in by blast
    show ?thesis
    proof (cases "au_id w = uid")
      case True
      then have "w = u" using w u by simp
      then show ?thesis using e Some True u by (auto split: if_splits)
    next
      case False
      then show ?thesis using e Some u by simp
    qed
  qed
  then show ?thesis using r u(3) by (simp add: blocked_def)
qed

lemma from_pending_blocked: "\<not> can_sign_in s \<Longrightarrow> from_pending s = s"
  by (cases s) (simp_all add: can_sign_in_def from_pending_def)

lemma map_ids_update [simp]: "(\<And>u. au_id (f u) = au_id u) \<Longrightarrow> map au_id (db_users (update_user uid f db)) = map au_id (db_users db)"
  by (simp add: update_user_def map_update_where_key)

text \<open>What of an account decides who it is and what it may see: number, e-mail, primary role, salesperson, companies.\<close>

definition standing :: "app_user \<Rightarrow> int \<times> string \<times> int option \<times> int option \<times> string" where
  "standing u = (au_id u, au_email u, au_role u, au_salesperson_key u, au_company_scope u)"

lemma standing_update:
  assumes "\<And>u. standing (f u) = standing u"
  shows "map standing (db_users (update_user uid f db)) = map standing (db_users db)"
proof -
  have "map standing (update_where P f rs) = map standing rs" for P rs
    using assms by (induction rs) (simp_all add: update_where_def)
  then show ?thesis by (simp add: update_user_def)
qed

lemma standing_accounts [simp]:
  "standing (change_account env new u) = standing u" "standing (reset_account env new u) = standing u"
  by (simp_all add: standing_def change_account_def reset_account_def)

lemma standing_ids: "map standing us = map standing vs \<Longrightarrow> map au_id us = map au_id vs"
proof -
  assume a: "map standing us = map standing vs"
  have "au_id = fst \<circ> standing" by (simp add: fun_eq_iff standing_def)
  then show ?thesis using a by (metis list.map_comp)
qed

lemma standing_user:
  assumes "map standing (db_users db') = map standing (db_users db)" "getUserById db uid = Some u" "getUserById db' uid = Some u'"
  shows "standing u' = standing u"
proof -
  have "map_option standing (first_row (filter (\<lambda>u. au_id u = uid) us)) = map_option standing (first_row (filter (\<lambda>u. au_id u = uid) vs))"
    if "map standing us = map standing vs" for us vs
    using that
  proof (induction us arbitrary: vs)
    case (Cons x us)
    then obtain y ys where v: "vs = y # ys" "standing y = standing x" "map standing us = map standing ys" by (cases vs) auto
    then have "au_id y = au_id x" by (simp add: standing_def)
    then show ?case using Cons.IH [OF v(3)] v(1,2) by simp
  qed simp
  from this [OF assms(1)] show ?thesis using assms(2,3) by (simp add: getUserById_def)
qed

definition same_standing :: "identity_db \<Rightarrow> identity_db \<Rightarrow> bool" where
  "same_standing db db' \<longleftrightarrow> same_grants db db' \<and> db_user_tier db' = db_user_tier db \<and>
     map standing (db_users db') = map standing (db_users db)"

lemma login_standing: "same_standing db (fst (login env mail password db))"
proof -
  have "map standing (db_users (fst (login env mail password db))) = map standing (db_users db)"
    by (simp add: login_def Let_def standing_update standing_def split: option.split)
  moreover have "db_user_tier (fst (login env mail password db)) = db_user_tier db"
    by (simp add: login_def Let_def split: option.split)
  ultimately show ?thesis by (simp add: same_standing_def login_same_grants)
qed

lemma self_step_keeps:
  assumes "self_step db db'" "distinct (map au_id (db_users db))"
  shows "same_standing db db' \<and> (blocked db uid s \<longrightarrow> blocked db' uid s)"
  using assms(1)
proof (cases rule: self_step.cases)
  case (step_login env mail password)
  then show ?thesis using login_standing login_blocked [OF assms(2)] by metis
next
  case (step_logout w jti)
  then show ?thesis by (simp add: logout_def same_standing_def same_grants_def blocked_def getUserById_def Let_def recordLoginHistory_def)
next
  case (step_change env w current new token)
  then obtain u where "getUserById db w = Some u"
    "db' = recordLoginHistory (update_user w (change_account env new) db)
       (Some w) (au_email u) PASSWORD_CHANGED"
    by (auto simp: changePassword_def Let_def split: option.splits if_splits)
  then show ?thesis by (auto simp: blocked_def from_pending_blocked same_standing_def standing_update)
next
  case (step_forgot env mail)
  show ?thesis
    unfolding step_forgot forgotPassword_def by (auto simp: blocked_def same_standing_def standing_update standing_def split: option.split)
next
  case (step_reset env token new)
  then obtain u where "first_row (filter (live_reset env token) (db_users db)) = Some u"
    "db' = recordLoginHistory (update_user (au_id u) (reset_account env new) db)
       (Some (au_id u)) (au_email u) PASSWORD_RESET_COMPLETED"
    by (auto simp: resetPassword_def Let_def split: option.splits)
  then show ?thesis by (auto simp: blocked_def from_pending_blocked same_standing_def standing_update)
qed

lemma self_service_keeps:
  assumes "self_service db db'" "distinct (map au_id (db_users db))"
  shows "same_standing db db' \<and> (blocked db uid s \<longrightarrow> blocked db' uid s)"
  using assms
proof (induction rule: self_service.induct)
  case (self_more db db' db'')
  then have m: "map standing (db_users db') = map standing (db_users db)" by (simp add: same_standing_def)
  then have d: "distinct (map au_id (db_users db'))" using standing_ids [OF m] self_more.prems by simp
  show ?case
    using self_step_keeps [OF self_more.hyps(2) d, of uid s] self_more same_grants_trans [of db db' db'']
    by (auto simp: same_standing_def)
qed (simp add: same_standing_def)

text \<open>C4. Without an administrator nobody gains access: after any sequence of sign-ins, failed sign-ins,
sign-outs, password changes, reset requests and resets, every account keeps its number, e-mail, primary role,
salesperson and companies, nobody's roles, scope rules or tier change, every user's effective permissions (by the
primary role stored then) are those of before, and an account that was locked or inactive still is, so every token of
it is refused.\<close>

theorem self_service_gains_nothing:
  assumes "self_service db db'" and "distinct (map au_id (db_users db))"
  shows "map standing (db_users db') = map standing (db_users db) \<and> db_user_roles db' = db_user_roles db \<and>
    db_scope db' = db_scope db \<and> db_user_tier db' = db_user_tier db \<and>
    (\<forall>u u'. getUserById db uid = Some u \<longrightarrow> getUserById db' uid = Some u' \<longrightarrow>
      getEffectivePermissions collate db' uid (au_role u') = getEffectivePermissions collate db uid (au_role u)) \<and>
    (blocked db uid s \<longrightarrow> blocked db' uid s \<and>
      (\<forall>h v. verifyAccessToken decode h = Some v \<and> vt_user v = Fin (of_int uid) \<longrightarrow> refuses collate decode db' h))"
proof -
  have k: "same_grants db db'" "db_user_tier db' = db_user_tier db" "map standing (db_users db') = map standing (db_users db)"
    "blocked db uid s \<longrightarrow> blocked db' uid s"
    using self_service_keeps [OF assms, of uid s] by (simp_all add: same_standing_def)
  have "getEffectivePermissions collate db' uid (au_role u') = getEffectivePermissions collate db uid (au_role u)"
    if "getUserById db uid = Some u" "getUserById db' uid = Some u'" for u u'
    using standing_user [OF k(3) that] same_grants_permissions [OF k(1)] by (simp add: standing_def)
  moreover have "refuses collate decode db' h" if "blocked db' uid s" "verifyAccessToken decode h = Some v"
    "vt_user v = Fin (of_int uid)" for h v
    using that(1) unfolding requireAuth_verified [OF that(2)] that(3) user_by_number_int by (auto simp: blocked_def)
  ultimately show ?thesis using k by (auto simp: same_grants_def)
qed

theorem self_service_gains_nothing_witness:
  "map standing (db_users (logout 7 ''j'' (fst (login example_env ''a@b.c'' ''right'' example_accounts)))) =
   map standing (db_users example_accounts)"
  using self_service_gains_nothing [OF self_more [OF self_more [OF self_done step_login] step_logout] example_accounts_distinct]
  by blast

text \<open>C18. A reset link works once and only while it is live: a reset with it needs a live link and a password
that meets the policy; it stores the hash of the new password, ends the forced change, refuses every
token issued before, leaves a locked account locked, and the link is invalid from then on.\<close>

theorem reset_password_once:
  assumes "distinct (map au_id (db_users db))" and "resetPassword env link new db = Inr db'"
    and "\<forall>u \<in> set (db_users db). \<forall>w \<in> set (db_users db).
       au_reset_hash u = au_reset_hash w \<and> au_reset_hash u \<noteq> None \<longrightarrow> au_id u = au_id w"
  shows "validatePasswordPolicy new = None \<and>
    (\<exists>u. u \<in> set (db_users db) \<and> au_reset_hash u = Some (e_reset_hash env link) \<and>
      (\<exists>t. au_reset_expires u = Some t \<and> e_now env < t) \<and>
      (\<exists>w. getUserById db' (au_id u) = Some w \<and> au_password_hash w = e_hash env (to_string new) \<and>
         \<not> au_must_change w \<and> au_sessions_revoked w = Some (e_now env) \<and> can_sign_in (au_status w) = can_sign_in (au_status u))) \<and>
    (\<forall>later new'. e_reset_hash later = e_reset_hash env \<longrightarrow>
       (\<exists>m. resetPassword later link new' db' = Inl (InvalidCredentialsError m)))"
proof -
  obtain u where u: "first_row (filter (live_reset env link) (db_users db)) = Some u"
    and pol: "validatePasswordPolicy new = None"
    and db': "db_users db' = db_users (update_user (au_id u) (reset_account env new) db)"
    using assms(2) by (auto simp: resetPassword_def Let_def split: option.splits)
  have live: "u \<in> set (db_users db)" "live_reset env link u" using first_row_Some [OF u] by auto
  then have h: "au_reset_hash u = Some (e_reset_hash env link)" "\<exists>t. au_reset_expires u = Some t \<and> e_now env < t"
    by (auto simp: live_reset_def split: option.splits)
  have get: "getUserById db' = getUserById (db\<lparr>db_users := db_users db'\<rparr>)" by (intro ext) (simp add: getUserById_def)
  have uid: "getUserById db (au_id u) = Some u" by (rule getUserById_in [OF assms(1) live(1)])
  have sign: "can_sign_in (from_pending s) = can_sign_in s" for s by (cases s) (simp_all add: can_sign_in_def from_pending_def)
  have "getUserById db' v = getUserById (update_user (au_id u) (reset_account env new) db) v" for v
    by (simp only: getUserById_def db')
  then have w: "\<exists>w. getUserById db' (au_id u) = Some w \<and> au_password_hash w = e_hash env (to_string new) \<and>
      \<not> au_must_change w \<and> au_sessions_revoked w = Some (e_now env) \<and> can_sign_in (au_status w) = can_sign_in (au_status u)"
    using uid by (simp add: sign) (simp add: reset_account_def)
  have gone: "\<not> live_reset later link w" if "w \<in> set (db_users db')" "e_reset_hash later = e_reset_hash env" for later w
  proof (cases "w \<in> set (db_users db) \<and> au_id w \<noteq> au_id u")
    case True
    then have "au_reset_hash w \<noteq> Some (e_reset_hash env link)" using assms(3) live(1) h(1) by (metis option.distinct(1))
    then show ?thesis using that(2) by (simp add: live_reset_def)
  next
    case False
    then have "au_reset_hash w = None" using that(1) by (auto simp: db' update_user_def set_update_where reset_account_def)
    then show ?thesis by (simp add: live_reset_def)
  qed
  have "resetPassword later link new' db' = Inl (InvalidCredentialsError ''This reset link is invalid or has expired.'')"
    if "e_reset_hash later = e_reset_hash env" for later new'
  proof -
    have "filter (live_reset later link) (db_users db') = []" using gone that by (simp add: filter_empty_conv)
    then show ?thesis by (simp add: resetPassword_def)
  qed
  then show ?thesis using pol live(1) h w by blast
qed

theorem reset_password_once_witness:
  "\<exists>db' m. resetPassword example_env ''link'' (JStr ''abcdefg1'') example_accounts = Inr db' \<and>
     resetPassword example_env ''link'' (JStr ''abcdefg1'') db' = Inl (InvalidCredentialsError m)"
proof -
  have "is_ok (resetPassword example_env ''link'' (JStr ''abcdefg1'') example_accounts)"
    by code_simp
  then obtain db' where r: "resetPassword example_env ''link'' (JStr ''abcdefg1'') example_accounts = Inr db'"
    by (auto simp: is_ok_iff)
  have "\<forall>u \<in> set (db_users example_accounts). \<forall>w \<in> set (db_users example_accounts).
       au_reset_hash u = au_reset_hash w \<and> au_reset_hash u \<noteq> None \<longrightarrow> au_id u = au_id w"
    by (simp add: example_accounts_def)
  from reset_password_once [OF example_accounts_distinct r this] r show ?thesis by blast
qed

section \<open>Properties of temporary passwords and of the last admin\<close>

text \<open>A generated temporary password of at least eight characters meets the policy exactly when one of the
random characters before the last is a letter, and there are random bytes for which none is: the
generator's last digit guarantees the number but nothing guarantees the letter.\<close>

theorem temp_password_policy:
  "(8 \<le> length bytes \<and> digit < 10 \<longrightarrow>
     (validatePasswordPolicy (JStr (generateTempPassword bytes digit)) = None \<longleftrightarrow>
      (\<exists>b \<in> set (butlast bytes). is_letter (TEMP_PASSWORD_ALPHABET ! (b mod length TEMP_PASSWORD_ALPHABET))))) \<and>
   (\<exists>bs d. length bs = 12 \<and> (\<forall>b \<in> set bs. b < 256) \<and> d < 10 \<and>
      validatePasswordPolicy (JStr (generateTempPassword bs d)) \<noteq> None)"
proof
  let ?c = "\<lambda>b. TEMP_PASSWORD_ALPHABET ! (b mod length TEMP_PASSWORD_ALPHABET)"
  have g: "generateTempPassword bytes digit = map ?c (butlast bytes) @ [digit_char digit]"
    by (simp add: generateTempPassword_def map_butlast)
  show "8 \<le> length bytes \<and> digit < 10 \<longrightarrow>
     (validatePasswordPolicy (JStr (generateTempPassword bytes digit)) = None \<longleftrightarrow>
      (\<exists>b \<in> set (butlast bytes). is_letter (?c b)))"
  proof
    assume l: "8 \<le> length bytes \<and> digit < 10"
    have nl: "\<not> is_letter (digit_char digit)"
      using is_digit_digit_char [of digit] l by (auto simp: is_letter_def is_digit_def is_upper_def is_lower_def)
    have "length (generateTempPassword bytes digit) = length bytes" using l unfolding g by (cases bytes) auto
    then show "validatePasswordPolicy (JStr (generateTempPassword bytes digit)) = None \<longleftrightarrow>
        (\<exists>b \<in> set (butlast bytes). is_letter (?c b))"
      using l nl by (auto simp: validatePasswordPolicy_def) (auto simp: g list_ex_iff)
  qed
  have "validatePasswordPolicy (JStr (generateTempPassword (replicate 12 48) 3)) \<noteq> None" by code_simp
  then show "\<exists>bs d. length bs = 12 \<and> (\<forall>b \<in> set bs. b < 256) \<and> d < 10 \<and>
      validatePasswordPolicy (JStr (generateTempPassword bs d)) \<noteq> None"
    by (intro exI [of _ "replicate 12 48"] exI [of _ 3]) auto
qed

theorem temp_password_policy_witness:
  "validatePasswordPolicy (JStr (generateTempPassword [0, 1, 2, 3, 4, 5, 6, 7] 5)) = None"
proof -
  have "is_letter (TEMP_PASSWORD_ALPHABET ! (0 mod length TEMP_PASSWORD_ALPHABET))" by code_simp
  then show ?thesis using temp_password_policy [of "[0, 1, 2, 3, 4, 5, 6, 7]" 5] by auto
qed

text \<open>C35. The last active Admin: an administrator can neither lock nor disable that account, but enough wrong
passwords at the sign-in endpoint lock it, after which no account that can sign in holds the Admin role.\<close>

theorem last_admin_guard_bypassed:
  assumes "distinct (map au_id (db_users db))" and "getUserByEmail (e_collate env) db mail = Some u"
    and "userHoldsAdmin (e_collate env) db (au_id u)" and "countOtherActiveAdmins (e_collate env) db (au_id u) = 0"
    and "can_sign_in (au_status u)" and "e_lock_threshold env \<le> au_failed u + 1"
    and "\<not> e_verify env password (au_password_hash u)"
  shows "(\<exists>m. setUserStatus (e_collate env) (au_id u) LOCKED db = Inl (ValidationError m)) \<and>
    (\<exists>m. setUserStatus (e_collate env) (au_id u) INACTIVE db = Inl (ValidationError m)) \<and>
    blocked (fst (login env mail password db)) (au_id u) LOCKED"
proof -
  obtain db' res where r: "login env mail password db = (db', res)" by (cases "login env mail password db")
  have "getUserById db' (au_id u) = Some (u\<lparr>au_failed := au_failed u + 1, au_status := LOCKED\<rparr>)"
    using login_exact_lemma [OF assms(1) r] assms by simp
  then show ?thesis
    using assms(3,4) r by (simp add: setUserStatus_def assertCanDeactivate_def blocked_def can_sign_in_def)
qed

theorem last_admin_guard_bypassed_witness:
  "blocked (fst (login example_env ''a@b.c'' ''wrong''
     (example_accounts\<lparr>db_roles := [\<lparr>r_id = 2, r_name = ''ADMIN'', r_label = ''Admin'', r_description = None,
        r_system = True, r_tier = None, r_created_by = None\<rparr>]\<rparr>))) 7 LOCKED"
proof -
  let ?db = "example_accounts\<lparr>db_roles := [\<lparr>r_id = 2, r_name = ''ADMIN'', r_label = ''Admin'', r_description = None,
        r_system = True, r_tier = None, r_created_by = None\<rparr>]\<rparr>"
  have "userHoldsAdmin id ?db 7" "countOtherActiveAdmins id ?db 7 = 0" by code_simp+
  moreover have "getUserByEmail id ?db ''a@b.c'' = Some example_account"
    by (simp add: getUserByEmail_def example_accounts_def example_account_def)
  moreover have "distinct (map au_id (db_users ?db))" using example_accounts_distinct by simp
  ultimately show ?thesis
    using last_admin_guard_bypassed [of ?db example_env "''a@b.c''" example_account "''wrong''"]
    by (simp add: example_env_def example_account_def can_sign_in_def)
qed

end
