(* ===== verification/Roles.thy ===== *)
theory Roles
  imports Accounts
begin

text \<open>
  Business roles (\<open>backend/src/services/roleService.ts\<close>): creating, editing, duplicating and deleting a
  role, its page permissions, and which roles a user holds. A service maps the identity tables to the new
  tables or an error; a transaction that throws leaves the tables as they were. The Unicode normalisation
  of a label and the collation of the database are parameters.
\<close>

section \<open>Permission sets\<close>

type_synonym role_permission_set = "(string \<times> perm_action list) list"

datatype role_error = Invalid string | RoleInUseError nat | TypeError

definition fullPermissionSet :: role_permission_set where
  "fullPermissionSet = map (\<lambda>e. (re_key e, re_actions e)) PERMISSION_REGISTRY"

definition object_entries :: "jsval \<Rightarrow> (string \<times> jsval) list" where
  "object_entries v = (case v of JObj kvs \<Rightarrow> kvs | _ \<Rightarrow> [])"

fun string_items :: "jsval list \<Rightarrow> string list" where
  "string_items [] = []"
| "string_items (JStr s # vs) = s # string_items vs"
| "string_items (_ # vs) = string_items vs"

definition normalize_entry :: "bool \<Rightarrow> string \<Rightarrow> jsval \<Rightarrow> role_permission_set" where
  "normalize_entry dropViewless k v =
     (case v of
        JArr vs \<Rightarrow>
          (let actions = string_items vs; normalized = normalizePageActions k actions in
           if dropViewless \<and> ''view'' \<notin> set actions then []
           else if normalized \<noteq> [] then [(k, normalized)] else [])
      | _ \<Rightarrow> [])"

definition normalizePermissionSet :: "bool \<Rightarrow> (string \<times> jsval) list \<Rightarrow> role_permission_set" where
  "normalizePermissionSet dropViewless input = concat (map (\<lambda>(k, v). normalize_entry dropViewless k v) input)"

definition actions_at :: "role_permission_set \<Rightarrow> string \<Rightarrow> perm_action list" where
  "actions_at ps k = (case map_of ps k of None \<Rightarrow> [] | Some as \<Rightarrow> as)"

definition samePermissionSets :: "role_permission_set \<Rightarrow> role_permission_set \<Rightarrow> bool" where
  "samePermissionSets a b = list_all (\<lambda>k. sort (actions_at a k) = sort (actions_at b k)) (dedup (map fst a @ map fst b))"

section \<open>Reading\<close>

definition is_admin :: "role_row \<Rightarrow> bool" where
  "is_admin r = (r_name r = ADMIN_ROLE_NAME)"

definition push_action :: "string \<times> perm_action \<Rightarrow> (string \<times> jsval) list \<Rightarrow> (string \<times> jsval) list" where
  "push_action ka raw =
     AList.update (fst ka)
       (JArr ((case map_of raw (fst ka) of Some (JArr vs) \<Rightarrow> vs | _ \<Rightarrow> []) @ [JStr (action_name (snd ka))])) raw"

definition stored_permission_rows :: "identity_db \<Rightarrow> int \<Rightarrow> (string \<times> perm_action) list" where
  "stored_permission_rows db role =
     concat (map (\<lambda>rp. permission_pages db (rp_permission rp))
       (filter (\<lambda>rp. rp_role rp = role \<and> rp_allowed rp) (db_role_permissions db)))"

definition getRolePermissionSet :: "identity_db \<Rightarrow> int \<Rightarrow> role_permission_set" where
  "getRolePermissionSet db role =
     (case getRoleById db role of
        Some r \<Rightarrow> if is_admin r then fullPermissionSet
          else normalizePermissionSet True (fold push_action (stored_permission_rows db role) [])
      | None \<Rightarrow> normalizePermissionSet True (fold push_action (stored_permission_rows db role) []))"

section \<open>Validation\<close>

definition cleanLabel :: "jsval \<Rightarrow> role_error + string" where
  "cleanLabel label =
     (case label of
        JStr s \<Rightarrow>
          (let trimmed = squeeze_spaces (trim s) in
           if length trimmed < 2 \<or> length trimmed > 60 then Inl (Invalid ''Role name must be 2-60 characters.'')
           else Inr trimmed)
      | _ \<Rightarrow> Inl (Invalid ''Role name is required.''))"

definition cleanDescription :: "jsval \<Rightarrow> role_error + string option" where
  "cleanDescription description =
     (case description of
        JStr s \<Rightarrow>
          (let trimmed = trim s in
           if length trimmed > 500 then Inl (Invalid ''Description must be 500 characters or fewer.'')
           else Inr (if trimmed = [] then None else Some trimmed))
      | v \<Rightarrow> if nullish v then Inr None else Inl (Invalid ''Description must be text.''))"

definition assertLabelFree ::
  "(string \<Rightarrow> string) \<Rightarrow> identity_db \<Rightarrow> string \<Rightarrow> int option \<Rightarrow> role_error + unit" where
  "assertLabelFree collate db label except =
     ensure (\<not> list_ex (\<lambda>r. collate (r_label r) = collate label \<and>
         r_id r \<noteq> (case except of None \<Rightarrow> 0 | Some i \<Rightarrow> i)) (db_roles db))
       (Invalid ''A role with this name already exists.'')"

definition assertTier :: "(string \<Rightarrow> string) \<Rightarrow> identity_db \<Rightarrow> jsval \<Rightarrow> role_error + string" where
  "assertTier collate db tier =
     (case tier of
        JStr t \<Rightarrow>
          if t = [] then Inl (Invalid ''A data-scope tier is required.'')
          else if list_ex (\<lambda>c. collate c = collate t) (db_tiers db) then Inr t
          else Inl (Invalid ''Unknown data-scope tier'')
      | _ \<Rightarrow> Inl (Invalid ''A data-scope tier is required.''))"

text \<open>\<open>replace(/[^A-Z0-9]+/g, '_')\<close> and the removal of underscores at both ends.\<close>

definition is_code_char :: "char \<Rightarrow> bool" where
  "is_code_char c = (is_upper c \<or> is_digit c)"

fun slug_chars :: "string \<Rightarrow> string" where
  "slug_chars [] = []"
| "slug_chars [c] = [if is_code_char c then c else CHR ''_'']"
| "slug_chars (c # d # s) =
     (if is_code_char c then c # slug_chars (d # s)
      else if is_code_char d then CHR ''_'' # slug_chars (d # s)
      else slug_chars (d # s))"

definition strip_underscores :: "string \<Rightarrow> string" where
  "strip_underscores s =
     rev (dropWhile (\<lambda>c. c = CHR ''_'') (rev (dropWhile (\<lambda>c. c = CHR ''_'') s)))"

definition roleCodeFromLabel :: "(string \<Rightarrow> string) \<Rightarrow> string \<Rightarrow> string" where
  "roleCodeFromLabel nfkd label =
     (let slug = take 24 (strip_underscores (slug_chars (nfkd (to_upper label))))
      in ''C_'' @ (if slug = [] then ''ROLE'' else slug))"

definition code_candidate :: "string \<Rightarrow> nat \<Rightarrow> string" where
  "code_candidate base i = (if i = 1 then base else take 26 base @ ''_'' @ dec_digits i)"

definition uniqueRoleCode ::
  "(string \<Rightarrow> string) \<Rightarrow> (string \<Rightarrow> string) \<Rightarrow> identity_db \<Rightarrow> string \<Rightarrow> role_error + string" where
  "uniqueRoleCode collate nfkd db label =
     (case List.find (\<lambda>i. \<not> list_ex (\<lambda>r. collate (r_name r) = collate (code_candidate (roleCodeFromLabel nfkd label) i))
             (db_roles db)) [1..<1000] of
        None \<Rightarrow> Inl (Invalid ''Could not generate a unique role code.'')
      | Some i \<Rightarrow> Inr (code_candidate (roleCodeFromLabel nfkd label) i))"

section \<open>Writing\<close>

definition ROLE_ENTITY :: string where
  "ROLE_ENTITY = ''role''"

definition USER_ROLES_ENTITY :: string where
  "USER_ROLES_ENTITY = ''user_roles''"

definition writePermissionSet :: "identity_db \<Rightarrow> int \<Rightarrow> role_permission_set \<Rightarrow> identity_db" where
  "writePermissionSet db role permissions =
     (let cleared = delete_where (\<lambda>rp. rp_role rp = role) (db_role_permissions db);
          pairs = concat (map (\<lambda>(k, as). map (Pair k) as) permissions);
          ids = map p_id (filter (\<lambda>p. list_ex (\<lambda>pg. pg_id pg = p_page p \<and> (pg_key pg, p_action p) \<in> set pairs)
             (db_pages db)) (db_permissions db))
      in db\<lparr>db_role_permissions := cleared @
           (if pairs = [] then [] else map (\<lambda>i. \<lparr>rp_role = role, rp_permission = i, rp_allowed = True\<rparr>) ids)\<rparr>)"

record role_input =
  ri_label :: jsval
  ri_description :: jsval
  ri_tier :: jsval
  ri_permissions :: jsval

definition createRole ::
  "(string \<Rightarrow> string) \<Rightarrow> (string \<Rightarrow> string) \<Rightarrow> role_input \<Rightarrow> int \<Rightarrow> identity_db \<Rightarrow> role_error + (identity_db \<times> int)" where
  "createRole collate nfkd input actor db =
     rbind (cleanLabel (ri_label input)) (\<lambda>label.
     rbind (cleanDescription (ri_description input)) (\<lambda>description.
       let permissions = normalizePermissionSet False (object_entries (ri_permissions input)) in
     rbind (assertLabelFree collate db label None) (\<lambda>_.
     rbind (assertTier collate db (if nullish (ri_tier input) then JStr ''BI00_EXECUTIVE'' else ri_tier input)) (\<lambda>tier.
     rbind (uniqueRoleCode collate nfkd db label) (\<lambda>code.
       let rid = next_id (map r_id (db_roles db));
           row = \<lparr>r_id = rid, r_name = code, r_label = label, r_description = description, r_system = False,
             r_tier = Some tier, r_created_by = Some actor\<rparr>;
           db1 = writePermissionSet (db\<lparr>db_roles := db_roles db @ [row]\<rparr>) rid permissions
       in Inr (writeAuditLog db1 ROLE_ENTITY rid AUDIT_CREATE (Some actor), rid))))))"

definition jstring_option :: "string option \<Rightarrow> jsval" where
  "jstring_option s = (case s of None \<Rightarrow> JNull | Some t \<Rightarrow> JStr t)"

text \<open>The transaction of an edit, after validation.\<close>

definition apply_role_update ::
  "int \<Rightarrow> role_row \<Rightarrow> string \<Rightarrow> string option \<Rightarrow> string \<Rightarrow> role_permission_set option \<Rightarrow> int \<Rightarrow> identity_db \<Rightarrow> identity_db" where
  "apply_role_update rid prior label description tier permissions actor db =
     (let db1 = db\<lparr>db_roles := update_where (\<lambda>r. r_id r = rid)
             (\<lambda>r. r\<lparr>r_label := label, r_description := description, r_tier := Some tier\<rparr>) (db_roles db)\<rparr>;
          db2 = (case permissions of None \<Rightarrow> db1 | Some ps \<Rightarrow> writePermissionSet db1 rid ps);
          db3 = (if Some tier \<noteq> r_tier prior
             then fold (\<lambda>u. syncRoleTierAssignment (au_id u) (Some tier))
               (filter (\<lambda>u. au_role u = Some rid) (db_users db2)) db2
             else db2)
      in writeAuditLog db3 ROLE_ENTITY rid AUDIT_UPDATE (Some actor))"

definition updateRole ::
  "(string \<Rightarrow> string) \<Rightarrow> int \<Rightarrow> role_input \<Rightarrow> int \<Rightarrow> identity_db \<Rightarrow> role_error + identity_db" where
  "updateRole collate rid input actor db =
     (case getRoleById db rid of
        None \<Rightarrow> Inl (Invalid ''Role not found.'')
      | Some prior \<Rightarrow>
     rbind (if ri_label input = JUndef then Inr (r_label prior) else cleanLabel (ri_label input)) (\<lambda>label.
     rbind (if ri_description input = JUndef then Inr (r_description prior) else cleanDescription (ri_description input)) (\<lambda>description.
       let given = (ri_permissions input \<noteq> JUndef);
           old = getRolePermissionSet db rid;
           permissions = (if given then normalizePermissionSet False (object_entries (ri_permissions input)) else old);
           tierInput = (if ri_tier input = JUndef then jstring_option (r_tier prior) else ri_tier input) in
     rbind (if is_admin prior then
              rbind (ensure (label = r_label prior) (Invalid ''The Admin role cannot be renamed.'')) (\<lambda>_.
              rbind (ensure (samePermissionSets permissions old)
                (Invalid ''The Admin role's permissions cannot be changed: it always has full access.'')) (\<lambda>_.
              ensure (tierInput = jstring_option (r_tier prior))
                (Invalid ''The Admin role's data scope cannot be changed.'')))
            else Inr ()) (\<lambda>_.
     rbind (if label \<noteq> r_label prior then assertLabelFree collate db label (Some rid) else Inr ()) (\<lambda>_.
     rbind (assertTier collate db tierInput) (\<lambda>tier.
       Inr (apply_role_update rid prior label description tier
         (if \<not> is_admin prior \<and> given then Some permissions else None) actor db)))))))"

definition copy_candidate :: "string \<Rightarrow> nat \<Rightarrow> string" where
  "copy_candidate label i =
     (let suffix = (if i = 1 then '' (copy)'' else '' (copy '' @ dec_digits i @ '')'')
      in take (60 - length suffix) label @ suffix)"

definition copyLabel :: "(string \<Rightarrow> string) \<Rightarrow> identity_db \<Rightarrow> string \<Rightarrow> role_error + string" where
  "copyLabel collate db label =
     (case List.find (\<lambda>i. \<not> list_ex (\<lambda>r. collate (r_label r) = collate (copy_candidate label i)) (db_roles db)) [1..<1000] of
        None \<Rightarrow> Inl (Invalid ''Could not find a free name for the copy.'')
      | Some i \<Rightarrow> Inr (copy_candidate label i))"

definition permission_input :: "role_permission_set \<Rightarrow> jsval" where
  "permission_input ps = JObj (map (\<lambda>(k, as). (k, JArr (map (\<lambda>a. JStr (action_name a)) as))) ps)"

definition duplicateRole ::
  "(string \<Rightarrow> string) \<Rightarrow> (string \<Rightarrow> string) \<Rightarrow> int \<Rightarrow> int \<Rightarrow> identity_db \<Rightarrow> role_error + (identity_db \<times> int)" where
  "duplicateRole collate nfkd source actor db =
     (case getRoleById db source of
        None \<Rightarrow> Inl (Invalid ''Role not found.'')
      | Some r \<Rightarrow>
     rbind (copyLabel collate db (r_label r)) (\<lambda>label.
     rbind (createRole collate nfkd \<lparr>ri_label = JStr label, ri_description = jstring_option (r_description r),
         ri_tier = (case r_tier r of None \<Rightarrow> JStr ''BI00_EXECUTIVE'' | Some t \<Rightarrow> JStr t),
         ri_permissions = permission_input (getRolePermissionSet db source)\<rparr> actor db) (\<lambda>(db1, rid).
       Inr (db1\<lparr>db_scope := fold insert_ignore
          (map (\<lambda>s. s\<lparr>t_role_id := rid\<rparr>) (filter (\<lambda>s. t_role_id s = source) (db_scope db1))) (db_scope db1)\<rparr>, rid))))"

text \<open>Deleting; \<open>replacement!\<close> on a missing replacement is a \<open>TypeError\<close>.\<close>

definition move_user :: "int \<Rightarrow> int \<Rightarrow> int \<Rightarrow> identity_db \<Rightarrow> identity_db" where
  "move_user rid target uid db =
     (let db1 = insert_user_role uid target db
      in db1\<lparr>db_user_roles := delete_where (\<lambda>ur. ur = (uid, rid)) (db_user_roles db1)\<rparr>)"

definition move_primary :: "role_row \<Rightarrow> int \<Rightarrow> identity_db \<Rightarrow> identity_db" where
  "move_primary target uid db =
     syncRoleTierAssignment uid (r_tier target) (update_user uid (\<lambda>u. u\<lparr>au_role := Some (r_id target)\<rparr>) db)"

definition erase_role :: "int \<Rightarrow> identity_db \<Rightarrow> identity_db" where
  "erase_role rid db =
     db\<lparr>db_role_permissions := delete_where (\<lambda>rp. rp_role rp = rid) (db_role_permissions db),
        db_scope := delete_where (\<lambda>s. t_role_id s = rid) (db_scope db),
        db_roles := delete_where (\<lambda>r. r_id r = rid) (db_roles db)\<rparr>"

definition deleteRole ::
  "int \<Rightarrow> int option \<Rightarrow> int \<Rightarrow> identity_db \<Rightarrow> role_error + identity_db" where
  "deleteRole rid replacementId actor db =
     (case getRoleById db rid of
        None \<Rightarrow> Inl (Invalid ''Role not found.'')
      | Some role \<Rightarrow>
          if r_system role then Inl (Invalid ''Built-in roles cannot be deleted.'')
          else
            (let users = map fst (filter (\<lambda>ur. snd ur = rid) (db_user_roles db)) in
             rbind (if users = [] then Inr None
                    else case replacementId of
                      None \<Rightarrow> Inl (RoleInUseError (length users))
                    | Some i \<Rightarrow>
                        if i = rid then Inl (Invalid ''The replacement role must be a different role.'')
                        else (case getRoleById db i of
                          None \<Rightarrow> Inl (Invalid ''Replacement role not found.'')
                        | Some r \<Rightarrow> Inr (Some r))) (\<lambda>replacement.
               let primaries = map au_id (filter (\<lambda>u. au_role u = Some rid) (db_users db)) in
               case replacement of
                 None \<Rightarrow>
                   if primaries \<noteq> [] then Inl TypeError
                   else Inr (writeAuditLog (erase_role rid db) ROLE_ENTITY rid AUDIT_DELETE (Some actor))
               | Some target \<Rightarrow>
                   (let db1 = fold (move_user rid (r_id target)) users db;
                        db2 = fold (move_primary target) primaries db1
                    in Inr (writeAuditLog (erase_role rid db2) ROLE_ENTITY rid AUDIT_DELETE (Some actor))))))"

section \<open>The roles of a user\<close>

definition setUserRoles ::
  "(string \<Rightarrow> string) \<Rightarrow> int \<Rightarrow> int list \<Rightarrow> int option \<Rightarrow> int option \<Rightarrow> identity_db \<Rightarrow> role_error + identity_db" where
  "setUserRoles collate uid roleIds actor primaryRoleId db =
     (let ids = dedup (filter (\<lambda>n. n > 0) roleIds) in
     rbind (ensure (ids \<noteq> []) (Invalid ''A user needs at least one role.'')) (\<lambda>_.
       let found = filter (\<lambda>r. r_id r \<in> set ids) (db_roles db) in
     rbind (ensure (length found = length ids) (Invalid ''Unknown role.'')) (\<lambda>_.
     (case getUserById db uid of
        None \<Rightarrow> Inl (Invalid ''User not found.'')
      | Some user \<Rightarrow>
          (let beforeIds = getUserRoleIds db uid; admin = adminRoleId collate db in
     rbind (ensure (\<not> (case admin of None \<Rightarrow> False
               | Some a \<Rightarrow> a \<in> set beforeIds \<and> a \<notin> set ids \<and> countOtherActiveAdmins collate db uid = 0))
         (Invalid ''This is the last active Admin. Assign the Admin role to another user first.'')) (\<lambda>_.
     rbind (case primaryRoleId of
              Some p \<Rightarrow> if p \<notin> set ids then Inl (Invalid ''The primary role must be one of the assigned roles.'') else Inr p
            | None \<Rightarrow> Inr (case au_role user of Some r \<Rightarrow> if r \<in> set ids then r else hd ids | None \<Rightarrow> hd ids)) (\<lambda>primary.
       let tier = (case List.find (\<lambda>r. r_id r = primary) found of None \<Rightarrow> None | Some r \<Rightarrow> r_tier r);
           db1 = db\<lparr>db_user_roles := delete_where (\<lambda>ur. fst ur = uid \<and> snd ur \<notin> set ids) (db_user_roles db)\<rparr>;
           db2 = fold (insert_user_role uid) ids db1;
           db3 = syncRoleTierAssignment uid tier (update_user uid (\<lambda>u. u\<lparr>au_role := Some primary\<rparr>) db2)
       in Inr (if sort beforeIds \<noteq> sort ids \<or> au_role user \<noteq> Some primary
               then writeAuditLog db3 USER_ROLES_ENTITY uid AUDIT_UPDATE actor else db3))))))))"

section \<open>Facts about permission sets\<close>

lemma string_items_names [simp]: "string_items (map (\<lambda>a. JStr (f a)) as) = map f as"
  by (induction as) simp_all

lemma normalizePermissionSet_simps [simp]:
  "normalizePermissionSet dv [] = []"
  "normalizePermissionSet dv (kv # input) = normalize_entry dv (fst kv) (snd kv) @ normalizePermissionSet dv input"
  by (simp_all add: normalizePermissionSet_def case_prod_beta)

lemma normalize_entry_cases:
  "normalize_entry dv k v = [] \<or>
   (\<exists>vs. v = JArr vs \<and> normalize_entry dv k v = [(k, normalizePageActions k (string_items vs))])"
  by (cases v) (auto simp: normalize_entry_def Let_def)

lemma normalize_keys_subset: "fst ` set (normalizePermissionSet dv input) \<subseteq> fst ` set input"
proof (induction input)
  case (Cons kv input)
  then show ?case using normalize_entry_cases [of dv "fst kv" "snd kv"] by auto
qed simp

lemma map_of_normalize:
  "distinct (map fst input) \<Longrightarrow>
   map_of (normalizePermissionSet dv input) k =
     (case map_of input k of None \<Rightarrow> None | Some v \<Rightarrow> map_of (normalize_entry dv k v) k)"
proof (induction input)
  case (Cons kv input)
  obtain j v where kv: "kv = (j, v)" by (cases kv)
  have "map_of (normalizePermissionSet dv input) j = None"
    using Cons.prems normalize_keys_subset [of dv input] by (auto simp: kv map_of_eq_None_iff)
  moreover have "k \<noteq> j \<Longrightarrow> map_of (normalize_entry dv j v) k = None"
    using normalize_entry_cases [of dv j v] by auto
  ultimately show ?case using Cons by (auto simp: kv map_add_def split: option.splits)
qed simp

lemma map_of_entry:
  "map_of (normalize_entry dv k (JArr vs)) k =
     (if (dv \<and> ''view'' \<notin> set (string_items vs)) \<or> normalizePageActions k (string_items vs) = [] then None
      else Some (normalizePageActions k (string_items vs)))"
  by (simp add: normalize_entry_def Let_def)

lemma normalize_keys: "distinct (map fst input) \<Longrightarrow> distinct (map fst (normalizePermissionSet dv input))"
proof (induction input)
  case (Cons kv input)
  have "fst kv \<notin> fst ` set (normalizePermissionSet dv input)"
    using normalize_keys_subset [of dv input] Cons.prems by auto
  then show ?case
    using Cons normalize_entry_cases [of dv "fst kv" "snd kv"] by (auto intro: rev_image_eqI)
qed simp

lemma push_action_lookup:
  "map_of (push_action r raw) k =
     (if k = fst r then Some (JArr ((case map_of raw k of Some (JArr vs) \<Rightarrow> vs | _ \<Rightarrow> []) @ [JStr (action_name (snd r))]))
      else map_of raw k)"
  "distinct (map fst raw) \<Longrightarrow> distinct (map fst (push_action r raw))"
  by (auto simp: push_action_def update_conv distinct_update)

lemma push_actions:
  "map_of (fold push_action rows []) k =
     (let own = map snd (filter (\<lambda>r. fst r = k) rows) in
      if own = [] then None else Some (JArr (map (\<lambda>a. JStr (action_name a)) own))) \<and>
   distinct (map fst (fold push_action rows []))"
proof (induction rows arbitrary: k rule: rev_induct)
  case (snoc r rows)
  then have at: "map_of (fold push_action rows []) k = (let own = map snd (filter (\<lambda>r. fst r = k) rows) in
      if own = [] then None else Some (JArr (map (\<lambda>a. JStr (action_name a)) own)))" by blast
  have "distinct (map fst (fold push_action rows []))" using snoc by blast
  then show ?case
    using at by (cases "k = fst r") (simp_all add: push_action_lookup Let_def)
qed simp

lemma getRolePermissionSet_actions:
  assumes "getRoleById db rid = Some r" "\<not> is_admin r"
    "set as = set (map snd (filter (\<lambda>ka. fst ka = k) (stored_permission_rows db rid)))"
  shows "map_of (getRolePermissionSet db rid) k =
    (if AView \<notin> set as \<or> normalizePageActions k (map action_name as) = [] then None else Some (normalizePageActions k (map action_name as)))"
proof -
  let ?own = "map snd (filter (\<lambda>ka. fst ka = k) (stored_permission_rows db rid))"
  have cong: "normalizePageActions k (map action_name ?own) = normalizePageActions k (map action_name as)"
    using assms(3) by (intro normalizePageActions_cong) (auto simp: normalizePageActions_mem image_iff)
  have view: "''view'' \<in> set (map action_name ?own) \<longleftrightarrow> AView \<in> set as"
  proof -
    have "''view'' = action_name AView" by (simp add: action_name_def)
    then show ?thesis unfolding assms(3) by (auto simp: image_iff)
  qed
  note p = push_actions [of "stored_permission_rows db rid"]
  have e: "getRolePermissionSet db rid = normalizePermissionSet True (fold push_action (stored_permission_rows db rid) [])"
    using assms(1,2) by (simp add: getRolePermissionSet_def)
  have "map_of (getRolePermissionSet db rid) k =
    (if ?own = [] then None
     else if ''view'' \<notin> set (map action_name ?own) \<or> normalizePageActions k (map action_name ?own) = [] then None
     else Some (normalizePageActions k (map action_name ?own)))"
    unfolding e map_of_normalize [OF conjunct2 [OF p]] using p by (simp add: Let_def map_of_entry del: map_map)
  moreover have "?own = [] \<Longrightarrow> AView \<notin> set as" using assms(3) by simp
  ultimately show ?thesis using view cong by auto
qed

section \<open>Creating a role\<close>

text \<open>Every registered page and action has a permission row.\<close>

definition registry_stored :: "identity_db \<Rightarrow> bool" where
  "registry_stored db \<longleftrightarrow> list_all (\<lambda>e. list_all (\<lambda>a.
     list_ex (\<lambda>p. list_ex (\<lambda>pg. pg_id pg = p_page p \<and> pg_key pg = re_key e) (db_pages db) \<and> p_action p = a)
       (db_permissions db)) (re_actions e)) PERMISSION_REGISTRY"

lemma registry_storedD:
  "registry_stored db \<Longrightarrow> e \<in> set PERMISSION_REGISTRY \<Longrightarrow> a \<in> set (re_actions e) \<Longrightarrow>
   \<exists>pid. (re_key e, a) \<in> set (permission_pages db pid)"
  by (fastforce simp: registry_stored_def list_all_iff list_ex_iff permission_pages_iff)

lemma writePermissionSet_tables [simp]:
  "db_roles (writePermissionSet db rid ps) = db_roles db" "db_pages (writePermissionSet db rid ps) = db_pages db"
  "db_permissions (writePermissionSet db rid ps) = db_permissions db" "db_users (writePermissionSet db rid ps) = db_users db"
  "db_user_roles (writePermissionSet db rid ps) = db_user_roles db" "db_scope (writePermissionSet db rid ps) = db_scope db"
  "permission_pages (writePermissionSet db rid ps) = permission_pages db"
  by (simp_all add: writePermissionSet_def Let_def permission_pages_def fun_eq_iff)

lemma writeAuditLog_tables [simp]:
  "db_roles (writeAuditLog db e i a by') = db_roles db" "db_pages (writeAuditLog db e i a by') = db_pages db"
  "db_permissions (writeAuditLog db e i a by') = db_permissions db" "db_users (writeAuditLog db e i a by') = db_users db"
  "db_user_roles (writeAuditLog db e i a by') = db_user_roles db" "db_scope (writeAuditLog db e i a by') = db_scope db"
  "db_role_permissions (writeAuditLog db e i a by') = db_role_permissions db"
  "db_user_tier (writeAuditLog db e i a by') = db_user_tier db"
  by (simp_all add: writeAuditLog_def)

text \<open>The stored rows of a role after writing a permission set, and those of the other roles.\<close>

lemma stored_rows_written:
  "set (stored_permission_rows (writePermissionSet db rid ps) rid) =
     {(k, a). (\<exists>as. (k, as) \<in> set ps \<and> a \<in> set as) \<and> (\<exists>pid. (k, a) \<in> set (permission_pages db pid))}"
  if "wf_permissions db"
proof -
  let ?pairs = "concat (map (\<lambda>(k, as). map (Pair k) as) ps)"
  let ?ids = "map p_id (filter (\<lambda>p. list_ex (\<lambda>pg. pg_id pg = p_page p \<and> (pg_key pg, p_action p) \<in> set ?pairs)
             (db_pages db)) (db_permissions db))"
  have pairs: "(k, a) \<in> set ?pairs \<longleftrightarrow> (\<exists>as. (k, as) \<in> set ps \<and> a \<in> set as)" for k a by auto
  have id: "i \<in> set ?ids \<longleftrightarrow> (\<exists>k a. (k, a) \<in> set (permission_pages db i) \<and> (k, a) \<in> set ?pairs)" for i
  proof -
    have "i \<in> set (map p_id (filter (\<lambda>p. list_ex (\<lambda>pg. pg_id pg = p_page p \<and> (pg_key pg, p_action p) \<in> S)
        (db_pages db)) (db_permissions db))) \<longleftrightarrow> (\<exists>k a. (k, a) \<in> set (permission_pages db i) \<and> (k, a) \<in> S)" for S
      by (auto simp: permission_pages_iff list_ex_iff)
    then show ?thesis .
  qed
  have "filter (\<lambda>rp. rp_role rp = rid \<and> rp_allowed rp) (db_role_permissions (writePermissionSet db rid ps)) =
      (if ?pairs = [] then [] else map (\<lambda>i. \<lparr>rp_role = rid, rp_permission = i, rp_allowed = True\<rparr>) ?ids)"
    by (auto simp: writePermissionSet_def Let_def delete_where_def filter_empty_conv comp_def)
  then have "(k, a) \<in> set (stored_permission_rows (writePermissionSet db rid ps) rid) \<longleftrightarrow>
      ?pairs \<noteq> [] \<and> (\<exists>i \<in> set ?ids. (k, a) \<in> set (permission_pages db i))" for k a
    by (auto simp: stored_permission_rows_def)
  moreover have "(\<exists>i \<in> set ?ids. (k, a) \<in> set (permission_pages db i)) \<longleftrightarrow>
      (k, a) \<in> set ?pairs \<and> (\<exists>pid. (k, a) \<in> set (permission_pages db pid))" for k a
    unfolding Bex_def id using permission_pages_single [OF that] by fastforce
  moreover have "(k, a) \<in> set ?pairs \<Longrightarrow> ?pairs \<noteq> []" for k a by (metis empty_iff empty_set)
  ultimately have "(k, a) \<in> set (stored_permission_rows (writePermissionSet db rid ps) rid) \<longleftrightarrow>
      (k, a) \<in> set ?pairs \<and> (\<exists>pid. (k, a) \<in> set (permission_pages db pid))" for k a by blast
  then show ?thesis unfolding pairs by auto
qed

lemma stored_rows_other:
  "r \<noteq> rid \<Longrightarrow> stored_permission_rows (writePermissionSet db rid ps) r = stored_permission_rows db r"
proof -
  assume "r \<noteq> rid"
  then have "filter (\<lambda>rp. rp_role rp = r \<and> rp_allowed rp) (db_role_permissions (writePermissionSet db rid ps)) =
      filter (\<lambda>rp. rp_role rp = r \<and> rp_allowed rp) (db_role_permissions db)"
    by (auto simp: writePermissionSet_def Let_def delete_where_def filter_empty_conv intro!: filter_cong)
  then show ?thesis by (simp add: stored_permission_rows_def)
qed

lemma stored_rows_roles: "stored_permission_rows (db\<lparr>db_roles := rs\<rparr>) = stored_permission_rows db"
  by (intro ext) (simp add: stored_permission_rows_def permission_pages_def)

text \<open>A normalised set is written and read back unchanged.\<close>

lemma read_back:
  assumes "wf_permissions db" "registry_stored db" "distinct (map fst input)"
    "getRoleById (writePermissionSet db rid (normalizePermissionSet dv input)) rid = Some r" "\<not> is_admin r"
  shows "map_of (getRolePermissionSet (writePermissionSet db rid (normalizePermissionSet dv input)) rid) k =
    map_of (normalizePermissionSet dv input) k"
proof -
  let ?ps = "normalizePermissionSet dv input"
  let ?db = "writePermissionSet db rid ?ps"
  have keys: "distinct (map fst ?ps)" by (rule normalize_keys [OF assms(3)])
  have rows: "a \<in> set (map snd (filter (\<lambda>ka. fst ka = k) (stored_permission_rows ?db rid))) \<longleftrightarrow>
      (\<exists>as. map_of ?ps k = Some as \<and> a \<in> set as) \<and> (\<exists>pid. (k, a) \<in> set (permission_pages db pid))" for a
  proof -
    have "a \<in> set (map snd (filter (\<lambda>ka. fst ka = k) (stored_permission_rows ?db rid))) \<longleftrightarrow>
        (k, a) \<in> set (stored_permission_rows ?db rid)" by force
    then show ?thesis unfolding stored_rows_written [OF assms(1)] using keys by (auto simp: map_of_eq_Some_iff)
  qed
  show ?thesis
  proof (cases "map_of ?ps k")
    case None
    then have "set (map snd (filter (\<lambda>ka. fst ka = k) (stored_permission_rows ?db rid))) = {}"
      using rows by (metis equals0I option.distinct(1))
    then have "set [] = set (map snd (filter (\<lambda>ka. fst ka = k) (stored_permission_rows ?db rid)))" by (simp only: list.set(1))
    from getRolePermissionSet_actions [OF assms(4,5) this] None show ?thesis by simp
  next
    case (Some as)
    obtain vs where as: "as = normalizePageActions k (string_items vs)" "as \<noteq> []"
    proof -
      obtain v where "map_of input k = Some v" "map_of (normalize_entry dv k v) k = Some as"
        using Some unfolding map_of_normalize [OF assms(3)] by (auto split: option.splits)
      then show ?thesis using that by (cases v) (auto simp: map_of_entry normalize_entry_def Let_def split: if_splits)
    qed
    have stored: "\<exists>pid. (k, a) \<in> set (permission_pages db pid)" if "a \<in> set as" for a
    proof -
      obtain e where "e \<in> set PERMISSION_REGISTRY" "re_key e = k" "a \<in> set (re_actions e)"
        using \<open>a \<in> set as\<close> unfolding as(1) normalizePageActions_mem using registry_entry_view by blast
      then show ?thesis using registry_storedD [OF assms(2)] by blast
    qed
    have "set as = set (map snd (filter (\<lambda>ka. fst ka = k) (stored_permission_rows ?db rid)))"
      using rows Some stored by auto
    from getRolePermissionSet_actions [OF assms(4,5) this] show ?thesis
      using Some as normalizePageActions_view [of k "string_items vs"] by simp
  qed
qed

lemma getRoleById_find: "getRoleById db rid = List.find (\<lambda>r. r_id r = rid) (db_roles db)"
proof -
  have "first_row (filter P xs) = List.find P xs" for P and xs :: "role_row list"
    by (induction xs) auto
  then show ?thesis by (simp add: getRoleById_def)
qed

lemma getRoleById_roles: "db_roles db = db_roles db' \<Longrightarrow> getRoleById db rid = getRoleById db' rid"
  by (simp add: getRoleById_def)

lemma find_append_fresh:
  "List.find P (xs @ [x]) = (case List.find P xs of None \<Rightarrow> if P x then Some x else None | Some y \<Rightarrow> Some y)"
  by (induction xs) auto

lemma getRolePermissionSet_cong:
  "getRoleById db rid = getRoleById db' rid \<Longrightarrow> stored_permission_rows db rid = stored_permission_rows db' rid \<Longrightarrow>
   getRolePermissionSet db rid = getRolePermissionSet db' rid"
  by (simp add: getRolePermissionSet_def split: option.split)

lemma cleanLabel_Inr [rule_facts]:
  "cleanLabel v = Inr label \<longleftrightarrow> (\<exists>s. v = JStr s \<and> label = squeeze_spaces (trim s) \<and> 2 \<le> length label \<and> length label \<le> 60)"
  by (auto simp: cleanLabel_def Let_def split: jsval.splits if_splits)

lemma assertLabelFree_Inr [rule_facts]:
  "assertLabelFree collate db label except = Inr u \<longleftrightarrow>
   (\<forall>r \<in> set (db_roles db). r_id r \<noteq> (case except of None \<Rightarrow> 0 | Some i \<Rightarrow> i) \<longrightarrow> collate (r_label r) \<noteq> collate label)"
  by (auto simp: assertLabelFree_def ensure_eq_Inr list_ex_iff)

lemma roleCodeFromLabel_prefix: "take 2 (roleCodeFromLabel nfkd label) = ''C_''"
  by (simp add: roleCodeFromLabel_def Let_def)

lemma uniqueRoleCode_Inr:
  assumes "uniqueRoleCode collate nfkd db label = Inr code"
  shows "take 2 code = ''C_''" "\<forall>r \<in> set (db_roles db). collate (r_name r) \<noteq> collate code"
proof -
  obtain i where i: "code = code_candidate (roleCodeFromLabel nfkd label) i"
    "\<not> list_ex (\<lambda>r. collate (r_name r) = collate code) (db_roles db)"
    using assms by (auto simp: uniqueRoleCode_def split: option.splits dest!: find_SomeD)
  have two: "length (roleCodeFromLabel nfkd label) \<ge> 2" by (simp add: roleCodeFromLabel_def Let_def)
  show "take 2 code = ''C_''"
    using roleCodeFromLabel_prefix [of nfkd label] two by (simp add: i(1) code_candidate_def)
  show "\<forall>r \<in> set (db_roles db). collate (r_name r) \<noteq> collate code" using i(2) by (auto simp: list_ex_iff)
qed

lemma cleanDescription_Inr [rule_facts]:
  "cleanDescription v = Inr d \<longleftrightarrow>
     nullish v \<and> d = None \<or> (\<exists>s. v = JStr s \<and> length (trim s) \<le> 500 \<and> d = (if trim s = [] then None else Some (trim s)))"
  by (cases v) (auto simp: cleanDescription_def Let_def)

lemma assertTier_Inr [rule_facts]:
  "assertTier collate db v = Inr t \<longleftrightarrow> v = JStr t \<and> t \<noteq> [] \<and> (\<exists>c \<in> set (db_tiers db). collate c = collate t)"
  by (cases v) (auto simp: assertTier_def list_ex_iff)

lemma createRole_Inr:
  assumes "createRole collate nfkd input actor db = Inr (db', rid)"
  obtains label description tier code row where
    "cleanLabel (ri_label input) = Inr label" "assertLabelFree collate db label None = Inr ()"
    "uniqueRoleCode collate nfkd db label = Inr code" "rid = next_id (map r_id (db_roles db))"
    "row = \<lparr>r_id = rid, r_name = code, r_label = label, r_description = description, r_system = False,
             r_tier = Some tier, r_created_by = Some actor\<rparr>"
    "db' = writeAuditLog (writePermissionSet (db\<lparr>db_roles := db_roles db @ [row]\<rparr>) rid
       (normalizePermissionSet False (object_entries (ri_permissions input)))) ROLE_ENTITY rid AUDIT_CREATE (Some actor)"
    "cleanDescription (ri_description input) = Inr description"
    "assertTier collate db (if nullish (ri_tier input) then JStr ''BI00_EXECUTIVE'' else ri_tier input) = Inr tier"
  using assms by (auto simp: createRole_def rbind_eq_Inr Let_def)

text \<open>Apart from the new role, its permission rows and the log entry the tables are those of before.\<close>

definition only_role_added :: "int \<Rightarrow> int \<Rightarrow> identity_db \<Rightarrow> identity_db \<Rightarrow> bool" where
  "only_role_added rid actor db db' \<longleftrightarrow>
     db' = db\<lparr>db_roles := db_roles db', db_role_permissions := db_role_permissions db', db_audit := db_audit db'\<rparr> \<and>
     filter (\<lambda>r. r_id r \<noteq> rid) (db_roles db') = db_roles db \<and>
     filter (\<lambda>rp. rp_role rp \<noteq> rid) (db_role_permissions db') = filter (\<lambda>rp. rp_role rp \<noteq> rid) (db_role_permissions db) \<and>
     db_audit db' = db_audit db @ [\<lparr>a_entity_type = ''role'', a_entity_id = rid, a_action = AUDIT_CREATE, a_changed_by = Some actor\<rparr>]"

lemma written_frame:
  "writePermissionSet db rid ps = db\<lparr>db_role_permissions := db_role_permissions (writePermissionSet db rid ps)\<rparr>"
  by (simp add: writePermissionSet_def Let_def)

lemma written_others:
  "filter (\<lambda>rp. rp_role rp \<noteq> rid) (db_role_permissions (writePermissionSet db rid ps)) = filter (\<lambda>rp. rp_role rp \<noteq> rid) (db_role_permissions db)"
  by (auto simp: writePermissionSet_def Let_def delete_where_def filter_empty_conv)

lemma create_only_adds:
  assumes "createRole collate nfkd input actor db = Inr (db', rid)"
  shows "only_role_added rid actor db db'"
  using assms
proof (cases rule: createRole_Inr)
  case (1 label description tier code row)
  let ?db1 = "db\<lparr>db_roles := db_roles db @ [row]\<rparr>"
  let ?db2 = "writePermissionSet ?db1 rid (normalizePermissionSet False (object_entries (ri_permissions input)))"
  have "rid \<notin> r_id ` set (db_roles db)" using next_id_fresh [of "map r_id (db_roles db)"] 1(4) by auto
  then have roles: "filter (\<lambda>r. r_id r \<noteq> rid) (db_roles db) = db_roles db" by (auto simp: filter_id_conv)
  have "?db2 = ?db1\<lparr>db_role_permissions := db_role_permissions ?db2\<rparr>" by (rule written_frame)
  then have "db' = db\<lparr>db_roles := db_roles db', db_role_permissions := db_role_permissions db', db_audit := db_audit db'\<rparr>"
    unfolding 1(6) writeAuditLog_def by (cases db) (simp add: writePermissionSet_def Let_def)
  moreover have "db_audit ?db2 = db_audit db" by (simp add: writePermissionSet_def Let_def)
  ultimately show ?thesis
    using written_others [of rid ?db1] roles by (simp add: only_role_added_def 1(5,6) writeAuditLog_def ROLE_ENTITY_def)
qed

section \<open>Properties\<close>

text \<open>C27. Creating a role: it gets a fresh number and a code that begins with \<open>C_\<close> and that no role has, so it
can never be taken for a built-in role; its label is the requested one with its spaces trimmed, of 2 to 60
characters and no other role's, its description the requested one (none when blank), its tier the requested one, which
exists, or the executive tier when none is given, and its creator the one who asked; its stored permissions read back
as exactly the normalised requested set. Nothing else changes: users and the roles they hold, tiers, scope rules,
overrides, every other role and its permissions stay as they were, and one entry is added to the log.\<close>

theorem create_role_round_trip:
  assumes "createRole collate nfkd input actor db = Inr (db', rid)" and "wf_permissions db" and "registry_stored db"
    and "distinct (map fst (object_entries (ri_permissions input)))" and "\<forall>r \<in> set (db_roles db). r_id r \<noteq> 0"
  shows "rid \<notin> r_id ` set (db_roles db) \<and> only_role_added rid actor db db' \<and>
    (\<exists>r label tier. getRoleById db' rid = Some r \<and> \<not> r_system r \<and> take 2 (r_name r) = ''C_'' \<and> r_created_by r = Some actor \<and>
       ri_label input = JStr label \<and> r_label r = squeeze_spaces (trim label) \<and>
       2 \<le> length (r_label r) \<and> length (r_label r) \<le> 60 \<and>
       (\<forall>o' \<in> set (db_roles db). collate (r_name o') \<noteq> collate (r_name r) \<and> collate (r_label o') \<noteq> collate (r_label r)) \<and>
       r_description r = (case ri_description input of JStr d \<Rightarrow> if trim d = [] then None else Some (trim d) | _ \<Rightarrow> None) \<and>
       (if nullish (ri_tier input) then tier = ''BI00_EXECUTIVE'' else ri_tier input = JStr tier) \<and>
       r_tier r = Some tier \<and> (\<exists>t \<in> set (db_tiers db). collate t = collate tier)) \<and>
    (\<forall>k. map_of (getRolePermissionSet db' rid) k =
       map_of (normalizePermissionSet False (object_entries (ri_permissions input))) k) \<and>
    (\<forall>q. q \<noteq> rid \<longrightarrow> getRoleById db' q = getRoleById db q \<and> getRolePermissionSet db' q = getRolePermissionSet db q)"
proof -
  obtain label description tier code row where c:
    "cleanLabel (ri_label input) = Inr label" "assertLabelFree collate db label None = Inr ()"
    "uniqueRoleCode collate nfkd db label = Inr code" "rid = next_id (map r_id (db_roles db))"
    and row: "row = \<lparr>r_id = rid, r_name = code, r_label = label, r_description = description, r_system = False,
             r_tier = Some tier, r_created_by = Some actor\<rparr>"
    and db': "db' = writeAuditLog (writePermissionSet (db\<lparr>db_roles := db_roles db @ [row]\<rparr>) rid
       (normalizePermissionSet False (object_entries (ri_permissions input)))) ROLE_ENTITY rid AUDIT_CREATE (Some actor)"
    and desc: "cleanDescription (ri_description input) = Inr description"
    and tier: "assertTier collate db (if nullish (ri_tier input) then JStr ''BI00_EXECUTIVE'' else ri_tier input) = Inr tier"
    using createRole_Inr [OF assms(1)] .
  let ?db1 = "db\<lparr>db_roles := db_roles db @ [row]\<rparr>"
  let ?db2 = "writePermissionSet ?db1 rid (normalizePermissionSet False (object_entries (ri_permissions input)))"
  have fresh: "rid \<notin> r_id ` set (db_roles db)" using next_id_fresh [of "map r_id (db_roles db)"] c(4) by auto
  have same: "getRoleById db' q = getRoleById ?db2 q" "stored_permission_rows db' q = stored_permission_rows ?db2 q" for q
    by (simp_all add: db' getRoleById_def stored_permission_rows_def permission_pages_def fun_eq_iff)
  have get: "getRoleById ?db2 rid = Some row"
  proof -
    have "List.find (\<lambda>r. r_id r = rid) (db_roles db) = None" using fresh by (auto simp: find_None_iff)
    then show ?thesis by (simp add: getRoleById_find find_append_fresh row)
  qed
  have other: "getRoleById db' q = getRoleById db q \<and> getRolePermissionSet db' q = getRolePermissionSet db q" if "q \<noteq> rid" for q
  proof -
    have r: "getRoleById db' q = getRoleById db q"
      using that unfolding same by (simp add: getRoleById_find find_append_fresh row split: option.split)
    have "stored_permission_rows ?db2 q = stored_permission_rows ?db1 q" by (rule stored_rows_other [OF that])
    then have "stored_permission_rows db' q = stored_permission_rows db q"
      unfolding same stored_rows_roles .
    then show ?thesis using r getRolePermissionSet_cong by blast
  qed
  have pre: "take 2 code = ''C_''" "\<forall>r \<in> set (db_roles db). collate (r_name r) \<noteq> collate code"
    using uniqueRoleCode_Inr [OF c(3)] by blast+
  have notadmin: "\<not> is_admin row"
    using pre(1) by (auto simp: is_admin_def row ADMIN_ROLE_NAME_def)
  have wf: "wf_permissions ?db1" "registry_stored ?db1"
    using assms(2,3) by (simp_all add: wf_permissions_def registry_stored_def)
  have readback: "map_of (getRolePermissionSet db' rid) k =
       map_of (normalizePermissionSet False (object_entries (ri_permissions input))) k" for k
    using read_back [OF wf assms(4) get notadmin, of k] getRolePermissionSet_cong [OF same] by simp
  have lab: "2 \<le> length label" "length label \<le> 60" "\<forall>r \<in> set (db_roles db). collate (r_label r) \<noteq> collate label"
    using c(1,2) assms(5) by (auto simp: rule_facts)
  obtain raw where raw: "ri_label input = JStr raw" "label = squeeze_spaces (trim raw)" using c(1) by (auto simp: rule_facts)
  have d: "description = (case ri_description input of JStr d \<Rightarrow> if trim d = [] then None else Some (trim d) | _ \<Rightarrow> None)"
    using desc by (auto simp: rule_facts split: jsval.split)
  have t: "if nullish (ri_tier input) then tier = ''BI00_EXECUTIVE'' else ri_tier input = JStr tier"
    "\<exists>t \<in> set (db_tiers db). collate t = collate tier"
    using tier by (auto simp: rule_facts split: if_splits)
  have "getRoleById db' rid = Some row" using get by (simp add: same)
  then show ?thesis
    using fresh readback other create_only_adds [OF assms(1)] pre lab raw d t
    by (intro conjI exI [of _ row] exI [of _ raw] exI [of _ tier]) (simp_all add: row)
qed

text \<open>The Admin role is fixed and built-in roles stay: an edit of the Admin role that succeeds keeps its
code, label, tier and number, its stored permissions and every user's tier record, and deleting a
built-in role is refused.\<close>

theorem admin_role_fixed:
  "(getRoleById db rid = Some r \<and> is_admin r \<and> updateRole collate rid input actor db = Inr db' \<longrightarrow>
      (\<exists>description. db_roles db' = update_where (\<lambda>x. r_id x = rid)
          (\<lambda>x. x\<lparr>r_label := r_label r, r_description := description, r_tier := r_tier r\<rparr>) (db_roles db)) \<and>
      db_role_permissions db' = db_role_permissions db \<and> db_user_tier db' = db_user_tier db \<and>
      db_user_roles db' = db_user_roles db \<and> db_users db' = db_users db) \<and>
   (getRoleById db rid = Some r \<and> r_system r \<longrightarrow> (\<exists>m. deleteRole rid replacement actor db = Inl (Invalid m)))"
proof (intro conjI impI)
  assume a: "getRoleById db rid = Some r \<and> is_admin r \<and> updateRole collate rid input actor db = Inr db'"
  then obtain label description tierInput tier where l: "label = r_label r"
    and t: "tierInput = jstring_option (r_tier r)" "assertTier collate db tierInput = Inr tier"
    and db': "db' = apply_role_update rid r label description tier None actor db"
    by (auto simp: updateRole_def rbind_eq_Inr ensure_eq_Inr Let_def)
  have "Some tier = r_tier r" using t by (auto simp: assertTier_def jstring_option_def split: option.splits if_splits)
  then have "db' = writeAuditLog (db\<lparr>db_roles := update_where (\<lambda>r. r_id r = rid)
             (\<lambda>x. x\<lparr>r_label := r_label r, r_description := description, r_tier := r_tier r\<rparr>) (db_roles db)\<rparr>)
       ROLE_ENTITY rid AUDIT_UPDATE (Some actor)"
    using db' l by (simp add: apply_role_update_def Let_def)
  then show "\<exists>description. db_roles db' = update_where (\<lambda>x. r_id x = rid)
          (\<lambda>x. x\<lparr>r_label := r_label r, r_description := description, r_tier := r_tier r\<rparr>) (db_roles db)"
    "db_role_permissions db' = db_role_permissions db" "db_user_tier db' = db_user_tier db"
    "db_user_roles db' = db_user_roles db" "db_users db' = db_users db" by auto
next
  assume "getRoleById db rid = Some r \<and> r_system r"
  then show "\<exists>m. deleteRole rid replacement actor db = Inl (Invalid m)" by (simp add: deleteRole_def)
qed

section \<open>Deleting a role and assigning roles\<close>

lemma syncRoleTier_tables [simp]:
  "db_roles (syncRoleTierAssignment uid t db) = db_roles db" "db_users (syncRoleTierAssignment uid t db) = db_users db"
  "db_user_roles (syncRoleTierAssignment uid t db) = db_user_roles db"
  "db_role_permissions (syncRoleTierAssignment uid t db) = db_role_permissions db"
  "db_scope (syncRoleTierAssignment uid t db) = db_scope db"
  "db_permissions (syncRoleTierAssignment uid t db) = db_permissions db"
  "db_pages (syncRoleTierAssignment uid t db) = db_pages db"
  by (simp_all add: syncRoleTierAssignment_def)

lemma insert_user_role_tables [simp]:
  "db_roles (insert_user_role uid r db) = db_roles db" "db_users (insert_user_role uid r db) = db_users db"
  "db_user_roles (insert_user_role uid r db) = insert_ignore (uid, r) (db_user_roles db)"
  "db_role_permissions (insert_user_role uid r db) = db_role_permissions db"
  "db_scope (insert_user_role uid r db) = db_scope db"
  "db_permissions (insert_user_role uid r db) = db_permissions db"
  "db_pages (insert_user_role uid r db) = db_pages db"
  by (simp_all add: insert_user_role_def)

lemma fold_insert_user_role [simp]:
  "set (db_user_roles (fold (insert_user_role uid) ids db)) = set (db_user_roles db) \<union> Pair uid ` set ids"
  "db_roles (fold (insert_user_role uid) ids db) = db_roles db" "db_users (fold (insert_user_role uid) ids db) = db_users db"
  by (induction ids arbitrary: db) auto

lemma fold_move_user:
  assumes "t \<noteq> rid"
  shows "set (db_user_roles (fold (move_user rid t) us db)) =
      {ur \<in> set (db_user_roles db). \<not> (snd ur = rid \<and> fst ur \<in> set us)} \<union> (\<lambda>u. (u, t)) ` set us \<and>
    db_roles (fold (move_user rid t) us db) = db_roles db \<and> db_users (fold (move_user rid t) us db) = db_users db \<and>
    db_role_permissions (fold (move_user rid t) us db) = db_role_permissions db \<and>
    db_scope (fold (move_user rid t) us db) = db_scope db \<and> db_pages (fold (move_user rid t) us db) = db_pages db \<and>
    db_permissions (fold (move_user rid t) us db) = db_permissions db"
proof (induction us arbitrary: db)
  case (Cons u us)
  have one: "set (db_user_roles (move_user rid t u db)) =
      {ur \<in> set (db_user_roles db). ur \<noteq> (u, rid)} \<union> {(u, t)}"
    "db_roles (move_user rid t u db) = db_roles db" "db_users (move_user rid t u db) = db_users db"
    "db_role_permissions (move_user rid t u db) = db_role_permissions db" "db_scope (move_user rid t u db) = db_scope db"
    "db_pages (move_user rid t u db) = db_pages db" "db_permissions (move_user rid t u db) = db_permissions db"
    using assms by (auto simp: move_user_def Let_def)
  show ?case using Cons [of "move_user rid t u db"] one assms by auto
qed auto

lemma fold_move_primary:
  "db_users (fold (move_primary t) ps db) =
     map (\<lambda>u. if au_id u \<in> set ps then u\<lparr>au_role := Some (r_id t)\<rparr> else u) (db_users db) \<and>
   db_user_roles (fold (move_primary t) ps db) = db_user_roles db \<and> db_roles (fold (move_primary t) ps db) = db_roles db \<and>
   db_role_permissions (fold (move_primary t) ps db) = db_role_permissions db \<and>
   db_scope (fold (move_primary t) ps db) = db_scope db \<and> db_pages (fold (move_primary t) ps db) = db_pages db \<and>
   db_permissions (fold (move_primary t) ps db) = db_permissions db"
proof (induction ps arbitrary: db)
  case (Cons p ps)
  have "db_users (move_primary t p db) = map (\<lambda>u. if au_id u = p then u\<lparr>au_role := Some (r_id t)\<rparr> else u) (db_users db)"
    by (simp add: move_primary_def update_user_def update_where_def)
  then show ?case using Cons [of "move_primary t p db"] by (simp add: move_primary_def comp_def)
qed simp

lemma deleteRole_Inr:
  assumes "deleteRole rid replacement actor db = Inr db'"
  obtains role where "getRoleById db rid = Some role" "\<not> r_system role"
    "rid \<notin> snd ` set (db_user_roles db)" "Some rid \<notin> au_role ` set (db_users db)"
    "db' = writeAuditLog (erase_role rid db) ROLE_ENTITY rid AUDIT_DELETE (Some actor)"
  | role target where "getRoleById db rid = Some role" "\<not> r_system role"
    "replacement = Some (r_id target)" "r_id target \<noteq> rid" "getRoleById db (r_id target) = Some target"
    "db' = writeAuditLog (erase_role rid (fold (move_primary target) (map au_id (filter (\<lambda>u. au_role u = Some rid) (db_users db)))
       (fold (move_user rid (r_id target)) (map fst (filter (\<lambda>ur. snd ur = rid) (db_user_roles db))) db)))
       ROLE_ENTITY rid AUDIT_DELETE (Some actor)"
proof -
  obtain role where r: "getRoleById db rid = Some role" "\<not> r_system role"
    using assms by (auto simp: deleteRole_def split: option.splits if_splits)
  let ?users = "map fst (filter (\<lambda>ur. snd ur = rid) (db_user_roles db))"
  let ?prim = "map au_id (filter (\<lambda>u. au_role u = Some rid) (db_users db))"
  show ?thesis
  proof (cases "?users = []")
    case True
    then have "?prim = []" "db' = writeAuditLog (erase_role rid db) ROLE_ENTITY rid AUDIT_DELETE (Some actor)"
      using assms r by (auto simp: deleteRole_def Let_def split: if_splits)
    moreover have "rid \<notin> snd ` set (db_user_roles db)" using True by (auto simp: filter_empty_conv)
    moreover have "Some rid \<notin> au_role ` set (db_users db)" using calculation(1) by (auto simp: filter_empty_conv)
    ultimately show ?thesis using that(1) [OF r] by blast
  next
    case False
    then obtain i target where t: "replacement = Some i" "i \<noteq> rid" "getRoleById db i = Some target"
      "db' = writeAuditLog (erase_role rid (fold (move_primary target) ?prim (fold (move_user rid (r_id target)) ?users db)))
       ROLE_ENTITY rid AUDIT_DELETE (Some actor)"
      using assms r by (auto simp: deleteRole_def Let_def split: option.splits if_splits)
    moreover have "r_id target = i" using t(3) by (auto simp: getRoleById_find dest!: find_SomeD)
    ultimately show ?thesis using that(2) [OF r] by blast
  qed
qed

text \<open>Deleting a role leaves no trace of it: no role, permission, data-scope rule, assignment or primary role
refers to its number any more; every user who held it holds the replacement instead, all other
assignments stay, and only a role that is not built-in can go.\<close>

theorem delete_role_effect:
  assumes "deleteRole rid replacement actor db = Inr db'"
  shows "(\<exists>role. getRoleById db rid = Some role \<and> \<not> r_system role) \<and>
    rid \<notin> r_id ` set (db_roles db') \<and> rid \<notin> rp_role ` set (db_role_permissions db') \<and>
    rid \<notin> t_role_id ` set (db_scope db') \<and> rid \<notin> snd ` set (db_user_roles db') \<and>
    Some rid \<notin> au_role ` set (db_users db') \<and>
    (\<forall>u. (u, rid) \<in> set (db_user_roles db) \<longrightarrow> (\<exists>t. replacement = Some t \<and> t \<noteq> rid \<and> (u, t) \<in> set (db_user_roles db'))) \<and>
    (\<forall>u r. r \<noteq> rid \<and> (u, r) \<in> set (db_user_roles db) \<longrightarrow> (u, r) \<in> set (db_user_roles db'))"
  using assms
proof (cases rule: deleteRole_Inr)
  case (1 role)
  then show ?thesis by (auto simp: erase_role_def image_iff)
next
  case (2 role target)
  let ?users = "map fst (filter (\<lambda>ur. snd ur = rid) (db_user_roles db))"
  let ?prim = "map au_id (filter (\<lambda>u. au_role u = Some rid) (db_users db))"
  let ?d1 = "fold (move_user rid (r_id target)) ?users db"
  note m = fold_move_user [OF 2(4), of ?users db] and p = fold_move_primary [of target ?prim ?d1]
  have ur: "set (db_user_roles db') = {ur \<in> set (db_user_roles db). snd ur \<noteq> rid} \<union> (\<lambda>u. (u, r_id target)) ` set ?users"
    using m p by (auto simp: 2(6) erase_role_def image_iff)
  have us: "db_users db' = map (\<lambda>u. if au_id u \<in> set ?prim then u\<lparr>au_role := Some (r_id target)\<rparr> else u) (db_users db)"
    using m p by (simp add: 2(6) erase_role_def)
  have "Some rid \<notin> au_role ` set (db_users db')" using 2(4) by (auto simp: us)
  moreover have "rid \<notin> r_id ` set (db_roles db')" "rid \<notin> rp_role ` set (db_role_permissions db')"
    "rid \<notin> t_role_id ` set (db_scope db')"
    by (auto simp: 2(6) erase_role_def)
  moreover have "rid \<notin> snd ` set (db_user_roles db')" using 2(4) by (auto simp: ur)
  ultimately show ?thesis using 2(1-4) by (auto simp: ur image_iff)
qed

lemma setUserRoles_Inr:
  fixes roleIds :: "int list"
  defines "ids \<equiv> dedup (filter (\<lambda>n. n > 0) roleIds)"
  assumes "setUserRoles collate uid roleIds actor primaryRoleId db = Inr db'"
  obtains user primary where "getUserById db uid = Some user" "ids \<noteq> []"
    "length (filter (\<lambda>r. r_id r \<in> set ids) (db_roles db)) = length ids"
    "\<And>a. adminRoleId collate db = Some a \<Longrightarrow> (uid, a) \<in> set (db_user_roles db) \<Longrightarrow> a \<notin> set ids \<Longrightarrow>
       countOtherActiveAdmins collate db uid \<noteq> 0"
    "primary \<in> set ids" "\<And>q. primaryRoleId = Some q \<Longrightarrow> primary = q"
    "set (db_user_roles db') = {ur \<in> set (db_user_roles db). fst ur \<noteq> uid} \<union> Pair uid ` set ids"
    "db_users db' = db_users (update_user uid (\<lambda>u. u\<lparr>au_role := Some primary\<rparr>) db)" "db_roles db' = db_roles db"
proof -
  obtain user primary where u: "getUserById db uid = Some user" and ne: "ids \<noteq> []"
    and len: "length (filter (\<lambda>r. r_id r \<in> set ids) (db_roles db)) = length ids"
    and guard: "\<not> (case adminRoleId collate db of None \<Rightarrow> False
      | Some a \<Rightarrow> a \<in> set (getUserRoleIds db uid) \<and> a \<notin> set ids \<and> countOtherActiveAdmins collate db uid = 0)"
    and prim: "(case primaryRoleId of
              Some p \<Rightarrow> if p \<notin> set ids then Inl (Invalid ''The primary role must be one of the assigned roles.'') else Inr p
            | None \<Rightarrow> Inr (case au_role user of Some r \<Rightarrow> if r \<in> set ids then r else hd ids | None \<Rightarrow> hd ids)) = Inr primary"
    and ur: "db_user_roles db' = db_user_roles (fold (insert_user_role uid) ids
        (db\<lparr>db_user_roles := delete_where (\<lambda>ur. fst ur = uid \<and> snd ur \<notin> set ids) (db_user_roles db)\<rparr>))"
    and us: "db_users db' = db_users (update_user uid (\<lambda>u. u\<lparr>au_role := Some primary\<rparr>) db)"
    and rs: "db_roles db' = db_roles db"
    using assms(2)
    by (auto simp: setUserRoles_def ids_def [symmetric] Let_def rbind_eq_Inr ensure_eq_Inr update_user_def
        split: option.splits if_splits)
  have "primary \<in> set ids" "primaryRoleId = Some q \<Longrightarrow> primary = q" for q
    using prim ne hd_in_set [OF ne] by (auto split: option.splits if_splits)
  moreover have "set (db_user_roles db') = {ur \<in> set (db_user_roles db). fst ur \<noteq> uid} \<union> Pair uid ` set ids"
    by (auto simp: ur)
  moreover have "countOtherActiveAdmins collate db uid \<noteq> 0"
    if "adminRoleId collate db = Some a" "(uid, a) \<in> set (db_user_roles db)" "a \<notin> set ids" for a
    using guard that by (force simp: getUserRoleIds_def)
  ultimately show ?thesis using that u ne len us rs by blast
qed

text \<open>Assigning roles: a successful assignment gives the user exactly the requested positive role numbers,
all of existing roles and at least one, makes one of them the primary role (the requested one if given),
and changes no other user's assignments.\<close>

theorem set_user_roles_exact:
  assumes "setUserRoles collate uid roleIds actor primaryRoleId db = Inr db'" and "distinct (map r_id (db_roles db))"
  shows "{r. (uid, r) \<in> set (db_user_roles db')} = {n \<in> set roleIds. n > 0} \<and>
    {n \<in> set roleIds. n > 0} \<noteq> {} \<and> {n \<in> set roleIds. n > 0} \<subseteq> r_id ` set (db_roles db) \<and>
    (\<forall>v r. v \<noteq> uid \<longrightarrow> ((v, r) \<in> set (db_user_roles db') \<longleftrightarrow> (v, r) \<in> set (db_user_roles db))) \<and>
    (\<exists>u p. getUserById db' uid = Some u \<and> au_role u = Some p \<and> p \<in> set roleIds \<and> p > 0 \<and>
       (\<forall>q. primaryRoleId = Some q \<longrightarrow> p = q))"
proof -
  let ?ids = "dedup (filter (\<lambda>n. n > 0) roleIds)"
  let ?found = "filter (\<lambda>r. r_id r \<in> set ?ids) (db_roles db)"
  have e: "set ?ids = {n \<in> set roleIds. n > 0}" by auto
  obtain user primary where *: "getUserById db uid = Some user" "?ids \<noteq> []" "length ?found = length ?ids"
    "primary \<in> set ?ids" "\<And>q. primaryRoleId = Some q \<Longrightarrow> primary = q"
    "set (db_user_roles db') = {ur \<in> set (db_user_roles db). fst ur \<noteq> uid} \<union> Pair uid ` set ?ids"
    "db_users db' = db_users (update_user uid (\<lambda>u. u\<lparr>au_role := Some primary\<rparr>) db)"
    by (rule setUserRoles_Inr [OF assms(1)]) blast
  have "set (map r_id ?found) = set ?ids"
  proof (rule card_subset_eq)
    have "card (set (map r_id ?found)) = length ?found" using assms(2) by (metis distinct_card distinct_map_filter length_map)
    also have "\<dots> = card (set ?ids)" using *(3) distinct_card [of ?ids] by simp
    finally show "card (set (map r_id ?found)) = card (set ?ids)" .
  qed auto
  then have sub: "{n \<in> set roleIds. n > 0} \<subseteq> r_id ` set (db_roles db)" unfolding e [symmetric] by auto
  have "getUserById db' uid = Some (user\<lparr>au_role := Some primary\<rparr>)"
    using *(1) getUserById_update [of "\<lambda>u. u\<lparr>au_role := Some primary\<rparr>" uid db uid] *(7) by (simp add: getUserById_def)
  moreover have "{n \<in> set roleIds. n > 0} \<noteq> {}" using *(4) unfolding e by blast
  moreover have "{r. (uid, r) \<in> set (db_user_roles db')} = {n \<in> set roleIds. n > 0}"
    "\<forall>v r. v \<noteq> uid \<longrightarrow> ((v, r) \<in> set (db_user_roles db') \<longleftrightarrow> (v, r) \<in> set (db_user_roles db))"
    unfolding *(6) e by auto
  ultimately show ?thesis using *(4,5) sub unfolding e by auto
qed

section \<open>Concrete roles\<close>

text \<open>Two users, two roles and the whole registry, on which the properties apply.\<close>

definition registry_pages :: "page_row list" where
  "registry_pages = map (\<lambda>(i, e). \<lparr>pg_id = int i, pg_key = re_key e, pg_label = [], pg_nav_group = [], pg_sort_order = int i\<rparr>)
     (enumerate 0 PERMISSION_REGISTRY)"

definition registry_permissions :: "permission_row list" where
  "registry_permissions = concat (map (\<lambda>(i, e). map (\<lambda>a. \<lparr>p_id = 10 * int i + int (action_rank a), p_page = int i, p_action = a\<rparr>) (re_actions e))
     (enumerate 0 PERMISSION_REGISTRY))"

definition example_staff :: identity_db where
  "example_staff = example_accounts\<lparr>
     db_users := [example_account, example_account\<lparr>au_id := 8, au_email := ''b@b.c'', au_role := Some 1\<rparr>],
     db_roles := [\<lparr>r_id = 1, r_name = ''ADMIN'', r_label = ''Admin'', r_description = None, r_system = True,
         r_tier = Some ''BI00_EXECUTIVE'', r_created_by = None\<rparr>,
       \<lparr>r_id = 2, r_name = ''C_OPS'', r_label = ''Ops'', r_description = None, r_system = False,
         r_tier = Some ''BI00_EXECUTIVE'', r_created_by = None\<rparr>],
     db_user_roles := [(7, 2), (8, 1)], db_tiers := [''BI00_EXECUTIVE''], db_role_permissions := []\<rparr>"

definition example_roles :: identity_db where
  "example_roles = example_staff\<lparr>db_pages := registry_pages, db_permissions := registry_permissions\<rparr>"

lemma example_roles_wf: "wf_permissions example_roles"
  by code_simp
lemma example_roles_stored: "registry_stored example_roles"
proof -
  have "\<exists>p \<in> set registry_permissions. (\<exists>pg \<in> set registry_pages. pg_id pg = p_page p \<and> pg_key pg = re_key e) \<and> p_action p = a"
    if e: "e \<in> set PERMISSION_REGISTRY" "a \<in> set (re_actions e)" for e a
  proof -
    obtain i where "i < length PERMISSION_REGISTRY" "PERMISSION_REGISTRY ! i = e" using e(1) by (auto simp: in_set_conv_nth)
    then have i: "(i, e) \<in> set (enumerate 0 PERMISSION_REGISTRY)" by (simp add: in_set_enumerate_eq)
    then have "\<lparr>p_id = 10 * int i + int (action_rank a), p_page = int i, p_action = a\<rparr> \<in> set registry_permissions"
      "\<lparr>pg_id = int i, pg_key = re_key e, pg_label = [], pg_nav_group = [], pg_sort_order = int i\<rparr> \<in> set registry_pages"
      using e(2) i by (force simp: registry_permissions_def registry_pages_def)+
    then show ?thesis by (metis page_row.select_convs(1,2) permission_row.select_convs(2,3))
  qed
  then show ?thesis unfolding registry_stored_def list_all_iff list_ex_iff by (simp add: example_roles_def example_staff_def)
qed
theorem create_role_round_trip_witness:
  "\<exists>db' rid. createRole id id \<lparr>ri_label = JStr ''Sales'', ri_description = JNull, ri_tier = JNull,
       ri_permissions = JObj [(''kaizen_cards'', JArr [JStr ''edit''])]\<rparr> 8 example_roles = Inr (db', rid) \<and>
     map_of (getRolePermissionSet db' rid) ''kaizen_cards'' = Some [AView, AEdit]"
proof -
  let ?in = "\<lparr>ri_label = JStr ''Sales'', ri_description = JNull, ri_tier = JNull,
       ri_permissions = JObj [(''kaizen_cards'', JArr [JStr ''edit''])]\<rparr>"
  have "is_ok (createRole id id ?in 8 example_roles)" by code_simp
  then obtain db' rid where r: "createRole id id ?in 8 example_roles = Inr (db', rid)" by (auto simp: is_ok_iff)
  have "\<forall>r \<in> set (db_roles example_roles). r_id r \<noteq> 0" by code_simp
  moreover have "map_of (normalizePermissionSet False (object_entries (ri_permissions ?in))) ''kaizen_cards'' = Some [AView, AEdit]"
    by code_simp
  ultimately show ?thesis
    using create_role_round_trip [OF r example_roles_wf example_roles_stored] r by (simp add: object_entries_def)
qed

theorem admin_role_fixed_witness:
  "\<exists>m. deleteRole 1 (Some 2) 8 example_staff = Inl (Invalid m)"
proof -
  have "\<exists>r. getRoleById example_staff 1 = Some r \<and> r_system r"
    by (simp add: getRoleById_def example_staff_def)
  then obtain r where "getRoleById example_staff 1 = Some r \<and> r_system r" ..
  then show ?thesis using admin_role_fixed [of example_staff 1 r] by blast
qed

theorem delete_role_effect_witness:
  "\<exists>db'. deleteRole 2 (Some 1) 8 example_staff = Inr db' \<and> (7, 1) \<in> set (db_user_roles db')"
proof -
  have "is_ok (deleteRole 2 (Some 1) 8 example_staff)" by code_simp
  then obtain db' where r: "deleteRole 2 (Some 1) 8 example_staff = Inr db'" by (auto simp: is_ok_iff)
  have "(7, 2) \<in> set (db_user_roles example_staff)" by (simp add: example_staff_def)
  then show ?thesis using delete_role_effect [OF r] r by blast
qed

theorem set_user_roles_exact_witness:
  "\<exists>db'. setUserRoles id 7 [1, 2, 0] (Some 8) None example_staff = Inr db' \<and>
     {r. (7, r) \<in> set (db_user_roles db')} = {1, 2}"
proof -
  have "is_ok (setUserRoles id 7 [1, 2, 0] (Some 8) None example_staff)" by code_simp
  then obtain db' where r: "setUserRoles id 7 [1, 2, 0] (Some 8) None example_staff = Inr db'" by (auto simp: is_ok_iff)
  have "distinct (map r_id (db_roles example_staff))" by (simp add: example_staff_def)
  moreover have "{n \<in> set [1, 2, 0 :: int]. n > 0} = {1, 2}" by auto
  ultimately show ?thesis using set_user_roles_exact [OF r] r by simp
qed

end
