(* ===== verification/Admin_Safety.thy ===== *)
theory Admin_Safety
  imports Roles
begin

text \<open>
  What no operation of the admin panel can break: role and user numbers stay unique, a role with the Admin
  code stays built in, and some user who holds the Admin role can sign in. The operations on roles
  (\<open>roleService.ts\<close>) and on users (\<open>userService.ts\<close>) are the steps of one relation, and the invariant
  goes through it by rule induction.
\<close>

section \<open>An administrator always remains\<close>

text \<open>The operations of the admin panel on roles and users.\<close>

inductive admin_step ::
  "(string \<Rightarrow> string) \<Rightarrow> (string \<Rightarrow> string) \<Rightarrow> identity_db \<Rightarrow> identity_db \<Rightarrow> bool" for collate nfkd where
  admin_create_role: "createRole collate nfkd input actor db = Inr (db', rid) \<Longrightarrow> admin_step collate nfkd db db'"
| admin_duplicate_role: "duplicateRole collate nfkd source actor db = Inr (db', rid) \<Longrightarrow> admin_step collate nfkd db db'"
| admin_update_role: "updateRole collate rid input actor db = Inr db' \<Longrightarrow> admin_step collate nfkd db db'"
| admin_delete_role: "deleteRole rid replacement actor db = Inr db' \<Longrightarrow> admin_step collate nfkd db db'"
| admin_set_roles: "setUserRoles collate uid ids by' primary db = Inr db' \<Longrightarrow> admin_step collate nfkd db db'"
| admin_create_user: "createUser collate hash temp cu db = Inr (db', uid, password) \<Longrightarrow> admin_step collate nfkd db db'"
| admin_update_user: "admin_step collate nfkd db (updateUser uid uu by' db)"
| admin_set_status: "setUserStatus collate uid status db = Inr db' \<Longrightarrow> admin_step collate nfkd db db'"
| admin_force: "admin_step collate nfkd db (forcePasswordChange uid db)"
| admin_reset: "adminResetPassword hash temp now uid explicit db = Inr (db', password) \<Longrightarrow> admin_step collate nfkd db db'"
| admin_revoke: "admin_step collate nfkd db (revokeSessions now uid db)"

inductive admin_run ::
  "(string \<Rightarrow> string) \<Rightarrow> (string \<Rightarrow> string) \<Rightarrow> identity_db \<Rightarrow> identity_db \<Rightarrow> bool" for collate nfkd where
  run_done: "admin_run collate nfkd db db"
| run_more: "admin_run collate nfkd db db' \<Longrightarrow> admin_step collate nfkd db' db'' \<Longrightarrow> admin_run collate nfkd db db''"

text \<open>Numbers are unique and a role with the Admin code is built in; some holder of it can sign in.\<close>

definition wf_roles :: "(string \<Rightarrow> string) \<Rightarrow> identity_db \<Rightarrow> bool" where
  "wf_roles collate db \<longleftrightarrow> distinct (map r_id (db_roles db)) \<and> distinct (map au_id (db_users db)) \<and>
     list_all (\<lambda>r. collate (r_name r) = collate ADMIN_ROLE_NAME \<longrightarrow> r_system r) (db_roles db)"

definition active_admin :: "(string \<Rightarrow> string) \<Rightarrow> identity_db \<Rightarrow> bool" where
  "active_admin collate db \<longleftrightarrow> (case adminRoleId collate db of None \<Rightarrow> False
     | Some a \<Rightarrow> list_ex (\<lambda>u. can_sign_in (au_status u) \<and> (au_id u, a) \<in> set (db_user_roles db)) (db_users db))"

lemma active_admin_iff:
  "active_admin collate db \<longleftrightarrow> (\<exists>a u. adminRoleId collate db = Some a \<and> u \<in> set (db_users db) \<and>
     can_sign_in (au_status u) \<and> (au_id u, a) \<in> set (db_user_roles db))"
  by (auto simp: active_admin_def list_ex_iff split: option.split)

lemma active_admin_mono:
  assumes "active_admin collate db" "adminRoleId collate db' = adminRoleId collate db"
    "\<And>u a. u \<in> set (db_users db) \<Longrightarrow> can_sign_in (au_status u) \<Longrightarrow> adminRoleId collate db = Some a \<Longrightarrow>
       (au_id u, a) \<in> set (db_user_roles db) \<Longrightarrow>
       \<exists>w \<in> set (db_users db'). can_sign_in (au_status w) \<and> (au_id w, a) \<in> set (db_user_roles db')"
  shows "active_admin collate db'"
proof -
  obtain a u where a: "adminRoleId collate db = Some a" "u \<in> set (db_users db)" "can_sign_in (au_status u)"
    "(au_id u, a) \<in> set (db_user_roles db)" using assms(1) by (auto simp: active_admin_iff)
  then show ?thesis using assms(2) assms(3) [OF a(2,3,1,4)] unfolding active_admin_iff by metis
qed

definition admin_inv :: "(string \<Rightarrow> string) \<Rightarrow> identity_db \<Rightarrow> bool" where
  "admin_inv collate db \<longleftrightarrow> wf_roles collate db \<and> active_admin collate db"

lemma admin_inv_update_user:
  assumes "admin_inv collate db" "\<And>u. au_id (f u) = au_id u" "\<And>u. can_sign_in (au_status (f u)) = can_sign_in (au_status u)"
  shows "admin_inv collate (update_user uid f db)"
proof -
  have "active_admin collate (update_user uid f db)"
  proof (rule active_admin_mono [of _ db])
    fix u a assume u: "u \<in> set (db_users db)" "can_sign_in (au_status u)" "(au_id u, a) \<in> set (db_user_roles db)"
    have "(if au_id u = uid then f u else u) \<in> set (db_users (update_user uid f db))"
      using u(1) by (auto simp: update_user_def set_update_where)
    then show "\<exists>w \<in> set (db_users (update_user uid f db)). can_sign_in (au_status w) \<and>
        (au_id w, a) \<in> set (db_user_roles (update_user uid f db))"
      using u assms(2,3) by (intro bexI [of _ "if au_id u = uid then f u else u"]) auto
  qed (use assms(1) in \<open>simp_all add: admin_inv_def adminRoleId_def\<close>)
  moreover have "map au_id (db_users (update_user uid f db)) = map au_id (db_users db)" using assms(2) by simp
  ultimately show ?thesis using assms(1) by (simp add: admin_inv_def wf_roles_def)
qed

lemma admin_inv_tables:
  assumes "admin_inv collate db" "db_users db' = db_users db" "db_roles db' = db_roles db"
    "set (db_user_roles db) \<subseteq> set (db_user_roles db')"
  shows "admin_inv collate db'"
proof -
  have "adminRoleId collate db' = adminRoleId collate db" by (simp add: adminRoleId_def assms(3))
  then have "active_admin collate db'"
    using assms active_admin_mono [of collate db db'] unfolding admin_inv_def by (metis subsetD)
  then show ?thesis using assms by (simp add: admin_inv_def wf_roles_def)
qed

lemma admin_inv_history [simp]: "admin_inv collate (recordLoginHistory db i mail ev) = admin_inv collate db"
  by (simp add: admin_inv_def wf_roles_def active_admin_iff adminRoleId_def)

lemma admin_inv_audit [simp]: "admin_inv collate (writeAuditLog db e i a by') = admin_inv collate db"
  by (simp add: admin_inv_def wf_roles_def active_admin_iff adminRoleId_def)

lemma countOther_pos:
  "countOtherActiveAdmins collate db uid \<noteq> 0 \<longleftrightarrow> (\<exists>a u. adminRoleId collate db = Some a \<and> u \<in> set (db_users db) \<and>
     can_sign_in (au_status u) \<and> au_id u \<noteq> uid \<and> (au_id u, a) \<in> set (db_user_roles db))"
  by (force simp: countOtherActiveAdmins_def filter_empty_conv split: option.split)

lemma admin_inv_set_status:
  assumes "admin_inv collate db" "setUserStatus collate uid status db = Inr db'"
  shows "admin_inv collate db'"
proof (cases "can_sign_in status")
  case True
  let ?f = "\<lambda>u. u\<lparr>au_status := status, au_failed := 0\<rparr>"
  have db': "admin_inv collate db' = admin_inv collate (update_user uid ?f db)"
    using assms(2) by (auto simp: setUserStatus_def Let_def rbind_eq_Inr)
  have "active_admin collate (update_user uid ?f db)"
  proof (rule active_admin_mono [of _ db])
    fix u a assume u: "u \<in> set (db_users db)" "can_sign_in (au_status u)" "(au_id u, a) \<in> set (db_user_roles db)"
    have "(if au_id u = uid then ?f u else u) \<in> set (db_users (update_user uid ?f db))"
      using u(1) by (auto simp: update_user_def set_update_where)
    then show "\<exists>w \<in> set (db_users (update_user uid ?f db)). can_sign_in (au_status w) \<and>
        (au_id w, a) \<in> set (db_user_roles (update_user uid ?f db))"
      using u True by (intro bexI [of _ "if au_id u = uid then ?f u else u"]) auto
  qed (use assms(1) in \<open>simp_all add: admin_inv_def adminRoleId_def\<close>)
  then show ?thesis using assms(1) unfolding db' by (simp add: admin_inv_def wf_roles_def)
next
  case False
  then have s: "status = INACTIVE \<or> status = LOCKED" by (cases status) (simp_all add: can_sign_in_def)
  let ?f = "\<lambda>u. u\<lparr>au_status := status, au_failed := 0\<rparr>"
  have g: "\<not> (userHoldsAdmin collate db uid \<and> countOtherActiveAdmins collate db uid = 0)"
    and db': "admin_inv collate db' = admin_inv collate (update_user uid ?f db)"
    using assms(2) s by (auto simp: setUserStatus_def Let_def rbind_eq_Inr assertCanDeactivate_def ensure_eq_Inr)
  obtain a u where a: "adminRoleId collate db = Some a" "u \<in> set (db_users db)" "can_sign_in (au_status u)"
    "(au_id u, a) \<in> set (db_user_roles db)" "au_id u \<noteq> uid"
  proof -
    obtain a u where a: "adminRoleId collate db = Some a" "u \<in> set (db_users db)" "can_sign_in (au_status u)"
      "(au_id u, a) \<in> set (db_user_roles db)" using assms(1) by (auto simp: admin_inv_def active_admin_iff)
    show ?thesis
    proof (cases "au_id u = uid")
      case True
      then have "countOtherActiveAdmins collate db uid \<noteq> 0" using g a by (simp add: userHoldsAdmin_def)
      then show ?thesis using that unfolding countOther_pos by blast
    qed (use that a in blast)
  qed
  have "u \<in> set (db_users (update_user uid ?f db))" using a by (auto simp: update_user_def set_update_where)
  then have "active_admin collate (update_user uid ?f db)"
    using a unfolding active_admin_iff by (auto simp: adminRoleId_def)
  then show ?thesis using assms(1) unfolding db' by (simp add: admin_inv_def wf_roles_def)
qed

lemma adminRoleId_names:
  "map (\<lambda>r. (r_id r, r_name r)) (db_roles db') = map (\<lambda>r. (r_id r, r_name r)) (db_roles db) \<Longrightarrow>
   adminRoleId collate db' = adminRoleId collate db"
proof -
  have "map_option r_id (first_row (filter (\<lambda>r. collate (r_name r) = x) rs)) =
      map_option fst (first_row (filter (\<lambda>p. collate (snd p) = x) (map (\<lambda>r. (r_id r, r_name r)) rs)))"
    for x and rs :: "role_row list"
    by (induction rs) auto
  then show "map (\<lambda>r. (r_id r, r_name r)) (db_roles db') = map (\<lambda>r. (r_id r, r_name r)) (db_roles db) \<Longrightarrow>
      adminRoleId collate db' = adminRoleId collate db"
    by (simp add: adminRoleId_def)
qed

lemma active_admin_role:
  "active_admin collate db \<Longrightarrow> \<exists>r \<in> set (db_roles db). collate (r_name r) = collate ADMIN_ROLE_NAME"
  by (auto simp: active_admin_iff adminRoleId_def dest!: first_row_Some)

lemma admin_inv_create_role:
  assumes "admin_inv collate db" "createRole collate nfkd input actor db = Inr (db', rid)"
  shows "admin_inv collate db'"
proof -
  obtain label description tier code row where c:
    "uniqueRoleCode collate nfkd db label = Inr code" "rid = next_id (map r_id (db_roles db))"
    and row: "row = \<lparr>r_id = rid, r_name = code, r_label = label, r_description = description, r_system = False,
             r_tier = Some tier, r_created_by = Some actor\<rparr>"
    and db': "db' = writeAuditLog (writePermissionSet (db\<lparr>db_roles := db_roles db @ [row]\<rparr>) rid
       (normalizePermissionSet False (object_entries (ri_permissions input)))) ROLE_ENTITY rid AUDIT_CREATE (Some actor)"
    using createRole_Inr [OF assms(2)] by metis
  have notadmin: "collate (r_name row) \<noteq> collate ADMIN_ROLE_NAME"
  proof -
    obtain r where "r \<in> set (db_roles db)" "collate (r_name r) = collate ADMIN_ROLE_NAME"
      using active_admin_role assms(1) unfolding admin_inv_def by blast
    then show ?thesis using uniqueRoleCode_Inr(2) [OF c(1)] by (auto simp: row)
  qed
  have "rid \<notin> r_id ` set (db_roles db)" using next_id_fresh [of "map r_id (db_roles db)"] c(2) by auto
  then have "wf_roles collate db'" using assms(1) notadmin by (simp add: db' row admin_inv_def wf_roles_def)
  moreover have "adminRoleId collate db' = adminRoleId collate db" using notadmin by (simp add: db' adminRoleId_def)
  then have "active_admin collate db'" using assms(1) by (simp add: db' admin_inv_def active_admin_iff)
  ultimately show ?thesis by (simp add: admin_inv_def)
qed

lemma apply_role_update_keeps:
  "db_users (apply_role_update rid prior l d t ps actor db) = db_users db"
  "db_user_roles (apply_role_update rid prior l d t ps actor db) = db_user_roles db"
  "map (\<lambda>r. (r_id r, r_name r, r_system r)) (db_roles (apply_role_update rid prior l d t ps actor db)) =
   map (\<lambda>r. (r_id r, r_name r, r_system r)) (db_roles db)"
proof -
  have sync: "db_users (fold (\<lambda>u. syncRoleTierAssignment (au_id u) t) us d) = db_users d"
    "db_user_roles (fold (\<lambda>u. syncRoleTierAssignment (au_id u) t) us d) = db_user_roles d"
    "db_roles (fold (\<lambda>u. syncRoleTierAssignment (au_id u) t) us d) = db_roles d" for us t d
    by (induction us arbitrary: d) auto
  have names: "map (\<lambda>r. (r_id r, r_name r, r_system r)) (update_where P (\<lambda>r. r\<lparr>r_label := l, r_description := d, r_tier := t\<rparr>) rs) =
      map (\<lambda>r. (r_id r, r_name r, r_system r)) rs" for P l d t and rs :: "role_row list"
    by (rule map_update_where_key) simp
  show "db_users (apply_role_update rid prior l d t ps actor db) = db_users db"
    "db_user_roles (apply_role_update rid prior l d t ps actor db) = db_user_roles db"
    "map (\<lambda>r. (r_id r, r_name r, r_system r)) (db_roles (apply_role_update rid prior l d t ps actor db)) =
     map (\<lambda>r. (r_id r, r_name r, r_system r)) (db_roles db)"
    by (cases ps; simp add: apply_role_update_def Let_def sync names)+
qed

lemma updateRole_Inr:
  "updateRole collate rid input actor db = Inr db' \<Longrightarrow>
   \<exists>prior l d t ps. db' = apply_role_update rid prior l d t ps actor db"
  by (auto simp: updateRole_def rbind_eq_Inr Let_def simp del: split_paired_Ex split: option.splits) blast+

lemma list_all_names:
  assumes "map (\<lambda>r. (r_id r, r_name r, r_system r)) rs' = map (\<lambda>r. (r_id r, r_name r, r_system r)) rs"
  shows "map r_id rs' = map r_id rs" "map (\<lambda>r. (r_id r, r_name r)) rs' = map (\<lambda>r. (r_id r, r_name r)) rs"
    "list_all (\<lambda>r. Q (r_name r) \<longrightarrow> r_system r) rs' = list_all (\<lambda>r. Q (r_name r) \<longrightarrow> r_system r) rs"
proof -
  have l2: "list_all2 (\<lambda>r s. r_id r = r_id s \<and> r_name r = r_name s \<and> r_system r = r_system s) rs' rs"
    using assms by (simp add: list.rel_eq [symmetric] list.rel_map)
  show "map r_id rs' = map r_id rs" "map (\<lambda>r. (r_id r, r_name r)) rs' = map (\<lambda>r. (r_id r, r_name r)) rs"
    "list_all (\<lambda>r. Q (r_name r) \<longrightarrow> r_system r) rs' = list_all (\<lambda>r. Q (r_name r) \<longrightarrow> r_system r) rs"
    using l2 by (induction rule: list_all2_induct) auto
qed

lemma admin_inv_update_role:
  assumes "admin_inv collate db" "updateRole collate rid input actor db = Inr db'"
  shows "admin_inv collate db'"
proof -
  obtain prior l d t ps where db': "db' = apply_role_update rid prior l d t ps actor db"
    using updateRole_Inr [OF assms(2)] by blast
  note u = apply_role_update_keeps [of rid prior l d t ps actor db, folded db']
  note m = list_all_names [OF u(3)]
  have a: "adminRoleId collate db' = adminRoleId collate db" by (rule adminRoleId_names [OF m(2)])
  show ?thesis
    using assms(1) u(1,2) m(1) m(3) [of "\<lambda>n. collate n = collate ADMIN_ROLE_NAME"] a
    by (simp add: admin_inv_def wf_roles_def active_admin_iff)
qed

lemma admin_inv_delete_role:
  assumes "admin_inv collate db" "deleteRole rid replacement actor db = Inr db'"
  shows "admin_inv collate db'"
proof -
  obtain role where role: "getRoleById db rid = Some role" "\<not> r_system role"
    using assms(2) by (cases rule: deleteRole_Inr) auto
  have wf: "wf_roles collate db" "active_admin collate db" using assms(1) by (simp_all add: admin_inv_def)
  have "role \<in> set (db_roles db)" "r_id role = rid" using role(1) by (auto simp: getRoleById_find dest!: find_SomeD)
  then have sys: "r_id r \<noteq> rid" if "r \<in> set (db_roles db)" "r_system r" for r
    using that role(2) wf(1) by (auto simp: wf_roles_def distinct_map dest: inj_onD)
  have roles: "db_roles db' = delete_where (\<lambda>r. r_id r = rid) (db_roles db)"
    using assms(2)
  proof (cases rule: deleteRole_Inr)
    case (2 role target)
    then show ?thesis
      using fold_move_user [OF 2(4), of "map fst (filter (\<lambda>ur. snd ur = rid) (db_user_roles db))" db] fold_move_primary
      by (simp add: erase_role_def)
  qed (simp add: erase_role_def)
  have "filter (\<lambda>r. collate (r_name r) = collate ADMIN_ROLE_NAME) (delete_where (\<lambda>r. r_id r = rid) (db_roles db)) =
      filter (\<lambda>r. collate (r_name r) = collate ADMIN_ROLE_NAME) (db_roles db)"
    using sys wf(1) by (auto simp: delete_where_def wf_roles_def list_all_iff intro!: filter_cong)
  then have a: "adminRoleId collate db' = adminRoleId collate db" by (simp add: adminRoleId_def roles)
  have ids: "map au_id (db_users db') = map au_id (db_users db) \<and> map au_status (db_users db') = map au_status (db_users db)"
    using assms(2)
  proof (cases rule: deleteRole_Inr)
    case (2 role target)
    then show ?thesis
      using fold_move_user [OF 2(4), of "map fst (filter (\<lambda>ur. snd ur = rid) (db_user_roles db))" db] fold_move_primary
      by (simp add: erase_role_def comp_def)
  qed (simp add: erase_role_def)
  have keep: "(u, r) \<in> set (db_user_roles db')" if "r \<noteq> rid" "(u, r) \<in> set (db_user_roles db)" for u r
    using assms(2)
  proof (cases rule: deleteRole_Inr)
    case (2 role target)
    then show ?thesis
      using fold_move_user [OF 2(4), of "map fst (filter (\<lambda>ur. snd ur = rid) (db_user_roles db))" db] fold_move_primary that
      by (simp add: erase_role_def)
  qed (use that in \<open>simp add: erase_role_def\<close>)
  have "active_admin collate db'"
  proof (rule active_admin_mono [OF wf(2) a])
    fix u b assume u: "u \<in> set (db_users db)" "can_sign_in (au_status u)" "adminRoleId collate db = Some b"
      "(au_id u, b) \<in> set (db_user_roles db)"
    obtain z where "z \<in> set (db_roles db)" "collate (r_name z) = collate ADMIN_ROLE_NAME" "r_id z = b"
      using u(3) by (auto simp: adminRoleId_def dest!: first_row_Some)
    then have "b \<noteq> rid" using sys [of z] wf(1) by (simp add: wf_roles_def list_all_iff)
    obtain i where i: "i < length (db_users db)" "db_users db ! i = u" using u(1) by (auto simp: in_set_conv_nth)
    then have "length (db_users db') = length (db_users db)" using ids by (metis length_map)
    then have "db_users db' ! i \<in> set (db_users db')" "au_id (db_users db' ! i) = au_id u" "au_status (db_users db' ! i) = au_status u"
      using i ids by (metis nth_mem, metis nth_map, metis nth_map)
    then show "\<exists>w \<in> set (db_users db'). can_sign_in (au_status w) \<and> (au_id w, b) \<in> set (db_user_roles db')"
      using u keep [OF \<open>b \<noteq> rid\<close> u(4)] by metis
  qed
  moreover have "wf_roles collate db'"
    using wf(1) ids by (auto simp: wf_roles_def roles delete_where_def list_all_iff distinct_map_filter)
  ultimately show ?thesis by (simp add: admin_inv_def)
qed

lemma another_active_admin:
  assumes "active_admin collate db"
    "\<And>a. adminRoleId collate db = Some a \<Longrightarrow> (uid, a) \<in> set (db_user_roles db) \<Longrightarrow> \<not> keeps a \<Longrightarrow>
       countOtherActiveAdmins collate db uid \<noteq> 0"
  obtains a u where "adminRoleId collate db = Some a" "u \<in> set (db_users db)" "can_sign_in (au_status u)"
    "(au_id u, a) \<in> set (db_user_roles db)" "au_id u = uid \<longrightarrow> keeps a"
proof -
  obtain a u where a: "adminRoleId collate db = Some a" "u \<in> set (db_users db)" "can_sign_in (au_status u)"
    "(au_id u, a) \<in> set (db_user_roles db)" using assms(1) by (auto simp: active_admin_iff)
  show ?thesis
  proof (cases "au_id u = uid \<and> \<not> keeps a")
    case True
    then have "countOtherActiveAdmins collate db uid \<noteq> 0" using assms(2) a by blast
    then show ?thesis using that unfolding countOther_pos by metis
  next
    case False
    then show ?thesis using that a by blast
  qed
qed

lemma admin_inv_set_roles:
  assumes "admin_inv collate db" "setUserRoles collate uid roleIds actor primaryRoleId db = Inr db'"
  shows "admin_inv collate db'"
proof -
  let ?ids = "dedup (filter (\<lambda>n. n > 0) roleIds)"
  obtain primary where guard: "\<And>a. adminRoleId collate db = Some a \<Longrightarrow> (uid, a) \<in> set (db_user_roles db) \<Longrightarrow>
       a \<notin> set ?ids \<Longrightarrow> countOtherActiveAdmins collate db uid \<noteq> 0"
    and ur: "set (db_user_roles db') = {ur \<in> set (db_user_roles db). fst ur \<noteq> uid} \<union> Pair uid ` set ?ids"
    and us: "db_users db' = db_users (update_user uid (\<lambda>u. u\<lparr>au_role := Some primary\<rparr>) db)"
    and rs: "db_roles db' = db_roles db"
    by (rule setUserRoles_Inr [OF assms(2)]) blast
  have "active_admin collate db" using assms(1) by (simp add: admin_inv_def)
  then obtain a u where a: "adminRoleId collate db = Some a" "u \<in> set (db_users db)" "can_sign_in (au_status u)"
    "(au_id u, a) \<in> set (db_user_roles db)" "au_id u = uid \<longrightarrow> a \<in> set ?ids"
    by (rule another_active_admin [of _ _ uid "\<lambda>a. a \<in> set ?ids"]) (use guard in blast)
  let ?w = "if au_id u = uid then u\<lparr>au_role := Some primary\<rparr> else u"
  have "?w \<in> set (db_users db')" using a(2) by (auto simp: us update_user_def set_update_where)
  moreover have "(au_id ?w, a) \<in> set (db_user_roles db')" using a(4,5) by (auto simp: ur)
  moreover have "can_sign_in (au_status ?w)" using a(3) by simp
  moreover have "adminRoleId collate db' = Some a" using a(1) by (simp add: adminRoleId_def rs)
  ultimately have "active_admin collate db'" unfolding active_admin_iff by blast
  moreover have "map au_id (db_users db') = map au_id (db_users db)" by (simp add: us)
  ultimately show ?thesis using assms(1) by (simp add: admin_inv_def wf_roles_def rs)
qed

lemma admin_inv_duplicate_role:
  assumes "admin_inv collate db" "duplicateRole collate nfkd source actor db = Inr (db', rid)"
  shows "admin_inv collate db'"
proof -
  obtain input db1 scope where "createRole collate nfkd input actor db = Inr (db1, rid)" "db' = db1\<lparr>db_scope := scope\<rparr>"
    using assms(2) by (auto simp: duplicateRole_def rbind_eq_Inr split: option.splits)
  then show ?thesis using admin_inv_create_role [OF assms(1)] admin_inv_tables [of collate db1 db'] by simp
qed

lemma fold_insert_user_roles [simp]:
  "db_users (fold (\<lambda>r. insert_user_role uid (g r)) known d) = db_users d"
  "db_roles (fold (\<lambda>r. insert_user_role uid (g r)) known d) = db_roles d"
  "set (db_user_roles (fold (\<lambda>r. insert_user_role uid (g r)) known d)) = set (db_user_roles d) \<union> Pair uid ` g ` set known"
  by (induction known arbitrary: d) (auto simp: insert_user_role_def)

lemma recordSalespersonLinkChange_tables [simp]:
  "db_users (recordSalespersonLinkChange uid p k a d) = db_users d"
  "db_roles (recordSalespersonLinkChange uid p k a d) = db_roles d"
  "db_user_roles (recordSalespersonLinkChange uid p k a d) = db_user_roles d"
  by (simp_all add: recordSalespersonLinkChange_def)

lemma createUser_Inr:
  assumes "createUser collate hash temp cu db = Inr (db', uid, password)"
  shows "\<exists>u. db_users db' = db_users db @ [u] \<and> au_id u = next_id (map au_id (db_users db))"
    "db_roles db' = db_roles db" "set (db_user_roles db) \<subseteq> set (db_user_roles db')"
  using assms by (auto simp: createUser_def Let_def rbind_eq_Inr split: option.splits if_splits)

lemma admin_inv_create_user:
  assumes "admin_inv collate db" "createUser collate hash temp cu db = Inr (db', uid, password)"
  shows "admin_inv collate db'"
proof -
  note c = createUser_Inr [OF assms(2)]
  obtain u where u: "db_users db' = db_users db @ [u]" "au_id u = next_id (map au_id (db_users db))" using c(1) by blast
  have "adminRoleId collate db' = adminRoleId collate db" by (simp add: adminRoleId_def c(2))
  then have "active_admin collate db'" using assms(1) u(1) c(3) by (fastforce simp: admin_inv_def active_admin_iff)
  moreover have "au_id u \<notin> set (map au_id (db_users db))" unfolding u(2) by (rule next_id_fresh)
  ultimately show ?thesis using assms(1) u(1) c(2) by (simp add: admin_inv_def wf_roles_def)
qed

text \<open>The change an edit of a user makes to the row.\<close>

definition account_edit :: "update_user_input \<Rightarrow> app_user \<Rightarrow> app_user" where
  "account_edit uu = (case uu_company_scope uu of None \<Rightarrow> id | Some s \<Rightarrow> au_company_scope_update (\<lambda>_. s)) \<circ>
    (case uu_salesperson_key uu of None \<Rightarrow> id | Some k \<Rightarrow> au_salesperson_key_update (\<lambda>_. k)) \<circ>
    (case uu_name uu of None \<Rightarrow> id | Some n \<Rightarrow> au_name_update (\<lambda>_. n))"

lemma account_edit_keeps [simp]:
  "au_id (account_edit uu u) = au_id u" "au_status (account_edit uu u) = au_status u" "au_role (account_edit uu u) = au_role u"
  by (simp_all add: account_edit_def split: option.split)

lemma updateUser_cases:
  "updateUser uid uu by' db = db \<or> updateUser uid uu by' db = update_user uid (account_edit uu) db \<or>
   (\<exists>p k. updateUser uid uu by' db = recordSalespersonLinkChange uid p k by' (update_user uid (account_edit uu) db))"
  by (cases "uu_salesperson_key uu") (auto simp: updateUser_def account_edit_def Let_def)

lemma admin_inv_update_account:
  assumes "admin_inv collate db"
  shows "admin_inv collate (updateUser uid uu by' db)"
proof -
  have "admin_inv collate (update_user uid (account_edit uu) db)" by (rule admin_inv_update_user [OF assms]) simp_all
  moreover have "admin_inv collate (recordSalespersonLinkChange uid p k a d) = admin_inv collate d" for p k a d
    by (simp add: admin_inv_def wf_roles_def active_admin_iff adminRoleId_def)
  ultimately show ?thesis using assms updateUser_cases [of uid uu by' db] by metis
qed

lemma can_sign_in_pending [simp]: "can_sign_in (to_pending s) = can_sign_in s"
  by (cases s) (simp_all add: to_pending_def can_sign_in_def)

lemma admin_inv_reset:
  assumes "admin_inv collate db" "adminResetPassword hash temp now uid explicit db = Inr (db', password)"
  shows "admin_inv collate db'"
  using assms admin_inv_update_user [OF assms(1)]
  by (auto simp: adminResetPassword_def Let_def split: option.splits)

lemmas admin_inv_steps = admin_inv_create_role admin_inv_duplicate_role admin_inv_update_role admin_inv_delete_role
  admin_inv_set_roles admin_inv_create_user admin_inv_update_account admin_inv_set_status admin_inv_reset

lemma admin_inv_step: "admin_step collate nfkd db db' \<Longrightarrow> admin_inv collate db \<Longrightarrow> admin_inv collate db'"
proof (induction rule: admin_step.induct)
  case (admin_force db uid)
  then show ?case by (simp add: forcePasswordChange_def Let_def admin_inv_update_user)
next
  case (admin_revoke db now uid)
  then show ?case by (simp add: revokeSessions_def Let_def admin_inv_update_user)
qed (blast intro: admin_inv_steps)+

text \<open>C6. Whatever sequence of operations an administrator runs on roles and users, including editing, copying
and deleting roles, reassigning, blocking and resetting users, if some user with the Admin role could sign in
before then some user with the Admin role can sign in after, the Admin role stays built in, and role and user
numbers stay unique.\<close>

theorem admin_operations_keep_an_admin:
  assumes "admin_run collate nfkd db db'" and "admin_inv collate db"
  shows "admin_inv collate db'"
  using assms by (induction rule: admin_run.induct) (blast intro: admin_inv_step)+

section \<open>The primary role is a role of the user\<close>

definition primary_held :: "identity_db \<Rightarrow> bool" where
  "primary_held db = list_all (\<lambda>u. case au_role u of None \<Rightarrow> True | Some r \<Rightarrow> (au_id u, r) \<in> set (db_user_roles db)) (db_users db)"

lemma primary_held_iff:
  "primary_held db \<longleftrightarrow> (\<forall>u r. u \<in> set (db_users db) \<longrightarrow> au_role u = Some r \<longrightarrow> (au_id u, r) \<in> set (db_user_roles db))"
  by (fastforce simp: primary_held_def list_all_iff split: option.splits)

lemma primary_held_mono:
  assumes "primary_held db" "set (db_user_roles db) \<subseteq> set (db_user_roles db')"
    "\<And>w. w \<in> set (db_users db') \<Longrightarrow>
       (\<exists>u \<in> set (db_users db). au_id u = au_id w \<and> au_role u = au_role w) \<or> au_role w = None"
  shows "primary_held db'"
  unfolding primary_held_iff
proof (intro allI impI)
  fix w r assume w: "w \<in> set (db_users db')" "au_role w = Some r"
  then obtain u where "u \<in> set (db_users db)" "au_id u = au_id w" "au_role u = Some r" using assms(3) by fastforce
  then have "(au_id w, r) \<in> set (db_user_roles db)" using assms(1) unfolding primary_held_iff by metis
  then show "(au_id w, r) \<in> set (db_user_roles db')" using assms(2) by blast
qed

lemma primary_held_same:
  "primary_held db \<Longrightarrow> db_users db' = db_users db \<Longrightarrow> db_user_roles db' = db_user_roles db \<Longrightarrow> primary_held db'"
  by (simp add: primary_held_iff)

lemma primary_held_update_user:
  assumes "primary_held db" "\<And>u. au_id (f u) = au_id u" "\<And>u. au_role (f u) = au_role u"
  shows "primary_held (update_user uid f db)"
proof (rule primary_held_mono [OF assms(1)])
  fix w assume "w \<in> set (db_users (update_user uid f db))"
  then show "(\<exists>u \<in> set (db_users db). au_id u = au_id w \<and> au_role u = au_role w) \<or> au_role w = None"
    using assms(2,3) by (fastforce simp: update_user_def set_update_where)
qed simp

lemma primary_held_history [simp]: "primary_held (recordLoginHistory db i mail ev) = primary_held db"
  by (simp add: primary_held_iff recordLoginHistory_def)

lemma primary_held_create_role:
  assumes "primary_held db" "createRole collate nfkd input actor db = Inr (db', rid)"
  shows "primary_held db'"
proof -
  have "db_users db' = db_users db" "db_user_roles db' = db_user_roles db"
    using assms(2) by (auto simp: createRole_def Let_def rbind_eq_Inr)
  then show ?thesis using primary_held_same [OF assms(1)] by blast
qed

lemma primary_held_duplicate_role:
  assumes "primary_held db" "duplicateRole collate nfkd source actor db = Inr (db', rid)"
  shows "primary_held db'"
proof -
  obtain input db1 scope where "createRole collate nfkd input actor db = Inr (db1, rid)" "db' = db1\<lparr>db_scope := scope\<rparr>"
    using assms(2) by (auto simp: duplicateRole_def rbind_eq_Inr split: option.splits)
  then show ?thesis using primary_held_create_role [OF assms(1)] primary_held_same [of db1 db'] by simp
qed

lemma primary_held_update_role:
  assumes "primary_held db" "updateRole collate rid input actor db = Inr db'"
  shows "primary_held db'"
  using updateRole_Inr [OF assms(2)] primary_held_same [OF assms(1)] apply_role_update_keeps(1,2) by metis

lemma primary_held_delete_role:
  assumes "primary_held db" "deleteRole rid replacement actor db = Inr db'"
  shows "primary_held db'"
  using assms(2)
proof (cases rule: deleteRole_Inr)
  case (1 role)
  then show ?thesis using assms(1) by (auto simp: primary_held_iff erase_role_def)
next
  case (2 role target)
  let ?users = "map fst (filter (\<lambda>ur. snd ur = rid) (db_user_roles db))"
  let ?prim = "map au_id (filter (\<lambda>u. au_role u = Some rid) (db_users db))"
  note m = fold_move_user [OF 2(4), of ?users db] and p = fold_move_primary [of target ?prim "fold (move_user rid (r_id target)) ?users db"]
  have ur: "set (db_user_roles db') = {ur \<in> set (db_user_roles db). snd ur \<noteq> rid} \<union> (\<lambda>u. (u, r_id target)) ` set ?users"
    using m p by (auto simp: 2(6) erase_role_def image_iff)
  have us: "db_users db' = map (\<lambda>u. if au_id u \<in> set ?prim then u\<lparr>au_role := Some (r_id target)\<rparr> else u) (db_users db)"
    using m p by (simp add: 2(6) erase_role_def)
  have moved: "i \<in> set ?users" if "i \<in> set ?prim" for i
    using that assms(1) by (force simp: primary_held_iff)
  show ?thesis unfolding primary_held_iff
  proof (intro allI impI)
    fix w r assume w: "w \<in> set (db_users db')" "au_role w = Some r"
    then obtain u where u: "u \<in> set (db_users db)" "w = (if au_id u \<in> set ?prim then u\<lparr>au_role := Some (r_id target)\<rparr> else u)"
      by (auto simp: us)
    show "(au_id w, r) \<in> set (db_user_roles db')"
    proof (cases "au_id u \<in> set ?prim")
      case True
      then show ?thesis using moved [OF True] u w(2) unfolding ur by auto
    next
      case False
      then have "r \<noteq> rid" using u w(2) by auto
      moreover have "(au_id w, r) \<in> set (db_user_roles db)" using False u w(2) assms(1) by (auto simp: primary_held_iff)
      ultimately show ?thesis unfolding ur by simp
    qed
  qed
qed

lemma primary_held_set_roles:
  assumes "primary_held db" "setUserRoles collate uid roleIds actor primaryRoleId db = Inr db'"
  shows "primary_held db'"
proof -
  let ?ids = "dedup (filter (\<lambda>n. n > 0) roleIds)"
  obtain primary where "primary \<in> set ?ids"
    and ur: "set (db_user_roles db') = {ur \<in> set (db_user_roles db). fst ur \<noteq> uid} \<union> Pair uid ` set ?ids"
    and us: "db_users db' = db_users (update_user uid (\<lambda>u. u\<lparr>au_role := Some primary\<rparr>) db)"
    by (rule setUserRoles_Inr [OF assms(2)]) blast
  show ?thesis unfolding primary_held_iff
  proof (intro allI impI)
    fix w r assume w: "w \<in> set (db_users db')" "au_role w = Some r"
    then obtain u where u: "u \<in> set (db_users db)" "w = (if au_id u = uid then u\<lparr>au_role := Some primary\<rparr> else u)"
      unfolding us by (fastforce simp: update_user_def update_where_def)
    show "(au_id w, r) \<in> set (db_user_roles db')"
    proof (cases "au_id u = uid")
      case True
      then show ?thesis using u w(2) \<open>primary \<in> set ?ids\<close> unfolding ur by simp
    next
      case False
      then show ?thesis using u w(2) assms(1) unfolding ur primary_held_iff by simp
    qed
  qed
qed

lemma primary_held_create_user:
  assumes "primary_held db" "createUser collate hash temp cu db = Inr (db', uid, password)"
  shows "primary_held db'"
proof -
  let ?u = "next_id (map au_id (db_users db))"
  have "\<exists>u. db_users db' = db_users db @ [u] \<and> au_id u = ?u \<and> au_role u = Some (cu_role cu)"
    using assms(2) by (auto simp: createUser_def Let_def rbind_eq_Inr split: option.splits if_splits)
  then obtain u where u: "db_users db' = db_users db @ [u]" "au_id u = ?u" "au_role u = Some (cu_role cu)" by blast
  have "\<exists>role. getRoleById db (cu_role cu) = Some role" using assms(2)
    by (auto simp: createUser_def rbind_eq_Inr split: option.splits)
  then obtain role where "role \<in> set (db_roles db)" "r_id role = cu_role cu"
    by (auto simp: getRoleById_find dest!: find_SomeD)
  then have "cu_role cu \<in> r_id ` {r \<in> set (db_roles db). r_id r = cu_role cu \<or> P r}" for P by force
  then have "(?u, cu_role cu) \<in> set (db_user_roles db')"
    using assms(2) by (auto simp: createUser_def Let_def rbind_eq_Inr split: option.splits if_splits)
  then show ?thesis using assms(1) u createUser_Inr(3) [OF assms(2)] by (auto simp: primary_held_iff)
qed

lemma primary_held_update_account: "primary_held db \<Longrightarrow> primary_held (updateUser uid uu by' db)"
proof -
  assume h: "primary_held db"
  have "primary_held (update_user uid (account_edit uu) db)" by (rule primary_held_update_user [OF h]) simp_all
  then show ?thesis
    using h updateUser_cases [of uid uu by' db] primary_held_same recordSalespersonLinkChange_tables by metis
qed

lemma primary_held_set_status: "primary_held db \<Longrightarrow> setUserStatus collate uid status db = Inr db' \<Longrightarrow> primary_held db'"
  using primary_held_update_user [of db "\<lambda>u. u\<lparr>au_status := status, au_failed := 0\<rparr>" uid]
  by (auto simp: setUserStatus_def Let_def rbind_eq_Inr)

lemma primary_held_reset:
  assumes "primary_held db" "adminResetPassword hash temp now uid explicit db = Inr (db', password)"
  shows "primary_held db'"
  using assms primary_held_update_user [OF assms(1)]
  by (auto simp: adminResetPassword_def Let_def split: option.splits)

lemmas primary_held_steps = primary_held_create_role primary_held_duplicate_role primary_held_update_role
  primary_held_delete_role primary_held_set_roles primary_held_create_user primary_held_update_account
  primary_held_set_status primary_held_reset

lemma primary_held_step: "admin_step collate nfkd db db' \<Longrightarrow> primary_held db \<Longrightarrow> primary_held db'"
proof (induction rule: admin_step.induct)
  case (admin_force db uid)
  then show ?case
    using primary_held_update_user [of db "\<lambda>u. u\<lparr>au_must_change := True, au_status := to_pending (au_status u)\<rparr>" uid]
    by (simp add: forcePasswordChange_def Let_def)
next
  case (admin_revoke db now uid)
  then show ?case
    using primary_held_update_user [of db "\<lambda>u. u\<lparr>au_sessions_revoked := Some now\<rparr>" uid]
    by (simp add: revokeSessions_def Let_def)
qed (blast intro: primary_held_steps)+

lemma delete_no_TypeError: "primary_held db \<Longrightarrow> deleteRole rid replacement actor db \<noteq> Inl TypeError"
proof
  assume h: "primary_held db" and d: "deleteRole rid replacement actor db = Inl TypeError"
  have u: "map fst (filter (\<lambda>ur. snd ur = rid) (db_user_roles db)) = []" and "filter (\<lambda>u. au_role u = Some rid) (db_users db) \<noteq> []"
    using d by (auto simp: deleteRole_def Let_def rbind_eq_Inl split: option.splits if_splits)
  then obtain w where "w \<in> set (db_users db)" "au_role w = Some rid" by (auto simp: filter_empty_conv)
  then have "(au_id w, rid) \<in> set (db_user_roles db)" using h by (simp add: primary_held_iff)
  then show False using u by (auto simp: filter_empty_conv)
qed

text \<open>C20. The primary role of every user is one of the roles the user holds, after every sequence of operations
of the admin panel that starts so; then deleting a role never reaches the use of a missing replacement,
which it does on a role that is only somebody's primary role.\<close>

theorem primary_role_is_held:
  assumes "admin_run collate nfkd db db'" and "primary_held db"
  shows "primary_held db' \<and> deleteRole rid replacement actor db' \<noteq> Inl TypeError"
proof -
  have "primary_held db'" using assms by (induction rule: admin_run.induct) (blast intro: primary_held_step)+
  then show ?thesis using delete_no_TypeError by blast
qed

section \<open>Concrete runs\<close>

lemma example_run: "\<exists>db'. admin_run id id example_staff db' \<and> setUserRoles id 7 [1] (Some 8) None example_staff = Inr db'"
proof -
  have "is_ok (setUserRoles id 7 [1] (Some 8) None example_staff)" by code_simp
  then obtain db' where "setUserRoles id 7 [1] (Some 8) None example_staff = Inr db'" by (auto simp: is_ok_iff)
  then show ?thesis using run_more [OF run_done admin_set_roles] by blast
qed

theorem admin_operations_keep_an_admin_witness: "\<exists>db'. admin_run id id example_staff db' \<and> active_admin id db'"
proof -
  have "admin_inv id example_staff" by code_simp
  then show ?thesis using example_run admin_operations_keep_an_admin unfolding admin_inv_def by blast
qed

theorem primary_role_is_held_witness: "\<exists>db'. admin_run id id example_staff db' \<and> deleteRole 2 None 8 db' \<noteq> Inl TypeError"
proof -
  have "primary_held example_staff" by code_simp
  then show ?thesis using example_run primary_role_is_held by blast
qed

end
