(* ===== verification/Nps_Sla.thy ===== *)
theory Nps_Sla
  imports Calendar
begin

text \<open>
  The follow-up SLA (\<open>backend/src/config/npsSla.ts\<close>) and the score bands
  (\<open>backend/src/config/npsThresholds.ts\<close>). Times are wall-clock texts \<open>yyyy-mm-dd hh:mm:ss\<close>; \<open>wall\<close> is
  their number of milliseconds, \<open>None\<close> standing for \<open>NaN\<close> on a text that is no such time. Hours are exact
  rationals: the limits are whole hours, and whole seconds are compared with them exactly.
\<close>

section \<open>Wall-clock times\<close>

definition two_digits :: "nat \<Rightarrow> string \<Rightarrow> int" where
  "two_digits i s = int (dec_val (take 2 (drop i s)))"

definition wall_shape :: "string \<Rightarrow> bool" where
  "wall_shape s \<longleftrightarrow> length s = 19 \<and> (s ! 10 = CHR '' '' \<or> s ! 10 = CHR ''T'') \<and> s ! 13 = CHR '':'' \<and> s ! 16 = CHR '':'' \<and>
     list_all is_digit (take 2 (drop 11 s)) \<and> list_all is_digit (take 2 (drop 14 s)) \<and> list_all is_digit (take 2 (drop 17 s))"

text \<open>\<open>Date.parse(s.replace(' ', 'T') + 'Z')\<close>: hour 24 only as 24:00:00.\<close>

definition wall :: "string \<Rightarrow> int option" where
  "wall s =
     (let h = two_digits 11 s; mi = two_digits 14 s; sec = two_digits 17 s in
      if wall_shape s \<and> (h \<le> 23 \<or> h = 24 \<and> mi = 0 \<and> sec = 0) \<and> mi \<le> 59 \<and> sec \<le> 59
      then map_option (\<lambda>d. (((d * 24 + h) * 60 + mi) * 60 + sec) * 1000) (parse_iso (take 10 s))
      else None)"

definition hours_of_ms :: "int \<Rightarrow> rat" where
  "hours_of_ms ms = of_int ms / 3600000"

text \<open>\<open>Math.max(0, (wall(to) - wall(from)) / 3_600_000)\<close>, \<open>NaN\<close> when a time is none.\<close>

definition hoursBetween :: "string \<Rightarrow> string \<Rightarrow> jsnum" where
  "hoursBetween f t =
     (case (wall f, wall t) of
        (Some a, Some b) \<Rightarrow> Fin (max 0 (hours_of_ms (b - a)))
      | _ \<Rightarrow> NaN)"

text \<open>The comparisons with a finite number, false on \<open>NaN\<close>.\<close>

definition num_le :: "jsnum \<Rightarrow> rat \<Rightarrow> bool" where
  "num_le n r = (case n of Fin x \<Rightarrow> x \<le> r | NegInf \<Rightarrow> True | _ \<Rightarrow> False)"

definition num_gt :: "jsnum \<Rightarrow> rat \<Rightarrow> bool" where
  "num_gt n r = (case n of Fin x \<Rightarrow> x > r | PosInf \<Rightarrow> True | _ \<Rightarrow> False)"

definition round1 :: "jsnum \<Rightarrow> jsnum" where
  "round1 n = (case n of Fin h \<Rightarrow> Fin (of_int \<lfloor>h * 10 + 1 / 2\<rfloor> / 10) | _ \<Rightarrow> n)"

definition minus_hours :: "jsnum \<Rightarrow> rat \<Rightarrow> jsnum" where
  "minus_hours n r = (case n of Fin h \<Rightarrow> Fin (h - r) | _ \<Rightarrow> n)"

section \<open>The SLA of a case\<close>

definition CONTACT_HOURS :: rat where
  "CONTACT_HOURS = 24"

definition CLOSE_DAYS :: rat where
  "CLOSE_DAYS = 5"

definition HOURS_PER_DAY :: rat where
  "HOURS_PER_DAY = 24"

definition CLOSE_HOURS :: rat where
  "CLOSE_HOURS = CLOSE_DAYS * HOURS_PER_DAY"

datatype sla_band = Green | Amber | Red | Grey

datatype sla_rule = Open_within_contact | Open_contacted | Contact_missed | Close_missed
  | Resolved_in_sla | Resolved_late | Rule_rejected | Rule_historical

record case_sla =
  sla_band :: sla_band
  sla_rule :: sla_rule
  sla_hours :: "jsnum option"
  sla_exact :: "jsnum option"
  sla_over :: "jsnum option"
  sla_contacted :: "bool option"

record sla_input =
  si_stage :: string
  si_created :: "string option"
  si_contacted :: "string option"
  si_resolved :: "string option"

text \<open>A nullable text that is truthy: present and not empty.\<close>

definition given :: "string option \<Rightarrow> bool" where
  "given s = (s \<noteq> None \<and> s \<noteq> Some [])"

definition OPEN_STAGE_NAMES :: "string list" where
  "OPEN_STAGE_NAMES = [''NEW'', ''CONTACTED'', ''IN_PROGRESS'']"

definition no_sla :: "sla_rule \<Rightarrow> bool option \<Rightarrow> case_sla" where
  "no_sla r contacted = \<lparr>sla_band = Grey, sla_rule = r, sla_hours = None, sla_exact = None, sla_over = None,
     sla_contacted = contacted\<rparr>"

definition timed_sla :: "sla_band \<Rightarrow> sla_rule \<Rightarrow> jsnum \<Rightarrow> rat option \<Rightarrow> bool option \<Rightarrow> case_sla" where
  "timed_sla b r h limit contacted = \<lparr>sla_band = b, sla_rule = r, sla_hours = Some (round1 h), sla_exact = Some h,
     sla_over = map_option (\<lambda>l. round1 (minus_hours h l)) limit, sla_contacted = contacted\<rparr>"

definition caseSla :: "sla_input \<Rightarrow> string \<Rightarrow> case_sla" where
  "caseSla c now =
     (let contacted = (case (si_contacted c, si_created c) of
            (Some k, Some d) \<Rightarrow> if k \<noteq> [] \<and> d \<noteq> [] then Some (num_le (hoursBetween d k) CONTACT_HOURS) else None
          | _ \<Rightarrow> None) in
      if si_stage c = ''REJECTED'' then no_sla Rule_rejected contacted
      else if si_stage c = ''HISTORICAL'' \<or> \<not> given (si_created c) then no_sla Rule_historical contacted
      else let created = the (si_created c) in
        if si_stage c = ''RESOLVED'' then
          (if \<not> given (si_resolved c) then no_sla Rule_historical contacted
           else let took = hoursBetween created (the (si_resolved c)) in
             if num_le took CLOSE_HOURS then timed_sla Green Resolved_in_sla took None contacted
             else timed_sla Red Resolved_late took (Some CLOSE_HOURS) contacted)
        else if si_stage c \<notin> set OPEN_STAGE_NAMES then no_sla Rule_historical contacted
        else let age = hoursBetween created now in
          if num_gt age CLOSE_HOURS then timed_sla Red Close_missed age (Some CLOSE_HOURS) contacted
          else if num_gt age CONTACT_HOURS \<and> \<not> given (si_contacted c) then timed_sla Red Contact_missed age (Some CONTACT_HOURS) contacted
          else if num_le age CONTACT_HOURS then timed_sla Green Open_within_contact age None contacted
          else timed_sla Amber Open_contacted age None contacted)"

section \<open>The ageing chart\<close>

record ageing_bucket =
  ab_key :: string
  ab_max :: "rat option"

definition AGEING_BUCKETS :: "ageing_bucket list" where
  "AGEING_BUCKETS = [\<lparr>ab_key = ''d1'', ab_max = Some HOURS_PER_DAY\<rparr>, \<lparr>ab_key = ''d2'', ab_max = Some (2 * HOURS_PER_DAY)\<rparr>,
     \<lparr>ab_key = ''d5'', ab_max = Some CLOSE_HOURS\<rparr>, \<lparr>ab_key = ''d10'', ab_max = Some (10 * HOURS_PER_DAY)\<rparr>,
     \<lparr>ab_key = ''d30'', ab_max = Some (30 * HOURS_PER_DAY)\<rparr>, \<lparr>ab_key = ''dmax'', ab_max = None\<rparr>]"

definition within_sla :: "ageing_bucket \<Rightarrow> bool" where
  "within_sla b = (case ab_max b of None \<Rightarrow> False | Some m \<Rightarrow> m \<le> CLOSE_HOURS)"

definition ageingBucket :: "jsnum \<Rightarrow> string" where
  "ageingBucket h =
     ab_key (case List.find (\<lambda>b. case ab_max b of None \<Rightarrow> True | Some m \<Rightarrow> num_le h m) AGEING_BUCKETS of
        Some b \<Rightarrow> b | None \<Rightarrow> last AGEING_BUCKETS)"

record bucket_count =
  bc_key :: string
  bc_within :: bool
  bc_resolved :: nat
  bc_open :: nat

record sla_count =
  sc_count :: nat
  sc_of :: nat

record ageing =
  ag_buckets :: "bucket_count list"
  ag_closed :: sla_count
  ag_contacted :: sla_count

record sla_case =
  sca_stage :: string
  sca_sla :: case_sla
  sca_contacted :: bool

definition tick :: "bool \<Rightarrow> bool \<Rightarrow> sla_count \<Rightarrow> sla_count" where
  "tick counted hit c =
     (if counted then c\<lparr>sc_of := Suc (sc_of c), sc_count := sc_count c + (if hit then 1 else 0)\<rparr> else c)"

definition bump :: "string \<Rightarrow> bool \<Rightarrow> bucket_count \<Rightarrow> bucket_count" where
  "bump k resolved b =
     (if bc_key b \<noteq> k then b
      else if resolved then b\<lparr>bc_resolved := Suc (bc_resolved b)\<rparr> else b\<lparr>bc_open := Suc (bc_open b)\<rparr>)"

definition ageing_step :: "sla_case \<Rightarrow> ageing \<Rightarrow> ageing" where
  "ageing_step c a =
     (case sla_exact (sca_sla c) of
        None \<Rightarrow> a
      | Some hours \<Rightarrow>
          if sla_band (sca_sla c) = Grey then a
          else
            (let resolved = (sca_stage c = ''RESOLVED'') in
             \<lparr>ag_buckets = map (bump (ageingBucket hours) resolved) (ag_buckets a),
              ag_closed = tick resolved (sla_rule (sca_sla c) = Resolved_in_sla) (ag_closed a),
              ag_contacted = tick (sca_contacted c \<or> resolved \<or> num_gt hours CONTACT_HOURS)
                (sla_contacted (sca_sla c) = Some True) (ag_contacted a)\<rparr>))"

definition resolutionAgeing :: "sla_case list \<Rightarrow> ageing" where
  "resolutionAgeing cases =
     fold ageing_step cases
       \<lparr>ag_buckets = map (\<lambda>b. \<lparr>bc_key = ab_key b, bc_within = within_sla b, bc_resolved = 0, bc_open = 0\<rparr>) AGEING_BUCKETS,
        ag_closed = \<lparr>sc_count = 0, sc_of = 0\<rparr>, ag_contacted = \<lparr>sc_count = 0, sc_of = 0\<rparr>\<rparr>"

section \<open>Score bands\<close>

datatype score_band = BRed | BYellow | BGreen

record band_scale =
  yellowFrom :: rat
  greenFrom :: rat
  scale_target :: rat
  scale_min :: rat
  scale_max :: rat

definition NPS_SCALE :: band_scale where
  "NPS_SCALE = \<lparr>yellowFrom = 50, greenFrom = 90, scale_target = 90, scale_min = 0, scale_max = 100\<rparr>"

definition CSAT_SCALE :: band_scale where
  "CSAT_SCALE = \<lparr>yellowFrom = 85, greenFrom = 95, scale_target = 95, scale_min = 0, scale_max = 100\<rparr>"

definition RESPONSE_RATE_SCALE :: band_scale where
  "RESPONSE_RATE_SCALE = \<lparr>yellowFrom = 25, greenFrom = 30, scale_target = 30, scale_min = 0, scale_max = 100\<rparr>"

definition num_ge :: "jsnum \<Rightarrow> rat \<Rightarrow> bool" where
  "num_ge n r = (case n of Fin x \<Rightarrow> x \<ge> r | PosInf \<Rightarrow> True | _ \<Rightarrow> False)"

definition bandOf :: "jsnum option \<Rightarrow> band_scale \<Rightarrow> score_band option" where
  "bandOf v scale =
     (case v of
        None \<Rightarrow> None
      | Some n \<Rightarrow>
          if n = NaN then None
          else if num_ge n (greenFrom scale) then Some BGreen
          else if num_ge n (yellowFrom scale) then Some BYellow else Some BRed)"

definition minResponders :: "jsval \<Rightarrow> int" where
  "minResponders env = (case as_integer (to_number env) of None \<Rightarrow> 5 | Some n \<Rightarrow> if n \<ge> 1 then n else 5)"

section \<open>What the SLA says\<close>

lemma num_le_Fin [simp]: "num_le (Fin x) r \<longleftrightarrow> x \<le> r" and num_gt_Fin [simp]: "num_gt (Fin x) r \<longleftrightarrow> x > r"
  and num_le_NaN [simp]: "\<not> num_le NaN r" and num_gt_NaN [simp]: "\<not> num_gt NaN r"
  by (simp_all add: num_le_def num_gt_def)

lemmas sla_limits = CONTACT_HOURS_def CLOSE_HOURS_def CLOSE_DAYS_def HOURS_PER_DAY_def

lemma hoursBetween_cases: "hoursBetween f t = NaN \<or> (\<exists>x \<ge> 0. hoursBetween f t = Fin x)"
  by (auto simp: hoursBetween_def split: option.split)

lemma hoursBetween_mono:
  assumes "wall t = Some a" "wall t' = Some b" "a \<le> b"
  shows "hoursBetween f t = NaN \<and> hoursBetween f t' = NaN \<or>
    (\<exists>x y. hoursBetween f t = Fin x \<and> hoursBetween f t' = Fin y \<and> x \<le> y)"
proof (cases "wall f")
  case (Some c)
  have "hours_of_ms (a - c) \<le> hours_of_ms (b - c)"
    using assms(3) by (simp add: hours_of_ms_def divide_right_mono)
  then have "max 0 (hours_of_ms (a - c)) \<le> max 0 (hours_of_ms (b - c))" by (rule max.mono [OF order_refl])
  then show ?thesis using Some assms(1,2) by (simp add: hoursBetween_def)
qed (simp add: hoursBetween_def)

text \<open>How bad a colour is: no SLA, within it, at risk, missed.\<close>

definition band_rank :: "sla_band \<Rightarrow> nat" where
  "band_rank b = (case b of Grey \<Rightarrow> 0 | Green \<Rightarrow> 1 | Amber \<Rightarrow> 2 | Red \<Rightarrow> 3)"

lemma no_sla_fields [simp]:
  "sla_band (no_sla r k) = Grey" "sla_rule (no_sla r k) = r" "sla_exact (no_sla r k) = None" "sla_contacted (no_sla r k) = k"
  by (simp_all add: no_sla_def)

lemma timed_sla_fields [simp]:
  "sla_band (timed_sla b r h l k) = b" "sla_rule (timed_sla b r h l k) = r" "sla_exact (timed_sla b r h l k) = Some h"
  "sla_contacted (timed_sla b r h l k) = k"
  by (simp_all add: timed_sla_def)

lemma open_band:
  assumes "si_stage c \<in> set OPEN_STAGE_NAMES" "si_created c = Some d" "d \<noteq> []"
  shows "sla_band (caseSla c now) =
    (if num_gt (hoursBetween d now) CLOSE_HOURS \<or> num_gt (hoursBetween d now) CONTACT_HOURS \<and> \<not> given (si_contacted c) then Red
     else if num_le (hoursBetween d now) CONTACT_HOURS then Green else Amber)"
proof -
  have "si_stage c \<noteq> ''REJECTED'' \<and> si_stage c \<noteq> ''HISTORICAL'' \<and> si_stage c \<noteq> ''RESOLVED''"
    using assms(1) by (auto simp: OPEN_STAGE_NAMES_def)
  then show ?thesis using assms unfolding caseSla_def Let_def by (simp add: given_def)
qed

lemma not_open_band:
  "\<not> (si_stage c \<in> set OPEN_STAGE_NAMES \<and> given (si_created c)) \<Longrightarrow> caseSla c now = caseSla c now'"
  unfolding caseSla_def Let_def by (simp split: if_split)

text \<open>As time passes the colour of a case nobody touches only gets worse, from green over amber to red;
it never turns back, a case without a running SLA never changes, and a contacted open case is red exactly
when it is older than five days while one nobody contacted is red exactly when it is older than a day.\<close>

theorem sla_only_worsens:
  assumes "wall now = Some a" and "wall now' = Some b" and "a \<le> b"
  shows "band_rank (sla_band (caseSla c now)) \<le> band_rank (sla_band (caseSla c now')) \<and>
    (si_stage c \<notin> set OPEN_STAGE_NAMES \<longrightarrow> caseSla c now = caseSla c now') \<and>
    (si_stage c \<in> set OPEN_STAGE_NAMES \<and> si_created c = Some d \<and> wall d = Some t \<and> t \<le> a \<longrightarrow>
       (sla_band (caseSla c now) = Red \<longleftrightarrow> a - t > (if given (si_contacted c) then 5 else 1) * 86400000))"
proof (intro conjI impI)
  show "band_rank (sla_band (caseSla c now)) \<le> band_rank (sla_band (caseSla c now'))"
  proof (cases "si_stage c \<in> set OPEN_STAGE_NAMES \<and> given (si_created c)")
    case True
    then obtain d where d: "si_stage c \<in> set OPEN_STAGE_NAMES" "si_created c = Some d" "d \<noteq> []" by (auto simp: given_def)
    have "CONTACT_HOURS \<le> CLOSE_HOURS" by (simp add: sla_limits)
    then show ?thesis
      using hoursBetween_mono [OF assms, of d] by (auto simp: open_band [OF d] band_rank_def)
  next
    case False
    show ?thesis using not_open_band [OF False, of now now'] by simp
  qed
  show "si_stage c \<notin> set OPEN_STAGE_NAMES \<Longrightarrow> caseSla c now = caseSla c now'" using not_open_band by blast
next
  assume h: "si_stage c \<in> set OPEN_STAGE_NAMES \<and> si_created c = Some d \<and> wall d = Some t \<and> t \<le> a"
  then have "d \<noteq> []" by (auto simp: wall_def wall_shape_def Let_def split: if_splits)
  have "0 \<le> (of_int (a - t) :: rat)" using h by simp
  then have age: "hoursBetween d now = Fin (of_int (a - t) / 3600000)"
    using h assms(1) by (simp add: hoursBetween_def hours_of_ms_def)
  have gt: "of_int (a - t) / 3600000 > (of_int n :: rat) \<longleftrightarrow> a - t > n * 3600000" for n
  proof -
    have "of_int (a - t) / 3600000 > (of_int n :: rat) \<longleftrightarrow> (of_int (a - t) :: rat) > of_int (n * 3600000)"
      by (simp add: field_simps)
    then show ?thesis unfolding of_int_less_iff .
  qed
  show "sla_band (caseSla c now) = Red \<longleftrightarrow> a - t > (if given (si_contacted c) then 5 else 1) * 86400000"
    using h \<open>d \<noteq> []\<close> gt [of 24] gt [of 120] by (auto simp: open_band age sla_limits)
qed

theorem sla_only_worsens_witness:
  "sla_band (caseSla \<lparr>si_stage = ''NEW'', si_created = Some ''2026-01-01 08:00:00'', si_contacted = None, si_resolved = None\<rparr>
     ''2026-01-02 08:00:01'') = Red"
proof -
  have w: "wall ''2026-01-01 08:00:00'' = Some 1767254400000" "wall ''2026-01-02 08:00:01'' = Some 1767340801000" by code_simp+
  show ?thesis
    using sla_only_worsens [OF w(2) w(2), of "\<lparr>si_stage = ''NEW'', si_created = Some ''2026-01-01 08:00:00'',
        si_contacted = None, si_resolved = None\<rparr>" "''2026-01-01 08:00:00''" 1767254400000] w(1)
    by (simp add: OPEN_STAGE_NAMES_def given_def)
qed

section \<open>What the ageing chart says\<close>

lemma ageingBucket_within:
  "(\<exists>b \<in> set AGEING_BUCKETS. ab_key b = ageingBucket h \<and> within_sla b) \<longleftrightarrow> num_le h CLOSE_HOURS"
  by (cases h) (auto simp: AGEING_BUCKETS_def ageingBucket_def within_sla_def sla_limits num_le_def)

lemma ageingBucket_key: "ageingBucket h \<in> set (map ab_key AGEING_BUCKETS)"
  by (cases h) (auto simp: AGEING_BUCKETS_def ageingBucket_def)

lemma caseSla_resolved:
  assumes "sla_exact (caseSla c now) = Some h" "sla_band (caseSla c now) \<noteq> Grey"
  shows "si_stage c = ''RESOLVED'' \<Longrightarrow> sla_rule (caseSla c now) = Resolved_in_sla \<longleftrightarrow> num_le h CLOSE_HOURS"
  using assms by (auto simp: caseSla_def Let_def split: if_splits)

lemma bump_keys [simp]: "bc_key (bump k r b) = bc_key b" "bc_within (bump k r b) = bc_within b"
  by (simp_all add: bump_def)

lemma sum_bump:
  assumes "distinct (map bc_key bs)"
  shows "(\<Sum>b\<leftarrow>map (bump k r) bs. if P (bc_key b) (bc_within b) then bc_resolved b else 0) =
      (\<Sum>b\<leftarrow>bs. if P (bc_key b) (bc_within b) then bc_resolved b else 0) +
      (if r \<and> (\<exists>b \<in> set bs. bc_key b = k \<and> P k (bc_within b)) then 1 else 0)"
    "(\<Sum>b\<leftarrow>map (bump k r) bs. bc_open b) = (\<Sum>b\<leftarrow>bs. bc_open b) + (if \<not> r \<and> k \<in> bc_key ` set bs then 1 else 0)"
  using assms by (induction bs) (auto simp: bump_def)

text \<open>The buckets keep their keys and limits throughout, and the sums follow the counters.\<close>

definition ageing_ok :: "ageing \<Rightarrow> nat \<Rightarrow> nat \<Rightarrow> bool" where
  "ageing_ok a resolved opened \<longleftrightarrow>
     map (\<lambda>b. (bc_key b, bc_within b)) (ag_buckets a) = map (\<lambda>b. (ab_key b, within_sla b)) AGEING_BUCKETS \<and>
     (\<Sum>b\<leftarrow>ag_buckets a. if bc_within b then bc_resolved b else 0) = sc_count (ag_closed a) \<and>
     (\<Sum>b\<leftarrow>ag_buckets a. bc_resolved b) = resolved \<and> (\<Sum>b\<leftarrow>ag_buckets a. bc_open b) = opened \<and>
     sc_of (ag_closed a) = resolved \<and> sc_count (ag_contacted a) \<le> sc_of (ag_contacted a) \<and>
     sc_of (ag_contacted a) \<le> resolved + opened"

definition has_sla :: "sla_case \<Rightarrow> bool" where
  "has_sla c = (sla_exact (sca_sla c) \<noteq> None \<and> sla_band (sca_sla c) \<noteq> Grey)"

lemma ageing_keys_distinct: "distinct (map ab_key AGEING_BUCKETS)"
  by (simp add: AGEING_BUCKETS_def)

lemma ageing_step_ok:
  assumes ok: "ageing_ok a resolved opened" and c: "sca_sla c = caseSla i now" "si_stage i = sca_stage c"
  shows "ageing_ok (ageing_step c a) (resolved + (if has_sla c \<and> sca_stage c = ''RESOLVED'' then 1 else 0))
    (opened + (if has_sla c \<and> sca_stage c \<noteq> ''RESOLVED'' then 1 else 0))"
proof (cases "has_sla c")
  case False
  then show ?thesis using ok by (auto simp: has_sla_def ageing_step_def split: option.split)
next
  case True
  then obtain h where h: "sla_exact (sca_sla c) = Some h" "sla_band (sca_sla c) \<noteq> Grey" by (auto simp: has_sla_def)
  let ?k = "ageingBucket h" and ?r = "sca_stage c = ''RESOLVED''" and ?bs = "ag_buckets a"
  have kw: "map (\<lambda>b. (bc_key b, bc_within b)) ?bs = map (\<lambda>b. (ab_key b, within_sla b)) AGEING_BUCKETS"
    using ok by (simp add: ageing_ok_def)
  have "map bc_key ?bs = map fst (map (\<lambda>b. (bc_key b, bc_within b)) ?bs)" by simp
  then have keys: "map bc_key ?bs = map ab_key AGEING_BUCKETS" unfolding kw by simp
  then have d: "distinct (map bc_key ?bs)" using ageing_keys_distinct by simp
  have mem: "?k \<in> bc_key ` set ?bs" using ageingBucket_key [of h] keys by (metis set_map)
  have "(\<exists>b \<in> set ?bs. bc_key b = ?k \<and> bc_within b) \<longleftrightarrow> (?k, True) \<in> set (map (\<lambda>b. (bc_key b, bc_within b)) ?bs)"
    by force
  also have "\<dots> \<longleftrightarrow> (\<exists>b \<in> set AGEING_BUCKETS. ab_key b = ?k \<and> within_sla b)" unfolding kw by force
  finally have within: "(\<exists>b \<in> set ?bs. bc_key b = ?k \<and> bc_within b) \<longleftrightarrow> num_le h CLOSE_HOURS"
    unfolding ageingBucket_within .
  have rule: "?r \<Longrightarrow> sla_rule (sca_sla c) = Resolved_in_sla \<longleftrightarrow> num_le h CLOSE_HOURS"
    using caseSla_resolved [of i now h] h c by simp
  have step: "ageing_step c a = \<lparr>ag_buckets = map (bump ?k ?r) ?bs,
      ag_closed = tick ?r (sla_rule (sca_sla c) = Resolved_in_sla) (ag_closed a),
      ag_contacted = tick (sca_contacted c \<or> ?r \<or> num_gt h CONTACT_HOURS) (sla_contacted (sca_sla c) = Some True) (ag_contacted a)\<rparr>"
    using h by (simp add: ageing_step_def Let_def)
  have kw': "map (\<lambda>b. (bc_key b, bc_within b)) (map (bump ?k ?r) ?bs) = map (\<lambda>b. (ab_key b, within_sla b)) AGEING_BUCKETS"
    using kw by (simp add: comp_def)
  note s1 = sum_bump(1) [OF d, where k = ?k and r = ?r and P = "\<lambda>_ w. w"]
    and s2 = sum_bump(1) [OF d, where k = ?k and r = ?r and P = "\<lambda>_ _. True"] and s3 = sum_bump(2) [OF d, where k = ?k and r = ?r]
  show ?thesis
    using ok True kw' s1 s2 s3 within rule mem
    by (cases ?r) (auto simp: ageing_ok_def step tick_def comp_def image_iff)
qed

text \<open>The ageing chart agrees with itself: the cases it draws, resolved and open, are exactly those with a
running SLA, the resolved ones are those its close line counts, and the numerator of the close line is the
sum of the resolved bars left of the SLA line; no line counts more cases than it has.\<close>

theorem ageing_chart_consistent:
  assumes "\<forall>c \<in> set cases. \<exists>i. sca_sla c = caseSla i now \<and> si_stage i = sca_stage c"
  shows "let a = resolutionAgeing cases; bars = ag_buckets a in
    (\<Sum>b\<leftarrow>bars. bc_resolved b) = length (filter (\<lambda>c. has_sla c \<and> sca_stage c = ''RESOLVED'') cases) \<and>
    (\<Sum>b\<leftarrow>bars. bc_open b) = length (filter (\<lambda>c. has_sla c \<and> sca_stage c \<noteq> ''RESOLVED'') cases) \<and>
    sc_of (ag_closed a) = (\<Sum>b\<leftarrow>bars. bc_resolved b) \<and>
    sc_count (ag_closed a) = (\<Sum>b\<leftarrow>bars. if bc_within b then bc_resolved b else 0) \<and>
    sc_count (ag_contacted a) \<le> sc_of (ag_contacted a) \<and> sc_of (ag_contacted a) \<le> length (filter has_sla cases)"
proof -
  have steps: "ageing_ok (fold ageing_step cs a) (r + length (filter (\<lambda>c. has_sla c \<and> sca_stage c = ''RESOLVED'') cs))
      (u + length (filter (\<lambda>c. has_sla c \<and> sca_stage c \<noteq> ''RESOLVED'') cs))"
    if "set cs \<subseteq> set cases" "ageing_ok a r u" for cs a r u
    using that
  proof (induction cs arbitrary: a r u)
    case (Cons c cs)
    obtain i where i: "sca_sla c = caseSla i now" "si_stage i = sca_stage c" using assms Cons.prems(1) by auto
    from Cons.IH [OF _ ageing_step_ok [OF Cons.prems(2) i]] Cons.prems(1) show ?case by (auto simp: ac_simps)
  qed simp
  have start: "ageing_ok \<lparr>ag_buckets = map (\<lambda>b. \<lparr>bc_key = ab_key b, bc_within = within_sla b, bc_resolved = 0, bc_open = 0\<rparr>) AGEING_BUCKETS,
        ag_closed = \<lparr>sc_count = 0, sc_of = 0\<rparr>, ag_contacted = \<lparr>sc_count = 0, sc_of = 0\<rparr>\<rparr> 0 0"
    by (simp add: ageing_ok_def comp_def sum_list_0 cong: if_cong)
  have ok: "ageing_ok (resolutionAgeing cases) (length (filter (\<lambda>c. has_sla c \<and> sca_stage c = ''RESOLVED'') cases))
      (length (filter (\<lambda>c. has_sla c \<and> sca_stage c \<noteq> ''RESOLVED'') cases))"
    using steps [OF subset_refl start] by (simp add: resolutionAgeing_def)
  have "length (filter (\<lambda>c. has_sla c \<and> sca_stage c = ''RESOLVED'') cs) + length (filter (\<lambda>c. has_sla c \<and> sca_stage c \<noteq> ''RESOLVED'') cs) =
      length (filter has_sla cs)" for cs
    by (induction cs) auto
  with ok show ?thesis by (simp add: ageing_ok_def Let_def)
qed

theorem ageing_chart_consistent_witness:
  "let i = \<lparr>si_stage = ''RESOLVED'', si_created = Some ''2026-01-01 08:00:00'', si_contacted = None,
         si_resolved = Some ''2026-01-03 08:00:00''\<rparr>;
       a = resolutionAgeing [\<lparr>sca_stage = ''RESOLVED'', sca_sla = caseSla i ''2026-02-01 08:00:00'', sca_contacted = False\<rparr>]
   in sc_of (ag_closed a) = (\<Sum>b\<leftarrow>ag_buckets a. bc_resolved b)"
proof -
  let ?i = "\<lparr>si_stage = ''RESOLVED'', si_created = Some ''2026-01-01 08:00:00'', si_contacted = None,
         si_resolved = Some ''2026-01-03 08:00:00''\<rparr>"
  let ?c = "\<lparr>sca_stage = ''RESOLVED'', sca_sla = caseSla ?i ''2026-02-01 08:00:00'', sca_contacted = False\<rparr>"
  have "\<forall>c \<in> set [?c]. \<exists>i. sca_sla c = caseSla i ''2026-02-01 08:00:00'' \<and> si_stage i = sca_stage c"
    by (simp, intro exI [of _ ?i]) simp
  from ageing_chart_consistent [OF this] show ?thesis unfolding Let_def by blast
qed

end
