(* ===== verification/Credit_Policy.thy ===== *)
theory Credit_Policy
  imports Js_Values
begin

text \<open>
  The escalation zones of the credit policy (\<open>backend/src/config/creditPolicy.ts\<close>): the zones and their
  action areas, the check that runs on them when the module loads, and the zone, action and next zone of a
  number of days overdue. The properties hold for every list of zones the check accepts.
\<close>

section \<open>The policy\<close>

record action_area =
  aa_min :: int
  aa_max :: "int option"
  aa_action :: string
  aa_details :: "string option"
  aa_edge :: "string option"

record credit_zone =
  z_key :: string
  z_label :: string
  z_min :: int
  z_max :: "int option"
  z_tone :: string
  z_owner :: string
  z_action :: string
  z_edge :: "string option"
  z_areas :: "action_area list option"

definition CREDIT_POLICY_ZONES :: "credit_zone list" where
  "CREDIT_POLICY_ZONES =
    [\<lparr>z_key = ''GREEN'', z_label = ''GREEN'', z_min = 0, z_max = Some 15, z_tone = ''green'', z_owner = ''Sales Manager'',
       z_action = ''Payment Reminder'', z_edge = Some ''15 Days'', z_areas = None\<rparr>,
     \<lparr>z_key = ''YELLOW'', z_label = ''YELLOW'', z_min = 16, z_max = Some 30, z_tone = ''amber'', z_owner = ''Sales Director'',
       z_action = ''Follow-up / Customer Visit'', z_edge = Some ''30 Days'', z_areas = None\<rparr>,
     \<lparr>z_key = ''RED'', z_label = ''RED'', z_min = 31, z_max = Some 44, z_tone = ''red'', z_owner = ''CEO'',
       z_action = ''CEO Intervention'', z_edge = Some ''45 Days'', z_areas = None\<rparr>,
     \<lparr>z_key = ''BLOCK'', z_label = ''BLOCK'', z_min = 45, z_max = None, z_tone = ''block'', z_owner = ''GCEO + CFO'',
       z_action = ''Management Escalation'', z_edge = None, z_areas = Some
       [\<lparr>aa_min = 45, aa_max = Some 60, aa_action = ''Management Escalation'', aa_details = None, aa_edge = Some ''60 Days''\<rparr>,
        \<lparr>aa_min = 61, aa_max = Some 65, aa_action = ''Final Warning + Stop Supply'',
          aa_details = Some ''Send final payment warning by registered mail and suspend further supply/deliveries.'',
          aa_edge = Some ''65 Days''\<rparr>,
        \<lparr>aa_min = 66, aa_max = None, aa_action = ''Legal Action'',
          aa_details = Some ''CFO decides the appropriate legal action in consultation with GCEO.'', aa_edge = None\<rparr>]\<rparr>]"

definition OVERDUE_OFFSET_DAYS :: int where
  "OVERDUE_OFFSET_DAYS = 1"

definition ESCALATION_WINDOW_DAYS :: int where
  "ESCALATION_WINDOW_DAYS = 7"

section \<open>The check at load time\<close>

text \<open>The loop over the action areas of a zone, from the day the next one has to start at.\<close>

fun check_areas :: "int option \<Rightarrow> int \<Rightarrow> action_area list \<Rightarrow> string + unit" where
  "check_areas zmax expected [] = Inr ()"
| "check_areas zmax expected (a # as) =
     rbind (ensure (\<not> (aa_min a \<noteq> expected \<or> (case aa_max a of None \<Rightarrow> False | Some m \<Rightarrow> m < aa_min a)))
         ''credit policy: gap or overlap in action areas'') (\<lambda>_.
     rbind (ensure (\<not> (if as = [] then aa_max a \<noteq> zmax else aa_max a = None))
         ''credit policy: action areas must cover their zone'') (\<lambda>_.
     check_areas zmax ((case aa_max a of None \<Rightarrow> 0 | Some m \<Rightarrow> m) + 1) as))"

text \<open>One round of the loop over the zones; \<open>prev\<close> is the zone before, if any.\<close>

definition check_zone :: "credit_zone option \<Rightarrow> credit_zone \<Rightarrow> bool \<Rightarrow> string + unit" where
  "check_zone prev z is_last =
     rbind (ensure (is_last = (z_max z = None)) ''credit policy: only the last zone is open-ended'') (\<lambda>_.
     rbind (ensure (\<not> (case z_max z of None \<Rightarrow> False | Some m \<Rightarrow> m < z_min z)) ''credit policy: zone ends before it starts'') (\<lambda>_.
     rbind (ensure (case prev of None \<Rightarrow> True
         | Some p \<Rightarrow> z_min z = (case z_max p of None \<Rightarrow> 0 | Some m \<Rightarrow> m) + 1) ''credit policy: gap or overlap before zone'') (\<lambda>_.
     case z_areas z of None \<Rightarrow> Inr () | Some areas \<Rightarrow> check_areas (z_max z) (z_min z) areas)))"

fun check_zones :: "credit_zone option \<Rightarrow> credit_zone list \<Rightarrow> string + unit" where
  "check_zones prev [] = Inr ()"
| "check_zones prev (z # zs) = rbind (check_zone prev z (zs = [])) (\<lambda>_. check_zones (Some z) zs)"

definition validateCreditPolicy :: "credit_zone list \<Rightarrow> string + unit" where
  "validateCreditPolicy zones =
     (case zones of
        [] \<Rightarrow> Inl ''credit policy: the first zone must start at day 0''
      | z # zs \<Rightarrow> if z_min z \<noteq> 0 then Inl ''credit policy: the first zone must start at day 0'' else check_zones None zones)"

section \<open>Zones and actions of a number of days\<close>

definition in_range :: "int \<Rightarrow> int option \<Rightarrow> int \<Rightarrow> bool" where
  "in_range lo hi d \<longleftrightarrow> d \<ge> lo \<and> (case hi of None \<Rightarrow> True | Some m \<Rightarrow> d \<le> m)"

definition creditZoneForDays :: "int \<Rightarrow> credit_zone list \<Rightarrow> credit_zone option" where
  "creditZoneForDays d zones =
     (if d < 0 then None
      else case List.find (\<lambda>z. in_range (z_min z) (z_max z) d) zones of
          Some z \<Rightarrow> Some z
        | None \<Rightarrow> if zones = [] then None else Some (last zones))"

definition creditActionForDays :: "int \<Rightarrow> action_area option" where
  "creditActionForDays d =
     (case creditZoneForDays d CREDIT_POLICY_ZONES of
        None \<Rightarrow> None
      | Some z \<Rightarrow> (case z_areas z of None \<Rightarrow> None | Some areas \<Rightarrow> List.find (\<lambda>a. in_range (aa_min a) (aa_max a) d) areas))"

text \<open>\<open>zones[zones.indexOf(z) + 1]\<close>\<close>

fun zone_after :: "credit_zone \<Rightarrow> credit_zone list \<Rightarrow> credit_zone option" where
  "zone_after z [] = None"
| "zone_after z (x # xs) = (if x = z then first_row xs else zone_after z xs)"

definition nextCreditZone :: "int \<Rightarrow> credit_zone list \<Rightarrow> (credit_zone \<times> int) option" where
  "nextCreditZone d zones =
     (case creditZoneForDays d zones of
        None \<Rightarrow> None
      | Some z \<Rightarrow> (case z_max z of
            None \<Rightarrow> None
          | Some m \<Rightarrow> map_option (\<lambda>n. (n, m + 1 - d)) (zone_after z zones)))"

definition approachingNextZone :: "int \<Rightarrow> credit_zone list \<Rightarrow> bool" where
  "approachingNextZone d zones = (case nextCreditZone d zones of None \<Rightarrow> False | Some n \<Rightarrow> snd n \<le> ESCALATION_WINDOW_DAYS)"

section \<open>Accepted policies\<close>

lemma in_range_simps [simp]:
  "in_range lo None d \<longleftrightarrow> lo \<le> d"
  "in_range lo (Some m) d \<longleftrightarrow> lo \<le> d \<and> d \<le> m"
  by (auto simp: in_range_def)

text \<open>The zones of an accepted list from a day on: they start there, none is empty, and each follows the last.\<close>

fun tiles :: "int \<Rightarrow> credit_zone list \<Rightarrow> bool" where
  "tiles s [] = False"
| "tiles s [z] = (z_min z = s \<and> z_max z = None)"
| "tiles s (z # y # zs) = (z_min z = s \<and> (\<exists>m. z_max z = Some m \<and> s \<le> m \<and> tiles (m + 1) (y # zs)))"

lemma check_zones_tiles:
  "check_zones prev (z # zs) = Inr () \<Longrightarrow> tiles (z_min z) (z # zs)"
proof (induction zs arbitrary: prev z)
  case Nil
  then show ?case by (simp add: check_zone_def rbind_eq_Inr ensure_eq_Inr)
next
  case (Cons y zs)
  then have "check_zone prev z False = Inr ()" "check_zones (Some z) (y # zs) = Inr ()" by (auto simp: rbind_eq_Inr)
  moreover have "check_zone (Some z) y (zs = []) = Inr ()" using calculation(2) by (simp add: rbind_eq_Inr)
  moreover obtain m where m: "z_max z = Some m" "z_min z \<le> m"
    using calculation(1) by (auto simp: check_zone_def rbind_eq_Inr ensure_eq_Inr)
  moreover have "z_min y = m + 1"
    using calculation(3) m(1) by (simp add: check_zone_def rbind_eq_Inr ensure_eq_Inr)
  moreover have "tiles (z_min y) (y # zs)" using Cons.IH calculation(2) .
  ultimately show ?case by simp
qed

lemma validate_tiles: "validateCreditPolicy zones = Inr () \<Longrightarrow> tiles 0 zones"
  using check_zones_tiles by (fastforce simp: validateCreditPolicy_def split: list.splits if_splits)

lemma tiles_min: "tiles s zs \<Longrightarrow> z \<in> set zs \<Longrightarrow> s \<le> z_min z \<and> (\<forall>m. z_max z = Some m \<longrightarrow> z_min z \<le> m)"
proof (induction s zs rule: tiles.induct)
  case (3 s z y zs)
  then obtain m where "z_min z = s" "z_max z = Some m" "s \<le> m" "tiles (m + 1) (y # zs)" by auto
  then show ?case using 3 by fastforce
qed auto

text \<open>Every day from the start on lies in exactly one zone; the zone after it starts the day after it ends.\<close>

lemma tiles_unique:
  assumes "tiles s zs" "s \<le> d"
  shows "\<exists>z. z \<in> set zs \<and> in_range (z_min z) (z_max z) d \<and> List.find (\<lambda>z. in_range (z_min z) (z_max z) d) zs = Some z \<and>
    (\<forall>y \<in> set zs. in_range (z_min y) (z_max y) d \<longrightarrow> y = z) \<and>
    (case z_max z of None \<Rightarrow> z = last zs
     | Some m \<Rightarrow> \<exists>n. zone_after z zs = Some n \<and> n \<in> set zs \<and> z_min n = m + 1)"
  using assms
proof (induction s zs rule: tiles.induct)
  case (3 s z y zs)
  then obtain m where m: "z_min z = s" "z_max z = Some m" "s \<le> m" "tiles (m + 1) (y # zs)" by auto
  show ?case
  proof (cases "d \<le> m")
    case True
    have "\<not> in_range (z_min x) (z_max x) d" if "x \<in> set (y # zs)" for x
      using tiles_min [OF m(4) that] True by (cases "z_max x") auto
    moreover have "z_min y = m + 1" using m(4) by (cases zs) auto
    ultimately show ?thesis using m True 3(3) by (intro exI [of _ z]) auto
  next
    case False
    then have "m + 1 \<le> d" by simp
    then obtain x where x: "x \<in> set (y # zs)" "in_range (z_min x) (z_max x) d"
      "List.find (\<lambda>z. in_range (z_min z) (z_max z) d) (y # zs) = Some x"
      "\<forall>w \<in> set (y # zs). in_range (z_min w) (z_max w) d \<longrightarrow> w = x"
      "case z_max x of None \<Rightarrow> x = last (y # zs)
       | Some k \<Rightarrow> \<exists>n. zone_after x (y # zs) = Some n \<and> n \<in> set (y # zs) \<and> z_min n = k + 1"
      using 3(1) [OF m(4)] by blast
    have not_z: "\<not> in_range (z_min z) (z_max z) d" using m False by simp
    then have "x \<noteq> z" using x(2) by blast
    have "List.find (\<lambda>z. in_range (z_min z) (z_max z) d) (z # y # zs) = Some x" using not_z x(3) by simp
    moreover have "case z_max x of None \<Rightarrow> x = last (z # y # zs)
       | Some k \<Rightarrow> \<exists>n. zone_after x (z # y # zs) = Some n \<and> n \<in> set (z # y # zs) \<and> z_min n = k + 1"
      using x(5) \<open>x \<noteq> z\<close> by (auto split: option.splits)
    moreover have "\<forall>w \<in> set (z # y # zs). in_range (z_min w) (z_max w) d \<longrightarrow> w = x" using x(4) not_z by simp
    moreover have "x \<in> set (z # y # zs)" using x(1) by simp
    ultimately show ?thesis using x(2) by blast
  qed
qed auto

text \<open>For every list of zones the load-time check accepts, the shipped policy among them: a day overdue from
0 on lies in exactly one zone, which is the one reported; the next zone is reported exactly when there is
one, it is entered the day the days left run out, and the warning ring shows exactly on the last seven days
of a zone that is not the last.\<close>

theorem accepted_policy_partitions:
  assumes "validateCreditPolicy zones = Inr ()" and "d \<ge> 0"
  shows "\<exists>z. creditZoneForDays d zones = Some z \<and>
    {y \<in> set zones. in_range (z_min y) (z_max y) d} = {z} \<and>
    (case z_max z of
       None \<Rightarrow> nextCreditZone d zones = None \<and> \<not> approachingNextZone d zones
     | Some m \<Rightarrow> \<exists>n. nextCreditZone d zones = Some (n, m + 1 - d) \<and> creditZoneForDays (m + 1) zones = Some n \<and>
         (approachingNextZone d zones \<longleftrightarrow> m - d < 7))"
proof -
  note t = validate_tiles [OF assms(1)]
  obtain z where z: "z \<in> set zones" "in_range (z_min z) (z_max z) d"
    "List.find (\<lambda>z. in_range (z_min z) (z_max z) d) zones = Some z"
    "\<forall>y \<in> set zones. in_range (z_min y) (z_max y) d \<longrightarrow> y = z"
    "case z_max z of None \<Rightarrow> z = last zones
       | Some k \<Rightarrow> \<exists>n. zone_after z zones = Some n \<and> n \<in> set zones \<and> z_min n = k + 1"
    using tiles_unique [OF t assms(2)] by blast
  have zone: "creditZoneForDays d zones = Some z" using assms(2) z(3) by (simp add: creditZoneForDays_def)
  have "{y \<in> set zones. in_range (z_min y) (z_max y) d} = {z}" using z by blast
  moreover have "case z_max z of
       None \<Rightarrow> nextCreditZone d zones = None \<and> \<not> approachingNextZone d zones
     | Some m \<Rightarrow> \<exists>n. nextCreditZone d zones = Some (n, m + 1 - d) \<and> creditZoneForDays (m + 1) zones = Some n \<and>
         (approachingNextZone d zones \<longleftrightarrow> m - d < 7)"
  proof (cases "z_max z")
    case None
    then show ?thesis by (simp add: nextCreditZone_def approachingNextZone_def zone)
  next
    case (Some m)
    then obtain n where n: "zone_after z zones = Some n" "n \<in> set zones" "z_min n = m + 1" using z(5) by auto
    have "0 \<le> m + 1" using z(2) Some assms(2) by simp
    then obtain x where x: "List.find (\<lambda>z. in_range (z_min z) (z_max z) (m + 1)) zones = Some x"
      "\<forall>y \<in> set zones. in_range (z_min y) (z_max y) (m + 1) \<longrightarrow> y = x" using tiles_unique [OF t] by blast
    have "in_range (z_min n) (z_max n) (m + 1)" using n(3) tiles_min [OF t n(2)] by (cases "z_max n") auto
    then have "x = n" using x(2) n(2) by blast
    then have "creditZoneForDays (m + 1) zones = Some n" using x(1) \<open>0 \<le> m + 1\<close> by (simp add: creditZoneForDays_def)
    then show ?thesis using n(1) Some
      by (auto simp: nextCreditZone_def approachingNextZone_def zone ESCALATION_WINDOW_DAYS_def)
  qed
  ultimately show ?thesis using zone by blast
qed

lemma policy_accepted: "validateCreditPolicy CREDIT_POLICY_ZONES = Inr ()"
  by code_simp

theorem accepted_policy_partitions_witness:
  "\<exists>z. creditZoneForDays 40 CREDIT_POLICY_ZONES = Some z \<and> {y \<in> set CREDIT_POLICY_ZONES. in_range (z_min y) (z_max y) 40} = {z}"
  using accepted_policy_partitions [OF policy_accepted, of 40] by (simp, blast)

text \<open>The action of the last zone changes at days 45, 61 and 66 and never earlier.\<close>

lemma credit_action: "creditActionForDays d \<noteq> None \<longleftrightarrow> d \<ge> 45"
  by (auto simp: creditActionForDays_def creditZoneForDays_def CREDIT_POLICY_ZONES_def)

end
