(* ===== verification/Kaizen.thy ===== *)
theory Kaizen
  imports Calendar Identity_Db
begin

text \<open>
  The Kaizen board (\<open>backend/src/services/kaizenService.ts\<close>): the dropdown lists the cards refer to, the
  validation of a card, and creating, editing, closing and deleting cards. A service maps the tables to the
  new tables or an error code. Both tables number their rows with a counter the database never turns back.
  Whether a text of the shape \<open>yyyy-mm-dd\<close> is a date is decided by luxon, a parameter (\<open>luxon\<close>); the
  collation of the text columns is the parameter \<open>collate\<close>. Times of change are left out.
\<close>

section \<open>Rows\<close>

definition KAIZEN_LISTS :: "string list" where
  "KAIZEN_LISTS = [''department'', ''card_type'', ''card_priority'']"

datatype kaizen_status = OPEN | CLOSED

definition KAIZEN_CARD_ENTITY :: string where
  "KAIZEN_CARD_ENTITY = ''kaizen_card''"

definition KAIZEN_DROPDOWN_ENTITY :: string where
  "KAIZEN_DROPDOWN_ENTITY = ''kaizen_dropdown_value''"

text \<open>\<open>Refused code\<close> is a \<open>KaizenValidationError\<close>, \<open>NotFoundAfter\<close> the plain \<open>ValidationError\<close> of a row
that is gone after a write, \<open>DuplicateKey\<close> the database's own refusal.\<close>

datatype kaizen_error = Refused string | NotFoundAfter | DuplicateKey

record dropdown_row =
  dv_id :: int
  dv_list :: string
  dv_label :: string
  dv_sort :: int
  dv_color :: string
  dv_active :: bool
  dv_updated_by :: "int option"

record card_values =
  cv_creator :: string
  cv_date :: string
  cv_department :: int
  cv_name :: string
  cv_type :: int
  cv_issue :: string
  cv_root_cause :: "string option"
  cv_impact :: "string option"
  cv_priority :: int
  cv_solution :: "string option"
  cv_expected :: "string option"
  cv_closer :: "string option"
  cv_responsible :: "string option"
  cv_status :: kaizen_status

datatype card_source = MANUAL | IMPORT

record card_row =
  cr_no :: int
  cr_values :: card_values
  cr_source :: card_source
  cr_created_by :: int
  cr_updated_by :: int
  cr_deleted_by :: "int option"

record kaizen_audit =
  ka_entity :: string
  ka_id :: string
  ka_action :: audit_action
  ka_by :: int

record kaizen_db =
  kz_values :: "dropdown_row list"
  kz_cards :: "card_row list"
  kz_value_seq :: int
  kz_card_seq :: int
  kz_audit :: "kaizen_audit list"

definition kaizen_log :: "string \<Rightarrow> string \<Rightarrow> audit_action \<Rightarrow> int \<Rightarrow> kaizen_db \<Rightarrow> kaizen_db" where
  "kaizen_log entity i action actor db =
     db\<lparr>kz_audit := kz_audit db @ [\<lparr>ka_entity = entity, ka_id = i, ka_action = action, ka_by = actor\<rparr>]\<rparr>"

section \<open>Dropdown values\<close>

text \<open>Deleted cards still refer to their values and count as uses.\<close>

definition usage_count :: "kaizen_db \<Rightarrow> int \<Rightarrow> nat" where
  "usage_count db i = length (filter (\<lambda>c. cv_department (cr_values c) = i \<or> cv_type (cr_values c) = i \<or>
     cv_priority (cr_values c) = i) (kz_cards db))"

definition getDropdownValue :: "kaizen_db \<Rightarrow> int \<Rightarrow> dropdown_row option" where
  "getDropdownValue db i = first_row (filter (\<lambda>v. dv_id v = i) (kz_values db))"

definition is_hex :: "char \<Rightarrow> bool" where
  "is_hex c = (radix_digit c < 16)"

definition color_ok :: "string \<Rightarrow> bool" where
  "color_ok s = (length s = 7 \<and> hd s = CHR ''#'' \<and> list_all is_hex (tl s))"

record dropdown_input =
  di_list :: "string option"
  di_label :: "string option"
  di_sort :: "jsnum option"
  di_color :: "string option"
  di_active :: "bool option"

definition labelTaken :: "(string \<Rightarrow> string) \<Rightarrow> kaizen_db \<Rightarrow> string \<Rightarrow> string \<Rightarrow> int \<Rightarrow> bool" where
  "labelTaken collate db list_key label excludeId =
     list_ex (\<lambda>v. dv_list v = list_key \<and> collate (dv_label v) = collate label \<and> dv_id v \<noteq> excludeId) (kz_values db)"

definition validateDropdown ::
  "(string \<Rightarrow> string) \<Rightarrow> kaizen_db \<Rightarrow> string \<Rightarrow> string \<Rightarrow> string \<Rightarrow> jsnum \<Rightarrow> int \<Rightarrow> kaizen_error + int" where
  "validateDropdown collate db list_key label color sortOrder excludeId =
     rbind (ensure (list_key \<in> set KAIZEN_LISTS) (Refused ''dropdown.list'')) (\<lambda>_.
     rbind (ensure (label \<noteq> []) (Refused ''dropdown.label'')) (\<lambda>_.
     rbind (ensure (length label \<le> 100) (Refused ''dropdown.labelLength'')) (\<lambda>_.
     rbind (ensure (color_ok color) (Refused ''dropdown.color'')) (\<lambda>_.
     rbind (case as_integer sortOrder of None \<Rightarrow> Inl (Refused ''dropdown.sortOrder'') | Some n \<Rightarrow> Inr n) (\<lambda>n.
     rbind (ensure (\<not> labelTaken collate db list_key label excludeId) (Refused ''dropdown.duplicate'')) (\<lambda>_.
     Inr n))))))"

definition createDropdownValue ::
  "(string \<Rightarrow> string) \<Rightarrow> dropdown_input \<Rightarrow> int \<Rightarrow> kaizen_db \<Rightarrow> kaizen_error + (kaizen_db \<times> int)" where
  "createDropdownValue collate input actor db =
     (let list_key = (case di_list input of None \<Rightarrow> [] | Some k \<Rightarrow> k);
          label = trim (case di_label input of None \<Rightarrow> [] | Some l \<Rightarrow> l);
          color = trim (case di_color input of None \<Rightarrow> ''#4d88c4'' | Some c \<Rightarrow> c);
          sortOrder = (case di_sort input of Some n \<Rightarrow> n
             | None \<Rightarrow> (case map dv_sort (filter (\<lambda>v. dv_list v = list_key) (kz_values db)) of
                  [] \<Rightarrow> Fin 1 | s # ss \<Rightarrow> Fin (of_int (fold max ss s + 1)))) in
      rbind (validateDropdown collate db list_key label color sortOrder (- 1)) (\<lambda>n.
        let i = kz_value_seq db;
            row = \<lparr>dv_id = i, dv_list = list_key, dv_label = label, dv_sort = n, dv_color = color,
              dv_active = (case di_active input of None \<Rightarrow> True | Some b \<Rightarrow> b), dv_updated_by = Some actor\<rparr>
        in Inr (kaizen_log KAIZEN_DROPDOWN_ENTITY (int_str i) AUDIT_CREATE actor
          (db\<lparr>kz_values := kz_values db @ [row], kz_value_seq := i + 1\<rparr>), i)))"

definition updateDropdownValue ::
  "(string \<Rightarrow> string) \<Rightarrow> int \<Rightarrow> dropdown_input \<Rightarrow> int \<Rightarrow> kaizen_db \<Rightarrow> kaizen_error + kaizen_db" where
  "updateDropdownValue collate i input actor db =
     (case getDropdownValue db i of
        None \<Rightarrow> Inl (Refused ''dropdown.notFound'')
      | Some existing \<Rightarrow>
          (let label = (case di_label input of Some l \<Rightarrow> trim l | None \<Rightarrow> dv_label existing);
               color = (case di_color input of Some c \<Rightarrow> trim c | None \<Rightarrow> dv_color existing);
               sortOrder = (case di_sort input of Some n \<Rightarrow> n | None \<Rightarrow> Fin (of_int (dv_sort existing)));
               active = (case di_active input of Some b \<Rightarrow> b | None \<Rightarrow> dv_active existing) in
           rbind (validateDropdown collate db (dv_list existing) label color sortOrder i) (\<lambda>n.
             Inr (kaizen_log KAIZEN_DROPDOWN_ENTITY (int_str i) AUDIT_UPDATE actor
               (db\<lparr>kz_values := update_where (\<lambda>v. dv_id v = i)
                  (\<lambda>v. v\<lparr>dv_label := label, dv_sort := n, dv_color := color, dv_active := active, dv_updated_by := Some actor\<rparr>)
                  (kz_values db)\<rparr>)))))"

definition set_position :: "int \<Rightarrow> nat \<times> int \<Rightarrow> dropdown_row list \<Rightarrow> dropdown_row list" where
  "set_position actor p = update_where (\<lambda>v. dv_id v = snd p) (\<lambda>v. v\<lparr>dv_sort := int (fst p) + 1, dv_updated_by := Some actor\<rparr>)"

definition reorderDropdownValues :: "string \<Rightarrow> int list \<Rightarrow> int \<Rightarrow> kaizen_db \<Rightarrow> kaizen_error + kaizen_db" where
  "reorderDropdownValues list_key orderedIds actor db =
     rbind (ensure (list_key \<in> set KAIZEN_LISTS) (Refused ''dropdown.list'')) (\<lambda>_.
       let ids = dedup (map dv_id (filter (\<lambda>v. dv_list v = list_key) (kz_values db))) in
     rbind (ensure (\<not> (length orderedIds \<noteq> length ids \<or> length (dedup orderedIds) \<noteq> length ids \<or>
           \<not> list_all (\<lambda>i. i \<in> set ids) orderedIds)) (Refused ''dropdown.reorder'')) (\<lambda>_.
       Inr (kaizen_log KAIZEN_DROPDOWN_ENTITY list_key AUDIT_UPDATE actor
         (db\<lparr>kz_values := fold (set_position actor) (enumerate 0 orderedIds) (kz_values db)\<rparr>))))"

definition deleteDropdownValue :: "int \<Rightarrow> int \<Rightarrow> kaizen_db \<Rightarrow> kaizen_error + kaizen_db" where
  "deleteDropdownValue i actor db =
     (case getDropdownValue db i of
        None \<Rightarrow> Inl (Refused ''dropdown.notFound'')
      | Some existing \<Rightarrow>
          if usage_count db i > 0 then Inl (Refused ''dropdown.inUse'')
          else Inr (kaizen_log KAIZEN_DROPDOWN_ENTITY (int_str i) AUDIT_DELETE actor
            (db\<lparr>kz_values := delete_where (\<lambda>v. dv_id v = i) (kz_values db)\<rparr>)))"

section \<open>Validation of a card\<close>

definition isValidIsoDate :: "(string \<Rightarrow> bool) \<Rightarrow> string \<Rightarrow> bool" where
  "isValidIsoDate luxon v = (iso_shape v \<and> luxon v)"

definition text_of :: "jsval \<Rightarrow> string" where
  "text_of v = (if nullish v then [] else trim (to_string v))"

definition optionalText :: "jsval \<Rightarrow> string option" where
  "optionalText v = (let t = text_of v in if t = [] then None else Some t)"

definition optionalDate :: "(string \<Rightarrow> bool) \<Rightarrow> jsval \<Rightarrow> string \<Rightarrow> kaizen_error + string option" where
  "optionalDate luxon v code =
     (let t = text_of v in
      if t = [] then Inr None
      else if \<not> isValidIsoDate luxon t then Inl (Refused code) else Inr (Some t))"

definition idOf :: "jsval \<Rightarrow> string \<Rightarrow> kaizen_error + int" where
  "idOf v code =
     (case as_integer (to_number v) of
        None \<Rightarrow> Inl (Refused code)
      | Some n \<Rightarrow> if nullish v \<or> v = JStr [] \<or> n \<le> 0 then Inl (Refused code) else Inr n)"

definition required_text :: "jsval \<Rightarrow> string \<Rightarrow> nat option \<Rightarrow> string \<Rightarrow> kaizen_error + string" where
  "required_text v required limit too_long =
     (let t = text_of v in
      rbind (ensure (t \<noteq> []) (Refused required)) (\<lambda>_.
      rbind (ensure (case limit of None \<Rightarrow> True | Some m \<Rightarrow> length t \<le> m) (Refused too_long)) (\<lambda>_. Inr t)))"

text \<open>A date before the card's own, \<open>date && date < card_date\<close>.\<close>

definition earlier :: "string option \<Rightarrow> string \<Rightarrow> bool" where
  "earlier d card_date = (case d of None \<Rightarrow> False | Some t \<Rightarrow> t < card_date)"

definition status_of :: "jsval \<Rightarrow> kaizen_error + kaizen_status" where
  "status_of v =
     (let t = to_upper (text_of v) in
      if t = [] \<or> t = ''OPEN'' then Inr OPEN
      else if t = ''CLOSED'' then Inr CLOSED else Inl (Refused ''card.statusInvalid''))"

definition validateCardValues :: "(string \<Rightarrow> bool) \<Rightarrow> jsval \<Rightarrow> kaizen_error + card_values" where
  "validateCardValues luxon input =
     rbind (required_text (field_of input ''creatorName'') ''card.creatorRequired'' (Some 150) ''card.creatorLength'') (\<lambda>creator.
     rbind (required_text (field_of input ''cardDate'') ''card.dateRequired'' None []) (\<lambda>date.
     rbind (ensure (isValidIsoDate luxon date) (Refused ''card.dateInvalid'')) (\<lambda>_.
     rbind (required_text (field_of input ''cardName'') ''card.nameRequired'' (Some 200) ''card.nameLength'') (\<lambda>name.
     rbind (idOf (field_of input ''departmentId'') ''card.departmentRequired'') (\<lambda>department.
     rbind (idOf (field_of input ''cardTypeId'') ''card.typeRequired'') (\<lambda>card_type.
     rbind (idOf (field_of input ''priorityId'') ''card.priorityRequired'') (\<lambda>priority.
     rbind (required_text (field_of input ''issue'') ''card.issueRequired'' None []) (\<lambda>issue.
     rbind (optionalDate luxon (field_of input ''expectedDate'') ''card.expectedInvalid'') (\<lambda>expected.
     rbind (ensure (\<not> earlier expected date) (Refused ''card.expectedBeforeDate'')) (\<lambda>_.
     rbind (status_of (field_of input ''status'')) (\<lambda>status.
     rbind (optionalDate luxon (field_of input ''closerDate'') ''card.closerInvalid'') (\<lambda>closer.
     rbind (ensure (\<not> (status = CLOSED \<and> closer = None)) (Refused ''card.closerRequired'')) (\<lambda>_.
     rbind (ensure (\<not> (status = OPEN \<and> closer \<noteq> None)) (Refused ''card.closerOnlyWhenClosed'')) (\<lambda>_.
     rbind (ensure (\<not> earlier closer date) (Refused ''card.closerBeforeDate'')) (\<lambda>_.
       let responsible = optionalText (field_of input ''responsibleParty'') in
     rbind (ensure (case responsible of None \<Rightarrow> True | Some r \<Rightarrow> length r \<le> 150) (Refused ''card.responsibleLength'')) (\<lambda>_.
     Inr \<lparr>cv_creator = creator, cv_date = date, cv_department = department, cv_name = name, cv_type = card_type,
       cv_issue = issue, cv_root_cause = optionalText (field_of input ''rootCause''), cv_impact = optionalText (field_of input ''impact''),
       cv_priority = priority, cv_solution = optionalText (field_of input ''proposedSolution''), cv_expected = expected,
       cv_closer = closer, cv_responsible = responsible, cv_status = status\<rparr>))))))))))))))))"

text \<open>An identifier must name an active value of its list, or be the one the card already has.\<close>

definition assert_dropdown :: "kaizen_db \<Rightarrow> string \<Rightarrow> string \<Rightarrow> int \<Rightarrow> int option \<Rightarrow> kaizen_error + unit" where
  "assert_dropdown db list_key code i prev =
     (case first_row (filter (\<lambda>v. dv_id v = i \<and> dv_list v = list_key) (kz_values db)) of
        None \<Rightarrow> Inl (Refused code)
      | Some row \<Rightarrow> ensure (dv_active row \<or> Some i = prev) (Refused ''card.valueInactive''))"

definition assertDropdowns :: "kaizen_db \<Rightarrow> card_values \<Rightarrow> card_values option \<Rightarrow> kaizen_error + unit" where
  "assertDropdowns db values previous =
     rbind (assert_dropdown db ''department'' ''card.departmentInvalid'' (cv_department values) (map_option cv_department previous)) (\<lambda>_.
     rbind (assert_dropdown db ''card_type'' ''card.typeInvalid'' (cv_type values) (map_option cv_type previous)) (\<lambda>_.
     assert_dropdown db ''card_priority'' ''card.priorityInvalid'' (cv_priority values) (map_option cv_priority previous)))"

section \<open>Cards\<close>

definition getCard :: "kaizen_db \<Rightarrow> int \<Rightarrow> card_row option" where
  "getCard db no = first_row (filter (\<lambda>c. cr_no c = no \<and> cr_deleted_by c = None) (kz_cards db))"

text \<open>An explicit number moves the counter past it; a number that is taken is refused by the database.\<close>

definition insertCardValues ::
  "kaizen_db \<Rightarrow> card_values \<Rightarrow> int \<Rightarrow> int option \<Rightarrow> card_source \<Rightarrow> kaizen_error + (kaizen_db \<times> int)" where
  "insertCardValues db values actor cardNo source =
     (let no = (case cardNo of None \<Rightarrow> kz_card_seq db | Some n \<Rightarrow> n) in
      if no \<in> cr_no ` set (kz_cards db) then Inl DuplicateKey
      else Inr (db\<lparr>kz_cards := kz_cards db @ [\<lparr>cr_no = no, cr_values = values, cr_source = source, cr_created_by = actor,
             cr_updated_by = actor, cr_deleted_by = None\<rparr>], kz_card_seq := max (kz_card_seq db) (no + 1)\<rparr>, no))"

definition createCard :: "(string \<Rightarrow> bool) \<Rightarrow> jsval \<Rightarrow> int \<Rightarrow> kaizen_db \<Rightarrow> kaizen_error + (kaizen_db \<times> int)" where
  "createCard luxon input actor db =
     rbind (validateCardValues luxon input) (\<lambda>values.
     rbind (assertDropdowns db values None) (\<lambda>_.
     rbind (insertCardValues db values actor None MANUAL) (\<lambda>(db1, no).
     case getCard db1 no of
       None \<Rightarrow> Inl NotFoundAfter
     | Some c \<Rightarrow> Inr (kaizen_log KAIZEN_CARD_ENTITY (int_str no) AUDIT_CREATE actor db1, no))))"

definition text_json :: "string option \<Rightarrow> jsval" where
  "text_json s = (case s of None \<Rightarrow> JNull | Some t \<Rightarrow> JStr t)"

definition status_name :: "kaizen_status \<Rightarrow> string" where
  "status_name s = (case s of OPEN \<Rightarrow> ''OPEN'' | CLOSED \<Rightarrow> ''CLOSED'')"

definition cardToInput :: "card_values \<Rightarrow> (string \<times> jsval) list" where
  "cardToInput v =
     [(''creatorName'', JStr (cv_creator v)), (''cardDate'', JStr (cv_date v)),
      (''departmentId'', JNum (Fin (of_int (cv_department v)))), (''cardName'', JStr (cv_name v)),
      (''cardTypeId'', JNum (Fin (of_int (cv_type v)))), (''issue'', JStr (cv_issue v)),
      (''rootCause'', text_json (cv_root_cause v)), (''impact'', text_json (cv_impact v)),
      (''priorityId'', JNum (Fin (of_int (cv_priority v)))), (''proposedSolution'', text_json (cv_solution v)),
      (''expectedDate'', text_json (cv_expected v)), (''closerDate'', text_json (cv_closer v)),
      (''responsibleParty'', text_json (cv_responsible v)), (''status'', JStr (status_name (cv_status v)))]"

text \<open>\<open>for (const [key, value] of Object.entries(input)) if (value !== undefined) merged[key] = value\<close>\<close>

definition merge_input :: "(string \<times> jsval) list \<Rightarrow> (string \<times> jsval) list \<Rightarrow> (string \<times> jsval) list" where
  "merge_input input base = fold (\<lambda>(k, v) m. if v = JUndef then m else AList.update k v m) input base"

definition updateCard ::
  "(string \<Rightarrow> bool) \<Rightarrow> int \<Rightarrow> (string \<times> jsval) list \<Rightarrow> int \<Rightarrow> kaizen_db \<Rightarrow> kaizen_error + kaizen_db" where
  "updateCard luxon no input actor db =
     (case getCard db no of
        None \<Rightarrow> Inl (Refused ''card.notFound'')
      | Some existing \<Rightarrow>
          rbind (validateCardValues luxon (JObj (merge_input input (cardToInput (cr_values existing))))) (\<lambda>values.
          rbind (validateCardValues luxon (JObj (cardToInput (cr_values existing)))) (\<lambda>previous.
          rbind (assertDropdowns db values (Some previous)) (\<lambda>_.
            let db1 = db\<lparr>kz_cards := update_where (\<lambda>c. cr_no c = no \<and> cr_deleted_by c = None)
                  (\<lambda>c. c\<lparr>cr_values := values, cr_updated_by := actor\<rparr>) (kz_cards db)\<rparr> in
            case getCard db1 no of
              None \<Rightarrow> Inl NotFoundAfter
            | Some c \<Rightarrow> Inr (kaizen_log KAIZEN_CARD_ENTITY (int_str no) AUDIT_UPDATE actor db1)))))"

definition closeCard ::
  "(string \<Rightarrow> bool) \<Rightarrow> string \<Rightarrow> int \<Rightarrow> jsval \<Rightarrow> int \<Rightarrow> kaizen_db \<Rightarrow> kaizen_error + kaizen_db" where
  "closeCard luxon today no closerDate actor db =
     (let date = (if text_of closerDate = [] then today else text_of closerDate)
      in updateCard luxon no [(''status'', JStr ''CLOSED''), (''closerDate'', JStr date)] actor db)"

definition deleteCard :: "int \<Rightarrow> int \<Rightarrow> kaizen_db \<Rightarrow> kaizen_error + kaizen_db" where
  "deleteCard no actor db =
     (case getCard db no of
        None \<Rightarrow> Inl (Refused ''card.notFound'')
      | Some existing \<Rightarrow>
          Inr (kaizen_log KAIZEN_CARD_ENTITY (int_str no) AUDIT_DELETE actor
            (db\<lparr>kz_cards := update_where (\<lambda>c. cr_no c = no) (\<lambda>c. c\<lparr>cr_deleted_by := Some actor\<rparr>) (kz_cards db)\<rparr>)))"

section \<open>Well-formed cards\<close>

definition trimmed :: "string \<Rightarrow> bool" where
  "trimmed t = (trim t = t \<and> t \<noteq> [])"

definition trimmed_option :: "string option \<Rightarrow> bool" where
  "trimmed_option t = (case t of None \<Rightarrow> True | Some s \<Rightarrow> trimmed s)"

definition date_option :: "(string \<Rightarrow> bool) \<Rightarrow> string option \<Rightarrow> bool" where
  "date_option luxon d = (case d of None \<Rightarrow> True | Some s \<Rightarrow> trimmed s \<and> isValidIsoDate luxon s)"

definition values_ok :: "(string \<Rightarrow> bool) \<Rightarrow> card_values \<Rightarrow> bool" where
  "values_ok luxon v \<longleftrightarrow>
     trimmed (cv_creator v) \<and> length (cv_creator v) \<le> 150 \<and> trimmed (cv_date v) \<and> isValidIsoDate luxon (cv_date v) \<and>
     trimmed (cv_name v) \<and> length (cv_name v) \<le> 200 \<and> trimmed (cv_issue v) \<and>
     cv_department v > 0 \<and> cv_type v > 0 \<and> cv_priority v > 0 \<and>
     date_option luxon (cv_expected v) \<and> \<not> earlier (cv_expected v) (cv_date v) \<and>
     date_option luxon (cv_closer v) \<and> \<not> earlier (cv_closer v) (cv_date v) \<and>
     (cv_status v = CLOSED \<longleftrightarrow> cv_closer v \<noteq> None) \<and>
     trimmed_option (cv_root_cause v) \<and> trimmed_option (cv_impact v) \<and> trimmed_option (cv_solution v) \<and>
     trimmed_option (cv_responsible v) \<and> (case cv_responsible v of None \<Rightarrow> True | Some r \<Rightarrow> length r \<le> 150)"

text \<open>What each reader of an input field returns.\<close>

lemma text_of_trimmed: "text_of v \<noteq> [] \<Longrightarrow> trimmed (text_of v)"
  by (simp add: text_of_def trimmed_def split: if_splits)

lemma required_text_Inr [rule_facts]:
  "required_text v code limit too_long = Inr t \<longleftrightarrow> t = text_of v \<and> t \<noteq> [] \<and> (case limit of None \<Rightarrow> True | Some m \<Rightarrow> length t \<le> m)"
  by (auto simp: required_text_def Let_def rbind_eq_Inr ensure_eq_Inr)

lemma optionalText_ok: "trimmed_option (optionalText v)"
  by (simp add: optionalText_def trimmed_option_def Let_def text_of_trimmed)

lemma optionalDate_Inr [rule_facts]:
  "optionalDate luxon v code = Inr d \<longleftrightarrow> d = optionalText v \<and> (d = None \<or> isValidIsoDate luxon (the d))"
  by (auto simp: optionalDate_def optionalText_def Let_def)

lemma idOf_Inr [rule_facts]:
  "idOf v code = Inr n \<longleftrightarrow> as_integer (to_number v) = Some n \<and> \<not> nullish v \<and> v \<noteq> JStr [] \<and> n > 0"
  by (auto simp: idOf_def split: option.splits)

lemma status_of_Inr [rule_facts]:
  "status_of v = Inr s \<longleftrightarrow> (to_upper (text_of v) \<in> {[], ''OPEN''} \<and> s = OPEN \<or> to_upper (text_of v) = ''CLOSED'' \<and> s = CLOSED)"
  by (auto simp: status_of_def Let_def)

lemma text_of_json [simp]:
  "trimmed t \<Longrightarrow> text_of (JStr t) = t"
  "trimmed_option s \<Longrightarrow> optionalText (text_json s) = s"
  "text_of JNull = []"
  by (cases s; simp add: text_of_def trimmed_def trimmed_option_def optionalText_def text_json_def Let_def)+

lemma status_name_of [simp]: "status_of (JStr (status_name s)) = Inr s"
proof -
  have "trimmed ''OPEN''" "trimmed ''CLOSED''" by code_simp+
  moreover have "to_upper ''OPEN'' = ''OPEN''" "to_upper ''CLOSED'' = ''CLOSED''" by code_simp+
  ultimately show ?thesis by (cases s) (simp_all add: status_of_def status_name_def)
qed

text \<open>The validated values, field by field.\<close>

lemma validate_Inr:
  "validateCardValues luxon input = Inr v \<longleftrightarrow>
     cv_creator v = text_of (field_of input ''creatorName'') \<and> cv_creator v \<noteq> [] \<and> length (cv_creator v) \<le> 150 \<and>
     cv_date v = text_of (field_of input ''cardDate'') \<and> cv_date v \<noteq> [] \<and> isValidIsoDate luxon (cv_date v) \<and>
     cv_name v = text_of (field_of input ''cardName'') \<and> cv_name v \<noteq> [] \<and> length (cv_name v) \<le> 200 \<and>
     idOf (field_of input ''departmentId'') ''card.departmentRequired'' = Inr (cv_department v) \<and>
     idOf (field_of input ''cardTypeId'') ''card.typeRequired'' = Inr (cv_type v) \<and>
     idOf (field_of input ''priorityId'') ''card.priorityRequired'' = Inr (cv_priority v) \<and>
     cv_issue v = text_of (field_of input ''issue'') \<and> cv_issue v \<noteq> [] \<and>
     cv_expected v = optionalText (field_of input ''expectedDate'') \<and>
     (cv_expected v = None \<or> isValidIsoDate luxon (the (cv_expected v))) \<and> \<not> earlier (cv_expected v) (cv_date v) \<and>
     status_of (field_of input ''status'') = Inr (cv_status v) \<and>
     cv_closer v = optionalText (field_of input ''closerDate'') \<and>
     (cv_closer v = None \<or> isValidIsoDate luxon (the (cv_closer v))) \<and> \<not> earlier (cv_closer v) (cv_date v) \<and>
     (cv_status v = CLOSED \<longleftrightarrow> cv_closer v \<noteq> None) \<and>
     cv_responsible v = optionalText (field_of input ''responsibleParty'') \<and>
     (case cv_responsible v of None \<Rightarrow> True | Some r \<Rightarrow> length r \<le> 150) \<and>
     cv_root_cause v = optionalText (field_of input ''rootCause'') \<and> cv_impact v = optionalText (field_of input ''impact'') \<and>
     cv_solution v = optionalText (field_of input ''proposedSolution'')" (is "?l \<longleftrightarrow> ?r")
proof
  assume ?l
  then show ?r
    unfolding validateCardValues_def Let_def rbind_eq_Inr required_text_Inr optionalDate_Inr ensure_eq_Inr sum.inject
    by (elim exE conjE) (drule sym [where t = v], cases "cv_status v", simp_all)
next
  assume r: ?r
  then have d: "idOf (field_of input ''departmentId'') ''card.departmentRequired'' = Inr (cv_department v)"
    "idOf (field_of input ''cardTypeId'') ''card.typeRequired'' = Inr (cv_type v)"
    "idOf (field_of input ''priorityId'') ''card.priorityRequired'' = Inr (cv_priority v)"
    "status_of (field_of input ''status'') = Inr (cv_status v)" by blast+
  have f: "text_of (field_of input ''creatorName'') = cv_creator v" "text_of (field_of input ''cardDate'') = cv_date v"
    "text_of (field_of input ''cardName'') = cv_name v" "text_of (field_of input ''issue'') = cv_issue v"
    "optionalText (field_of input ''expectedDate'') = cv_expected v" "optionalText (field_of input ''closerDate'') = cv_closer v"
    "optionalText (field_of input ''responsibleParty'') = cv_responsible v" "optionalText (field_of input ''rootCause'') = cv_root_cause v"
    "optionalText (field_of input ''impact'') = cv_impact v" "optionalText (field_of input ''proposedSolution'') = cv_solution v"
    using r by simp_all
  have "cv_status v = CLOSED \<longleftrightarrow> cv_closer v \<noteq> None" using r by blast
  then have "cv_status v = OPEN \<longleftrightarrow> cv_closer v = None" by (cases "cv_status v") simp_all
  then show ?l
    unfolding validateCardValues_def Let_def d f rbind_simps rbind_eq_Inr required_text_Inr optionalDate_Inr ensure_eq_Inr
    using r [unfolded f] by (cases "cv_closer v") simp_all
qed

lemma validated_ok: "validateCardValues luxon input = Inr v \<Longrightarrow> values_ok luxon v"
proof -
  assume v: "validateCardValues luxon input = Inr v"
  note v = v [unfolded validate_Inr]
  have t: "trimmed (cv_creator v)" "trimmed (cv_date v)" "trimmed (cv_name v)" "trimmed (cv_issue v)"
    using v text_of_trimmed by metis+
  have o: "trimmed_option (cv_root_cause v)" "trimmed_option (cv_impact v)" "trimmed_option (cv_solution v)"
    "trimmed_option (cv_responsible v)" "trimmed_option (cv_expected v)" "trimmed_option (cv_closer v)"
    using v optionalText_ok by metis+
  have ids: "cv_department v > 0" "cv_type v > 0" "cv_priority v > 0" using v unfolding idOf_Inr by blast+
  have "date_option luxon (cv_expected v)" "date_option luxon (cv_closer v)"
    using v o(5,6) by (auto simp: date_option_def trimmed_option_def split: option.splits)
  then show ?thesis using v t o(1-4) ids unfolding values_ok_def by blast
qed

lemma card_fields:
  "field_of (JObj (cardToInput v)) ''creatorName'' = JStr (cv_creator v)" "field_of (JObj (cardToInput v)) ''cardDate'' = JStr (cv_date v)"
  "field_of (JObj (cardToInput v)) ''departmentId'' = JNum (Fin (of_int (cv_department v)))"
  "field_of (JObj (cardToInput v)) ''cardName'' = JStr (cv_name v)"
  "field_of (JObj (cardToInput v)) ''cardTypeId'' = JNum (Fin (of_int (cv_type v)))"
  "field_of (JObj (cardToInput v)) ''issue'' = JStr (cv_issue v)" "field_of (JObj (cardToInput v)) ''rootCause'' = text_json (cv_root_cause v)"
  "field_of (JObj (cardToInput v)) ''impact'' = text_json (cv_impact v)"
  "field_of (JObj (cardToInput v)) ''priorityId'' = JNum (Fin (of_int (cv_priority v)))"
  "field_of (JObj (cardToInput v)) ''proposedSolution'' = text_json (cv_solution v)"
  "field_of (JObj (cardToInput v)) ''expectedDate'' = text_json (cv_expected v)"
  "field_of (JObj (cardToInput v)) ''closerDate'' = text_json (cv_closer v)"
  "field_of (JObj (cardToInput v)) ''responsibleParty'' = text_json (cv_responsible v)"
  "field_of (JObj (cardToInput v)) ''status'' = JStr (status_name (cv_status v))"
  by (simp_all add: cardToInput_def)

lemma round_trip:
  assumes "values_ok luxon v"
  shows "validateCardValues luxon (JObj (cardToInput v)) = Inr v"
proof -
  note v = assms [unfolded values_ok_def]
  have d: "trimmed_option (cv_expected v)" "trimmed_option (cv_closer v)"
    "cv_expected v = None \<or> isValidIsoDate luxon (the (cv_expected v))" "cv_closer v = None \<or> isValidIsoDate luxon (the (cv_closer v))"
    using v by (auto simp: date_option_def trimmed_option_def split: option.splits)
  show ?thesis
    unfolding validate_Inr card_fields using v d by (simp add: trimmed_def idOf_Inr)
qed

end
