(* ===== verification/Kaizen_Rules.thy ===== *)
theory Kaizen_Rules
  imports Kaizen
begin

text \<open>
  What holds of the Kaizen tables after every sequence of operations: numbers are unique and below their
  counters, every card, deleted or not, keeps the rules of its fields and refers to existing values of the
  right lists, labels are unique in a list; a card never disappears and a deleted card never changes. Then the
  exact effect of editing, closing and reordering.
\<close>

section \<open>The invariant\<close>

definition in_list :: "kaizen_db \<Rightarrow> string \<Rightarrow> int \<Rightarrow> bool" where
  "in_list db k i = list_ex (\<lambda>w. dv_id w = i \<and> dv_list w = k) (kz_values db)"

definition refers :: "kaizen_db \<Rightarrow> card_values \<Rightarrow> bool" where
  "refers db v = (in_list db ''department'' (cv_department v) \<and> in_list db ''card_type'' (cv_type v) \<and>
     in_list db ''card_priority'' (cv_priority v))"

definition labels_unique :: "(string \<Rightarrow> string) \<Rightarrow> dropdown_row list \<Rightarrow> bool" where
  "labels_unique collate vs = list_all (\<lambda>v. list_all (\<lambda>w.
     \<not> (dv_list v = dv_list w \<and> collate (dv_label v) = collate (dv_label w) \<and> dv_id v \<noteq> dv_id w)) vs) vs"

definition kaizen_ok :: "(string \<Rightarrow> bool) \<Rightarrow> (string \<Rightarrow> string) \<Rightarrow> kaizen_db \<Rightarrow> bool" where
  "kaizen_ok luxon collate db \<longleftrightarrow>
     0 < kz_value_seq db \<and> distinct (map dv_id (kz_values db)) \<and> list_all (\<lambda>v. 0 < dv_id v \<and> dv_id v < kz_value_seq db \<and> dv_list v \<in> set KAIZEN_LISTS) (kz_values db) \<and>
     labels_unique collate (kz_values db) \<and>
     distinct (map cr_no (kz_cards db)) \<and> list_all (\<lambda>c. cr_no c < kz_card_seq db) (kz_cards db) \<and>
     list_all (\<lambda>c. values_ok luxon (cr_values c) \<and> refers db (cr_values c)) (kz_cards db)"

text \<open>Every card of the first tables is still there in the second, unchanged if it was deleted.\<close>

definition cards_kept :: "kaizen_db \<Rightarrow> kaizen_db \<Rightarrow> bool" where
  "cards_kept db db' = list_all (\<lambda>c. list_ex (\<lambda>d. cr_no d = cr_no c \<and> cr_created_by d = cr_created_by c \<and>
     (cr_deleted_by c \<noteq> None \<longrightarrow> d = c)) (kz_cards db')) (kz_cards db)"

inductive kaizen_step ::
  "(string \<Rightarrow> bool) \<Rightarrow> (string \<Rightarrow> string) \<Rightarrow> kaizen_db \<Rightarrow> kaizen_db \<Rightarrow> bool" for luxon collate where
  kz_create_value: "createDropdownValue collate di actor db = Inr (db', i) \<Longrightarrow> kaizen_step luxon collate db db'"
| kz_update_value: "updateDropdownValue collate i di actor db = Inr db' \<Longrightarrow> kaizen_step luxon collate db db'"
| kz_reorder: "reorderDropdownValues k ids actor db = Inr db' \<Longrightarrow> kaizen_step luxon collate db db'"
| kz_delete_value: "deleteDropdownValue i actor db = Inr db' \<Longrightarrow> kaizen_step luxon collate db db'"
| kz_create: "createCard luxon input actor db = Inr (db', no) \<Longrightarrow> kaizen_step luxon collate db db'"
| kz_update: "updateCard luxon no kvs actor db = Inr db' \<Longrightarrow> kaizen_step luxon collate db db'"
| kz_close: "closeCard luxon today no v actor db = Inr db' \<Longrightarrow> kaizen_step luxon collate db db'"
| kz_delete: "deleteCard no actor db = Inr db' \<Longrightarrow> kaizen_step luxon collate db db'"

inductive kaizen_run ::
  "(string \<Rightarrow> bool) \<Rightarrow> (string \<Rightarrow> string) \<Rightarrow> kaizen_db \<Rightarrow> kaizen_db \<Rightarrow> bool" for luxon collate where
  kz_start: "kaizen_run luxon collate db db"
| kz_more: "kaizen_run luxon collate db db' \<Longrightarrow> kaizen_step luxon collate db' db'' \<Longrightarrow> kaizen_run luxon collate db db''"

section \<open>Effects of the operations\<close>

lemma kaizen_log_tables [simp]:
  "kz_values (kaizen_log e i a by' db) = kz_values db" "kz_cards (kaizen_log e i a by' db) = kz_cards db"
  "kz_value_seq (kaizen_log e i a by' db) = kz_value_seq db" "kz_card_seq (kaizen_log e i a by' db) = kz_card_seq db"
  by (simp_all add: kaizen_log_def)

lemma in_list_mono:
  "(\<lambda>v. (dv_id v, dv_list v)) ` set (kz_values db) \<subseteq> (\<lambda>v. (dv_id v, dv_list v)) ` set (kz_values db') \<Longrightarrow>
   in_list db k i \<Longrightarrow> in_list db' k i"
proof -
  have iff: "in_list d k i \<longleftrightarrow> (i, k) \<in> (\<lambda>v. (dv_id v, dv_list v)) ` set (kz_values d)" for d
    by (auto simp: in_list_def list_ex_iff)
  show "(\<lambda>v. (dv_id v, dv_list v)) ` set (kz_values db) \<subseteq> (\<lambda>v. (dv_id v, dv_list v)) ` set (kz_values db') \<Longrightarrow>
      in_list db k i \<Longrightarrow> in_list db' k i" unfolding iff by blast
qed

lemma refers_mono:
  "(\<lambda>v. (dv_id v, dv_list v)) ` set (kz_values db) \<subseteq> (\<lambda>v. (dv_id v, dv_list v)) ` set (kz_values db') \<Longrightarrow>
   refers db v \<Longrightarrow> refers db' v"
  unfolding refers_def using in_list_mono by blast

lemma assert_dropdown_in_list: "assert_dropdown db k code i prev = Inr () \<Longrightarrow> in_list db k i"
  by (auto simp: assert_dropdown_def in_list_def list_ex_iff split: option.splits dest!: first_row_Some)

lemma assertDropdowns_refers: "assertDropdowns db v prev = Inr () \<Longrightarrow> refers db v"
  unfolding assertDropdowns_def refers_def rbind_eq_Inr using assert_dropdown_in_list by (metis (full_types) old.unit.exhaust)

lemma getDropdownValue_mem: "getDropdownValue db i = Some v \<Longrightarrow> v \<in> set (kz_values db) \<and> dv_id v = i"
  by (auto simp: getDropdownValue_def dest!: first_row_Some)

lemma getCard_mem: "getCard db no = Some c \<Longrightarrow> c \<in> set (kz_cards db) \<and> cr_no c = no \<and> cr_deleted_by c = None"
  by (auto simp: getCard_def dest!: first_row_Some)

lemma labels_unique_iff:
  "labels_unique collate vs \<longleftrightarrow> (\<forall>v \<in> set vs. \<forall>w \<in> set vs.
     dv_list v = dv_list w \<longrightarrow> collate (dv_label v) = collate (dv_label w) \<longrightarrow> dv_id v = dv_id w)"
  by (auto simp: labels_unique_def list_all_iff)

lemma kaizen_ok_values:
  assumes ok: "kaizen_ok luxon collate db"
    and cards: "kz_cards db' = kz_cards db" "kz_card_seq db' = kz_card_seq db"
    and vals: "0 < kz_value_seq db'" "distinct (map dv_id (kz_values db'))" "list_all (\<lambda>v. 0 < dv_id v \<and> dv_id v < kz_value_seq db' \<and> dv_list v \<in> set KAIZEN_LISTS) (kz_values db')"
      "labels_unique collate (kz_values db')"
    and refs: "\<And>c. c \<in> set (kz_cards db) \<Longrightarrow> refers db (cr_values c) \<Longrightarrow> refers db' (cr_values c)"
  shows "kaizen_ok luxon collate db' \<and> cards_kept db db'"
proof -
  have "list_all (\<lambda>c. values_ok luxon (cr_values c) \<and> refers db' (cr_values c)) (kz_cards db)"
    using ok refs by (simp add: kaizen_ok_def list_all_iff)
  moreover have "cards_kept db db'" by (auto simp: cards_kept_def list_all_iff list_ex_iff cards(1))
  ultimately show ?thesis using ok vals by (simp add: kaizen_ok_def cards)
qed

lemma create_value_ok:
  assumes ok: "kaizen_ok luxon collate db" and r: "createDropdownValue collate di actor db = Inr (db', i)"
  shows "kaizen_ok luxon collate db' \<and> cards_kept db db'"
proof -
  have "\<exists>row. kz_values db' = kz_values db @ [row] \<and> dv_id row = kz_value_seq db \<and> dv_list row \<in> set KAIZEN_LISTS \<and>
      \<not> labelTaken collate db (dv_list row) (dv_label row) (- 1)"
    and db0: "kz_value_seq db' = kz_value_seq db + 1" "kz_cards db' = kz_cards db" "kz_card_seq db' = kz_card_seq db"
    using r by (auto simp: createDropdownValue_def validateDropdown_def Let_def rbind_eq_Inr ensure_eq_Inr)
  then obtain row where row: "dv_id row = kz_value_seq db" "dv_list row \<in> set KAIZEN_LISTS"
    "\<not> labelTaken collate db (dv_list row) (dv_label row) (- 1)" and values': "kz_values db' = kz_values db @ [row]" by blast
  note db' = values' db0
  have below: "dv_id v < kz_value_seq db" if "v \<in> set (kz_values db)" for v
    using ok that by (simp add: kaizen_ok_def list_all_iff)
  have pos: "0 < kz_value_seq db" "list_all (\<lambda>v. 0 < dv_id v) (kz_values db)" using ok by (auto simp: kaizen_ok_def list_all_iff)
  show ?thesis
  proof (rule kaizen_ok_values [OF ok db'(3,4)])
    show "0 < kz_value_seq db'" using pos(1) db'(2) by simp
    show "distinct (map dv_id (kz_values db'))" using ok below by (force simp: kaizen_ok_def db' row(1))
    show "list_all (\<lambda>v. 0 < dv_id v \<and> dv_id v < kz_value_seq db' \<and> dv_list v \<in> set KAIZEN_LISTS) (kz_values db')"
      using ok below by (fastforce simp: kaizen_ok_def db' row list_all_iff dest: less_imp_le)
    have fresh: "collate (dv_label v) \<noteq> collate (dv_label row)" if "v \<in> set (kz_values db)" "dv_list v = dv_list row" for v
      using row(3) that pos(2) by (force simp: labelTaken_def list_ex_iff list_all_iff)
    have unique: "labels_unique collate (kz_values db)" using ok by (simp add: kaizen_ok_def)
    show "labels_unique collate (kz_values db')"
      unfolding labels_unique_iff
    proof (intro ballI impI)
      fix v w assume vw: "v \<in> set (kz_values db')" "w \<in> set (kz_values db')" "dv_list v = dv_list w"
        "collate (dv_label v) = collate (dv_label w)"
      have "v \<in> set (kz_values db) \<or> v = row" "w \<in> set (kz_values db) \<or> w = row" using vw(1,2) db'(1) by auto
      then show "dv_id v = dv_id w" using vw(3,4) fresh unique unfolding labels_unique_iff by metis
    qed
    show "\<And>c. refers db (cr_values c) \<Longrightarrow> refers db' (cr_values c)"
      by (rule refers_mono [of db db']) (auto simp: db')
  qed
qed

text \<open>An operation that keeps the numbers and lists of the values and only edits rows.\<close>

lemma values_edit_ok:
  assumes ok: "kaizen_ok luxon collate db"
    and db': "kz_cards db' = kz_cards db" "kz_card_seq db' = kz_card_seq db" "kz_value_seq db' = kz_value_seq db"
    and keys: "map (\<lambda>v. (dv_id v, dv_list v)) (kz_values db') = map (\<lambda>v. (dv_id v, dv_list v)) (kz_values db)"
    and labels: "labels_unique collate (kz_values db')"
  shows "kaizen_ok luxon collate db' \<and> cards_kept db db'"
proof (rule kaizen_ok_values [OF ok db'(1,2)])
  have all: "list_all (\<lambda>p. Q (fst p) (snd p)) (map (\<lambda>v. (dv_id v, dv_list v)) vs) = list_all (\<lambda>v. Q (dv_id v) (dv_list v)) vs" for Q vs
    by (simp add: list.pred_map comp_def)
  have ids: "map dv_id vs = map fst (map (\<lambda>v. (dv_id v, dv_list v)) vs)" for vs by simp
  show "0 < kz_value_seq db'" using ok db'(3) by (simp add: kaizen_ok_def)
  have "map dv_id (kz_values db') = map dv_id (kz_values db)"
    unfolding ids [of "kz_values db'"] ids [of "kz_values db"] keys ..
  then show "distinct (map dv_id (kz_values db'))" using ok by (simp add: kaizen_ok_def)
  show "list_all (\<lambda>v. 0 < dv_id v \<and> dv_id v < kz_value_seq db' \<and> dv_list v \<in> set KAIZEN_LISTS) (kz_values db')"
    using ok all [of "\<lambda>i k. 0 < i \<and> i < kz_value_seq db \<and> k \<in> set KAIZEN_LISTS" "kz_values db"]
      all [of "\<lambda>i k. 0 < i \<and> i < kz_value_seq db \<and> k \<in> set KAIZEN_LISTS" "kz_values db'"]
    by (simp add: kaizen_ok_def keys db'(3))
  show "labels_unique collate (kz_values db')" by (rule labels)
  have "set (map (\<lambda>v. (dv_id v, dv_list v)) (kz_values db)) = set (map (\<lambda>v. (dv_id v, dv_list v)) (kz_values db'))"
    unfolding keys ..
  then show "\<And>c. refers db (cr_values c) \<Longrightarrow> refers db' (cr_values c)" by (intro refers_mono [of db db']) simp_all
qed

lemma update_value_ok:
  assumes ok: "kaizen_ok luxon collate db" and r: "updateDropdownValue collate i di actor db = Inr db'"
  shows "kaizen_ok luxon collate db' \<and> cards_kept db db'"
proof -
  obtain existing label color n active where e: "getDropdownValue db i = Some existing"
    and free: "\<not> labelTaken collate db (dv_list existing) label i"
    and db': "kz_values db' = update_where (\<lambda>v. dv_id v = i)
        (\<lambda>v. v\<lparr>dv_label := label, dv_sort := n, dv_color := color, dv_active := active, dv_updated_by := Some actor\<rparr>) (kz_values db)"
      "kz_cards db' = kz_cards db" "kz_card_seq db' = kz_card_seq db" "kz_value_seq db' = kz_value_seq db"
    using r by (auto simp: updateDropdownValue_def validateDropdown_def Let_def rbind_eq_Inr ensure_eq_Inr split: option.splits)
  note e = getDropdownValue_mem [OF e]
  have one: "v = existing" if "v \<in> set (kz_values db)" "dv_id v = i" for v
    using ok e that by (auto simp: kaizen_ok_def distinct_map dest: inj_onD)
  have unique: "labels_unique collate (kz_values db)" using ok by (simp add: kaizen_ok_def)
  have other: "collate (dv_label v) \<noteq> collate label" if "v \<in> set (kz_values db)" "dv_list v = dv_list existing" "dv_id v \<noteq> i" for v
    using free that by (auto simp: labelTaken_def list_ex_iff)
  have "labels_unique collate (kz_values db')"
    unfolding labels_unique_iff
  proof (intro ballI impI)
    fix v w assume vw: "v \<in> set (kz_values db')" "w \<in> set (kz_values db')" "dv_list v = dv_list w"
      "collate (dv_label v) = collate (dv_label w)"
    have cases: "x \<in> set (kz_values db) \<and> dv_id x \<noteq> i \<or> dv_id x = i \<and> dv_label x = label \<and> dv_list x = dv_list existing"
      if "x \<in> set (kz_values db')" for x
      using that one by (auto simp: db' set_update_where)
    show "dv_id v = dv_id w"
      using cases [OF vw(1)] cases [OF vw(2)] vw(3,4) other unique unfolding labels_unique_iff by metis
  qed
  moreover have "map (\<lambda>v. (dv_id v, dv_list v)) (kz_values db') = map (\<lambda>v. (dv_id v, dv_list v)) (kz_values db)"
    unfolding db'(1) by (rule map_update_where_key) simp
  ultimately show ?thesis using values_edit_ok [OF ok db'(2-4)] by blast
qed

lemma fold_set_position:
  "map (\<lambda>v. (dv_id v, dv_list v, dv_label v)) (fold (set_position actor) ps vs) = map (\<lambda>v. (dv_id v, dv_list v, dv_label v)) vs"
proof (induction ps arbitrary: vs)
  case (Cons p ps)
  have "map (\<lambda>v. (dv_id v, dv_list v, dv_label v)) (set_position actor p vs) = map (\<lambda>v. (dv_id v, dv_list v, dv_label v)) vs"
    unfolding set_position_def by (rule map_update_where_key) simp
  then show ?case using Cons by simp
qed simp

lemma labels_unique_keys:
  assumes "map (\<lambda>v. (dv_id v, dv_list v, dv_label v)) vs = map (\<lambda>v. (dv_id v, dv_list v, dv_label v)) ws"
  shows "labels_unique collate vs = labels_unique collate ws"
proof -
  have "labels_unique collate xs \<longleftrightarrow> (\<forall>(i, k, l) \<in> set (map (\<lambda>v. (dv_id v, dv_list v, dv_label v)) xs).
      \<forall>(j, k', l') \<in> set (map (\<lambda>v. (dv_id v, dv_list v, dv_label v)) xs). k = k' \<longrightarrow> collate l = collate l' \<longrightarrow> i = j)" for xs
    by (auto simp: labels_unique_iff)
  from this [of vs] this [of ws] show ?thesis unfolding assms by (rule trans [OF _ sym])
qed

lemma reorder_ok:
  assumes ok: "kaizen_ok luxon collate db" and r: "reorderDropdownValues k ids actor db = Inr db'"
  shows "kaizen_ok luxon collate db' \<and> cards_kept db db'"
proof -
  have db': "kz_values db' = fold (set_position actor) (enumerate 0 ids) (kz_values db)" "kz_cards db' = kz_cards db"
    "kz_card_seq db' = kz_card_seq db" "kz_value_seq db' = kz_value_seq db"
    using r by (auto simp: reorderDropdownValues_def Let_def rbind_eq_Inr)
  note keys = fold_set_position [of actor "enumerate 0 ids" "kz_values db", folded db'(1)]
  have e: "map (\<lambda>v. (dv_id v, dv_list v)) vs = map (\<lambda>t. (fst t, fst (snd t))) (map (\<lambda>v. (dv_id v, dv_list v, dv_label v)) vs)" for vs
    by simp
  have "map (\<lambda>v. (dv_id v, dv_list v)) (kz_values db') = map (\<lambda>v. (dv_id v, dv_list v)) (kz_values db)"
    unfolding e [of "kz_values db'"] e [of "kz_values db"] keys ..
  moreover have "labels_unique collate (kz_values db')" using ok labels_unique_keys [OF keys] by (simp add: kaizen_ok_def)
  ultimately show ?thesis using values_edit_ok [OF ok db'(2-4)] by blast
qed

lemma delete_value_ok:
  assumes ok: "kaizen_ok luxon collate db" and r: "deleteDropdownValue i actor db = Inr db'"
  shows "kaizen_ok luxon collate db' \<and> cards_kept db db'"
proof -
  have unused: "usage_count db i = 0" and db': "kz_values db' = delete_where (\<lambda>v. dv_id v = i) (kz_values db)"
    "kz_cards db' = kz_cards db" "kz_card_seq db' = kz_card_seq db" "kz_value_seq db' = kz_value_seq db"
    using r by (auto simp: deleteDropdownValue_def split: option.splits if_splits)
  show ?thesis
  proof (rule kaizen_ok_values [OF ok db'(2,3)])
    show "0 < kz_value_seq db'" using ok db'(4) by (simp add: kaizen_ok_def)
    show "distinct (map dv_id (kz_values db'))" using ok by (simp add: kaizen_ok_def db' delete_where_def distinct_map_filter)
    show "list_all (\<lambda>v. 0 < dv_id v \<and> dv_id v < kz_value_seq db' \<and> dv_list v \<in> set KAIZEN_LISTS) (kz_values db')"
      "labels_unique collate (kz_values db')"
      using ok by (auto simp: kaizen_ok_def db' list_all_iff labels_unique_iff)
    fix c assume c: "c \<in> set (kz_cards db)" "refers db (cr_values c)"
    have "cv_department (cr_values c) \<noteq> i \<and> cv_type (cr_values c) \<noteq> i \<and> cv_priority (cr_values c) \<noteq> i"
      using unused c(1) by (auto simp: usage_count_def filter_empty_conv)
    then show "refers db' (cr_values c)" using c(2) by (auto simp: refers_def in_list_def list_ex_iff db')
  qed
qed

text \<open>Changes of the cards.\<close>

lemma kaizen_ok_cards:
  assumes ok: "kaizen_ok luxon collate db" and same: "kz_values db' = kz_values db" "kz_value_seq db' = kz_value_seq db"
    and vals: "distinct (map cr_no (kz_cards db'))" "list_all (\<lambda>c. cr_no c < kz_card_seq db') (kz_cards db')"
      "list_all (\<lambda>c. values_ok luxon (cr_values c) \<and> refers db (cr_values c)) (kz_cards db')"
  shows "kaizen_ok luxon collate db'"
proof -
  have "refers db' = refers db" by (simp add: fun_eq_iff refers_def in_list_def same(1))
  then show ?thesis using ok vals by (simp add: kaizen_ok_def same)
qed

lemma createCard_Inr:
  assumes "createCard luxon input actor db = Inr (db', no)"
  obtains vs where "validateCardValues luxon input = Inr vs" "assertDropdowns db vs None = Inr ()" "no = kz_card_seq db"
    "no \<notin> cr_no ` set (kz_cards db)" "kz_values db' = kz_values db" "kz_value_seq db' = kz_value_seq db" "kz_card_seq db' = no + 1"
    "kz_cards db' = kz_cards db @ [\<lparr>cr_no = no, cr_values = vs, cr_source = MANUAL, cr_created_by = actor,
       cr_updated_by = actor, cr_deleted_by = None\<rparr>]"
  using assms by (auto simp: createCard_def insertCardValues_def Let_def rbind_eq_Inr split: option.splits if_splits)

lemma create_card_ok:
  assumes ok: "kaizen_ok luxon collate db" and r: "createCard luxon input actor db = Inr (db', no)"
  shows "kaizen_ok luxon collate db' \<and> cards_kept db db'"
  using r
proof (cases rule: createCard_Inr)
  case (1 vs)
  have below: "list_all (\<lambda>c. cr_no c < kz_card_seq db) (kz_cards db)" "distinct (map cr_no (kz_cards db))"
    "list_all (\<lambda>c. values_ok luxon (cr_values c) \<and> refers db (cr_values c)) (kz_cards db)"
    using ok by (simp_all add: kaizen_ok_def)
  have "kaizen_ok luxon collate db'"
  proof (rule kaizen_ok_cards [OF ok 1(5,6)])
    show "distinct (map cr_no (kz_cards db'))" using below(2) 1(4) by (simp add: 1(8))
    show "list_all (\<lambda>c. cr_no c < kz_card_seq db') (kz_cards db')"
      using below(1) by (auto simp: 1(3,7,8) list_all_iff)
    show "list_all (\<lambda>c. values_ok luxon (cr_values c) \<and> refers db (cr_values c)) (kz_cards db')"
      using below(3) validated_ok [OF 1(1)] assertDropdowns_refers [OF 1(2)] by (simp add: 1(8))
  qed
  moreover have "cards_kept db db'" by (auto simp: cards_kept_def list_all_iff list_ex_iff 1(8))
  ultimately show ?thesis by blast
qed

lemma updateCard_Inr:
  assumes "updateCard luxon no input actor db = Inr db'"
  obtains c vs where "getCard db no = Some c"
    "validateCardValues luxon (JObj (merge_input input (cardToInput (cr_values c)))) = Inr vs"
    "refers db vs" "kz_values db' = kz_values db" "kz_value_seq db' = kz_value_seq db" "kz_card_seq db' = kz_card_seq db"
    "kz_cards db' = update_where (\<lambda>c. cr_no c = no \<and> cr_deleted_by c = None)
        (\<lambda>c. c\<lparr>cr_values := vs, cr_updated_by := actor\<rparr>) (kz_cards db)"
  using assms by (auto simp: updateCard_def Let_def rbind_eq_Inr split: option.splits dest: assertDropdowns_refers)

lemma edited_cards_kept:
  assumes "kz_cards db' = update_where P f (kz_cards db)" "\<And>c. cr_no (f c) = cr_no c \<and> cr_created_by (f c) = cr_created_by c"
    "\<And>c. c \<in> set (kz_cards db) \<Longrightarrow> P c \<Longrightarrow> cr_deleted_by c = None"
  shows "cards_kept db db'"
  unfolding cards_kept_def list_all_iff list_ex_iff
proof
  fix c assume c: "c \<in> set (kz_cards db)"
  show "\<exists>d \<in> set (kz_cards db'). cr_no d = cr_no c \<and> cr_created_by d = cr_created_by c \<and> (cr_deleted_by c \<noteq> None \<longrightarrow> d = c)"
  proof (cases "P c")
    case True
    then show ?thesis using c assms by (intro bexI [of _ "f c"]) (auto simp: set_update_where)
  next
    case False
    then show ?thesis using c by (intro bexI [of _ c]) (auto simp: assms(1) set_update_where)
  qed
qed

lemma update_card_ok:
  assumes ok: "kaizen_ok luxon collate db" and r: "updateCard luxon no input actor db = Inr db'"
  shows "kaizen_ok luxon collate db' \<and> cards_kept db db'"
  using r
proof (cases rule: updateCard_Inr)
  case (1 c vs)
  have nos: "map cr_no (kz_cards db') = map cr_no (kz_cards db)"
    unfolding 1(7) by (rule map_update_where_key) simp
  have "kaizen_ok luxon collate db'"
  proof (rule kaizen_ok_cards [OF ok 1(4,5)])
    show "distinct (map cr_no (kz_cards db'))" using ok by (simp add: nos kaizen_ok_def)
    show "list_all (\<lambda>c. cr_no c < kz_card_seq db') (kz_cards db')"
      using ok by (auto simp: 1(6,7) kaizen_ok_def list_all_iff set_update_where)
    show "list_all (\<lambda>c. values_ok luxon (cr_values c) \<and> refers db (cr_values c)) (kz_cards db')"
      using ok validated_ok [OF 1(2)] 1(3) by (auto simp: 1(7) kaizen_ok_def list_all_iff set_update_where)
  qed
  moreover have "cards_kept db db'" by (rule edited_cards_kept [OF 1(7)]) auto
  ultimately show ?thesis by blast
qed

lemma delete_card_ok:
  assumes ok: "kaizen_ok luxon collate db" and r: "deleteCard no actor db = Inr db'"
  shows "kaizen_ok luxon collate db' \<and> cards_kept db db'"
proof -
  obtain c where c: "getCard db no = Some c" and same: "kz_values db' = kz_values db" "kz_value_seq db' = kz_value_seq db"
    "kz_card_seq db' = kz_card_seq db"
    and cards: "kz_cards db' = update_where (\<lambda>c. cr_no c = no) (\<lambda>c. c\<lparr>cr_deleted_by := Some actor\<rparr>) (kz_cards db)"
    using r by (auto simp: deleteCard_def split: option.splits)
  note c = getCard_mem [OF c]
  have one: "x = c" if "x \<in> set (kz_cards db)" "cr_no x = no" for x
    using ok c that by (auto simp: kaizen_ok_def distinct_map dest: inj_onD)
  have nos: "map cr_no (kz_cards db') = map cr_no (kz_cards db)"
    unfolding cards by (rule map_update_where_key) simp
  have "kaizen_ok luxon collate db'"
  proof (rule kaizen_ok_cards [OF ok same(1,2)])
    show "distinct (map cr_no (kz_cards db'))" using ok by (simp add: nos kaizen_ok_def)
    show "list_all (\<lambda>c. cr_no c < kz_card_seq db') (kz_cards db')"
      "list_all (\<lambda>c. values_ok luxon (cr_values c) \<and> refers db (cr_values c)) (kz_cards db')"
      using ok by (auto simp: cards same(3) kaizen_ok_def list_all_iff set_update_where)
  qed
  moreover have "cards_kept db db'" by (rule edited_cards_kept [OF cards]) (use one c in auto)
  ultimately show ?thesis by blast
qed

lemmas kaizen_steps_ok = create_value_ok update_value_ok reorder_ok delete_value_ok create_card_ok update_card_ok delete_card_ok

lemma kaizen_step_ok: "kaizen_step luxon collate db db' \<Longrightarrow> kaizen_ok luxon collate db \<Longrightarrow> kaizen_ok luxon collate db' \<and> cards_kept db db'"
proof (induction rule: kaizen_step.induct)
  case (kz_close today no v actor db db')
  then show ?case unfolding closeCard_def Let_def using update_card_ok by blast
qed (blast dest: kaizen_steps_ok)+

lemma cards_kept_trans: "cards_kept a b \<Longrightarrow> cards_kept b c \<Longrightarrow> cards_kept a c"
  unfolding cards_kept_def list_all_iff list_ex_iff by (metis (no_types, lifting))

text \<open>C23. After every sequence of operations on cards and dropdown values, every card (a deleted one too) keeps
the rules of its fields (a closer date exactly when closed, no date before the card's own, texts trimmed,
not empty and within their limits), refers to existing values of the right lists, labels stay unique in a
list, numbers stay unique and below their counters; no card disappears or changes its creator, and a
deleted card never changes again.\<close>

theorem kaizen_rules_kept:
  assumes "kaizen_run luxon collate db db'" and "kaizen_ok luxon collate db"
  shows "kaizen_ok luxon collate db' \<and> cards_kept db db'"
  using assms
proof (induction rule: kaizen_run.induct)
  case (kz_start db)
  then show ?case by (auto simp: cards_kept_def list_all_iff list_ex_iff)
next
  case (kz_more db db' db'')
  then show ?case using kaizen_step_ok cards_kept_trans by blast
qed

section \<open>Editing and closing\<close>

lemma map_of_merge:
  "map_of (merge_input input base) k =
     (case filter (\<lambda>kv. fst kv = k \<and> snd kv \<noteq> JUndef) input of [] \<Rightarrow> map_of base k | kvs \<Rightarrow> Some (snd (last kvs)))"
proof (induction input rule: rev_induct)
  case (snoc kv input)
  have "merge_input (input @ [kv]) base =
      (if snd kv = JUndef then merge_input input base else AList.update (fst kv) (snd kv) (merge_input input base))"
    by (simp add: merge_input_def case_prod_beta)
  then show ?case using snoc by (auto simp: update_conv split: list.splits)
qed (simp add: merge_input_def)

lemma card_keys:
  "fst ` set (cardToInput w) = {''creatorName'', ''cardDate'', ''departmentId'', ''cardName'', ''cardTypeId'', ''issue'', ''rootCause'',
     ''impact'', ''priorityId'', ''proposedSolution'', ''expectedDate'', ''closerDate'', ''responsibleParty'', ''status''}"
  by (simp add: cardToInput_def)

text \<open>Every field of a validated card depends on its own input field only.\<close>

lemma validate_field:
  assumes "validateCardValues luxon input = Inr v" "values_ok luxon w" "field_of input k = field_of (JObj (cardToInput w)) k"
  shows "field_of (JObj (cardToInput v)) k = field_of (JObj (cardToInput w)) k"
proof (cases "k \<in> fst ` set (cardToInput w)")
  case False
  then show ?thesis by (auto simp: cardToInput_def)
next
  case True
  note v = assms(1) [unfolded validate_Inr] and w = assms(2) [unfolded values_ok_def]
  have e: "cv_creator v = text_of (field_of input ''creatorName'')" "cv_date v = text_of (field_of input ''cardDate'')"
    "cv_name v = text_of (field_of input ''cardName'')" "cv_issue v = text_of (field_of input ''issue'')"
    "cv_expected v = optionalText (field_of input ''expectedDate'')" "cv_closer v = optionalText (field_of input ''closerDate'')"
    "cv_responsible v = optionalText (field_of input ''responsibleParty'')" "cv_root_cause v = optionalText (field_of input ''rootCause'')"
    "cv_impact v = optionalText (field_of input ''impact'')" "cv_solution v = optionalText (field_of input ''proposedSolution'')"
    using v by blast+
  have i: "as_integer (to_number (field_of input ''departmentId'')) = Some (cv_department v)"
    "as_integer (to_number (field_of input ''cardTypeId'')) = Some (cv_type v)"
    "as_integer (to_number (field_of input ''priorityId'')) = Some (cv_priority v)"
    "status_of (field_of input ''status'') = Inr (cv_status v)"
    using v unfolding idOf_Inr by blast+
  have t: "trimmed (cv_creator w)" "trimmed (cv_date w)" "trimmed (cv_name w)" "trimmed (cv_issue w)"
    "trimmed_option (cv_root_cause w)" "trimmed_option (cv_impact w)" "trimmed_option (cv_solution w)" "trimmed_option (cv_responsible w)"
    using w by blast+
  have d: "trimmed_option (cv_expected w)" "trimmed_option (cv_closer w)"
    using w by (auto simp: date_option_def trimmed_option_def split: option.splits)
  have s: "field_of input ''status'' = JStr (status_name (cv_status w)) \<Longrightarrow> cv_status v = cv_status w" using i(4) by simp
  from True show ?thesis
    unfolding card_keys insert_iff empty_iff
    by (elim disjE; hypsubst?; (use assms(3) i s in \<open>simp only: card_fields\<close>)?; (simp add: e t d)?)
qed

lemma getCard_update:
  assumes "\<And>c. cr_no (f c) = cr_no c" "\<And>c. cr_deleted_by (f c) = cr_deleted_by c"
    and "kz_cards db' = update_where (\<lambda>c. cr_no c = no \<and> cr_deleted_by c = None) f (kz_cards db)"
  shows "getCard db' n = (if n = no then map_option f (getCard db n) else getCard db n)"
proof -
  have "first_row (filter (\<lambda>c. cr_no c = n \<and> cr_deleted_by c = None)
      (update_where (\<lambda>c. cr_no c = no \<and> cr_deleted_by c = None) f cs)) =
    (if n = no then map_option f (first_row (filter (\<lambda>c. cr_no c = n \<and> cr_deleted_by c = None) cs))
     else first_row (filter (\<lambda>c. cr_no c = n \<and> cr_deleted_by c = None) cs))" for cs
    using assms(1,2) by (induction cs) (auto simp: update_where_def)
  then show ?thesis by (simp add: getCard_def assms(3))
qed

text \<open>Editing a card: the fields the edit leaves out, or gives as undefined, keep their values; the edited card
again satisfies the rules; every other card and all dropdown values stay as they were.\<close>

theorem update_card_exact:
  assumes "kaizen_ok luxon collate db" and "updateCard luxon no kvs actor db = Inr db'"
  shows "\<exists>c c'. getCard db no = Some c \<and> getCard db' no = Some c' \<and> values_ok luxon (cr_values c') \<and>
    refers db' (cr_values c') \<and> cr_updated_by c' = actor \<and>
    (\<forall>k. (\<forall>v. (k, v) \<in> set kvs \<longrightarrow> v = JUndef) \<longrightarrow>
       field_of (JObj (cardToInput (cr_values c'))) k = field_of (JObj (cardToInput (cr_values c))) k) \<and>
    (\<forall>n. n \<noteq> no \<longrightarrow> getCard db' n = getCard db n) \<and> kz_values db' = kz_values db"
  using assms(2)
proof (cases rule: updateCard_Inr)
  case (1 c vs)
  let ?f = "\<lambda>c. c\<lparr>cr_values := vs, cr_updated_by := actor\<rparr>"
  note g = getCard_update [OF _ _ 1(7)]
  have "getCard db' no = Some (?f c)" "\<forall>n. n \<noteq> no \<longrightarrow> getCard db' n = getCard db n" using 1(1) by (simp_all add: g)
  moreover have ok: "values_ok luxon (cr_values c)"
    using assms(1) getCard_mem [OF 1(1)] by (simp add: kaizen_ok_def list_all_iff)
  moreover have "field_of (JObj (cardToInput vs)) k = field_of (JObj (cardToInput (cr_values c))) k"
    if "\<forall>v. (k, v) \<in> set kvs \<longrightarrow> v = JUndef" for k
  proof (rule validate_field [OF 1(2) ok])
    have "filter (\<lambda>kv. fst kv = k \<and> snd kv \<noteq> JUndef) kvs = []" using that by (auto simp: filter_empty_conv)
    then show "field_of (JObj (merge_input kvs (cardToInput (cr_values c)))) k = field_of (JObj (cardToInput (cr_values c))) k"
      by (simp add: map_of_merge)
  qed
  moreover have "refers db' vs" using 1(3) by (simp add: refers_def in_list_def 1(4))
  ultimately show ?thesis using 1(1,4) validated_ok [OF 1(2)] by (intro exI [of _ c] exI [of _ "?f c"]) simp
qed

lemma validate_cong:
  "(\<And>k. field_of a k = field_of b k) \<Longrightarrow> validateCardValues luxon a = validateCardValues luxon b"
  by (simp add: validateCardValues_def)

lemma assert_dropdown_kept: "in_list db k i \<Longrightarrow> assert_dropdown db k code i (Some i) = Inr ()"
  by (auto simp: assert_dropdown_def in_list_def list_ex_iff filter_empty_conv split: option.split)

lemma assertDropdowns_kept:
  assumes "refers db v" "cv_department w = cv_department v" "cv_type w = cv_type v" "cv_priority w = cv_priority v"
  shows "assertDropdowns db w (Some v) = Inr ()"
  using assms by (simp add: assertDropdowns_def refers_def assert_dropdown_kept)

definition closing_date :: "string \<Rightarrow> jsval \<Rightarrow> string" where
  "closing_date today v = (if text_of v = [] then today else text_of v)"

lemma close_fields:
  "field_of (JObj (merge_input [(''status'', JStr ''CLOSED''), (''closerDate'', JStr d)] (cardToInput v))) k =
   field_of (JObj (cardToInput (v\<lparr>cv_status := CLOSED, cv_closer := Some d\<rparr>))) k"
proof -
  have "map_of (cardToInput (v\<lparr>cv_status := CLOSED, cv_closer := Some d\<rparr>)) =
      (map_of (cardToInput v))(''status'' \<mapsto> JStr ''CLOSED'', ''closerDate'' \<mapsto> JStr d)"
    by (simp add: cardToInput_def status_name_def text_json_def fun_eq_iff)
  then show ?thesis by (simp add: map_of_merge)
qed

text \<open>Closing a card succeeds exactly when the closing date, today's where none is given, is a date that is not
before the card's own; the card is then closed on that date and nothing else of it changes. This holds
for a card whose dropdown values have been deactivated since, too.\<close>

theorem close_card_exact:
  assumes "kaizen_ok luxon collate db" and "getCard db no = Some c" and "trimmed today"
  shows "(is_ok (closeCard luxon today no v actor db) \<longleftrightarrow>
      isValidIsoDate luxon (closing_date today v) \<and> cv_date (cr_values c) \<le> closing_date today v) \<and>
    (\<forall>db'. closeCard luxon today no v actor db = Inr db' \<longrightarrow>
      getCard db' no = Some (c\<lparr>cr_values := (cr_values c)\<lparr>cv_status := CLOSED, cv_closer := Some (closing_date today v)\<rparr>,
        cr_updated_by := actor\<rparr>))"
proof -
  let ?d = "closing_date today v"
  let ?v = "(cr_values c)\<lparr>cv_status := CLOSED, cv_closer := Some ?d\<rparr>"
  have c: "values_ok luxon (cr_values c)" "refers db (cr_values c)"
    using assms(1) getCard_mem [OF assms(2)] by (simp_all add: kaizen_ok_def list_all_iff)
  have d: "trimmed ?d" using assms(3) text_of_trimmed [of v] by (simp add: closing_date_def)
  have close: "closeCard luxon today no v actor db = updateCard luxon no [(''status'', JStr ''CLOSED''), (''closerDate'', JStr ?d)] actor db"
    by (simp add: closeCard_def closing_date_def Let_def)
  have merged: "validateCardValues luxon (JObj (merge_input [(''status'', JStr ''CLOSED''), (''closerDate'', JStr ?d)] (cardToInput (cr_values c)))) =
      validateCardValues luxon (JObj (cardToInput ?v))"
    using close_fields by (rule validate_cong)
  have ok: "values_ok luxon ?v \<longleftrightarrow> isValidIsoDate luxon ?d \<and> cv_date (cr_values c) \<le> ?d"
    using c(1) d by (auto simp: values_ok_def date_option_def earlier_def not_less)
  have accepted: "validateCardValues luxon (JObj (cardToInput ?v)) = (Inr x) \<Longrightarrow> values_ok luxon ?v \<and> x = ?v" for x
  proof -
    assume x: "validateCardValues luxon (JObj (cardToInput ?v)) = Inr x"
    note e = x [unfolded validate_Inr card_fields]
    have "cv_closer x = Some ?d" "cv_date x = cv_date (cr_values c)"
      using e d c(1) by (simp_all add: trimmed_option_def values_ok_def)
    then have "isValidIsoDate luxon ?d" "cv_date (cr_values c) \<le> ?d" using e by (auto simp: earlier_def not_less)
    then have "values_ok luxon ?v" using ok by blast
    then show ?thesis using round_trip [of luxon ?v] x by simp
  qed
  have "closeCard luxon today no v actor db = Inr db' \<longleftrightarrow> values_ok luxon ?v \<and> db' = kaizen_log KAIZEN_CARD_ENTITY (int_str no) AUDIT_UPDATE actor
      (db\<lparr>kz_cards := update_where (\<lambda>c. cr_no c = no \<and> cr_deleted_by c = None) (\<lambda>c. c\<lparr>cr_values := ?v, cr_updated_by := actor\<rparr>) (kz_cards db)\<rparr>)" for db'
  proof -
    let ?db1 = "db\<lparr>kz_cards := update_where (\<lambda>c. cr_no c = no \<and> cr_deleted_by c = None) (\<lambda>c. c\<lparr>cr_values := ?v, cr_updated_by := actor\<rparr>) (kz_cards db)\<rparr>"
    have "getCard ?db1 no = Some (c\<lparr>cr_values := ?v, cr_updated_by := actor\<rparr>)"
      using assms(2) getCard_update [of "\<lambda>c. c\<lparr>cr_values := ?v, cr_updated_by := actor\<rparr>" ?db1 no db no] by simp
    moreover have "assertDropdowns db ?v (Some (cr_values c)) = Inr ()" by (rule assertDropdowns_kept [OF c(2)]) simp_all
    ultimately show ?thesis
      unfolding close updateCard_def assms(2) option.case merged round_trip [OF c(1)] Let_def
      using accepted round_trip [of luxon ?v] by (cases "values_ok luxon ?v") (auto simp: rbind_eq_Inr)
  qed
  note r = this
  moreover have "getCard (kaizen_log KAIZEN_CARD_ENTITY (int_str no) AUDIT_UPDATE actor
      (db\<lparr>kz_cards := update_where (\<lambda>c. cr_no c = no \<and> cr_deleted_by c = None) (\<lambda>c. c\<lparr>cr_values := ?v, cr_updated_by := actor\<rparr>) (kz_cards db)\<rparr>)) no =
      Some (c\<lparr>cr_values := ?v, cr_updated_by := actor\<rparr>)" (is "getCard ?db2 no = _")
    using assms(2) getCard_update [of "\<lambda>c. c\<lparr>cr_values := ?v, cr_updated_by := actor\<rparr>" ?db2 no db no] by simp
  ultimately show ?thesis using ok unfolding is_ok_iff by auto
qed

section \<open>Reordering a list\<close>

lemma set_position_other: "dv_id w \<noteq> snd p \<Longrightarrow> w \<in> set vs \<Longrightarrow> w \<in> set (set_position actor p vs)"
  by (auto simp: set_position_def set_update_where)

lemma fold_positions:
  assumes "distinct ids" "v \<in> set vs"
  shows "\<exists>w \<in> set (fold (set_position actor) (enumerate n ids) vs). dv_id w = dv_id v \<and>
    (\<forall>j < length ids. ids ! j = dv_id v \<longrightarrow> dv_sort w = int (n + j) + 1) \<and> (dv_id v \<notin> set ids \<longrightarrow> w = v)"
  using assms
proof (induction ids arbitrary: n v vs)
  case (Cons i ids)
  let ?v = "if dv_id v = i then v\<lparr>dv_sort := int n + 1, dv_updated_by := Some actor\<rparr> else v"
  have "?v \<in> set (set_position actor (n, i) vs)" using Cons.prems(2) by (auto simp: set_position_def set_update_where)
  then obtain w where w: "w \<in> set (fold (set_position actor) (enumerate (Suc n) ids) (set_position actor (n, i) vs))"
    "dv_id w = dv_id ?v" "\<forall>j < length ids. ids ! j = dv_id ?v \<longrightarrow> dv_sort w = int (Suc n + j) + 1" "dv_id ?v \<notin> set ids \<longrightarrow> w = ?v"
    using Cons.IH [of ?v "set_position actor (n, i) vs" "Suc n"] Cons.prems(1) by auto
  have "\<forall>j < length (i # ids). (i # ids) ! j = dv_id v \<longrightarrow> dv_sort w = int (n + j) + 1"
  proof (intro allI impI)
    fix j assume j: "j < length (i # ids)" "(i # ids) ! j = dv_id v"
    show "dv_sort w = int (n + j) + 1"
    proof (cases j)
      case 0
      then have "w = ?v" "dv_id v = i" using j w(4) Cons.prems(1) by auto
      then show ?thesis using 0 by simp
    next
      case (Suc m)
      then show ?thesis using j w(3) by (auto split: if_splits)
    qed
  qed
  then show ?case using w by (intro bexI [of _ w]) (auto split: if_splits)
qed auto

text \<open>Reordering a list: it succeeds exactly when the given order lists every value of the list once, and then
each value stands at its place in that order, counted from 1, while the values of the other lists, their
labels and their numbers stay as they were.\<close>

theorem reorder_exact:
  assumes "kaizen_ok luxon collate db" and "k \<in> set KAIZEN_LISTS"
  shows "(is_ok (reorderDropdownValues k ids actor db) \<longleftrightarrow>
      distinct ids \<and> set ids = dv_id ` {v \<in> set (kz_values db). dv_list v = k}) \<and>
    (\<forall>db'. reorderDropdownValues k ids actor db = Inr db' \<longrightarrow>
      (\<forall>v \<in> set (kz_values db'). dv_list v = k \<longrightarrow> 1 \<le> dv_sort v \<and> dv_sort v \<le> int (length ids) \<and> ids ! nat (dv_sort v - 1) = dv_id v) \<and>
      (\<forall>v \<in> set (kz_values db). dv_list v \<noteq> k \<longrightarrow> v \<in> set (kz_values db')) \<and>
      map (\<lambda>v. (dv_id v, dv_list v, dv_label v)) (kz_values db') = map (\<lambda>v. (dv_id v, dv_list v, dv_label v)) (kz_values db))"
proof -
  let ?own = "map dv_id (filter (\<lambda>v. dv_list v = k) (kz_values db))"
  have dist: "distinct (map dv_id (kz_values db))" using assms(1) by (simp add: kaizen_ok_def)
  then have own: "distinct ?own" "dedup ?own = ?own" by (simp_all add: distinct_map_filter dedup_distinct)
  have "length ids = length ?own \<and> length (dedup ids) = length ?own \<and> list_all (\<lambda>i. i \<in> set ?own) ids \<longleftrightarrow>
      distinct ids \<and> set ids = set ?own"
  proof
    assume l: "length ids = length ?own \<and> length (dedup ids) = length ?own \<and> list_all (\<lambda>i. i \<in> set ?own) ids"
    then have "card (set ids) = length ids" using distinct_card [of "dedup ids"] by simp
    then have d: "distinct ids" by (rule card_distinct)
    have "set ids = set ?own"
      using l d own(1) distinct_card [of ids] distinct_card [of ?own] by (intro card_subset_eq) (auto simp: list_all_iff)
    then show "distinct ids \<and> set ids = set ?own" using d by blast
  next
    assume r: "distinct ids \<and> set ids = set ?own"
    then have "length ids = length ?own" using own(1) distinct_card by metis
    then show "length ids = length ?own \<and> length (dedup ids) = length ?own \<and> list_all (\<lambda>i. i \<in> set ?own) ids"
      using r by (simp add: dedup_distinct list_all_iff)
  qed
  then have guard: "\<not> (length ids \<noteq> length ?own \<or> length (dedup ids) \<noteq> length ?own \<or> \<not> list_all (\<lambda>i. i \<in> set ?own) ids) \<longleftrightarrow>
      distinct ids \<and> set ids = set ?own" by blast
  have r: "reorderDropdownValues k ids actor db = (if distinct ids \<and> set ids = set ?own
      then Inr (kaizen_log KAIZEN_DROPDOWN_ENTITY k AUDIT_UPDATE actor (db\<lparr>kz_values := fold (set_position actor) (enumerate 0 ids) (kz_values db)\<rparr>))
      else Inl (Refused ''dropdown.reorder''))"
    using assms(2) unfolding reorderDropdownValues_def own(2) Let_def guard
    by (cases "distinct ids \<and> set ids = set ?own") (simp_all only: ensure_simps rbind_simps simp_thms if_True if_False)
  have set_own: "set ?own = dv_id ` {v \<in> set (kz_values db). dv_list v = k}" by auto
  show ?thesis
  proof (intro conjI allI impI)
    show "is_ok (reorderDropdownValues k ids actor db) \<longleftrightarrow> distinct ids \<and> set ids = dv_id ` {v \<in> set (kz_values db). dv_list v = k}"
      unfolding set_own [symmetric] r by simp
    fix db' assume "reorderDropdownValues k ids actor db = Inr db'"
    then have i: "distinct ids" "set ids = set ?own"
      and db': "kz_values db' = fold (set_position actor) (enumerate 0 ids) (kz_values db)"
      unfolding r by (auto split: if_splits)
    note keys = fold_set_position [of actor "enumerate 0 ids" "kz_values db", folded db']
    show "map (\<lambda>v. (dv_id v, dv_list v, dv_label v)) (kz_values db') = map (\<lambda>v. (dv_id v, dv_list v, dv_label v)) (kz_values db)"
      by (rule keys)
    have e: "map dv_id vs = map fst (map (\<lambda>v. (dv_id v, dv_list v, dv_label v)) vs)" for vs by simp
    have "map dv_id (kz_values db') = map dv_id (kz_values db)" unfolding e [of "kz_values db'"] e [of "kz_values db"] keys ..
    then have dist': "distinct (map dv_id (kz_values db'))" using dist by simp
    show "\<forall>v \<in> set (kz_values db). dv_list v \<noteq> k \<longrightarrow> v \<in> set (kz_values db')"
    proof (intro ballI impI)
      fix v assume v: "v \<in> set (kz_values db)" "dv_list v \<noteq> k"
      have "dv_id v \<notin> set ids" unfolding i(2) using v dist by (auto simp: distinct_map dest: inj_onD)
      then show "v \<in> set (kz_values db')" using fold_positions [OF i(1) v(1), of actor 0] unfolding db' by blast
    qed
    show "\<forall>v \<in> set (kz_values db'). dv_list v = k \<longrightarrow> 1 \<le> dv_sort v \<and> dv_sort v \<le> int (length ids) \<and> ids ! nat (dv_sort v - 1) = dv_id v"
    proof (intro ballI impI)
      fix v assume v: "v \<in> set (kz_values db')" "dv_list v = k"
      then have "(dv_id v, dv_list v, dv_label v) \<in> set (map (\<lambda>v. (dv_id v, dv_list v, dv_label v)) (kz_values db))"
        unfolding keys [symmetric] by force
      then obtain u where u: "u \<in> set (kz_values db)" "dv_id u = dv_id v" "dv_list u = k" using v(2) by auto
      then have "dv_id v \<in> set ids" unfolding i(2) set_own by (metis (mono_tags, lifting) imageI mem_Collect_eq)
      then obtain j where j: "j < length ids" "ids ! j = dv_id v" by (auto simp: in_set_conv_nth)
      obtain w where w: "w \<in> set (kz_values db')" "dv_id w = dv_id u"
        "\<forall>j < length ids. ids ! j = dv_id u \<longrightarrow> dv_sort w = int (0 + j) + 1"
        using fold_positions [OF i(1) u(1), of actor 0] unfolding db' by blast
      have "w = v" using w(1,2) v(1) u(2) dist' by (auto simp: distinct_map dest: inj_onD)
      then have "dv_sort v = int j + 1" using w(3) j u(2) by auto
      then show "1 \<le> dv_sort v \<and> dv_sort v \<le> int (length ids) \<and> ids ! nat (dv_sort v - 1) = dv_id v" using j by simp
    qed
  qed
qed

text \<open>A stored card is a fixed point of the validation: read back as an input, it is accepted and gives the
same values, field for field, so opening and saving a card changes nothing.\<close>

theorem card_round_trip:
  assumes "values_ok luxon v"
  shows "validateCardValues luxon (JObj (cardToInput v)) = Inr v"
  using assms by (rule round_trip)

section \<open>A concrete board\<close>

definition calendar_date :: "string \<Rightarrow> bool" where
  "calendar_date s = valid_civil (iso_fields s)"

definition example_card :: card_values where
  "example_card = \<lparr>cv_creator = ''Ali'', cv_date = ''2026-01-10'', cv_department = 1, cv_name = ''Belt'', cv_type = 2,
     cv_issue = ''Noise'', cv_root_cause = None, cv_impact = None, cv_priority = 3, cv_solution = Some ''Oil'',
     cv_expected = Some ''2026-02-01'', cv_closer = None, cv_responsible = None, cv_status = OPEN\<rparr>"

definition example_board :: kaizen_db where
  "example_board = \<lparr>kz_values =
      [\<lparr>dv_id = 1, dv_list = ''department'', dv_label = ''Sales'', dv_sort = 1, dv_color = ''#4d88c4'', dv_active = False, dv_updated_by = None\<rparr>,
       \<lparr>dv_id = 2, dv_list = ''card_type'', dv_label = ''System'', dv_sort = 1, dv_color = ''#4d88c4'', dv_active = True, dv_updated_by = None\<rparr>,
       \<lparr>dv_id = 3, dv_list = ''card_priority'', dv_label = ''Urgent'', dv_sort = 1, dv_color = ''#d9534f'', dv_active = True, dv_updated_by = None\<rparr>,
       \<lparr>dv_id = 4, dv_list = ''department'', dv_label = ''Tika'', dv_sort = 2, dv_color = ''#a06fc4'', dv_active = True, dv_updated_by = None\<rparr>],
     kz_cards = [\<lparr>cr_no = 1, cr_values = example_card, cr_source = MANUAL, cr_created_by = 9, cr_updated_by = 9, cr_deleted_by = None\<rparr>],
     kz_value_seq = 5, kz_card_seq = 2, kz_audit = []\<rparr>"

lemma example_board_ok: "kaizen_ok calendar_date id example_board"
  by code_simp

theorem kaizen_rules_kept_witness:
  "\<exists>db'. closeCard calendar_date ''2026-03-01'' 1 JUndef 9 example_board = Inr db' \<and> kaizen_ok calendar_date id db'"
proof -
  have "is_ok (closeCard calendar_date ''2026-03-01'' 1 JUndef 9 example_board)" by code_simp
  then obtain db' where r: "closeCard calendar_date ''2026-03-01'' 1 JUndef 9 example_board = Inr db'" by (auto simp: is_ok_iff)
  have "kaizen_run calendar_date id example_board db'" using kz_more [OF kz_start kz_close [OF r]] .
  then show ?thesis using kaizen_rules_kept example_board_ok r by blast
qed

theorem update_card_exact_witness:
  "\<exists>db' c'. updateCard calendar_date 1 [(''issue'', JStr ''Smoke''), (''impact'', JUndef)] 9 example_board = Inr db' \<and>
     getCard db' 1 = Some c' \<and> field_of (JObj (cardToInput (cr_values c'))) ''impact'' = JNull"
proof -
  let ?e = "[(''issue'', JStr ''Smoke''), (''impact'', JUndef)]"
  have "is_ok (updateCard calendar_date 1 ?e 9 example_board)" by code_simp
  then obtain db' where r: "updateCard calendar_date 1 ?e 9 example_board = Inr db'" by (auto simp: is_ok_iff)
  have "getCard example_board 1 = Some \<lparr>cr_no = 1, cr_values = example_card, cr_source = MANUAL, cr_created_by = 9, cr_updated_by = 9, cr_deleted_by = None\<rparr>"
    by (simp add: getCard_def example_board_def)
  moreover have "field_of (JObj (cardToInput example_card)) ''impact'' = JNull"
    by (simp only: card_fields) (simp add: example_card_def text_json_def)
  moreover have "\<forall>v. (''impact'', v) \<in> set ?e \<longrightarrow> v = JUndef" by simp
  ultimately show ?thesis using update_card_exact [OF example_board_ok r] r by fastforce
qed

theorem close_card_exact_witness:
  "is_ok (closeCard calendar_date ''2026-03-01'' 1 (JStr ''2026-01-10'') 9 example_board) \<and>
   \<not> is_ok (closeCard calendar_date ''2026-03-01'' 1 (JStr ''2026-01-09'') 9 example_board)"
proof -
  have c: "getCard example_board 1 = Some \<lparr>cr_no = 1, cr_values = example_card, cr_source = MANUAL, cr_created_by = 9, cr_updated_by = 9, cr_deleted_by = None\<rparr>"
    by (simp add: getCard_def example_board_def)
  have t: "trimmed ''2026-03-01''" by code_simp
  have "closing_date ''2026-03-01'' (JStr ''2026-01-10'') = ''2026-01-10''" "closing_date ''2026-03-01'' (JStr ''2026-01-09'') = ''2026-01-09''"
    "isValidIsoDate calendar_date ''2026-01-10''" "cv_date example_card \<le> ''2026-01-10''" "\<not> cv_date example_card \<le> ''2026-01-09''"
    by code_simp+
  then show ?thesis
    using close_card_exact [OF example_board_ok c t, of "JStr ''2026-01-10''" 9] close_card_exact [OF example_board_ok c t, of "JStr ''2026-01-09''" 9]
    by simp
qed

theorem reorder_exact_witness:
  "is_ok (reorderDropdownValues ''department'' [4, 1] 9 example_board) \<and> \<not> is_ok (reorderDropdownValues ''department'' [4] 9 example_board)"
proof -
  have "''department'' \<in> set KAIZEN_LISTS" by (simp add: KAIZEN_LISTS_def)
  moreover have "dv_id ` {v \<in> set (kz_values example_board). dv_list v = ''department''} = {1, 4}"
  proof -
    have "dv_id ` {v \<in> set (kz_values example_board). dv_list v = ''department''} =
        set (map dv_id (filter (\<lambda>v. dv_list v = ''department'') (kz_values example_board)))" by auto
    then show ?thesis by (simp add: example_board_def)
  qed
  ultimately show ?thesis
    using reorder_exact [OF example_board_ok, of "''department''" "[4, 1]" 9] reorder_exact [OF example_board_ok, of "''department''" "[4]" 9]
    by auto
qed

theorem card_round_trip_witness: "validateCardValues calendar_date (JObj (cardToInput example_card)) = Inr example_card"
proof -
  have "values_ok calendar_date example_card" by code_simp
  then show ?thesis by (rule card_round_trip)
qed

end
