(* ===== verification/Sql_Like.thy ===== *)
theory Sql_Like
  imports Js_Values
begin

text \<open>
  The SQL \<open>LIKE\<close> the searches use. A pattern matches a text with \<open>%\<close> for any run of characters, \<open>_\<close> for
  one and a backslash before a character to be taken literally; characters are compared by the collation
  (\<open>same\<close>, a parameter). The services put the escaped search text between two \<open>%\<close>.
\<close>

fun like :: "(char \<Rightarrow> char \<Rightarrow> bool) \<Rightarrow> string \<Rightarrow> string \<Rightarrow> bool" where
  "like same [] t = (t = [])"
| "like same [c] t =
     (if c = CHR ''%'' then True
      else (case t of [] \<Rightarrow> False | d # ds \<Rightarrow> (c = CHR ''_'' \<or> same c d) \<and> ds = []))"
| "like same (c # e # ps) t =
     (if c = CHR ''%'' then like same (e # ps) t \<or> (case t of [] \<Rightarrow> False | d # ds \<Rightarrow> like same (c # e # ps) ds)
      else if c = CHR 0x5C then (case t of [] \<Rightarrow> False | d # ds \<Rightarrow> same e d \<and> like same ps ds)
      else (case t of [] \<Rightarrow> False | d # ds \<Rightarrow> (c = CHR ''_'' \<or> same c d) \<and> like same (e # ps) ds))"

definition is_like_special :: "char \<Rightarrow> bool" where
  "is_like_special c = (c = CHR 0x5C \<or> c = CHR ''%'' \<or> c = CHR ''_'')"

text \<open>\<open>search.replace(/[\\%_]/g, m => `\\${m}`)\<close>\<close>

definition like_escape :: "string \<Rightarrow> string" where
  "like_escape s = concat (map (\<lambda>c. if is_like_special c then [CHR 0x5C, c] else [c]) s)"

definition search_pattern :: "string \<Rightarrow> string" where
  "search_pattern s = ''%'' @ like_escape s @ ''%''"

text \<open>\<open>search.replace(/^#/, '')\<close>: a number may be typed with its hash sign.\<close>

definition strip_hash :: "string \<Rightarrow> string" where
  "strip_hash s = (case s of [] \<Rightarrow> [] | c # cs \<Rightarrow> if c = CHR ''#'' then cs else s)"

lemma like_escape_simps [simp]:
  "like_escape [] = []"
  "like_escape (c # s) = (if is_like_special c then [CHR 0x5C, c] else [c]) @ like_escape s"
  by (simp_all add: like_escape_def)

lemma like_percent: "like same (CHR ''%'' # ps) t \<longleftrightarrow> (\<exists>u v. t = u @ v \<and> like same ps v)"
proof (induction t)
  case Nil
  then show ?case by (cases ps) auto
next
  case (Cons d t)
  have "like same (CHR ''%'' # ps) (d # t) \<longleftrightarrow> like same ps (d # t) \<or> like same (CHR ''%'' # ps) t"
  proof (cases ps)
    case Nil
    then show ?thesis by simp
  qed simp
  moreover have "(\<exists>u v. d # t = u @ v \<and> like same ps v) \<longleftrightarrow> like same ps (d # t) \<or> (\<exists>u v. t = u @ v \<and> like same ps v)"
    by (auto simp: Cons_eq_append_conv)
  ultimately show ?case using Cons by blast
qed

lemma like_literal:
  assumes "ps \<noteq> []"
  shows "like same (like_escape [c] @ ps) t \<longleftrightarrow> (\<exists>d ds. t = d # ds \<and> same c d \<and> like same ps ds)"
proof (cases "is_like_special c")
  case True
  then show ?thesis by (cases t) simp_all
next
  case False
  obtain e es where ps: "ps = e # es" using assms by (cases ps) auto
  have "c \<noteq> CHR ''%'' \<and> c \<noteq> CHR 0x5C \<and> c \<noteq> CHR ''_''" using False by (auto simp: is_like_special_def)
  then show ?thesis using False by (cases t) (simp_all add: ps)
qed

lemma like_escaped:
  "like same (like_escape s @ ''%'') t \<longleftrightarrow> (\<exists>u v. t = u @ v \<and> list_all2 same s u)"
proof (induction s arbitrary: t)
  case Nil
  show ?case by simp
next
  case (Cons c s)
  have "like same (like_escape (c # s) @ ''%'') t \<longleftrightarrow> like same (like_escape [c] @ (like_escape s @ ''%'')) t" by simp
  also have "\<dots> \<longleftrightarrow> (\<exists>d ds. t = d # ds \<and> same c d \<and> (\<exists>u v. ds = u @ v \<and> list_all2 same s u))"
    by (subst like_literal) (simp_all only: Cons append_is_Nil_conv, simp_all)
  also have "\<dots> \<longleftrightarrow> (\<exists>u v. t = u @ v \<and> list_all2 same (c # s) u)"
  proof
    assume "\<exists>d ds. t = d # ds \<and> same c d \<and> (\<exists>u v. ds = u @ v \<and> list_all2 same s u)"
    then obtain d u v where "t = (d # u) @ v" "list_all2 same (c # s) (d # u)" by auto
    then show "\<exists>u v. t = u @ v \<and> list_all2 same (c # s) u" by blast
  next
    assume "\<exists>u v. t = u @ v \<and> list_all2 same (c # s) u"
    then obtain d u v where "t = (d # u) @ v" "same c d" "list_all2 same s u" by (auto simp: list_all2_Cons1)
    then show "\<exists>d ds. t = d # ds \<and> same c d \<and> (\<exists>u v. ds = u @ v \<and> list_all2 same s u)" by auto
  qed
  finally show ?case .
qed

text \<open>A search finds exactly the texts that contain it, whatever characters it has.\<close>

lemma like_search:
  "like same (search_pattern s) t \<longleftrightarrow> (\<exists>a b c. t = a @ b @ c \<and> list_all2 same s b)"
  unfolding search_pattern_def append_Cons append_Nil like_percent like_escaped by blast

end
