(* ===== verification/Kaizen_Board.thy ===== *)
theory Kaizen_Board
  imports Kaizen_Rules Sql_Like "HOL-Library.Multiset" "HOL-Library.Product_Lexorder"
begin

text \<open>
  Reading the Kaizen board (\<open>backend/src/services/kaizenService.ts\<close>, from \<open>buildCardWhere\<close> to \<open>listCards\<close>,
  and \<open>getDashboard\<close>): the conditions a filter puts on the cards, the sorted list and the dashboard's
  counts. A WHERE clause is the list of its conditions; SQL's grouping, counting and ordering are written
  out on the list of matching rows. \<open>collate\<close> is the collation as a sort key of a text, \<open>same\<close> its
  comparison of characters, \<open>back\<close> luxon's step of a year, \<open>today\<close> the business day.
\<close>

section \<open>Conditions\<close>

record kaizen_filters =
  kf_from :: "string option"
  kf_to :: "string option"
  kf_departments :: "int list"
  kf_types :: "int list"
  kf_priorities :: "int list"
  kf_status :: "kaizen_status option"
  kf_search :: "string option"
  kf_overdue :: bool
  kf_creator :: "string option"
  kf_responsible :: "string option"

datatype card_clause =
    NotDeleted | DateFrom string | DateTo string | DepartmentIn "int list" | TypeIn "int list" | PriorityIn "int list"
  | StatusIs kaizen_status | OverdueOn string | CreatorIs string | NoResponsible | ResponsibleIs string
  | SearchFor string "int option"

definition search_number :: "string \<Rightarrow> int option" where
  "search_number s =
     (case as_integer (string_to_number (strip_hash s)) of None \<Rightarrow> None | Some n \<Rightarrow> if n > 0 then Some n else None)"

definition date_clause :: "(string \<Rightarrow> bool) \<Rightarrow> (string \<Rightarrow> card_clause) \<Rightarrow> string option \<Rightarrow> card_clause list" where
  "date_clause luxon mk d = (case d of None \<Rightarrow> [] | Some s \<Rightarrow> if s \<noteq> [] \<and> isValidIsoDate luxon s then [mk s] else [])"

definition in_clause :: "(int list \<Rightarrow> card_clause) \<Rightarrow> int list \<Rightarrow> card_clause list" where
  "in_clause mk ids = (if ids = [] then [] else [mk ids])"

definition buildCardWhere :: "(string \<Rightarrow> bool) \<Rightarrow> string \<Rightarrow> kaizen_filters \<Rightarrow> card_clause list" where
  "buildCardWhere luxon today f =
     [NotDeleted] @ date_clause luxon DateFrom (kf_from f) @ date_clause luxon DateTo (kf_to f) @
     in_clause DepartmentIn (kf_departments f) @ in_clause TypeIn (kf_types f) @ in_clause PriorityIn (kf_priorities f) @
     (case kf_status f of None \<Rightarrow> [] | Some s \<Rightarrow> [StatusIs s]) @
     (if kf_overdue f then [OverdueOn today] else []) @
     (case kf_creator f of None \<Rightarrow> [] | Some c \<Rightarrow> if c = [] then [] else [CreatorIs (trim c)]) @
     (case kf_responsible f of None \<Rightarrow> [] | Some r \<Rightarrow> if trim r = [] then [NoResponsible] else [ResponsibleIs (trim r)]) @
     (case kf_search f of None \<Rightarrow> []
      | Some s \<Rightarrow> if trim s = [] then [] else [SearchFor (search_pattern (trim s)) (search_number (trim s))])"

definition overdue_on :: "string \<Rightarrow> card_values \<Rightarrow> bool" where
  "overdue_on today v = (cv_status v = OPEN \<and> (case cv_expected v of None \<Rightarrow> False | Some d \<Rightarrow> d < today))"

definition clause_holds :: "(string \<Rightarrow> string) \<Rightarrow> (char \<Rightarrow> char \<Rightarrow> bool) \<Rightarrow> card_clause \<Rightarrow> card_row \<Rightarrow> bool" where
  "clause_holds collate same cl c =
     (let v = cr_values c in
      case cl of
        NotDeleted \<Rightarrow> cr_deleted_by c = None
      | DateFrom d \<Rightarrow> d \<le> cv_date v
      | DateTo d \<Rightarrow> cv_date v \<le> d
      | DepartmentIn ids \<Rightarrow> cv_department v \<in> set ids
      | TypeIn ids \<Rightarrow> cv_type v \<in> set ids
      | PriorityIn ids \<Rightarrow> cv_priority v \<in> set ids
      | StatusIs s \<Rightarrow> cv_status v = s
      | OverdueOn today \<Rightarrow> overdue_on today v
      | CreatorIs s \<Rightarrow> collate (cv_creator v) = collate s
      | NoResponsible \<Rightarrow> (case cv_responsible v of None \<Rightarrow> True | Some r \<Rightarrow> collate r = collate [])
      | ResponsibleIs s \<Rightarrow> (case cv_responsible v of None \<Rightarrow> False | Some r \<Rightarrow> collate r = collate s)
      | SearchFor p no \<Rightarrow> like same p (cv_name v) \<or> like same p (cv_issue v) \<or> like same p (cv_creator v) \<or>
          (case cv_responsible v of None \<Rightarrow> False | Some r \<Rightarrow> like same p r) \<or> no = Some (cr_no c))"

definition matching :: "(string \<Rightarrow> string) \<Rightarrow> (char \<Rightarrow> char \<Rightarrow> bool) \<Rightarrow> card_clause list \<Rightarrow> kaizen_db \<Rightarrow> card_row list" where
  "matching collate same cls db = filter (\<lambda>c. list_all (\<lambda>cl. clause_holds collate same cl c) cls) (kz_cards db)"

section \<open>The list\<close>

definition KAIZEN_LIST_LIMIT :: nat where
  "KAIZEN_LIST_LIMIT = 5000"

text \<open>The sort keys of the columns: SQL puts NULL first, and an ENUM sorts by its position.\<close>

definition null_first :: "string option \<Rightarrow> int \<times> string" where
  "null_first s = (case s of None \<Rightarrow> (0, []) | Some t \<Rightarrow> (1, t))"

definition column_key :: "(string \<Rightarrow> string) \<Rightarrow> string \<Rightarrow> card_row \<Rightarrow> int \<times> string" where
  "column_key collate by c =
     (let v = cr_values c in
      if by = ''card_date'' then (1, cv_date v)
      else if by = ''card_name'' then (1, collate (cv_name v))
      else if by = ''status'' then (case cv_status v of OPEN \<Rightarrow> 1 | CLOSED \<Rightarrow> 2, [])
      else if by = ''expected_date'' then null_first (cv_expected v)
      else if by = ''closer_date'' then null_first (cv_closer v)
      else if by = ''responsible_party'' then null_first (map_option collate (cv_responsible v))
      else (cr_no c, []))"

definition order_cards :: "(card_row \<Rightarrow> int \<times> string) \<Rightarrow> bool \<Rightarrow> card_row list \<Rightarrow> card_row list" where
  "order_cards key asc cards =
     (let by_no = sort_key cr_no cards in
      if asc then sort_key key (rev by_no) else rev (sort_key key by_no))"

definition withOverdue :: "string \<Rightarrow> card_row \<Rightarrow> card_row \<times> bool" where
  "withOverdue today c = (c, overdue_on today (cr_values c))"

definition listCards ::
  "(string \<Rightarrow> bool) \<Rightarrow> (string \<Rightarrow> string) \<Rightarrow> (char \<Rightarrow> char \<Rightarrow> bool) \<Rightarrow> string \<Rightarrow> kaizen_filters \<Rightarrow> string \<Rightarrow> string \<Rightarrow>
   kaizen_db \<Rightarrow> (card_row \<times> bool) list \<times> nat" where
  "listCards luxon collate same today f by dir db =
     (let rows = matching collate same (buildCardWhere luxon today f) db in
      (map (withOverdue today) (take KAIZEN_LIST_LIMIT (order_cards (column_key collate by) (dir = ''asc'') rows)), length rows))"

section \<open>The dashboard\<close>

definition countBy :: "kaizen_db \<Rightarrow> (card_values \<Rightarrow> int) \<Rightarrow> card_row list \<Rightarrow> (int \<times> nat) list" where
  "countBy db column rows =
     (let n = (\<lambda>v. length (filter (\<lambda>c. column (cr_values c) = dv_id v) rows)) in
      map (\<lambda>v. (dv_id v, n v)) (sort_key (\<lambda>v. (- int (n v), dv_sort v)) (filter (\<lambda>v. n v > 0) (kz_values db))))"

definition lastYearRange ::
  "(string \<Rightarrow> bool) \<Rightarrow> (string \<Rightarrow> string option) \<Rightarrow> string \<Rightarrow> kaizen_filters \<Rightarrow> string option \<times> string option" where
  "lastYearRange luxon year_back today f =
     (let go = (\<lambda>d. case d of None \<Rightarrow> None | Some s \<Rightarrow> if s \<noteq> [] \<and> isValidIsoDate luxon s then year_back s else None);
          dateTo = (case kf_to f of Some s \<Rightarrow> if s \<noteq> [] \<and> isValidIsoDate luxon s then s else today | None \<Rightarrow> today)
      in (go (kf_from f), go (Some dateTo)))"

definition mergeDepartmentCounts :: "(int \<times> nat) list \<Rightarrow> (int \<times> nat) list \<Rightarrow> (int \<times> nat \<times> nat) list" where
  "mergeDepartmentCounts current lastYear =
     map (\<lambda>(i, n). (i, n, case map_of (rev lastYear) i of None \<Rightarrow> 0 | Some m \<Rightarrow> m)) current @
     map (\<lambda>(i, n). (i, 0, n)) (filter (\<lambda>(i, n). i \<notin> fst ` set current) lastYear)"

text \<open>\<open>NULLIF(TRIM(responsible_party), '')\<close>: SQL's TRIM removes spaces only.\<close>

definition trim_blanks :: "string \<Rightarrow> string" where
  "trim_blanks s = rev (dropWhile (\<lambda>c. c = CHR '' '') (rev (dropWhile (\<lambda>c. c = CHR '' '') s)))"

definition party :: "(string \<Rightarrow> string) \<Rightarrow> card_row \<Rightarrow> string option" where
  "party collate c = (case cv_responsible (cr_values c) of None \<Rightarrow> None
     | Some r \<Rightarrow> let t = trim_blanks r in if collate t = collate [] then None else Some (collate t))"

record party_count =
  pc_name :: "string option"
  pc_count :: nat
  pc_open :: nat
  pc_closed :: nat

definition with_status :: "kaizen_status \<Rightarrow> card_row list \<Rightarrow> card_row list" where
  "with_status s rows = filter (\<lambda>c. cv_status (cr_values c) = s) rows"

text \<open>One group per distinct key, in the order count descending, the missing name last, the name.\<close>

definition byResponsible :: "(string \<Rightarrow> string) \<Rightarrow> card_row list \<Rightarrow> party_count list" where
  "byResponsible collate rows =
     map (\<lambda>k. let own = filter (\<lambda>c. party collate c = k) rows in
          \<lparr>pc_name = map_option (\<lambda>_. trim_blanks (the (cv_responsible (cr_values (hd own))))) k, pc_count = length own,
           pc_open = length (with_status OPEN own), pc_closed = length (with_status CLOSED own)\<rparr>)
       (sort_key (\<lambda>k. (- int (length (filter (\<lambda>c. party collate c = k) rows)), case k of None \<Rightarrow> (1 :: int, []) | Some t \<Rightarrow> (0, t)))
         (dedup (map (party collate) rows)))"

definition topSubmitter :: "(string \<Rightarrow> string) \<Rightarrow> card_row list \<Rightarrow> (string \<times> nat) option" where
  "topSubmitter collate rows =
     (let key = (\<lambda>c. collate (cv_creator (cr_values c))); n = (\<lambda>k. length (filter (\<lambda>c. key c = k) rows)) in
      case sort_key (\<lambda>k. (- int (n k), k)) (dedup (map key rows)) of
        [] \<Rightarrow> None
      | k # _ \<Rightarrow> Some (cv_creator (cr_values (hd (filter (\<lambda>c. key c = k) rows))), n k))"

text \<open>\<open>AVG\<close> of whole days has four decimals; the mean is then rounded to one.\<close>

definition days_to_close :: "card_row \<Rightarrow> int" where
  "days_to_close c =
     (case (map_option parse_iso (cv_closer (cr_values c)), parse_iso (cv_date (cr_values c))) of
        (Some (Some b), Some a) \<Rightarrow> b - a | _ \<Rightarrow> 0)"

definition mean_days :: "card_row list \<Rightarrow> rat option" where
  "mean_days rows =
     (if rows = [] then None
      else let avg = of_int \<lfloor>(of_int (sum_list (map days_to_close rows)) :: rat) / of_nat (length rows) * 10000 + 1 / 2\<rfloor> / (10000 :: rat)
        in Some (of_int \<lfloor>avg * 10 + 1 / 2\<rfloor> / 10))"

record kaizen_dashboard =
  kd_total :: nat
  kd_open :: nat
  kd_closed :: nat
  kd_overdue :: nat
  kd_avg_days :: "rat option"
  kd_top_department :: "(int \<times> nat) option"
  kd_top_submitter :: "(string \<times> nat) option"
  kd_top_type :: "(int \<times> nat) option"
  kd_by_department :: "(int \<times> nat \<times> nat) list"
  kd_last_year :: "string option \<times> string option"
  kd_last_year_total :: nat
  kd_by_priority :: "(int \<times> nat) list"
  kd_by_type :: "(int \<times> nat) list"
  kd_by_responsible :: "party_count list"

definition getDashboard ::
  "(string \<Rightarrow> bool) \<Rightarrow> (string \<Rightarrow> string) \<Rightarrow> (char \<Rightarrow> char \<Rightarrow> bool) \<Rightarrow> (string \<Rightarrow> string option) \<Rightarrow> string \<Rightarrow>
   kaizen_filters \<Rightarrow> kaizen_db \<Rightarrow> kaizen_dashboard" where
  "getDashboard luxon collate same year_back today f db =
     (let rows = matching collate same (buildCardWhere luxon today f) db;
          lastYear = lastYearRange luxon year_back today f;
          lastRows = matching collate same (buildCardWhere luxon today (f\<lparr>kf_from := fst lastYear, kf_to := snd lastYear\<rparr>)) db;
          byDepartment = countBy db cv_department rows;
          byType = countBy db cv_type rows
      in \<lparr>kd_total = length rows, kd_open = length (with_status OPEN rows), kd_closed = length (with_status CLOSED rows),
          kd_overdue = length (filter (\<lambda>c. overdue_on today (cr_values c)) rows), kd_avg_days = mean_days (with_status CLOSED rows),
          kd_top_department = first_row byDepartment, kd_top_submitter = topSubmitter collate rows, kd_top_type = first_row byType,
          kd_by_department = mergeDepartmentCounts byDepartment (countBy db cv_department lastRows),
          kd_last_year = lastYear, kd_last_year_total = length lastRows, kd_by_priority = countBy db cv_priority rows,
          kd_by_type = byType, kd_by_responsible = byResponsible collate rows\<rparr>)"

section \<open>What the list shows\<close>

definition contains_text :: "(char \<Rightarrow> char \<Rightarrow> bool) \<Rightarrow> string \<Rightarrow> string \<Rightarrow> bool" where
  "contains_text same s t \<longleftrightarrow> (\<exists>a b c. t = a @ b @ c \<and> list_all2 same s b)"

text \<open>A card a user would expect under the filters.\<close>

definition card_wanted ::
  "(string \<Rightarrow> bool) \<Rightarrow> (string \<Rightarrow> string) \<Rightarrow> (char \<Rightarrow> char \<Rightarrow> bool) \<Rightarrow> string \<Rightarrow> kaizen_filters \<Rightarrow> card_row \<Rightarrow> bool" where
  "card_wanted luxon collate same today f c \<longleftrightarrow>
     (let v = cr_values c in cr_deleted_by c = None \<and>
      (\<forall>d. kf_from f = Some d \<longrightarrow> d \<noteq> [] \<longrightarrow> isValidIsoDate luxon d \<longrightarrow> d \<le> cv_date v) \<and>
      (\<forall>d. kf_to f = Some d \<longrightarrow> d \<noteq> [] \<longrightarrow> isValidIsoDate luxon d \<longrightarrow> cv_date v \<le> d) \<and>
      (kf_departments f \<noteq> [] \<longrightarrow> cv_department v \<in> set (kf_departments f)) \<and> (kf_types f \<noteq> [] \<longrightarrow> cv_type v \<in> set (kf_types f)) \<and>
      (kf_priorities f \<noteq> [] \<longrightarrow> cv_priority v \<in> set (kf_priorities f)) \<and>
      (\<forall>s. kf_status f = Some s \<longrightarrow> cv_status v = s) \<and> (kf_overdue f \<longrightarrow> overdue_on today v) \<and>
      (\<forall>s. kf_creator f = Some s \<longrightarrow> s \<noteq> [] \<longrightarrow> collate (cv_creator v) = collate (trim s)) \<and>
      (\<forall>s. kf_responsible f = Some s \<longrightarrow> (if trim s = [] then \<forall>r. cv_responsible v = Some r \<longrightarrow> collate r = collate []
         else \<exists>r. cv_responsible v = Some r \<and> collate r = collate (trim s))) \<and>
      (\<forall>s. kf_search f = Some s \<longrightarrow> trim s \<noteq> [] \<longrightarrow> search_number (trim s) = Some (cr_no c) \<or>
         (\<exists>t \<in> {cv_name v, cv_issue v, cv_creator v} \<union> set_option (cv_responsible v). contains_text same (trim s) t)))"

lemma where_clause_wanted:
  "list_all (\<lambda>cl. clause_holds collate same cl c) (buildCardWhere luxon today f) \<longleftrightarrow> card_wanted luxon collate same today f c"
proof -
  have d: "list_all P (date_clause luxon mk d) \<longleftrightarrow> (\<forall>s. d = Some s \<longrightarrow> s \<noteq> [] \<longrightarrow> isValidIsoDate luxon s \<longrightarrow> P (mk s))" for P mk d
    by (simp add: date_clause_def split: option.split)
  have i: "list_all P (in_clause mk ids) \<longleftrightarrow> (ids \<noteq> [] \<longrightarrow> P (mk ids))" for P mk ids by (simp add: in_clause_def)
  have r: "list_all P (case kf_responsible f of None \<Rightarrow> [] | Some r \<Rightarrow> if trim r = [] then [NoResponsible] else [ResponsibleIs (trim r)]) \<longleftrightarrow>
      (\<forall>s. kf_responsible f = Some s \<longrightarrow> (if trim s = [] then P NoResponsible else P (ResponsibleIs (trim s))))" for P
    by (cases "kf_responsible f") simp_all
  have s: "list_all P (case kf_search f of None \<Rightarrow> []
      | Some s \<Rightarrow> if trim s = [] then [] else [SearchFor (search_pattern (trim s)) (search_number (trim s))]) \<longleftrightarrow>
      (\<forall>s. kf_search f = Some s \<longrightarrow> trim s \<noteq> [] \<longrightarrow> P (SearchFor (search_pattern (trim s)) (search_number (trim s))))" for P
    by (simp split: option.split)
  have o': "list_all P (case kf_status f of None \<Rightarrow> [] | Some s \<Rightarrow> [StatusIs s]) \<longleftrightarrow> (\<forall>s. kf_status f = Some s \<longrightarrow> P (StatusIs s))"
    "list_all P (if kf_overdue f then [OverdueOn today] else []) \<longleftrightarrow> (kf_overdue f \<longrightarrow> P (OverdueOn today))"
    "list_all P (case kf_creator f of None \<Rightarrow> [] | Some c \<Rightarrow> if c = [] then [] else [CreatorIs (trim c)]) \<longleftrightarrow>
      (\<forall>s. kf_creator f = Some s \<longrightarrow> s \<noteq> [] \<longrightarrow> P (CreatorIs (trim s)))" for P
    subgoal by (cases "kf_status f") simp_all
    subgoal by simp
    subgoal by (cases "kf_creator f") simp_all
    done
  have h: "clause_holds collate same (SearchFor (search_pattern t) no) c \<longleftrightarrow> no = Some (cr_no c) \<or>
      (\<exists>x \<in> {cv_name (cr_values c), cv_issue (cr_values c), cv_creator (cr_values c)} \<union> set_option (cv_responsible (cr_values c)).
         contains_text same t x)" for t no
    unfolding clause_holds_def Let_def card_clause.case like_search contains_text_def [symmetric]
    by (cases "cv_responsible (cr_values c)") auto
  have n: "clause_holds collate same NoResponsible c \<longleftrightarrow> (\<forall>r. cv_responsible (cr_values c) = Some r \<longrightarrow> collate r = collate [])"
    "clause_holds collate same (ResponsibleIs t) c \<longleftrightarrow> (\<exists>r. cv_responsible (cr_values c) = Some r \<and> collate r = collate t)" for t
    by (simp_all add: clause_holds_def Let_def split: option.split)
  show ?thesis
    unfolding buildCardWhere_def list_all_append d i r s o' h n card_wanted_def Let_def
    by (simp add: clause_holds_def Let_def)
qed

lemma sorted_wrt_groups:
  "sorted (map key xs) \<Longrightarrow> (\<And>k. sorted_wrt Q (filter (\<lambda>x. key x = k) xs)) \<Longrightarrow>
   sorted_wrt (\<lambda>a b. key a < key b \<or> key a = key b \<and> Q a b) xs"
proof (induction xs)
  case (Cons x xs)
  have "sorted_wrt Q (filter (\<lambda>y. key y = k) xs)" for k using Cons.prems(2) [of k] by (simp split: if_splits)
  moreover have "key x < key y \<or> key x = key y \<and> Q x y" if "y \<in> set xs" for y
  proof (cases "key x = key y")
    case True
    then show ?thesis using Cons.prems(2) [of "key x"] that by auto
  next
    case False
    then show ?thesis using Cons.prems(1) that by auto
  qed
  ultimately show ?case using Cons.IH Cons.prems(1) by simp
qed simp

lemma sorted_wrt_filter_rev: "sorted_wrt R xs \<Longrightarrow> sorted_wrt R (filter P xs)"
  by (rule sorted_wrt_filter)

lemma order_cards_sorted:
  "sorted_wrt (\<lambda>a b. (if asc then key a < key b else key b < key a) \<or> key a = key b \<and> cr_no b \<le> cr_no a) (order_cards key asc cards)"
  "mset (order_cards key asc cards) = mset cards"
proof -
  have no: "sorted_wrt (\<lambda>a b. cr_no a \<le> cr_no b) (sort_key cr_no cards)"
    using sorted_sort_key [of cr_no cards] by (simp add: sorted_map)
  have up: "sorted_wrt (\<lambda>a b. cr_no b \<le> cr_no a) (rev (sort_key cr_no cards))" using no by (simp add: sorted_wrt_rev)
  have a: "sorted_wrt (\<lambda>a b. key a < key b \<or> key a = key b \<and> cr_no b \<le> cr_no a) (sort_key key (rev (sort_key cr_no cards)))"
    by (rule sorted_wrt_groups) (use up in \<open>simp_all add: sort_key_stable sorted_wrt_filter_rev\<close>)
  have d: "sorted_wrt (\<lambda>a b. key a < key b \<or> key a = key b \<and> cr_no a \<le> cr_no b) (sort_key key (sort_key cr_no cards))"
    by (rule sorted_wrt_groups) (use no in \<open>simp_all add: sort_key_stable sorted_wrt_filter_rev\<close>)
  then have "sorted_wrt (\<lambda>a b. key b < key a \<or> key a = key b \<and> cr_no b \<le> cr_no a) (rev (sort_key key (sort_key cr_no cards)))"
    unfolding sorted_wrt_rev by (rule sorted_wrt_mono_rel [rotated]) auto
  then show "sorted_wrt (\<lambda>a b. (if asc then key a < key b else key b < key a) \<or> key a = key b \<and> cr_no b \<le> cr_no a) (order_cards key asc cards)"
    using a by (simp add: order_cards_def Let_def)
  show "mset (order_cards key asc cards) = mset cards" by (simp add: order_cards_def Let_def)
qed

text \<open>The card list shows, once each and in the requested order with the newer number first among equals, the
cards that are not deleted and meet every given filter, the first five thousand of them, and its total
counts them all; a text search finds exactly the cards one of whose texts contains it (percent signs,
underscores and backslashes are plain characters) or whose number it is, and the overdue mark is set
exactly on open cards whose expected date has passed.\<close>

theorem list_cards_exact:
  "\<exists>found. mset found = mset (filter (card_wanted luxon collate same today f) (kz_cards db)) \<and>
     sorted_wrt (\<lambda>a b. (if dir = ''asc'' then column_key collate by' a < column_key collate by' b
         else column_key collate by' b < column_key collate by' a) \<or>
       column_key collate by' a = column_key collate by' b \<and> cr_no b \<le> cr_no a) found \<and>
     listCards luxon collate same today f by' dir db =
       (map (\<lambda>c. (c, cv_status (cr_values c) = OPEN \<and> (\<exists>d. cv_expected (cr_values c) = Some d \<and> d < today))) (take 5000 found), length found)"
proof -
  let ?rows = "filter (card_wanted luxon collate same today f) (kz_cards db)"
  let ?found = "order_cards (column_key collate by') (dir = ''asc'') ?rows"
  have "matching collate same (buildCardWhere luxon today f) db = ?rows"
    by (simp add: matching_def where_clause_wanted)
  moreover have "length ?found = length ?rows" using order_cards_sorted(2) by (metis size_mset)
  moreover have "withOverdue today = (\<lambda>c. (c, cv_status (cr_values c) = OPEN \<and> (\<exists>d. cv_expected (cr_values c) = Some d \<and> d < today)))"
    by (simp add: withOverdue_def overdue_on_def fun_eq_iff split: option.split)
  ultimately have "listCards luxon collate same today f by' dir db =
       (map (\<lambda>c. (c, cv_status (cr_values c) = OPEN \<and> (\<exists>d. cv_expected (cr_values c) = Some d \<and> d < today))) (take 5000 ?found), length ?found)"
    by (simp add: listCards_def Let_def KAIZEN_LIST_LIMIT_def)
  then show ?thesis using order_cards_sorted(1) [of "dir = ''asc''" "column_key collate by'" ?rows]
      order_cards_sorted(2) [of "column_key collate by'" "dir = ''asc''" ?rows] by blast
qed

section \<open>What the dashboard shows\<close>

lemma sum_list_sort: "sum_list (map f (sort_key k xs)) = (sum_list (map f xs) :: nat)"
  by (metis mset_map mset_sort sum_mset_sum_list)

lemma sum_list_positive: "sum_list (map f (filter (\<lambda>x. f x > 0) xs)) = (sum_list (map f xs) :: nat)"
  by (induction xs) auto

lemma sum_groups:
  assumes "distinct (map key vs)" "\<forall>c \<in> set rows. g c \<in> key ` set vs"
  shows "(\<Sum>v\<leftarrow>vs. length (filter (\<lambda>c. g c = key v) rows)) = length rows"
  using assms(2)
proof (induction rows)
  case (Cons c rows)
  have one: "(\<Sum>v\<leftarrow>ws. if g c = key v then Suc (n v) else n v) = (\<Sum>v\<leftarrow>ws. n v) + (if g c \<in> key ` set ws then 1 else 0)"
    if "distinct (map key ws)" for ws n
    using that by (induction ws) auto
  have "(\<Sum>v\<leftarrow>vs. length (filter (\<lambda>c. g c = key v) (c # rows))) =
      (\<Sum>v\<leftarrow>vs. if g c = key v then Suc (length (filter (\<lambda>c. g c = key v) rows)) else length (filter (\<lambda>c. g c = key v) rows))"
    by (rule arg_cong [of _ _ sum_list]) (simp add: if_distrib cong: if_cong)
  then show ?case using Cons one [OF assms(1)] by simp
qed simp

lemma countBy_total:
  assumes "distinct (map dv_id (kz_values db))" "\<forall>c \<in> set rows. column (cr_values c) \<in> dv_id ` set (kz_values db)"
  shows "(\<Sum>p\<leftarrow>countBy db column rows. snd p) = length rows"
proof -
  let ?n = "\<lambda>v. length (filter (\<lambda>c. column (cr_values c) = dv_id v) rows)"
  have "(\<Sum>p\<leftarrow>countBy db column rows. snd p) =
      sum_list (map ?n (sort_key (\<lambda>v. (- int (?n v), dv_sort v)) (filter (\<lambda>v. ?n v > 0) (kz_values db))))"
    by (simp add: countBy_def Let_def comp_def)
  also have "\<dots> = (\<Sum>v\<leftarrow>kz_values db. ?n v)" unfolding sum_list_sort by (rule sum_list_positive)
  finally show ?thesis using sum_groups [OF assms(1), of rows "\<lambda>c. column (cr_values c)"] assms(2) by simp
qed

lemma countBy_top:
  "first_row (countBy db column rows) = Some t \<Longrightarrow> p \<in> set (countBy db column rows) \<Longrightarrow> snd p \<le> snd t"
proof -
  let ?n = "\<lambda>v. length (filter (\<lambda>c. column (cr_values c) = dv_id v) rows)"
  let ?s = "sort_key (\<lambda>v. (- int (?n v), dv_sort v)) (filter (\<lambda>v. ?n v > 0) (kz_values db))"
  have sorted: "sorted (map (\<lambda>v. (- int (?n v), dv_sort v)) ?s)" by (rule sorted_sort_key)
  have c: "countBy db column rows = map (\<lambda>v. (dv_id v, ?n v)) ?s" by (simp add: countBy_def Let_def)
  assume f: "first_row (countBy db column rows) = Some t" and p: "p \<in> set (countBy db column rows)"
  obtain v vs where s: "?s = v # vs" using f unfolding c by (cases ?s) auto
  have top: "t = (dv_id v, ?n v)" using f unfolding c s by simp
  obtain w where w: "w \<in> set (v # vs)" "p = (dv_id w, ?n w)" using p unfolding c s by auto
  have "(- int (?n v), dv_sort v) \<le> (- int (?n w), dv_sort w)" using sorted w(1) unfolding s by auto
  then show ?thesis using top w(2) by (auto simp: less_eq_prod_def)
qed

lemma countBy_keys: "distinct (map dv_id (kz_values db)) \<Longrightarrow> distinct (map fst (countBy db column rows))"
proof -
  assume d: "distinct (map dv_id (kz_values db))"
  let ?n = "\<lambda>v. length (filter (\<lambda>c. column (cr_values c) = dv_id v) rows)"
  let ?vs = "filter (\<lambda>v. ?n v > 0) (kz_values db)"
  have "map fst (countBy db column rows) = map dv_id (sort_key (\<lambda>v. (- int (?n v), dv_sort v)) ?vs)"
    by (simp add: countBy_def Let_def comp_def)
  moreover have "distinct (map dv_id (sort_key k vs)) = distinct (map dv_id vs)" for k :: "dropdown_row \<Rightarrow> int \<times> int" and vs
    by (metis mset_eq_imp_distinct_iff mset_map mset_sort)
  ultimately show ?thesis using d by (simp add: distinct_map_filter)
qed

lemma merge_sums:
  assumes "distinct (map fst current)" "distinct (map fst prev)"
  shows "(\<Sum>p\<leftarrow>mergeDepartmentCounts current prev. fst (snd p)) = (\<Sum>p\<leftarrow>current. snd p)"
    "(\<Sum>p\<leftarrow>mergeDepartmentCounts current prev. snd (snd p)) = (\<Sum>p\<leftarrow>prev. snd p)"
proof -
  show "(\<Sum>p\<leftarrow>mergeDepartmentCounts current prev. fst (snd p)) = (\<Sum>p\<leftarrow>current. snd p)"
    by (simp add: mergeDepartmentCounts_def comp_def case_prod_beta sum_list_0)
  have one: "(\<Sum>p\<leftarrow>ps. if fst p = i then n else g (fst p)) = (\<Sum>p\<leftarrow>ps. g (fst p)) + (if i \<in> fst ` set ps then n else 0)"
    if "distinct (map fst ps)" "g i = 0" for ps :: "(int \<times> nat) list" and i and n :: nat and g
    using that(1) by (induction ps) (auto simp: that(2) image_iff)
  have "(\<Sum>p\<leftarrow>current. case map_of l (fst p) of None \<Rightarrow> 0 | Some m \<Rightarrow> m) + (\<Sum>p\<leftarrow>filter (\<lambda>(i, n). i \<notin> fst ` set current) l. snd p) =
      (\<Sum>p\<leftarrow>l. snd p)" if "distinct (map fst l)" for l :: "(int \<times> nat) list"
    using that
  proof (induction l)
    case (Cons q l)
    obtain i n where q: "q = (i, n)" by (cases q)
    have none: "map_of l i = None" using Cons.prems by (auto simp: q map_of_eq_None_iff)
    have e: "(case map_of (q # l) j of None \<Rightarrow> 0 | Some m \<Rightarrow> m) = (if j = i then n else case map_of l j of None \<Rightarrow> 0 | Some m \<Rightarrow> m)" for j
      by (simp add: q)
    have "(\<Sum>p\<leftarrow>current. case map_of (q # l) (fst p) of None \<Rightarrow> 0 | Some m \<Rightarrow> m) =
        (\<Sum>p\<leftarrow>current. case map_of l (fst p) of None \<Rightarrow> 0 | Some m \<Rightarrow> m) + (if i \<in> fst ` set current then n else 0)"
      unfolding e using one [OF assms(1), of "\<lambda>j. case map_of l j of None \<Rightarrow> 0 | Some m \<Rightarrow> m" i n] none by simp
    moreover have "(\<Sum>p\<leftarrow>filter (\<lambda>(i, n). i \<notin> fst ` set current) (q # l). snd p) =
        (if i \<in> fst ` set current then 0 else n) + (\<Sum>p\<leftarrow>filter (\<lambda>(i, n). i \<notin> fst ` set current) l. snd p)" by (simp add: q)
    ultimately show ?case using Cons by (simp add: q)
  qed simp
  moreover have "map_of (rev prev) = map_of prev" using assms(2) by (intro map_of_inject_set [THEN iffD2]) (simp_all add: rev_map [symmetric])
  ultimately show "(\<Sum>p\<leftarrow>mergeDepartmentCounts current prev. snd (snd p)) = (\<Sum>p\<leftarrow>prev. snd p)"
    using assms(2) by (simp add: mergeDepartmentCounts_def comp_def case_prod_beta)
qed

lemma in_list_ids: "in_list db l i \<Longrightarrow> i \<in> dv_id ` set (kz_values db)"
  by (auto simp: in_list_def list_ex_iff)

lemma with_status_split: "length (with_status OPEN rows) + length (with_status CLOSED rows) = length rows"
proof (induction rows)
  case (Cons c rows)
  then show ?case by (cases "cv_status (cr_values c)") (simp_all add: with_status_def)
qed (simp add: with_status_def)

lemma byResponsible_total: "(\<Sum>p\<leftarrow>byResponsible collate rows. pc_count p) = length rows"
proof -
  have "(\<Sum>k\<leftarrow>dedup (map (party collate) rows). length (filter (\<lambda>c. party collate c = k) rows)) = length rows"
    using sum_groups [of "\<lambda>k. k" "dedup (map (party collate) rows)" rows "party collate"] by simp
  then show ?thesis by (simp add: byResponsible_def Let_def comp_def sum_list_sort)
qed

text \<open>The dashboard adds up: open and closed cards together are all cards, overdue ones are open; the counts by
type and by priority, and this year's counts by department, each sum to the total, last year's department
counts sum to last year's total; the counts by responsible party sum to the total and each splits into open
and closed; the top department and type have the largest count, and a mean closing time is shown exactly
when a card is closed.\<close>

theorem dashboard_adds_up:
  assumes "kaizen_ok luxon collate db"
  shows "let d = getDashboard luxon collate same year_back today f db in
    kd_open d + kd_closed d = kd_total d \<and> kd_overdue d \<le> kd_open d \<and>
    (\<Sum>p\<leftarrow>kd_by_type d. snd p) = kd_total d \<and> (\<Sum>p\<leftarrow>kd_by_priority d. snd p) = kd_total d \<and>
    (\<Sum>p\<leftarrow>kd_by_department d. fst (snd p)) = kd_total d \<and> (\<Sum>p\<leftarrow>kd_by_department d. snd (snd p)) = kd_last_year_total d \<and>
    (\<Sum>p\<leftarrow>kd_by_responsible d. pc_count p) = kd_total d \<and> (\<forall>p \<in> set (kd_by_responsible d). pc_open p + pc_closed p = pc_count p) \<and>
    (\<forall>t. kd_top_type d = Some t \<longrightarrow> (\<forall>p \<in> set (kd_by_type d). snd p \<le> snd t)) \<and>
    (\<forall>t. kd_top_department d = Some t \<longrightarrow> (\<forall>p \<in> set (kd_by_department d). fst (snd p) \<le> snd t)) \<and>
    (kd_avg_days d \<noteq> None \<longleftrightarrow> kd_closed d > 0)"
proof -
  let ?rows = "matching collate same (buildCardWhere luxon today f) db"
  let ?range = "lastYearRange luxon year_back today f"
  let ?last = "matching collate same (buildCardWhere luxon today (f\<lparr>kf_from := fst ?range, kf_to := snd ?range\<rparr>)) db"
  have ids: "distinct (map dv_id (kz_values db))" using assms by (simp add: kaizen_ok_def)
  have refs: "refers db (cr_values c)" if "c \<in> set (kz_cards db)" for c using assms that by (simp add: kaizen_ok_def list_all_iff)
  have own: "\<forall>c \<in> set (matching collate same w db). cv_department (cr_values c) \<in> dv_id ` set (kz_values db)"
    "\<forall>c \<in> set (matching collate same w db). cv_type (cr_values c) \<in> dv_id ` set (kz_values db)"
    "\<forall>c \<in> set (matching collate same w db). cv_priority (cr_values c) \<in> dv_id ` set (kz_values db)" for w
    using refs unfolding matching_def refers_def set_filter by (blast intro: in_list_ids)+
  note total = countBy_total [OF ids own(1)] countBy_total [OF ids own(2)] countBy_total [OF ids own(3)]
  have merged: "(\<Sum>p\<leftarrow>mergeDepartmentCounts (countBy db cv_department ?rows) (countBy db cv_department ?last). fst (snd p)) = length ?rows"
    "(\<Sum>p\<leftarrow>mergeDepartmentCounts (countBy db cv_department ?rows) (countBy db cv_department ?last). snd (snd p)) = length ?last"
    using total(1) merge_sums [OF countBy_keys [OF ids] countBy_keys [OF ids]] by simp_all
  have overdue: "length (filter (\<lambda>c. overdue_on today (cr_values c)) rows) \<le> length (with_status OPEN rows)" for rows
    by (induction rows) (auto simp: with_status_def overdue_on_def)
  have split: "pc_open p + pc_closed p = pc_count p" if "p \<in> set (byResponsible collate ?rows)" for p
    using that by (auto simp: byResponsible_def Let_def with_status_split)
  have top: "fst (snd p) \<le> snd t"
    if "first_row (countBy db cv_department ?rows) = Some t"
      "p \<in> set (mergeDepartmentCounts (countBy db cv_department ?rows) (countBy db cv_department ?last))" for p t
    using that(2) countBy_top [OF that(1)] by (auto simp: mergeDepartmentCounts_def)
  have mean: "mean_days rows \<noteq> None \<longleftrightarrow> length rows > 0" for rows
    unfolding mean_days_def Let_def by (cases "rows = []") (simp, metis length_greater_0_conv option.distinct(1))
  show ?thesis
    unfolding getDashboard_def Let_def kaizen_dashboard.simps
    by (intro conjI allI impI ballI)
      (use with_status_split overdue total(2,3) merged byResponsible_total split mean in \<open>simp_all only:\<close>,
        (erule (1) countBy_top top)+, (use mean in simp)?)
qed

theorem dashboard_adds_up_witness:
  "\<exists>d. d = getDashboard calendar_date id (=) (\<lambda>d. None) ''2026-03-01'' \<lparr>kf_from = None, kf_to = None, kf_departments = [], kf_types = [],
     kf_priorities = [], kf_status = None, kf_search = None, kf_overdue = False, kf_creator = None, kf_responsible = None\<rparr> example_board \<and>
     kd_open d + kd_closed d = kd_total d"
  using dashboard_adds_up [OF example_board_ok, of "(=)" "\<lambda>d. None" "''2026-03-01''" "\<lparr>kf_from = None, kf_to = None, kf_departments = [],
     kf_types = [], kf_priorities = [], kf_status = None, kf_search = None, kf_overdue = False, kf_creator = None, kf_responsible = None\<rparr>"]
  by (simp add: Let_def)

end
