(* ===== verification/Nps_Case.thy ===== *)
theory Nps_Case
  imports Nps_Sla
begin

text \<open>
  A follow-up case of a detractor and the edit of it (\<open>backend/src/services/npsFollowupService.ts\<close>,
  \<open>statusOfStage\<close> to \<open>applyEdit\<close>): the workflow stages and the status that follows from them, the
  validation of each input field, and the edit that fills and clears the times of a stage. Times are
  wall-clock texts as in the SLA; \<open>now\<close> is the current one. A request body is the list of its properties.
\<close>

section \<open>Stages and statuses\<close>

datatype followup_stage = HISTORICAL | NEW | CONTACTED | IN_PROGRESS | RESOLVED | REJECTED

definition stage_name :: "followup_stage \<Rightarrow> string" where
  "stage_name s = (case s of HISTORICAL \<Rightarrow> ''HISTORICAL'' | NEW \<Rightarrow> ''NEW'' | CONTACTED \<Rightarrow> ''CONTACTED''
     | IN_PROGRESS \<Rightarrow> ''IN_PROGRESS'' | RESOLVED \<Rightarrow> ''RESOLVED'' | REJECTED \<Rightarrow> ''REJECTED'')"

definition FOLLOWUP_STAGES :: "followup_stage list" where
  "FOLLOWUP_STAGES = [HISTORICAL, NEW, CONTACTED, IN_PROGRESS, RESOLVED, REJECTED]"

definition EDITABLE_STAGES :: "followup_stage list" where
  "EDITABLE_STAGES = [NEW, CONTACTED, IN_PROGRESS, RESOLVED, REJECTED]"

definition OPEN_STAGES :: "followup_stage list" where
  "OPEN_STAGES = [NEW, CONTACTED, IN_PROGRESS]"

datatype followup_status = Status_open | Status_close | Status_disputed

definition statusOfStage :: "followup_stage \<Rightarrow> followup_status option" where
  "statusOfStage s =
     (if s \<in> set OPEN_STAGES then Some Status_open
      else if s = RESOLVED then Some Status_close
      else if s = HISTORICAL then None
      else Some Status_disputed)"

section \<open>Cases\<close>

definition MAX_REASON_NOTE :: nat where
  "MAX_REASON_NOTE = 200"

definition MAX_TEXT :: nat where
  "MAX_TEXT = 2000"

definition MAX_OWNER :: nat where
  "MAX_OWNER = 120"

text \<open>The fields an edit may write.\<close>

record case_fields =
  ce_stage :: followup_stage
  ce_reason :: "int option"
  ce_note :: "string option"
  ce_owner :: "string option"
  ce_contacted :: "string option"
  ce_resolved :: "string option"
  ce_rejected :: "string option"
  ce_root_cause :: "string option"
  ce_action :: "string option"
  ce_notes :: "string option"

text \<open>A stored case: \<open>fc_owner_user\<close> is the user an owner was before owners became free text, \<open>fc_rated\<close>
the time of the rating, \<open>fc_created\<close> that of the case (as shown, in the local zone).\<close>

record followup_case =
  fc_id :: int
  fc_response :: int
  fc_rated :: "string option"
  fc_created :: "string option"
  fc_fields :: case_fields
  fc_owner_user :: "int option"
  fc_source_changed :: bool
  fc_version :: int
  fc_updated_by :: "int option"

text \<open>\<open>Invalid code\<close> is a \<open>FollowupValidationError\<close>, \<open>Conflict\<close> the refusal of an outdated edit, with the
case as it is now.\<close>

datatype followup_error = Invalid string | Conflict followup_case | Database_refusal

section \<open>Input fields\<close>

type_synonym case_input = "(string \<times> jsval) list"

definition has :: "case_input \<Rightarrow> string \<Rightarrow> bool" where
  "has input k = (map_of input k \<noteq> None)"

definition input_of :: "case_input \<Rightarrow> string \<Rightarrow> jsval" where
  "input_of input k = field_of (JObj input) k"

text \<open>\<open>/^\d{4}-\d{2}-\d{2}[ T]\d{2}:\d{2}(:\d{2})?$/\<close>\<close>

definition wall_re :: "string \<Rightarrow> bool" where
  "wall_re s \<longleftrightarrow> iso_shape (take 10 s) \<and> (length s = 16 \<or> length s = 19 \<and> s ! 16 = CHR '':'' \<and> list_all is_digit (drop 17 s)) \<and>
     (s ! 10 = CHR '' '' \<or> s ! 10 = CHR ''T'') \<and> s ! 13 = CHR '':'' \<and>
     list_all is_digit (take 2 (drop 11 s)) \<and> list_all is_digit (take 2 (drop 14 s))"

definition with_seconds :: "string \<Rightarrow> string" where
  "with_seconds s = (if length s = 16 then s @ '':00'' else s)"

text \<open>\<open>s.replace('T', ' ')\<close>: the first one.\<close>

fun replace_T :: "string \<Rightarrow> string" where
  "replace_T [] = []"
| "replace_T (c # s) = (if c = CHR ''T'' then CHR '' '' # s else c # replace_T s)"

definition wallInput :: "jsval \<Rightarrow> string \<Rightarrow> followup_error + string option" where
  "wallInput v field =
     (if v = JNull \<or> v = JStr [] then Inr None
      else let s = trim (to_string v) in
        if \<not> wall_re s \<or> wall (with_seconds s) = None then Inl (Invalid (''case.'' @ field))
        else Inr (Some (with_seconds (replace_T s))))"

definition or_null :: "string \<Rightarrow> string option" where
  "or_null s = (if s = [] then None else Some s)"

definition textInput :: "jsval \<Rightarrow> string \<Rightarrow> nat \<Rightarrow> followup_error + string option" where
  "textInput v field limit =
     (if nullish v then Inr None
      else let s = trim (to_string v) in
        if length s > limit then Inl (Invalid (''case.'' @ field)) else Inr (or_null s))"

definition ownerInput :: "jsval \<Rightarrow> followup_error + string option" where
  "ownerInput v =
     (if nullish v then Inr None
      else let s = trim (squeeze_spaces (to_string v)) in
        if length s > MAX_OWNER then Inl (Invalid ''case.owner'') else Inr (or_null s))"

definition idInput :: "jsval \<Rightarrow> string \<Rightarrow> followup_error + int option" where
  "idInput v field =
     (if v = JNull \<or> v = JStr [] \<or> v = JUndef then Inr None
      else case as_integer (to_number v) of
          None \<Rightarrow> Inl (Invalid (''case.'' @ field))
        | Some n \<Rightarrow> if n < 1 then Inl (Invalid (''case.'' @ field)) else Inr (Some n))"

definition nextReasonId :: "int option \<Rightarrow> case_input \<Rightarrow> followup_error + int option" where
  "nextReasonId existing input =
     (if has input ''reasonId'' then idInput (input_of input ''reasonId'') ''reasonId'' else Inr existing)"

definition stageInput :: "jsval \<Rightarrow> followup_error + followup_stage" where
  "stageInput v =
     (case List.find (\<lambda>s. stage_name s = to_upper (if nullish v then [] else to_string v)) EDITABLE_STAGES of
        None \<Rightarrow> Inl (Invalid ''case.stage'')
      | Some s \<Rightarrow> Inr s)"

section \<open>The edit\<close>

text \<open>\<open>if (has(input, k)) next.x = parse(input[k])\<close>: the field keeps its value otherwise.\<close>

definition field_or :: "case_input \<Rightarrow> string \<Rightarrow> (jsval \<Rightarrow> followup_error + 'a) \<Rightarrow> 'a \<Rightarrow> followup_error + 'a" where
  "field_or input k parse old = (if has input k then parse (input_of input k) else Inr old)"

definition given_fields :: "case_fields \<Rightarrow> case_input \<Rightarrow> followup_error + case_fields" where
  "given_fields ex input =
     rbind (field_or input ''stage'' stageInput (ce_stage ex)) (\<lambda>stage.
     rbind (nextReasonId (ce_reason ex) input) (\<lambda>reason.
     rbind (field_or input ''reasonNote'' (\<lambda>v. textInput v ''reasonNote'' MAX_REASON_NOTE) (ce_note ex)) (\<lambda>note.
     rbind (field_or input ''owner'' ownerInput (ce_owner ex)) (\<lambda>owner.
     rbind (field_or input ''contactedAt'' (\<lambda>v. wallInput v ''contactedAt'') (ce_contacted ex)) (\<lambda>contacted.
     rbind (field_or input ''resolvedAt'' (\<lambda>v. wallInput v ''resolvedAt'') (ce_resolved ex)) (\<lambda>resolved.
     rbind (field_or input ''rootCause'' (\<lambda>v. textInput v ''rootCause'' MAX_TEXT) (ce_root_cause ex)) (\<lambda>root_cause.
     rbind (field_or input ''actionTaken'' (\<lambda>v. textInput v ''actionTaken'' MAX_TEXT) (ce_action ex)) (\<lambda>action.
     rbind (field_or input ''notes'' (\<lambda>v. textInput v ''notes'' MAX_TEXT) (ce_notes ex)) (\<lambda>notes.
     Inr \<lparr>ce_stage = stage, ce_reason = reason, ce_note = note, ce_owner = owner, ce_contacted = contacted,
       ce_resolved = resolved, ce_rejected = ce_rejected ex, ce_root_cause = root_cause, ce_action = action,
       ce_notes = notes\<rparr>)))))))))"

text \<open>A contacted or resolved time: not before the rating, not more than a quarter of an hour ahead.\<close>

definition hours_ahead :: "string \<Rightarrow> string \<Rightarrow> jsnum" where
  "hours_ahead now v = (case (wall now, wall v) of (Some a, Some b) \<Rightarrow> Fin (hours_of_ms (b - a)) | _ \<Rightarrow> NaN)"

definition check_time :: "string option \<Rightarrow> string \<Rightarrow> string \<Rightarrow> string option \<Rightarrow> followup_error + unit" where
  "check_time rated now field value =
     (if \<not> given value then Inr ()
      else rbind (ensure (\<not> (given rated \<and> the value < the rated)) (Invalid (''case.'' @ field))) (\<lambda>_.
        ensure (\<not> num_gt (hours_ahead now (the value)) (1 / 4)) (Invalid (''case.'' @ field))))"

text \<open>The times a stage fills and clears, and the note that goes with its reason.\<close>

definition contacted_after :: "case_fields \<Rightarrow> case_fields \<Rightarrow> string \<Rightarrow> string option" where
  "contacted_after ex n now =
     (if ce_stage n \<in> set [CONTACTED, IN_PROGRESS, RESOLVED] \<and> \<not> given (ce_contacted n) \<and> ce_stage n \<noteq> ce_stage ex
      then Some now else ce_contacted n)"

definition resolved_after :: "case_fields \<Rightarrow> string \<Rightarrow> string option" where
  "resolved_after n now = (if ce_stage n = RESOLVED then (if given (ce_resolved n) then ce_resolved n else Some now) else None)"

definition rejected_after :: "case_fields \<Rightarrow> case_fields \<Rightarrow> string \<Rightarrow> string option" where
  "rejected_after ex n now =
     (if ce_stage n = REJECTED
      then (if ce_stage ex = REJECTED then (case ce_rejected ex of None \<Rightarrow> Some now | Some t \<Rightarrow> Some t) else Some now) else None)"

definition note_after :: "case_fields \<Rightarrow> bool option \<Rightarrow> string option" where
  "note_after n reason = (if ce_reason n = None \<or> reason = Some False then None else ce_note n)"

definition applyEdit ::
  "case_fields \<Rightarrow> string option \<Rightarrow> case_input \<Rightarrow> string \<Rightarrow> bool option \<Rightarrow> followup_error + case_fields" where
  "applyEdit ex rated input now reason =
     rbind (ensure (\<not> has input ''status'') (Invalid ''case.statusReadOnly'')) (\<lambda>_.
     rbind (ensure (\<not> has input ''rejectedAt'') (Invalid ''case.rejectedAtReadOnly'')) (\<lambda>_.
     rbind (given_fields ex input) (\<lambda>n.
     rbind (ensure (\<not> (ce_stage n = HISTORICAL \<and> (has input ''contactedAt'' \<or> has input ''resolvedAt''))) (Invalid ''case.stage'')) (\<lambda>_.
     rbind (ensure (\<not> (ce_stage n = RESOLVED \<and> ce_reason n = None)) (Invalid ''case.reasonRequired'')) (\<lambda>_.
     rbind (ensure (\<not> (ce_stage n = REJECTED \<and> \<not> given (ce_notes n))) (Invalid ''case.rejectNote'')) (\<lambda>_.
       let contacted = contacted_after ex n now; resolved = resolved_after n now; note = note_after n reason in
     rbind (ensure (\<not> (reason = Some True \<and> \<not> given note \<and> (ce_reason n \<noteq> ce_reason ex \<or> has input ''reasonNote'')))
       (Invalid ''case.reasonNote'')) (\<lambda>_.
     rbind (check_time rated now ''contactedAt'' contacted) (\<lambda>_.
     rbind (check_time rated now ''resolvedAt'' resolved) (\<lambda>_.
     rbind (ensure (\<not> (given resolved \<and> given contacted \<and> the resolved < the contacted)) (Invalid ''case.resolvedAt'')) (\<lambda>_.
     Inr (n\<lparr>ce_contacted := contacted, ce_resolved := resolved, ce_rejected := rejected_after ex n now, ce_note := note\<rparr>)))))))))))"

section \<open>What an accepted edit gives\<close>

lemma given_iff [simp]: "given (Some t) \<longleftrightarrow> t \<noteq> []" "\<not> given None"
  by (simp_all add: given_def)

lemma given_ex: "given x \<longleftrightarrow> (\<exists>t. x = Some t \<and> t \<noteq> [])"
  by (cases x) auto

lemma given_fields_Inr:
  assumes "given_fields ex input = Inr n"
  shows "field_or input ''stage'' stageInput (ce_stage ex) = Inr (ce_stage n)"
    "nextReasonId (ce_reason ex) input = Inr (ce_reason n)"
    "field_or input ''reasonNote'' (\<lambda>v. textInput v ''reasonNote'' MAX_REASON_NOTE) (ce_note ex) = Inr (ce_note n)"
    "field_or input ''owner'' ownerInput (ce_owner ex) = Inr (ce_owner n)"
    "field_or input ''contactedAt'' (\<lambda>v. wallInput v ''contactedAt'') (ce_contacted ex) = Inr (ce_contacted n)"
    "field_or input ''resolvedAt'' (\<lambda>v. wallInput v ''resolvedAt'') (ce_resolved ex) = Inr (ce_resolved n)"
    "field_or input ''rootCause'' (\<lambda>v. textInput v ''rootCause'' MAX_TEXT) (ce_root_cause ex) = Inr (ce_root_cause n)"
    "field_or input ''actionTaken'' (\<lambda>v. textInput v ''actionTaken'' MAX_TEXT) (ce_action ex) = Inr (ce_action n)"
    "field_or input ''notes'' (\<lambda>v. textInput v ''notes'' MAX_TEXT) (ce_notes ex) = Inr (ce_notes n)"
  using assms unfolding given_fields_def rbind_eq_Inr by (elim exE conjE; simp only: sum.inject; force)+

lemma field_or_absent [dest]: "field_or input k parse old = Inr v \<Longrightarrow> \<not> has input k \<Longrightarrow> v = old"
  by (simp add: field_or_def)

lemma nextReasonId_absent [dest]: "nextReasonId old input = Inr v \<Longrightarrow> \<not> has input ''reasonId'' \<Longrightarrow> v = old"
  by (simp add: nextReasonId_def)

lemma check_time_Inr [rule_facts]:
  "check_time rated now f v = Inr u \<longleftrightarrow>
     (given v \<longrightarrow> \<not> (given rated \<and> the v < the rated) \<and> \<not> num_gt (hours_ahead now (the v)) (1 / 4))"
  by (auto simp: check_time_def rbind_eq_Inr ensure_eq_Inr)

lemma applyEdit_Inr:
  assumes "applyEdit ex rated input now reason = Inr next'"
  obtains n where "given_fields ex input = Inr n" "\<not> has input ''status''" "\<not> has input ''rejectedAt''"
    "\<not> (ce_stage n = HISTORICAL \<and> (has input ''contactedAt'' \<or> has input ''resolvedAt''))"
    "next' = n\<lparr>ce_contacted := contacted_after ex n now, ce_resolved := resolved_after n now,
       ce_rejected := rejected_after ex n now, ce_note := note_after n reason\<rparr>"
    "\<not> (ce_stage n = RESOLVED \<and> ce_reason n = None)" "\<not> (ce_stage n = REJECTED \<and> \<not> given (ce_notes n))"
    "\<not> (reason = Some True \<and> \<not> given (note_after n reason) \<and> (ce_reason n \<noteq> ce_reason ex \<or> has input ''reasonNote''))"
    "check_time rated now ''contactedAt'' (contacted_after ex n now) = Inr ()"
    "check_time rated now ''resolvedAt'' (resolved_after n now) = Inr ()"
    "\<not> (given (resolved_after n now) \<and> given (contacted_after ex n now) \<and> the (resolved_after n now) < the (contacted_after ex n now))"
  using assms unfolding applyEdit_def Let_def rbind_eq_Inr ensure_eq_Inr
  apply (elim exE conjE)
  subgoal for a b n by (rule that [of n]) simp_all
  done


text \<open>What the database also demands of a case (migrations 0052 and 0066), and what an edit adds to it.\<close>

definition fields_ok :: "string option \<Rightarrow> case_fields \<Rightarrow> bool" where
  "fields_ok rated c \<longleftrightarrow>
     (ce_stage c = RESOLVED \<longleftrightarrow> ce_resolved c \<noteq> None) \<and> (ce_stage c = REJECTED \<longleftrightarrow> ce_rejected c \<noteq> None) \<and>
     (\<forall>r t. rated = Some r \<longrightarrow> ce_contacted c = Some t \<or> ce_resolved c = Some t \<longrightarrow> r \<le> t) \<and>
     (\<forall>k t. ce_contacted c = Some k \<longrightarrow> ce_resolved c = Some t \<longrightarrow> k \<le> t) \<and>
     (ce_stage c = RESOLVED \<longrightarrow> ce_reason c \<noteq> None) \<and> (ce_stage c = REJECTED \<longrightarrow> given (ce_notes c)) \<and>
     (ce_reason c = None \<longrightarrow> ce_note c = None)"

definition no_empty_time :: "case_fields \<Rightarrow> bool" where
  "no_empty_time c \<longleftrightarrow> ce_contacted c \<noteq> Some [] \<and> ce_resolved c \<noteq> Some [] \<and> ce_rejected c \<noteq> Some []"

lemma length_replace_T [simp]: "length (replace_T s) = length s"
  by (induction s) auto

lemma wallInput_Inr: "wallInput v f = Inr r \<Longrightarrow> r \<noteq> Some []"
proof
  assume a: "wallInput v f = Inr r" and "r = Some []"
  then have "wall_re (trim (to_string v)) \<and> with_seconds (replace_T (trim (to_string v))) = []"
    unfolding wallInput_def Let_def by (simp split: if_splits)
  then have "length (trim (to_string v)) \<ge> 16 \<and> replace_T (trim (to_string v)) = []"
    by (auto simp: wall_re_def with_seconds_def split: if_splits)
  then show False by (metis length_replace_T list.size(3) not_numeral_le_zero)
qed

lemma applyEdit_no_empty_time:
  assumes "no_empty_time ex" "applyEdit ex rated input now reason = Inr next'" "now \<noteq> []"
  shows "no_empty_time next'"
  using assms(2)
proof (cases rule: applyEdit_Inr)
  case (1 n)
  note g = given_fields_Inr [OF 1(1)]
  have c: "ce_contacted n \<noteq> Some []" "ce_resolved n \<noteq> Some []"
    using g(5,6) assms(1) wallInput_Inr unfolding field_or_def no_empty_time_def by (metis sum.inject(2))+
  have "ce_rejected ex \<noteq> Some []" using assms(1) by (simp add: no_empty_time_def)
  then show ?thesis using c assms(3) unfolding 1(5)
    by (auto simp: no_empty_time_def contacted_after_def resolved_after_def rejected_after_def split: option.splits)
qed


lemma stageInput_editable: "stageInput v = Inr s \<Longrightarrow> s \<in> set EDITABLE_STAGES"
  by (auto simp: stageInput_def split: option.splits dest: find_SomeD)

lemma edit_fields_ok:
  assumes ne: "no_empty_time next'" "rated \<noteq> Some []" and e: "applyEdit ex rated input now reason = Inr next'"
  shows "fields_ok rated next'"
  using e
proof (cases rule: applyEdit_Inr)
  case (1 n)
  have given: "given t \<longleftrightarrow> t \<noteq> None" if "t \<in> {ce_contacted next', ce_resolved next', rated}" for t
    using that ne by (auto simp: no_empty_time_def given_ex)
  have r: "rated = Some r \<Longrightarrow> ce_contacted next' = Some t \<or> ce_resolved next' = Some t \<Longrightarrow> r \<le> t" for r t
    using 1(9,10) given unfolding check_time_Inr 1(5) by fastforce
  have k: "ce_contacted next' = Some a \<Longrightarrow> ce_resolved next' = Some b \<Longrightarrow> a \<le> b" for a b
    using 1(11) given unfolding 1(5) by fastforce
  have s: "ce_stage next' = RESOLVED \<longleftrightarrow> ce_resolved next' \<noteq> None" "ce_stage next' = REJECTED \<longleftrightarrow> ce_rejected next' \<noteq> None"
    unfolding 1(5) by (auto simp: resolved_after_def rejected_after_def given_ex split: option.split)
  have "ce_stage next' = RESOLVED \<longrightarrow> ce_reason next' \<noteq> None" "ce_stage next' = REJECTED \<longrightarrow> given (ce_notes next')"
    "ce_reason next' = None \<longrightarrow> ce_note next' = None"
    using 1(6,7) unfolding 1(5) by (auto simp: note_after_def)
  then show ?thesis using r k s unfolding fields_ok_def by blast
qed

text \<open>What the request mentions is stored as it was read, and what it leaves out stays. Three fields also follow
the stage and the reason: a contact time is filled when the stage changes to one past New and none is known, a
resolved time lives in stage Resolved only, a note with a reason that takes one only.\<close>

definition mentioned_stored :: "case_input \<Rightarrow> bool option \<Rightarrow> case_fields \<Rightarrow> bool" where
  "mentioned_stored input reason c \<longleftrightarrow>
     (has input ''stage'' \<longrightarrow> stageInput (input_of input ''stage'') = Inr (ce_stage c)) \<and>
     (has input ''reasonId'' \<longrightarrow> idInput (input_of input ''reasonId'') ''reasonId'' = Inr (ce_reason c)) \<and>
     (has input ''owner'' \<longrightarrow> ownerInput (input_of input ''owner'') = Inr (ce_owner c)) \<and>
     (has input ''rootCause'' \<longrightarrow> textInput (input_of input ''rootCause'') ''rootCause'' MAX_TEXT = Inr (ce_root_cause c)) \<and>
     (has input ''actionTaken'' \<longrightarrow> textInput (input_of input ''actionTaken'') ''actionTaken'' MAX_TEXT = Inr (ce_action c)) \<and>
     (has input ''notes'' \<longrightarrow> textInput (input_of input ''notes'') ''notes'' MAX_TEXT = Inr (ce_notes c)) \<and>
     (\<forall>t. wallInput (input_of input ''contactedAt'') ''contactedAt'' = Inr (Some t) \<longrightarrow> has input ''contactedAt'' \<longrightarrow> ce_contacted c = Some t) \<and>
     (\<forall>t. wallInput (input_of input ''resolvedAt'') ''resolvedAt'' = Inr (Some t) \<longrightarrow> has input ''resolvedAt'' \<longrightarrow> ce_stage c = RESOLVED \<longrightarrow>
        ce_resolved c = Some t) \<and>
     (has input ''reasonNote'' \<longrightarrow> ce_reason c \<noteq> None \<longrightarrow> reason \<noteq> Some False \<longrightarrow>
        textInput (input_of input ''reasonNote'') ''reasonNote'' MAX_REASON_NOTE = Inr (ce_note c))"

definition left_out_kept :: "case_input \<Rightarrow> string \<Rightarrow> bool option \<Rightarrow> case_fields \<Rightarrow> case_fields \<Rightarrow> bool" where
  "left_out_kept input now reason ex c \<longleftrightarrow>
     (\<not> has input ''stage'' \<longrightarrow> ce_stage c = ce_stage ex) \<and> (\<not> has input ''reasonId'' \<longrightarrow> ce_reason c = ce_reason ex) \<and>
     (\<not> has input ''owner'' \<longrightarrow> ce_owner c = ce_owner ex) \<and> (\<not> has input ''rootCause'' \<longrightarrow> ce_root_cause c = ce_root_cause ex) \<and>
     (\<not> has input ''actionTaken'' \<longrightarrow> ce_action c = ce_action ex) \<and> (\<not> has input ''notes'' \<longrightarrow> ce_notes c = ce_notes ex) \<and>
     (\<not> has input ''contactedAt'' \<longrightarrow> ce_contacted c =
        (if ce_contacted ex = None \<and> ce_stage c \<noteq> ce_stage ex \<and> ce_stage c \<notin> {HISTORICAL, NEW, REJECTED} then Some now else ce_contacted ex)) \<and>
     (\<not> has input ''resolvedAt'' \<longrightarrow> ce_resolved c =
        (if ce_stage c \<noteq> RESOLVED then None else if ce_resolved ex = None then Some now else ce_resolved ex)) \<and>
     (\<not> has input ''reasonNote'' \<longrightarrow> ce_note c = (if ce_reason c = None \<or> reason = Some False then None else ce_note ex)) \<and>
     ce_rejected c = (if ce_stage c \<noteq> REJECTED then None else if ce_stage ex \<noteq> REJECTED \<or> ce_rejected ex = None then Some now else ce_rejected ex)"

lemma edit_stores_mentioned:
  assumes "applyEdit ex rated input now reason = Inr next'"
  shows "mentioned_stored input reason next'"
  using assms
proof (cases rule: applyEdit_Inr)
  case (1 n)
  note g = given_fields_Inr [OF 1(1)]
  have "ce_contacted next' = Some t" if "has input ''contactedAt''" "wallInput (input_of input ''contactedAt'') ''contactedAt'' = Inr (Some t)" for t
  proof -
    have "t \<noteq> []" using wallInput_Inr [OF that(2)] by simp
    moreover have "ce_contacted n = Some t" using g(5) that by (simp add: field_or_def)
    ultimately show ?thesis unfolding 1(5) by (simp add: contacted_after_def)
  qed
  moreover have "ce_resolved next' = Some t" if "has input ''resolvedAt''" "ce_stage next' = RESOLVED"
    "wallInput (input_of input ''resolvedAt'') ''resolvedAt'' = Inr (Some t)" for t
  proof -
    have "t \<noteq> []" using wallInput_Inr [OF that(3)] by simp
    moreover have "ce_resolved n = Some t" using g(6) that by (simp add: field_or_def)
    ultimately show ?thesis using that(2) unfolding 1(5) by (simp add: resolved_after_def)
  qed
  ultimately show ?thesis
    using g unfolding mentioned_stored_def by (auto simp: 1(5) field_or_def nextReasonId_def note_after_def)
qed

lemma edit_keeps_left_out:
  assumes "no_empty_time ex" "applyEdit ex rated input now reason = Inr next'"
  shows "left_out_kept input now reason ex next'"
  using assms(2)
proof (cases rule: applyEdit_Inr)
  case (1 n)
  note g = given_fields_Inr [OF 1(1)]
  have e: "given (ce_contacted ex) \<longleftrightarrow> ce_contacted ex \<noteq> None" "given (ce_resolved ex) \<longleftrightarrow> ce_resolved ex \<noteq> None"
    using assms(1) by (auto simp: no_empty_time_def given_ex)
  have s: "s \<in> set [CONTACTED, IN_PROGRESS, RESOLVED] \<longleftrightarrow> s \<notin> {HISTORICAL, NEW, REJECTED}" for s by (cases s) auto
  have "\<not> has input ''contactedAt'' \<longrightarrow> ce_contacted next' =
      (if ce_contacted ex = None \<and> ce_stage n \<noteq> ce_stage ex \<and> ce_stage n \<notin> {HISTORICAL, NEW, REJECTED} then Some now else ce_contacted ex)"
    using field_or_absent [OF g(5)] e(1) unfolding 1(5) by (simp add: contacted_after_def s del: set_simps)
  moreover have "\<not> has input ''resolvedAt'' \<longrightarrow> ce_resolved next' =
      (if ce_stage n \<noteq> RESOLVED then None else if ce_resolved ex = None then Some now else ce_resolved ex)"
    using field_or_absent [OF g(6)] e(2) unfolding 1(5) by (simp add: resolved_after_def)
  moreover have "\<not> has input ''reasonNote'' \<longrightarrow> ce_note next' = (if ce_reason n = None \<or> reason = Some False then None else ce_note ex)"
    using field_or_absent [OF g(3)] unfolding 1(5) by (simp add: note_after_def)
  moreover have "ce_rejected next' = (if ce_stage n \<noteq> REJECTED then None
      else if ce_stage ex \<noteq> REJECTED \<or> ce_rejected ex = None then Some now else ce_rejected ex)"
    unfolding 1(5) by (simp add: rejected_after_def split: option.split)
  moreover have "\<not> has input ''stage'' \<longrightarrow> ce_stage n = ce_stage ex" "\<not> has input ''reasonId'' \<longrightarrow> ce_reason n = ce_reason ex"
    "\<not> has input ''owner'' \<longrightarrow> ce_owner n = ce_owner ex" "\<not> has input ''rootCause'' \<longrightarrow> ce_root_cause n = ce_root_cause ex"
    "\<not> has input ''actionTaken'' \<longrightarrow> ce_action n = ce_action ex" "\<not> has input ''notes'' \<longrightarrow> ce_notes n = ce_notes ex"
    using field_or_absent [OF g(1)] nextReasonId_absent [OF g(2)] field_or_absent [OF g(4)] field_or_absent [OF g(7)]
      field_or_absent [OF g(8)] field_or_absent [OF g(9)] by blast+
  moreover have "ce_stage next' = ce_stage n" "ce_reason next' = ce_reason n" "ce_owner next' = ce_owner n"
    "ce_root_cause next' = ce_root_cause n" "ce_action next' = ce_action n" "ce_notes next' = ce_notes n" by (simp_all add: 1(5))
  ultimately show ?thesis unfolding left_out_kept_def by (simp only: simp_thms)
qed


section \<open>An example\<close>

definition example_fields :: case_fields where
  "example_fields = \<lparr>ce_stage = NEW, ce_reason = None, ce_note = None, ce_owner = Some ''Mona'', ce_contacted = None, ce_resolved = None,
     ce_rejected = None, ce_root_cause = None, ce_action = None, ce_notes = None\<rparr>"

definition resolve_input :: case_input where
  "resolve_input = [(''stage'', JStr ''resolved''), (''reasonId'', JNum (Fin 5)), (''notes'', JStr '' done '')]"


end
