(* ===== verification/Nps_Reasons.thy ===== *)
theory Nps_Reasons
  imports Nps_Case Sql_Like "HOL-Library.Product_Lexorder"
begin

text \<open>
  The two-level list of detractor reasons (\<open>backend/src/services/npsFollowupService.ts\<close>, \<open>listReasons\<close> to
  \<open>deleteReason\<close>): one row per sub-reason and one row without a sub-reason per category. The services map
  the follow-up tables to the new tables or an error; row numbers come from a counter the database never
  turns back. Parameters: \<open>collate\<close>, the sort keys of the text columns; \<open>same\<close>, when that collation takes
  two characters for one; \<open>nfkd\<close>, Unicode's normalisation; \<open>tx\<close>, the two display texts of the code that lie
  outside Latin-1.
\<close>

section \<open>Tables\<close>

record reason_row =
  rr_id :: int
  rr_key :: string
  rr_category :: string
  rr_category_en :: string
  rr_category_ar :: string
  rr_sub_en :: "string option"
  rr_sub_ar :: "string option"
  rr_category_sort :: int
  rr_sort :: int
  rr_requires_note :: bool
  rr_active :: bool
  rr_updated_by :: int

text \<open>\<open>fa_by\<close> is \<open>None\<close> for the rows the nightly refresh of the cases writes.\<close>

record followup_audit =
  fa_case :: int
  fa_by :: "int option"
  fa_field :: string
  fa_old :: "string option"
  fa_new :: "string option"

record followup_db =
  fu_cases :: "followup_case list"
  fu_reasons :: "reason_row list"
  fu_reason_seq :: int
  fu_audit :: "followup_audit list"
  fu_users :: "(int \<times> string) list"

section \<open>The list\<close>

record display_texts =
  tx_arrow :: string
  tx_not_specified_ar :: string

definition reasonLabel :: "display_texts \<Rightarrow> string option \<Rightarrow> string option \<Rightarrow> bool \<Rightarrow> string \<Rightarrow> string option" where
  "reasonLabel tx category sub requiresNote notSpecified =
     (case category of None \<Rightarrow> None
      | Some c \<Rightarrow> if c = [] then None
          else case sub of
              Some s \<Rightarrow> if s \<noteq> [] then Some (c @ tx_arrow tx @ s) else if requiresNote then Some c else Some (c @ tx_arrow tx @ notSpecified)
            | None \<Rightarrow> if requiresNote then Some c else Some (c @ tx_arrow tx @ notSpecified))"

record reason_view =
  rv_row :: reason_row
  rv_category_active :: bool
  rv_pickable :: bool
  rv_label_en :: "string option"
  rv_label_ar :: "string option"
  rv_usage :: nat

definition category_active :: "(string \<Rightarrow> string) \<Rightarrow> followup_db \<Rightarrow> reason_row \<Rightarrow> bool" where
  "category_active collate db r =
     (case List.find (\<lambda>k. collate (rr_key k) = collate (rr_category r)) (fu_reasons db) of None \<Rightarrow> True | Some k \<Rightarrow> rr_active k)"

definition reason_usage :: "followup_db \<Rightarrow> int \<Rightarrow> nat" where
  "reason_usage db i = length (filter (\<lambda>c. ce_reason (fc_fields c) = Some i) (fu_cases db))"

definition reason_view_of :: "display_texts \<Rightarrow> (string \<Rightarrow> string) \<Rightarrow> followup_db \<Rightarrow> reason_row \<Rightarrow> reason_view" where
  "reason_view_of tx collate db r =
     \<lparr>rv_row = r, rv_category_active = category_active collate db r,
      rv_pickable = (rr_active r \<and> category_active collate db r \<and> (rr_sub_en r \<noteq> None \<or> rr_requires_note r)),
      rv_label_en = reasonLabel tx (Some (rr_category_en r)) (rr_sub_en r) (rr_requires_note r) ''Not specified'',
      rv_label_ar = reasonLabel tx (Some (rr_category_ar r)) (rr_sub_ar r) (rr_requires_note r) (tx_not_specified_ar tx),
      rv_usage = reason_usage db (rr_id r)\<rparr>"

text \<open>\<open>ORDER BY category_sort, category_key, sub_reason_en IS NOT NULL, sort_order, sub_reason_en\<close>\<close>

definition reason_order :: "(string \<Rightarrow> string) \<Rightarrow> reason_row \<Rightarrow> int \<times> string \<times> bool \<times> int \<times> string" where
  "reason_order collate r = (rr_category_sort r, collate (rr_category r), rr_sub_en r \<noteq> None, rr_sort r,
     case rr_sub_en r of None \<Rightarrow> [] | Some s \<Rightarrow> collate s)"

definition listReasons :: "display_texts \<Rightarrow> (string \<Rightarrow> string) \<Rightarrow> followup_db \<Rightarrow> int list \<Rightarrow> reason_view list" where
  "listReasons tx collate db ids =
     map (reason_view_of tx collate db)
       (sort_key (reason_order collate) (filter (\<lambda>r. ids = [] \<or> rr_id r \<in> set ids) (fu_reasons db)))"

section \<open>Keys\<close>

definition slug_char :: "char \<Rightarrow> bool" where
  "slug_char c = (is_lower c \<or> is_digit c)"

text \<open>\<open>s.replace(/[^a-z0-9]+/g, '_')\<close>\<close>

fun slug_runs :: "string \<Rightarrow> string" where
  "slug_runs [] = []"
| "slug_runs [c] = [if slug_char c then c else CHR ''_'']"
| "slug_runs (c # d # s) =
     (if slug_char c then c # slug_runs (d # s)
      else if slug_char d then CHR ''_'' # slug_runs (d # s)
      else slug_runs (d # s))"

definition trim_underscores :: "string \<Rightarrow> string" where
  "trim_underscores s = rev (dropWhile (\<lambda>c. c = CHR ''_'') (rev (dropWhile (\<lambda>c. c = CHR ''_'') s)))"

definition slugOf :: "(string \<Rightarrow> string) \<Rightarrow> string \<Rightarrow> string" where
  "slugOf nfkd name =
     (let s = take 30 (trim_underscores (slug_runs (nfkd (to_lower name)))) in if s = [] then ''reason'' else s)"

definition numbered_key :: "string \<Rightarrow> nat \<Rightarrow> string" where
  "numbered_key wanted i = wanted @ ''_'' @ dec_digits i"

lemma numbered_key_inject [simp]: "numbered_key w i = numbered_key w j \<longleftrightarrow> i = j"
  by (metis dec_val_dec_digits append_same_eq numbered_key_def same_append_eq)

lemma finite_taken_numbers: "finite {j. numbered_key w j \<in> set taken}"
proof -
  have "inj_on (numbered_key w) {j. numbered_key w j \<in> set taken}" by (auto intro: inj_onI)
  then show ?thesis by (rule finite_imageD [rotated]) (auto intro: finite_subset [of _ "set taken"])
qed

text \<open>The unbounded search \<open>for (let i = 2; ; i += 1)\<close> of a number not yet taken.\<close>

function free_number :: "string list \<Rightarrow> string \<Rightarrow> nat \<Rightarrow> string" where
  "free_number taken wanted i =
     (if numbered_key wanted i \<in> set taken then free_number taken wanted (i + 1) else numbered_key wanted i)"
  by pat_completeness auto

termination
proof (relation "measure (\<lambda>(taken, wanted, i). card {j. i \<le> j \<and> numbered_key wanted j \<in> set taken})")
  fix taken wanted i
  assume t: "numbered_key wanted i \<in> set taken"
  have "i \<in> {j. i \<le> j \<and> numbered_key wanted j \<in> set taken}" "i \<notin> {j. i + 1 \<le> j \<and> numbered_key wanted j \<in> set taken}"
    "{j. i + 1 \<le> j \<and> numbered_key wanted j \<in> set taken} \<subseteq> {j. i \<le> j \<and> numbered_key wanted j \<in> set taken}"
    using t by auto
  then have "{j. i + 1 \<le> j \<and> numbered_key wanted j \<in> set taken} \<subset> {j. i \<le> j \<and> numbered_key wanted j \<in> set taken}" by blast
  moreover have "finite {j. i \<le> j \<and> numbered_key wanted j \<in> set taken}"
    by (rule finite_subset [OF _ finite_taken_numbers [of wanted taken]]) auto
  ultimately show "((taken, wanted, i + 1), taken, wanted, i) \<in> measure (\<lambda>(taken, wanted, i). card {j. i \<le> j \<and> numbered_key wanted j \<in> set taken})"
    by (simp add: psubset_card_mono)
qed simp

declare free_number.simps [simp del]

definition taken_keys :: "(string \<Rightarrow> string) \<Rightarrow> (char \<Rightarrow> char \<Rightarrow> bool) \<Rightarrow> followup_db \<Rightarrow> string \<Rightarrow> string list" where
  "taken_keys collate same db wanted =
     map rr_key (filter (\<lambda>r. collate (rr_key r) = collate wanted \<or> like same (wanted @ [CHR 0x5C, CHR ''_'', CHR ''%'']) (rr_key r)) (fu_reasons db))"

definition freeKey :: "(string \<Rightarrow> string) \<Rightarrow> (char \<Rightarrow> char \<Rightarrow> bool) \<Rightarrow> followup_db \<Rightarrow> string \<Rightarrow> string" where
  "freeKey collate same db wanted =
     (let taken = taken_keys collate same db wanted in
      if wanted \<notin> set taken then wanted else free_number taken wanted 2)"

section \<open>Operations\<close>

type_synonym reason_input = "(string \<times> jsval) list"

definition reasonName :: "jsval \<Rightarrow> string \<Rightarrow> followup_error + string" where
  "reasonName v field =
     (let s = trim (if nullish v then [] else to_string v) in
      rbind (ensure (s \<noteq> []) (Invalid (''reason.'' @ field))) (\<lambda>_.
      rbind (ensure (length s \<le> 100) (Invalid (''reason.'' @ field))) (\<lambda>_. Inr s)))"

definition sortInput :: "jsval \<Rightarrow> int \<Rightarrow> followup_error + int" where
  "sortInput v fallback =
     (case as_integer (if v = JUndef \<or> v = JStr [] \<or> v = JNull then Fin (of_int fallback) else to_number v) of
        None \<Rightarrow> Inl (Invalid ''reason.sortOrder'') | Some n \<Rightarrow> Inr n)"

definition next_sort :: "int list \<Rightarrow> int" where
  "next_sort ns = fold max ns 0 + 1"

text \<open>The unique key of the table refuses a key that the collation takes for a present one.\<close>

definition insert_reason :: "(string \<Rightarrow> string) \<Rightarrow> reason_row \<Rightarrow> followup_db \<Rightarrow> followup_error + (followup_db \<times> int)" where
  "insert_reason collate row db =
     (if list_ex (\<lambda>r. collate (rr_key r) = collate (rr_key row)) (fu_reasons db) then Inl Database_refusal
      else Inr (db\<lparr>fu_reasons := fu_reasons db @ [row\<lparr>rr_id := fu_reason_seq db\<rparr>], fu_reason_seq := fu_reason_seq db + 1\<rparr>, fu_reason_seq db))"

definition is_active_input :: "reason_input \<Rightarrow> bool" where
  "is_active_input input = (let v = input_of input ''isActive'' in v = JUndef \<or> truthy v)"

definition sub_reason_row :: "reason_row \<Rightarrow> string \<Rightarrow> string \<Rightarrow> string \<Rightarrow> int \<Rightarrow> bool \<Rightarrow> int \<Rightarrow> reason_row" where
  "sub_reason_row category key en ar sort_order active actor =
     \<lparr>rr_id = 0, rr_key = key, rr_category = rr_category category, rr_category_en = rr_category_en category,
      rr_category_ar = rr_category_ar category, rr_sub_en = Some en, rr_sub_ar = Some ar, rr_category_sort = rr_category_sort category,
      rr_sort = sort_order, rr_requires_note = False, rr_active = active, rr_updated_by = actor\<rparr>"

definition create_sub_reason ::
  "(string \<Rightarrow> string) \<Rightarrow> (char \<Rightarrow> char \<Rightarrow> bool) \<Rightarrow> (string \<Rightarrow> string) \<Rightarrow> reason_row list \<Rightarrow> reason_input \<Rightarrow> int \<Rightarrow> followup_db \<Rightarrow>
   followup_error + (followup_db \<times> int)" where
  "create_sub_reason collate same nfkd rows input actor db =
     (case List.find (\<lambda>r. rr_sub_en r = None \<and> rr_category r = to_string (input_of input ''categoryKey'')) rows of
        None \<Rightarrow> Inl (Invalid ''reason.categoryKey'')
      | Some k \<Rightarrow>
          rbind (ensure (\<not> rr_requires_note k) (Invalid ''reason.categoryKey'')) (\<lambda>_.
          rbind (reasonName (input_of input ''subReasonEn'') ''subReasonEn'') (\<lambda>subEn.
          rbind (reasonName (input_of input ''subReasonAr'') ''subReasonAr'') (\<lambda>subAr.
            let siblings = filter (\<lambda>r. rr_category r = rr_category k \<and> rr_sub_en r \<noteq> None) rows in
          rbind (ensure (\<not> list_ex (\<lambda>r. map_option to_lower (rr_sub_en r) = Some (to_lower subEn)) siblings) (Invalid ''reason.duplicate'')) (\<lambda>_.
          rbind (sortInput (input_of input ''sortOrder'') (next_sort (map rr_sort siblings))) (\<lambda>sortOrder.
          insert_reason collate (sub_reason_row k (freeKey collate same db (rr_category k @ ''.'' @ slugOf nfkd subEn)) subEn subAr
            sortOrder (is_active_input input) actor) db))))))"

definition category_row :: "string \<Rightarrow> string \<Rightarrow> string \<Rightarrow> int \<Rightarrow> bool \<Rightarrow> int \<Rightarrow> reason_row" where
  "category_row key en ar sort_order active actor =
     \<lparr>rr_id = 0, rr_key = key, rr_category = key, rr_category_en = en, rr_category_ar = ar, rr_sub_en = None, rr_sub_ar = None,
      rr_category_sort = sort_order, rr_sort = 0, rr_requires_note = False, rr_active = active, rr_updated_by = actor\<rparr>"

definition create_category ::
  "(string \<Rightarrow> string) \<Rightarrow> (char \<Rightarrow> char \<Rightarrow> bool) \<Rightarrow> (string \<Rightarrow> string) \<Rightarrow> reason_row list \<Rightarrow> reason_input \<Rightarrow> int \<Rightarrow> followup_db \<Rightarrow>
   followup_error + (followup_db \<times> int)" where
  "create_category collate same nfkd rows input actor db =
     rbind (reasonName (input_of input ''categoryEn'') ''categoryEn'') (\<lambda>catEn.
     rbind (reasonName (input_of input ''categoryAr'') ''categoryAr'') (\<lambda>catAr.
     rbind (ensure (\<not> list_ex (\<lambda>r. rr_sub_en r = None \<and> to_lower (rr_category_en r) = to_lower catEn) rows) (Invalid ''reason.duplicate'')) (\<lambda>_.
       let key = freeKey collate same db (slugOf nfkd catEn) in
     rbind (sortInput (input_of input ''sortOrder'') (next_sort (map rr_category_sort rows))) (\<lambda>categorySort.
     insert_reason collate (category_row key catEn catAr categorySort (is_active_input input) actor) db))))"

definition createReason ::
  "display_texts \<Rightarrow> (string \<Rightarrow> string) \<Rightarrow> (char \<Rightarrow> char \<Rightarrow> bool) \<Rightarrow> (string \<Rightarrow> string) \<Rightarrow> reason_input \<Rightarrow> int \<Rightarrow> followup_db \<Rightarrow>
   followup_error + (followup_db \<times> int)" where
  "createReason tx collate same nfkd input actor db =
     (let rows = map rv_row (listReasons tx collate db []); category = input_of input ''categoryKey'' in
      if \<not> nullish category \<and> category \<noteq> JStr [] then create_sub_reason collate same nfkd rows input actor db
      else create_category collate same nfkd rows input actor db)"

definition name_or :: "reason_input \<Rightarrow> string \<Rightarrow> string \<Rightarrow> followup_error + string" where
  "name_or input k old = (if input_of input k = JUndef then Inr old else reasonName (input_of input k) k)"

text \<open>Renaming a sub-reason reads its old Arabic name as text when the request leaves it out.\<close>

definition updateReason ::
  "display_texts \<Rightarrow> (string \<Rightarrow> string) \<Rightarrow> int \<Rightarrow> reason_input \<Rightarrow> int \<Rightarrow> followup_db \<Rightarrow> followup_error + followup_db" where
  "updateReason tx collate i input actor db =
     (let rows = map rv_row (listReasons tx collate db []) in
      case List.find (\<lambda>r. rr_id r = i) rows of
        None \<Rightarrow> Inl (Invalid ''reason.notFound'')
      | Some existing \<Rightarrow>
          let isActive = (let v = input_of input ''isActive'' in if v = JUndef then rr_active existing else truthy v) in
          (case rr_sub_en existing of
             None \<Rightarrow>
               rbind (name_or input ''categoryEn'' (rr_category_en existing)) (\<lambda>catEn.
               rbind (name_or input ''categoryAr'' (rr_category_ar existing)) (\<lambda>catAr.
               rbind (ensure (\<not> list_ex (\<lambda>r. rr_sub_en r = None \<and> rr_id r \<noteq> i \<and> to_lower (rr_category_en r) = to_lower catEn) rows)
                 (Invalid ''reason.duplicate'')) (\<lambda>_.
               rbind (sortInput (input_of input ''sortOrder'') (rr_category_sort existing)) (\<lambda>categorySort.
               Inr (db\<lparr>fu_reasons := update_where (\<lambda>r. rr_id r = i) (\<lambda>r. r\<lparr>rr_active := isActive\<rparr>)
                 (update_where (\<lambda>r. collate (rr_category r) = collate (rr_category existing))
                   (\<lambda>r. r\<lparr>rr_category_en := catEn, rr_category_ar := catAr, rr_category_sort := categorySort, rr_updated_by := actor\<rparr>)
                   (fu_reasons db))\<rparr>)))))
           | Some oldSub \<Rightarrow>
               rbind (name_or input ''subReasonEn'' oldSub) (\<lambda>subEn.
               rbind (if input_of input ''subReasonAr'' = JUndef then Inr (rr_sub_ar existing)
                 else map_sum id Some (reasonName (input_of input ''subReasonAr'') ''subReasonAr'')) (\<lambda>subAr.
               rbind (ensure (\<not> list_ex (\<lambda>r. rr_category r = rr_category existing \<and> rr_id r \<noteq> i \<and>
                   map_option to_lower (rr_sub_en r) = Some (to_lower subEn)) rows) (Invalid ''reason.duplicate'')) (\<lambda>_.
               rbind (sortInput (input_of input ''sortOrder'') (rr_sort existing)) (\<lambda>sortOrder.
               Inr (db\<lparr>fu_reasons := update_where (\<lambda>r. rr_id r = i)
                 (\<lambda>r. r\<lparr>rr_sub_en := Some subEn, rr_sub_ar := subAr, rr_sort := sortOrder, rr_active := isActive, rr_updated_by := actor\<rparr>)
                 (fu_reasons db)\<rparr>)))))))"

definition deleteReason :: "display_texts \<Rightarrow> (string \<Rightarrow> string) \<Rightarrow> int \<Rightarrow> followup_db \<Rightarrow> followup_error + followup_db" where
  "deleteReason tx collate i db =
     (let views = listReasons tx collate db [] in
      case List.find (\<lambda>v. rr_id (rv_row v) = i) views of
        None \<Rightarrow> Inl (Invalid ''reason.notFound'')
      | Some existing \<Rightarrow>
          rbind (ensure (\<not> rv_usage existing > 0) (Invalid ''reason.inUse'')) (\<lambda>_.
          rbind (ensure (\<not> (rr_sub_en (rv_row existing) = None \<and>
              list_ex (\<lambda>v. rr_category (rv_row v) = rr_category (rv_row existing) \<and> rr_id (rv_row v) \<noteq> i) views)) (Invalid ''reason.hasSubReasons'')) (\<lambda>_.
          Inr (db\<lparr>fu_reasons := delete_where (\<lambda>r. rr_id r = i) (fu_reasons db)\<rparr>))))"

section \<open>Free keys\<close>

definition key_char :: "char \<Rightarrow> bool" where
  "key_char c = (slug_char c \<or> c = CHR ''_'' \<or> c = CHR ''.'')"

definition plain_key :: "string \<Rightarrow> bool" where
  "plain_key s = (s \<noteq> [] \<and> list_all key_char s)"

lemma free_number_least:
  "\<exists>k \<ge> i. free_number taken w i = numbered_key w k \<and> numbered_key w k \<notin> set taken \<and>
     (\<forall>j. i \<le> j \<and> j < k \<longrightarrow> numbered_key w j \<in> set taken)"
proof (induction taken w i rule: free_number.induct)
  case (1 taken w i)
  show ?case
  proof (cases "numbered_key w i \<in> set taken")
    case True
    from "1.IH" [OF this] obtain k where k: "i + 1 \<le> k" "free_number taken w (i + 1) = numbered_key w k" "numbered_key w k \<notin> set taken"
      "\<forall>j. i + 1 \<le> j \<and> j < k \<longrightarrow> numbered_key w j \<in> set taken" by blast
    have "numbered_key w j \<in> set taken" if "i \<le> j \<and> j < k" for j
      using that True k(4) by (cases "j = i") auto
    then show ?thesis using True k(1-3) free_number.simps [of taken w i] by (intro exI [of _ k]) auto
  next
    case False
    then show ?thesis using free_number.simps [of taken w i] by auto
  qed
qed

lemma like_numbered:
  assumes refl: "reflp same" and "list_all key_char w"
  shows "like same (w @ [CHR 0x5C, CHR ''_'', CHR ''%'']) (w @ CHR ''_'' # t)"
  using assms(2)
proof (induction w)
  case Nil
  have "same (CHR ''_'') (CHR ''_'')" using refl by (rule reflpD)
  then show ?case by simp
next
  case (Cons c w)
  have c: "c \<noteq> CHR ''%''" "c \<noteq> CHR 0x5C" using Cons.prems by (auto simp: key_char_def slug_char_def is_lower_def is_digit_def code_of_def)
  obtain e ps where "w @ [CHR 0x5C, CHR ''_'', CHR ''%''] = e # ps" by (cases "w @ [CHR 0x5C, CHR ''_'', CHR ''%'']") auto
  moreover have "same c c" using refl by (rule reflpD)
  ultimately show ?case using Cons c by simp
qed

lemma freeKey_least:
  assumes "reflp same" and "plain_key wanted"
  shows "freeKey collate same db wanted \<notin> rr_key ` set (fu_reasons db) \<and>
    (wanted \<notin> rr_key ` set (fu_reasons db) \<longrightarrow> freeKey collate same db wanted = wanted) \<and>
    (wanted \<in> rr_key ` set (fu_reasons db) \<longrightarrow> (\<exists>k \<ge> 2. freeKey collate same db wanted = wanted @ ''_'' @ dec_digits k \<and>
       (\<forall>j. 2 \<le> j \<and> j < k \<longrightarrow> wanted @ ''_'' @ dec_digits j \<in> rr_key ` set (fu_reasons db))))"
proof -
  let ?taken = "set (taken_keys collate same db wanted)"
  have sub: "?taken \<subseteq> rr_key ` set (fu_reasons db)" by (auto simp: taken_keys_def)
  have own: "wanted \<in> ?taken \<longleftrightarrow> wanted \<in> rr_key ` set (fu_reasons db)" by (auto simp: taken_keys_def)
  have num: "numbered_key wanted j \<in> ?taken \<longleftrightarrow> numbered_key wanted j \<in> rr_key ` set (fu_reasons db)" for j
  proof -
    have "like same (wanted @ [CHR 0x5C, CHR ''_'', CHR ''%'']) (numbered_key wanted j)"
      using like_numbered [of same wanted] assms by (simp add: plain_key_def numbered_key_def)
    then show ?thesis by (auto simp: taken_keys_def)
  qed
  show ?thesis
    using free_number_least [of 2 "taken_keys collate same db wanted" wanted] own
    unfolding freeKey_def Let_def num by (auto simp: numbered_key_def)
qed

text \<open>The search for a free key always ends: the key it gives belongs to no reason, it is the wanted one
when that is free and otherwise the wanted one with the least free number from 2.\<close>

theorem free_key_found:
  assumes "reflp same" and "plain_key wanted"
  shows "freeKey collate same db wanted \<notin> rr_key ` set (fu_reasons db) \<and>
    (wanted \<notin> rr_key ` set (fu_reasons db) \<longrightarrow> freeKey collate same db wanted = wanted) \<and>
    (wanted \<in> rr_key ` set (fu_reasons db) \<longrightarrow> (\<exists>k \<ge> 2. freeKey collate same db wanted = wanted @ ''_'' @ dec_digits k \<and>
       (\<forall>j. 2 \<le> j \<and> j < k \<longrightarrow> wanted @ ''_'' @ dec_digits j \<in> rr_key ` set (fu_reasons db))))"
  using assms by (rule freeKey_least)

lemma plain_numbered: "plain_key w \<Longrightarrow> plain_key (w @ ''_'' @ dec_digits k)"
  using dec_digits_digits [of k] by (auto simp: plain_key_def key_char_def slug_char_def list_all_iff)

lemma plain_slug: "plain_key (slugOf nfkd name)"
proof -
  have runs: "list_all key_char (slug_runs s)" for s by (induction s rule: slug_runs.induct) (auto simp: key_char_def)
  have "set (trim_underscores s) \<subseteq> set s" for s unfolding trim_underscores_def by (metis set_dropWhileD set_rev subsetI)
  then have "set (take 30 (trim_underscores (slug_runs s))) \<subseteq> set (slug_runs s)" for s
    using set_take_subset by (rule order_trans [rotated])
  then have "list_all key_char (take 30 (trim_underscores (slug_runs s)))" for s
    using runs [of s] unfolding list_all_iff by blast
  moreover have "list_all key_char ''reason''" by code_simp
  ultimately show ?thesis by (simp add: slugOf_def Let_def plain_key_def)
qed

lemma plain_sub_key: "plain_key k \<Longrightarrow> plain_key w \<Longrightarrow> plain_key (k @ ''.'' @ w)"
  by (simp add: plain_key_def key_char_def)

lemma freeKey_plain: "reflp same \<Longrightarrow> plain_key wanted \<Longrightarrow> plain_key (freeKey collate same db wanted)"
  using freeKey_least [of same wanted collate db] plain_numbered [of wanted]
  by (cases "wanted \<in> rr_key ` set (fu_reasons db)") (simp, elim exE conjE, simp, simp)

section \<open>The rules of the list\<close>

definition same_category :: "reason_row \<Rightarrow> reason_row \<Rightarrow> bool" where
  "same_category k r \<longleftrightarrow> rr_category k = rr_category r \<and> rr_category_en k = rr_category_en r \<and>
     rr_category_ar k = rr_category_ar r \<and> rr_category_sort k = rr_category_sort r"

definition names_unique :: "reason_row \<Rightarrow> reason_row \<Rightarrow> bool" where
  "names_unique r s \<longleftrightarrow> rr_id r \<noteq> rr_id s \<longrightarrow>
     (rr_sub_en r = None \<longrightarrow> rr_sub_en s = None \<longrightarrow> to_lower (rr_category_en r) \<noteq> to_lower (rr_category_en s)) \<and>
     (rr_category r = rr_category s \<longrightarrow> rr_sub_en r \<noteq> None \<longrightarrow> map_option to_lower (rr_sub_en r) \<noteq> map_option to_lower (rr_sub_en s))"

definition row_ok :: "reason_row set \<Rightarrow> reason_row \<Rightarrow> bool" where
  "row_ok R r \<longleftrightarrow> plain_key (rr_key r) \<and> plain_key (rr_category r) \<and> (rr_sub_en r = None \<longrightarrow> rr_key r = rr_category r) \<and>
     rr_category_en r \<noteq> [] \<and> rr_sub_en r \<noteq> Some [] \<and> (\<exists>k \<in> R. rr_sub_en k = None \<and> same_category k r) \<and>
     (rr_requires_note r \<longrightarrow> rr_sub_en r = None \<and> (\<forall>s \<in> R. rr_category s = rr_category r \<longrightarrow> s = r)) \<and> (\<forall>s \<in> R. names_unique r s)"

definition reasons_ok :: "followup_db \<Rightarrow> bool" where
  "reasons_ok db \<longleftrightarrow> distinct (map rr_id (fu_reasons db)) \<and> (\<forall>r \<in> set (fu_reasons db). rr_id r < fu_reason_seq db) \<and>
     distinct (map rr_key (fu_reasons db)) \<and> (\<forall>r \<in> set (fu_reasons db). row_ok (set (fu_reasons db)) r) \<and>
     (\<forall>c \<in> set (fu_cases db). \<forall>i \<in> set_option (ce_reason (fc_fields c)). i \<in> rr_id ` set (fu_reasons db))"

lemma rows_listReasons [simp]: "rv_row ` set (listReasons tx collate db []) = set (fu_reasons db)"
  by (simp add: listReasons_def reason_view_of_def image_image)

lemma find_row:
  assumes "List.find P (map rv_row (listReasons tx collate db [])) = Some r"
  shows "r \<in> set (fu_reasons db)" "P r"
  using find_SomeD [OF assms] by simp_all

lemma reasonName_Inr [rule_facts]: "reasonName v f = Inr n \<Longrightarrow> n \<noteq> [] \<and> length n \<le> 100 \<and> trim n = n"
  by (auto simp: reasonName_def Let_def rbind_eq_Inr ensure_eq_Inr)

lemma insert_ok:
  assumes ok: "reasons_ok db" and i: "insert_reason collate row db = Inr (db', i)"
    and new: "rr_key row \<notin> rr_key ` set (fu_reasons db)"
    and row: "\<And>R. R = insert (row\<lparr>rr_id := fu_reason_seq db\<rparr>) (set (fu_reasons db)) \<Longrightarrow> row_ok R (row\<lparr>rr_id := fu_reason_seq db\<rparr>)"
    and others: "\<And>r. r \<in> set (fu_reasons db) \<Longrightarrow> rr_requires_note r \<Longrightarrow> rr_category r \<noteq> rr_category row"
  shows "reasons_ok db'"
proof -
  let ?row = "row\<lparr>rr_id := fu_reason_seq db\<rparr>"
  let ?R = "insert ?row (set (fu_reasons db))"
  have rows: "set (fu_reasons db') = ?R" "fu_reasons db' = fu_reasons db @ [?row]" and cases: "fu_cases db' = fu_cases db"
    and seq: "fu_reason_seq db' = fu_reason_seq db + 1"
    using i by (auto simp: insert_reason_def split: if_splits)
  have sym: "names_unique r s \<longleftrightarrow> names_unique s r" for r s
    by (cases "rr_sub_en r"; cases "rr_sub_en s") (auto simp: names_unique_def)
  have "row_ok ?R r" if "r \<in> set (fu_reasons db)" for r
  proof -
    have r: "row_ok (set (fu_reasons db)) r" using ok that by (simp add: reasons_ok_def)
    moreover have "names_unique r ?row" using row [OF refl] that sym by (simp add: row_ok_def)
    ultimately show ?thesis using others [OF that] unfolding row_ok_def by auto
  qed
  then have "\<forall>r \<in> ?R. row_ok ?R r" using row [OF refl] by blast
  moreover have "distinct (map rr_id (fu_reasons db @ [?row]))" "\<forall>r \<in> ?R. rr_id r < fu_reason_seq db + 1"
    using ok by (fastforce simp: reasons_ok_def)+
  moreover have "distinct (map rr_key (fu_reasons db @ [?row]))" using ok new by (auto simp: reasons_ok_def)
  moreover have "\<forall>c \<in> set (fu_cases db). \<forall>i \<in> set_option (ce_reason (fc_fields c)). i \<in> rr_id ` ?R" using ok by (auto simp: reasons_ok_def)
  ultimately show ?thesis unfolding reasons_ok_def rows(1) cases seq unfolding rows(2) by blast
qed

lemma create_sub_reason_Inr:
  assumes "create_sub_reason collate same nfkd rows input actor db = Inr x"
  obtains k subEn subAr so where "k \<in> set rows" "rr_sub_en k = None" "\<not> rr_requires_note k" "subEn \<noteq> []"
    "\<And>r. r \<in> set rows \<Longrightarrow> rr_category r = rr_category k \<Longrightarrow> map_option to_lower (rr_sub_en r) \<noteq> Some (to_lower subEn)"
    "insert_reason collate (sub_reason_row k (freeKey collate same db (rr_category k @ ''.'' @ slugOf nfkd subEn)) subEn subAr
       so (is_active_input input) actor) db = Inr x"
proof (cases "List.find (\<lambda>r. rr_sub_en r = None \<and> rr_category r = to_string (input_of input ''categoryKey'')) rows")
  case None
  then show ?thesis using assms by (simp add: create_sub_reason_def)
next
  case (Some k)
  show ?thesis
    using assms find_SomeD [OF Some]
    unfolding create_sub_reason_def Some option.case Let_def rbind_eq_Inr ensure_eq_Inr list_ex_iff
    apply (elim exE conjE)
    subgoal for a subEn subAr b so
      by (rule that [of k subEn subAr so]) (use reasonName_Inr in auto)
    done
qed

lemma create_category_Inr:
  assumes "create_category collate same nfkd rows input actor db = Inr x"
  obtains catEn catAr so where "catEn \<noteq> []"
    "\<And>r. r \<in> set rows \<Longrightarrow> rr_sub_en r = None \<Longrightarrow> to_lower (rr_category_en r) \<noteq> to_lower catEn"
    "insert_reason collate (category_row (freeKey collate same db (slugOf nfkd catEn)) catEn catAr so (is_active_input input) actor) db = Inr x"
  using assms unfolding create_category_def Let_def rbind_eq_Inr ensure_eq_Inr list_ex_iff
  by (elim exE conjE) (drule reasonName_Inr, blast)

lemma category_row_fields [simp]:
  "rr_key (category_row key en ar n a actor) = key" "rr_category (category_row key en ar n a actor) = key"
  "rr_category_en (category_row key en ar n a actor) = en" "rr_category_ar (category_row key en ar n a actor) = ar"
  "rr_category_sort (category_row key en ar n a actor) = n" "rr_sub_en (category_row key en ar n a actor) = None"
  "\<not> rr_requires_note (category_row key en ar n a actor)"
  by (simp_all add: category_row_def)

lemma sub_reason_row_fields [simp]:
  "rr_key (sub_reason_row k key en ar n a actor) = key" "rr_category (sub_reason_row k key en ar n a actor) = rr_category k"
  "rr_category_en (sub_reason_row k key en ar n a actor) = rr_category_en k" "rr_category_ar (sub_reason_row k key en ar n a actor) = rr_category_ar k"
  "rr_category_sort (sub_reason_row k key en ar n a actor) = rr_category_sort k" "rr_sub_en (sub_reason_row k key en ar n a actor) = Some en"
  "\<not> rr_requires_note (sub_reason_row k key en ar n a actor)"
  by (simp_all add: sub_reason_row_def)

lemma create_sub_reason_ok:
  assumes ok: "reasons_ok db" and refl: "reflp same" and rows: "set rows = set (fu_reasons db)"
    and c: "create_sub_reason collate same nfkd rows input actor db = Inr (db', i)"
  shows "reasons_ok db'"
  using c
proof (cases rule: create_sub_reason_Inr)
  case (1 k subEn subAr so)
  let ?wanted = "rr_category k @ ''.'' @ slugOf nfkd subEn"
  define key where "key = freeKey collate same db ?wanted"
  have kok: "row_ok (set (fu_reasons db)) k" using ok 1(1) rows by (simp add: reasons_ok_def)
  have plain: "plain_key ?wanted" using kok plain_slug plain_sub_key by (simp add: row_ok_def)
  have key: "key \<notin> rr_key ` set (fu_reasons db)" "plain_key key"
    using freeKey_least [OF refl plain] freeKey_plain [OF refl plain] unfolding key_def by blast+
  have alone: "rr_category r \<noteq> rr_category k" if "r \<in> set (fu_reasons db)" "rr_requires_note r" for r
    using ok that 1(1,3) rows unfolding reasons_ok_def row_ok_def by metis
  have fresh_name: "Some (to_lower subEn) \<noteq> map_option to_lower (rr_sub_en r)"
    if "r \<in> set (fu_reasons db)" "rr_category k = rr_category r" for r
    using 1(5) [of r] that rows by metis
  have category: "plain_key (rr_category k) \<and> rr_category_en k \<noteq> []" using kok by (simp add: row_ok_def)
  show ?thesis
  proof (rule insert_ok [OF ok 1(6) [folded key_def]])
    fix R
    assume R: "R = insert (sub_reason_row k key subEn subAr so (is_active_input input) actor\<lparr>rr_id := fu_reason_seq db\<rparr>) (set (fu_reasons db))"
    show "row_ok R (sub_reason_row k key subEn subAr so (is_active_input input) actor\<lparr>rr_id := fu_reason_seq db\<rparr>)"
      unfolding row_ok_def R using 1(1,2,4) rows key(2) category fresh_name by (auto simp: same_category_def names_unique_def)
  qed (use key(1) alone in simp_all)
qed

lemma create_category_ok:
  assumes ok: "reasons_ok db" and refl: "reflp same" and rows: "set rows = set (fu_reasons db)"
    and c: "create_category collate same nfkd rows input actor db = Inr (db', i)"
  shows "reasons_ok db'"
  using c
proof (cases rule: create_category_Inr)
  case (1 catEn catAr so)
  define key where "key = freeKey collate same db (slugOf nfkd catEn)"
  have key: "key \<notin> rr_key ` set (fu_reasons db)" "plain_key key"
    using freeKey_least [OF refl plain_slug] freeKey_plain [OF refl plain_slug] unfolding key_def by blast+
  have none: "rr_category r \<noteq> key" if "r \<in> set (fu_reasons db)" for r
  proof -
    have "row_ok (set (fu_reasons db)) r" using ok that by (simp add: reasons_ok_def)
    then obtain k where k: "k \<in> set (fu_reasons db)" "rr_sub_en k = None" "rr_category k = rr_category r"
      unfolding row_ok_def same_category_def by blast
    then have "rr_key k = rr_category r" using ok by (simp add: reasons_ok_def row_ok_def)
    then show ?thesis using key(1) k(1) by (metis imageI)
  qed
  have fresh_name: "to_lower catEn \<noteq> to_lower (rr_category_en r)" if "r \<in> set (fu_reasons db)" "rr_sub_en r = None" for r
    using 1(2) [of r] that rows by simp
  show ?thesis
  proof (rule insert_ok [OF ok 1(3) [folded key_def]])
    fix R
    assume R: "R = insert (category_row key catEn catAr so (is_active_input input) actor\<lparr>rr_id := fu_reason_seq db\<rparr>) (set (fu_reasons db))"
    show "row_ok R (category_row key catEn catAr so (is_active_input input) actor\<lparr>rr_id := fu_reason_seq db\<rparr>)"
      unfolding row_ok_def R using 1(1) key(2) none fresh_name by (auto simp: same_category_def names_unique_def)
  qed (use key(1) none in simp_all)
qed

lemma row_okD: "reasons_ok db \<Longrightarrow> r \<in> set (fu_reasons db) \<Longrightarrow> row_ok (set (fu_reasons db)) r"
  by (simp add: reasons_ok_def)

lemma rows_inject:
  assumes "reasons_ok db" "r \<in> set (fu_reasons db)" "s \<in> set (fu_reasons db)"
  shows "rr_id r = rr_id s \<Longrightarrow> r = s"
    "rr_sub_en r = None \<Longrightarrow> rr_sub_en s = None \<Longrightarrow> rr_category r = rr_category s \<Longrightarrow> r = s"
proof -
  show "rr_id r = rr_id s \<Longrightarrow> r = s" using assms unfolding reasons_ok_def distinct_map by (metis inj_onD)
  assume n: "rr_sub_en r = None" "rr_sub_en s = None" "rr_category r = rr_category s"
  then have "rr_key r = rr_key s"
    using row_okD [OF assms(1,2)] row_okD [OF assms(1,3)] by (simp add: row_ok_def)
  then show "r = s" using assms unfolding reasons_ok_def distinct_map by (metis inj_onD)
qed

lemma map_ok:
  assumes ok: "reasons_ok db" and rows: "fu_reasons db' = map h (fu_reasons db)"
    and same: "fu_cases db' = fu_cases db" "fu_reason_seq db' = fu_reason_seq db"
    and keep: "\<And>r. r \<in> set (fu_reasons db) \<Longrightarrow> rr_id (h r) = rr_id r \<and> rr_key (h r) = rr_key r \<and> rr_category (h r) = rr_category r \<and>
      rr_requires_note (h r) = rr_requires_note r \<and> (rr_sub_en (h r) = None) = (rr_sub_en r = None) \<and>
      rr_category_en (h r) \<noteq> [] \<and> rr_sub_en (h r) \<noteq> Some []"
    and cats: "\<And>k r. k \<in> set (fu_reasons db) \<Longrightarrow> r \<in> set (fu_reasons db) \<Longrightarrow> same_category k r \<Longrightarrow> same_category (h k) (h r)"
    and names: "\<And>r s. r \<in> set (fu_reasons db) \<Longrightarrow> s \<in> set (fu_reasons db) \<Longrightarrow> names_unique r s \<Longrightarrow> names_unique (h r) (h s)"
  shows "reasons_ok db'"
proof -
  let ?R = "set (fu_reasons db)"
  have "row_ok (h ` ?R) (h r)" if r: "r \<in> ?R" for r
  proof -
    note ro = row_okD [OF ok r]
    have "\<exists>k \<in> h ` ?R. rr_sub_en k = None \<and> same_category k (h r)"
      using ro cats [OF _ r] keep unfolding row_ok_def by blast
    moreover have "h s = h r" if "rr_requires_note (h r)" "s \<in> ?R" "rr_category (h s) = rr_category (h r)" for s
      using ro that keep [OF r] keep [OF that(2)] unfolding row_ok_def by metis
    moreover have "\<forall>s \<in> ?R. names_unique (h r) (h s)" using ro names [OF r] unfolding row_ok_def by blast
    ultimately show ?thesis using ro keep [OF r] unfolding row_ok_def by auto
  qed
  moreover have "map rr_id (map h (fu_reasons db)) = map rr_id (fu_reasons db)" "map rr_key (map h (fu_reasons db)) = map rr_key (fu_reasons db)"
    using keep by simp_all
  moreover have "rr_id ` h ` ?R = rr_id ` ?R" using keep by (auto simp: image_image)
  moreover have "\<forall>r \<in> h ` ?R. rr_id r < fu_reason_seq db" using ok keep by (auto simp: reasons_ok_def)
  ultimately show ?thesis using ok unfolding reasons_ok_def rows same set_map by (simp only: ball_simps) blast
qed

lemma delete_ok:
  assumes ok: "reasons_ok db" and d: "deleteReason tx collate i db = Inr db'"
  shows "reasons_ok db' \<and> (\<exists>r. r \<in> set (fu_reasons db) \<and> rr_id r = i \<and> reason_usage db i = 0 \<and>
      fu_reasons db' = filter (\<lambda>r. rr_id r \<noteq> i) (fu_reasons db) \<and> fu_cases db' = fu_cases db)"
proof -
  from d obtain v where v: "List.find (\<lambda>v. rr_id (rv_row v) = i) (listReasons tx collate db []) = Some v"
    by (cases "List.find (\<lambda>v. rr_id (rv_row v) = i) (listReasons tx collate db [])") (auto simp: deleteReason_def)
  have e: "rv_row v \<in> set (fu_reasons db)" "rr_id (rv_row v) = i" "rv_usage v = reason_usage db (rr_id (rv_row v))"
    using find_SomeD [OF v] by (auto simp: listReasons_def reason_view_of_def)
  have "\<not> rv_usage v > 0 \<and> \<not> (rr_sub_en (rv_row v) = None \<and>
      (\<exists>w \<in> set (listReasons tx collate db []). rr_category (rv_row w) = rr_category (rv_row v) \<and> rr_id (rv_row w) \<noteq> i)) \<and>
      db' = db\<lparr>fu_reasons := delete_where (\<lambda>r. rr_id r = i) (fu_reasons db)\<rparr>"
    using d unfolding deleteReason_def Let_def v option.case rbind_eq_Inr ensure_eq_Inr list_ex_iff sum.inject by (elim exE conjE) (intro conjI, assumption, assumption, rule sym)
  then have g: "rv_usage v = 0" "rr_sub_en (rv_row v) = None \<Longrightarrow>
      \<not> (\<exists>w \<in> set (listReasons tx collate db []). rr_category (rv_row w) = rr_category (rv_row v) \<and> rr_id (rv_row w) \<noteq> i)"
    and db': "db' = db\<lparr>fu_reasons := delete_where (\<lambda>r. rr_id r = i) (fu_reasons db)\<rparr>"
    by simp_all
  let ?R = "set (fu_reasons db)"
  have rest: "set (fu_reasons db') = {r \<in> ?R. rr_id r \<noteq> i}" "fu_cases db' = fu_cases db" "fu_reason_seq db' = fu_reason_seq db"
    by (simp_all add: db')
  have last_row: "rr_category r \<noteq> rr_category (rv_row v)" if "r \<in> ?R" "rr_id r \<noteq> i" "rr_sub_en (rv_row v) = None" for r
  proof -
    have "r \<in> rv_row ` set (listReasons tx collate db [])" using that(1) unfolding rows_listReasons .
    then obtain w where "w \<in> set (listReasons tx collate db [])" "r = rv_row w" by (rule imageE) simp
    then show ?thesis using g(2) [OF that(3)] that(2) by blast
  qed
  have "row_ok {r \<in> ?R. rr_id r \<noteq> i} r" if r: "r \<in> ?R" "rr_id r \<noteq> i" for r
  proof -
    obtain k where k: "k \<in> ?R" "rr_sub_en k = None" "same_category k r" using row_okD [OF ok r(1)] by (auto simp: row_ok_def)
    have "rr_id k \<noteq> i"
    proof
      assume "rr_id k = i"
      then have "k = rv_row v" using rows_inject(1) [OF ok k(1) e(1)] e(2) by simp
      then show False using last_row [OF r] k by (simp add: same_category_def)
    qed
    then show ?thesis using row_okD [OF ok r(1)] k unfolding row_ok_def by blast
  qed
  moreover have "j \<in> rr_id ` {r \<in> ?R. rr_id r \<noteq> i}" if "c \<in> set (fu_cases db)" "j \<in> set_option (ce_reason (fc_fields c))" for c j
  proof -
    have "j \<noteq> i" using g(1) e that by (auto simp: reason_usage_def filter_empty_conv)
    then show ?thesis using ok that unfolding reasons_ok_def by blast
  qed
  moreover have "distinct (map rr_id (fu_reasons db'))" "distinct (map rr_key (fu_reasons db'))"
    using ok by (simp_all add: db' delete_where_def reasons_ok_def distinct_map_filter)
  ultimately have "reasons_ok db'" using ok unfolding reasons_ok_def rest by blast
  then show ?thesis using e g(1) by (auto simp: db' delete_where_def)
qed

text \<open>The rows of an edit, as one function on rows.\<close>

definition rename_category :: "reason_row \<Rightarrow> string \<Rightarrow> string \<Rightarrow> int \<Rightarrow> bool \<Rightarrow> int \<Rightarrow> reason_row \<Rightarrow> reason_row" where
  "rename_category ex en ar n active actor r =
     (let r' = (if rr_category r = rr_category ex
          then r\<lparr>rr_category_en := en, rr_category_ar := ar, rr_category_sort := n, rr_updated_by := actor\<rparr> else r)
      in if rr_id r = rr_id ex then r'\<lparr>rr_active := active\<rparr> else r')"

definition rename_sub_reason :: "reason_row \<Rightarrow> string \<Rightarrow> string option \<Rightarrow> int \<Rightarrow> bool \<Rightarrow> int \<Rightarrow> reason_row \<Rightarrow> reason_row" where
  "rename_sub_reason ex en ar n active actor r =
     (if rr_id r = rr_id ex
      then r\<lparr>rr_sub_en := Some en, rr_sub_ar := ar, rr_sort := n, rr_active := active, rr_updated_by := actor\<rparr> else r)"

lemma name_or_Inr: "name_or input k old = Inr n \<Longrightarrow> old \<noteq> [] \<Longrightarrow> n \<noteq> []"
  by (auto simp: name_or_def split: if_splits dest: reasonName_Inr)

lemma update_Inr:
  assumes "updateReason tx collate i input actor db = Inr db'"
  obtains ex where "ex \<in> set (fu_reasons db)" "rr_id ex = i"
    "(\<exists>catEn catAr n active. rr_sub_en ex = None \<and> (rr_category_en ex \<noteq> [] \<longrightarrow> catEn \<noteq> []) \<and>
        (\<forall>r \<in> set (fu_reasons db). rr_sub_en r = None \<longrightarrow> rr_id r \<noteq> i \<longrightarrow> to_lower (rr_category_en r) \<noteq> to_lower catEn) \<and>
        db' = db\<lparr>fu_reasons := update_where (\<lambda>r. rr_id r = i) (\<lambda>r. r\<lparr>rr_active := active\<rparr>)
          (update_where (\<lambda>r. collate (rr_category r) = collate (rr_category ex))
            (\<lambda>r. r\<lparr>rr_category_en := catEn, rr_category_ar := catAr, rr_category_sort := n, rr_updated_by := actor\<rparr>) (fu_reasons db))\<rparr>) \<or>
     (\<exists>old subEn subAr n active. rr_sub_en ex = Some old \<and> (old \<noteq> [] \<longrightarrow> subEn \<noteq> []) \<and>
        (\<forall>r \<in> set (fu_reasons db). rr_category r = rr_category ex \<longrightarrow> rr_id r \<noteq> i \<longrightarrow> map_option to_lower (rr_sub_en r) \<noteq> Some (to_lower subEn)) \<and>
        db' = db\<lparr>fu_reasons := update_where (\<lambda>r. rr_id r = i)
          (\<lambda>r. r\<lparr>rr_sub_en := Some subEn, rr_sub_ar := subAr, rr_sort := n, rr_active := active, rr_updated_by := actor\<rparr>) (fu_reasons db)\<rparr>)"
proof -
  let ?rows = "map rv_row (listReasons tx collate db [])"
  from assms obtain ex where f: "List.find (\<lambda>r. rr_id r = i) ?rows = Some ex"
    by (cases "List.find (\<lambda>r. rr_id r = i) ?rows") (auto simp: updateReason_def Let_def)
  have rows: "set ?rows = set (fu_reasons db)" by simp
  note u = assms [unfolded updateReason_def Let_def f option.case rbind_eq_Inr ensure_eq_Inr list_ex_iff rows]
  show thesis
  proof (cases "rr_sub_en ex")
    case None
    show thesis
      apply (rule that [OF find_row(1) [OF f] find_row(2) [OF f]], rule disjI1)
      using u [unfolded None option.case rbind_eq_Inr ensure_eq_Inr]
      apply (elim exE conjE)
      subgoal for en ar a n
        by (rule exI [of _ en], rule exI [of _ ar], rule exI [of _ n],
            rule exI [of _ "if input_of input ''isActive'' = JUndef then rr_active ex else truthy (input_of input ''isActive'')"], intro conjI)
          ((simp only: sum.inject, rule sym, assumption) | rule None | auto dest: name_or_Inr)+
      done
  next
    case (Some old)
    show thesis
      apply (rule that [OF find_row(1) [OF f] find_row(2) [OF f]], rule disjI2)
      using u [unfolded Some option.case rbind_eq_Inr ensure_eq_Inr]
      apply (elim exE conjE)
      subgoal for en ar a n
        by (rule exI [of _ old], rule exI [of _ en], rule exI [of _ ar], rule exI [of _ n],
            rule exI [of _ "if input_of input ''isActive'' = JUndef then rr_active ex else truthy (input_of input ''isActive'')"], intro conjI)
          ((simp only: sum.inject, rule sym, assumption) | rule Some | auto dest: name_or_Inr)+
      done
  qed
qed

lemma category_update:
  assumes ok: "reasons_ok db" and plain: "inj_on collate {k. plain_key k}" and ex: "ex \<in> set (fu_reasons db)"
  shows "update_where (\<lambda>r. rr_id r = rr_id ex) (\<lambda>r. r\<lparr>rr_active := active\<rparr>)
      (update_where (\<lambda>r. collate (rr_category r) = collate (rr_category ex))
        (\<lambda>r. r\<lparr>rr_category_en := en, rr_category_ar := ar, rr_category_sort := n, rr_updated_by := actor\<rparr>) (fu_reasons db)) =
    map (rename_category ex en ar n active actor) (fu_reasons db)"
proof -
  have "collate (rr_category r) = collate (rr_category ex) \<longleftrightarrow> rr_category r = rr_category ex" if "r \<in> set (fu_reasons db)" for r
    using plain row_okD [OF ok that] row_okD [OF ok ex] by (auto simp: row_ok_def inj_on_def)
  then show ?thesis by (auto simp: update_where_def rename_category_def Let_def)
qed

lemma rename_category_ok:
  assumes ok: "reasons_ok db" and ex: "ex \<in> set (fu_reasons db)" "rr_sub_en ex = None" and en: "en \<noteq> []"
    and dup: "\<forall>r \<in> set (fu_reasons db). rr_sub_en r = None \<longrightarrow> rr_id r \<noteq> rr_id ex \<longrightarrow> to_lower (rr_category_en r) \<noteq> to_lower en"
  shows "reasons_ok (db\<lparr>fu_reasons := map (rename_category ex en ar n active actor) (fu_reasons db)\<rparr>)"
proof (rule map_ok [OF ok])
  let ?h = "rename_category ex en ar n active actor"
  show "rr_id (?h r) = rr_id r \<and> rr_key (?h r) = rr_key r \<and> rr_category (?h r) = rr_category r \<and> rr_requires_note (?h r) = rr_requires_note r \<and>
      (rr_sub_en (?h r) = None) = (rr_sub_en r = None) \<and> rr_category_en (?h r) \<noteq> [] \<and> rr_sub_en (?h r) \<noteq> Some []"
    if "r \<in> set (fu_reasons db)" for r
    using row_okD [OF ok that] en by (auto simp: rename_category_def Let_def row_ok_def)
  show "same_category (?h k) (?h r)" if "same_category k r" for k r
    using that by (auto simp: same_category_def rename_category_def Let_def)
  show "names_unique (?h r) (?h s)" if "r \<in> set (fu_reasons db)" "s \<in> set (fu_reasons db)" "names_unique r s" for r s
  proof -
    have own: "rr_category t = rr_category ex \<longleftrightarrow> rr_id t = rr_id ex" if "t \<in> set (fu_reasons db)" "rr_sub_en t = None" for t
      using rows_inject [OF ok that(1) ex(1)] that(2) ex(2) by blast
    have c: "rr_category_en (?h t) = (if rr_category t = rr_category ex then en else rr_category_en t)" "rr_id (?h t) = rr_id t"
      "rr_category (?h t) = rr_category t" "rr_sub_en (?h t) = rr_sub_en t" for t
      by (simp_all add: rename_category_def Let_def)
    show ?thesis
    proof (unfold names_unique_def c, intro impI conjI)
      assume d: "rr_id r \<noteq> rr_id s" and n: "rr_sub_en r = None" "rr_sub_en s = None"
      show "to_lower (if rr_category r = rr_category ex then en else rr_category_en r) \<noteq>
        to_lower (if rr_category s = rr_category ex then en else rr_category_en s)"
        using d n dup that own [OF that(1) n(1)] own [OF that(2) n(2)] by (simp add: names_unique_def) metis
    next
      assume "rr_id r \<noteq> rr_id s" "rr_category r = rr_category s" "rr_sub_en r \<noteq> None"
      then show "map_option to_lower (rr_sub_en r) \<noteq> map_option to_lower (rr_sub_en s)"
        using that(3) by (simp add: names_unique_def)
    qed
  qed
qed simp_all

lemma rename_sub_reason_ok:
  assumes ok: "reasons_ok db" and ex: "ex \<in> set (fu_reasons db)" "rr_sub_en ex \<noteq> None" and en: "en \<noteq> []"
    and dup: "\<forall>r \<in> set (fu_reasons db). rr_category r = rr_category ex \<longrightarrow> rr_id r \<noteq> rr_id ex \<longrightarrow>
      map_option to_lower (rr_sub_en r) \<noteq> Some (to_lower en)"
  shows "reasons_ok (db\<lparr>fu_reasons := map (rename_sub_reason ex en ar n active actor) (fu_reasons db)\<rparr>)"
proof (rule map_ok [OF ok])
  let ?h = "rename_sub_reason ex en ar n active actor"
  have same: "r = ex" if "r \<in> set (fu_reasons db)" "rr_id r = rr_id ex" for r
    using rows_inject(1) [OF ok that(1) ex(1) that(2)] .
  show "rr_id (?h r) = rr_id r \<and> rr_key (?h r) = rr_key r \<and> rr_category (?h r) = rr_category r \<and> rr_requires_note (?h r) = rr_requires_note r \<and>
      (rr_sub_en (?h r) = None) = (rr_sub_en r = None) \<and> rr_category_en (?h r) \<noteq> [] \<and> rr_sub_en (?h r) \<noteq> Some []"
    if "r \<in> set (fu_reasons db)" for r
    using row_okD [OF ok that] same [OF that] ex(2) en by (auto simp: rename_sub_reason_def row_ok_def)
  show "same_category (?h k) (?h r)" if "same_category k r" for k r
    using that by (auto simp: same_category_def rename_sub_reason_def)
  show "names_unique (?h r) (?h s)" if "r \<in> set (fu_reasons db)" "s \<in> set (fu_reasons db)" "names_unique r s" for r s
  proof -
    have c: "rr_sub_en (?h t) = (if rr_id t = rr_id ex then Some en else rr_sub_en t)" "rr_id (?h t) = rr_id t"
      "rr_category (?h t) = rr_category t" "rr_category_en (?h t) = rr_category_en t" for t
      by (simp_all add: rename_sub_reason_def)
    show ?thesis
    proof (unfold names_unique_def c, intro impI conjI)
      assume d: "rr_id r \<noteq> rr_id s" and n: "(if rr_id r = rr_id ex then Some en else rr_sub_en r) = None"
        "(if rr_id s = rr_id ex then Some en else rr_sub_en s) = None"
      then show "to_lower (rr_category_en r) \<noteq> to_lower (rr_category_en s)"
        using that(3) by (simp add: names_unique_def split: if_splits)
    next
      assume d: "rr_id r \<noteq> rr_id s" and k: "rr_category r = rr_category s"
        and n: "(if rr_id r = rr_id ex then Some en else rr_sub_en r) \<noteq> None"
      show "map_option to_lower (if rr_id r = rr_id ex then Some en else rr_sub_en r) \<noteq>
        map_option to_lower (if rr_id s = rr_id ex then Some en else rr_sub_en s)"
      proof (cases "rr_id r = rr_id ex")
        case True
        then have "rr_category s = rr_category ex" "rr_id s \<noteq> rr_id ex" using k d same [OF that(1)] by auto
        then have "map_option to_lower (rr_sub_en s) \<noteq> Some (to_lower en)" using dup that(2) by blast
        then show ?thesis using True \<open>rr_id s \<noteq> rr_id ex\<close> by (cases "rr_sub_en s") auto
      next
        case False
        show ?thesis
        proof (cases "rr_id s = rr_id ex")
          case True
          then have "rr_category r = rr_category ex" using k same [OF that(2)] by auto
          then have "map_option to_lower (rr_sub_en r) \<noteq> Some (to_lower en)" using dup that(1) False by blast
          then show ?thesis using True False by simp
        next
          case False
          then show ?thesis using \<open>rr_id r \<noteq> rr_id ex\<close> d k n that(3) by (simp add: names_unique_def)
        qed
      qed
    qed
  qed
qed simp_all

lemma update_ok:
  assumes ok: "reasons_ok db" and plain: "inj_on collate {k. plain_key k}" and u: "updateReason tx collate i input actor db = Inr db'"
  shows "\<exists>ex h. ex \<in> set (fu_reasons db) \<and> rr_id ex = i \<and> reasons_ok db' \<and> db' = db\<lparr>fu_reasons := map h (fu_reasons db)\<rparr> \<and>
    ((\<exists>en ar n active. rr_sub_en ex = None \<and> h = rename_category ex en ar n active actor) \<or>
     (\<exists>en ar n active. rr_sub_en ex \<noteq> None \<and> h = rename_sub_reason ex en ar n active actor))"
  using u
proof (cases rule: update_Inr)
  case (1 ex)
  have r: "rr_category_en ex \<noteq> []" "rr_sub_en ex \<noteq> Some []" using row_okD [OF ok 1(1)] by (simp_all add: row_ok_def)
  from 1(3) show ?thesis
  proof (elim disjE exE conjE)
    fix en ar n active
    assume h: "rr_sub_en ex = None" "rr_category_en ex \<noteq> [] \<longrightarrow> en \<noteq> []"
      "\<forall>r \<in> set (fu_reasons db). rr_sub_en r = None \<longrightarrow> rr_id r \<noteq> i \<longrightarrow> to_lower (rr_category_en r) \<noteq> to_lower en"
      "db' = db\<lparr>fu_reasons := update_where (\<lambda>r. rr_id r = i) (\<lambda>r. r\<lparr>rr_active := active\<rparr>)
          (update_where (\<lambda>r. collate (rr_category r) = collate (rr_category ex))
            (\<lambda>r. r\<lparr>rr_category_en := en, rr_category_ar := ar, rr_category_sort := n, rr_updated_by := actor\<rparr>) (fu_reasons db))\<rparr>"
    have d: "db' = db\<lparr>fu_reasons := map (rename_category ex en ar n active actor) (fu_reasons db)\<rparr>"
      using h(4) category_update [OF ok plain 1(1)] unfolding 1(2) by simp
    have "reasons_ok db'" unfolding d by (rule rename_category_ok [OF ok 1(1)]) (use h(1-3) r 1(2) in auto)
    then show ?thesis using 1(1,2) h(1) d by blast
  next
    fix old en ar n active
    assume h: "rr_sub_en ex = Some old" "old \<noteq> [] \<longrightarrow> en \<noteq> []"
      "\<forall>r \<in> set (fu_reasons db). rr_category r = rr_category ex \<longrightarrow> rr_id r \<noteq> i \<longrightarrow> map_option to_lower (rr_sub_en r) \<noteq> Some (to_lower en)"
      "db' = db\<lparr>fu_reasons := update_where (\<lambda>r. rr_id r = i)
          (\<lambda>r. r\<lparr>rr_sub_en := Some en, rr_sub_ar := ar, rr_sort := n, rr_active := active, rr_updated_by := actor\<rparr>) (fu_reasons db)\<rparr>"
    have d: "db' = db\<lparr>fu_reasons := map (rename_sub_reason ex en ar n active actor) (fu_reasons db)\<rparr>"
      using h(4) 1(2) by (simp add: update_where_def rename_sub_reason_def [abs_def])
    have "reasons_ok db'" unfolding d by (rule rename_sub_reason_ok [OF ok 1(1)]) (use h(1-3) r 1(2) in auto)
    then show ?thesis using 1(1,2) h(1) d by blast
  qed
qed

lemma create_ok:
  assumes "reasons_ok db" "reflp same" and c: "createReason tx collate same nfkd input actor db = Inr (db', i)"
  shows "reasons_ok db' \<and> fu_cases db' = fu_cases db \<and> fu_audit db' = fu_audit db \<and> fu_users db' = fu_users db"
proof -
  have ins: "fu_cases d = fu_cases db \<and> fu_audit d = fu_audit db \<and> fu_users d = fu_users db" if "insert_reason collate row db = Inr (d, j)" for row d j
    using that by (auto simp: insert_reason_def split: if_splits)
  show ?thesis
  proof (cases "\<not> nullish (input_of input ''categoryKey'') \<and> input_of input ''categoryKey'' \<noteq> JStr []")
    case True
    then have c': "create_sub_reason collate same nfkd (map rv_row (listReasons tx collate db [])) input actor db = Inr (db', i)"
      using c by (simp add: createReason_def Let_def)
    have "reasons_ok db'" by (rule create_sub_reason_ok [OF assms(1,2) _ c']) simp
    moreover from c' obtain row where "insert_reason collate row db = Inr (db', i)" by (rule create_sub_reason_Inr) blast
    ultimately show ?thesis using ins by blast
  next
    case False
    then have c': "create_category collate same nfkd (map rv_row (listReasons tx collate db [])) input actor db = Inr (db', i)"
      using c by (auto simp: createReason_def Let_def)
    have "reasons_ok db'" by (rule create_category_ok [OF assms(1,2) _ c']) simp
    moreover from c' obtain row where "insert_reason collate row db = Inr (db', i)" by (rule create_category_Inr) blast
    ultimately show ?thesis using ins by blast
  qed
qed

lemma rows_of_category_agree:
  assumes "reasons_ok db" "r \<in> set (fu_reasons db)" "s \<in> set (fu_reasons db)" "rr_category r = rr_category s"
  shows "same_category r s"
proof -
  obtain k where k: "k \<in> set (fu_reasons db)" "rr_sub_en k = None" "same_category k r"
    using row_okD [OF assms(1,2)] by (auto simp: row_ok_def)
  obtain j where j: "j \<in> set (fu_reasons db)" "rr_sub_en j = None" "same_category j s"
    using row_okD [OF assms(1,3)] by (auto simp: row_ok_def)
  have "k = j" using rows_inject(2) [OF assms(1) k(1) j(1) k(2) j(2)] k(3) j(3) assms(4) by (simp add: same_category_def)
  then show ?thesis using k(3) j(3) by (simp add: same_category_def)
qed

text \<open>An edit of a reason never changes a number, a key or the category of a row, nor a case: a category's
edit changes rows of that category only and all of them show its new name, a sub-reason's edit changes that row
only; and a reason is deleted only while no case uses it, every other row staying as it is.\<close>

theorem reason_edit_effect:
  assumes "reasons_ok db" "inj_on collate {k. plain_key k}"
  shows "(updateReason tx collate i input actor db = Inr db' \<longrightarrow> (\<exists>ex \<in> set (fu_reasons db). rr_id ex = i \<and> reasons_ok db' \<and> fu_cases db' = fu_cases db \<and>
      map rr_id (fu_reasons db') = map rr_id (fu_reasons db) \<and> map rr_key (fu_reasons db') = map rr_key (fu_reasons db) \<and>
      map rr_category (fu_reasons db') = map rr_category (fu_reasons db) \<and>
      (\<forall>r \<in> set (fu_reasons db). rr_category r \<noteq> rr_category ex \<or> rr_sub_en ex \<noteq> None \<and> rr_id r \<noteq> i \<longrightarrow> r \<in> set (fu_reasons db')) \<and>
      (\<forall>r \<in> set (fu_reasons db'). \<forall>s \<in> set (fu_reasons db'). rr_category r = rr_category s \<longrightarrow> rr_category_en r = rr_category_en s))) \<and>
    (deleteReason tx collate i db = Inr db' \<longrightarrow> reasons_ok db' \<and> fu_cases db' = fu_cases db \<and>
      (\<forall>c \<in> set (fu_cases db). ce_reason (fc_fields c) \<noteq> Some i) \<and> fu_reasons db' = filter (\<lambda>r. rr_id r \<noteq> i) (fu_reasons db))"
proof (rule conjI; rule impI)
  assume u: "updateReason tx collate i input actor db = Inr db'"
  obtain ex h where ex: "ex \<in> set (fu_reasons db)" "rr_id ex = i" "reasons_ok db'" "db' = db\<lparr>fu_reasons := map h (fu_reasons db)\<rparr>"
    and h: "(\<exists>en ar n active. rr_sub_en ex = None \<and> h = rename_category ex en ar n active actor) \<or>
     (\<exists>en ar n active. rr_sub_en ex \<noteq> None \<and> h = rename_sub_reason ex en ar n active actor)"
    using update_ok [OF assms u] by blast
  have keep: "rr_id (h r) = rr_id r \<and> rr_key (h r) = rr_key r \<and> rr_category (h r) = rr_category r" for r
    using h by (auto simp: rename_category_def rename_sub_reason_def Let_def)
  have other: "h r = r" if "r \<in> set (fu_reasons db)" "rr_category r \<noteq> rr_category ex \<or> rr_sub_en ex \<noteq> None \<and> rr_id r \<noteq> i" for r
    using h that rows_inject(1) [OF assms(1) that(1) ex(1)] ex(2) by (auto simp: rename_category_def rename_sub_reason_def Let_def)
  have other_row: "r \<in> h ` set (fu_reasons db)" if "r \<in> set (fu_reasons db)" "rr_category r \<noteq> rr_category ex \<or> rr_sub_en ex \<noteq> None \<and> rr_id r \<noteq> i" for r
    using other [OF that] that(1) imageI [of r "set (fu_reasons db)" h] by simp
  show "\<exists>ex \<in> set (fu_reasons db). rr_id ex = i \<and> reasons_ok db' \<and> fu_cases db' = fu_cases db \<and>
      map rr_id (fu_reasons db') = map rr_id (fu_reasons db) \<and> map rr_key (fu_reasons db') = map rr_key (fu_reasons db) \<and>
      map rr_category (fu_reasons db') = map rr_category (fu_reasons db) \<and>
      (\<forall>r \<in> set (fu_reasons db). rr_category r \<noteq> rr_category ex \<or> rr_sub_en ex \<noteq> None \<and> rr_id r \<noteq> i \<longrightarrow> r \<in> set (fu_reasons db')) \<and>
      (\<forall>r \<in> set (fu_reasons db'). \<forall>s \<in> set (fu_reasons db'). rr_category r = rr_category s \<longrightarrow> rr_category_en r = rr_category_en s)"
  proof (intro bexI [OF _ ex(1)] conjI ballI impI ex(2,3))
    show "fu_cases db' = fu_cases db" "map rr_id (fu_reasons db') = map rr_id (fu_reasons db)"
      "map rr_key (fu_reasons db') = map rr_key (fu_reasons db)" "map rr_category (fu_reasons db') = map rr_category (fu_reasons db)"
      using keep by (simp_all add: ex(4))
    show "r \<in> set (fu_reasons db')" if "r \<in> set (fu_reasons db)" "rr_category r \<noteq> rr_category ex \<or> rr_sub_en ex \<noteq> None \<and> rr_id r \<noteq> i" for r
      using other_row [OF that] by (simp add: ex(4))
    show "rr_category_en r = rr_category_en s"
      if "r \<in> set (fu_reasons db')" "s \<in> set (fu_reasons db')" "rr_category r = rr_category s" for r s
      using rows_of_category_agree [OF ex(3) that] by (simp add: same_category_def)
  qed
next
  assume d: "deleteReason tx collate i db = Inr db'"
  show "reasons_ok db' \<and> fu_cases db' = fu_cases db \<and>
      (\<forall>c \<in> set (fu_cases db). ce_reason (fc_fields c) \<noteq> Some i) \<and> fu_reasons db' = filter (\<lambda>r. rr_id r \<noteq> i) (fu_reasons db)"
    using delete_ok [OF assms(1) d] by (auto simp: reason_usage_def filter_empty_conv)
qed

section \<open>An example\<close>

definition example_texts :: display_texts where
  "example_texts = \<lparr>tx_arrow = '' > '', tx_not_specified_ar = ''-''\<rparr>"

definition example_followup :: followup_db where
  "example_followup = \<lparr>fu_cases = [\<lparr>fc_id = 7, fc_response = 70, fc_rated = Some ''2026-03-01 08:00:00'', fc_created = Some ''2026-03-01 09:00:00'',
       fc_fields = example_fields, fc_owner_user = None, fc_source_changed = False, fc_version = 3, fc_updated_by = None\<rparr>],
     fu_reasons = [(category_row ''delivery'' ''Delivery'' ''D'' 1 True 1)\<lparr>rr_id := 1\<rparr>,
       (sub_reason_row (category_row ''delivery'' ''Delivery'' ''D'' 1 True 1) ''delivery.late'' ''Late'' ''L'' 1 True 1)\<lparr>rr_id := 5\<rparr>,
       (category_row ''other'' ''Other'' ''O'' 2 True 1)\<lparr>rr_id := 6, rr_requires_note := True\<rparr>],
     fu_reason_seq = 7, fu_audit = [], fu_users = [(3, ''Sara'')]\<rparr>"

lemma example_followup_ok: "reasons_ok example_followup"
  by code_simp

theorem free_key_found_witness: "freeKey id (=) example_followup ''delivery'' \<notin> rr_key ` set (fu_reasons example_followup)"
proof -
  have "plain_key ''delivery''" by code_simp
  then show ?thesis using free_key_found [of "(=)" "''delivery''" id example_followup] by simp
qed

theorem reason_edit_effect_witness:
  "\<exists>db'. updateReason example_texts id 1 [(''categoryEn'', JStr ''Shipping'')] 9 example_followup = Inr db' \<and> reasons_ok db' \<and>
     map rr_key (fu_reasons db') = [''delivery'', ''delivery.late'', ''other'']"
proof -
  have "is_ok (updateReason example_texts id 1 [(''categoryEn'', JStr ''Shipping'')] 9 example_followup)" by code_simp
  then obtain db' where u: "updateReason example_texts id 1 [(''categoryEn'', JStr ''Shipping'')] 9 example_followup = Inr db'"
    by (auto simp: is_ok_iff)
  have "map rr_key (fu_reasons example_followup) = [''delivery'', ''delivery.late'', ''other'']" by code_simp
  then show ?thesis using reason_edit_effect [OF example_followup_ok inj_on_id2, of example_texts 1 "[(''categoryEn'', JStr ''Shipping'')]" 9 db'] u
    by (auto simp: id_def)
qed

end
