(* ===== verification/Nps_Followup.thy ===== *)
theory Nps_Followup
  imports Nps_Reasons Scope_Filters
begin

text \<open>
  Reading and editing a follow-up case (\<open>backend/src/services/npsFollowupService.ts\<close>, \<open>findCase\<close>,
  \<open>updateCase\<close>, \<open>displayNames\<close>): the case is looked up within the reader's scope, the edit is refused when
  it was made on an older version, and every changed field is one audit row. What the code gets from
  elsewhere is the record \<open>followup_env\<close>: the rating rows of the view, the admin profiles of the scope
  clauses, the collation, the display texts, and which texts a \<open>DATETIME\<close> column takes (MySQL in its strict
  mode refuses the others). Times of change are left out.
\<close>

section \<open>Lookup within the scope\<close>

record rating_view =
  rt_fact :: fact_row
  rt_customer :: "string option"
  rt_order_ref :: "string option"
  rt_delivery :: "string option"

definition no_rating :: rating_view where
  "no_rating = \<lparr>rt_fact = \<lparr>CompanyKey = None, SegmentKey = None, ChannelKey = None, SalesTeamKey = None, SalespersonKey = None,
     CustomerKey = None\<rparr>, rt_customer = None, rt_order_ref = None, rt_delivery = None\<rparr>"

record followup_env =
  en_profiles :: profiles
  en_ratings :: "int \<Rightarrow> rating_view option"
  en_texts :: display_texts
  en_collate :: "string \<Rightarrow> string"
  en_storable :: "string \<Rightarrow> bool"

text \<open>The left join with the rating view, all columns NULL when the rating left the source.\<close>

definition rating_of :: "followup_env \<Rightarrow> followup_case \<Rightarrow> rating_view" where
  "rating_of env c = (case en_ratings env (fc_response c) of None \<Rightarrow> no_rating | Some r \<Rightarrow> r)"

definition in_scope :: "followup_env \<Rightarrow> filters \<Rightarrow> followup_case \<Rightarrow> bool" where
  "in_scope env f c = where_holds (en_profiles env) (buildWhereClause f True) (rt_fact (rating_of env c))"

text \<open>\<open>COALESCE(c.owner_name, o.display_name)\<close>: the owner as every reader sees it.\<close>

definition seen_owner :: "followup_db \<Rightarrow> followup_case \<Rightarrow> string option" where
  "seen_owner db c =
     (case ce_owner (fc_fields c) of Some n \<Rightarrow> Some n
      | None \<Rightarrow> (case fc_owner_user c of None \<Rightarrow> None | Some u \<Rightarrow> map_of (fu_users db) u))"

definition seen_case :: "followup_db \<Rightarrow> followup_case \<Rightarrow> followup_case" where
  "seen_case db c = c\<lparr>fc_fields := (fc_fields c)\<lparr>ce_owner := seen_owner db c\<rparr>\<rparr>"

definition findCase :: "followup_env \<Rightarrow> filters \<Rightarrow> followup_db \<Rightarrow> int \<Rightarrow> followup_case option" where
  "findCase env f db i = map_option (seen_case db) (first_row (filter (\<lambda>c. fc_id c = i \<and> in_scope env f c) (fu_cases db)))"

section \<open>Written fields\<close>

datatype write_key = WStage | WReason | WNote | WOwner | WContacted | WResolved | WRejected | WRootCause | WAction | WNotes

text \<open>The fields an edit writes, with the name each one has in the history.\<close>

definition WRITE_FIELDS :: "(write_key \<times> string option) list" where
  "WRITE_FIELDS = [(WStage, Some ''stage''), (WReason, Some ''reason''), (WNote, Some ''reason_note''), (WOwner, Some ''owner''),
     (WContacted, Some ''contacted_at''), (WResolved, Some ''resolved_at''), (WRejected, None), (WRootCause, Some ''root_cause''),
     (WAction, Some ''action_taken''), (WNotes, Some ''notes'')]"

datatype field_value = VStage followup_stage | VId "int option" | VText "string option"

definition field_value :: "write_key \<Rightarrow> case_fields \<Rightarrow> field_value" where
  "field_value k c = (case k of WStage \<Rightarrow> VStage (ce_stage c) | WReason \<Rightarrow> VId (ce_reason c) | WNote \<Rightarrow> VText (ce_note c)
     | WOwner \<Rightarrow> VText (ce_owner c) | WContacted \<Rightarrow> VText (ce_contacted c) | WResolved \<Rightarrow> VText (ce_resolved c)
     | WRejected \<Rightarrow> VText (ce_rejected c) | WRootCause \<Rightarrow> VText (ce_root_cause c) | WAction \<Rightarrow> VText (ce_action c)
     | WNotes \<Rightarrow> VText (ce_notes c))"

definition write_field :: "case_fields \<Rightarrow> write_key \<Rightarrow> case_fields \<Rightarrow> case_fields" where
  "write_field n k c = (case k of WStage \<Rightarrow> c\<lparr>ce_stage := ce_stage n\<rparr> | WReason \<Rightarrow> c\<lparr>ce_reason := ce_reason n\<rparr>
     | WNote \<Rightarrow> c\<lparr>ce_note := ce_note n\<rparr> | WOwner \<Rightarrow> c\<lparr>ce_owner := ce_owner n\<rparr> | WContacted \<Rightarrow> c\<lparr>ce_contacted := ce_contacted n\<rparr>
     | WResolved \<Rightarrow> c\<lparr>ce_resolved := ce_resolved n\<rparr> | WRejected \<Rightarrow> c\<lparr>ce_rejected := ce_rejected n\<rparr>
     | WRootCause \<Rightarrow> c\<lparr>ce_root_cause := ce_root_cause n\<rparr> | WAction \<Rightarrow> c\<lparr>ce_action := ce_action n\<rparr> | WNotes \<Rightarrow> c\<lparr>ce_notes := ce_notes n\<rparr>)"

definition changed_fields :: "case_fields \<Rightarrow> case_fields \<Rightarrow> (write_key \<times> string option) list" where
  "changed_fields old new = filter (\<lambda>(k, _). field_value k old \<noteq> field_value k new) WRITE_FIELDS"

text \<open>The history's text of a value: a reason by its English line, when it is in the list.\<close>

definition show_value :: "followup_env \<Rightarrow> followup_db \<Rightarrow> field_value \<Rightarrow> string option" where
  "show_value env db v = (case v of VStage s \<Rightarrow> Some (stage_name s) | VText t \<Rightarrow> t
     | VId i \<Rightarrow> (case i of None \<Rightarrow> None
         | Some n \<Rightarrow> (case first_row (listReasons (en_texts env) (en_collate env) db [n]) of
               None \<Rightarrow> Some (int_str n)
             | Some r \<Rightarrow> (case rv_label_en r of None \<Rightarrow> Some (int_str n) | Some l \<Rightarrow> Some l))))"

definition audit_rows :: "followup_env \<Rightarrow> followup_db \<Rightarrow> int \<Rightarrow> int \<Rightarrow> case_fields \<Rightarrow> case_fields \<Rightarrow> followup_audit list" where
  "audit_rows env db i actor old new =
     concat (map (\<lambda>(k, name). case name of None \<Rightarrow> []
       | Some fld \<Rightarrow> [\<lparr>fa_case = i, fa_by = Some actor, fa_field = fld, fa_old = show_value env db (field_value k old),
           fa_new = show_value env db (field_value k new)\<rparr>]) (changed_fields old new))"

section \<open>The edit of a case\<close>

definition reason_rule :: "followup_env \<Rightarrow> followup_db \<Rightarrow> int option \<Rightarrow> int option \<Rightarrow> followup_error + bool option" where
  "reason_rule env db existing reasonId =
     (case reasonId of None \<Rightarrow> Inr None
      | Some r \<Rightarrow> (case first_row (listReasons (en_texts env) (en_collate env) db [r]) of
            None \<Rightarrow> Inl (Invalid ''case.reasonId'')
          | Some v \<Rightarrow> if reasonId \<noteq> existing \<and> \<not> rv_pickable v then Inl (Invalid ''case.reasonId'')
              else Inr (Some (rr_requires_note (rv_row v)))))"

definition times_storable :: "followup_env \<Rightarrow> (write_key \<times> string option) list \<Rightarrow> case_fields \<Rightarrow> bool" where
  "times_storable env changed n = list_all (\<lambda>(k, _). k \<in> {WContacted, WResolved, WRejected} \<longrightarrow>
     (case field_value k n of VText (Some t) \<Rightarrow> en_storable env t | _ \<Rightarrow> True)) changed"

definition write_case :: "(write_key \<times> string option) list \<Rightarrow> case_fields \<Rightarrow> int \<Rightarrow> followup_case \<Rightarrow> followup_case" where
  "write_case changed n actor c =
     c\<lparr>fc_fields := fold (\<lambda>(k, _). write_field n k) changed (fc_fields c),
       fc_owner_user := (if list_ex (\<lambda>(k, _). k = WOwner) changed then None else fc_owner_user c),
       fc_version := fc_version c + 1, fc_updated_by := Some actor\<rparr>"

definition store_edit ::
  "followup_env \<Rightarrow> int \<Rightarrow> int \<Rightarrow> int \<Rightarrow> case_fields \<Rightarrow> case_fields \<Rightarrow> followup_db \<Rightarrow> followup_error + followup_db" where
  "store_edit env i version actor old n db =
     (let changed = changed_fields old n in
      if changed = [] then Inr db
      else if \<not> times_storable env changed n then Inl Database_refusal
      else Inr (db\<lparr>fu_cases := update_where (\<lambda>c. fc_id c = i \<and> fc_version c = version) (write_case changed n actor) (fu_cases db),
             fu_audit := fu_audit db @ audit_rows env db i actor old n\<rparr>))"

text \<open>A failure rolls the transaction back, so it leaves the tables as they were; the answer is the case as
the same reader finds it afterwards.\<close>

definition updateCase ::
  "followup_env \<Rightarrow> filters \<Rightarrow> int \<Rightarrow> case_input \<Rightarrow> int \<Rightarrow> string \<Rightarrow> followup_db \<Rightarrow> followup_error + (followup_db \<times> followup_case option)" where
  "updateCase env f i input actor now db =
     (case as_integer (to_number (input_of input ''version'')) of
        None \<Rightarrow> Inl (Invalid ''case.version'')
      | Some version \<Rightarrow>
          if version < 1 then Inl (Invalid ''case.version'')
          else case findCase env f db i of
              None \<Rightarrow> Inl (Invalid ''case.notFound'')
            | Some existing \<Rightarrow>
                if fc_version existing \<noteq> version then Inl (Conflict existing)
                else
                  rbind (nextReasonId (ce_reason (fc_fields existing)) input) (\<lambda>reasonId.
                  rbind (reason_rule env db (ce_reason (fc_fields existing)) reasonId) (\<lambda>rule.
                  rbind (applyEdit (fc_fields existing) (fc_rated existing) input now rule) (\<lambda>n.
                  rbind (store_edit env i version actor (fc_fields existing) n db) (\<lambda>db'.
                  Inr (db', findCase env f db' i))))))"

section \<open>What an edit writes\<close>

lemma field_write: "field_value j (write_field n k c) = (if j = k then field_value k n else field_value j c)"
  by (cases j; cases k) (simp_all add: field_value_def write_field_def)

lemma fields_eqI:
  assumes "\<And>k. field_value k a = field_value k b"
  shows "a = b"
  using assms [of WStage] assms [of WReason] assms [of WNote] assms [of WOwner] assms [of WContacted] assms [of WResolved]
    assms [of WRejected] assms [of WRootCause] assms [of WAction] assms [of WNotes]
  by (simp add: field_value_def)

lemma WRITE_FIELDS_all: "k \<in> fst ` set WRITE_FIELDS" and WRITE_FIELDS_distinct: "distinct (map fst WRITE_FIELDS)"
  by (cases k; simp add: WRITE_FIELDS_def) (simp add: WRITE_FIELDS_def)

lemma changed_keys: "k \<in> fst ` set (changed_fields old n) \<longleftrightarrow> field_value k old \<noteq> field_value k n"
proof -
  obtain f where "(k, f) \<in> set WRITE_FIELDS" using WRITE_FIELDS_all [of k] by auto
  then show ?thesis by (force simp: changed_fields_def)
qed

lemma field_write_all:
  "field_value j (fold (\<lambda>(k, _). write_field n k) ks c) = (if j \<in> fst ` set ks then field_value j n else field_value j c)"
  by (induction ks arbitrary: c) (auto simp: field_write)

lemma changed_none: "changed_fields old n = [] \<longleftrightarrow> n = old"
proof
  assume "changed_fields old n = []"
  then have "field_value k n = field_value k old" for k using changed_keys [of k old n] by simp
  then show "n = old" by (rule fields_eqI)
qed (simp add: changed_fields_def)

lemma seen_case_fields [simp]:
  "fc_id (seen_case db c) = fc_id c" "fc_version (seen_case db c) = fc_version c" "fc_rated (seen_case db c) = fc_rated c"
  "fc_response (seen_case db c) = fc_response c" "ce_reason (fc_fields (seen_case db c)) = ce_reason (fc_fields c)"
  by (simp_all add: seen_case_def)

lemma write_case_fields [simp]:
  "fc_id (write_case ks n actor c) = fc_id c" "fc_version (write_case ks n actor c) = fc_version c + 1"
  "fc_response (write_case ks n actor c) = fc_response c" "fc_rated (write_case ks n actor c) = fc_rated c"
  by (simp_all add: write_case_def)

text \<open>Whoever reads the case after the write sees exactly the edited fields.\<close>

lemma write_case_seen:
  assumes users: "fu_users db' = fu_users db"
  shows "fc_fields (seen_case db' (write_case (changed_fields (fc_fields (seen_case db c)) n) n actor c)) = n"
proof (rule fields_eqI)
  fix k
  let ?old = "fc_fields (seen_case db c)"
  let ?c' = "write_case (changed_fields ?old n) n actor c"
  have stored: "field_value j (fc_fields ?c') = (if field_value j ?old \<noteq> field_value j n then field_value j n else field_value j (fc_fields c))" for j
    by (simp add: write_case_def field_write_all changed_keys)
  have other: "field_value j (fc_fields (seen_case d x)) = field_value j (fc_fields x)" if "j \<noteq> WOwner" for j d x
    using that by (cases j) (simp_all add: seen_case_def field_value_def)
  have user: "fc_owner_user ?c' = (if field_value WOwner ?old \<noteq> field_value WOwner n then None else fc_owner_user c)"
    using changed_keys [of WOwner ?old n] by (force simp: write_case_def list_ex_iff)
  show "field_value k (fc_fields (seen_case db' ?c')) = field_value k n"
  proof (cases "k = WOwner")
    case False
    then show ?thesis using stored [of k] other by metis
  next
    case True
    have w: "ce_owner (fc_fields (seen_case d x)) = seen_owner d x" for d x
      by (simp add: seen_case_def)
    have o': "field_value WOwner x = VText (ce_owner x)" for x by (simp add: field_value_def)
    show ?thesis
      using stored [of WOwner] user unfolding True o' w
      by (cases "ce_owner n") (auto simp: seen_owner_def users split: option.splits if_splits)
  qed
qed

lemma first_row_unique:
  assumes "distinct (map key xs)" "x \<in> set xs" "key x = i" "P x"
  shows "first_row (filter (\<lambda>y. key y = i \<and> P y) xs) = Some x"
  using assms by (induction xs) (auto simp: image_iff filter_empty_conv)

lemma first_row_filter: "first_row (filter P xs) = Some x \<Longrightarrow> x \<in> set xs \<and> P x"
  using first_row_Some [of "filter P xs" x] by simp

lemma findCase_Some:
  "findCase env f db i = Some s \<Longrightarrow> \<exists>c. c \<in> set (fu_cases db) \<and> fc_id c = i \<and> in_scope env f c \<and> s = seen_case db c"
  unfolding findCase_def by (auto dest: first_row_filter)

lemma findCase_unique:
  assumes "distinct (map fc_id (fu_cases db))" "c \<in> set (fu_cases db)" "in_scope env f c"
  shows "findCase env f db (fc_id c) = Some (seen_case db c)"
  using first_row_unique [of fc_id "fu_cases db" c "fc_id c" "in_scope env f"] assms by (simp add: findCase_def)

lemma in_scope_write [simp]: "in_scope env f (write_case ks n actor c) = in_scope env f c"
  by (simp add: in_scope_def rating_of_def)

lemma updateCase_Inr:
  assumes "updateCase env f i input actor now db = Inr (db', shown)"
  obtains c rule n where "c \<in> set (fu_cases db)" "fc_id c = i" "in_scope env f c" "fc_version c \<ge> 1"
    "as_integer (to_number (input_of input ''version'')) = Some (fc_version c)"
    "reason_rule env db (ce_reason (fc_fields c)) (ce_reason n) = Inr rule"
    "applyEdit (fc_fields (seen_case db c)) (fc_rated c) input now rule = Inr n"
    "store_edit env i (fc_version c) actor (fc_fields (seen_case db c)) n db = Inr db'" "shown = findCase env f db' i"
proof -
  from assms obtain v where v: "as_integer (to_number (input_of input ''version'')) = Some v" "v \<ge> 1"
    by (auto simp: updateCase_def split: option.splits if_splits)
  then obtain s where s: "findCase env f db i = Some s" "fc_version s = v"
    using assms by (auto simp: updateCase_def split: option.splits if_splits)
  then obtain c where c: "c \<in> set (fu_cases db)" "fc_id c = i" "in_scope env f c" "s = seen_case db c"
    using findCase_Some by blast
  have "rbind (nextReasonId (ce_reason (fc_fields s)) input) (\<lambda>reasonId.
      rbind (reason_rule env db (ce_reason (fc_fields s)) reasonId) (\<lambda>rule.
      rbind (applyEdit (fc_fields s) (fc_rated s) input now rule) (\<lambda>n.
      rbind (store_edit env i v actor (fc_fields s) n db) (\<lambda>db'. Inr (db', findCase env f db' i))))) = Inr (db', shown)"
    using assms v s by (simp add: updateCase_def)
  then obtain reasonId rule n where r: "nextReasonId (ce_reason (fc_fields s)) input = Inr reasonId"
    "reason_rule env db (ce_reason (fc_fields s)) reasonId = Inr rule" "applyEdit (fc_fields s) (fc_rated s) input now rule = Inr n"
    "store_edit env i v actor (fc_fields s) n db = Inr db'" "shown = findCase env f db' i"
    unfolding rbind_eq_Inr by auto
  have "reasonId = ce_reason n"
    using r(3)
  proof (cases rule: applyEdit_Inr)
    case (1 m)
    then show ?thesis using given_fields_Inr(2) [OF 1(1)] r(1) by simp
  qed
  then show thesis using that [of c n rule] c v s(2) r by simp
qed


lemma store_edit_Inr:
  assumes "store_edit env i v actor old n db = Inr db'"
  shows "fu_reasons db' = fu_reasons db \<and> fu_users db' = fu_users db \<and> fu_reason_seq db' = fu_reason_seq db \<and>
    (n = old \<longrightarrow> db' = db) \<and>
    (n \<noteq> old \<longrightarrow> fu_cases db' = update_where (\<lambda>c. fc_id c = i \<and> fc_version c = v) (write_case (changed_fields old n) n actor) (fu_cases db) \<and>
       fu_audit db' = fu_audit db @ audit_rows env db i actor old n \<and> times_storable env (changed_fields old n) n)"
  using assms by (auto simp: store_edit_def Let_def changed_none split: if_splits)

lemma store_edit_cases:
  assumes d: "distinct (map fc_id (fu_cases db))" and c: "c \<in> set (fu_cases db)"
    and e: "store_edit env (fc_id c) (fc_version c) actor (fc_fields (seen_case db c)) n db = Inr db'"
  shows "map fc_id (fu_cases db') = map fc_id (fu_cases db)"
    "x \<in> set (fu_cases db') \<longleftrightarrow> x \<in> set (fu_cases db) \<and> fc_id x \<noteq> fc_id c \<or>
       x = (if n = fc_fields (seen_case db c) then c else write_case (changed_fields (fc_fields (seen_case db c)) n) n actor c)"
proof -
  let ?w = "write_case (changed_fields (fc_fields (seen_case db c)) n) n actor"
  have same: "y = c" if "y \<in> set (fu_cases db)" "fc_id y = fc_id c" for y
    using d c that by (metis distinct_map inj_onD)
  note f = store_edit_Inr [OF e]
  show "map fc_id (fu_cases db') = map fc_id (fu_cases db)"
    using f map_update_where_key [of fc_id ?w] by (cases "n = fc_fields (seen_case db c)") simp_all
  show "x \<in> set (fu_cases db') \<longleftrightarrow> x \<in> set (fu_cases db) \<and> fc_id x \<noteq> fc_id c \<or>
       x = (if n = fc_fields (seen_case db c) then c else ?w c)"
  proof (cases "n = fc_fields (seen_case db c)")
    case True
    then show ?thesis using f same c by auto
  next
    case False
    then have "set (fu_cases db') = {y \<in> set (fu_cases db). \<not> (fc_id y = fc_id c \<and> fc_version y = fc_version c)} \<union>
        ?w ` {y \<in> set (fu_cases db). fc_id y = fc_id c \<and> fc_version y = fc_version c}"
      using f by (simp add: set_update_where)
    also have "{y \<in> set (fu_cases db). \<not> (fc_id y = fc_id c \<and> fc_version y = fc_version c)} = {y \<in> set (fu_cases db). fc_id y \<noteq> fc_id c}"
      using same by auto
    also have "{y \<in> set (fu_cases db). fc_id y = fc_id c \<and> fc_version y = fc_version c} = {c}" using same c by auto
    finally show ?thesis using False by auto
  qed
qed

lemma audit_rows_fields:
  "set (map fa_field (audit_rows env db i actor old n)) = {name. \<exists>k. (k, Some name) \<in> set WRITE_FIELDS \<and> field_value k old \<noteq> field_value k n}"
  "distinct (map fa_field (audit_rows env db i actor old n))"
proof -
  let ?one = "\<lambda>(k, name). case name of None \<Rightarrow> []
       | Some fld \<Rightarrow> [\<lparr>fa_case = i, fa_by = Some actor, fa_field = fld, fa_old = show_value env db (field_value k old),
           fa_new = show_value env db (field_value k n)\<rparr>]"
  have one: "map fa_field (concat (map ?one ks)) = List.map_filter snd ks" for ks
    by (induction ks) (auto simp: List.map_filter_def split: option.splits)
  have m: "map fa_field (audit_rows env db i actor old n) = List.map_filter snd (changed_fields old n)"
    by (simp only: audit_rows_def one)
  show "set (map fa_field (audit_rows env db i actor old n)) = {name. \<exists>k. (k, Some name) \<in> set WRITE_FIELDS \<and> field_value k old \<noteq> field_value k n}"
    unfolding m by (force simp: List.map_filter_def changed_fields_def image_iff)
  have "distinct (List.map_filter snd (filter P WRITE_FIELDS))" for P :: "write_key \<times> string option \<Rightarrow> bool"
  proof -
    have "List.map_filter snd (filter P xs) = map (the \<circ> snd) (filter (\<lambda>x. P x \<and> snd x \<noteq> None) xs)" for xs :: "(write_key \<times> string option) list"
      by (induction xs) (auto simp: List.map_filter_def)
    moreover have "distinct (map (the \<circ> snd) (filter (\<lambda>x. snd x \<noteq> None) WRITE_FIELDS))" by (simp add: WRITE_FIELDS_def)
    then have "distinct (map (the \<circ> snd) (filter P (filter (\<lambda>x. snd x \<noteq> None) WRITE_FIELDS)))" by (rule distinct_map_filter)
    ultimately show ?thesis by (simp add: conj_commute)
  qed
  then show "distinct (map fa_field (audit_rows env db i actor old n))" unfolding m changed_fields_def .
qed

text \<open>An accepted edit of a case the reader can see was made on its current version and writes exactly what
the validated edit yields: reading the case again shows those fields; a change raises the version by one and
adds one history row per changed field that has a history name, an edit that changes nothing leaves the
tables as they were, and every other case stays.\<close>

theorem update_case_exact:
  assumes "distinct (map fc_id (fu_cases db))" and "updateCase env f i input actor now db = Inr (db', shown)"
  shows "\<exists>c rule n s. c \<in> set (fu_cases db) \<and> fc_id c = i \<and> in_scope env f c \<and>
    as_integer (to_number (input_of input ''version'')) = Some (fc_version c) \<and>
    applyEdit (fc_fields (seen_case db c)) (fc_rated c) input now rule = Inr n \<and>
    shown = Some s \<and> fc_id s = i \<and> fc_fields s = n \<and> fc_version s = fc_version c + (if n = fc_fields (seen_case db c) then 0 else 1) \<and>
    (n = fc_fields (seen_case db c) \<longrightarrow> db' = db) \<and>
    (n \<noteq> fc_fields (seen_case db c) \<longrightarrow> (\<exists>rows. fu_audit db' = fu_audit db @ rows \<and> distinct (map fa_field rows) \<and>
       fa_field ` set rows = {name. \<exists>k. (k, Some name) \<in> set WRITE_FIELDS \<and> field_value k (fc_fields (seen_case db c)) \<noteq> field_value k n})) \<and>
    fu_reasons db' = fu_reasons db \<and> map fc_id (fu_cases db') = map fc_id (fu_cases db) \<and>
    (\<forall>d. fc_id d \<noteq> i \<longrightarrow> (d \<in> set (fu_cases db') \<longleftrightarrow> d \<in> set (fu_cases db)))"
  using assms(2)
proof (cases rule: updateCase_Inr)
  case (1 c rule n)
  let ?old = "fc_fields (seen_case db c)"
  let ?new = "if n = ?old then c else write_case (changed_fields ?old n) n actor c"
  note st = store_edit_Inr [OF 1(8)]
  note cs = store_edit_cases [OF assms(1) 1(1) 1(8) [folded 1(2)]]
  have id: "fc_id ?new = i" using 1(2) by simp
  have found: "shown = Some (seen_case db' ?new)"
    using findCase_unique [of db' ?new env f] cs assms(1) 1(3,9) id by simp
  have fields: "fc_fields (seen_case db' ?new) = n"
    using st write_case_seen [of db' db c n actor] by (cases "n = ?old") auto
  have audit: "n \<noteq> ?old \<Longrightarrow> fu_audit db' = fu_audit db @ audit_rows env db i actor ?old n" using st by blast
  have rows: "n \<noteq> ?old \<longrightarrow> (\<exists>rows. fu_audit db' = fu_audit db @ rows \<and> distinct (map fa_field rows) \<and>
       fa_field ` set rows = {name. \<exists>k. (k, Some name) \<in> set WRITE_FIELDS \<and> field_value k ?old \<noteq> field_value k n})"
    using audit audit_rows_fields [of env db i actor ?old n] by auto
  have others: "\<forall>d. fc_id d \<noteq> i \<longrightarrow> (d \<in> set (fu_cases db') \<longleftrightarrow> d \<in> set (fu_cases db))"
  proof (intro allI impI)
    fix d :: followup_case assume d: "fc_id d \<noteq> i"
    have "d \<noteq> ?new" using d id by metis
    then show "d \<in> set (fu_cases db') \<longleftrightarrow> d \<in> set (fu_cases db)" unfolding cs(2) using d 1(2) by simp
  qed
  have version: "fc_version (seen_case db' ?new) = fc_version c + (if n = ?old then 0 else 1)" by simp
  have nochange: "n = ?old \<longrightarrow> db' = db" using st by blast
  have shown_id: "fc_id (seen_case db' ?new) = i" and reasons: "fu_reasons db' = fu_reasons db" using id st by simp_all
  show ?thesis
    by (rule exI [of _ c], rule exI [of _ rule], rule exI [of _ n], rule exI [of _ "seen_case db' ?new"], intro conjI)
      (rule 1(1-3,5,7) found fields rows others version nochange cs(1) shown_id reasons)+
qed

section \<open>The rules of the follow-up tables\<close>

definition case_ok :: "followup_case \<Rightarrow> bool" where
  "case_ok c \<longleftrightarrow> fc_version c \<ge> 1 \<and> fc_rated c \<noteq> Some [] \<and> no_empty_time (fc_fields c) \<and> fields_ok (fc_rated c) (fc_fields c)"

definition followup_ok :: "followup_db \<Rightarrow> bool" where
  "followup_ok db \<longleftrightarrow> reasons_ok db \<and> distinct (map fc_id (fu_cases db)) \<and> (\<forall>c \<in> set (fu_cases db). case_ok c)"

inductive followup_step :: "followup_env \<Rightarrow> (char \<Rightarrow> char \<Rightarrow> bool) \<Rightarrow> (string \<Rightarrow> string) \<Rightarrow> followup_db \<Rightarrow> followup_db \<Rightarrow> bool"
  for env same nfkd where
  fu_update_case: "now \<noteq> [] \<Longrightarrow> updateCase env f i input actor now db = Inr (db', shown) \<Longrightarrow> followup_step env same nfkd db db'"
| fu_create_reason: "createReason (en_texts env) (en_collate env) same nfkd rinput actor db = Inr (db', j) \<Longrightarrow> followup_step env same nfkd db db'"
| fu_update_reason: "updateReason (en_texts env) (en_collate env) j rinput actor db = Inr db' \<Longrightarrow> followup_step env same nfkd db db'"
| fu_delete_reason: "deleteReason (en_texts env) (en_collate env) j db = Inr db' \<Longrightarrow> followup_step env same nfkd db db'"

inductive_cases followup_stepE: "followup_step env same nfkd db db'"

definition plain_env :: "followup_env \<Rightarrow> (char \<Rightarrow> char \<Rightarrow> bool) \<Rightarrow> bool" where
  "plain_env env same \<longleftrightarrow> inj_on (en_collate env) {k. plain_key k} \<and> reflp same"

lemma owner_irrelevant [simp]:
  "fields_ok r (c\<lparr>ce_owner := o'\<rparr>) = fields_ok r c" "no_empty_time (c\<lparr>ce_owner := o'\<rparr>) = no_empty_time c"
  by (simp_all add: fields_ok_def no_empty_time_def)

lemma reason_rule_exists: "reason_rule env db ex r = Inr rule \<Longrightarrow> \<forall>i \<in> set_option r. i \<in> rr_id ` set (fu_reasons db)"
  by (auto simp: reason_rule_def listReasons_def split: option.splits dest!: first_row_Some)

lemma updateCase_ok:
  assumes ok: "followup_ok db" and now: "now \<noteq> []" and u: "updateCase env f i input actor now db = Inr (db', shown)"
  shows "followup_ok db'"
  using u
proof (cases rule: updateCase_Inr)
  case (1 c rule n)
  let ?old = "fc_fields (seen_case db c)"
  let ?new = "if n = ?old then c else write_case (changed_fields ?old n) n actor c"
  have d: "distinct (map fc_id (fu_cases db))" and c: "case_ok c" using ok 1(1) by (simp_all add: followup_ok_def)
  note st = store_edit_Inr [OF 1(8)]
  note cs = store_edit_cases [OF d 1(1) 1(8) [folded 1(2)]]
  have net: "no_empty_time ?old" "fc_rated c \<noteq> Some []" using c by (simp_all add: case_ok_def seen_case_def)
  have n: "no_empty_time n" by (rule applyEdit_no_empty_time [OF net(1) 1(7) now])
  have "fc_fields (seen_case db' ?new) = n"
    using st write_case_seen [of db' db c n actor] by (cases "n = ?old") auto
  then have new: "n = (fc_fields ?new)\<lparr>ce_owner := seen_owner db' ?new\<rparr>" by (simp add: seen_case_def)
  have "fields_ok (fc_rated c) n" by (rule edit_fields_ok [OF n net(2) 1(7)])
  then have "case_ok ?new" using n new c owner_irrelevant unfolding case_ok_def by (auto split: if_splits) (metis owner_irrelevant)+
  then have cases: "\<forall>x \<in> set (fu_cases db'). case_ok x" using cs(2) ok by (auto simp: followup_ok_def)
  have "ce_reason (fc_fields ?new) = ce_reason n" using new by (metis case_fields.select_convs(2) case_fields.surjective case_fields.update_convs(4))
  then have "\<forall>x \<in> set (fu_cases db'). \<forall>i \<in> set_option (ce_reason (fc_fields x)). i \<in> rr_id ` set (fu_reasons db')"
    using reason_rule_exists [OF 1(6)] cs(2) st ok by (auto simp: followup_ok_def reasons_ok_def)
  then have "reasons_ok db'" using st ok by (simp add: followup_ok_def reasons_ok_def)
  then show ?thesis using cases cs(1) d by (simp add: followup_ok_def)
qed

lemma followup_step_ok:
  assumes "plain_env env same" "followup_ok db" "followup_step env same nfkd db db'"
  shows "followup_ok db'"
  using assms(3)
proof (rule followup_stepE)
  show ?thesis if "now \<noteq> []" "updateCase env f i input actor now db = Inr (db', shown)" for now f i input actor shown
    using updateCase_ok [OF assms(2) that] .
  show ?thesis if "createReason (en_texts env) (en_collate env) same nfkd rinput actor db = Inr (db', j)" for rinput actor j
    using create_ok [OF _ _ that] assms(1,2) by (simp add: followup_ok_def plain_env_def)
  show ?thesis if "updateReason (en_texts env) (en_collate env) j rinput actor db = Inr db'" for j rinput actor
    using update_ok [OF _ _ that] assms(1,2) by (auto simp: followup_ok_def plain_env_def)
  show ?thesis if "deleteReason (en_texts env) (en_collate env) j db = Inr db'" for j
    using delete_ok [OF _ that] assms(2) by (auto simp: followup_ok_def)
qed

section \<open>Concurrent edits\<close>

definition case_version :: "followup_db \<Rightarrow> int \<Rightarrow> int option" where
  "case_version db i = map_option fc_version (List.find (\<lambda>c. fc_id c = i) (fu_cases db))"

text \<open>An accepted edit of case \<open>i\<close>, made on version \<open>v\<close>, that changes something.\<close>

definition case_edit :: "followup_env \<Rightarrow> int \<Rightarrow> int \<Rightarrow> followup_db \<Rightarrow> followup_db \<Rightarrow> bool" where
  "case_edit env i v db db' \<longleftrightarrow> (\<exists>f input actor now shown. now \<noteq> [] \<and> db' \<noteq> db \<and>
     as_integer (to_number (input_of input ''version'')) = Some v \<and> updateCase env f i input actor now db = Inr (db', shown))"

lemma case_id_inject:
  "distinct (map fc_id (fu_cases db)) \<Longrightarrow> c \<in> set (fu_cases db) \<Longrightarrow> d \<in> set (fu_cases db) \<Longrightarrow> fc_id c = fc_id d \<Longrightarrow> c = d"
  by (auto simp: distinct_map dest: inj_onD)

lemma case_version_iff:
  assumes "distinct (map fc_id (fu_cases db))"
  shows "case_version db i = Some v \<longleftrightarrow> (\<exists>c \<in> set (fu_cases db). fc_id c = i \<and> fc_version c = v)"
proof
  assume "case_version db i = Some v"
  then show "\<exists>c \<in> set (fu_cases db). fc_id c = i \<and> fc_version c = v" by (auto simp: case_version_def dest: find_SomeD)
next
  assume "\<exists>c \<in> set (fu_cases db). fc_id c = i \<and> fc_version c = v"
  then obtain c where c: "c \<in> set (fu_cases db)" "fc_id c = i" "fc_version c = v" by blast
  then obtain d where d: "List.find (\<lambda>c. fc_id c = i) (fu_cases db) = Some d"
    using find_exists [of c "fu_cases db" "\<lambda>c. fc_id c = i"] by blast
  have "d = c" by (rule case_id_inject [OF assms]) (use c find_SomeD [OF d] in simp_all)
  then show "case_version db i = Some v" using d c by (simp add: case_version_def)
qed

lemma case_version_update:
  assumes "distinct (map fc_id (fu_cases db))" "updateCase env f i input actor now db = Inr (db', shown)" "case_version db j = Some v"
  shows "case_version db' j = Some (if j = i \<and> db' \<noteq> db then v + 1 else v) \<and>
    (j = i \<longrightarrow> as_integer (to_number (input_of input ''version'')) = Some v)"
  using assms(2)
proof (cases rule: updateCase_Inr)
  case (1 c rule n)
  let ?old = "fc_fields (seen_case db c)"
  note st = store_edit_Inr [OF 1(8)]
  note cs = store_edit_cases [OF assms(1) 1(1) 1(8) [folded 1(2)]]
  have d: "distinct (map fc_id (fu_cases db'))" using cs(1) assms(1) by simp
  obtain x where x: "x \<in> set (fu_cases db)" "fc_id x = j" "fc_version x = v" using assms(3) case_version_iff [OF assms(1)] by blast
  have changed: "db' \<noteq> db \<longleftrightarrow> n \<noteq> ?old"
  proof
    assume "n \<noteq> ?old"
    then have "write_case (changed_fields ?old n) n actor c \<in> set (fu_cases db')" using cs(2) by simp
    moreover have "write_case (changed_fields ?old n) n actor c \<notin> set (fu_cases db)"
    proof
      assume w: "write_case (changed_fields ?old n) n actor c \<in> set (fu_cases db)"
      have "write_case (changed_fields ?old n) n actor c = c" by (rule case_id_inject [OF assms(1) w 1(1)]) simp
      then show False using write_case_fields(2) by (metis add_cancel_right_right one_neq_zero)
    qed
    ultimately show "db' \<noteq> db" by blast
  qed (use st in blast)
  show ?thesis
  proof (cases "j = i")
    case True
    let ?new = "if n = ?old then c else write_case (changed_fields ?old n) n actor c"
    have xc: "x = c" by (rule case_id_inject [OF assms(1) x(1) 1(1)]) (use True x(2) 1(2) in simp)
    have "?new \<in> set (fu_cases db')" using cs(2) by blast
    then have "case_version db' i = Some (fc_version ?new)" 
      unfolding case_version_iff [OF d] by (rule bexI [rotated]) (use 1(2) in simp)
    then show ?thesis using True 1(5) x(3) xc changed by simp
  next
    case False
    then have "x \<in> set (fu_cases db')" using cs(2) x 1(2) by simp
    then show ?thesis using False case_version_iff [OF d] x by auto
  qed
qed

lemma step_cases_kept:
  assumes "plain_env env same" "followup_ok db" "followup_step env same nfkd db db'" "case_version db i = Some v"
  shows "\<exists>w \<ge> v. case_version db' i = Some w"
  using assms(3)
proof (rule followup_stepE)
  have d: "distinct (map fc_id (fu_cases db))" and r: "reasons_ok db" using assms(2) by (simp_all add: followup_ok_def)
  have same_cases: "\<exists>w \<ge> v. case_version db' i = Some w" if "fu_cases db' = fu_cases db"
    using assms(4) that unfolding case_version_def by (intro exI [of _ v]) simp
  show ?thesis if "updateCase env f j input actor now db = Inr (db', shown)" for f j input actor now shown
    using case_version_update [OF d that assms(4)] by auto
  show ?thesis if "createReason (en_texts env) (en_collate env) same nfkd rinput actor db = Inr (db', j)" for rinput actor j
    using create_ok [OF r _ that] assms(1) same_cases by (simp add: plain_env_def)
  show ?thesis if "updateReason (en_texts env) (en_collate env) j rinput actor db = Inr db'" for j rinput actor
    using update_ok [OF r _ that] assms(1) same_cases by (auto simp: plain_env_def)
  show ?thesis if "deleteReason (en_texts env) (en_collate env) j db = Inr db'" for j
    using delete_ok [OF r that] same_cases by auto
qed

interpretation case_versions: versioned_store case_version "case_edit env" "followup_step env same nfkd"
  "\<lambda>db. plain_env env same \<and> followup_ok db" for env same nfkd
proof
  show "case_version db k = Some v \<and> case_version db' k = Some (v + 1)"
    if "plain_env env same \<and> followup_ok db" "case_edit env k v db db'" for db k v db'
  proof -
    have d: "distinct (map fc_id (fu_cases db))" using that(1) by (simp add: followup_ok_def)
    from that(2) obtain f input actor now shown where e: "db' \<noteq> db" "as_integer (to_number (input_of input ''version'')) = Some v"
      "updateCase env f k input actor now db = Inr (db', shown)" by (auto simp: case_edit_def)
    from e(3) obtain c where c: "c \<in> set (fu_cases db)" "fc_id c = k"
      "as_integer (to_number (input_of input ''version'')) = Some (fc_version c)" by (rule updateCase_Inr) blast
    then have "case_version db k = Some v" using case_version_iff [OF d] e(2) by auto
    then show ?thesis using case_version_update [OF d e(3)] e(1) by simp
  qed
  show "followup_step env same nfkd db db'" if "case_edit env k v db db'" for k v db db'
    using that fu_update_case by (auto simp: case_edit_def)
  show "plain_env env same \<and> followup_ok db'" if "plain_env env same \<and> followup_ok db" "followup_step env same nfkd db db'" for db db'
    using that followup_step_ok by blast
  show "\<exists>w \<ge> v. case_version db' k = Some w"
    if "plain_env env same \<and> followup_ok db" "followup_step env same nfkd db db'" "case_version db k = Some v" for db db' k v
    using that step_cases_kept by blast
qed

text \<open>C16. Every operation on the follow-up tables, an edit of a case, a new, changed or deleted reason, keeps their
rules: unique numbers, keys and names, every case in order (its times match its stage, it has the reason or
the note its stage needs) and pointing to an existing reason.\<close>

theorem followup_rules_kept:
  assumes "inj_on (en_collate env) {k. plain_key k}" "reflp same"
    and "followup_ok db" "(followup_step env same nfkd)\<^sup>*\<^sup>* db db'"
  shows "followup_ok db'"
  using case_versions.run_good [OF assms(4)] assms(1-3) by (simp add: plain_env_def)

text \<open>C9. No update is lost: once an edit changed a case, whatever happens in between, any later edit that still
carries the old version, from whichever reader who can see the case, is refused as a conflict and is
answered with the case as it is now, whose version is higher.\<close>

theorem stale_edit_refused:
  assumes "inj_on (en_collate env) {k. plain_key k}" "reflp same"
    and "followup_ok db" "case_edit env i v db db1" "(followup_step env same nfkd)\<^sup>*\<^sup>* db1 db2"
    and "as_integer (to_number (input_of input ''version'')) = Some v" "findCase env f db2 i = Some cur"
  shows "updateCase env f i input actor now db2 = Inl (Conflict cur) \<and> v < fc_version cur"
proof -
  have good: "plain_env env same \<and> followup_ok db" using assms(1-3) by (simp add: plain_env_def)
  note ev = case_versions.edit_version [OF good assms(4)]
  have good1: "plain_env env same \<and> followup_ok db1"
    by (rule case_versions.step_good [OF good case_versions.edit_step [OF assms(4)]])
  have "followup_ok db2" using case_versions.run_good [OF assms(5) good1] by blast
  then have d: "distinct (map fc_id (fu_cases db2))" and ok: "\<forall>c \<in> set (fu_cases db2). case_ok c" by (simp_all add: followup_ok_def)
  obtain w where w: "w \<ge> v + 1" "case_version db2 i = Some w"
    using case_versions.run_version [OF assms(5) good1] ev by blast
  obtain c where c: "c \<in> set (fu_cases db2)" "fc_id c = i" "cur = seen_case db2 c" using findCase_Some [OF assms(7)] by blast
  have cw: "fc_version cur = w"
  proof -
    obtain x where x: "x \<in> set (fu_cases db2)" "fc_id x = i" "fc_version x = w" using w(2) case_version_iff [OF d] by blast
    have "x = c" by (rule case_id_inject [OF d x(1) c(1)]) (simp add: x(2) c(2))
    then show ?thesis using x(3) c(3) by simp
  qed
  have v1: "v \<ge> 1"
  proof -
    obtain x where "x \<in> set (fu_cases db)" "fc_version x = v"
      using ev case_version_iff [of db i v] assms(3) by (auto simp: followup_ok_def)
    then show ?thesis using assms(3) by (auto simp: followup_ok_def case_ok_def)
  qed
  show ?thesis using assms(6,7) cw w(1) v1 by (simp add: updateCase_def)
qed

lemma input_no_conflict:
  "wallInput v k \<noteq> Inl (Conflict c)" "textInput v k l \<noteq> Inl (Conflict c)" "ownerInput v \<noteq> Inl (Conflict c)"
  "idInput v k \<noteq> Inl (Conflict c)" "stageInput v \<noteq> Inl (Conflict c)" "nextReasonId e input \<noteq> Inl (Conflict c)"
  "check_time r now k t \<noteq> Inl (Conflict c)" "reason_rule env db e i \<noteq> Inl (Conflict c)" "store_edit env j ver actor old n db \<noteq> Inl (Conflict c)"
  by (auto simp: wallInput_def textInput_def ownerInput_def idInput_def stageInput_def nextReasonId_def check_time_def reason_rule_def
      store_edit_def Let_def rbind_eq_Inl ensure_eq_Inl split: option.splits if_splits)

lemma given_fields_no_conflict: "given_fields ex input \<noteq> Inl (Conflict c)"
  by (auto simp: given_fields_def field_or_def rbind_eq_Inl input_no_conflict)

lemma applyEdit_no_conflict: "applyEdit ex rated input now reason \<noteq> Inl (Conflict c)"
  by (auto simp: applyEdit_def Let_def rbind_eq_Inl ensure_eq_Inl given_fields_no_conflict input_no_conflict)

text \<open>A conflict is answered exactly for a visible case at another version.\<close>

lemma updateCase_conflict:
  "updateCase env f i input actor now db = Inl (Conflict cur) \<longleftrightarrow>
     (\<exists>v. as_integer (to_number (input_of input ''version'')) = Some v \<and> v \<ge> 1 \<and> findCase env f db i = Some cur \<and> fc_version cur \<noteq> v)"
proof (cases "as_integer (to_number (input_of input ''version''))")
  case None
  then show ?thesis by (simp add: updateCase_def)
next
  case (Some v)
  show ?thesis
  proof (cases "findCase env f db i")
    case None
    then show ?thesis using Some by (simp add: updateCase_def)
  next
    case found: (Some s)
    show ?thesis
    proof (cases "v < 1 \<or> fc_version s \<noteq> v")
      case True
      then show ?thesis using Some found by (auto simp: updateCase_def)
    next
      case False
      have "updateCase env f i input actor now db \<noteq> Inl (Conflict cur)"
        using Some found False
        by (auto simp: updateCase_def rbind_eq_Inl input_no_conflict applyEdit_no_conflict)
      then show ?thesis using Some found False by auto
    qed
  qed
qed

lemma version_only:
  "k \<noteq> ''version'' \<Longrightarrow> has ((''version'', x) # input) k = has input k"
  "k \<noteq> ''version'' \<Longrightarrow> input_of ((''version'', x) # input) k = input_of input k"
  by (simp_all add: has_def input_of_def)

lemma applyEdit_version: "applyEdit ex rated ((''version'', x) # input) now reason = applyEdit ex rated input now reason"
proof -
  have k: "k \<in> {''status'', ''rejectedAt'', ''stage'', ''reasonId'', ''reasonNote'', ''owner'', ''contactedAt'', ''resolvedAt'',
      ''rootCause'', ''actionTaken'', ''notes''} \<Longrightarrow> k \<noteq> ''version''" for k by auto
  have e: "field_or ((''version'', x) # input) k parse old = field_or input k parse old" if "k \<noteq> ''version''" for k parse old
    using that by (simp add: field_or_def version_only)
  have "given_fields ex ((''version'', x) # input) = given_fields ex input"
    unfolding given_fields_def nextReasonId_def by (simp only: e version_only k insert_iff simp_thms)
  then show ?thesis unfolding applyEdit_def by (simp only: version_only k insert_iff simp_thms)
qed

text \<open>A refused edit gets through in the end: sent again with the version of the case the conflict answer
carries, it is no conflict, and it is accepted whenever its values are valid for the case as it now is.\<close>

theorem conflict_retry:
  assumes "updateCase env f i input actor now db = Inl (Conflict cur)" "fc_version cur \<ge> 1"
  defines "again \<equiv> (''version'', JNum (Fin (of_int (fc_version cur)))) # input"
  shows "(\<nexists>cur'. updateCase env f i again actor now db = Inl (Conflict cur')) \<and>
    (\<forall>r rule n. nextReasonId (ce_reason (fc_fields cur)) input = Inr r \<longrightarrow> reason_rule env db (ce_reason (fc_fields cur)) r = Inr rule \<longrightarrow>
       applyEdit (fc_fields cur) (fc_rated cur) input now rule = Inr n \<longrightarrow> times_storable env (changed_fields (fc_fields cur) n) n \<longrightarrow>
       (\<exists>db'. updateCase env f i again actor now db = Inr (db', findCase env f db' i)))"
proof -
  have found: "findCase env f db i = Some cur" using assms(1) unfolding updateCase_conflict by blast
  have v: "input_of again ''version'' = JNum (Fin (of_int (fc_version cur)))" by (simp add: again_def input_of_def)
  have next_id: "nextReasonId e again = nextReasonId e input" for e by (simp add: again_def nextReasonId_def version_only)
  have stored: "\<exists>db'. store_edit env i ver actor old n db = Inr db'" if "times_storable env (changed_fields old n) n" for ver old n
    using that by (simp add: store_edit_def Let_def)
  have "\<nexists>cur'. updateCase env f i again actor now db = Inl (Conflict cur')"
    unfolding updateCase_conflict v using found by simp
  moreover have "\<exists>db'. updateCase env f i again actor now db = Inr (db', findCase env f db' i)"
    if "nextReasonId (ce_reason (fc_fields cur)) input = Inr r" "reason_rule env db (ce_reason (fc_fields cur)) r = Inr rule"
      "applyEdit (fc_fields cur) (fc_rated cur) input now rule = Inr n" "times_storable env (changed_fields (fc_fields cur) n) n" for r rule n
  proof -
    have "applyEdit (fc_fields cur) (fc_rated cur) again now rule = Inr n" using that(3) by (simp add: again_def applyEdit_version)
    then show ?thesis using stored [OF that(4), of "fc_version cur"] that(1,2) assms(2) found by (auto simp: updateCase_def v next_id)
  qed
  ultimately show ?thesis by blast
qed

section \<open>An example\<close>

definition example_env :: followup_env where
  "example_env = \<lparr>en_profiles = Map.empty, en_ratings = (\<lambda>_. None), en_texts = example_texts, en_collate = id, en_storable = (\<lambda>t. length t = 19)\<rparr>"

definition assign_owner :: "int \<Rightarrow> string \<Rightarrow> case_input" where
  "assign_owner v name = [(''version'', JNum (Fin (of_int v))), (''owner'', JStr name)]"

lemma example_followup_rules: "followup_ok example_followup"
proof -
  have "fields_ok (Some ''2026-03-01 08:00:00'') example_fields" by (simp add: fields_ok_def example_fields_def)
  moreover have "no_empty_time example_fields" by code_simp
  ultimately have "\<forall>c \<in> set (fu_cases example_followup). case_ok c" by (simp add: example_followup_def case_ok_def)
  moreover have "distinct (map fc_id (fu_cases example_followup))" by code_simp
  ultimately show ?thesis using example_followup_ok by (simp add: followup_ok_def)
qed

lemma example_edit:
  "updateCase example_env EMPTY_FILTERS 7 (assign_owner 3 ''Omar'') 9 ''2026-03-02 09:30:00'' example_followup =
     Inr (example_followup\<lparr>fu_cases := [(hd (fu_cases example_followup))\<lparr>fc_fields := example_fields\<lparr>ce_owner := Some ''Omar''\<rparr>,
            fc_version := 4, fc_updated_by := Some 9\<rparr>],
          fu_audit := [\<lparr>fa_case = 7, fa_by = Some 9, fa_field = ''owner'', fa_old = Some ''Mona'', fa_new = Some ''Omar''\<rparr>]\<rparr>,
        Some ((hd (fu_cases example_followup))\<lparr>fc_fields := example_fields\<lparr>ce_owner := Some ''Omar''\<rparr>, fc_version := 4, fc_updated_by := Some 9\<rparr>))"
  by code_simp

definition edited_followup :: followup_db where
  "edited_followup = example_followup\<lparr>fu_cases := [(hd (fu_cases example_followup))\<lparr>fc_fields := example_fields\<lparr>ce_owner := Some ''Omar''\<rparr>,
            fc_version := 4, fc_updated_by := Some 9\<rparr>],
          fu_audit := [\<lparr>fa_case = 7, fa_by = Some 9, fa_field = ''owner'', fa_old = Some ''Mona'', fa_new = Some ''Omar''\<rparr>]\<rparr>"

lemma example_case_edit: "case_edit example_env 7 3 example_followup edited_followup"
proof -
  have "edited_followup \<noteq> example_followup" by (simp add: edited_followup_def example_followup_def)
  moreover have "as_integer (to_number (input_of (assign_owner 3 ''Omar'') ''version'')) = Some 3" by code_simp
  ultimately show ?thesis using example_edit [folded edited_followup_def] unfolding case_edit_def by blast
qed

definition edited_case :: followup_case where
  "edited_case = (hd (fu_cases example_followup))\<lparr>fc_fields := example_fields\<lparr>ce_owner := Some ''Omar''\<rparr>, fc_version := 4, fc_updated_by := Some 9\<rparr>"

lemma example_conflict:
  "updateCase example_env EMPTY_FILTERS 7 (assign_owner 3 ''Amal'') 8 ''2026-03-02 09:31:00'' edited_followup = Inl (Conflict edited_case)"
  "findCase example_env EMPTY_FILTERS edited_followup 7 = Some edited_case"
  by code_simp+

theorem update_case_exact_witness:
  "\<exists>n. fc_fields (the (findCase example_env EMPTY_FILTERS edited_followup 7)) = n \<and> ce_owner n = Some ''Omar'' \<and>
     map fc_id (fu_cases edited_followup) = map fc_id (fu_cases example_followup)"
proof -
  have d: "distinct (map fc_id (fu_cases example_followup))" by code_simp
  have "ce_owner (fc_fields (the (findCase example_env EMPTY_FILTERS edited_followup 7))) = Some ''Omar''" by code_simp
  then show ?thesis using update_case_exact [OF d example_edit [folded edited_followup_def]] by auto
qed

theorem followup_rules_kept_witness: "followup_ok edited_followup"
proof -
  have "followup_step example_env (=) id example_followup edited_followup"
    by (rule fu_update_case [OF _ example_edit [folded edited_followup_def]]) simp
  then have run: "(followup_step example_env (=) id)\<^sup>*\<^sup>* example_followup edited_followup" by (rule r_into_rtranclp)
  show ?thesis by (rule followup_rules_kept [OF _ _ example_followup_rules run]) (simp_all add: example_env_def)
qed

theorem stale_edit_refused_witness:
  "\<exists>cur. updateCase example_env EMPTY_FILTERS 7 (assign_owner 3 ''Amal'') 8 ''2026-03-02 09:31:00'' edited_followup = Inl (Conflict cur) \<and>
     3 < fc_version cur"
proof -
  have v: "as_integer (to_number (input_of (assign_owner 3 ''Amal'') ''version'')) = Some 3" by code_simp
  show ?thesis
    using stale_edit_refused [OF _ _ example_followup_rules example_case_edit rtranclp.rtrancl_refl v example_conflict(2), of "(=)"]
    by (auto simp: example_env_def)
qed

theorem conflict_retry_witness:
  "\<exists>db' shown. updateCase example_env EMPTY_FILTERS 7 ((''version'', JNum (Fin (of_int 4))) # assign_owner 3 ''Amal'') 8 ''2026-03-02 09:31:00''
     edited_followup = Inr (db', shown)"
proof -
  let ?in = "assign_owner 3 ''Amal''"
  have c: "fc_fields edited_case = example_fields\<lparr>ce_owner := Some ''Omar''\<rparr>" "fc_version edited_case = 4"
    "fc_rated edited_case = Some ''2026-03-01 08:00:00''" by (simp_all add: edited_case_def example_followup_def)
  let ?n = "example_fields\<lparr>ce_owner := Some ''Amal''\<rparr>"
  have r: "nextReasonId (ce_reason (fc_fields edited_case)) ?in = Inr None" unfolding c by code_simp
  have rule: "reason_rule example_env edited_followup (ce_reason (fc_fields edited_case)) None = Inr None" by (simp add: reason_rule_def)
  have e: "applyEdit (fc_fields edited_case) (fc_rated edited_case) ?in ''2026-03-02 09:31:00'' None = Inr ?n" unfolding c by code_simp
  have t: "times_storable example_env (changed_fields (fc_fields edited_case) ?n) ?n" unfolding c by code_simp
  have "1 \<le> fc_version edited_case" by (simp add: c)
  from conflict_retry [OF example_conflict(1) this] r rule e t show ?thesis unfolding c(2) by blast
qed

end
