(* ===== verification/Nps_Board.thy ===== *)
theory Nps_Board
  imports Nps_Followup "HOL-Library.Multiset"
begin

text \<open>
  Reading the follow-up (\<open>backend/src/services/npsFollowupService.ts\<close>, \<open>parseFollowupQuery\<close> to
  \<open>fetchCase\<close>): the query of a request, the WHERE clause of scope and filters, the paged list, the board with
  its figures, one case with its history. Beside the environment of the edits the queries use: when the
  collation takes two characters for one (\<open>bd_same\<close>), the database's day arithmetic (\<open>bd_next_day\<close>, \<open>None\<close> on
  a text that is no date) and luxon's (\<open>bd_window\<close>, thirty days back).
\<close>

section \<open>The query of a request\<close>

record followup_query =
  fq_from :: "string option"
  fq_to :: "string option"
  fq_stages :: "followup_stage list"
  fq_statuses :: "followup_status list"
  fq_categories :: "string list"
  fq_reasons :: "int list"
  fq_owners :: "string list"
  fq_source_changed :: "bool option"
  fq_search :: "string option"
  fq_page :: int
  fq_page_size :: int

definition NO_OWNER :: string where
  "NO_OWNER = ''__none__''"

definition MAX_PAGE_SIZE :: int where
  "MAX_PAGE_SIZE = 500"

definition status_name :: "followup_status \<Rightarrow> string" where
  "status_name s = (case s of Status_open \<Rightarrow> ''OPEN'' | Status_close \<Rightarrow> ''CLOSE'' | Status_disputed \<Rightarrow> ''DISPUTED'')"

definition FOLLOWUP_STATUSES :: "followup_status list" where
  "FOLLOWUP_STATUSES = [Status_open, Status_close, Status_disputed]"

definition value_list :: "jsval \<Rightarrow> jsval list" where
  "value_list v = (case v of JArr vs \<Rightarrow> vs | _ \<Rightarrow> if nullish v \<or> v = JStr [] then [] else [v])"

definition listOf :: "jsval \<Rightarrow> string list" where
  "listOf v = filter (\<lambda>s. s \<noteq> []) (map trim (concat (map (\<lambda>x. split_on CHR '','' (to_string x)) (value_list v))))"

definition ownerList :: "jsval \<Rightarrow> followup_error + string list" where
  "ownerList v =
     (if nullish v \<or> v = JStr [] then Inr []
      else let out = dedup (filter (\<lambda>s. s \<noteq> []) (map trim (concat (map (\<lambda>x. split_on CHR '','' (to_string x)) (value_list v))))) in
        if length out > 20 \<or> list_ex (\<lambda>s. length s > MAX_OWNER) out then Inl (Invalid ''query'') else Inr out)"

definition intList :: "jsval \<Rightarrow> followup_error + int list" where
  "intList v = rmap (\<lambda>s. case as_integer (string_to_number s) of None \<Rightarrow> Inl (Invalid ''query'')
     | Some n \<Rightarrow> if n < 1 then Inl (Invalid ''query'') else Inr n) (listOf v)"

definition queryDate :: "jsval \<Rightarrow> followup_error + string option" where
  "queryDate v =
     (if v = JUndef \<or> v = JStr [] then Inr None
      else let s = to_string v in if parse_iso s = None then Inl (Invalid ''query'') else Inr (Some s))"

definition enumList :: "('a \<Rightarrow> string) \<Rightarrow> 'a list \<Rightarrow> jsval \<Rightarrow> followup_error + 'a list" where
  "enumList name allowed v = rmap (\<lambda>s. case List.find (\<lambda>a. name a = to_upper s) allowed of None \<Rightarrow> Inl (Invalid ''query'') | Some a \<Rightarrow> Inr a) (listOf v)"

text \<open>\<open>/^[a-z0-9_]{1,40}$/\<close>\<close>

definition category_key_ok :: "string \<Rightarrow> bool" where
  "category_key_ok s = (1 \<le> length s \<and> length s \<le> 40 \<and> list_all (\<lambda>c. slug_char c \<or> c = CHR ''_'') s)"

definition page_number :: "jsval \<Rightarrow> int \<Rightarrow> int option \<Rightarrow> followup_error + int" where
  "page_number v fallback limit =
     (case as_integer (if v = JUndef then Fin (of_int fallback) else to_number v) of None \<Rightarrow> Inl (Invalid ''query'')
      | Some n \<Rightarrow> if n < 1 \<or> (case limit of None \<Rightarrow> False | Some m \<Rightarrow> n > m) then Inl (Invalid ''query'') else Inr n)"

definition search_text :: "jsval \<Rightarrow> string option" where
  "search_text v = (case v of JStr s \<Rightarrow> if trim s = [] then None else Some (take 100 (trim s)) | _ \<Rightarrow> None)"

definition parseFollowupQuery :: "(string \<times> jsval) list \<Rightarrow> followup_error + followup_query" where
  "parseFollowupQuery q =
     (let categories = map to_lower (listOf (input_of q ''categories'')); sc = input_of q ''sourceChanged'' in
     rbind (ensure (list_all category_key_ok categories) (Invalid ''query'')) (\<lambda>_.
     rbind (page_number (input_of q ''page'') 1 None) (\<lambda>page.
     rbind (page_number (input_of q ''pageSize'') 100 (Some MAX_PAGE_SIZE)) (\<lambda>pageSize.
     rbind (queryDate (input_of q ''dateFrom'')) (\<lambda>dateFrom.
     rbind (queryDate (input_of q ''dateTo'')) (\<lambda>dateTo.
     rbind (enumList stage_name FOLLOWUP_STAGES (input_of q ''stages'')) (\<lambda>stages.
     rbind (enumList status_name FOLLOWUP_STATUSES (input_of q ''statuses'')) (\<lambda>statuses.
     rbind (intList (input_of q ''reasonIds'')) (\<lambda>reasons.
     rbind (ownerList (input_of q ''owners'')) (\<lambda>owners.
     Inr \<lparr>fq_from = dateFrom, fq_to = dateTo, fq_stages = stages, fq_statuses = statuses, fq_categories = categories,
       fq_reasons = reasons, fq_owners = owners,
       fq_source_changed = (if sc = JUndef \<or> sc = JStr [] then None else Some (sc = JStr ''true'' \<or> sc = JStr ''1'')),
       fq_search = search_text (input_of q ''search''), fq_page = page, fq_page_size = pageSize\<rparr>))))))))))"

section \<open>The WHERE clause\<close>

record board_env =
  bd_env :: followup_env
  bd_same :: "char \<Rightarrow> char \<Rightarrow> bool"
  bd_next_day :: "string \<Rightarrow> string option"
  bd_window :: "string \<Rightarrow> string"

datatype followup_clause =
    InScope filters | RatedFrom string | RatedUpTo string | StageIn "followup_stage list" | StatusIn "followup_status list"
  | CategoryIn "string list" | ReasonIn "int list" | OwnerIn "string list" bool | SourceChanged bool | SearchLike string string

definition some_values :: "('a list \<Rightarrow> followup_clause) \<Rightarrow> 'a list \<Rightarrow> followup_clause list" where
  "some_values mk xs = (if xs = [] then [] else [mk xs])"

definition some_text :: "(string \<Rightarrow> followup_clause) \<Rightarrow> string option \<Rightarrow> followup_clause list" where
  "some_text mk t = (case t of None \<Rightarrow> [] | Some s \<Rightarrow> if s = [] then [] else [mk s])"

definition followupWhere :: "followup_query \<Rightarrow> filters \<Rightarrow> followup_clause list" where
  "followupWhere q f =
     [InScope f] @ some_text RatedFrom (fq_from q) @ some_text RatedUpTo (fq_to q) @ some_values StageIn (fq_stages q) @
     some_values StatusIn (fq_statuses q) @ some_values CategoryIn (fq_categories q) @ some_values ReasonIn (fq_reasons q) @
     some_values (\<lambda>os. OwnerIn (filter (\<lambda>n. n \<noteq> NO_OWNER) os) (NO_OWNER \<in> set os)) (fq_owners q) @
     (case fq_source_changed q of None \<Rightarrow> [] | Some b \<Rightarrow> [SourceChanged b]) @
     some_text (\<lambda>s. SearchLike (search_pattern s) (strip_hash s)) (fq_search q)"

definition reason_of :: "followup_db \<Rightarrow> followup_case \<Rightarrow> reason_row option" where
  "reason_of db c = (case ce_reason (fc_fields c) of None \<Rightarrow> None | Some i \<Rightarrow> List.find (\<lambda>r. rr_id r = i) (fu_reasons db))"

definition text_like :: "board_env \<Rightarrow> string \<Rightarrow> string option \<Rightarrow> bool" where
  "text_like bd p t = (case t of None \<Rightarrow> False | Some s \<Rightarrow> like (bd_same bd) p s)"

definition clause_ok :: "board_env \<Rightarrow> followup_db \<Rightarrow> followup_clause \<Rightarrow> followup_case \<Rightarrow> bool" where
  "clause_ok bd db cl c =
     (let collate = en_collate (bd_env bd); stage = ce_stage (fc_fields c) in
      case cl of
        InScope f \<Rightarrow> in_scope (bd_env bd) f c
      | RatedFrom d \<Rightarrow> (case fc_rated c of None \<Rightarrow> False | Some t \<Rightarrow> d @ '' 00:00:00'' \<le> t)
      | RatedUpTo d \<Rightarrow> (case (fc_rated c, bd_next_day bd d) of (Some t, Some e) \<Rightarrow> t < e @ '' 00:00:00'' | _ \<Rightarrow> False)
      | StageIn ss \<Rightarrow> stage \<in> set ss
      | StatusIn ss \<Rightarrow> (case statusOfStage stage of None \<Rightarrow> False | Some s \<Rightarrow> s \<in> set ss)
      | CategoryIn ks \<Rightarrow> (case reason_of db c of None \<Rightarrow> False | Some r \<Rightarrow> collate (rr_category r) \<in> collate ` set ks)
      | ReasonIn ids \<Rightarrow> (case ce_reason (fc_fields c) of None \<Rightarrow> False | Some i \<Rightarrow> i \<in> set ids)
      | OwnerIn names none \<Rightarrow> (case ce_owner (fc_fields c) of None \<Rightarrow> none | Some n \<Rightarrow> collate n \<in> collate ` set names)
      | SourceChanged b \<Rightarrow> fc_source_changed c = b
      | SearchLike p no \<Rightarrow> text_like bd p (rt_customer (rating_of (bd_env bd) c)) \<or> text_like bd p (rt_order_ref (rating_of (bd_env bd) c)) \<or>
          text_like bd p (rt_delivery (rating_of (bd_env bd) c)) \<or> collate (int_str (fc_id c)) = collate no)"

definition matching_cases :: "board_env \<Rightarrow> followup_clause list \<Rightarrow> followup_db \<Rightarrow> followup_case list" where
  "matching_cases bd cls db = filter (\<lambda>c. list_all (\<lambda>cl. clause_ok bd db cl c) cls) (fu_cases db)"

section \<open>A case as it is sent\<close>

record case_view =
  cw_case :: followup_case
  cw_status :: "followup_status option"
  cw_category :: "string option"
  cw_label_en :: "string option"
  cw_label_ar :: "string option"
  cw_sla :: case_sla

definition toCase :: "board_env \<Rightarrow> followup_db \<Rightarrow> string \<Rightarrow> followup_case \<Rightarrow> case_view" where
  "toCase bd db now c =
     (let r = reason_of db c; tx = en_texts (bd_env bd); fields = fc_fields c;
          note = (case r of None \<Rightarrow> False | Some k \<Rightarrow> rr_requires_note k) in
      \<lparr>cw_case = seen_case db c, cw_status = statusOfStage (ce_stage fields), cw_category = map_option rr_category r,
       cw_label_en = reasonLabel tx (map_option rr_category_en r) (Option.bind r rr_sub_en) note ''Not specified'',
       cw_label_ar = reasonLabel tx (map_option rr_category_ar r) (Option.bind r rr_sub_ar) note (tx_not_specified_ar tx),
       cw_sla = caseSla \<lparr>si_stage = stage_name (ce_stage fields), si_created = fc_created c, si_contacted = ce_contacted fields,
         si_resolved = ce_resolved fields\<rparr> now\<rparr>)"

section \<open>The list\<close>

text \<open>SQL puts NULL before every time. Newest first is the reverse of the ascending order.\<close>

definition rated_key :: "followup_case \<Rightarrow> int \<times> string \<times> int" where
  "rated_key c = (case fc_rated c of None \<Rightarrow> (0, [], fc_id c) | Some t \<Rightarrow> (1, t, fc_id c))"

definition newest_first :: "followup_case list \<Rightarrow> followup_case list" where
  "newest_first cs = rev (sort_key rated_key cs)"

record case_page =
  pg_rows :: "case_view list"
  pg_total :: nat
  pg_page :: int
  pg_size :: int

definition fetchCases :: "board_env \<Rightarrow> followup_query \<Rightarrow> filters \<Rightarrow> string \<Rightarrow> followup_db \<Rightarrow> case_page" where
  "fetchCases bd q f now db =
     (let cs = matching_cases bd (followupWhere q f) db in
      \<lparr>pg_rows = map (toCase bd db now) (take (nat (fq_page_size q)) (drop (nat ((fq_page q - 1) * fq_page_size q)) (newest_first cs))),
       pg_total = length cs, pg_page = fq_page q, pg_size = fq_page_size q\<rparr>)"

definition fetchCasesForExport ::
  "board_env \<Rightarrow> followup_query \<Rightarrow> filters \<Rightarrow> (int \<Rightarrow> string option) \<Rightarrow> bool \<Rightarrow> string \<Rightarrow> followup_db \<Rightarrow> (case_view \<times> string option) list" where
  "fetchCasesForExport bd q f comment_of withComments now db =
     map (\<lambda>c. (toCase bd db now c, if withComments then comment_of (fc_response c) else None))
       (newest_first (matching_cases bd (followupWhere q f) db))"

section \<open>One case\<close>

record history_entry =
  he_by :: string
  he_field :: string
  he_old :: "string option"
  he_new :: "string option"

definition case_history :: "followup_db \<Rightarrow> int \<Rightarrow> history_entry list" where
  "case_history db i = map (\<lambda>a. \<lparr>he_by = (case fa_by a of None \<Rightarrow> ''NPS refresh (process_nps)''
       | Some u \<Rightarrow> (case map_of (fu_users db) u of None \<Rightarrow> ''user #'' @ int_str u | Some n \<Rightarrow> n)),
     he_field = fa_field a, he_old = fa_old a, he_new = fa_new a\<rparr>) (rev (filter (\<lambda>a. fa_case a = i) (fu_audit db)))"

definition fetchCase ::
  "board_env \<Rightarrow> int \<Rightarrow> filters \<Rightarrow> (int \<Rightarrow> string option) \<Rightarrow> bool \<Rightarrow> string \<Rightarrow> followup_db \<Rightarrow> (case_view \<times> string option \<times> history_entry list) option" where
  "fetchCase bd i f comment_of canSeeComments now db =
     map_option (\<lambda>c. (toCase bd db now c, if canSeeComments then comment_of (fc_response c) else None, case_history db i))
       (first_row (filter (\<lambda>c. fc_id c = i \<and> in_scope (bd_env bd) f c) (fu_cases db)))"

section \<open>The board\<close>

definition MAX_BOARD_CASES :: nat where
  "MAX_BOARD_CASES = 2000"

record followup_kpis =
  kp_open :: nat
  kp_close :: nat
  kp_disputed :: nat
  kp_total :: nat
  kp_open_share :: "rat option"
  kp_close_share :: "rat option"
  kp_disputed_share :: "rat option"
  kp_close_missed :: nat
  kp_contact_missed :: nat
  kp_resolved :: nat
  kp_resolved_in_sla :: nat
  kp_no_reason :: nat

record followup_board =
  bo_cases :: "case_view list"
  bo_truncated :: bool
  bo_kpis :: followup_kpis

definition share :: "nat \<Rightarrow> nat \<Rightarrow> rat option" where
  "share n whole = (if whole > 0 then Some (of_nat n / of_nat whole * 100) else None)"

definition exact_hours_over :: "case_sla \<Rightarrow> rat \<Rightarrow> bool" where
  "exact_hours_over s limit = num_gt (case sla_exact s of None \<Rightarrow> Fin 0 | Some h \<Rightarrow> h) limit"

definition on_board :: "string \<Rightarrow> followup_case \<Rightarrow> bool" where
  "on_board from c = (ce_stage (fc_fields c) \<noteq> HISTORICAL \<and>
     (ce_stage (fc_fields c) \<noteq> RESOLVED \<or> (case ce_resolved (fc_fields c) of None \<Rightarrow> False | Some t \<Rightarrow> from \<le> t)))"

definition view_stage :: "case_view \<Rightarrow> followup_stage" where
  "view_stage v = ce_stage (fc_fields (cw_case v))"

definition fetchBoard :: "board_env \<Rightarrow> followup_query \<Rightarrow> filters \<Rightarrow> string \<Rightarrow> followup_db \<Rightarrow> followup_board" where
  "fetchBoard bd q f now db =
     (let w = followupWhere (q\<lparr>fq_stages := filter (\<lambda>s. s \<noteq> HISTORICAL) (fq_stages q)\<rparr>) f;
          matched = matching_cases bd w db;
          rows = take (MAX_BOARD_CASES + 1) (sort_key rated_key (filter (on_board (bd_window bd now)) matched));
          count = (\<lambda>s. length (filter (\<lambda>c. statusOfStage (ce_stage (fc_fields c)) = Some s) matched));
          total = count Status_open + count Status_close + count Status_disputed;
          views = map (toCase bd db now) rows;
          cases = take MAX_BOARD_CASES views;
          open_cases = filter (\<lambda>v. view_stage v \<in> set OPEN_STAGES) cases;
          resolved = filter (\<lambda>v. view_stage v = RESOLVED) cases
      in \<lparr>bo_cases = cases, bo_truncated = (length views > MAX_BOARD_CASES),
          bo_kpis = \<lparr>kp_open = count Status_open, kp_close = count Status_close, kp_disputed = count Status_disputed, kp_total = total,
            kp_open_share = share (count Status_open) total, kp_close_share = share (count Status_close) total,
            kp_disputed_share = share (count Status_disputed) total,
            kp_close_missed = length (filter (\<lambda>v. sla_rule (cw_sla v) = Close_missed) open_cases),
            kp_contact_missed = length (filter (\<lambda>v. \<not> given (ce_contacted (fc_fields (cw_case v))) \<and> exact_hours_over (cw_sla v) CONTACT_HOURS) open_cases),
            kp_resolved = length resolved,
            kp_resolved_in_sla = length (filter (\<lambda>v. sla_rule (cw_sla v) = Resolved_in_sla) resolved),
            kp_no_reason = length (filter (\<lambda>v. view_stage v \<noteq> REJECTED \<and> ce_reason (fc_fields (cw_case v)) = None) cases)\<rparr>\<rparr>)"

section \<open>What an accepted query is\<close>

lemma listOf_trimmed: "s \<in> set (listOf v) \<Longrightarrow> s \<noteq> [] \<and> trim s = s"
  by (auto simp: listOf_def)

lemma page_number_Inr: "page_number v fallback limit = Inr n \<Longrightarrow> 1 \<le> n \<and> (\<forall>m. limit = Some m \<longrightarrow> n \<le> m)"
  by (auto simp: page_number_def split: option.splits if_splits)

lemma intList_Inr: "intList v = Inr ns \<Longrightarrow> \<forall>n \<in> set ns. 1 \<le> n"
proof -
  assume "intList v = Inr ns"
  then have "list_all2 (\<lambda>s n. 1 \<le> n) (listOf v) ns"
    unfolding intList_def rmap_eq_Inr by (rule list_all2_mono) (auto split: option.splits if_splits)
  then show ?thesis by (simp add: list_all2_conv_all_nth all_set_conv_all_nth)
qed

lemma ownerList_Inr:
  "ownerList v = Inr os \<Longrightarrow> length os \<le> 20 \<and> distinct os \<and> (\<forall>s \<in> set os. s \<noteq> [] \<and> trim s = s \<and> length s \<le> MAX_OWNER)"
  by (auto simp: ownerList_def Let_def list_ex_iff not_less split: if_splits) blast

lemma queryDate_Inr: "queryDate v = Inr d \<Longrightarrow> \<forall>t \<in> set_option d. parse_iso t \<noteq> None"
  by (auto simp: queryDate_def Let_def split: if_splits)

text \<open>An accepted query is well formed: a page from 1, a page size from 1 to 500, dates that are dates, reason
numbers from 1, category keys of the allowed shape, at most twenty distinct, trimmed, non-empty owner names
of at most 120 characters, and a search text that is not empty and has at most 100 characters.\<close>

theorem parsed_query_well_formed:
  assumes "parseFollowupQuery q = Inr r"
  shows "1 \<le> fq_page r \<and> 1 \<le> fq_page_size r \<and> fq_page_size r \<le> 500 \<and>
    (\<forall>t \<in> set_option (fq_from r) \<union> set_option (fq_to r). parse_iso t \<noteq> None) \<and> (\<forall>n \<in> set (fq_reasons r). 1 \<le> n) \<and>
    (\<forall>k \<in> set (fq_categories r). category_key_ok k) \<and> length (fq_owners r) \<le> 20 \<and> distinct (fq_owners r) \<and>
    (\<forall>s \<in> set (fq_owners r). s \<noteq> [] \<and> trim s = s \<and> length s \<le> 120) \<and>
    (\<forall>s \<in> set_option (fq_search r). s \<noteq> [] \<and> length s \<le> 100)"
proof -
  from assms obtain page size df dt reasons owners where p: "page_number (input_of q ''page'') 1 None = Inr page"
    "page_number (input_of q ''pageSize'') 100 (Some MAX_PAGE_SIZE) = Inr size" "queryDate (input_of q ''dateFrom'') = Inr df"
    "queryDate (input_of q ''dateTo'') = Inr dt" "intList (input_of q ''reasonIds'') = Inr reasons" "ownerList (input_of q ''owners'') = Inr owners"
    and r: "fq_page r = page" "fq_page_size r = size" "fq_from r = df" "fq_to r = dt" "fq_reasons r = reasons" "fq_owners r = owners"
      "fq_search r = search_text (input_of q ''search'')" "list_all category_key_ok (fq_categories r)"
    unfolding parseFollowupQuery_def Let_def rbind_eq_Inr ensure_eq_Inr sum.inject by force
  have "\<forall>s \<in> set_option (fq_search r). s \<noteq> [] \<and> length s \<le> 100"
    unfolding r(7) by (auto simp: search_text_def split: jsval.splits if_splits)
  then show ?thesis
    using page_number_Inr [OF p(1)] page_number_Inr [OF p(2)] queryDate_Inr [OF p(3)] queryDate_Inr [OF p(4)]
      intList_Inr [OF p(5)] ownerList_Inr [OF p(6)] r(1-6,8)
    by (simp add: MAX_PAGE_SIZE_def MAX_OWNER_def list_all_iff ball_Un)
qed

section \<open>What the list shows\<close>

text \<open>A case a reader would expect under scope and filters.\<close>

definition case_listed :: "board_env \<Rightarrow> followup_db \<Rightarrow> followup_query \<Rightarrow> filters \<Rightarrow> followup_case \<Rightarrow> bool" where
  "case_listed bd db q f c \<longleftrightarrow>
     (let collate = en_collate (bd_env bd); fields = fc_fields c; rating = rating_of (bd_env bd) c in
      where_holds (en_profiles (bd_env bd)) (buildWhereClause f True) (rt_fact rating) \<and>
      (\<forall>d. fq_from q = Some d \<longrightarrow> d \<noteq> [] \<longrightarrow> (\<exists>t. fc_rated c = Some t \<and> d @ '' 00:00:00'' \<le> t)) \<and>
      (\<forall>d. fq_to q = Some d \<longrightarrow> d \<noteq> [] \<longrightarrow> (\<exists>t e. fc_rated c = Some t \<and> bd_next_day bd d = Some e \<and> t < e @ '' 00:00:00'')) \<and>
      (fq_stages q \<noteq> [] \<longrightarrow> ce_stage fields \<in> set (fq_stages q)) \<and>
      (fq_statuses q \<noteq> [] \<longrightarrow> statusOfStage (ce_stage fields) \<in> Some ` set (fq_statuses q)) \<and>
      (fq_categories q \<noteq> [] \<longrightarrow> (\<exists>r. reason_of db c = Some r \<and> (\<exists>k \<in> set (fq_categories q). collate (rr_category r) = collate k))) \<and>
      (fq_reasons q \<noteq> [] \<longrightarrow> ce_reason fields \<in> Some ` set (fq_reasons q)) \<and>
      (fq_owners q \<noteq> [] \<longrightarrow> (case ce_owner fields of None \<Rightarrow> ''__none__'' \<in> set (fq_owners q)
         | Some n \<Rightarrow> \<exists>o' \<in> set (fq_owners q). o' \<noteq> ''__none__'' \<and> collate n = collate o')) \<and>
      (\<forall>b. fq_source_changed q = Some b \<longrightarrow> fc_source_changed c = b) \<and>
      (\<forall>s. fq_search q = Some s \<longrightarrow> s \<noteq> [] \<longrightarrow> collate (int_str (fc_id c)) = collate (strip_hash s) \<or>
         (\<exists>t \<in> set_option (rt_customer rating) \<union> set_option (rt_order_ref rating) \<union> set_option (rt_delivery rating).
            \<exists>a b d. t = a @ b @ d \<and> list_all2 (bd_same bd) s b)))"

lemma where_case_listed: "list_all (\<lambda>cl. clause_ok bd db cl c) (followupWhere q f) \<longleftrightarrow> case_listed bd db q f c"
proof -
  have t: "list_all P (some_text mk d) \<longleftrightarrow> (\<forall>s. d = Some s \<longrightarrow> s \<noteq> [] \<longrightarrow> P (mk s))" for P mk d
    by (cases d) (simp_all add: some_text_def)
  have v: "list_all P (some_values mk xs) \<longleftrightarrow> (xs \<noteq> [] \<longrightarrow> P (mk xs))" for P and mk :: "'a list \<Rightarrow> followup_clause" and xs
    by (simp add: some_values_def)
  have b: "list_all P (case fq_source_changed q of None \<Rightarrow> [] | Some b \<Rightarrow> [SourceChanged b]) \<longleftrightarrow>
      (\<forall>b. fq_source_changed q = Some b \<longrightarrow> P (SourceChanged b))" for P
    by (cases "fq_source_changed q") simp_all
  have like_text: "text_like bd (search_pattern s) x \<longleftrightarrow> (\<exists>t \<in> set_option x. \<exists>a b d. t = a @ b @ d \<and> list_all2 (bd_same bd) s b)" for s x
    by (cases x) (simp_all add: text_like_def like_search)
  have search: "clause_ok bd db (SearchLike (search_pattern s) no) c \<longleftrightarrow> en_collate (bd_env bd) (int_str (fc_id c)) = en_collate (bd_env bd) no \<or>
      (\<exists>t \<in> set_option (rt_customer (rating_of (bd_env bd) c)) \<union> set_option (rt_order_ref (rating_of (bd_env bd) c)) \<union>
         set_option (rt_delivery (rating_of (bd_env bd) c)). \<exists>a b d. t = a @ b @ d \<and> list_all2 (bd_same bd) s b)" for s no
    unfolding clause_ok_def Let_def followup_clause.case like_text by blast
  have dates: "clause_ok bd db (RatedFrom d) c \<longleftrightarrow> (\<exists>t. fc_rated c = Some t \<and> d @ '' 00:00:00'' \<le> t)"
    "clause_ok bd db (RatedUpTo d) c \<longleftrightarrow> (\<exists>t e. fc_rated c = Some t \<and> bd_next_day bd d = Some e \<and> t < e @ '' 00:00:00'')" for d
    by (simp_all add: clause_ok_def split: option.split)
  have lists: "clause_ok bd db (StatusIn ss) c \<longleftrightarrow> statusOfStage (ce_stage (fc_fields c)) \<in> Some ` set ss"
    "clause_ok bd db (CategoryIn ks) c \<longleftrightarrow> (\<exists>r. reason_of db c = Some r \<and> (\<exists>k \<in> set ks. en_collate (bd_env bd) (rr_category r) = en_collate (bd_env bd) k))"
    "clause_ok bd db (ReasonIn ids) c \<longleftrightarrow> ce_reason (fc_fields c) \<in> Some ` set ids" for ss ks ids
    by (auto simp: clause_ok_def Let_def image_iff split: option.split)
  have owners: "clause_ok bd db (OwnerIn (filter (\<lambda>n. n \<noteq> NO_OWNER) os) (NO_OWNER \<in> set os)) c \<longleftrightarrow>
      (case ce_owner (fc_fields c) of None \<Rightarrow> ''__none__'' \<in> set os
         | Some n \<Rightarrow> \<exists>o' \<in> set os. o' \<noteq> ''__none__'' \<and> en_collate (bd_env bd) n = en_collate (bd_env bd) o')" for os
    by (auto simp: clause_ok_def Let_def NO_OWNER_def image_iff split: option.split)
  have rest: "clause_ok bd db (InScope f) c \<longleftrightarrow> where_holds (en_profiles (bd_env bd)) (buildWhereClause f True) (rt_fact (rating_of (bd_env bd) c))"
    "clause_ok bd db (StageIn ss) c \<longleftrightarrow> ce_stage (fc_fields c) \<in> set ss" "clause_ok bd db (SourceChanged x) c \<longleftrightarrow> fc_source_changed c = x" for ss x
    by (simp_all add: clause_ok_def in_scope_def)
  show ?thesis
    unfolding followupWhere_def list_all_append t v b search dates lists owners rest case_listed_def Let_def
    by (simp add: rest)
qed

lemma matching_listed: "matching_cases bd (followupWhere q f) db = filter (case_listed bd db q f) (fu_cases db)"
  by (simp add: matching_cases_def where_case_listed)

lemma concat_pages: "concat (map (\<lambda>p. take k (drop (p * k) xs)) [0..<n]) = take (n * k) xs"
proof (induction n)
  case (Suc n)
  have "take (n * k) xs @ take k (drop (n * k) xs) = take (n * k + k) xs" by (simp add: take_add)
  then show ?case using Suc by (simp add: add.commute)
qed simp

lemma newest_first_order:
  "sorted_wrt (\<lambda>a b. rated_key b \<le> rated_key a) (newest_first cs)" "mset (newest_first cs) = mset cs"
  using sorted_sort_key [of rated_key cs] by (simp_all add: newest_first_def sorted_wrt_rev sorted_map)

text \<open>C40. The list shows, once each and newest rating first, exactly the cases in the reader's scope that meet every
filter (a text search finds the cases one of whose texts contains it, special characters included, or whose
number it is); the total counts them all, a page has at most its size, and the pages put together are the
whole list.\<close>

theorem list_pages_exact:
  "let page = \<lambda>p. fetchCases bd (q\<lparr>fq_page := int p + 1, fq_page_size := int psize\<rparr>) f now db in
   \<exists>found. mset found = mset (filter (case_listed bd db q f) (fu_cases db)) \<and>
    sorted_wrt (\<lambda>a b. rated_key b \<le> rated_key a) found \<and>
    (\<forall>p. pg_total (page p) = length found \<and> pg_rows (page p) = map (toCase bd db now) (take psize (drop (p * psize) found)) \<and>
       length (pg_rows (page p)) \<le> psize) \<and>
    (\<forall>n. length found \<le> n * psize \<longrightarrow> concat (map (\<lambda>p. pg_rows (page p)) [0..<n]) = map (toCase bd db now) found)"
proof -
  let ?page = "\<lambda>p. fetchCases bd (q\<lparr>fq_page := int p + 1, fq_page_size := int psize\<rparr>) f now db"
  let ?listed = "filter (case_listed bd db q f) (fu_cases db)"
  let ?found = "newest_first ?listed"
  have w: "followupWhere (q\<lparr>fq_page := a, fq_page_size := b\<rparr>) f = followupWhere q f" for a b by (simp add: followupWhere_def)
  have rows: "pg_rows (?page p) = map (toCase bd db now) (take psize (drop (p * psize) ?found))" for p
    unfolding fetchCases_def Let_def w matching_listed by (simp add: nat_mult_distrib)
  have n: "length ?found = length ?listed" by (metis newest_first_order(2) size_mset)
  have count: "pg_total (?page p) = length ?found" for p
    unfolding fetchCases_def Let_def w matching_listed by (simp add: n)
  have pages: "concat (map (\<lambda>p. pg_rows (?page p)) [0..<n]) = map (toCase bd db now) ?found" if "length ?found \<le> n * psize" for n
  proof -
    have "concat (map (\<lambda>p. pg_rows (?page p)) [0..<n]) = map (toCase bd db now) (concat (map (\<lambda>p. take psize (drop (p * psize) ?found)) [0..<n]))"
      unfolding rows by (simp add: map_concat comp_def)
    then show ?thesis using that by (simp add: concat_pages)
  qed
  have "\<forall>p. pg_total (?page p) = length ?found \<and> pg_rows (?page p) = map (toCase bd db now) (take psize (drop (p * psize) ?found)) \<and>
       length (pg_rows (?page p)) \<le> psize" using rows count by simp
  then show ?thesis using newest_first_order [of ?listed] pages unfolding Let_def by blast
qed

section \<open>What the board shows\<close>

lemma status_counts:
  "length (filter (\<lambda>c. statusOfStage (g c) = Some Status_open) cs) + length (filter (\<lambda>c. statusOfStage (g c) = Some Status_close) cs) +
   length (filter (\<lambda>c. statusOfStage (g c) = Some Status_disputed) cs) = length (filter (\<lambda>c. g c \<noteq> HISTORICAL) cs)"
proof (induction cs)
  case (Cons c cs)
  then show ?case by (cases "g c") (simp_all add: statusOfStage_def OPEN_STAGES_def)
qed simp

lemma shares_add_up:
  "a + b + c = n \<Longrightarrow> n > 0 \<Longrightarrow> the (share a n) + the (share b n) + the (share c n) = 100"
  by (simp add: share_def add_divide_distrib [symmetric] distrib_right [symmetric] flip: of_nat_add)

lemma toCase_fields [simp]:
  "ce_stage (fc_fields (cw_case (toCase bd db now c))) = ce_stage (fc_fields c)"
  "ce_reason (fc_fields (cw_case (toCase bd db now c))) = ce_reason (fc_fields c)"
  "ce_contacted (fc_fields (cw_case (toCase bd db now c))) = ce_contacted (fc_fields c)"
  "fc_id (cw_case (toCase bd db now c)) = fc_id c"
  by (simp_all add: toCase_def Let_def seen_case_def)

text \<open>The board shows, oldest rating first, the listed cases of the chosen stages other than Historical, resolved
ones only from the last thirty days, the first two thousand of them and says when there are more; its open,
closed and disputed figures count every listed case that is not Historical exactly once, whatever the board
shows, their shares add up to a hundred, and a share is given exactly when there is a case to count.\<close>

theorem board_exact:
  "let b = fetchBoard bd q f now db; k = bo_kpis b;
       listed = filter (case_listed bd db (q\<lparr>fq_stages := filter (\<lambda>s. s \<noteq> HISTORICAL) (fq_stages q)\<rparr>) f) (fu_cases db) in
    (\<exists>found. mset found = mset (filter (on_board (bd_window bd now)) listed) \<and> sorted_wrt (\<lambda>a b. rated_key a \<le> rated_key b) found \<and>
      bo_cases b = map (toCase bd db now) (take 2000 found) \<and> (bo_truncated b \<longleftrightarrow> length found > 2000)) \<and>
    kp_total k = length (filter (\<lambda>c. ce_stage (fc_fields c) \<noteq> HISTORICAL) listed) \<and> kp_total k = kp_open k + kp_close k + kp_disputed k \<and>
    kp_close k = length (filter (\<lambda>c. ce_stage (fc_fields c) = RESOLVED) listed) \<and>
    (if kp_total k = 0 then kp_open_share k = None \<and> kp_close_share k = None \<and> kp_disputed_share k = None
     else \<exists>x y z. kp_open_share k = Some x \<and> kp_close_share k = Some y \<and> kp_disputed_share k = Some z \<and> x + y + z = 100) \<and>
    kp_resolved_in_sla k \<le> kp_resolved k \<and> kp_resolved k \<le> kp_close k"
proof -
  let ?q = "q\<lparr>fq_stages := filter (\<lambda>s. s \<noteq> HISTORICAL) (fq_stages q)\<rparr>"
  let ?listed = "filter (case_listed bd db ?q f) (fu_cases db)"
  let ?found = "sort_key rated_key (filter (on_board (bd_window bd now)) ?listed)"
  let ?b = "fetchBoard bd q f now db"
  let ?n = "\<lambda>s. length (filter (\<lambda>c. statusOfStage (ce_stage (fc_fields c)) = Some s) ?listed)"
  note board = fetchBoard_def [of bd q f now db, unfolded Let_def matching_listed MAX_BOARD_CASES_def]
  have cases: "bo_cases ?b = map (toCase bd db now) (take 2000 ?found)" "bo_truncated ?b \<longleftrightarrow> length ?found > 2000"
    unfolding board by (auto simp: take_map [symmetric])
  have counts: "kp_open (bo_kpis ?b) = ?n Status_open" "kp_close (bo_kpis ?b) = ?n Status_close" "kp_disputed (bo_kpis ?b) = ?n Status_disputed"
    "kp_total (bo_kpis ?b) = ?n Status_open + ?n Status_close + ?n Status_disputed"
    "kp_open_share (bo_kpis ?b) = share (?n Status_open) (?n Status_open + ?n Status_close + ?n Status_disputed)"
    "kp_close_share (bo_kpis ?b) = share (?n Status_close) (?n Status_open + ?n Status_close + ?n Status_disputed)"
    "kp_disputed_share (bo_kpis ?b) = share (?n Status_disputed) (?n Status_open + ?n Status_close + ?n Status_disputed)"
    unfolding board by simp_all
  have closed: "statusOfStage s = Some Status_close \<longleftrightarrow> s = RESOLVED" for s by (cases s) (simp_all add: statusOfStage_def OPEN_STAGES_def)
  have resolved: "kp_resolved (bo_kpis ?b) = length (filter (\<lambda>v. view_stage v = RESOLVED) (bo_cases ?b))"
    "kp_resolved_in_sla (bo_kpis ?b) \<le> kp_resolved (bo_kpis ?b)"
  proof -
    show "kp_resolved (bo_kpis ?b) = length (filter (\<lambda>v. view_stage v = RESOLVED) (bo_cases ?b))"
      unfolding board by simp
    show "kp_resolved_in_sla (bo_kpis ?b) \<le> kp_resolved (bo_kpis ?b)"
      unfolding board by (simp only: followup_kpis.simps followup_board.simps length_filter_le)
  qed
  have "kp_resolved (bo_kpis ?b) = length (filter (\<lambda>c. ce_stage (fc_fields c) = RESOLVED) (take 2000 ?found))"
    unfolding resolved cases by (simp add: filter_map comp_def view_stage_def)
  also have "\<dots> \<le> length (filter (\<lambda>c. ce_stage (fc_fields c) = RESOLVED) ?found)"
    by (metis (no_types, lifting) append_take_drop_id filter_append le_add1 length_append)
  also have "\<dots> = size (filter_mset (\<lambda>c. ce_stage (fc_fields c) = RESOLVED) (mset ?found))" by (metis mset_filter size_mset)
  also have "\<dots> = length (filter (\<lambda>c. ce_stage (fc_fields c) = RESOLVED) (filter (on_board (bd_window bd now)) ?listed))"
    by (metis mset_filter mset_sort size_mset)
  also have "\<dots> \<le> ?n Status_close" unfolding closed by (simp add: filter_filter length_filter_conv_card conj_commute) (auto intro!: card_mono)
  finally have le: "kp_resolved (bo_kpis ?b) \<le> kp_close (bo_kpis ?b)" unfolding counts .
  have sorted: "sorted_wrt (\<lambda>a b. rated_key a \<le> rated_key b) ?found" using sorted_sort_key [of rated_key] by (simp add: sorted_map)
  have shares: "if a + c + d = 0 then share a (a + c + d) = None \<and> share c (a + c + d) = None \<and> share d (a + c + d) = None
     else \<exists>x y z. share a (a + c + d) = Some x \<and> share c (a + c + d) = Some y \<and> share d (a + c + d) = Some z \<and> x + y + z = 100" for a c d
    using shares_add_up [of a c d "a + c + d"] by (auto simp: share_def)
  let ?k = "bo_kpis ?b"
  have "\<exists>found. mset found = mset (filter (on_board (bd_window bd now)) ?listed) \<and> sorted_wrt (\<lambda>a b. rated_key a \<le> rated_key b) found \<and>
      bo_cases ?b = map (toCase bd db now) (take 2000 found) \<and> (bo_truncated ?b \<longleftrightarrow> length found > 2000)"
    using cases sorted by (intro exI [of _ ?found] conjI) (simp_all only: mset_sort)
  moreover have "kp_total ?k = length (filter (\<lambda>c. ce_stage (fc_fields c) \<noteq> HISTORICAL) ?listed)"
    unfolding counts by (rule status_counts)
  moreover have "kp_total ?k = kp_open ?k + kp_close ?k + kp_disputed ?k" unfolding counts by (rule refl)
  moreover have "kp_close ?k = length (filter (\<lambda>c. ce_stage (fc_fields c) = RESOLVED) ?listed)" unfolding counts closed by (rule refl)
  moreover have "if kp_total ?k = 0 then kp_open_share ?k = None \<and> kp_close_share ?k = None \<and> kp_disputed_share ?k = None
     else \<exists>x y z. kp_open_share ?k = Some x \<and> kp_close_share ?k = Some y \<and> kp_disputed_share ?k = Some z \<and> x + y + z = 100"
    unfolding counts by (rule shares)
  ultimately show ?thesis unfolding Let_def using resolved(2) le by blast
qed

section \<open>An example\<close>

definition example_board :: board_env where
  "example_board = \<lparr>bd_env = example_env, bd_same = (=), bd_next_day = (\<lambda>d. Some d), bd_window = (\<lambda>_. [])\<rparr>"

lemma example_query:
  "parseFollowupQuery [(''search'', JStr '' #7 ''), (''owners'', JStr ''Mona, Omar,Mona''), (''stages'', JStr ''contacted'')] =
     Inr \<lparr>fq_from = None, fq_to = None, fq_stages = [CONTACTED], fq_statuses = [], fq_categories = [], fq_reasons = [],
       fq_owners = [''Mona'', ''Omar''], fq_source_changed = None, fq_search = Some ''#7'', fq_page = 1, fq_page_size = 100\<rparr>"
  by code_simp

theorem parsed_query_well_formed_witness:
  "let r = \<lparr>fq_from = None, fq_to = None, fq_stages = [CONTACTED], fq_statuses = [], fq_categories = [], fq_reasons = [],
       fq_owners = [''Mona'', ''Omar''], fq_source_changed = None, fq_search = Some ''#7'', fq_page = 1, fq_page_size = 100\<rparr> in
   distinct (fq_owners r) \<and> fq_page_size r \<le> 500"
  unfolding Let_def using parsed_query_well_formed [OF example_query] by blast

definition all_cases :: followup_query where
  "all_cases = \<lparr>fq_from = None, fq_to = None, fq_stages = [], fq_statuses = [], fq_categories = [], fq_reasons = [],
       fq_owners = [], fq_source_changed = None, fq_search = None, fq_page = 1, fq_page_size = 1\<rparr>"

theorem list_pages_exact_witness:
  "\<exists>found. mset found = mset (filter (case_listed example_board example_followup all_cases EMPTY_FILTERS) (fu_cases example_followup)) \<and>
     length (pg_rows (fetchCases example_board (all_cases\<lparr>fq_page := 2, fq_page_size := 1\<rparr>) EMPTY_FILTERS ''2026-03-02 09:00:00'' example_followup)) \<le> 1"
proof -
  from list_pages_exact [where bd = example_board and q = all_cases and psize = 1 and f = EMPTY_FILTERS and
    now = "''2026-03-02 09:00:00''" and db = example_followup]
  obtain found where "mset found = mset (filter (case_listed example_board example_followup all_cases EMPTY_FILTERS) (fu_cases example_followup))"
    "\<forall>p. length (pg_rows (fetchCases example_board (all_cases\<lparr>fq_page := int p + 1, fq_page_size := int 1\<rparr>) EMPTY_FILTERS
        ''2026-03-02 09:00:00'' example_followup)) \<le> 1"
    unfolding Let_def by blast
  from this(1) spec [OF this(2), of 1] show ?thesis by auto
qed

theorem board_exact_witness:
  "let k = bo_kpis (fetchBoard example_board all_cases EMPTY_FILTERS ''2026-03-02 09:00:00'' example_followup) in
   kp_total k = kp_open k + kp_close k + kp_disputed k \<and> kp_resolved_in_sla k \<le> kp_resolved k"
  using board_exact [of example_board all_cases EMPTY_FILTERS "''2026-03-02 09:00:00''" example_followup] unfolding Let_def by blast

end
