(* ===== verification/Etl_Runs.thy ===== *)
theory Etl_Runs
  imports Js_Values
begin

text \<open>
  The table of ETL runs (\<open>backend/src/etl/services/etlRunTracker.ts\<close>): a run is a row from the moment it is
  queued, and the rows that are queued or running are the lock that keeps other runs out. Times are seconds
  (\<open>now\<close> is \<open>CURRENT_TIMESTAMP\<close>), texts that only a person reads are kept where the code writes them. The
  log of the Python platform (\<open>etl_run_log\<close>) is a table the backend reads only.
\<close>

section \<open>Jobs and states\<close>

datatype etl_mode = Mode_incremental | Mode_full | Mode_sql | Mode_excel | Mode_finance | Mode_nps | Mode_refresh | Mode_sales_build

datatype load_mode = Load_full | Load_incremental

datatype output_mode = Output_sql | Output_excel | Output_both

datatype trigger_source = Trigger_scheduled | Trigger_manual | Trigger_api | Trigger_development

datatype run_status = Run_queued | Run_running | Run_success | Run_partial | Run_failed | Run_cancelled | Run_skipped

definition FINISHED_RUN_STATUSES :: "run_status list" where
  "FINISHED_RUN_STATUSES = [Run_success, Run_partial, Run_failed, Run_cancelled, Run_skipped]"

datatype platform_job = Job_main | Job_sales_incremental | Job_sales_full | Job_full_all | Job_core_dims | Job_finance_receivables
  | Job_process_nps | Job_refresh_30m | Job_sales_mirror | Job_sales_build | Job_sales_shadow_compare

definition job_name :: "platform_job \<Rightarrow> string" where
  "job_name j = (case j of Job_main \<Rightarrow> ''main'' | Job_sales_incremental \<Rightarrow> ''sales_incremental'' | Job_sales_full \<Rightarrow> ''sales_full''
     | Job_full_all \<Rightarrow> ''full_all'' | Job_core_dims \<Rightarrow> ''core_dims'' | Job_finance_receivables \<Rightarrow> ''finance_receivables''
     | Job_process_nps \<Rightarrow> ''process_nps'' | Job_refresh_30m \<Rightarrow> ''refresh_30m'' | Job_sales_mirror \<Rightarrow> ''sales_mirror''
     | Job_sales_build \<Rightarrow> ''sales_build'' | Job_sales_shadow_compare \<Rightarrow> ''sales_shadow_compare'')"

lemma job_name_inject [simp]: "job_name i = job_name j \<longleftrightarrow> i = j"
  by (cases i; cases j) (simp_all add: job_name_def)

definition REFRESH_JOB :: platform_job where
  "REFRESH_JOB = Job_refresh_30m"

definition LONG_QUEUE_JOBS :: "string list" where
  "LONG_QUEUE_JOBS = [job_name Job_sales_build]"

definition platformJobFor :: "load_mode \<Rightarrow> platform_job option \<Rightarrow> platform_job" where
  "platformJobFor load job = (case job of Some j \<Rightarrow> j | None \<Rightarrow> if load = Load_incremental then Job_main else Job_full_all)"

section \<open>Tables\<close>

record etl_run =
  er_id :: int
  er_job_id :: "string option"
  er_job_type :: string
  er_mode :: etl_mode
  er_load :: load_mode
  er_output :: output_mode
  er_trigger :: trigger_source
  er_user :: "int option"
  er_user_name :: "string option"
  er_status :: run_status
  er_queued :: int
  er_started :: "int option"
  er_finished :: "int option"
  er_duration :: "int option"
  er_exit :: "int option"
  er_error :: "string option"
  er_extract :: "int option"
  er_loaded :: "int option"
  er_qa :: "int option"
  er_log :: "int option"

record log_row =
  lg_id :: int
  lg_uid :: string
  lg_parent :: "string option"
  lg_job :: string
  lg_department :: "string option"
  lg_status :: string
  lg_duration :: "int option"
  lg_extract :: "int option"
  lg_rows :: "int option"
  lg_qa :: "int option"
  lg_error :: "string option"

record etl_db =
  ed_runs :: "etl_run list"
  ed_seq :: int
  ed_log :: "log_row list"

definition run_active :: "etl_run \<Rightarrow> bool" where
  "run_active r \<longleftrightarrow> er_status r \<in> {Run_queued, Run_running}"

definition change_run :: "int \<Rightarrow> (etl_run \<Rightarrow> etl_run) \<Rightarrow> etl_db \<Rightarrow> etl_db" where
  "change_run i f db = db\<lparr>ed_runs := update_where (\<lambda>r. er_id r = i) f (ed_runs db)\<rparr>"

section \<open>Writing\<close>

record queued_input =
  qi_job_type :: "string option"
  qi_mode :: etl_mode
  qi_load :: load_mode
  qi_output :: output_mode
  qi_trigger :: trigger_source
  qi_user :: "int option"
  qi_user_name :: "string option"

definition createQueuedRun :: "queued_input \<Rightarrow> int \<Rightarrow> etl_db \<Rightarrow> etl_db \<times> int" where
  "createQueuedRun q now db =
     (db\<lparr>ed_runs := ed_runs db @ [\<lparr>er_id = ed_seq db, er_job_id = None,
            er_job_type = (case qi_job_type q of None \<Rightarrow> ''odoo_sync'' | Some t \<Rightarrow> t), er_mode = qi_mode q, er_load = qi_load q,
            er_output = qi_output q, er_trigger = qi_trigger q, er_user = qi_user q, er_user_name = qi_user_name q,
            er_status = Run_queued, er_queued = now, er_started = None, er_finished = None, er_duration = None, er_exit = None,
            er_error = None, er_extract = None, er_loaded = None, er_qa = None, er_log = None\<rparr>],
         ed_seq := ed_seq db + 1\<rparr>, ed_seq db)"

definition setRunJobId :: "int \<Rightarrow> string \<Rightarrow> etl_db \<Rightarrow> etl_db" where
  "setRunJobId i jobId = change_run i (\<lambda>r. r\<lparr>er_job_id := Some jobId\<rparr>)"

definition markRunStarted :: "int \<Rightarrow> int \<Rightarrow> etl_db \<Rightarrow> etl_db" where
  "markRunStarted i now = change_run i (\<lambda>r. r\<lparr>er_status := Run_running, er_started := Some now\<rparr>)"

definition markRunRetrying :: "int \<Rightarrow> string \<Rightarrow> etl_db \<Rightarrow> etl_db" where
  "markRunRetrying i msg =
     change_run i (\<lambda>r. r\<lparr>er_status := Run_queued, er_started := None,
       er_error := Some (take 60000 (''Attempt failed, retrying: '' @ msg))\<rparr>)"

record finish_input =
  fi_status :: run_status
  fi_exit :: "int option"
  fi_error :: "string option"
  fi_extract :: "int option"
  fi_loaded :: "int option"
  fi_qa :: "int option"
  fi_log :: "int option"

definition finished_row :: "finish_input \<Rightarrow> int \<Rightarrow> etl_run \<Rightarrow> etl_run" where
  "finished_row fi now r =
     r\<lparr>er_status := fi_status fi, er_finished := Some now,
       er_duration := Some (now - (case er_started r of None \<Rightarrow> er_queued r | Some t \<Rightarrow> t)), er_exit := fi_exit fi,
       er_error := fi_error fi, er_extract := fi_extract fi, er_loaded := fi_loaded fi, er_qa := fi_qa fi, er_log := fi_log fi\<rparr>"

definition finishRun :: "int \<Rightarrow> finish_input \<Rightarrow> int \<Rightarrow> etl_db \<Rightarrow> etl_db" where
  "finishRun i fi now = change_run i (finished_row fi now)"

definition failure :: "string \<Rightarrow> finish_input" where
  "failure msg = \<lparr>fi_status = Run_failed, fi_exit = None, fi_error = Some msg, fi_extract = None, fi_loaded = None, fi_qa = None, fi_log = None\<rparr>"

section \<open>Reading\<close>

definition active_runs :: "etl_db \<Rightarrow> etl_run list" where
  "active_runs db = filter run_active (ed_runs db)"

definition activeEtlRunJobTypes :: "etl_db \<Rightarrow> string list" where
  "activeEtlRunJobTypes db = map er_job_type (active_runs db)"

definition hasActiveEtlRun :: "etl_db \<Rightarrow> bool" where
  "hasActiveEtlRun db = (active_runs db \<noteq> [])"

text \<open>\<open>ORDER BY id DESC LIMIT 1\<close>, and \<open>ORDER BY finished_at DESC LIMIT 1\<close> (which row of a tie is left to the
database; the model takes the last one).\<close>

fun newest :: "('r \<Rightarrow> int) \<Rightarrow> 'r list \<Rightarrow> 'r option" where
  "newest key [] = None"
| "newest key (r # rs) = (case newest key rs of None \<Rightarrow> Some r | Some s \<Rightarrow> Some (if key r > key s then r else s))"

definition is_sales_build :: "etl_run \<Rightarrow> bool" where
  "is_sales_build r = (er_job_type r = ''sales_build'')"

definition getActiveRun :: "etl_db \<Rightarrow> etl_run option" where
  "getActiveRun db =
     (case newest er_id (filter (\<lambda>r. \<not> is_sales_build r) (active_runs db)) of
        Some r \<Rightarrow> Some r | None \<Rightarrow> newest er_id (active_runs db))"

definition getActiveSalesBuild :: "etl_db \<Rightarrow> etl_run option" where
  "getActiveSalesBuild db = newest er_id (filter is_sales_build (active_runs db))"

definition finished_runs :: "etl_db \<Rightarrow> etl_run list" where
  "finished_runs db = filter (\<lambda>r. er_status r \<in> set FINISHED_RUN_STATUSES) (ed_runs db)"

text \<open>NULL sorts before every time.\<close>

definition finished_key :: "etl_run \<Rightarrow> int" where
  "finished_key r = (case er_finished r of None \<Rightarrow> - 1 | Some t \<Rightarrow> t)"

definition getLastSalesBuild :: "etl_db \<Rightarrow> etl_run option" where
  "getLastSalesBuild db = newest finished_key (filter is_sales_build (finished_runs db))"

definition getLastFinishedRun :: "etl_db \<Rightarrow> etl_run option" where
  "getLastFinishedRun db = newest finished_key (finished_runs db)"

definition getRunById :: "int \<Rightarrow> etl_db \<Rightarrow> etl_run option" where
  "getRunById i db = first_row (filter (\<lambda>r. er_id r = i) (ed_runs db))"

definition getMaxEtlRunId :: "etl_db \<Rightarrow> int" where
  "getMaxEtlRunId db = (case newest lg_id (ed_log db) of None \<Rightarrow> 0 | Some l \<Rightarrow> lg_id l)"

definition correlateLatestEtlRun :: "int \<Rightarrow> etl_db \<Rightarrow> log_row option" where
  "correlateLatestEtlRun baseline db = newest lg_id (filter (\<lambda>l. lg_id l > baseline \<and> lg_parent l = None) (ed_log db))"

text \<open>The steps of the given top-level log rows: the rows whose parent is one of them, in run order.\<close>

definition fetchRunSteps :: "int list \<Rightarrow> etl_db \<Rightarrow> int \<Rightarrow> log_row list" where
  "fetchRunSteps ids db i =
     (if i \<notin> set ids then []
      else sort_key lg_id (filter (\<lambda>c. \<exists>p \<in> set (ed_log db). lg_id p = i \<and> lg_parent c = Some (lg_uid p)) (ed_log db)))"

record history_filters =
  hf_status :: "run_status option"
  hf_mode :: "etl_mode option"
  hf_from :: "string option"
  hf_to :: "string option"
  hf_page :: int
  hf_size :: int

text \<open>A date text of the request is read by the database (\<open>read_time\<close>).\<close>

definition history_clause :: "(string \<Rightarrow> int) \<Rightarrow> history_filters \<Rightarrow> etl_run \<Rightarrow> bool" where
  "history_clause read_time h r \<longleftrightarrow>
     (case hf_status h of None \<Rightarrow> True | Some s \<Rightarrow> er_status r = s) \<and> (case hf_mode h of None \<Rightarrow> True | Some m \<Rightarrow> er_mode r = m) \<and>
     (case hf_from h of None \<Rightarrow> True | Some d \<Rightarrow> d = [] \<or> er_queued r \<ge> read_time d) \<and>
     (case hf_to h of None \<Rightarrow> True | Some d \<Rightarrow> d = [] \<or> er_queued r \<le> read_time d)"

definition listRunHistory :: "(string \<Rightarrow> int) \<Rightarrow> history_filters \<Rightarrow> etl_db \<Rightarrow> (etl_run \<times> log_row list) list \<times> nat" where
  "listRunHistory read_time h db =
     (let found = filter (history_clause read_time h) (ed_runs db);
          runs = take (nat (hf_size h)) (drop (nat (max 0 ((hf_page h - 1) * hf_size h))) (rev (sort_key er_id found)));
          steps = fetchRunSteps (List.map_filter er_log runs) db
      in (map (\<lambda>r. (r, case er_log r of None \<Rightarrow> [] | Some i \<Rightarrow> steps i)) runs, length found))"

end
