(* ===== verification/Etl_Guard.thy ===== *)
theory Etl_Guard
  imports Prelude
begin

text \<open>
  Check-then-act under a named database lock (\<open>withEnqueueGuard\<close> in \<open>backend/src/etl/queue/etlQueue.ts\<close>):
  any number of processes may ask for the lock; the holder reads whether its operation is allowed, performs it
  in a later step, and releases the lock; everyone else keeps writing to the tables in between. The locale is the contract
  an operation needs for this to be safe: what its check establishes (\<open>still\<close>) survives what the others write; the interpretation on the table of runs is in \<open>Etl_Queue\<close>.
\<close>

datatype 'op phase = Outside | Asking 'op | Allowed 'op | Leaving

record ('db, 'op) guarded =
  gd_db :: 'db
  gd_lock :: "nat option"
  gd_phase :: "nat \<Rightarrow> 'op phase"

text \<open>A process that dies takes its database session, and the lock with it, along.\<close>

inductive guard_step ::
  "('db \<Rightarrow> 'op \<Rightarrow> bool) \<Rightarrow> ('op \<Rightarrow> 'db \<Rightarrow> 'db \<Rightarrow> bool) \<Rightarrow> ('db \<Rightarrow> 'db \<Rightarrow> bool) \<Rightarrow> ('db, 'op) guarded \<Rightarrow> ('db, 'op) guarded \<Rightarrow> bool"
  for may act others where
  gs_lock: "\<lbrakk>gd_lock s = None; gd_phase s c = Outside\<rbrakk> \<Longrightarrow>
     guard_step may act others s (s\<lparr>gd_lock := Some c, gd_phase := (gd_phase s)(c := Asking op)\<rparr>)"
| gs_allowed: "\<lbrakk>gd_phase s c = Asking op; may (gd_db s) op\<rbrakk> \<Longrightarrow>
     guard_step may act others s (s\<lparr>gd_phase := (gd_phase s)(c := Allowed op)\<rparr>)"
| gs_refused: "\<lbrakk>gd_phase s c = Asking op; \<not> may (gd_db s) op\<rbrakk> \<Longrightarrow>
     guard_step may act others s (s\<lparr>gd_phase := (gd_phase s)(c := Leaving)\<rparr>)"
| gs_act: "\<lbrakk>gd_phase s c = Allowed op; act op (gd_db s) db'\<rbrakk> \<Longrightarrow>
     guard_step may act others s (s\<lparr>gd_db := db', gd_phase := (gd_phase s)(c := Leaving)\<rparr>)"
| gs_release: "gd_phase s c = Leaving \<Longrightarrow>
     guard_step may act others s (s\<lparr>gd_lock := None, gd_phase := (gd_phase s)(c := Outside)\<rparr>)"
| gs_die: "gd_lock s = Some c \<Longrightarrow>
     guard_step may act others s (s\<lparr>gd_lock := None, gd_phase := (gd_phase s)(c := Outside)\<rparr>)"
| gs_others: "others (gd_db s) db' \<Longrightarrow> guard_step may act others s (s\<lparr>gd_db := db'\<rparr>)"

inductive_cases guard_stepE: "guard_step may act others s s'"

definition guard_free :: "('db, 'op) guarded \<Rightarrow> bool" where
  "guard_free s \<longleftrightarrow> gd_lock s = None \<and> gd_phase s = (\<lambda>_. Outside)"

locale guarded_section =
  fixes may :: "'db \<Rightarrow> 'op \<Rightarrow> bool"
    and still :: "'db \<Rightarrow> 'op \<Rightarrow> bool"
    and act :: "'op \<Rightarrow> 'db \<Rightarrow> 'db \<Rightarrow> bool"
    and others :: "'db \<Rightarrow> 'db \<Rightarrow> bool"
    and good :: "'db \<Rightarrow> bool"
  assumes may_still: "\<lbrakk>good db; may db op\<rbrakk> \<Longrightarrow> still db op"
    and act_good: "\<lbrakk>good db; still db op; act op db db'\<rbrakk> \<Longrightarrow> good db'"
    and others_good: "\<lbrakk>good db; others db db'\<rbrakk> \<Longrightarrow> good db'"
    and others_still: "\<lbrakk>good db; others db db'; still db op\<rbrakk> \<Longrightarrow> still db' op"
begin

definition consistent :: "('db, 'op) guarded \<Rightarrow> bool" where
  "consistent s \<longleftrightarrow> good (gd_db s) \<and> (\<forall>c. gd_phase s c \<noteq> Outside \<longrightarrow> gd_lock s = Some c) \<and>
     (\<forall>c op. gd_phase s c = Allowed op \<longrightarrow> still (gd_db s) op)"

lemma consistent_start: "good (gd_db s) \<Longrightarrow> guard_free s \<Longrightarrow> consistent s"
  by (simp add: consistent_def guard_free_def)

lemma one_inside: "consistent s \<Longrightarrow> gd_phase s c \<noteq> Outside \<Longrightarrow> gd_phase s d \<noteq> Outside \<Longrightarrow> c = d"
  unfolding consistent_def by (metis option.inject)

lemma step_consistent:
  assumes "consistent s" "guard_step may act others s s'"
  shows "consistent s'"
  using assms(2)
proof cases
  case (gs_act c op db')
  have "good db'" using act_good [OF _ _ gs_act(3)] gs_act(2) assms(1) by (simp add: consistent_def)
  moreover have "d = c" if "gd_phase s d \<noteq> Outside" for d using one_inside [OF assms(1) that, of c] gs_act(2) by simp
  ultimately show ?thesis using assms(1) gs_act by (auto simp: consistent_def)
next
  case (gs_others db')
  then show ?thesis using assms(1) others_good others_still by (auto simp: consistent_def)
next
  case (gs_release c)
  have "d = c" if "gd_phase s d \<noteq> Outside" for d using one_inside [OF assms(1) that, of c] gs_release(2) by simp
  then show ?thesis using assms(1) gs_release by (auto simp: consistent_def)
qed (use assms(1) may_still in \<open>auto simp: consistent_def\<close>)

lemma run_consistent: "(guard_step may act others)\<^sup>*\<^sup>* s s' \<Longrightarrow> consistent s \<Longrightarrow> consistent s'"
  by (induction rule: rtranclp_induct) (auto intro: step_consistent)

lemma run_good: "(guard_step may act others)\<^sup>*\<^sup>* s s' \<Longrightarrow> good (gd_db s) \<Longrightarrow> guard_free s \<Longrightarrow> good (gd_db s')"
  using run_consistent consistent_start unfolding consistent_def by blast

end

end
