(* ===== verification/Etl_Queue.thy ===== *)
theory Etl_Queue
  imports Etl_Runs Etl_Guard "HOL-Library.Sublist"
begin

text \<open>
  Starting a run (\<open>backend/src/etl/queue/etlQueue.ts\<close>): whether a job may be queued beside the active runs, the
  insertion of its row under the named lock, and the hand-over to the message queue, which may fail or time out.
  The queue itself (BullMQ on Redis) is outside; what it answers is an argument.
\<close>

section \<open>Whether a run may be queued\<close>

definition isLongQueueJob :: "string \<Rightarrow> bool" where
  "isLongQueueJob job = (job \<noteq> [] \<and> job \<in> set LONG_QUEUE_JOBS)"

definition mayEnqueue :: "etl_db \<Rightarrow> string \<Rightarrow> bool \<Rightarrow> bool" where
  "mayEnqueue db job queueBehindRefresh =
     (let active = activeEtlRunJobTypes db; mainQueue = filter (\<lambda>t. \<not> isLongQueueJob t) active in
      if isLongQueueJob job then job \<notin> set active
      else if \<not> queueBehindRefresh then mainQueue = []
      else list_all (\<lambda>t. t = job_name REFRESH_JOB) mainQueue)"

section \<open>The start of a run\<close>

record enqueue_input =
  en_job :: "platform_job option"
  en_mode :: etl_mode
  en_load :: load_mode
  en_output :: output_mode
  en_fast :: "bool option"
  en_extra :: "string list"
  en_label :: string
  en_trigger :: trigger_source
  en_user :: "int option"
  en_user_name :: "string option"
  en_attempts :: "nat option"
  en_behind :: bool

definition job_of_input :: "enqueue_input \<Rightarrow> string" where
  "job_of_input inp = job_name (platformJobFor (en_load inp) (en_job inp))"

definition queued_input_of :: "enqueue_input \<Rightarrow> queued_input" where
  "queued_input_of inp = \<lparr>qi_job_type = Some (job_of_input inp), qi_mode = en_mode inp, qi_load = en_load inp, qi_output = en_output inp,
     qi_trigger = en_trigger inp, qi_user = en_user inp, qi_user_name = en_user_name inp\<rparr>"

definition toBullJobId :: "int \<Rightarrow> string" where
  "toBullJobId runId = ''etl-'' @ int_str runId"

record etl_job_data =
  jd_job :: "platform_job option"
  jd_mode :: etl_mode
  jd_load :: load_mode
  jd_output :: output_mode
  jd_fast :: "bool option"
  jd_extra :: "string list"
  jd_label :: string
  jd_trigger :: trigger_source
  jd_user :: "int option"
  jd_user_name :: "string option"
  jd_run :: int

definition job_data :: "enqueue_input \<Rightarrow> int \<Rightarrow> etl_job_data" where
  "job_data inp runId = \<lparr>jd_job = Some (platformJobFor (en_load inp) (en_job inp)), jd_mode = en_mode inp, jd_load = en_load inp,
     jd_output = en_output inp, jd_fast = en_fast inp, jd_extra = en_extra inp, jd_label = en_label inp, jd_trigger = en_trigger inp,
     jd_user = en_user inp, jd_user_name = en_user_name inp, jd_run = runId\<rparr>"

text \<open>A job as the queue keeps it: \<open>bj_attempts\<close> how often it may be tried, \<open>bj_made\<close> how often it was.\<close>

record bull_job =
  bj_id :: string
  bj_data :: etl_job_data
  bj_attempts :: "nat option"
  bj_made :: nat

datatype enqueue_error = Already_running | Queue_failed string

text \<open>\<open>got_lock\<close>: whether \<open>GET_LOCK\<close> was granted in time; \<open>added\<close>: \<open>None\<close> when the queue took the job, else the
message of its failure (\<open>ENQUEUE_TIMEOUT_MS\<close> without an answer is one).\<close>

definition enqueuePipelineRun ::
  "enqueue_input \<Rightarrow> bool \<Rightarrow> string option \<Rightarrow> int \<Rightarrow> int \<Rightarrow> etl_db \<Rightarrow> (enqueue_error + bull_job) \<times> etl_db" where
  "enqueuePipelineRun inp got_lock added now later db =
     (if \<not> got_lock \<or> \<not> mayEnqueue db (job_of_input inp) (en_behind inp) then (Inl Already_running, db)
      else let (db1, runId) = createQueuedRun (queued_input_of inp) now db; jobId = toBullJobId runId;
               db2 = setRunJobId runId jobId db1 in
        case added of
          None \<Rightarrow> (Inr \<lparr>bj_id = jobId, bj_data = job_data inp runId,
            bj_attempts = Some (case en_attempts inp of None \<Rightarrow> 3 | Some n \<Rightarrow> n), bj_made = 0\<rparr>, db2)
        | Some msg \<Rightarrow> (Inl (Queue_failed msg), finishRun runId (failure (''Failed to queue job: '' @ msg)) later db2))"

section \<open>Active runs\<close>

lemma change_run_runs [simp]: "ed_runs (change_run i f db) = update_where (\<lambda>r. er_id r = i) f (ed_runs db)"
  by (simp add: change_run_def)

lemma change_run_rest [simp]: "ed_seq (change_run i f db) = ed_seq db" "ed_log (change_run i f db) = ed_log db"
  by (simp_all add: change_run_def)

text \<open>A run is under way until its end is recorded (\<open>finished_at\<close>), which nothing takes back. A run whose end was
recorded can be active again: starting an attempt or putting it back to queued does not look at its state.\<close>

definition unended :: "etl_run \<Rightarrow> bool" where
  "unended r \<longleftrightarrow> er_finished r = None"

definition unended_types :: "etl_db \<Rightarrow> string list" where
  "unended_types db = map er_job_type (filter unended (ed_runs db))"

definition ends_recorded :: "etl_db \<Rightarrow> bool" where
  "ends_recorded db \<longleftrightarrow> (\<forall>r \<in> set (ed_runs db). unended r \<longrightarrow> run_active r)"

text \<open>A change that takes back no end leaves a subsequence of the job types under way.\<close>

lemma filtered_shrink:
  assumes "\<And>r. key (f r) = key r" "\<And>r. A (f r) \<Longrightarrow> A r"
  shows "subseq (map key (filter A (update_where P f rs))) (map key (filter A rs))"
  by (induction rs) (auto simp: update_where_def assms(1) dest: assms(2))

lemma unended_shrink:
  assumes "\<And>r. er_job_type (f r) = er_job_type r" "\<And>r. unended (f r) \<Longrightarrow> unended r"
  shows "subseq (unended_types (change_run i f db)) (unended_types db)"
  unfolding unended_types_def change_run_runs by (rule filtered_shrink) (use assms in auto)

text \<open>What everyone but the starting process writes, at any moment and on any run: workers begin, retry and end runs,
resets and sweeps end them, the platform writes its log.\<close>

inductive etl_change :: "etl_db \<Rightarrow> etl_db \<Rightarrow> bool" where
  ec_job_id: "etl_change db (setRunJobId i j db)"
| ec_started: "etl_change db (markRunStarted i now db)"
| ec_retrying: "etl_change db (markRunRetrying i msg db)"
| ec_finished: "fi_status fi \<in> set FINISHED_RUN_STATUSES \<Longrightarrow> etl_change db (finishRun i fi now db)"
| ec_log: "etl_change db (db\<lparr>ed_log := rows\<rparr>)"

inductive_cases etl_changeE: "etl_change db db'"

lemma etl_change_shrinks:
  assumes "etl_change db db'"
  shows "subseq (unended_types db') (unended_types db)"
  using assms
proof cases
  case (ec_job_id i j)
  then show ?thesis unfolding setRunJobId_def by (auto intro: unended_shrink simp: unended_def)
next
  case (ec_started i now)
  then show ?thesis unfolding markRunStarted_def by (auto intro!: unended_shrink simp: unended_def)
next
  case (ec_retrying i msg)
  then show ?thesis unfolding markRunRetrying_def by (auto intro!: unended_shrink simp: unended_def)
next
  case (ec_finished fi i now)
  then show ?thesis unfolding finishRun_def by (auto intro!: unended_shrink simp: finished_row_def unended_def)
next
  case (ec_log rows)
  then show ?thesis by (simp add: unended_types_def)
qed

lemma etl_change_ends:
  assumes "etl_change db db'" "ends_recorded db"
  shows "ends_recorded db'"
  using assms
  by cases (auto simp: ends_recorded_def unended_def run_active_def setRunJobId_def markRunStarted_def markRunRetrying_def
      finishRun_def finished_row_def set_update_where)

section \<open>One run at a time\<close>

text \<open>At most one main-queue run under way beside 30-minute refreshes, and one run of each long job.\<close>

definition blocks_main :: "string \<Rightarrow> bool" where
  "blocks_main t \<longleftrightarrow> \<not> isLongQueueJob t \<and> t \<noteq> job_name REFRESH_JOB"

definition runs_exclusive :: "etl_db \<Rightarrow> bool" where
  "runs_exclusive db \<longleftrightarrow> ends_recorded db \<and> length (filter blocks_main (unended_types db)) \<le> 1 \<and>
     (\<forall>t \<in> set LONG_QUEUE_JOBS. length (filter (\<lambda>u. u = t) (unended_types db)) \<le> 1)"

lemma filter_subseq_length: "subseq xs ys \<Longrightarrow> length (filter P xs) \<le> length (filter P ys)"
  by (rule list_emb_length [OF subseq_filter])

lemma exclusive_change: "etl_change db db' \<Longrightarrow> runs_exclusive db \<Longrightarrow> runs_exclusive db'"
  unfolding runs_exclusive_def using filter_subseq_length [OF etl_change_shrinks] etl_change_ends order_trans by blast

lemma subseq_members: "subseq xs ys \<Longrightarrow> set xs \<subseteq> set ys"
  by (auto elim: list_emb_set)

definition allowed_start :: "etl_db \<Rightarrow> enqueue_input \<Rightarrow> bool" where
  "allowed_start db inp = mayEnqueue db (job_of_input inp) (en_behind inp)"

text \<open>What the check establishes, and what no one else takes back: no run under way stands in the way.\<close>

definition still_clear :: "etl_db \<Rightarrow> enqueue_input \<Rightarrow> bool" where
  "still_clear db inp \<longleftrightarrow>
     (if isLongQueueJob (job_of_input inp) then job_of_input inp \<notin> set (unended_types db)
      else \<forall>t \<in> set (unended_types db). \<not> blocks_main t)"

lemma unended_active: "ends_recorded db \<Longrightarrow> set (unended_types db) \<subseteq> set (activeEtlRunJobTypes db)"
  by (auto simp: ends_recorded_def unended_types_def activeEtlRunJobTypes_def active_runs_def)

lemma allowed_clear: "runs_exclusive db \<Longrightarrow> allowed_start db inp \<Longrightarrow> still_clear db inp"
  using unended_active [of db]
  by (auto simp: runs_exclusive_def allowed_start_def mayEnqueue_def still_clear_def blocks_main_def Let_def list_all_iff
      filter_empty_conv split: if_splits)

lemma clear_change: "etl_change db db' \<Longrightarrow> still_clear db inp \<Longrightarrow> still_clear db' inp"
  using subseq_members [OF etl_change_shrinks, of db db'] by (auto simp: still_clear_def split: if_splits)

definition inserts_run :: "enqueue_input \<Rightarrow> etl_db \<Rightarrow> etl_db \<Rightarrow> bool" where
  "inserts_run inp db db' \<longleftrightarrow> (\<exists>now. db' = fst (createQueuedRun (queued_input_of inp) now db))"

lemma types_after_insert:
  "unended_types (fst (createQueuedRun q now db)) = unended_types db @ [case qi_job_type q of None \<Rightarrow> ''odoo_sync'' | Some t \<Rightarrow> t]"
  by (simp add: createQueuedRun_def unended_types_def unended_def)

lemma ends_after_insert: "ends_recorded db \<Longrightarrow> ends_recorded (fst (createQueuedRun q now db))"
  by (simp add: createQueuedRun_def ends_recorded_def run_active_def)

lemma insert_exclusive:
  assumes "runs_exclusive db" "still_clear db inp" "inserts_run inp db db'"
  shows "runs_exclusive db'"
proof -
  let ?job = "job_of_input inp" and ?ts = "unended_types db"
  have ts: "unended_types db' = ?ts @ [?job]" and e: "ends_recorded db'"
    using assms(1,3) ends_after_insert by (auto simp: inserts_run_def types_after_insert queued_input_of_def runs_exclusive_def)
  show ?thesis
  proof (cases "isLongQueueJob ?job")
    case True
    then have "filter (\<lambda>u. u = ?job) ?ts = []" using assms(2) by (auto simp: still_clear_def filter_empty_conv)
    then show ?thesis using assms(1) True e by (auto simp: runs_exclusive_def ts blocks_main_def)
  next
    case False
    then have "filter blocks_main ?ts = []" using assms(2) by (simp add: still_clear_def filter_empty_conv)
    moreover have "t \<noteq> ?job" if "t \<in> set LONG_QUEUE_JOBS" for t
      using that False by (auto simp: isLongQueueJob_def LONG_QUEUE_JOBS_def job_name_def)
    ultimately show ?thesis using assms(1) e by (auto simp: runs_exclusive_def ts)
  qed
qed

interpretation etl_guard: guarded_section allowed_start still_clear inserts_run etl_change runs_exclusive
proof unfold_locales
  show "still_clear db inp" if "runs_exclusive db" "allowed_start db inp" for db inp
    using allowed_clear that .
  show "runs_exclusive db'" if "runs_exclusive db" "still_clear db inp" "inserts_run inp db db'" for db db' inp
    using insert_exclusive that .
  show "runs_exclusive db'" if "runs_exclusive db" "etl_change db db'" for db db'
    using exclusive_change that by blast
  show "still_clear db' inp" if "runs_exclusive db" "etl_change db db'" "still_clear db inp" for db db' inp
    using clear_change that by blast
qed

lemma exclusive_rows:
  "runs_exclusive db \<longleftrightarrow> ends_recorded db \<and> length (filter (\<lambda>r. unended r \<and> blocks_main (er_job_type r)) (ed_runs db)) \<le> 1 \<and>
     (\<forall>t \<in> set LONG_QUEUE_JOBS. length (filter (\<lambda>r. unended r \<and> er_job_type r = t) (ed_runs db)) \<le> 1)"
  by (simp add: runs_exclusive_def unended_types_def filter_map comp_def conj_commute)

lemma two_in_filter:
  assumes "length (filter P xs) \<le> 1" "x \<in> set xs" "y \<in> set xs" "P x" "P y"
  shows "x = y"
proof -
  have "x \<in> set (filter P xs)" "y \<in> set (filter P xs)" using assms by simp_all
  then show ?thesis using assms(1) by (cases "filter P xs") auto
qed

text \<open>C3. However many processes start runs at the same moment, and whatever workers, resets, sweeps and the platform
do to any run in between, there is never more than one process between its check and its insertion, and never more than
one main-queue run beside 30-minute refreshes, nor more than one run of a long job, whose end was not yet recorded. Two
main-queue runs can therefore only be active side by side when one of them had already been given up and was revived by
a late attempt.\<close>

theorem one_run_at_a_time:
  assumes "(guard_step allowed_start inserts_run etl_change)\<^sup>*\<^sup>* s s'" "guard_free s" "runs_exclusive (gd_db s)"
  shows "length (filter (\<lambda>r. er_finished r = None \<and> blocks_main (er_job_type r)) (ed_runs (gd_db s'))) \<le> 1 \<and>
    (\<forall>t \<in> set LONG_QUEUE_JOBS. length (filter (\<lambda>r. er_finished r = None \<and> er_job_type r = t) (ed_runs (gd_db s'))) \<le> 1) \<and>
    (\<forall>r \<in> set (ed_runs (gd_db s')). \<forall>r' \<in> set (ed_runs (gd_db s')).
      run_active r \<longrightarrow> run_active r' \<longrightarrow> blocks_main (er_job_type r) \<longrightarrow> blocks_main (er_job_type r') \<longrightarrow>
      r = r' \<or> er_finished r \<noteq> None \<or> er_finished r' \<noteq> None) \<and>
    (\<forall>c d. gd_phase s' c \<noteq> Outside \<longrightarrow> gd_phase s' d \<noteq> Outside \<longrightarrow> c = d)"
proof -
  have c: "etl_guard.consistent s'"
    using etl_guard.run_consistent [OF assms(1)] etl_guard.consistent_start assms(2,3) by blast
  then have m: "length (filter (\<lambda>r. er_finished r = None \<and> blocks_main (er_job_type r)) (ed_runs (gd_db s'))) \<le> 1"
    and l: "\<forall>t \<in> set LONG_QUEUE_JOBS. length (filter (\<lambda>r. er_finished r = None \<and> er_job_type r = t) (ed_runs (gd_db s'))) \<le> 1"
    using exclusive_rows unfolding etl_guard.consistent_def unended_def by blast+
  have p: "r = r' \<or> er_finished r \<noteq> None \<or> er_finished r' \<noteq> None"
    if "r \<in> set (ed_runs (gd_db s'))" "r' \<in> set (ed_runs (gd_db s'))" "blocks_main (er_job_type r)" "blocks_main (er_job_type r')" for r r'
    using two_in_filter [OF m that(1,2)] that(3,4) by auto
  show ?thesis
    using m l p etl_guard.one_inside [OF c] by (intro conjI ballI allI impI) auto
qed

section \<open>What a start does\<close>

definition new_run :: "enqueue_input \<Rightarrow> int \<Rightarrow> int \<Rightarrow> etl_run" where
  "new_run inp i now = \<lparr>er_id = i, er_job_id = Some (toBullJobId i), er_job_type = job_of_input inp, er_mode = en_mode inp,
     er_load = en_load inp, er_output = en_output inp, er_trigger = en_trigger inp, er_user = en_user inp,
     er_user_name = en_user_name inp, er_status = Run_queued, er_queued = now, er_started = None, er_finished = None,
     er_duration = None, er_exit = None, er_error = None, er_extract = None, er_loaded = None, er_qa = None, er_log = None\<rparr>"

lemma new_run_fields [simp]:
  "er_id (new_run inp i now) = i" "er_job_type (new_run inp i now) = job_of_input inp" "er_status (new_run inp i now) = Run_queued"
  "run_active (new_run inp i now)"
  by (simp_all add: new_run_def run_active_def)

lemma finished_row_fields [simp]:
  "er_id (finished_row fi now r) = er_id r" "er_job_type (finished_row fi now r) = er_job_type r"
  "er_status (finished_row fi now r) = fi_status fi" "fi_status (failure msg) = Run_failed"
  by (simp_all add: finished_row_def failure_def)

definition fresh_seq :: "etl_db \<Rightarrow> bool" where
  "fresh_seq db \<longleftrightarrow> (\<forall>r \<in> set (ed_runs db). er_id r < ed_seq db)"

lemma update_where_none: "(\<forall>r \<in> set rs. \<not> P r) \<Longrightarrow> update_where P f rs = rs"
  by (induction rs) (simp_all add: update_where_def)

lemma update_where_snoc: "update_where P f (rs @ [r]) = update_where P f rs @ [if P r then f r else r]"
  by (simp add: update_where_def)

lemma insert_new_run:
  assumes "fresh_seq db"
  shows "setRunJobId (ed_seq db) (toBullJobId (ed_seq db)) (fst (createQueuedRun (queued_input_of inp) now db)) =
    db\<lparr>ed_runs := ed_runs db @ [new_run inp (ed_seq db) now], ed_seq := ed_seq db + 1\<rparr>"
proof -
  have "\<forall>r \<in> set (ed_runs db). er_id r \<noteq> ed_seq db" using assms by (auto simp: fresh_seq_def)
  then show ?thesis
    by (simp add: setRunJobId_def change_run_def createQueuedRun_def update_where_snoc update_where_none queued_input_of_def new_run_def)
qed

lemma finish_new_run:
  assumes "fresh_seq db"
  shows "finishRun (ed_seq db) fi later (db\<lparr>ed_runs := ed_runs db @ [new_run inp (ed_seq db) now], ed_seq := ed_seq db + 1\<rparr>) =
    db\<lparr>ed_runs := ed_runs db @ [finished_row fi later (new_run inp (ed_seq db) now)], ed_seq := ed_seq db + 1\<rparr>"
proof -
  have "\<forall>r \<in> set (ed_runs db). er_id r \<noteq> ed_seq db" using assms by (auto simp: fresh_seq_def)
  then show ?thesis by (simp add: finishRun_def change_run_def update_where_snoc update_where_none new_run_def)
qed

lemma created_number [simp]: "snd (createQueuedRun q now db) = ed_seq db"
  by (simp add: createQueuedRun_def)

lemma enqueue_cases:
  assumes "fresh_seq db"
  shows "enqueuePipelineRun inp got added now later db =
    (let i = ed_seq db; row = new_run inp i now in
     if \<not> got \<or> \<not> allowed_start db inp then (Inl Already_running, db)
     else (case added of
         None \<Rightarrow> (Inr \<lparr>bj_id = toBullJobId i, bj_data = job_data inp i,
            bj_attempts = Some (case en_attempts inp of None \<Rightarrow> 3 | Some n \<Rightarrow> n), bj_made = 0\<rparr>, db\<lparr>ed_runs := ed_runs db @ [row], ed_seq := i + 1\<rparr>)
       | Some msg \<Rightarrow> (Inl (Queue_failed msg),
            db\<lparr>ed_runs := ed_runs db @ [finished_row (failure (''Failed to queue job: '' @ msg)) later row], ed_seq := i + 1\<rparr>)))"
  unfolding enqueuePipelineRun_def Let_def allowed_start_def case_prod_beta
  by (simp add: insert_new_run [OF assms] finish_new_run [OF assms] split: option.split)

text \<open>A start is refused, without a trace, exactly when the lock was not granted in time or a run stands in its
way; otherwise it adds exactly one row under a fresh number and changes no other: queued, under the job the queue
took, or failed at once when the queue did not take it, so that it stands in nobody's way.\<close>

theorem enqueue_exact:
  assumes "fresh_seq db" and "enqueuePipelineRun inp got added now later db = (res, db')"
  shows "(res = Inl Already_running \<longleftrightarrow> \<not> got \<or> \<not> mayEnqueue db (job_of_input inp) (en_behind inp)) \<and>
    (res = Inl Already_running \<longrightarrow> db' = db) \<and>
    (res \<noteq> Inl Already_running \<longrightarrow> fresh_seq db' \<and>
       (\<exists>row. db' = db\<lparr>ed_runs := ed_runs db @ [row], ed_seq := ed_seq db + 1\<rparr> \<and> er_id row = ed_seq db \<and>
          er_job_id row = Some (toBullJobId (ed_seq db)) \<and> er_job_type row = job_of_input inp \<and>
          (case added of
             None \<Rightarrow> (\<exists>job. res = Inr job \<and> bj_id job = toBullJobId (ed_seq db) \<and> jd_run (bj_data job) = ed_seq db) \<and> er_status row = Run_queued
           | Some msg \<Rightarrow> res = Inl (Queue_failed msg) \<and> er_status row = Run_failed \<and> activeEtlRunJobTypes db' = activeEtlRunJobTypes db)))"
proof -
  have "\<forall>r \<in> set (ed_runs db). er_id r \<le> ed_seq db" using assms(1) by (auto simp: fresh_seq_def)
  then show ?thesis
  using assms(2) unfolding enqueue_cases [OF assms(1)] Let_def
  using assms(1)
  by (auto simp: allowed_start_def fresh_seq_def new_run_def finished_row_def failure_def job_data_def activeEtlRunJobTypes_def active_runs_def
      run_active_def split: if_splits option.splits)
qed

section \<open>A start as steps under the guard\<close>

lemma two_steps: "r s t \<Longrightarrow> r\<^sup>*\<^sup>* t u \<Longrightarrow> r\<^sup>*\<^sup>* s u"
  by (rule converse_rtranclp_into_rtranclp)

lemma start_steps:
  fixes s :: "(etl_db, enqueue_input) guarded"
  assumes "guard_free s" "allowed_start (gd_db s) inp"
  shows "(guard_step allowed_start inserts_run etl_change)\<^sup>*\<^sup>* s
    (s\<lparr>gd_db := fst (createQueuedRun (queued_input_of inp) now (gd_db s))\<rparr>)"
proof -
  let ?R = "guard_step allowed_start inserts_run etl_change" and ?db = "fst (createQueuedRun (queued_input_of inp) now (gd_db s))"
  have free: "gd_lock s = None" "gd_phase s = (\<lambda>_. Outside)" using assms(1) by (simp_all add: guard_free_def)
  let ?s1 = "s\<lparr>gd_lock := Some 0, gd_phase := (\<lambda>_. Outside)(0 := Asking inp)\<rparr>"
  let ?s2 = "s\<lparr>gd_lock := Some 0, gd_phase := (\<lambda>_. Outside)(0 := Allowed inp)\<rparr>"
  let ?s3 = "s\<lparr>gd_lock := Some 0, gd_db := ?db, gd_phase := (\<lambda>_. Outside)(0 := Leaving)\<rparr>"
  have r1: "?R s ?s1" using gs_lock [of s 0 allowed_start inserts_run etl_change inp] free by simp
  have r2: "?R ?s1 ?s2" using gs_allowed [of ?s1 0 inp allowed_start inserts_run etl_change] assms(2) by simp
  have r3: "?R ?s2 ?s3"
    using gs_act [of ?s2 0 inp inserts_run ?db allowed_start etl_change] by (auto simp: inserts_run_def)
  have r4: "?R ?s3 (s\<lparr>gd_db := ?db\<rparr>)"
  proof -
    have "s\<lparr>gd_db := ?db, gd_lock := None, gd_phase := (\<lambda>_. Outside)(0 := Outside)\<rparr> = s\<lparr>gd_db := ?db\<rparr>"
      using free by (cases s) (simp add: fun_upd_idem)
    moreover have "?R ?s3 (s\<lparr>gd_db := ?db, gd_lock := None, gd_phase := (\<lambda>_. Outside)(0 := Outside)\<rparr>)"
      using gs_release [of ?s3 0 allowed_start inserts_run etl_change] by simp
    ultimately show ?thesis by (simp only:)
  qed
  show ?thesis
    by (rule two_steps [where r = ?R, OF r1], rule two_steps [where r = ?R, OF r2], rule two_steps [where r = ?R, OF r3], rule r_into_rtranclp [where r = ?R, OF r4])
qed

lemma change_step: "etl_change (gd_db s) db' \<Longrightarrow> guard_step allowed_start inserts_run etl_change s (s\<lparr>gd_db := db'\<rparr>)"
  by (rule gs_others)

text \<open>C22. The start as the code writes it, carried out by one process at a stretch, is a run of the guarded system:
what holds of every interleaving holds of it, with its answer either way.\<close>

theorem enqueue_refines_guard:
  assumes "guard_free s" and "enqueuePipelineRun inp got added now later (gd_db s) = (res, db')"
  shows "(guard_step allowed_start inserts_run etl_change)\<^sup>*\<^sup>* s (s\<lparr>gd_db := db'\<rparr>)"
proof (cases "got \<and> allowed_start (gd_db s) inp")
  case False
  then have "db' = gd_db s" using assms(2) by (auto simp: enqueuePipelineRun_def allowed_start_def split: if_splits)
  then show ?thesis by simp
next
  case True
  let ?R = "guard_step allowed_start inserts_run etl_change"
  let ?db1 = "fst (createQueuedRun (queued_input_of inp) now (gd_db s))"
  let ?db2 = "setRunJobId (ed_seq (gd_db s)) (toBullJobId (ed_seq (gd_db s))) ?db1"
  have db': "db' = (case added of None \<Rightarrow> ?db2
      | Some msg \<Rightarrow> finishRun (ed_seq (gd_db s)) (failure (''Failed to queue job: '' @ msg)) later ?db2)"
    using assms(2) True by (auto simp: enqueuePipelineRun_def allowed_start_def Let_def case_prod_beta split: option.splits)
  have "?R\<^sup>*\<^sup>* s (s\<lparr>gd_db := ?db1\<rparr>)" using start_steps [OF assms(1)] True by blast
  also have "?R\<^sup>*\<^sup>* (s\<lparr>gd_db := ?db1\<rparr>) (s\<lparr>gd_db := ?db2\<rparr>)"
    using change_step [of "s\<lparr>gd_db := ?db1\<rparr>" ?db2] ec_job_id by auto
  finally have run: "?R\<^sup>*\<^sup>* s (s\<lparr>gd_db := ?db2\<rparr>)" .
  show ?thesis
  proof (cases added)
    case None
    then show ?thesis using run db' by simp
  next
    case (Some msg)
    have "etl_change ?db2 db'" unfolding db' Some by (auto intro: ec_finished simp: failure_def FINISHED_RUN_STATUSES_def)
    then show ?thesis using rtranclp.rtrancl_into_rtrancl [OF run change_step [of "s\<lparr>gd_db := ?db2\<rparr>" db']] by simp
  qed
qed

section \<open>An example\<close>

definition no_runs :: etl_db where
  "no_runs = \<lparr>ed_runs = [], ed_seq = 1, ed_log = []\<rparr>"

definition sales_start :: enqueue_input where
  "sales_start = \<lparr>en_job = Some Job_main, en_mode = Mode_incremental, en_load = Load_incremental, en_output = Output_sql,
     en_fast = Some True, en_extra = [], en_label = ''manual-incremental'', en_trigger = Trigger_manual, en_user = Some 4,
     en_user_name = Some ''Amal'', en_attempts = None, en_behind = False\<rparr>"

definition full_start :: enqueue_input where
  "full_start = sales_start\<lparr>en_job := Some Job_full_all, en_mode := Mode_full, en_load := Load_full, en_label := ''manual-full''\<rparr>"

definition idle_guard :: "(etl_db, enqueue_input) guarded" where
  "idle_guard = \<lparr>gd_db = no_runs, gd_lock = None, gd_phase = (\<lambda>_. Outside)\<rparr>"

lemma idle_guard_free: "guard_free idle_guard" "gd_db idle_guard = no_runs"
  by (simp_all add: idle_guard_def guard_free_def)

lemma no_runs_facts: "fresh_seq no_runs" "runs_exclusive no_runs"
  by (simp_all add: no_runs_def fresh_seq_def runs_exclusive_def unended_types_def ends_recorded_def)

definition sales_queued :: etl_db where
  "sales_queued = snd (enqueuePipelineRun sales_start True None 100 100 no_runs)"

lemma sales_start_result: "enqueuePipelineRun sales_start True None 100 100 no_runs =
   (Inr \<lparr>bj_id = ''etl-1'', bj_data = job_data sales_start 1, bj_attempts = Some 3, bj_made = 0\<rparr>, sales_queued)"
  unfolding sales_queued_def by code_simp

lemma full_start_refused: "enqueuePipelineRun full_start True None 101 101 sales_queued = (Inl Already_running, sales_queued)"
  by code_simp

theorem enqueue_exact_witness:
  "\<exists>row. sales_queued = no_runs\<lparr>ed_runs := ed_runs no_runs @ [row], ed_seq := ed_seq no_runs + 1\<rparr> \<and> er_status row = Run_queued"
  using enqueue_exact [OF no_runs_facts(1) sales_start_result] by auto

theorem enqueue_refines_guard_witness:
  "(guard_step allowed_start inserts_run etl_change)\<^sup>*\<^sup>* idle_guard (idle_guard\<lparr>gd_db := sales_queued\<rparr>)"
  by (rule enqueue_refines_guard [OF idle_guard_free(1), unfolded idle_guard_free(2), OF sales_start_result])

lemma sales_guard_run: "(guard_step allowed_start inserts_run etl_change)\<^sup>*\<^sup>* idle_guard
    (idle_guard\<lparr>gd_db := fst (createQueuedRun (queued_input_of sales_start) 100 no_runs)\<rparr>)"
proof -
  have "allowed_start no_runs sales_start" by code_simp
  then show ?thesis using start_steps [of idle_guard sales_start 100] idle_guard_free by simp
qed

theorem one_run_at_a_time_witness:
  "length (filter (\<lambda>r. er_finished r = None \<and> blocks_main (er_job_type r)) (ed_runs (fst (createQueuedRun (queued_input_of sales_start) 100 no_runs)))) \<le> 1"
  using one_run_at_a_time [OF sales_guard_run idle_guard_free(1)] no_runs_facts(2) by (simp add: idle_guard_free(2))

end
