(* ===== verification/Etl_Job.thy ===== *)
theory Etl_Job
  imports Etl_Queue
begin

text \<open>
  One attempt of a queued job by the worker (\<open>processEtlJob\<close> in \<open>backend/src/etl/jobs/runPipelineJob.ts\<close>): the
  run becomes running, the pipeline runs (its outcome is an argument, as is the platform's log after it), and
  the outcome is recorded. A failed attempt the queue will try again goes back to queued.
\<close>

section \<open>Outcomes\<close>

record pipeline_result =
  pr_exit :: int
  pr_cancelled :: bool
  pr_duration :: int
  pr_stdout :: string
  pr_stderr :: string

text \<open>\<open>Pipeline_threw\<close> stands for everything that fails before a result is recorded.\<close>

datatype pipeline_outcome = Pipeline_threw string | Pipeline_returned pipeline_result

datatype attempt_result = Attempt_done | Attempt_threw string

definition ETL_EXIT_PARTIAL :: int where
  "ETL_EXIT_PARTIAL = 3"

definition ETL_EXIT_LOCKED :: int where
  "ETL_EXIT_LOCKED = 4"

definition willRetry :: "bull_job \<Rightarrow> bool" where
  "willRetry job = (bj_made job + 1 < (case bj_attempts job of None \<Rightarrow> 1 | Some n \<Rightarrow> n))"

text \<open>\<open>a || b\<close> on texts.\<close>

definition or_text :: "string option \<Rightarrow> string \<Rightarrow> string" where
  "or_text a b = (case a of None \<Rightarrow> b | Some s \<Rightarrow> if s = [] then b else s)"

definition counted :: "run_status \<Rightarrow> int \<Rightarrow> string option \<Rightarrow> log_row option \<Rightarrow> finish_input" where
  "counted status code err row = \<lparr>fi_status = status, fi_exit = Some code, fi_error = err,
     fi_extract = Option.bind row lg_extract, fi_loaded = Option.bind row lg_rows, fi_qa = Option.bind row lg_qa,
     fi_log = map_option lg_id row\<rparr>"

definition skipped_input :: "int \<Rightarrow> finish_input" where
  "skipped_input code = counted Run_skipped code
     (Some ''Skipped: another ETL run was already running (it holds the ETL lock). Nothing was written.'') None"

definition exit_message :: "pipeline_result \<Rightarrow> log_row option \<Rightarrow> string" where
  "exit_message r row = or_text (Some (pr_stderr r)) (or_text (Some (pr_stdout r)) (or_text (Option.bind row lg_error)
     ''Pipeline exited non-zero with no captured output.''))"

definition thrown_message :: "string \<Rightarrow> pipeline_result \<Rightarrow> string \<Rightarrow> string" where
  "thrown_message label r msg = ''ETL run \"'' @ label @ ''\" exited with code '' @ int_str (pr_exit r) @ '' after '' @
     int_str (pr_duration r) @ ''ms. error: '' @ msg"

section \<open>An attempt\<close>

definition attempt_start :: "bull_job \<Rightarrow> int \<Rightarrow> etl_db \<Rightarrow> etl_db \<times> int" where
  "attempt_start job now db = (markRunStarted (jd_run (bj_data job)) now db, getMaxEtlRunId db)"

definition record_failure :: "bull_job \<Rightarrow> string \<Rightarrow> finish_input \<Rightarrow> int \<Rightarrow> etl_db \<Rightarrow> etl_db" where
  "record_failure job msg fi now db =
     (if willRetry job then markRunRetrying (jd_run (bj_data job)) msg db else finishRun (jd_run (bj_data job)) fi now db)"

text \<open>The write that records an outcome can fail itself: the error is then what the attempt ends with, whatever was
to be recorded (the code marks the outcome as recorded before it writes it, so it does not try again).\<close>

definition written :: "string option \<Rightarrow> attempt_result \<times> etl_db \<Rightarrow> etl_db \<Rightarrow> attempt_result \<times> etl_db" where
  "written unwritten recorded db = (case unwritten of None \<Rightarrow> recorded | Some e \<Rightarrow> (Attempt_threw e, db))"

definition attempt_finish ::
  "bull_job \<Rightarrow> int \<Rightarrow> string option \<Rightarrow> pipeline_outcome \<Rightarrow> int \<Rightarrow> etl_db \<Rightarrow> attempt_result \<times> etl_db" where
  "attempt_finish job baseline unwritten outcome now db =
     (let i = jd_run (bj_data job) in
      case outcome of
        Pipeline_threw msg \<Rightarrow> written unwritten (Attempt_threw msg, record_failure job msg (failure msg) now db) db
      | Pipeline_returned r \<Rightarrow>
          let row = (if jd_output (bj_data job) \<noteq> Output_excel then correlateLatestEtlRun baseline db else None) in
          if pr_cancelled r then written unwritten (Attempt_done, finishRun i (counted Run_cancelled (pr_exit r) None row) now db) db
          else if pr_exit r = ETL_EXIT_PARTIAL then
            written unwritten (Attempt_done, finishRun i (counted Run_partial (pr_exit r)
               (Some (or_text (Option.bind row lg_error) (or_text (Some (pr_stderr r)) ''A step of the run failed (see the run steps).''))) row) now db) db
          else if pr_exit r = ETL_EXIT_LOCKED then written unwritten (Attempt_done, finishRun i (skipped_input (pr_exit r)) now db) db
          else if pr_exit r \<noteq> 0 then
            (let msg = exit_message r row in
             written unwritten (Attempt_threw (thrown_message (jd_label (bj_data job)) r msg),
              record_failure job msg (counted Run_failed (pr_exit r) (Some msg) row) now db) db)
          else written unwritten (Attempt_done, finishRun i (counted Run_success (pr_exit r) None row) now db) db)"

text \<open>The whole attempt. \<open>early\<close>: the message when reporting progress or reading the platform's last run fails,
which is before the code's own error handling begins; \<open>unwritten\<close>: the message when the outcome cannot be recorded;
\<open>rows\<close>: the platform's log when the pipeline ended.\<close>

definition processEtlJob ::
  "bull_job \<Rightarrow> string option \<Rightarrow> string option \<Rightarrow> pipeline_outcome \<Rightarrow> log_row list \<Rightarrow> int \<Rightarrow> int \<Rightarrow> etl_db \<Rightarrow>
   attempt_result \<times> etl_db" where
  "processEtlJob job early unwritten outcome rows started ended db =
     (let (db1, baseline) = attempt_start job started db in
      case early of
        Some msg \<Rightarrow> (Attempt_threw msg, db1)
      | None \<Rightarrow> attempt_finish job baseline unwritten outcome ended (db1\<lparr>ed_log := rows\<rparr>))"

section \<open>What an attempt records\<close>

definition run_status_of :: "etl_db \<Rightarrow> int \<Rightarrow> run_status option" where
  "run_status_of db i = map_option er_status (getRunById i db)"

lemma getRunById_change:
  assumes "\<And>r. er_id (f r) = er_id r"
  shows "getRunById j (change_run i f db) = (if j = i then map_option f (getRunById j db) else getRunById j db)"
proof -
  have "filter (\<lambda>r. er_id r = j) (update_where (\<lambda>r. er_id r = i) f rs) =
      (if j = i then map f (filter (\<lambda>r. er_id r = j) rs) else filter (\<lambda>r. er_id r = j) rs)" for rs
    using assms by (induction rs) (auto simp: update_where_def)
  moreover have "first_row (map f rs) = map_option f (first_row rs)" for rs by (cases rs) simp_all
  ultimately show ?thesis by (simp add: getRunById_def)
qed

lemma getRunById_log [simp]: "getRunById i (db\<lparr>ed_log := rows\<rparr>) = getRunById i db"
  by (simp add: getRunById_def)

lemma status_changes [simp]:
  "run_status_of (markRunStarted i now db) j = (if j = i then map_option (\<lambda>_. Run_running) (getRunById j db) else run_status_of db j)"
  "run_status_of (markRunRetrying i msg db) j = (if j = i then map_option (\<lambda>_. Run_queued) (getRunById j db) else run_status_of db j)"
  "run_status_of (finishRun i fi now db) j = (if j = i then map_option (\<lambda>_. fi_status fi) (getRunById j db) else run_status_of db j)"
  "run_status_of (db\<lparr>ed_log := rows\<rparr>) j = run_status_of db j"
  by (auto simp: run_status_of_def markRunStarted_def markRunRetrying_def finishRun_def getRunById_change finished_row_def
      option.map_comp comp_def)

lemma exists_changes [simp]:
  "getRunById i (markRunStarted j now db) = None \<longleftrightarrow> getRunById i db = None"
  "getRunById i (markRunRetrying j msg db) = None \<longleftrightarrow> getRunById i db = None"
  "getRunById i (finishRun j fi now db) = None \<longleftrightarrow> getRunById i db = None"
  by (auto simp: markRunStarted_def markRunRetrying_def finishRun_def getRunById_change finished_row_def)

text \<open>The state an attempt leaves its run in.\<close>

definition recorded_status :: "bull_job \<Rightarrow> pipeline_outcome \<Rightarrow> run_status" where
  "recorded_status job outcome =
     (let failed = (if willRetry job then Run_queued else Run_failed) in
      case outcome of Pipeline_threw _ \<Rightarrow> failed
      | Pipeline_returned r \<Rightarrow> if pr_cancelled r then Run_cancelled else if pr_exit r = 3 then Run_partial
          else if pr_exit r = 4 then Run_skipped else if pr_exit r = 0 then Run_success else failed)"

lemma map_const: "x \<noteq> None \<Longrightarrow> map_option (\<lambda>_. c) x = Some c"
  by auto

lemma attempt_finish_status:
  assumes "getRunById (jd_run (bj_data job)) db \<noteq> None" "attempt_finish job baseline None outcome now db = (res, db')"
  shows "run_status_of db' (jd_run (bj_data job)) = Some (recorded_status job outcome)"
    "res = Attempt_done \<longleftrightarrow> recorded_status job outcome \<in> {Run_cancelled, Run_partial, Run_skipped, Run_success}"
  using assms
  by (auto simp: attempt_finish_def written_def Let_def record_failure_def recorded_status_def counted_def skipped_input_def failure_def
      ETL_EXIT_PARTIAL_def ETL_EXIT_LOCKED_def map_const split: pipeline_outcome.splits if_splits)

lemma unwritten_finish: "attempt_finish job baseline (Some e) outcome now db = (Attempt_threw e, db)"
  by (simp add: attempt_finish_def written_def Let_def split: pipeline_outcome.split)

text \<open>An attempt writes its own run and the platform's log, nothing else.\<close>

lemma getRunById_other [simp]:
  "j \<noteq> i \<Longrightarrow> getRunById j (markRunStarted i now db) = getRunById j db"
  "j \<noteq> i \<Longrightarrow> getRunById j (markRunRetrying i msg db) = getRunById j db"
  "j \<noteq> i \<Longrightarrow> getRunById j (finishRun i fi now db) = getRunById j db"
  by (simp_all add: markRunStarted_def markRunRetrying_def finishRun_def getRunById_change)

lemma attempt_changes: "etl_change\<^sup>*\<^sup>* db (snd (processEtlJob job early unwritten outcome rows started ended db))"
proof -
  let ?i = "jd_run (bj_data job)"
  let ?db1 = "markRunStarted ?i started db" and ?db2 = "(markRunStarted ?i started db)\<lparr>ed_log := rows\<rparr>"
  have 1: "etl_change\<^sup>*\<^sup>* db ?db1" using ec_started by blast
  have 2: "etl_change\<^sup>*\<^sup>* db ?db2" by (rule rtranclp.rtrancl_into_rtrancl [OF 1 ec_log])
  have r: "etl_change ?db2 (record_failure job msg fi now ?db2)" if "fi_status fi = Run_failed" for msg fi now
    using that by (auto simp: record_failure_def FINISHED_RUN_STATUSES_def intro: ec_retrying ec_finished)
  have "etl_change\<^sup>*\<^sup>* ?db2 (snd (attempt_finish job b unwritten outcome ended ?db2))" for b
  proof (cases unwritten)
    case None
    then show ?thesis
      using r by (auto simp: attempt_finish_def written_def Let_def counted_def skipped_input_def failure_def FINISHED_RUN_STATUSES_def
          intro!: r_into_rtranclp ec_finished split: pipeline_outcome.split)
  qed (simp add: unwritten_finish)
  then have "etl_change\<^sup>*\<^sup>* db (snd (attempt_finish job b unwritten outcome ended ?db2))" for b
    using rtranclp_trans [OF 2] by blast
  then show ?thesis using 1 by (auto simp: processEtlJob_def attempt_start_def split: option.split)
qed

lemma attempt_frame:
  assumes "j \<noteq> jd_run (bj_data job)"
  shows "getRunById j (snd (processEtlJob job early unwritten outcome rows started ended db)) = getRunById j db"
  using assms
  by (auto simp: processEtlJob_def attempt_start_def attempt_finish_def written_def record_failure_def Let_def
      split: option.split pipeline_outcome.split)


section \<open>A run comes to an end\<close>

text \<open>How the queue works a job off, as documented: an attempt that threw is followed by the next one, counted up,
while there are attempts left (one when none are named). The second component counts the attempts.\<close>

fun work_off :: "bull_job \<Rightarrow> (pipeline_outcome \<times> log_row list) list \<Rightarrow> int \<Rightarrow> etl_db \<Rightarrow> etl_db \<times> nat" where
  "work_off job [] now db = (db, 0)"
| "work_off job ((outcome, rows) # later) now db =
     (let (res, db') = processEtlJob job None None outcome rows now now db in
      if res = Attempt_done \<or> \<not> willRetry job then (db', 1)
      else let (db'', n) = work_off (job\<lparr>bj_made := bj_made job + 1\<rparr>) later now db' in (db'', n + 1))"

definition allowed_attempts :: "bull_job \<Rightarrow> nat" where
  "allowed_attempts job = (case bj_attempts job of None \<Rightarrow> 1 | Some n \<Rightarrow> n)"

lemma attempt_core:
  assumes "getRunById (jd_run (bj_data job)) db \<noteq> None" "processEtlJob job None None outcome rows t u db = (res, db')"
  shows "run_status_of db' (jd_run (bj_data job)) = Some (recorded_status job outcome)" "getRunById (jd_run (bj_data job)) db' \<noteq> None"
    "res = Attempt_done \<longleftrightarrow> recorded_status job outcome \<in> {Run_cancelled, Run_partial, Run_skipped, Run_success}"
proof -
  let ?db1 = "(markRunStarted (jd_run (bj_data job)) t db)\<lparr>ed_log := rows\<rparr>"
  have "attempt_finish job (getMaxEtlRunId db) None outcome u ?db1 = (res, db')"
    using assms(2) by (simp add: processEtlJob_def attempt_start_def)
  note status = attempt_finish_status [OF _ this]
  show s: "run_status_of db' (jd_run (bj_data job)) = Some (recorded_status job outcome)" using status(1) assms(1) by simp
  then show "getRunById (jd_run (bj_data job)) db' \<noteq> None" by (auto simp: run_status_of_def)
  show "res = Attempt_done \<longleftrightarrow> recorded_status job outcome \<in> {Run_cancelled, Run_partial, Run_skipped, Run_success}"
    using status(2) assms(1) by simp
qed

lemma no_retry_finishes: "\<not> willRetry job \<Longrightarrow> recorded_status job outcome \<in> set FINISHED_RUN_STATUSES"
  by (auto simp: recorded_status_def FINISHED_RUN_STATUSES_def split: pipeline_outcome.split)

lemma work_off_ends:
  assumes "getRunById (jd_run (bj_data job)) db \<noteq> None" "outcomes \<noteq> []" "allowed_attempts job \<le> bj_made job + length outcomes"
    "work_off job outcomes now db = (db', n)"
  shows "\<exists>s \<in> set FINISHED_RUN_STATUSES. run_status_of db' (jd_run (bj_data job)) = Some s \<and>
    1 \<le> n \<and> bj_made job + n \<le> max (allowed_attempts job) (bj_made job + 1)"
  using assms
proof (induction outcomes arbitrary: job db n)
  case (Cons x later)
  obtain outcome rows where x: "x = (outcome, rows)" by (cases x)
  obtain res db1 where p: "processEtlJob job None None outcome rows now now db = (res, db1)" by (cases "processEtlJob job None None outcome rows now now db")
  note core = attempt_core [OF Cons.prems(1) p]
  show ?case
  proof (cases "res = Attempt_done \<or> \<not> willRetry job")
    case True
    then have "recorded_status job outcome \<in> set FINISHED_RUN_STATUSES"
      using core(3) no_retry_finishes by (auto simp: FINISHED_RUN_STATUSES_def)
    moreover have "db' = db1" "n = 1" using Cons.prems(4) True by (auto simp: x p Let_def)
    ultimately show ?thesis using core(1) by auto
  next
    case False
    let ?job = "job\<lparr>bj_made := bj_made job + 1\<rparr>"
    have more: "bj_made job + 1 < allowed_attempts job" using False by (simp add: willRetry_def allowed_attempts_def)
    obtain m where m: "work_off ?job later now db1 = (db', m)" "n = m + 1"
      using Cons.prems(4) False by (auto simp: x p Let_def split: prod.splits)
    have "later \<noteq> []" using more Cons.prems(3) by auto
    moreover have "allowed_attempts ?job \<le> bj_made ?job + length later" using Cons.prems(3) by (simp add: allowed_attempts_def)
    moreover have "getRunById (jd_run (bj_data ?job)) db1 \<noteq> None" using core(2) by simp
    ultimately have "\<exists>s \<in> set FINISHED_RUN_STATUSES. run_status_of db' (jd_run (bj_data ?job)) = Some s \<and>
      1 \<le> m \<and> bj_made ?job + m \<le> max (allowed_attempts ?job) (bj_made ?job + 1)"
      using Cons.IH [OF _ _ _ m(1)] by blast
    then show ?thesis using more m(2) by (auto simp: allowed_attempts_def)
  qed
qed simp

text \<open>C19. Every run whose attempts get to their pipeline (and can record its outcome) comes to an end: whatever the outcomes are, after at most
the allowed number of attempts (at least one) the run is in a finished state, and no longer in the way of others.\<close>

theorem every_run_ends:
  assumes "getRunById (jd_run (bj_data job)) db \<noteq> None" and "bj_made job = 0" and "max 1 (allowed_attempts job) \<le> length outcomes"
    and "work_off job outcomes now db = (db', n)"
  shows "n \<le> max 1 (allowed_attempts job) \<and>
    (\<exists>s. run_status_of db' (jd_run (bj_data job)) = Some s \<and> s \<in> set FINISHED_RUN_STATUSES)"
proof -
  have "outcomes \<noteq> []" using assms(3) by auto
  then show ?thesis using work_off_ends [OF assms(1) _ _ assms(4)] assms(2,3) by (auto simp: max_def split: if_splits)
qed

section \<open>What the guard does not cover\<close>

lemma active_after_start:
  assumes "getRunById i db = Some r"
  shows "\<exists>r'. r' \<in> set (ed_runs (markRunStarted i now db)) \<and> run_active r' \<and> er_id r' = i \<and> er_job_type r' = er_job_type r"
proof -
  have "r \<in> set (ed_runs db)" "er_id r = i" using assms first_row_Some unfolding getRunById_def by fastforce+
  then show ?thesis
    by (intro exI [of _ "r\<lparr>er_status := Run_running, er_started := Some now\<rparr>"])
      (auto simp: markRunStarted_def update_where_def run_active_def)
qed

text \<open>C31. The start of an attempt does not look whether its run was given up: when the queue takes a job although adding
it timed out, the run is recorded as failed and another may start; once a worker is handed the late job, two
main-queue runs are active side by side.\<close>

theorem late_job_revives_run:
  assumes "fresh_seq db" and "mayEnqueue db (job_of_input inp) False" and "mayEnqueue db (job_of_input inp') False"
    and "\<not> isLongQueueJob (job_of_input inp)" and "\<not> isLongQueueJob (job_of_input inp')"
    and "enqueuePipelineRun (inp\<lparr>en_behind := False\<rparr>) True (Some msg) t1 t2 db = (res1, db1)"
    and "enqueuePipelineRun (inp'\<lparr>en_behind := False\<rparr>) True None t3 t3 db1 = (res2, db2)"
    and "jd_run (bj_data late) = ed_seq db"
  shows "run_status_of db1 (ed_seq db) = Some Run_failed \<and> (\<exists>job. res2 = Inr job) \<and>
    (\<exists>r \<in> set (ed_runs (fst (attempt_start late t4 db2))). \<exists>r' \<in> set (ed_runs (fst (attempt_start late t4 db2))).
       er_id r \<noteq> er_id r' \<and> run_active r \<and> run_active r' \<and> er_job_type r = job_of_input inp \<and> er_job_type r' = job_of_input inp')"
proof -
  let ?inp = "inp\<lparr>en_behind := False\<rparr>" and ?inp' = "inp'\<lparr>en_behind := False\<rparr>" and ?i = "ed_seq db"
  have job: "job_of_input ?inp = job_of_input inp" "job_of_input ?inp' = job_of_input inp'" by (simp_all add: job_of_input_def)
  let ?row = "finished_row (failure (''Failed to queue job: '' @ msg)) t2 (new_run ?inp ?i t1)"
  have db1: "db1 = db\<lparr>ed_runs := ed_runs db @ [?row], ed_seq := ?i + 1\<rparr>"
    using assms(6) unfolding enqueue_cases [OF assms(1)] Let_def by (simp add: allowed_start_def job assms(2))
  have fresh: "\<forall>r \<in> set (ed_runs db). er_id r \<noteq> ?i" "\<forall>r \<in> set (ed_runs db). er_id r \<le> ?i" using assms(1) by (auto simp: fresh_seq_def)
  have f1: "fresh_seq db1" using fresh(2) by (auto simp: fresh_seq_def db1)
  have "activeEtlRunJobTypes db1 = activeEtlRunJobTypes db"
    by (simp add: activeEtlRunJobTypes_def active_runs_def db1 run_active_def)
  then have "allowed_start db1 ?inp'" using assms(3) by (simp add: allowed_start_def mayEnqueue_def job)
  then have db2: "db2 = db1\<lparr>ed_runs := ed_runs db1 @ [new_run ?inp' (?i + 1) t3], ed_seq := ?i + 1 + 1\<rparr>" and ok: "\<exists>job. res2 = Inr job"
    using assms(7) unfolding enqueue_cases [OF f1] Let_def by (auto simp: db1)
  have none: "filter (\<lambda>r. er_id r = ?i) (ed_runs db) = []" using fresh(1) by (simp add: filter_empty_conv)
  have row: "er_id ?row = ?i" "er_job_type ?row = job_of_input inp" "er_status ?row = Run_failed"
    by (simp_all add: job)
  have failed: "getRunById ?i db1 = Some ?row" "getRunById ?i db2 = Some ?row"
    unfolding getRunById_def db2 db1 by (simp_all add: none)
  have other: "new_run ?inp' (?i + 1) t3 \<in> set (ed_runs (fst (attempt_start late t4 db2)))"
    by (auto simp: attempt_start_def markRunStarted_def set_update_where assms(8) db2)
  have other': "er_id (new_run ?inp' (?i + 1) t3) = ?i + 1" "run_active (new_run ?inp' (?i + 1) t3)"
    "er_job_type (new_run ?inp' (?i + 1) t3) = job_of_input inp'"
    by (simp_all add: job)
  obtain r where r: "r \<in> set (ed_runs (fst (attempt_start late t4 db2)))" "run_active r" "er_id r = ?i" "er_job_type r = job_of_input inp"
    using active_after_start [OF failed(2), of t4] row(2) by (auto simp: attempt_start_def assms(8))
  have "run_status_of db1 ?i = Some Run_failed" by (simp add: run_status_of_def failed(1) row(3))
  moreover have "er_id r \<noteq> er_id (new_run ?inp' (?i + 1) t3)" using r(3) other'(1) by simp
  ultimately show ?thesis using ok other other'(2,3) r(1,2,4) by blast
qed

section \<open>An example\<close>

definition sales_job :: bull_job where
  "sales_job = \<lparr>bj_id = ''etl-1'', bj_data = job_data sales_start 1, bj_attempts = Some 3, bj_made = 0\<rparr>"

definition crashed :: pipeline_outcome where
  "crashed = Pipeline_returned \<lparr>pr_exit = 1, pr_cancelled = False, pr_duration = 900, pr_stdout = [], pr_stderr = ''Odoo timed out''\<rparr>"

definition finished_well :: pipeline_outcome where
  "finished_well = Pipeline_returned \<lparr>pr_exit = 0, pr_cancelled = False, pr_duration = 900, pr_stdout = [], pr_stderr = []\<rparr>"

lemma sales_run: "getRunById (jd_run (bj_data sales_job)) sales_queued = Some (new_run sales_start 1 100)"
proof -
  have "allowed_start no_runs sales_start" by code_simp
  then have "ed_runs sales_queued = [new_run sales_start 1 100]"
    unfolding sales_queued_def enqueue_cases [OF no_runs_facts(1)] by (simp add: Let_def no_runs_def)
  then show ?thesis by (simp add: getRunById_def sales_job_def job_data_def)
qed

lemma sales_run_exists: "getRunById (jd_run (bj_data sales_job)) sales_queued \<noteq> None"
  by (simp add: sales_run)


theorem every_run_ends_witness:
  "\<exists>s \<in> set FINISHED_RUN_STATUSES. run_status_of (fst (work_off sales_job [(crashed, []), (finished_well, []), (crashed, [])] 200 sales_queued)) 1 = Some s"
proof -
  let ?w = "work_off sales_job [(crashed, []), (finished_well, []), (crashed, [])] 200 sales_queued"
  have d: "jd_run (bj_data sales_job) = 1" "bj_made sales_job = 0" "max 1 (allowed_attempts sales_job) \<le> length [(crashed, []), (finished_well, []), (crashed, [])]"
    by code_simp+
  show ?thesis using every_run_ends [OF sales_run_exists d(2,3), of 200 "fst ?w" "snd ?w"] d(1) by auto
qed

definition late_db1 :: etl_db where
  "late_db1 = snd (enqueuePipelineRun (sales_start\<lparr>en_behind := False\<rparr>) True (Some ''timed out'') 100 110 no_runs)"

definition late_db2 :: etl_db where
  "late_db2 = snd (enqueuePipelineRun (full_start\<lparr>en_behind := False\<rparr>) True None 200 200 late_db1)"

theorem late_job_revives_run_witness:
  "\<exists>r \<in> set (ed_runs (fst (attempt_start sales_job 300 late_db2))). \<exists>r' \<in> set (ed_runs (fst (attempt_start sales_job 300 late_db2))).
     er_id r \<noteq> er_id r' \<and> run_active r \<and> run_active r'"
proof -
  have may: "mayEnqueue no_runs (job_of_input sales_start) False" "mayEnqueue no_runs (job_of_input full_start) False"
    "\<not> isLongQueueJob (job_of_input sales_start)" "\<not> isLongQueueJob (job_of_input full_start)" "jd_run (bj_data sales_job) = ed_seq no_runs"
    by code_simp+
  show ?thesis
    using late_job_revives_run [where msg = "''timed out''" and ?t1.0 = 100 and ?t2.0 = 110 and ?t3.0 = 200 and late = sales_job and ?t4.0 = 300,
      OF no_runs_facts(1) may(1-4) surjective_pairing surjective_pairing] may(5)
    by (fold late_db1_def, fold late_db2_def) blast
qed

end
