(* ===== verification/Etl_Poll.thy ===== *)
theory Etl_Poll
  imports Etl_Job
begin

text \<open>
  Running the pipeline through the ETL service (\<open>runPipeline\<close> in
  \<open>backend/src/etl/services/pythonRunner.ts\<close>): the job is started by a request and then polled until the service
  calls it finished or ten polls in a row fail: \<open>answers k a\<close> is what it answers to the \<open>k\<close>-th poll asking for the
  log lines from number \<open>a\<close>. The loop may run for ever, so it is a partial function whose value \<open>None\<close> means that
  it never returns. What the service of the repository answers (\<open>to_status_dict\<close> in \<open>data/etl/api/job_tracker.py\<close>)
  is modelled after the loop: it reads the log lines, the state of the job and the number of lines one after the other,
  while the pipeline keeps writing.
\<close>

section \<open>The service's answers\<close>

record log_line =
  ln_stdout :: bool
  ln_text :: string

datatype remote_state = Remote_pending | Remote_running | Remote_completed | Remote_failed | Remote_cancelled

record remote_status =
  rs_state :: remote_state
  rs_exit :: "int option"
  rs_duration :: "int option"
  rs_count :: nat
  rs_lines :: "log_line list"

datatype poll_answer = Poll_failed string | Poll_status remote_status

datatype start_answer = Start_accepted string | Start_conflict string | Start_failed string

definition TAIL_LINES :: nat where
  "TAIL_LINES = 40"

definition MAX_CONSECUTIVE_POLL_FAILURES :: nat where
  "MAX_CONSECUTIVE_POLL_FAILURES = 10"

section \<open>The loop\<close>

definition tail_text :: "string list \<Rightarrow> string" where
  "tail_text ls = join_with [CHR 0x0A] (drop (length ls - TAIL_LINES) ls)"

record poll_state =
  ps_polls :: nat
  ps_after :: nat
  ps_fails :: nat
  ps_lines :: "log_line list"

definition poll_start :: poll_state where
  "poll_start = \<lparr>ps_polls = 0, ps_after = 0, ps_fails = 0, ps_lines = []\<rparr>"

definition is_final :: "remote_state \<Rightarrow> bool" where
  "is_final s = (s \<in> {Remote_completed, Remote_failed, Remote_cancelled})"

definition lost_message :: "string \<Rightarrow> nat \<Rightarrow> string \<Rightarrow> string" where
  "lost_message jobId n msg = ''Lost contact with the ETL API while polling job '' @ jobId @ '' after '' @ dec_digits n @
     '' attempts (last error: '' @ msg @ '')''"

text \<open>\<open>elapsed\<close>: the time since the start, taken when the service gives no duration.\<close>

definition result_of :: "int \<Rightarrow> remote_status \<Rightarrow> log_line list \<Rightarrow> pipeline_result" where
  "result_of elapsed s ls =
     \<lparr>pr_exit = (case rs_exit s of None \<Rightarrow> - 1 | Some c \<Rightarrow> c), pr_cancelled = (rs_state s = Remote_cancelled),
      pr_duration = (case rs_duration s of None \<Rightarrow> elapsed | Some d \<Rightarrow> d),
      pr_stdout = tail_text (map ln_text (filter ln_stdout ls)), pr_stderr = tail_text (map ln_text (filter (\<lambda>l. \<not> ln_stdout l) ls))\<rparr>"

definition after_answer :: "poll_state \<Rightarrow> remote_status \<Rightarrow> poll_state" where
  "after_answer st s = \<lparr>ps_polls = ps_polls st + 1, ps_after = rs_count s, ps_fails = 0, ps_lines = ps_lines st @ rs_lines s\<rparr>"

definition after_failure :: "poll_state \<Rightarrow> poll_state" where
  "after_failure st = st\<lparr>ps_polls := ps_polls st + 1, ps_fails := ps_fails st + 1\<rparr>"

text \<open>The outcome, and the lines handed to \<open>onLine\<close> in their order.\<close>

partial_function (option) poll_loop ::
  "string \<Rightarrow> (nat \<Rightarrow> int) \<Rightarrow> (nat \<Rightarrow> nat \<Rightarrow> poll_answer) \<Rightarrow> poll_state \<Rightarrow> (pipeline_outcome \<times> log_line list) option" where
  "poll_loop jobId elapsed answers st =
     (case answers (ps_polls st) (ps_after st) of
        Poll_failed msg \<Rightarrow>
          if ps_fails st + 1 \<ge> MAX_CONSECUTIVE_POLL_FAILURES
          then Some (Pipeline_threw (lost_message jobId (ps_fails st + 1) msg), ps_lines st)
          else poll_loop jobId elapsed answers (after_failure st)
      | Poll_status s \<Rightarrow>
          if is_final (rs_state s)
          then Some (Pipeline_returned (result_of (elapsed (ps_polls st)) s (ps_lines st @ rs_lines s)), ps_lines st @ rs_lines s)
          else poll_loop jobId elapsed answers (after_answer st s))"

definition runPipeline ::
  "bool \<Rightarrow> start_answer \<Rightarrow> (nat \<Rightarrow> int) \<Rightarrow> (nat \<Rightarrow> nat \<Rightarrow> poll_answer) \<Rightarrow> (pipeline_outcome \<times> log_line list) option" where
  "runPipeline configured start elapsed answers =
     (if \<not> configured then Some (Pipeline_threw
        ''ETL_API_URL and ETL_API_KEY must be set -- the Node backend now calls the ETL Flask API over HTTP instead of spawning Python directly (see data/etl/api/app.py).'', [])
      else case start of
          Start_conflict body \<Rightarrow> Some (Pipeline_threw (''ETL API reports a run is already active: '' @ body), [])
        | Start_failed msg \<Rightarrow> Some (Pipeline_threw msg, [])
        | Start_accepted jobId \<Rightarrow> poll_loop jobId elapsed answers poll_start)"

section \<open>When the loop returns\<close>

definition settled :: "poll_answer \<Rightarrow> bool" where
  "settled a = (case a of Poll_failed _ \<Rightarrow> True | Poll_status s \<Rightarrow> is_final (rs_state s))"

lemma loop_ends_settled:
  assumes "\<And>k a. n \<le> k \<Longrightarrow> settled (answers k a)" "n \<le> ps_polls st"
  shows "\<exists>r. poll_loop jobId elapsed answers st = Some r"
  using assms(2)
proof (induction "MAX_CONSECUTIVE_POLL_FAILURES - ps_fails st" arbitrary: st rule: less_induct)
  case less
  show ?case
  proof (cases "answers (ps_polls st) (ps_after st)")
    case (Poll_failed msg)
    show ?thesis
    proof (cases "ps_fails st + 1 \<ge> MAX_CONSECUTIVE_POLL_FAILURES")
      case True
      then show ?thesis by (subst poll_loop.simps) (simp add: Poll_failed)
    next
      case False
      then have "MAX_CONSECUTIVE_POLL_FAILURES - ps_fails (after_failure st) < MAX_CONSECUTIVE_POLL_FAILURES - ps_fails st"
        "n \<le> ps_polls (after_failure st)" using less.prems by (simp_all add: after_failure_def)
      from less.hyps [OF this] show ?thesis using False by (subst poll_loop.simps) (simp add: Poll_failed)
    qed
  next
    case (Poll_status s)
    then have "is_final (rs_state s)" using assms(1) [OF less.prems, of "ps_after st"] by (simp add: settled_def)
    then show ?thesis by (subst poll_loop.simps) (simp add: Poll_status)
  qed
qed

lemma loop_ends:
  assumes "\<And>k a. n \<le> k \<Longrightarrow> settled (answers k a)"
  shows "\<exists>r. poll_loop jobId elapsed answers st = Some r"
proof (induction "n - ps_polls st" arbitrary: st rule: less_induct)
  case less
  show ?case
  proof (cases "n \<le> ps_polls st")
    case True
    then show ?thesis using loop_ends_settled [of n answers st jobId elapsed] assms by blast
  next
    case False
    have next_state: "\<exists>r. poll_loop jobId elapsed answers st' = Some r" if "ps_polls st' = ps_polls st + 1" for st'
      using less.hyps [of st'] that False by simp
    show ?thesis
    proof (cases "answers (ps_polls st) (ps_after st)")
      case (Poll_failed msg)
      then show ?thesis using next_state [of "after_failure st"] by (subst poll_loop.simps) (simp add: after_failure_def)
    next
      case (Poll_status s)
      then show ?thesis using next_state [of "after_answer st s"] by (subst poll_loop.simps) (simp add: after_answer_def)
    qed
  qed
qed

text \<open>C38. The wait for the pipeline always ends once the service has settled: as soon as every further poll either
fails or reports the job finished, cancelled or failed, a result is returned or the contact is given up, however
long the polls before that went on.\<close>

theorem pipeline_wait_ends:
  assumes "\<forall>k a. n \<le> k \<longrightarrow> settled (answers k a)"
  shows "\<exists>outcome ls. runPipeline configured start elapsed answers = Some (outcome, ls)"
  using loop_ends [of n answers] assms by (auto simp: runPipeline_def split: start_answer.split)

section \<open>The service (data/etl/api/job_tracker.py)\<close>

text \<open>What the tracker knows of a job beside its log.\<close>

record tracker_view =
  tv_state :: remote_state
  tv_exit :: "int option"
  tv_duration :: "int option"

text \<open>\<open>logs\<close> is the log when the lines are read, \<open>logs'\<close> when they are counted.\<close>

definition to_status_dict :: "log_line list \<Rightarrow> tracker_view \<Rightarrow> log_line list \<Rightarrow> nat \<Rightarrow> remote_status" where
  "to_status_dict logs job logs' after =
     \<lparr>rs_state = tv_state job, rs_exit = tv_exit job, rs_duration = tv_duration job, rs_count = length logs',
      rs_lines = drop after logs\<rparr>"

text \<open>The service over time: \<open>L\<close> is the whole log of the job, \<open>reads k\<close> how far it had got at the two reads for the
\<open>k\<close>-th poll, \<open>down k\<close> the error when that poll did not get through.\<close>

definition service ::
  "log_line list \<Rightarrow> (nat \<Rightarrow> nat \<times> nat) \<Rightarrow> (nat \<Rightarrow> tracker_view) \<Rightarrow> (nat \<Rightarrow> string option) \<Rightarrow> nat \<Rightarrow> nat \<Rightarrow> poll_answer" where
  "service L reads view down k a =
     (case down k of Some msg \<Rightarrow> Poll_failed msg
      | None \<Rightarrow> Poll_status (to_status_dict (take (fst (reads k)) L) (view k) (take (snd (reads k)) L) a))"

definition log_grows :: "log_line list \<Rightarrow> (nat \<Rightarrow> nat \<times> nat) \<Rightarrow> bool" where
  "log_grows L reads \<longleftrightarrow> (\<forall>k. fst (reads k) \<le> snd (reads k) \<and> snd (reads k) \<le> fst (reads (Suc k)) \<and> snd (reads k) \<le> length L)"

text \<open>The lines written between the two reads of an answer: the next poll asks only for what comes after them.\<close>

definition missed :: "(nat \<Rightarrow> nat \<times> nat) \<Rightarrow> (nat \<Rightarrow> string option) \<Rightarrow> nat \<Rightarrow> nat \<Rightarrow> bool" where
  "missed reads down K i \<longleftrightarrow> (\<exists>k < K. down k = None \<and> fst (reads k) \<le> i \<and> i < snd (reads k))"

definition handed_on :: "log_line list \<Rightarrow> (nat \<Rightarrow> nat \<times> nat) \<Rightarrow> (nat \<Rightarrow> string option) \<Rightarrow> nat \<Rightarrow> nat \<Rightarrow> log_line list" where
  "handed_on L reads down K n = map ((!) L) (filter (\<lambda>i. \<not> missed reads down K i) [0..<n])"

section \<open>What the loop returns\<close>

lemma log_grows_le: "log_grows L reads \<Longrightarrow> j < k \<Longrightarrow> snd (reads j) \<le> fst (reads k)"
proof (induction k)
  case (Suc k)
  then show ?case using log_grows_def [of L reads] by (cases "j = k") (auto intro: order_trans)
qed simp

lemma lines_between: "n \<le> length L \<Longrightarrow> map ((!) L) [a..<n] = drop a (take n L)"
  by (intro nth_equalityI) simp_all

lemma handed_on_split:
  assumes "a \<le> n" "n \<le> length L" "\<And>k. k < K \<Longrightarrow> down k = None \<Longrightarrow> snd (reads k) \<le> a"
  shows "handed_on L reads down K a @ drop a (take n L) = handed_on L reads down K n"
proof -
  have "filter (\<lambda>i. \<not> missed reads down K i) [a..<n] = [a..<n]"
    using assms(3) by (intro filter_True) (fastforce simp: missed_def)
  moreover have "[0..<n] = [0..<a] @ [a..<n]" using assms(1) upt_add_eq_append [of 0 a "n - a"] by simp
  ultimately show ?thesis using lines_between [OF assms(2), of a] by (simp add: handed_on_def)
qed

lemma missed_down: "down K \<noteq> None \<Longrightarrow> missed reads down (Suc K) i = missed reads down K i"
  by (auto simp: missed_def less_Suc_eq)

lemma missed_up: "down K = None \<Longrightarrow> missed reads down (Suc K) i \<longleftrightarrow> missed reads down K i \<or> fst (reads K) \<le> i \<and> i < snd (reads K)"
  by (auto simp: missed_def less_Suc_eq)

lemma handed_on_answer:
  assumes "down K = None" "n = fst (reads K)" "m = snd (reads K)" "n \<le> m"
  shows "handed_on L reads down (Suc K) m = handed_on L reads down K n"
proof -
  have "[0..<m] = [0..<n] @ [n..<m]" using assms(4) upt_add_eq_append [of 0 n "m - n"] by simp
  moreover have "filter (\<lambda>i. \<not> missed reads down (Suc K) i) [n..<m] = []"
    using assms by (auto simp: filter_empty_conv missed_up)
  moreover have "filter (\<lambda>i. \<not> missed reads down (Suc K) i) [0..<n] = filter (\<lambda>i. \<not> missed reads down K i) [0..<n]"
    using assms by (intro filter_cong) (auto simp: missed_up)
  ultimately show ?thesis by (simp add: handed_on_def)
qed

text \<open>Where the loop stands: it has handed on all but the missed lines up to the number it asks from.\<close>

definition at_line :: "log_line list \<Rightarrow> (nat \<Rightarrow> nat \<times> nat) \<Rightarrow> (nat \<Rightarrow> string option) \<Rightarrow> poll_state \<Rightarrow> bool" where
  "at_line L reads down st \<longleftrightarrow>
     ps_lines st = handed_on L reads down (ps_polls st) (ps_after st) \<and> ps_after st \<le> fst (reads (ps_polls st)) \<and>
     (\<forall>k < ps_polls st. down k = None \<longrightarrow> snd (reads k) \<le> ps_after st)"

lemma at_line_failure:
  assumes "log_grows L reads" "at_line L reads down st" "down (ps_polls st) \<noteq> None"
  shows "at_line L reads down (after_failure st)"
proof -
  have "fst (reads (ps_polls st)) \<le> fst (reads (Suc (ps_polls st)))" using assms(1) unfolding log_grows_def by (meson order_trans)
  then show ?thesis using assms missed_down [of down "ps_polls st" reads]
    by (auto simp: at_line_def after_failure_def handed_on_def less_Suc_eq)
qed

lemma at_line_answer:
  assumes "log_grows L reads" "at_line L reads down st" "down (ps_polls st) = None"
    "s = to_status_dict (take (fst (reads (ps_polls st))) L) v (take (snd (reads (ps_polls st))) L) (ps_after st)"
  shows "ps_lines st @ rs_lines s = handed_on L reads down (ps_polls st) (fst (reads (ps_polls st)))"
    "at_line L reads down (after_answer st s)"
proof -
  let ?K = "ps_polls st" and ?n = "fst (reads (ps_polls st))" and ?m = "snd (reads (ps_polls st))"
  have g: "?n \<le> ?m" "?m \<le> fst (reads (Suc ?K))" "?m \<le> length L" using assms(1) unfolding log_grows_def by auto
  have a: "ps_lines st = handed_on L reads down ?K (ps_after st)" "ps_after st \<le> ?n"
    "\<And>k. k < ?K \<Longrightarrow> down k = None \<Longrightarrow> snd (reads k) \<le> ps_after st"
    using assms(2) unfolding at_line_def by auto
  have "handed_on L reads down ?K (ps_after st) @ drop (ps_after st) (take ?n L) = handed_on L reads down ?K ?n"
    by (rule handed_on_split) (use a g in auto)
  then show l: "ps_lines st @ rs_lines s = handed_on L reads down ?K ?n"
    by (simp add: a(1) assms(4) to_status_dict_def)
  have c: "rs_count s = ?m" using g by (simp add: assms(4) to_status_dict_def)
  have "snd (reads k) \<le> ?m" if "k < ?K" for k using log_grows_le [OF assms(1) that] g(1) by simp
  then show "at_line L reads down (after_answer st s)"
    using l g handed_on_answer [of down ?K ?n reads ?m L] assms(3) by (auto simp: at_line_def after_answer_def c less_Suc_eq)
qed

definition good_outcome ::
  "log_line list \<Rightarrow> (nat \<Rightarrow> nat \<times> nat) \<Rightarrow> (nat \<Rightarrow> tracker_view) \<Rightarrow> (nat \<Rightarrow> string option) \<Rightarrow> (nat \<Rightarrow> int) \<Rightarrow>
   pipeline_outcome \<times> log_line list \<Rightarrow> bool" where
  "good_outcome L reads view down elapsed r \<longleftrightarrow>
     (case fst r of
        Pipeline_threw _ \<Rightarrow> \<exists>K n. n \<le> fst (reads K) \<and> snd r = handed_on L reads down K n
      | Pipeline_returned x \<Rightarrow> \<exists>K s. down K = None \<and> is_final (tv_state (view K)) \<and>
          snd r = handed_on L reads down K (fst (reads K)) \<and> x = result_of (elapsed K) s (snd r) \<and>
          rs_state s = tv_state (view K) \<and> rs_exit s = tv_exit (view K))"

lemma loop_good:
  assumes "poll_loop jobId elapsed (service L reads view down) st = Some r" "log_grows L reads" "at_line L reads down st"
  shows "good_outcome L reads view down elapsed r"
proof -
  have "at_line L reads down st \<longrightarrow> service L reads view down = service L reads view down \<longrightarrow> good_outcome L reads view down elapsed r"
  proof (rule poll_loop.raw_induct [OF _ assms(1),
      where P = "\<lambda>_ e a st r. at_line L reads down st \<longrightarrow> a = service L reads view down \<longrightarrow> good_outcome L reads view down e r"], intro impI)
    fix loop j e a st r
    assume IH: "\<And>j e a st r. loop j e a st = Some r \<Longrightarrow> at_line L reads down st \<longrightarrow> a = service L reads view down \<longrightarrow>
        good_outcome L reads view down e r"
      and body: "(case a (ps_polls st) (ps_after st) of
        Poll_failed msg \<Rightarrow> if MAX_CONSECUTIVE_POLL_FAILURES \<le> ps_fails st + 1
            then Some (Pipeline_threw (lost_message j (ps_fails st + 1) msg), ps_lines st) else loop j e a (after_failure st)
      | Poll_status s \<Rightarrow> if is_final (rs_state s)
            then Some (Pipeline_returned (result_of (e (ps_polls st)) s (ps_lines st @ rs_lines s)), ps_lines st @ rs_lines s)
            else loop j e a (after_answer st s)) = Some r"
      and c: "at_line L reads down st" and api: "a = service L reads view down"
    show "good_outcome L reads view down e r"
    proof (cases "down (ps_polls st)")
      case (Some msg)
      have "at_line L reads down (after_failure st)" using at_line_failure [OF assms(2) c] Some by simp
      then have more: "good_outcome L reads view down e r" if "loop j e a (after_failure st) = Some r" using IH [OF that] api by blast
      have "good_outcome L reads view down e (Pipeline_threw m, ps_lines st)" for m
        using c unfolding at_line_def good_outcome_def fst_conv snd_conv pipeline_outcome.case by blast
      then show ?thesis using more body api Some by (auto simp: service_def split: if_splits)
    next
      case None
      define s where "s = to_status_dict (take (fst (reads (ps_polls st))) L) (view (ps_polls st)) (take (snd (reads (ps_polls st))) L) (ps_after st)"
      note up = at_line_answer [OF assms(2) c None s_def]
      have ans: "a (ps_polls st) (ps_after st) = Poll_status s" using None api by (simp add: service_def s_def)
      have st: "rs_state s = tv_state (view (ps_polls st))" "rs_exit s = tv_exit (view (ps_polls st))"
        by (simp_all add: s_def to_status_dict_def)
      show ?thesis
      proof (cases "is_final (rs_state s)")
        case True
        then have "r = (Pipeline_returned (result_of (e (ps_polls st)) s (ps_lines st @ rs_lines s)), ps_lines st @ rs_lines s)"
          using body ans by simp
        then show ?thesis using True None up(1) st by (auto simp: good_outcome_def intro!: exI [of _ "ps_polls st"] exI [of _ s])
      next
        case False
        then show ?thesis using IH [of j e a "after_answer st s"] body api ans up(2) by auto
      qed
    qed
  qed
  then show ?thesis using assms(3) by blast
qed

lemma handed_on_all: "(\<And>k. k < K \<Longrightarrow> down k = None \<Longrightarrow> fst (reads k) = snd (reads k)) \<Longrightarrow> n \<le> length L \<Longrightarrow>
    handed_on L reads down K n = take n L"
proof -
  assume e: "\<And>k. k < K \<Longrightarrow> down k = None \<Longrightarrow> fst (reads k) = snd (reads k)" and n: "n \<le> length L"
  have "filter (\<lambda>i. \<not> missed reads down K i) [0..<n] = [0..<n]" using e by (intro filter_True) (auto simp: missed_def)
  then show ?thesis using lines_between [OF n, of 0] by (simp add: handed_on_def)
qed

text \<open>C26. The lines handed on are lines of the pipeline's log in their order, none twice, however many polls failed in
between; missing from them are exactly those the pipeline wrote while an answer was being put together (after its lines
were read and before they were counted), and those it wrote after the lines of the answer that reported the end were
read. When the log stood still during every answer, the lines are the whole log up to the last answer. The exit code
(-1 when there is none), the cancellation and the last forty lines of the error stream are those of that answer.\<close>

theorem pipeline_log_exact:
  assumes "log_grows L reads"
    and "runPipeline True (Start_accepted jobId) elapsed (service L reads view down) = Some (outcome, ls)"
  shows "case outcome of
      Pipeline_threw _ \<Rightarrow> \<exists>K n. n \<le> fst (reads K) \<and> ls = map ((!) L) (filter (\<lambda>i. \<not> missed reads down K i) [0..<n])
    | Pipeline_returned r \<Rightarrow> \<exists>K. down K = None \<and> tv_state (view K) \<in> {Remote_completed, Remote_failed, Remote_cancelled} \<and>
        ls = map ((!) L) (filter (\<lambda>i. \<not> missed reads down K i) [0..<fst (reads K)]) \<and>
        ((\<forall>k < K. down k = None \<longrightarrow> fst (reads k) = snd (reads k)) \<longrightarrow> ls = take (fst (reads K)) L) \<and>
        pr_exit r = (case tv_exit (view K) of None \<Rightarrow> - 1 | Some c \<Rightarrow> c) \<and>
        (pr_cancelled r \<longleftrightarrow> tv_state (view K) = Remote_cancelled) \<and>
        pr_stderr r = tail_text (map ln_text (filter (\<lambda>l. \<not> ln_stdout l) ls))"
proof -
  have "at_line L reads down poll_start" by (simp add: at_line_def poll_start_def handed_on_def)
  moreover have "poll_loop jobId elapsed (service L reads view down) poll_start = Some (outcome, ls)"
    using assms(2) by (simp add: runPipeline_def)
  ultimately have good: "good_outcome L reads view down elapsed (outcome, ls)" using loop_good assms(1) by blast
  show ?thesis
  proof (cases outcome)
    case (Pipeline_returned r)
    with good obtain K s where K: "down K = None" "is_final (tv_state (view K))" "ls = handed_on L reads down K (fst (reads K))"
      "r = result_of (elapsed K) s ls" "rs_state s = tv_state (view K)" "rs_exit s = tv_exit (view K)"
      by (auto simp: good_outcome_def)
    have n: "fst (reads K) \<le> length L" using assms(1) unfolding log_grows_def by (meson order_trans)
    show ?thesis unfolding Pipeline_returned pipeline_outcome.case
      using K handed_on_all [OF _ n, of K down reads]
      by (intro exI [of _ K]) (auto simp: result_of_def is_final_def handed_on_def)
  qed (use good in \<open>auto simp: good_outcome_def handed_on_def\<close>)
qed

section \<open>An example\<close>

definition two_lines :: "log_line list" where
  "two_lines = [\<lparr>ln_stdout = True, ln_text = ''one''\<rparr>, \<lparr>ln_stdout = False, ln_text = ''two''\<rparr>]"

definition steady_service :: "nat \<Rightarrow> nat \<Rightarrow> poll_answer" where
  "steady_service k a =
     (if k = 1 \<or> a > 2 then Poll_failed ''timeout''
      else let n = max a (if k = 0 then 1 else 2) in
        Poll_status \<lparr>rs_state = (if k = 0 then Remote_running else Remote_completed), rs_exit = Some 0, rs_duration = None,
          rs_count = n, rs_lines = drop a (take n two_lines)\<rparr>)"

theorem pipeline_wait_ends_witness: "\<exists>outcome ls. runPipeline True (Start_accepted ''7'') (\<lambda>_. 900) steady_service = Some (outcome, ls)"
  by (rule pipeline_wait_ends [of 1]) (auto simp: steady_service_def settled_def is_final_def Let_def)

text \<open>A pipeline that writes its last line while the answer about its first is put together: the line is lost for good,
and with it the reason of the failure.\<close>

definition two_reads :: "nat \<Rightarrow> nat \<times> nat" where
  "two_reads k = (if k = 0 then (1, 2) else (2, 2))"

definition failing_view :: "nat \<Rightarrow> tracker_view" where
  "failing_view k = \<lparr>tv_state = (if k = 0 then Remote_running else Remote_failed), tv_exit = (if k = 0 then None else Some 1), tv_duration = None\<rparr>"

lemma losing_run:
  "runPipeline True (Start_accepted ''7'') (\<lambda>_. 900) (service two_lines two_reads failing_view (\<lambda>_. None)) =
     Some (Pipeline_returned \<lparr>pr_exit = 1, pr_cancelled = False, pr_duration = 900, pr_stdout = ''one'', pr_stderr = []\<rparr>, take 1 two_lines)"
  unfolding runPipeline_def
  by (simp, subst poll_loop.simps, simp add: service_def to_status_dict_def two_reads_def failing_view_def poll_start_def two_lines_def is_final_def after_answer_def,
      subst poll_loop.simps, simp add: service_def to_status_dict_def two_reads_def failing_view_def two_lines_def is_final_def result_of_def tail_text_def TAIL_LINES_def)

theorem pipeline_log_exact_witness:
  "\<exists>K. take 1 two_lines = map ((!) two_lines) (filter (\<lambda>i. \<not> missed two_reads (\<lambda>_. None) K i) [0..<fst (two_reads K)]) \<and>
     tv_state (failing_view K) = Remote_failed"
proof -
  have "log_grows two_lines two_reads" by (simp add: log_grows_def two_reads_def two_lines_def)
  from pipeline_log_exact [OF this losing_run]
  obtain K where K: "tv_state (failing_view K) \<in> {Remote_completed, Remote_failed, Remote_cancelled}"
    "take 1 two_lines = map ((!) two_lines) (filter (\<lambda>i. \<not> missed two_reads (\<lambda>_. None) K i) [0..<fst (two_reads K)])"
    by (auto simp del: take_Suc)
  then have "tv_state (failing_view K) = Remote_failed" by (auto simp: failing_view_def split: if_splits)
  then show ?thesis using K(2) by blast
qed

end
