(* ===== verification/Etl_Control.thy ===== *)
theory Etl_Control
  imports Etl_Job
begin

text \<open>
  The administrator's control of the runs (\<open>backend/src/routes/admin/etlControl.ts\<close>) and the two sweeps that
  end runs nobody works on (\<open>backend/src/etl/services/etlReconciliation.ts\<close>). What the message queue and the
  platform answer are arguments: whether the queue is reachable, whether a worker is connected to the main
  (\<open>False\<close>) or the long (\<open>True\<close>) queue, what looking up a job gives, whether the input files are in order.
\<close>

section \<open>Sweeps\<close>

datatype job_lookup = Job_found | Job_missing | Lookup_failed

definition no_job_message :: string where
  "no_job_message = ''Orphaned at startup: this run has no job_id on record, so it could never have been picked up.''"

definition missing_job_message :: string where
  "missing_job_message = ''Orphaned at startup: no matching job found in the queue (the process that enqueued it likely died before it could be added, or before its own failure could be recorded).''"

definition orphan_message :: "(string \<Rightarrow> job_lookup) \<Rightarrow> etl_run \<Rightarrow> string option" where
  "orphan_message look r =
     (case er_job_id r of
        None \<Rightarrow> Some no_job_message
      | Some j \<Rightarrow> if j = [] then Some no_job_message else if look j = Job_missing then Some missing_job_message else None)"

definition fail_run :: "(etl_run \<Rightarrow> string option) \<Rightarrow> int \<Rightarrow> etl_run \<Rightarrow> etl_db \<Rightarrow> etl_db" where
  "fail_run msg now r db = (case msg r of None \<Rightarrow> db | Some m \<Rightarrow> finishRun (er_id r) (failure m) now db)"

definition reconcileOrphanedEtlRuns :: "bool \<Rightarrow> (string \<Rightarrow> job_lookup) \<Rightarrow> int \<Rightarrow> etl_db \<Rightarrow> etl_db" where
  "reconcileOrphanedEtlRuns queue_up look now db =
     (let rows = active_runs db in
      if rows = [] \<or> \<not> queue_up then db else fold (fail_run (orphan_message look) now) rows db)"

definition STALE_QUEUED_THRESHOLD_S :: int where
  "STALE_QUEUED_THRESHOLD_S = 600"

definition stale_message :: string where
  "stale_message = ''No ETL worker was consuming the queue after this run sat 'queued' for over 10 minutes. The etl:worker process is likely down or was never started; check it before retrying.''"

definition is_stale :: "int \<Rightarrow> etl_run \<Rightarrow> bool" where
  "is_stale now r \<longleftrightarrow> er_status r = Run_queued \<and> er_queued r \<le> now - STALE_QUEUED_THRESHOLD_S"

text \<open>The worker probe: of the job's queue, of the main queue when no job is given.\<close>

definition hasActiveWorker :: "(bool \<Rightarrow> bool) \<Rightarrow> platform_job option \<Rightarrow> bool" where
  "hasActiveWorker worker_on job = worker_on (case job of None \<Rightarrow> False | Some j \<Rightarrow> isLongQueueJob (job_name j))"

text \<open>The second component are the jobs taken out of the queue.\<close>

definition reconcileStaleQueuedRuns :: "bool \<Rightarrow> (bool \<Rightarrow> bool) \<Rightarrow> int \<Rightarrow> etl_db \<Rightarrow> etl_db \<times> string list" where
  "reconcileStaleQueuedRuns queue_up worker_on now db =
     (let rows = filter (is_stale now) (ed_runs db) in
      if rows = [] \<or> \<not> queue_up \<or> hasActiveWorker worker_on None then (db, [])
      else (fold (fail_run (\<lambda>_. Some stale_message) now) rows db, filter (\<lambda>j. j \<noteq> []) (List.map_filter er_job_id rows)))"

section \<open>Force reset\<close>

definition reset_message :: "int \<Rightarrow> string \<Rightarrow> string \<Rightarrow> string" where
  "reset_message user name at_text = ''Force-reset by '' @ name @ '' (user #'' @ int_str user @ '') at '' @ at_text @ ''.''"

definition forceResetActiveEtlRuns :: "int \<Rightarrow> string \<Rightarrow> string \<Rightarrow> int \<Rightarrow> etl_db \<Rightarrow> etl_db \<times> (int \<times> string option) list" where
  "forceResetActiveEtlRuns user name at_text now db =
     (fold (fail_run (\<lambda>_. Some (reset_message user name at_text)) now) (active_runs db) db,
      map (\<lambda>r. (er_id r, er_job_id r)) (active_runs db))"

text \<open>The jobs the route tries to take out of the queue afterwards.\<close>

definition jobs_to_remove :: "(int \<times> string option) list \<Rightarrow> string list" where
  "jobs_to_remove reset = List.map_filter snd reset"

section \<open>Starting and retrying\<close>

record start_config =
  st_job :: platform_job
  st_mode :: etl_mode
  st_load :: load_mode
  st_output :: output_mode
  st_fast :: "bool option"

definition START_CONFIGS :: "etl_mode \<Rightarrow> start_config option" where
  "START_CONFIGS key =
     (case key of
        Mode_incremental \<Rightarrow> Some \<lparr>st_job = Job_main, st_mode = key, st_load = Load_incremental, st_output = Output_sql, st_fast = Some True\<rparr>
      | Mode_full \<Rightarrow> Some \<lparr>st_job = Job_full_all, st_mode = key, st_load = Load_full, st_output = Output_sql, st_fast = None\<rparr>
      | Mode_finance \<Rightarrow> Some \<lparr>st_job = Job_finance_receivables, st_mode = key, st_load = Load_full, st_output = Output_sql, st_fast = None\<rparr>
      | Mode_nps \<Rightarrow> Some \<lparr>st_job = Job_process_nps, st_mode = key, st_load = Load_full, st_output = Output_sql, st_fast = None\<rparr>
      | Mode_refresh \<Rightarrow> Some \<lparr>st_job = Job_refresh_30m, st_mode = key, st_load = Load_incremental, st_output = Output_sql, st_fast = None\<rparr>
      | Mode_sales_build \<Rightarrow> Some \<lparr>st_job = Job_sales_build, st_mode = key, st_load = Load_incremental, st_output = Output_sql, st_fast = None\<rparr>
      | _ \<Rightarrow> None)"

text \<open>\<open>ct_inputs\<close>: \<open>None\<close> when the platform could not be asked.\<close>

record control_env =
  ct_queue_up :: bool
  ct_worker_on :: "bool \<Rightarrow> bool"
  ct_inputs :: "bool option"
  ct_lock :: bool
  ct_added :: "string option"
  ct_now :: int
  ct_later :: int

datatype start_response = Started int string | Refused nat | Server_error string

definition manual_start :: "start_config \<Rightarrow> string \<Rightarrow> int \<Rightarrow> string \<Rightarrow> enqueue_input" where
  "manual_start cfg label user name = \<lparr>en_job = Some (st_job cfg), en_mode = st_mode cfg, en_load = st_load cfg, en_output = st_output cfg,
     en_fast = st_fast cfg, en_extra = [], en_label = label, en_trigger = Trigger_manual, en_user = Some user, en_user_name = Some name,
     en_attempts = None, en_behind = False\<rparr>"

definition startConfiguredRun :: "control_env \<Rightarrow> start_config \<Rightarrow> string \<Rightarrow> int \<Rightarrow> string \<Rightarrow> etl_db \<Rightarrow> start_response \<times> etl_db" where
  "startConfiguredRun ct cfg label user name db =
     (if \<not> ct_queue_up ct then (Refused 503, db)
      else if \<not> hasActiveWorker (ct_worker_on ct) (Some (st_job cfg)) then (Refused 503, db)
      else if ct_inputs ct = Some False then (Refused 422, db)
      else case enqueuePipelineRun (manual_start cfg label user name) (ct_lock ct) (ct_added ct) (ct_now ct) (ct_later ct) db of
          (Inr job, db') \<Rightarrow> (Started (jd_run (bj_data job)) (bj_id job), db')
        | (Inl Already_running, db') \<Rightarrow> (Refused 409, db')
        | (Inl (Queue_failed msg), db') \<Rightarrow> (Server_error msg, db'))"

definition mode_name :: "etl_mode \<Rightarrow> string" where
  "mode_name m = (case m of Mode_incremental \<Rightarrow> ''incremental'' | Mode_full \<Rightarrow> ''full'' | Mode_sql \<Rightarrow> ''sql'' | Mode_excel \<Rightarrow> ''excel''
     | Mode_finance \<Rightarrow> ''finance'' | Mode_nps \<Rightarrow> ''nps'' | Mode_refresh \<Rightarrow> ''refresh'' | Mode_sales_build \<Rightarrow> ''sales_build'')"

text \<open>\<open>requested\<close>: the run number of the request, \<open>JUndef\<close> for the last finished run. A number the database takes
for none (\<open>NaN\<close>) is an error of the query.\<close>

definition run_to_retry :: "jsval \<Rightarrow> etl_db \<Rightarrow> string + etl_run option" where
  "run_to_retry requested db =
     (if requested = JUndef then Inr (getLastFinishedRun db)
      else case to_number requested of Fin q \<Rightarrow> Inr (Option.bind (as_integer (Fin q)) (\<lambda>i. getRunById i db)) | _ \<Rightarrow> Inl ''bad run number'')"

definition retry_route :: "control_env \<Rightarrow> jsval \<Rightarrow> int \<Rightarrow> string \<Rightarrow> etl_db \<Rightarrow> start_response \<times> etl_db" where
  "retry_route ct requested user name db =
     (case run_to_retry requested db of
        Inl msg \<Rightarrow> (Server_error msg, db)
      | Inr None \<Rightarrow> (Refused 404, db)
      | Inr (Some r) \<Rightarrow>
          if er_status r \<notin> {Run_failed, Run_cancelled, Run_partial} then (Refused 400, db)
          else case START_CONFIGS (er_mode r) of
              None \<Rightarrow> (Refused 400, db)
            | Some cfg \<Rightarrow> startConfiguredRun ct cfg (''retry-'' @ mode_name (er_mode r) @ ''-of-'' @ int_str (er_id r)) user name db)"

section \<open>Cancelling\<close>

text \<open>The route publishes the job of the run it takes for the active one; a worker aborts it when it is working on
that very job (\<open>activeControllers\<close>) and ignores the message otherwise.\<close>

definition cancel_request :: "etl_db \<Rightarrow> string option" where
  "cancel_request db = Option.bind (getActiveRun db) (\<lambda>r. case er_job_id r of None \<Rightarrow> None | Some j \<Rightarrow> if j = [] then None else Some j)"

definition on_cancel :: "string set \<Rightarrow> string \<Rightarrow> string option" where
  "on_cancel controllers jobId = (if jobId \<in> controllers then Some jobId else None)"

section \<open>Ending several runs\<close>

lemma fold_change_runs:
  assumes "distinct (map er_id xs)" "\<And>x r. er_id (h x r) = er_id r"
  shows "ed_runs (fold (\<lambda>x. change_run (er_id x) (h x)) xs db) =
    map (\<lambda>r. case List.find (\<lambda>x. er_id x = er_id r) xs of None \<Rightarrow> r | Some x \<Rightarrow> h x r) (ed_runs db)"
  using assms(1)
proof (induction xs arbitrary: db)
  case (Cons x xs)
  have none: "List.find (\<lambda>y. er_id y = er_id x) xs = None" using Cons.prems by (auto simp: find_None_iff image_iff)
  show ?case
    using Cons.IH [of "change_run (er_id x) (h x) db"] Cons.prems none
    by (auto simp: update_where_def assms(2))
qed simp

definition ended :: "(etl_run \<Rightarrow> string option) \<Rightarrow> int \<Rightarrow> etl_run \<Rightarrow> etl_run" where
  "ended msg now r = (case msg r of None \<Rightarrow> r | Some m \<Rightarrow> finished_row (failure m) now r)"

lemma fold_fail_runs:
  assumes "distinct (map er_id (ed_runs db))"
  shows "ed_runs (fold (fail_run msg now) (filter P (ed_runs db)) db) = map (\<lambda>r. if P r then ended msg now r else r) (ed_runs db)"
proof -
  let ?h = "\<lambda>x r. case msg x of None \<Rightarrow> r | Some m \<Rightarrow> finished_row (failure m) now r"
  have f: "fail_run msg now x d = change_run (er_id x) (?h x) d" for x d
    by (cases "msg x") (simp_all add: fail_run_def finishRun_def change_run_def update_where_def)
  have "distinct (map er_id (filter P (ed_runs db)))" using assms by (simp add: distinct_map_filter)
  then have "ed_runs (fold (fail_run msg now) (filter P (ed_runs db)) db) =
      map (\<lambda>r. case List.find (\<lambda>x. er_id x = er_id r) (filter P (ed_runs db)) of None \<Rightarrow> r | Some x \<Rightarrow> ?h x r) (ed_runs db)"
    unfolding f [abs_def] by (rule fold_change_runs) (simp split: option.split)
  also have "\<dots> = map (\<lambda>r. if P r then ended msg now r else r) (ed_runs db)"
  proof (rule map_cong [OF refl])
    fix r assume r: "r \<in> set (ed_runs db)"
    have same: "x = r" if "x \<in> set (ed_runs db)" "er_id x = er_id r" for x
      using that r assms by (auto simp: distinct_map dest: inj_onD)
    show "(case List.find (\<lambda>x. er_id x = er_id r) (filter P (ed_runs db)) of None \<Rightarrow> r | Some x \<Rightarrow> ?h x r) = (if P r then ended msg now r else r)"
    proof (cases "P r")
      case True
      then obtain x where x: "List.find (\<lambda>x. er_id x = er_id r) (filter P (ed_runs db)) = Some x"
        using find_exists [of r "filter P (ed_runs db)" "\<lambda>x. er_id x = er_id r"] r by auto
      then have "x = r" using same find_SomeD [OF x] by auto
      then show ?thesis using True x by (simp add: ended_def)
    next
      case False
      then have "List.find (\<lambda>x. er_id x = er_id r) (filter P (ed_runs db)) = None" using same by (auto simp: find_None_iff)
      then show ?thesis using False by simp
    qed
  qed
  finally show ?thesis .
qed

lemma fail_runs_rest: "ed_seq (fold (fail_run msg now) rs db) = ed_seq db \<and> ed_log (fold (fail_run msg now) rs db) = ed_log db"
  by (induction rs arbitrary: db) (auto simp: fail_run_def finishRun_def split: option.split)

section \<open>What the sweeps and the reset do\<close>

definition unattended :: "(string \<Rightarrow> job_lookup) \<Rightarrow> etl_run \<Rightarrow> bool" where
  "unattended look r \<longleftrightarrow> run_active r \<and> (er_job_id r = None \<or> er_job_id r = Some [] \<or> (\<exists>j. er_job_id r = Some j \<and> look j = Job_missing))"

lemma ended_cases: "ended msg now r = r \<or> er_status (ended msg now r) = Run_failed"
  by (simp add: ended_def split: option.split)

lemma orphan_runs:
  assumes "distinct (map er_id (ed_runs db))"
  shows "ed_runs (reconcileOrphanedEtlRuns up look now db) =
    map (\<lambda>r. if up \<and> run_active r then ended (orphan_message look) now r else r) (ed_runs db)"
proof (cases "active_runs db = [] \<or> \<not> up")
  case True
  then have "map (\<lambda>r. if up \<and> run_active r then ended (orphan_message look) now r else r) (ed_runs db) = map (\<lambda>r. r) (ed_runs db)"
    by (intro map_cong) (auto simp: active_runs_def filter_empty_conv)
  then show ?thesis using True by (auto simp: reconcileOrphanedEtlRuns_def Let_def)
next
  case False
  then show ?thesis using fold_fail_runs [OF assms, of "orphan_message look" now run_active]
    by (simp add: reconcileOrphanedEtlRuns_def Let_def active_runs_def)
qed

lemma stale_runs:
  assumes "distinct (map er_id (ed_runs db))"
  shows "ed_runs (fst (reconcileStaleQueuedRuns up worker_on now db)) =
    map (\<lambda>r. if up \<and> \<not> worker_on False \<and> is_stale now r then finished_row (failure stale_message) now r else r) (ed_runs db)"
proof (cases "filter (is_stale now) (ed_runs db) = [] \<or> \<not> up \<or> worker_on False")
  case True
  then have "map (\<lambda>r. if up \<and> \<not> worker_on False \<and> is_stale now r then finished_row (failure stale_message) now r else r) (ed_runs db) =
      map (\<lambda>r. r) (ed_runs db)"
    by (intro map_cong) (auto simp: filter_empty_conv)
  then show ?thesis using True by (auto simp: reconcileStaleQueuedRuns_def hasActiveWorker_def Let_def)
next
  case False
  then show ?thesis using fold_fail_runs [OF assms, of "\<lambda>_. Some stale_message" now "is_stale now"]
    by (simp add: reconcileStaleQueuedRuns_def hasActiveWorker_def Let_def ended_def)
qed

text \<open>The sweeps end exactly the runs nobody can be working on and touch nothing else: at startup, with the queue
reachable, the active runs whose job is unknown to it (a job that could not be looked up is left alone); on the
timer, with the queue reachable and no worker on the main queue, the runs queued for ten minutes or more.\<close>

theorem sweeps_exact:
  assumes "distinct (map er_id (ed_runs db))"
  shows "list_all2 (\<lambda>r r'. if up \<and> unattended look r then er_status r' = Run_failed \<and> er_id r' = er_id r else r' = r)
      (ed_runs db) (ed_runs (reconcileOrphanedEtlRuns up look now db)) \<and>
    list_all2 (\<lambda>r r'. if up \<and> \<not> worker_on False \<and> er_status r = Run_queued \<and> er_queued r \<le> now - 600
        then er_status r' = Run_failed \<and> er_id r' = er_id r else r' = r)
      (ed_runs db) (ed_runs (fst (reconcileStaleQueuedRuns up worker_on now db)))"
proof
  show "list_all2 (\<lambda>r r'. if up \<and> unattended look r then er_status r' = Run_failed \<and> er_id r' = er_id r else r' = r)
      (ed_runs db) (ed_runs (reconcileOrphanedEtlRuns up look now db))"
    unfolding orphan_runs [OF assms]
    by (auto simp: list_all2_map2 list_all2_same unattended_def ended_def orphan_message_def split: option.split)
  show "list_all2 (\<lambda>r r'. if up \<and> \<not> worker_on False \<and> er_status r = Run_queued \<and> er_queued r \<le> now - 600
        then er_status r' = Run_failed \<and> er_id r' = er_id r else r' = r)
      (ed_runs db) (ed_runs (fst (reconcileStaleQueuedRuns up worker_on now db)))"
    unfolding stale_runs [OF assms] by (auto simp: list_all2_map2 list_all2_same is_stale_def STALE_QUEUED_THRESHOLD_S_def)
qed

text \<open>A force reset ends every active run and no other, names each of them, and clears the way: afterwards every
kind of run may be queued.\<close>

theorem force_reset_frees:
  assumes "distinct (map er_id (ed_runs db))" and "forceResetActiveEtlRuns user name at_text now db = (db', reset)"
  shows "active_runs db' = [] \<and> (\<forall>job behind. mayEnqueue db' job behind) \<and> map fst reset = map er_id (filter run_active (ed_runs db)) \<and>
    list_all2 (\<lambda>r r'. if run_active r then er_status r' = Run_failed \<and> er_error r' = Some (reset_message user name at_text) else r' = r)
      (ed_runs db) (ed_runs db')"
proof -
  let ?msg = "\<lambda>_ :: etl_run. Some (reset_message user name at_text)"
  have runs: "ed_runs db' = map (\<lambda>r. if run_active r then ended ?msg now r else r) (ed_runs db)" and reset: "reset = map (\<lambda>r. (er_id r, er_job_id r)) (active_runs db)"
    using assms(2) fold_fail_runs [OF assms(1), of ?msg now run_active] by (auto simp: forceResetActiveEtlRuns_def active_runs_def)
  have none: "active_runs db' = []"
    by (auto simp: active_runs_def runs filter_empty_conv ended_def run_active_def)
  have "mayEnqueue db' job behind" for job behind
    by (simp add: mayEnqueue_def activeEtlRunJobTypes_def none)
  moreover have "list_all2 (\<lambda>r r'. if run_active r then er_status r' = Run_failed \<and> er_error r' = Some (reset_message user name at_text) else r' = r)
      (ed_runs db) (ed_runs db')"
    unfolding runs by (auto simp: list_all2_map2 list_all2_same ended_def finished_row_def failure_def)
  ultimately show ?thesis using none reset by (simp add: active_runs_def)
qed

text \<open>The timed sweep asks for a worker of the main queue only. While that one is connected, a sales build no worker
of its own queue will ever take stays queued; and while that one is away, a sales build is ended although the worker of
its own queue is there.\<close>

theorem stale_sweep_blind:
  assumes "distinct (map er_id (ed_runs db))" and "r \<in> set (ed_runs db)" and "er_job_type r = ''sales_build''"
    and "er_status r = Run_queued" and "er_queued r \<le> now - 600"
  shows "(worker_on False \<longrightarrow> reconcileStaleQueuedRuns up worker_on now db = (db, [])) \<and>
    (up \<longrightarrow> \<not> worker_on False \<longrightarrow> worker_on True \<longrightarrow>
      (\<exists>r' \<in> set (ed_runs (fst (reconcileStaleQueuedRuns up worker_on now db))). er_id r' = er_id r \<and> er_status r' = Run_failed) \<and>
      hasActiveWorker worker_on (Some Job_sales_build))"
proof -
  have "hasActiveWorker worker_on (Some Job_sales_build) = worker_on True"
    by (simp add: hasActiveWorker_def isLongQueueJob_def LONG_QUEUE_JOBS_def job_name_def)
  moreover have "reconcileStaleQueuedRuns up worker_on now db = (db, [])" if "worker_on False"
    using that by (simp add: reconcileStaleQueuedRuns_def hasActiveWorker_def Let_def)
  moreover have "finished_row (failure stale_message) now r \<in> set (ed_runs (fst (reconcileStaleQueuedRuns up worker_on now db)))"
    if "up" "\<not> worker_on False"
    unfolding stale_runs [OF assms(1)] using that assms(2,4,5) by (force simp: is_stale_def STALE_QUEUED_THRESHOLD_S_def)
  ultimately show ?thesis by (auto intro!: bexI [of _ "finished_row (failure stale_message) now r"])
qed

section \<open>Starting, retrying, cancelling\<close>

text \<open>A manual start begins a run exactly when the queue is reachable, a worker is connected to the queue of that
very job, the input files are not known to be bad, no run stands in the way and the queue takes the job; it is refused
with the first of 503, 422 and 409 that applies, and then changes nothing.\<close>

theorem manual_start_exact:
  assumes "startConfiguredRun ct cfg label user name db = (res, db')"
  shows "((\<exists>i j. res = Started i j) \<longleftrightarrow> ct_queue_up ct \<and> hasActiveWorker (ct_worker_on ct) (Some (st_job cfg)) \<and> ct_inputs ct \<noteq> Some False \<and>
      ct_lock ct \<and> mayEnqueue db (job_name (st_job cfg)) False \<and> ct_added ct = None) \<and>
    (\<forall>c. res = Refused c \<longrightarrow> db' = db \<and>
      c = (if \<not> ct_queue_up ct \<or> \<not> hasActiveWorker (ct_worker_on ct) (Some (st_job cfg)) then 503 else if ct_inputs ct = Some False then 422 else 409)) \<and>
    (\<forall>i j. res = Started i j \<longrightarrow> i = ed_seq db \<and> j = toBullJobId i \<and> ed_seq db' = ed_seq db + 1)"
proof -
  have job: "job_of_input (manual_start cfg label user name) = job_name (st_job cfg)" "en_behind (manual_start cfg label user name) = False"
    by (simp_all add: job_of_input_def manual_start_def platformJobFor_def)
  have seq: "ed_seq (fst (createQueuedRun q now db)) = ed_seq db + 1" "ed_seq (setRunJobId i j d) = ed_seq d" for q now i j d
    by (simp_all add: createQueuedRun_def setRunJobId_def)
  show ?thesis
    using assms
    by (auto simp: startConfiguredRun_def enqueuePipelineRun_def job seq Let_def case_prod_beta job_data_def split: if_splits option.splits)
qed

lemma manual_start_job [simp]:
  "job_of_input (manual_start cfg label user name) = job_name (st_job cfg)" "en_behind (manual_start cfg label user name) = False"
  by (simp_all add: job_of_input_def manual_start_def platformJobFor_def)

lemma start_refused: "startConfiguredRun ct cfg label user name db = (Refused c, d) \<Longrightarrow> d = db"
  by (auto simp: startConfiguredRun_def enqueuePipelineRun_def Let_def case_prod_beta split: if_splits option.splits)

lemma start_started:
  assumes "fresh_seq db" "startConfiguredRun ct cfg label user name db = (Started i j, d)"
  shows "i = ed_seq db \<and> ed_runs d = ed_runs db @ [new_run (manual_start cfg label user name) (ed_seq db) (ct_now ct)]"
proof -
  obtain er d' where e: "enqueuePipelineRun (manual_start cfg label user name) (ct_lock ct) (ct_added ct) (ct_now ct) (ct_later ct) db = (er, d')"
    by (cases "enqueuePipelineRun (manual_start cfg label user name) (ct_lock ct) (ct_added ct) (ct_now ct) (ct_later ct) db")
  have "\<exists>job. er = Inr job \<and> i = jd_run (bj_data job) \<and> d = d'"
    using assms(2) e by (auto simp: startConfiguredRun_def split: if_splits sum.splits enqueue_error.splits)
  then obtain job where job: "er = Inr job" "i = jd_run (bj_data job)" "d = d'" by blast
  show ?thesis
    using e unfolding enqueue_cases [OF assms(1)] Let_def job by (auto simp: job_data_def job split: if_splits option.splits)
qed

lemma newest_mem: "newest key rs = Some r \<Longrightarrow> r \<in> set rs"
  by (induction rs) (auto split: option.splits if_splits)

lemma run_to_retry_stored: "run_to_retry requested db = Inr (Some r) \<Longrightarrow> r \<in> set (ed_runs db)"
  by (auto simp: run_to_retry_def getLastFinishedRun_def finished_runs_def getRunById_def split: if_splits jsnum.splits
      dest!: newest_mem first_row_Some dest: bind_eq_Some_conv [THEN iffD1])

text \<open>A retry starts the job of the mode of the run it names (the last finished one when it names none), as a new
run, and only when that run ended failed, partial or cancelled and its mode can still be started; the old run keeps
its record, and a refusal changes nothing.\<close>

theorem retry_exact:
  assumes "retry_route ct requested user name db = (res, db')" and "fresh_seq db"
  shows "(\<forall>i j. res = Started i j \<longrightarrow> i = ed_seq db \<and>
      (\<exists>r cfg new. run_to_retry requested db = Inr (Some r) \<and> r \<in> set (ed_runs db) \<and>
         er_status r \<in> {Run_failed, Run_cancelled, Run_partial} \<and> START_CONFIGS (er_mode r) = Some cfg \<and>
         ed_runs db' = ed_runs db @ [new] \<and> er_id new = i \<and> er_mode new = er_mode r \<and> er_job_type new = job_name (st_job cfg) \<and>
         er_status new = Run_queued)) \<and>
    (\<forall>c. res = Refused c \<longrightarrow> db' = db)"
proof -
  have cfgs: "st_mode cfg = m" if "START_CONFIGS m = Some cfg" for m cfg using that by (cases m) (auto simp: START_CONFIGS_def)
  have mode: "er_mode (new_run (manual_start cfg label user name) i t) = st_mode cfg" for cfg label i t
    by (simp add: new_run_def manual_start_def)
  show ?thesis
  proof (cases "run_to_retry requested db")
    case (Inr found)
    show ?thesis
    proof (cases found)
      case (Some r)
      note f = Inr [unfolded Some]
      show ?thesis
      proof (cases "er_status r \<in> {Run_failed, Run_cancelled, Run_partial}")
        case True
        show ?thesis
        proof (cases "START_CONFIGS (er_mode r)")
          case (Some cfg)
          have s: "startConfiguredRun ct cfg (''retry-'' @ mode_name (er_mode r) @ ''-of-'' @ int_str (er_id r)) user name db = (res, db')"
            using assms(1) True by (auto simp: retry_route_def f Some)
          have "i = ed_seq db \<and> (\<exists>new. ed_runs db' = ed_runs db @ [new] \<and> er_id new = i \<and> er_mode new = er_mode r \<and>
              er_job_type new = job_name (st_job cfg) \<and> er_status new = Run_queued)" if "res = Started i j" for i j
            using start_started [OF assms(2) s [unfolded that]] cfgs [OF Some] mode by auto
          moreover have "db' = db" if "res = Refused c" for c using start_refused s [unfolded that] .
          ultimately show ?thesis using f run_to_retry_stored [OF f] True Some by blast
        qed (use assms(1) f in \<open>auto simp: retry_route_def split: if_splits\<close>)
      qed (use assms(1) f in \<open>auto simp: retry_route_def\<close>)
    qed (use assms(1) Inr in \<open>auto simp: retry_route_def\<close>)
  qed (use assms(1) in \<open>auto simp: retry_route_def\<close>)
qed

lemma int_str_inject [simp]: "int_str i = int_str j \<longleftrightarrow> i = j"
proof -
  have head: "dec_digits n \<noteq> CHR ''-'' # s" for n s
    using dec_digits_digits [of n] by (auto simp: is_digit_def code_of_def)
  have inj: "dec_digits m = dec_digits n \<longleftrightarrow> m = n" for m n by (metis dec_val_dec_digits)
  show ?thesis using head head [symmetric] by (simp add: int_str_def inj) arith
qed

text \<open>C34. The cancel button aims at the newest run of the main queue: once a scheduled run waits behind a running
30-minute refresh, the request names the waiting run, and the worker, which is working on the refresh, ignores it
while the administrator is told that cancellation was requested.\<close>

theorem cancel_misses_running_refresh:
  assumes "fresh_seq db" and "active_runs db = [r]" and "er_job_type r = job_name REFRESH_JOB"
    and "er_job_id r = Some (toBullJobId (er_id r))" and "en_behind inp" and "\<not> isLongQueueJob (job_of_input inp)"
    and "enqueuePipelineRun inp True None now later db = (res, db')"
  shows "(\<exists>job. res = Inr job) \<and> r \<in> set (ed_runs db') \<and> cancel_request db' = Some (toBullJobId (ed_seq db)) \<and>
    on_cancel {toBullJobId (er_id r)} (toBullJobId (ed_seq db)) = None"
proof -
  have "mayEnqueue db (job_of_input inp) (en_behind inp)"
    using assms(2,3,5,6) by (auto simp: mayEnqueue_def Let_def activeEtlRunJobTypes_def list_all_iff)
  then have db': "db' = db\<lparr>ed_runs := ed_runs db @ [new_run inp (ed_seq db) now], ed_seq := ed_seq db + 1\<rparr>" and ok: "\<exists>job. res = Inr job"
    using assms(7) unfolding enqueue_cases [OF assms(1)] Let_def allowed_start_def by auto
  have mem: "r \<in> set (active_runs db)" using assms(2) by simp
  then have r: "r \<in> set (ed_runs db)" "er_id r < ed_seq db" using assms(1) by (auto simp: active_runs_def fresh_seq_def)
  have build: "\<not> is_sales_build r" "\<not> is_sales_build (new_run inp (ed_seq db) now)"
    using assms(3,6) by (auto simp: is_sales_build_def REFRESH_JOB_def job_name_def isLongQueueJob_def LONG_QUEUE_JOBS_def)
  have "active_runs db' = [r, new_run inp (ed_seq db) now]" using assms(2) by (simp add: active_runs_def db')
  then have "getActiveRun db' = Some (new_run inp (ed_seq db) now)" using build r(2) by (simp add: getActiveRun_def)
  moreover have "er_job_id (new_run inp (ed_seq db) now) = Some (toBullJobId (ed_seq db))" by (simp add: new_run_def)
  moreover have "toBullJobId i \<noteq> []" "toBullJobId i = toBullJobId j \<longleftrightarrow> i = j" for i j
    by (simp_all add: toBullJobId_def)
  ultimately show ?thesis using ok r by (simp add: cancel_request_def on_cancel_def db')
qed

section \<open>What the guard does not cover\<close>

lemma sweep_changes: "etl_change\<^sup>*\<^sup>* db (fold (fail_run msg now) rs db)"
proof (induction rs arbitrary: db)
  case (Cons r rs)
  have "etl_change\<^sup>*\<^sup>* db (fail_run msg now r db)"
    by (auto simp: fail_run_def failure_def FINISHED_RUN_STATUSES_def intro!: r_into_rtranclp ec_finished split: option.split)
  then show ?case using Cons by (simp add: rtranclp_trans [of etl_change db "fail_run msg now r db"])
qed simp

text \<open>The sweeps and the reset are among the changes every start has to live with.\<close>

lemma resets_are_changes:
  "etl_change\<^sup>*\<^sup>* db (reconcileOrphanedEtlRuns up look now db)"
  "etl_change\<^sup>*\<^sup>* db (fst (reconcileStaleQueuedRuns up worker_on now db))"
  "etl_change\<^sup>*\<^sup>* db (fst (forceResetActiveEtlRuns user name at_text now db))"
  using sweep_changes by (simp_all add: reconcileOrphanedEtlRuns_def reconcileStaleQueuedRuns_def forceResetActiveEtlRuns_def Let_def)

text \<open>What can happen after an attempt of a job, short of an administrator's reset: starts of runs, attempts of other
runs (whole, or as far as their beginning), further attempts of this one while the queue has attempts left, the
platform's log, and both sweeps, as long as the queue still knows the job (it keeps the last 200 failed ones).\<close>

inductive later_step :: "bull_job \<Rightarrow> etl_db \<Rightarrow> etl_db \<Rightarrow> bool" for job where
  ls_start: "later_step job db (snd (enqueuePipelineRun inp got added now later db))"
| ls_begun: "jd_run (bj_data other) \<noteq> jd_run (bj_data job) \<Longrightarrow> later_step job db (fst (attempt_start other now db))"
| ls_attempt: "jd_run (bj_data other) \<noteq> jd_run (bj_data job) \<Longrightarrow>
     later_step job db (snd (processEtlJob other early unwritten outcome rows t u db))"
| ls_retry: "willRetry job \<Longrightarrow>
     later_step job db (snd (processEtlJob (job\<lparr>bj_made := bj_made job + n\<rparr>) early unwritten outcome rows t u db))"
| ls_log: "later_step job db (db\<lparr>ed_log := rows\<rparr>)"
| ls_orphans: "look (bj_id job) \<noteq> Job_missing \<Longrightarrow> later_step job db (reconcileOrphanedEtlRuns up look now db)"
| ls_stale: "later_step job db (fst (reconcileStaleQueuedRuns up worker_on now db))"

inductive_cases later_stepE: "later_step job db db'"

definition rows_numbered :: "etl_db \<Rightarrow> bool" where
  "rows_numbered db \<longleftrightarrow> fresh_seq db \<and> distinct (map er_id (ed_runs db))"

lemma change_run_numbered:
  assumes "\<And>r. er_id (f r) = er_id r" "rows_numbered db"
  shows "rows_numbered (change_run i f db)"
proof -
  have "map er_id (update_where P f rs) = map er_id rs" for P rs
    using assms(1) by (induction rs) (simp_all add: update_where_def)
  then show ?thesis using assms by (auto simp: rows_numbered_def fresh_seq_def set_update_where)
qed

lemma etl_change_numbered: "etl_change db db' \<Longrightarrow> rows_numbered db \<Longrightarrow> rows_numbered db'"
  by (cases rule: etl_change.cases)
    (auto simp: setRunJobId_def markRunStarted_def markRunRetrying_def finishRun_def finished_row_def intro!: change_run_numbered,
     simp add: rows_numbered_def fresh_seq_def)

lemma changes_numbered: "etl_change\<^sup>*\<^sup>* db db' \<Longrightarrow> rows_numbered db \<Longrightarrow> rows_numbered db'"
  by (induction rule: rtranclp_induct) (auto intro: etl_change_numbered)

lemma start_numbered:
  assumes "rows_numbered db"
  shows "rows_numbered (snd (enqueuePipelineRun inp got added now later db))"
    "set (ed_runs db) \<subseteq> set (ed_runs (snd (enqueuePipelineRun inp got added now later db)))"
proof -
  have f: "fresh_seq db" using assms by (simp add: rows_numbered_def)
  have "ed_seq db \<notin> er_id ` set (ed_runs db)" using f by (auto simp: fresh_seq_def)
  moreover have "\<forall>r \<in> set (ed_runs db). er_id r < ed_seq db + 1" using f by (auto simp: fresh_seq_def)
  ultimately show "rows_numbered (snd (enqueuePipelineRun inp got added now later db))"
    "set (ed_runs db) \<subseteq> set (ed_runs (snd (enqueuePipelineRun inp got added now later db)))"
    using assms unfolding enqueue_cases [OF f] Let_def by (auto simp: rows_numbered_def fresh_seq_def split: option.splits)
qed

text \<open>The row of a run under what concerns other runs.\<close>

lemma other_row_kept:
  assumes "r \<in> set (ed_runs db)" "er_id r \<noteq> jd_run (bj_data other)"
  shows "r \<in> set (ed_runs (fst (attempt_start other t db)))"
    "r \<in> set (ed_runs (snd (processEtlJob other early unwritten outcome rows t u db)))"
  using assms
  by (auto simp: processEtlJob_def attempt_start_def attempt_finish_def written_def record_failure_def Let_def markRunStarted_def
      markRunRetrying_def finishRun_def set_update_where split: option.split pipeline_outcome.split)

definition left_running :: "bull_job \<Rightarrow> etl_run \<Rightarrow> etl_db \<Rightarrow> bool" where
  "left_running job r db \<longleftrightarrow> rows_numbered db \<and> r \<in> set (ed_runs db) \<and> er_id r = jd_run (bj_data job) \<and>
     er_status r = Run_running \<and> er_job_id r = Some (bj_id job)"

lemma later_step_left:
  assumes "later_step job db db'" "left_running job r db" "\<not> willRetry job" "bj_id job \<noteq> []"
  shows "left_running job r db'"
proof -
  have n: "rows_numbered db" and r: "r \<in> set (ed_runs db)" "er_id r = jd_run (bj_data job)" "er_status r = Run_running"
      "er_job_id r = Some (bj_id job)" and d: "distinct (map er_id (ed_runs db))"
    using assms(2) by (simp_all add: left_running_def rows_numbered_def)
  have "rows_numbered db' \<and> r \<in> set (ed_runs db')"
    using assms(1)
  proof cases
    case (ls_start inp got added now later)
    then show ?thesis using start_numbered [OF n] r(1) by blast
  next
    case (ls_begun other now)
    have "etl_change db (fst (attempt_start other now db))" by (simp add: attempt_start_def ec_started)
    then show ?thesis using etl_change_numbered [OF _ n] other_row_kept(1) [OF r(1)] ls_begun r(2) by auto
  next
    case (ls_attempt other early unwritten outcome rows t u)
    then show ?thesis using changes_numbered [OF attempt_changes n] other_row_kept(2) [OF r(1)] r(2) by auto
  next
    case ls_retry
    then show ?thesis using assms(3) by simp
  next
    case (ls_log rows)
    then show ?thesis using n r(1) by (simp add: rows_numbered_def fresh_seq_def)
  next
    case (ls_orphans look up now)
    have "r \<in> set (ed_runs (reconcileOrphanedEtlRuns up look now db))"
      using r ls_orphans(2) assms(4) fold_fail_runs [OF d, of "orphan_message look" now run_active]
      by (force simp: reconcileOrphanedEtlRuns_def active_runs_def Let_def ended_def orphan_message_def)
    then show ?thesis using changes_numbered [OF resets_are_changes(1) n] ls_orphans(1) by simp
  next
    case (ls_stale up worker_on now)
    have "r \<in> set (ed_runs (fst (reconcileStaleQueuedRuns up worker_on now db)))"
      using r fold_fail_runs [OF d, of "\<lambda>_. Some stale_message" now "is_stale now"]
      by (force simp: reconcileStaleQueuedRuns_def Let_def is_stale_def)
    then show ?thesis using changes_numbered [OF resets_are_changes(2) n] ls_stale by simp
  qed
  then show ?thesis using r by (simp add: left_running_def)
qed

lemma later_steps_left:
  "(later_step job)\<^sup>*\<^sup>* db db' \<Longrightarrow> left_running job r db \<Longrightarrow> \<not> willRetry job \<Longrightarrow> bj_id job \<noteq> [] \<Longrightarrow> left_running job r db'"
  by (induction rule: rtranclp_induct) (auto intro: later_step_left)

lemma left_running_blocks:
  assumes "left_running job r db" "blocks_main (er_job_type r)" "\<not> isLongQueueJob (job_of_input inp)"
  shows "enqueuePipelineRun inp got added now later db = (Inl Already_running, db)"
proof -
  have "er_job_type r \<in> set (activeEtlRunJobTypes db)"
    using assms(1) by (auto simp: left_running_def activeEtlRunJobTypes_def active_runs_def run_active_def)
  then have "\<not> mayEnqueue db (job_of_input inp) (en_behind inp)"
    using assms(2,3) by (auto simp: mayEnqueue_def Let_def list_all_iff blocks_main_def filter_empty_conv)
  then show ?thesis by (simp add: enqueuePipelineRun_def)
qed


section \<open>An example\<close>

definition ready :: control_env where
  "ready = \<lparr>ct_queue_up = True, ct_worker_on = (\<lambda>long. \<not> long), ct_inputs = Some True, ct_lock = True, ct_added = None, ct_now = 100, ct_later = 100\<rparr>"

definition failed_sales :: etl_db where
  "failed_sales = finishRun 1 (failure ''Odoo timed out'') 900 sales_queued"

lemma queued_runs: "ed_runs sales_queued = [new_run sales_start 1 100]" "ed_seq sales_queued = 2"
proof -
  have "allowed_start no_runs sales_start" by code_simp
  then show "ed_runs sales_queued = [new_run sales_start 1 100]" "ed_seq sales_queued = 2"
    unfolding sales_queued_def enqueue_cases [OF no_runs_facts(1)] by (simp_all add: Let_def no_runs_def)
qed

lemma failed_runs: "ed_runs failed_sales = [finished_row (failure ''Odoo timed out'') 900 (new_run sales_start 1 100)]" "fresh_seq failed_sales"
  by (simp_all add: failed_sales_def finishRun_def queued_runs update_where_def fresh_seq_def)

theorem sweeps_exact_witness:
  "er_status (hd (ed_runs (reconcileOrphanedEtlRuns True (\<lambda>_. Job_missing) 5000 sales_queued))) = Run_failed"
proof -
  have d: "distinct (map er_id (ed_runs sales_queued))" by (simp add: queued_runs)
  have u: "unattended (\<lambda>_. Job_missing) (new_run sales_start 1 100)" by (simp add: unattended_def new_run_def run_active_def)
  show ?thesis using conjunct1 [OF sweeps_exact [OF d, where up = True and look = "\<lambda>_. Job_missing" and now = 5000]] u
    by (auto simp: queued_runs list_all2_Cons1)
qed

theorem force_reset_frees_witness:
  "mayEnqueue (fst (forceResetActiveEtlRuns 4 ''Amal'' ''2026-03-02 10:00:00'' 5000 sales_queued)) ''full_all'' False"
proof -
  have d: "distinct (map er_id (ed_runs sales_queued))" by (simp add: queued_runs)
  show ?thesis using force_reset_frees [OF d surjective_pairing] by blast
qed

definition build_start :: enqueue_input where
  "build_start = sales_start\<lparr>en_job := Some Job_sales_build, en_mode := Mode_sales_build\<rparr>"

theorem stale_sweep_blind_witness:
  "\<exists>r' \<in> set (ed_runs (fst (reconcileStaleQueuedRuns True (\<lambda>long. long) 1000 (no_runs\<lparr>ed_runs := [new_run build_start 1 100]\<rparr>)))).
     er_id r' = 1 \<and> er_status r' = Run_failed"
proof -
  have t: "er_job_type (new_run build_start 1 100) = ''sales_build''" by code_simp
  then show ?thesis
    using stale_sweep_blind [of "no_runs\<lparr>ed_runs := [new_run build_start 1 100]\<rparr>" "new_run build_start 1 100" 1000 "\<lambda>long. long" True]
    by (simp add: new_run_def)
qed

theorem manual_start_exact_witness:
  "fst (startConfiguredRun (ready\<lparr>ct_queue_up := False\<rparr>) (the (START_CONFIGS Mode_full)) ''manual-full'' 4 ''Amal'' sales_queued) = Refused 503 \<and>
   snd (startConfiguredRun (ready\<lparr>ct_queue_up := False\<rparr>) (the (START_CONFIGS Mode_full)) ''manual-full'' 4 ''Amal'' sales_queued) = sales_queued"
proof -
  let ?r = "startConfiguredRun (ready\<lparr>ct_queue_up := False\<rparr>) (the (START_CONFIGS Mode_full)) ''manual-full'' 4 ''Amal'' sales_queued"
  have c: "fst ?r = Refused 503" by (simp add: startConfiguredRun_def)
  show ?thesis using manual_start_exact [OF surjective_pairing, where ct = "ready\<lparr>ct_queue_up := False\<rparr>" and cfg = "the (START_CONFIGS Mode_full)" and
      label = "''manual-full''" and user = 4 and name = "''Amal''" and db = sales_queued] c by simp
qed

theorem retry_exact_witness:
  "\<exists>new. ed_runs (snd (retry_route ready JUndef 4 ''Amal'' failed_sales)) = ed_runs failed_sales @ [new] \<and> er_mode new = Mode_incremental"
proof -
  have started: "fst (retry_route ready JUndef 4 ''Amal'' failed_sales) = Started 2 ''etl-2''" by code_simp
  have found: "run_to_retry JUndef failed_sales = Inr (Some (finished_row (failure ''Odoo timed out'') 900 (new_run sales_start 1 100)))"
    by (simp add: run_to_retry_def getLastFinishedRun_def finished_runs_def failed_runs FINISHED_RUN_STATUSES_def)
  have "er_mode (finished_row (failure ''Odoo timed out'') 900 (new_run sales_start 1 100)) = Mode_incremental" by code_simp
  then show ?thesis using retry_exact [OF surjective_pairing failed_runs(2), of ready JUndef 4 "''Amal''"] started found by auto
qed

definition refresh_start :: enqueue_input where
  "refresh_start = sales_start\<lparr>en_job := Some Job_refresh_30m, en_mode := Mode_refresh\<rparr>"

theorem cancel_misses_running_refresh_witness:
  "cancel_request (snd (enqueuePipelineRun (full_start\<lparr>en_behind := True\<rparr>) True None 200 200
     (no_runs\<lparr>ed_runs := [new_run refresh_start 1 100], ed_seq := 2\<rparr>))) = Some (toBullJobId 2)"
proof -
  let ?db = "no_runs\<lparr>ed_runs := [new_run refresh_start 1 100], ed_seq := 2\<rparr>"
  have d: "fresh_seq ?db" "active_runs ?db = [new_run refresh_start 1 100]" by (simp_all add: fresh_seq_def active_runs_def)
  have t: "er_job_type (new_run refresh_start 1 100) = job_name REFRESH_JOB" "\<not> isLongQueueJob (job_of_input (full_start\<lparr>en_behind := True\<rparr>))" by code_simp+
  have j: "er_job_id (new_run refresh_start 1 100) = Some (toBullJobId (er_id (new_run refresh_start 1 100)))" by (simp add: new_run_def)
  show ?thesis using cancel_misses_running_refresh [OF d t(1) j _ t(2) surjective_pairing] by auto
qed

definition last_try :: bull_job where
  "last_try = sales_job\<lparr>bj_made := 2\<rparr>"


end
