(* ===== verification/Etl_Schedule.thy ===== *)
theory Etl_Schedule
  imports Etl_Queue
begin

text \<open>
  The schedules of the ETL (\<open>backend/src/etl/config/etlConfig.ts\<close>, \<open>backend/src/etl/scheduler/\<close>): the settings
  read from the environment, which schedules are registered, and which runs a minute asks for. The cron library is
  outside: whether it takes an expression (\<open>valid\<close>) and whether the expression fires in a minute (\<open>fires\<close>) are
  arguments.
\<close>

section \<open>Settings\<close>

type_synonym environment = "string \<Rightarrow> string option"

definition env_bool :: "environment \<Rightarrow> string \<Rightarrow> bool \<Rightarrow> bool" where
  "env_bool env name fallback =
     (case env name of None \<Rightarrow> fallback | Some raw \<Rightarrow> to_lower (trim raw) \<in> {''1'', ''true'', ''yes'', ''on''})"

definition refreshIntervalMinutes :: "string option \<Rightarrow> int" where
  "refreshIntervalMinutes raw =
     (case as_integer (case raw of None \<Rightarrow> NaN | Some s \<Rightarrow> string_to_number s) of
        None \<Rightarrow> 30
      | Some n \<Rightarrow> if n \<ge> 5 \<and> n \<le> 60 \<and> 60 mod n = 0 then n else 30)"

definition cronForInterval :: "int \<Rightarrow> string" where
  "cronForInterval minutes = (if minutes = 60 then ''0 * * * *'' else ''*/'' @ int_str minutes @ '' * * * *'')"

record etl_schedule =
  sd_refresh_cron :: string
  sd_refresh :: bool
  sd_interval :: int
  sd_incremental_cron :: string
  sd_incremental :: bool
  sd_full_cron :: string
  sd_full :: bool
  sd_finance_cron :: string
  sd_finance :: bool
  sd_nps_cron :: string
  sd_nps :: bool
  sd_build_cron :: string
  sd_build :: bool
  sd_timezone :: string

record etl_config =
  ec_scheduler :: bool
  ec_worker :: bool
  ec_off_acknowledged :: bool
  ec_schedule :: etl_schedule

definition or_default :: "string option \<Rightarrow> string \<Rightarrow> string" where
  "or_default v d = (case v of None \<Rightarrow> d | Some s \<Rightarrow> if s = [] then d else s)"

definition getEtlConfig :: "environment \<Rightarrow> string \<Rightarrow> etl_config" where
  "getEtlConfig env app_timezone =
     (let interval = refreshIntervalMinutes (env ''ETL_REFRESH_INTERVAL_MINUTES'') in
      \<lparr>ec_scheduler = env_bool env ''ETL_SCHEDULER_ENABLED'' False, ec_worker = env_bool env ''ETL_WORKER_ENABLED'' False,
       ec_off_acknowledged = env_bool env ''ETL_SCHEDULER_OFF_OK'' False,
       ec_schedule =
         \<lparr>sd_refresh_cron = or_default (map_option trim (env ''ETL_SCHEDULE_REFRESH_CRON'')) (cronForInterval interval),
          sd_refresh = env_bool env ''ETL_SCHEDULE_REFRESH_ENABLED'' True, sd_interval = interval,
          sd_incremental_cron = or_default (env ''ETL_SCHEDULE_INCREMENTAL_CRON'') ''50 8,11,14,17,20 * * *'',
          sd_incremental = env_bool env ''ETL_SCHEDULE_INCREMENTAL_ENABLED'' True,
          sd_full_cron = or_default (env ''ETL_SCHEDULE_FULL_CRON'') ''0 2 * * *'', sd_full = env_bool env ''ETL_SCHEDULE_FULL_ENABLED'' True,
          sd_finance_cron = or_default (env ''ETL_SCHEDULE_FINANCE_CRON'') ''0 15 * * *'',
          sd_finance = env_bool env ''ETL_SCHEDULE_FINANCE_ENABLED'' False,
          sd_nps_cron = or_default (env ''ETL_SCHEDULE_PROCESS_NPS_CRON'') ''0 2 * * *'',
          sd_nps = env_bool env ''ETL_SCHEDULE_PROCESS_NPS_ENABLED'' False,
          sd_build_cron = or_default (env ''ETL_SCHEDULE_SALES_BUILD_CRON'') ''10,40 * * * *'',
          sd_build = env_bool env ''ETL_SCHEDULE_SALES_BUILD_ENABLED'' False,
          sd_timezone = or_default (map_option trim (env ''ETL_SCHEDULE_TIMEZONE'')) app_timezone\<rparr>\<rparr>)"

datatype nps_via = Nps_in_full | Nps_own | Nps_off

definition npsRefresh :: "etl_schedule \<Rightarrow> nps_via \<times> string option" where
  "npsRefresh sd =
     (if sd_full sd then (Nps_in_full, Some (sd_full_cron sd)) else if sd_nps sd then (Nps_own, Some (sd_nps_cron sd)) else (Nps_off, None))"

text \<open>The switches the warning names; \<open>None\<close> when there is nothing to warn about.\<close>

definition etlScheduleWarning :: "etl_config \<Rightarrow> string option \<Rightarrow> string list option" where
  "etlScheduleWarning cfg node_env =
     (if node_env \<noteq> Some ''production'' \<or> ec_off_acknowledged cfg then None
      else let off = (if ec_scheduler cfg then [] else [''ETL_SCHEDULER_ENABLED'']) @ (if ec_worker cfg then [] else [''ETL_WORKER_ENABLED'']) in
        if off = [] then None else Some off)"

section \<open>Ticks\<close>

definition scheduled_start :: "platform_job \<Rightarrow> etl_mode \<Rightarrow> load_mode \<Rightarrow> bool option \<Rightarrow> string \<Rightarrow> nat option \<Rightarrow> bool \<Rightarrow> enqueue_input" where
  "scheduled_start job m load fast label attempts behind =
     \<lparr>en_job = Some job, en_mode = m, en_load = load, en_output = Output_sql, en_fast = fast, en_extra = [], en_label = label,
      en_trigger = Trigger_scheduled, en_user = None, en_user_name = None, en_attempts = attempts, en_behind = behind\<rparr>"

definition refresh_tick :: enqueue_input where
  "refresh_tick = scheduled_start Job_refresh_30m Mode_refresh Load_incremental None ''scheduled-refresh'' (Some 1) False"

definition incremental_tick :: enqueue_input where
  "incremental_tick = scheduled_start Job_main Mode_incremental Load_incremental (Some True) ''scheduled-incremental'' None True"

definition full_tick :: enqueue_input where
  "full_tick = scheduled_start Job_full_all Mode_full Load_full None ''scheduled-full'' None True"

definition finance_tick :: enqueue_input where
  "finance_tick = scheduled_start Job_finance_receivables Mode_finance Load_full None ''scheduled-finance'' None False"

definition nps_tick :: enqueue_input where
  "nps_tick = scheduled_start Job_process_nps Mode_nps Load_full None ''scheduled-nps'' None True"

definition build_tick :: enqueue_input where
  "build_tick = scheduled_start Job_sales_build Mode_sales_build Load_incremental None ''scheduled-sales-build'' (Some 1) False"

definition refresh_yields :: "(string \<Rightarrow> bool) \<Rightarrow> etl_schedule \<Rightarrow> bool" where
  "refresh_yields fires sd = (sd_full sd \<and> fires (sd_full_cron sd) \<or> sd_incremental sd \<and> fires (sd_incremental_cron sd))"

definition ticks_of :: "bool \<Rightarrow> (string \<Rightarrow> bool) \<Rightarrow> (string \<Rightarrow> bool) \<Rightarrow> string \<Rightarrow> enqueue_input list \<Rightarrow> enqueue_input list" where
  "ticks_of enabled valid fires cron inputs = (if enabled \<and> valid cron \<and> fires cron then inputs else [])"

text \<open>The starts the registered schedules ask for in one minute, in the order of their registration.\<close>

definition registerEtlSchedules :: "(string \<Rightarrow> bool) \<Rightarrow> (string \<Rightarrow> bool) \<Rightarrow> etl_config \<Rightarrow> enqueue_input list" where
  "registerEtlSchedules valid fires cfg =
     (let sd = ec_schedule cfg in
      if \<not> ec_scheduler cfg then []
      else ticks_of (sd_refresh sd) valid fires (sd_refresh_cron sd) (if refresh_yields fires sd then [] else [refresh_tick]) @
        ticks_of (sd_incremental sd) valid fires (sd_incremental_cron sd) [incremental_tick] @
        ticks_of (sd_full sd) valid fires (sd_full_cron sd) [full_tick] @
        ticks_of (sd_finance sd) valid fires (sd_finance_cron sd) [finance_tick] @
        (case npsRefresh sd of (Nps_own, _) \<Rightarrow> ticks_of True valid fires (sd_nps_cron sd) [nps_tick] | _ \<Rightarrow> []) @
        ticks_of (sd_build sd) valid fires (sd_build_cron sd) [build_tick])"

section \<open>What a minute starts\<close>

lemma tick_jobs [simp]:
  "job_of_input refresh_tick = ''refresh_30m''" "job_of_input incremental_tick = ''main''" "job_of_input full_tick = ''full_all''"
  "job_of_input finance_tick = ''finance_receivables''" "job_of_input nps_tick = ''process_nps''" "job_of_input build_tick = ''sales_build''"
  by (simp_all add: job_of_input_def refresh_tick_def incremental_tick_def full_tick_def finance_tick_def nps_tick_def build_tick_def
      scheduled_start_def platformJobFor_def job_name_def)

lemma in_ticks_of [simp]: "x \<in> set (ticks_of enabled valid fires cron inputs) \<longleftrightarrow> enabled \<and> valid cron \<and> fires cron \<and> x \<in> set inputs"
  by (auto simp: ticks_of_def)

lemma subseq_distinct: "subseq xs ys \<Longrightarrow> distinct ys \<Longrightarrow> distinct xs"
  by (induction rule: list_emb.induct) (auto dest: subseq_members)

lemma ticks_jobs: "inputs = [] \<or> inputs = [x] \<Longrightarrow> subseq (map job_of_input (ticks_of enabled valid fires cron inputs)) [job_of_input x]"
  by (auto simp: ticks_of_def)

lemma scheduled_jobs:
  "subseq (map job_of_input (registerEtlSchedules valid fires cfg))
     [''refresh_30m'', ''main'', ''full_all'', ''finance_receivables'', ''process_nps'', ''sales_build'']"
proof -
  let ?sd = "ec_schedule cfg"
  have nps: "subseq (map job_of_input (case npsRefresh ?sd of (Nps_own, _) \<Rightarrow> ticks_of True valid fires (sd_nps_cron ?sd) [nps_tick] | _ \<Rightarrow> [])) [''process_nps'']"
    using ticks_jobs [of "[nps_tick]" nps_tick] by (auto simp: npsRefresh_def split: nps_via.split)
  have "subseq (map job_of_input (registerEtlSchedules valid fires cfg))
     ([''refresh_30m''] @ [''main''] @ [''full_all''] @ [''finance_receivables''] @ [''process_nps''] @ [''sales_build''])"
    unfolding registerEtlSchedules_def Let_def if_distrib [of "map job_of_input"] map_append
    using ticks_jobs [of "[incremental_tick]" incremental_tick] ticks_jobs [of "[full_tick]" full_tick]
      ticks_jobs [of "[finance_tick]" finance_tick] ticks_jobs [of "[build_tick]" build_tick]
      ticks_jobs [of "if refresh_yields fires ?sd then [] else [refresh_tick]" refresh_tick] nps
    by (auto intro!: list_emb_append_mono simp del: append.simps)
  then show ?thesis by simp
qed

text \<open>On a machine that is not the scheduler nothing is started. Otherwise a minute starts each job at most once: the
30-minute refresh only when neither the full nor the sales schedule fires in that minute, and the NPS job by itself only
when the full refresh, which ends with it, is off; every other job exactly when its schedule is on, accepted and due.\<close>

theorem scheduled_starts_exact:
  "(\<not> ec_scheduler cfg \<longrightarrow> registerEtlSchedules valid fires cfg = []) \<and>
   distinct (map job_of_input (registerEtlSchedules valid fires cfg)) \<and>
   (\<forall>inp \<in> set (registerEtlSchedules valid fires cfg). en_trigger inp = Trigger_scheduled \<and>
      (job_of_input inp = ''refresh_30m'' \<longrightarrow> \<not> (sd_full (ec_schedule cfg) \<and> fires (sd_full_cron (ec_schedule cfg))) \<and>
         \<not> (sd_incremental (ec_schedule cfg) \<and> fires (sd_incremental_cron (ec_schedule cfg)))) \<and>
      (job_of_input inp = ''process_nps'' \<longrightarrow> \<not> sd_full (ec_schedule cfg))) \<and>
   (ec_scheduler cfg \<longrightarrow> (''full_all'' \<in> job_of_input ` set (registerEtlSchedules valid fires cfg) \<longleftrightarrow>
      sd_full (ec_schedule cfg) \<and> valid (sd_full_cron (ec_schedule cfg)) \<and> fires (sd_full_cron (ec_schedule cfg))))"
proof -
  have trigger: "en_trigger refresh_tick = Trigger_scheduled" "en_trigger incremental_tick = Trigger_scheduled" "en_trigger full_tick = Trigger_scheduled"
    "en_trigger finance_tick = Trigger_scheduled" "en_trigger nps_tick = Trigger_scheduled" "en_trigger build_tick = Trigger_scheduled"
    by (simp_all add: refresh_tick_def incremental_tick_def full_tick_def finance_tick_def nps_tick_def build_tick_def scheduled_start_def)
  let ?sd = "ec_schedule cfg" and ?ticks = "registerEtlSchedules valid fires cfg"
  have "distinct (map job_of_input ?ticks)" by (rule subseq_distinct [OF scheduled_jobs]) simp
  moreover have mem: "inp \<in> set ?ticks \<longleftrightarrow> ec_scheduler cfg \<and>
      (inp = refresh_tick \<and> sd_refresh ?sd \<and> valid (sd_refresh_cron ?sd) \<and> fires (sd_refresh_cron ?sd) \<and> \<not> refresh_yields fires ?sd \<or>
       inp = incremental_tick \<and> sd_incremental ?sd \<and> valid (sd_incremental_cron ?sd) \<and> fires (sd_incremental_cron ?sd) \<or>
       inp = full_tick \<and> sd_full ?sd \<and> valid (sd_full_cron ?sd) \<and> fires (sd_full_cron ?sd) \<or>
       inp = finance_tick \<and> sd_finance ?sd \<and> valid (sd_finance_cron ?sd) \<and> fires (sd_finance_cron ?sd) \<or>
       inp = nps_tick \<and> \<not> sd_full ?sd \<and> sd_nps ?sd \<and> valid (sd_nps_cron ?sd) \<and> fires (sd_nps_cron ?sd) \<or>
       inp = build_tick \<and> sd_build ?sd \<and> valid (sd_build_cron ?sd) \<and> fires (sd_build_cron ?sd))" for inp
    by (auto simp: registerEtlSchedules_def Let_def npsRefresh_def)
  have "en_trigger inp = Trigger_scheduled \<and> (job_of_input inp = ''refresh_30m'' \<longrightarrow> \<not> refresh_yields fires ?sd) \<and>
      (job_of_input inp = ''process_nps'' \<longrightarrow> \<not> sd_full ?sd)" if "inp \<in> set ?ticks" for inp
    using that unfolding mem by (elim conjE disjE) (simp_all add: trigger)
  moreover have "''full_all'' \<in> job_of_input ` set ?ticks \<longleftrightarrow> full_tick \<in> set ?ticks"
  proof
    assume "''full_all'' \<in> job_of_input ` set ?ticks"
    then obtain inp where i: "inp \<in> set ?ticks" "job_of_input inp = ''full_all''" by auto
    from i(1) have "inp = full_tick" unfolding mem using i(2) by (elim conjE disjE) simp_all
    then show "full_tick \<in> set ?ticks" using i(1) by simp
  qed (metis image_eqI tick_jobs(3))
  moreover have "full_tick \<in> set ?ticks \<longleftrightarrow> sd_full ?sd \<and> valid (sd_full_cron ?sd) \<and> fires (sd_full_cron ?sd)" if "ec_scheduler cfg"
    using that by (auto simp: mem full_tick_def refresh_tick_def incremental_tick_def finance_tick_def nps_tick_def build_tick_def scheduled_start_def)
  moreover have "?ticks = []" if "\<not> ec_scheduler cfg" using that by (simp add: registerEtlSchedules_def Let_def)
  ultimately show ?thesis unfolding refresh_yields_def by blast
qed

text \<open>The interval of the refresh is always a divisor of sixty between five and sixty minutes, so that its cron
expression ticks at the same minutes of every hour.\<close>

theorem refresh_interval_bounds:
  "let n = refreshIntervalMinutes raw in 5 \<le> n \<and> n \<le> 60 \<and> 60 mod n = 0"
  by (simp add: refreshIntervalMinutes_def Let_def split: option.split)

text \<open>A nightly full refresh that is due is never dropped for 30-minute refreshes: while only those are active on the
main queue, the minute asks for the full refresh and its start is accepted and waits behind them.\<close>

theorem nightly_full_accepted:
  assumes "ec_scheduler cfg" and "sd_full (ec_schedule cfg)" and "valid (sd_full_cron (ec_schedule cfg))" and "fires (sd_full_cron (ec_schedule cfg))"
    and "\<forall>r \<in> set (active_runs db). er_job_type r = ''refresh_30m'' \<or> er_job_type r = ''sales_build''"
  shows "\<exists>inp \<in> set (registerEtlSchedules valid fires cfg). job_of_input inp = ''full_all'' \<and>
    (\<exists>job. fst (enqueuePipelineRun inp True None now later db) = Inr job)"
proof -
  have mem: "full_tick \<in> set (registerEtlSchedules valid fires cfg)"
    using assms(1-4) by (simp add: registerEtlSchedules_def Let_def)
  have "en_behind full_tick" by (simp add: full_tick_def scheduled_start_def)
  moreover have "\<not> isLongQueueJob ''full_all''" "isLongQueueJob ''sales_build''" "job_name REFRESH_JOB = ''refresh_30m''" by code_simp+
  ultimately have "mayEnqueue db (job_of_input full_tick) (en_behind full_tick)"
    using assms(5) by (auto simp: mayEnqueue_def Let_def activeEtlRunJobTypes_def list_all_iff)
  then have "\<exists>job. fst (enqueuePipelineRun full_tick True None now later db) = Inr job"
    by (simp add: enqueuePipelineRun_def Let_def case_prod_beta)
  then show ?thesis using mem by (intro bexI [of _ full_tick]) auto
qed

section \<open>An example\<close>

definition server_env :: environment where
  "server_env = [''ETL_SCHEDULER_ENABLED'' \<mapsto> ''true'', ''ETL_WORKER_ENABLED'' \<mapsto> ''yes'']"

definition server_config :: etl_config where
  "server_config = getEtlConfig server_env ''Africa/Tripoli''"

theorem nightly_full_accepted_witness:
  "\<exists>inp \<in> set (registerEtlSchedules (\<lambda>_. True) (\<lambda>cron. cron = ''0 2 * * *'') server_config). job_of_input inp = ''full_all'' \<and>
     (\<exists>job. fst (enqueuePipelineRun inp True None 200 200 (no_runs\<lparr>ed_runs := [new_run refresh_tick 1 100]\<rparr>)) = Inr job)"
proof (rule nightly_full_accepted)
  show "ec_scheduler server_config" "sd_full (ec_schedule server_config)" "sd_full_cron (ec_schedule server_config) = ''0 2 * * *''"
    by code_simp+
  show "\<forall>r \<in> set (active_runs (no_runs\<lparr>ed_runs := [new_run refresh_tick 1 100]\<rparr>)). er_job_type r = ''refresh_30m'' \<or> er_job_type r = ''sales_build''"
    by (simp add: active_runs_def)
qed simp

theorem scheduled_starts_exact_witness:
  "distinct (map job_of_input (registerEtlSchedules (\<lambda>_. True) (\<lambda>cron. cron = ''0 2 * * *'') server_config)) \<and>
   ''full_all'' \<in> job_of_input ` set (registerEtlSchedules (\<lambda>_. True) (\<lambda>cron. cron = ''0 2 * * *'') server_config)"
proof -
  have "ec_scheduler server_config" "sd_full (ec_schedule server_config)" "sd_full_cron (ec_schedule server_config) = ''0 2 * * *''" by code_simp+
  then show ?thesis using scheduled_starts_exact [of server_config "\<lambda>_. True" "\<lambda>cron. cron = ''0 2 * * *''"] by simp
qed

end
