(* ===== verification/Marcom_Tables.thy ===== *)
theory Marcom_Tables
  imports Js_Values "HOL-Library.Monad_Syntax"
begin

text \<open>
  The MARCOM upload, its tables: the Excel template the upload accepts (\<open>marcom/templateConfig.ts\<close>),
  the database table each template table is stored in, and the canonical form of a value and the natural
  key of a row (\<open>marcom/tables.ts\<close>). A parsed row's \<open>data\<close> is the association list of its fields. The
  last section proves that storing a value and reading it back does not change its canonical form, which
  is what makes a second upload of the same figures a no-op.
\<close>

section \<open>The template\<close>

datatype table_id = T_spend | T_other | T_campaigns | T_media | T_social | T_web | T_trade | T_events

datatype col_kind =
    K_year | K_month | K_text | K_enum | K_brand | K_category | K_date | K_int | K_money | K_decimal | K_pct

record col_spec =
  cs_col :: nat
  cs_field :: string
  cs_label :: string
  cs_kind :: col_kind
  cs_required :: bool
  cs_enumValues :: "string list"

record table_spec =
  ts_id :: table_id
  ts_sheet :: string
  ts_headerRow :: nat
  ts_lastRow :: nat
  ts_cols :: "col_spec list"
  ts_keyFields :: "string list"
  ts_prefillFields :: "string list option"

definition TEMPLATE_VERSION :: string where
  "TEMPLATE_VERSION = ''2.0''"

definition MONTHS :: "string list" where
  "MONTHS =
     [''January'', ''February'', ''March'', ''April'', ''May'', ''June'',
      ''July'', ''August'', ''September'', ''October'', ''November'', ''December'']"

definition PLATFORMS :: "string list" where
  "PLATFORMS = [''Facebook'', ''Google'', ''LinkedIn'', ''Instagram'', ''TikTok'']"

definition MEDIA_TYPES :: "string list" where
  "MEDIA_TYPES =
     [''1-Street Lights'', ''2-Mega Billboards'', ''3-Billboards'', ''4-Bridge Banners'', ''5-Light Screen'']"

definition CITIES :: "string list" where
  "CITIES =
     [''Tripoli'', ''Benghazi'', ''Misrata'', ''Zawiya'', ''Zliten'', ''Khoms'', ''Sirte'', ''Bayda'', ''Tobruk'',
      ''Derna'', ''Ajdabiya'', ''Marj'', ''Brega'', ''Sabha'', ''Gharyan'', ''Zuwara'', ''Sabratha'', ''Surman'',
      ''Tarhuna'', ''Bani Walid'', ''Yafran'', ''Nalut'', ''Ghadames'', ''Jalu'', ''Waddan'', ''Hun'', ''Ubari'',
      ''Murzuq'', ''Ghat'', ''Kufra'']"

definition DEFAULT_SPEND_CATEGORIES :: "string list" where
  "DEFAULT_SPEND_CATEGORIES =
     [''Uniforms'', ''Printing & Printouts'', ''Gifts & Giveaways'', ''Events & Sponsorships'',
      ''Branding & Signage'', ''POS / Merchandising Materials'', ''Photography & Production'',
      ''Agency / Freelancer Fees'', ''Other'']"

definition CAMPAIGN_STATUSES :: "string list" where
  "CAMPAIGN_STATUSES = [''Planned'', ''Ongoing'', ''Completed'', ''On Hold'']"

definition EVENT_TYPES :: "string list" where
  "EVENT_TYPES =
     [''1-Professionals'', ''2-Architects/Designers'', ''3-Corporate'', ''4-CSR'',
      ''5-Entertainment'', ''6-Launch & Opening'', ''7-Internal/Trainings'', ''8-Exhibitions'']"

definition EVENT_STATUSES :: "string list" where
  "EVENT_STATUSES = [''Planned'', ''Completed'', ''Postponed'', ''Cancelled'']"

definition YEAR_MIN :: int where "YEAR_MIN = 2020"

definition YEAR_MAX :: int where "YEAR_MAX = 2100"

definition MAX_FILE_BYTES :: nat where "MAX_FILE_BYTES = 10 * 1024 * 1024"

definition EXAMPLE_FILL :: string where "EXAMPLE_FILL = ''E2EFDA''"

definition SHEET_P1 :: string where "SHEET_P1 = ''P1 - MARCOM Spending''"

definition SHEET_P1B :: string where "SHEET_P1B = ''P1b - Other MARCOM Spending''"

definition SHEET_P2 :: string where "SHEET_P2 = ''P2 - Media Campaigns''"

definition SHEET_P3 :: string where "SHEET_P3 = ''P3 - Digital Performance''"

definition SHEET_P4 :: string where "SHEET_P4 = ''P4 - Trade Marketing''"

definition F_col :: "nat \<Rightarrow> string \<Rightarrow> string \<Rightarrow> col_kind \<Rightarrow> col_spec" where
  "F_col c fld label k =
     \<lparr>cs_col = c, cs_field = fld, cs_label = label, cs_kind = k, cs_required = True, cs_enumValues = []\<rparr>"

definition optional :: "col_spec \<Rightarrow> col_spec" where
  "optional c = c\<lparr>cs_required := False\<rparr>"

definition enum_of :: "string list \<Rightarrow> col_spec \<Rightarrow> col_spec" where
  "enum_of vs c = c\<lparr>cs_enumValues := vs\<rparr>"

definition spec_spend :: table_spec where
  "spec_spend =
     \<lparr>ts_id = T_spend, ts_sheet = SHEET_P1, ts_headerRow = 13, ts_lastRow = 114,
      ts_cols =
       [F_col 1 ''year'' ''Year'' K_year,
        F_col 2 ''month'' ''Month'' K_month,
        F_col 3 ''brand'' ''Brand'' K_brand,
        optional (F_col 4 ''brandRevenueCurrent'' ''Brand Revenue - Current Month'' K_money),
        optional (F_col 5 ''brandRevenueLy'' ''Brand Revenue - Same Month Last Year'' K_money),
        optional (F_col 6 ''revenueAttributed'' ''Revenue Attributed to Marketing'' K_money),
        optional (F_col 7 ''companyRevenueTotal'' ''Company Total Revenue - Current Month'' K_money),
        F_col 8 ''budget'' ''Budget Allocated'' K_money,
        optional (F_col 9 ''financeBookedTotal'' ''Finance Booked MARCOM Total'' K_money),
        F_col 10 ''newCustomers'' ''# of New Customers'' K_int,
        F_col 11 ''avgInvoice'' ''Avg Sales per Invoice'' K_money,
        F_col 12 ''socialPostCost'' ''Total Cost of Social Media Posts'' K_money,
        F_col 13 ''clicks'' ''Total Clicks'' K_int],
      ts_keyFields = [''year'', ''month'', ''brand''], ts_prefillFields = None\<rparr>"

definition spec_other :: table_spec where
  "spec_other =
     \<lparr>ts_id = T_other, ts_sheet = SHEET_P1B, ts_headerRow = 5, ts_lastRow = 306,
      ts_cols =
       [F_col 1 ''year'' ''Year'' K_year,
        F_col 2 ''month'' ''Month'' K_month,
        F_col 3 ''brand'' ''Brand'' K_brand,
        F_col 4 ''category'' ''Category'' K_category,
        F_col 5 ''description'' ''Description'' K_text,
        optional (F_col 6 ''vendor'' ''Vendor / Supplier'' K_text),
        F_col 7 ''amount'' ''Amount'' K_money,
        optional (F_col 8 ''notes'' ''Notes'' K_text)],
      ts_keyFields = [''year'', ''month'', ''brand'', ''category'', ''description''], ts_prefillFields = None\<rparr>"

definition spec_campaigns :: table_spec where
  "spec_campaigns =
     \<lparr>ts_id = T_campaigns, ts_sheet = SHEET_P2, ts_headerRow = 5, ts_lastRow = 25,
      ts_cols =
       [F_col 1 ''name'' ''Campaign Name'' K_text,
        F_col 2 ''brand'' ''Brand'' K_brand,
        F_col 3 ''startDate'' ''Start Date'' K_date,
        F_col 4 ''endDate'' ''End Date'' K_date,
        enum_of CAMPAIGN_STATUSES (F_col 5 ''status'' ''Status'' K_enum),
        F_col 6 ''spend'' ''Total Spend'' K_money,
        F_col 7 ''revenueAttributed'' ''Revenue Attributed to Campaign'' K_money],
      ts_keyFields = [''name''], ts_prefillFields = None\<rparr>"

definition spec_media :: table_spec where
  "spec_media =
     \<lparr>ts_id = T_media, ts_sheet = SHEET_P2, ts_headerRow = 29, ts_lastRow = 59,
      ts_cols =
       [F_col 1 ''campaignName'' ''Campaign Name'' K_text,
        enum_of MEDIA_TYPES (F_col 2 ''mediaType'' ''Media Type'' K_enum),
        enum_of CITIES (F_col 3 ''city'' ''City'' K_enum),
        F_col 4 ''units'' ''# of Locations / Units'' K_int,
        F_col 5 ''cost'' ''Cost'' K_money],
      ts_keyFields = [''campaignName'', ''mediaType'', ''city''], ts_prefillFields = None\<rparr>"

definition spec_social :: table_spec where
  "spec_social =
     \<lparr>ts_id = T_social, ts_sheet = SHEET_P3, ts_headerRow = 5, ts_lastRow = 255,
      ts_cols =
       [F_col 1 ''year'' ''Year'' K_year,
        F_col 2 ''month'' ''Month'' K_month,
        F_col 3 ''brand'' ''Brand'' K_brand,
        enum_of PLATFORMS (F_col 4 ''platform'' ''Platform'' K_enum),
        optional (F_col 5 ''accountName'' ''Account / Page Name'' K_text),
        F_col 6 ''followers'' ''Followers / Likes'' K_int,
        F_col 7 ''impressions'' ''Impressions'' K_int,
        F_col 8 ''clicks'' ''Clicks'' K_int,
        F_col 9 ''engagementPaid'' ''Paid Engagement'' K_int,
        F_col 10 ''engagementOrganic'' ''Organic (Free) Engagement'' K_int],
      ts_keyFields = [''year'', ''month'', ''brand'', ''platform'', ''accountName''], ts_prefillFields = Some [''year'', ''month'', ''brand'', ''platform'', ''accountName'']\<rparr>"

definition spec_web :: table_spec where
  "spec_web =
     \<lparr>ts_id = T_web, ts_sheet = SHEET_P3, ts_headerRow = 259, ts_lastRow = 320,
      ts_cols =
       [F_col 1 ''year'' ''Year'' K_year,
        F_col 2 ''month'' ''Month'' K_month,
        F_col 3 ''brand'' ''Brand'' K_brand,
        F_col 4 ''bounceVisitors'' ''Single-Page (Bounce) Visitors'' K_int,
        F_col 5 ''totalVisitors'' ''Total Visitors'' K_int,
        F_col 6 ''sessions'' ''Total Sessions'' K_int,
        F_col 7 ''totalMinutes'' ''Total Time Spent by All Visitors'' K_decimal],
      ts_keyFields = [''year'', ''month'', ''brand''], ts_prefillFields = Some [''year'', ''month'', ''brand'']\<rparr>"

definition spec_trade :: table_spec where
  "spec_trade =
     \<lparr>ts_id = T_trade, ts_sheet = SHEET_P4, ts_headerRow = 5, ts_lastRow = 29,
      ts_cols =
       [F_col 1 ''year'' ''Year'' K_year,
        F_col 2 ''month'' ''Month'' K_month,
        F_col 3 ''compliancePct'' ''Trade Marketing Report Score'' K_pct,
        F_col 5 ''giveawaysStockPct'' ''Giveaways Stock Available'' K_pct,
        F_col 7 ''printedStockPct'' ''Printed Materials Stock Available'' K_pct,
        F_col 9 ''attendeesActual'' ''# Attendees - Actual'' K_int,
        F_col 10 ''attendeesExpected'' ''# Attendees - Expected'' K_int],
      ts_keyFields = [''year'', ''month''], ts_prefillFields = None\<rparr>"

definition spec_events :: table_spec where
  "spec_events =
     \<lparr>ts_id = T_events, ts_sheet = SHEET_P4, ts_headerRow = 33, ts_lastRow = 63,
      ts_cols =
       [F_col 1 ''name'' ''Event Name'' K_text,
        enum_of EVENT_TYPES (F_col 2 ''eventType'' ''Event Type'' K_enum),
        F_col 3 ''brand'' ''Brand'' K_brand,
        F_col 4 ''plannedDate'' ''Planned Date'' K_date,
        optional (F_col 5 ''completionDate'' ''Completion Date'' K_date),
        enum_of EVENT_STATUSES (F_col 6 ''status'' ''Status'' K_enum)],
      ts_keyFields = [''name'', ''brand''], ts_prefillFields = None\<rparr>"

definition TABLES :: "table_spec list" where
  "TABLES = [spec_spend, spec_other, spec_campaigns, spec_media, spec_social, spec_web, spec_trade, spec_events]"

fun TABLE_LABELS :: "table_id \<Rightarrow> string" where
  "TABLE_LABELS T_spend = ''P1 MARCOM Spending''"
| "TABLE_LABELS T_other = ''P1b Other MARCOM Spending (non-campaign)''"
| "TABLE_LABELS T_campaigns = ''P2 Table A - Campaigns''"
| "TABLE_LABELS T_media = ''P2 Table B - OOH coverage by city''"
| "TABLE_LABELS T_social = ''P3 Table A - Social media''"
| "TABLE_LABELS T_web = ''P3 Table B - Website traffic''"
| "TABLE_LABELS T_trade = ''P4 Table A - Trade KPIs''"
| "TABLE_LABELS T_events = ''P4 Table B - Events''"

section \<open>The database tables\<close>

datatype field_type = Ty_int | Ty_money | Ty_dec2 | Ty_pct | Ty_text | Ty_date | Ty_brand | Ty_category

record field_def =
  fd_field :: string
  fd_col :: string
  fd_type :: field_type

record adapter =
  ad_id :: table_id
  ad_table :: string
  ad_fields :: "field_def list"
  ad_keyFields :: "string list"

definition fdef :: "string \<Rightarrow> string \<Rightarrow> field_type \<Rightarrow> field_def" where
  "fdef fld c t = \<lparr>fd_field = fld, fd_col = c, fd_type = t\<rparr>"

fun adapter_of :: "table_id \<Rightarrow> adapter" where
  "adapter_of T_spend =
     \<lparr>ad_id = T_spend, ad_table = ''marcom_spend_monthly'',
      ad_fields =
       [fdef ''year'' ''year'' Ty_int,
        fdef ''month'' ''month'' Ty_int,
        fdef ''brand'' ''brand_id'' Ty_brand,
        fdef ''brandRevenueCurrent'' ''brand_revenue_current'' Ty_money,
        fdef ''brandRevenueLy'' ''brand_revenue_ly'' Ty_money,
        fdef ''revenueAttributed'' ''revenue_attributed'' Ty_money,
        fdef ''companyRevenueTotal'' ''company_revenue_total'' Ty_money,
        fdef ''budget'' ''budget'' Ty_money,
        fdef ''financeBookedTotal'' ''finance_booked_total'' Ty_money,
        fdef ''newCustomers'' ''new_customers'' Ty_int,
        fdef ''avgInvoice'' ''avg_invoice'' Ty_money,
        fdef ''socialPostCost'' ''social_post_cost'' Ty_money,
        fdef ''clicks'' ''clicks'' Ty_int],
      ad_keyFields = [''year'', ''month'', ''brand'']\<rparr>"
| "adapter_of T_other =
     \<lparr>ad_id = T_other, ad_table = ''marcom_other_spend'',
      ad_fields =
       [fdef ''year'' ''year'' Ty_int,
        fdef ''month'' ''month'' Ty_int,
        fdef ''brand'' ''brand_id'' Ty_brand,
        fdef ''category'' ''category_id'' Ty_category,
        fdef ''description'' ''description'' Ty_text,
        fdef ''vendor'' ''vendor'' Ty_text,
        fdef ''amount'' ''amount_lyd'' Ty_money,
        fdef ''notes'' ''notes'' Ty_text],
      ad_keyFields = [''year'', ''month'', ''brand'', ''category'', ''description'']\<rparr>"
| "adapter_of T_campaigns =
     \<lparr>ad_id = T_campaigns, ad_table = ''marcom_campaign'',
      ad_fields =
       [fdef ''name'' ''name'' Ty_text,
        fdef ''brand'' ''brand_id'' Ty_brand,
        fdef ''startDate'' ''start_date'' Ty_date,
        fdef ''endDate'' ''end_date'' Ty_date,
        fdef ''status'' ''status'' Ty_text,
        fdef ''spend'' ''spend'' Ty_money,
        fdef ''revenueAttributed'' ''revenue_attributed'' Ty_money],
      ad_keyFields = [''name'']\<rparr>"
| "adapter_of T_media =
     \<lparr>ad_id = T_media, ad_table = ''marcom_campaign_media'',
      ad_fields =
       [fdef ''campaignName'' ''campaign_name'' Ty_text,
        fdef ''mediaType'' ''media_type'' Ty_text,
        fdef ''city'' ''city'' Ty_text,
        fdef ''units'' ''units'' Ty_int,
        fdef ''cost'' ''cost'' Ty_money],
      ad_keyFields = [''campaignName'', ''mediaType'', ''city'']\<rparr>"
| "adapter_of T_social =
     \<lparr>ad_id = T_social, ad_table = ''marcom_social_monthly'',
      ad_fields =
       [fdef ''year'' ''year'' Ty_int,
        fdef ''month'' ''month'' Ty_int,
        fdef ''brand'' ''brand_id'' Ty_brand,
        fdef ''platform'' ''platform'' Ty_text,
        fdef ''accountName'' ''account_name'' Ty_text,
        fdef ''followers'' ''followers'' Ty_int,
        fdef ''impressions'' ''impressions'' Ty_int,
        fdef ''clicks'' ''clicks'' Ty_int,
        fdef ''engagementPaid'' ''engagement_paid'' Ty_int,
        fdef ''engagementOrganic'' ''engagement_organic'' Ty_int],
      ad_keyFields = [''year'', ''month'', ''brand'', ''platform'', ''accountName'']\<rparr>"
| "adapter_of T_web =
     \<lparr>ad_id = T_web, ad_table = ''marcom_web_monthly'',
      ad_fields =
       [fdef ''year'' ''year'' Ty_int,
        fdef ''month'' ''month'' Ty_int,
        fdef ''brand'' ''brand_id'' Ty_brand,
        fdef ''bounceVisitors'' ''bounce_visitors'' Ty_int,
        fdef ''totalVisitors'' ''total_visitors'' Ty_int,
        fdef ''sessions'' ''sessions'' Ty_int,
        fdef ''totalMinutes'' ''total_minutes'' Ty_dec2],
      ad_keyFields = [''year'', ''month'', ''brand'']\<rparr>"
| "adapter_of T_trade =
     \<lparr>ad_id = T_trade, ad_table = ''marcom_trade_monthly'',
      ad_fields =
       [fdef ''year'' ''year'' Ty_int,
        fdef ''month'' ''month'' Ty_int,
        fdef ''compliancePct'' ''compliance_pct'' Ty_pct,
        fdef ''giveawaysStockPct'' ''giveaways_stock_pct'' Ty_pct,
        fdef ''printedStockPct'' ''printed_stock_pct'' Ty_pct,
        fdef ''attendeesActual'' ''attendees_actual'' Ty_int,
        fdef ''attendeesExpected'' ''attendees_expected'' Ty_int],
      ad_keyFields = [''year'', ''month'']\<rparr>"
| "adapter_of T_events =
     \<lparr>ad_id = T_events, ad_table = ''marcom_event'',
      ad_fields =
       [fdef ''name'' ''name'' Ty_text,
        fdef ''eventType'' ''event_type'' Ty_text,
        fdef ''brand'' ''brand_id'' Ty_brand,
        fdef ''plannedDate'' ''planned_date'' Ty_date,
        fdef ''completionDate'' ''completion_date'' Ty_date,
        fdef ''status'' ''status'' Ty_text],
      ad_keyFields = [''name'', ''brand'']\<rparr>"

definition table_ids :: "table_id list" where
  "table_ids = [T_spend, T_other, T_campaigns, T_media, T_social, T_web, T_trade, T_events]"

definition ADAPTERS :: "adapter list" where
  "ADAPTERS = map adapter_of table_ids"

text \<open>A row's \<open>data\<close>, and \<open>data[f]\<close>: a field it does not have is \<open>undefined\<close>.\<close>

type_synonym row_data = "(string \<times> jsval) list"

definition dat :: "row_data \<Rightarrow> string \<Rightarrow> jsval" where
  "dat d f = (case map_of d f of None \<Rightarrow> JUndef | Some v \<Rightarrow> v)"

section \<open>Canonical values and natural keys\<close>

text \<open>\<open>Math.round(x * 10^d) / 10^d\<close> and \<open>x.toFixed(d)\<close>, both on the exact value of \<open>x\<close> (see \<open>Js_Values\<close>).\<close>

fun round_dec :: "nat \<Rightarrow> jsnum \<Rightarrow> jsnum" where
  "round_dec d (Fin r) = Fin (of_int \<lfloor>r * 10 ^ d + 1 / 2\<rfloor> / 10 ^ d)"
| "round_dec d n = n"

definition fixed_digits :: "nat \<Rightarrow> nat \<Rightarrow> string" where
  "fixed_digits d m = dec_digits (m div 10 ^ d) @ CHR ''.'' # pad_digits d (m mod 10 ^ d)"

fun toFixed :: "nat \<Rightarrow> jsnum \<Rightarrow> string" where
  "toFixed d (Fin r) =
     (if r < 0 then CHR ''-'' # fixed_digits d (nat \<lfloor>- r * 10 ^ d + 1 / 2\<rfloor>)
      else fixed_digits d (nat \<lfloor>r * 10 ^ d + 1 / 2\<rfloor>))"
| "toFixed d n = num_str n"

fun normalize_as :: "field_type \<Rightarrow> jsval \<Rightarrow> string" where
  "normalize_as Ty_int v = num_str (to_number v)"
| "normalize_as Ty_money v = toFixed 2 (round_dec 2 (to_number v))"
| "normalize_as Ty_dec2 v = toFixed 2 (round_dec 2 (to_number v))"
| "normalize_as Ty_pct v = toFixed 4 (round_dec 4 (to_number v))"
| "normalize_as _ v = trim (to_string v)"

definition normalize :: "field_type \<Rightarrow> jsval \<Rightarrow> string option" where
  "normalize t v = (if nullish v \<or> v = JStr [] then None else Some (normalize_as t v))"

definition field_type_of :: "adapter \<Rightarrow> string \<Rightarrow> field_type" where
  "field_type_of a k =
     (case List.find (\<lambda>x. fd_field x = k) (ad_fields a) of None \<Rightarrow> Ty_text | Some fd \<Rightarrow> fd_type fd)"

definition keyOf :: "adapter \<Rightarrow> row_data \<Rightarrow> string" where
  "keyOf a d =
     join_with ''|''
       (map (\<lambda>k. to_lower (case normalize (field_type_of a k) (dat d k) of None \<Rightarrow> [] | Some s \<Rightarrow> s))
         (ad_keyFields a))"

text \<open>\<open>toDb\<close> of \<open>marcom/service.ts\<close>: the value a column receives.\<close>

definition toDb :: "field_type \<Rightarrow> jsval \<Rightarrow> jsval" where
  "toDb t v =
     (if nullish v then JNull
      else if v = JStr [] then (if t = Ty_text then JStr [] else JNull)
      else if t = Ty_int then JNum (to_number v)
      else if t = Ty_money \<or> t = Ty_dec2 \<or> t = Ty_pct
        then (case normalize t v of None \<Rightarrow> JNull | Some s \<Rightarrow> JStr s)
      else JStr (to_string v))"

section \<open>Decimals print and parse back\<close>

lemma dec_val_append: "dec_val (xs @ ys) = dec_val xs * 10 ^ length ys + dec_val ys"
proof (induction ys rule: rev_induct)
  case (snoc y ys)
  then show ?case
    using dec_val_snoc [of "xs @ ys" y] by (simp add: algebra_simps)
qed simp

lemma takeWhile_digits:
  assumes "list_all is_digit ds" "s = [] \<or> \<not> is_digit (hd s)"
  shows "takeWhile is_digit (ds @ s) = ds" "dropWhile is_digit (ds @ s) = s"
proof -
  have d: "\<forall>x \<in> set ds. is_digit x" using assms(1) by (simp add: list_all_iff)
  have s: "takeWhile is_digit s = []" "dropWhile is_digit s = s" using assms(2) by (cases s; simp)+
  show "takeWhile is_digit (ds @ s) = ds" using d s(1) by (simp add: takeWhile_append2)
  show "dropWhile is_digit (ds @ s) = s" using d s(2) by (simp add: dropWhile_append2)
qed

lemma decimal_num_fixed: "decimal_num (fixed_digits d m) = Some (of_nat m / 10 ^ d)"
proof -
  let ?i = "dec_digits (m div 10 ^ d)" and ?f = "pad_digits d (m mod 10 ^ d)"
  have dot: "\<not> is_digit (CHR ''.'')" by (simp add: is_digit_def code_of_def)
  have i: "takeWhile is_digit (?i @ CHR ''.'' # ?f) = ?i" "dropWhile is_digit (?i @ CHR ''.'' # ?f) = CHR ''.'' # ?f"
    by (rule takeWhile_digits; simp add: dec_digits_digits dot)+
  have f: "takeWhile is_digit ?f = ?f" "dropWhile is_digit ?f = []"
    using takeWhile_digits [OF pad_digits_digits [of d "m mod 10 ^ d"], of "[]"] by simp_all
  have v: "dec_val (?i @ ?f) = m"
    using div_mult_mod_eq [of m "10 ^ d"] by (simp add: dec_val_append dec_val_pad_digits)
  show ?thesis
    by (simp add: decimal_num_def fixed_digits_def i f v exponent_part_def scale10_def Let_def)
qed

lemma hd_digits: "list_all is_digit ds \<Longrightarrow> ds \<noteq> [] \<Longrightarrow> is_digit (hd ds)"
  by (cases ds) auto

lemma digit_not_space: "is_digit c \<Longrightarrow> \<not> is_space c"
  by (auto simp: is_digit_def is_space_def)

lemma digits_dot:
  assumes "s = ds @ CHR ''.'' # es" "list_all is_digit ds" "ds \<noteq> []" "list_all is_digit es" "es \<noteq> []"
  shows "is_digit (hd s)" "is_digit (last s)" "s \<noteq> []"
    "take 2 s \<notin> {''0x'', ''0X'', ''0o'', ''0O'', ''0b'', ''0B''}"
proof -
  show "is_digit (hd s)" using assms hd_digits by (cases ds) auto
  have "is_digit (last es)" using assms(4,5) by (auto simp: list_all_iff)
  then show "is_digit (last s)" using assms(1,5) by simp
  show "s \<noteq> []" using assms(1) by simp
  show "take 2 s \<notin> {''0x'', ''0X'', ''0o'', ''0O'', ''0b'', ''0B''}"
  proof (cases ds)
    case (Cons a as)
    then show ?thesis using assms(1,2)
      by (cases as) (auto simp: is_digit_def code_of_def numeral_2_eq_2)
  qed (use assms(3) in simp)
qed

lemma fixed_digits_facts:
  assumes "0 < d"
  shows "is_digit (hd (fixed_digits d m))" "is_digit (last (fixed_digits d m))" "fixed_digits d m \<noteq> []"
    "take 2 (fixed_digits d m) \<notin> {''0x'', ''0X'', ''0o'', ''0O'', ''0b'', ''0B''}"
proof -
  have "length (pad_digits d (m mod 10 ^ d)) \<noteq> 0" using assms by simp
  then have ne: "pad_digits d (m mod 10 ^ d) \<noteq> []" by force
  note f = digits_dot [OF fixed_digits_def [of d m] dec_digits_digits dec_digits_nonempty pad_digits_digits ne]
  show "is_digit (hd (fixed_digits d m))" "is_digit (last (fixed_digits d m))" "fixed_digits d m \<noteq> []"
    "take 2 (fixed_digits d m) \<notin> {''0x'', ''0X'', ''0o'', ''0O'', ''0b'', ''0B''}"
    by (rule f)+
qed

lemma unsigned_num_fixed: "0 < d \<Longrightarrow> unsigned_num (fixed_digits d m) = Fin (of_nat m / 10 ^ d)"
proof -
  assume "0 < d"
  then have "is_digit (hd (fixed_digits d m))" by (rule fixed_digits_facts)
  then have "fixed_digits d m \<noteq> ''Infinity''" by (auto simp: is_digit_def code_of_def)
  then show ?thesis by (simp add: unsigned_num_def decimal_num_fixed)
qed

lemma string_to_number_fixed:
  assumes "0 < d"
  shows "string_to_number (fixed_digits d m) = Fin (of_nat m / 10 ^ d)"
proof -
  note f = fixed_digits_facts [OF assms, of m]
  have "trim (fixed_digits d m) = fixed_digits d m"
    using f digit_not_space by (intro trim_fixed) auto
  moreover have "hd (fixed_digits d m) \<noteq> CHR ''-''" "hd (fixed_digits d m) \<noteq> CHR ''+''"
    using f(1) by (auto simp: is_digit_def code_of_def)
  ultimately show ?thesis
    using f(3,4) by (simp add: string_to_number_def unsigned_num_fixed [OF assms])
qed

lemma string_to_number_neg_fixed:
  assumes "0 < d"
  shows "string_to_number (CHR ''-'' # fixed_digits d m) = Fin (- (of_nat m / 10 ^ d))"
proof -
  note f = fixed_digits_facts [OF assms, of m]
  have "trim (CHR ''-'' # fixed_digits d m) = CHR ''-'' # fixed_digits d m"
    using f digit_not_space by (intro trim_fixed) (auto simp: is_space_def code_of_def)
  then show ?thesis
    by (simp add: string_to_number_def unsigned_num_fixed [OF assms] neg_num_def numeral_2_eq_2)
qed

text \<open>A number with \<open>d\<close> decimals is what its \<open>toFixed(d)\<close> parses to.\<close>

lemma floor_half: "\<lfloor>of_int m + 1 / 2 :: rat\<rfloor> = m"
  by (rule floor_unique) simp_all

lemma toFixed_number:
  assumes "0 < d"
  shows "string_to_number (toFixed d (Fin (of_int m / 10 ^ d))) = Fin (of_int m / 10 ^ d)"
proof (cases "m < 0")
  case True
  then have "(of_int m / 10 ^ d :: rat) < 0" by (simp add: divide_neg_pos)
  moreover have "\<lfloor>- (of_int m / 10 ^ d) * 10 ^ d + 1 / 2 :: rat\<rfloor> = - m"
    using floor_half [of "- m"] by simp
  ultimately have "toFixed d (Fin (of_int m / 10 ^ d)) = CHR ''-'' # fixed_digits d (nat (- m))" by simp
  then show ?thesis using True by (simp add: string_to_number_neg_fixed [OF assms] del: toFixed.simps)
next
  case False
  then have "\<not> (of_int m / 10 ^ d :: rat) < 0" by (simp add: not_less)
  moreover have "\<lfloor>of_int m / 10 ^ d * 10 ^ d + 1 / 2 :: rat\<rfloor> = m"
    using floor_half [of m] by simp
  ultimately have "toFixed d (Fin (of_int m / 10 ^ d)) = fixed_digits d (nat m)" by simp
  then show ?thesis using False by (simp add: string_to_number_fixed [OF assms] del: toFixed.simps)
qed

lemma round_dec_idem: "round_dec d (round_dec d n) = round_dec d n"
proof (cases n)
  case (Fin r)
  have "\<lfloor>of_int \<lfloor>r * 10 ^ d + 1 / 2\<rfloor> / 10 ^ d * 10 ^ d + 1 / 2 :: rat\<rfloor> = \<lfloor>r * 10 ^ d + 1 / 2\<rfloor>"
    using floor_half by simp
  with Fin show ?thesis by simp
qed simp_all

lemma special_numbers:
  "string_to_number ''NaN'' = NaN" "string_to_number ''Infinity'' = PosInf" "string_to_number ''-Infinity'' = NegInf"
  by code_simp+

lemma toFixed_round_number:
  assumes "0 < d"
  shows "string_to_number (toFixed d (round_dec d n)) = round_dec d n"
  using toFixed_number [OF assms] by (cases n) (simp_all add: special_numbers del: toFixed.simps(1))

section \<open>Storing a value keeps its canonical form\<close>

fun scalar :: "jsval \<Rightarrow> bool" where
  "scalar JNull = True"
| "scalar (JNum n) = True"
| "scalar (JStr s) = True"
| "scalar _ = False"

lemma num_str_nonempty [simp]: "num_str n \<noteq> []"
  by (cases n) (simp_all add: rat_str_def Let_def)

lemma toFixed_nonempty: "0 < d \<Longrightarrow> toFixed d n \<noteq> []"
  using fixed_digits_facts(3) [of d] by (cases n) simp_all

lemma normalize_toFixed:
  assumes "0 < d"
  shows "toFixed d (round_dec d (to_number (JStr (toFixed d (round_dec d n))))) = toFixed d (round_dec d n)"
  by (simp add: toFixed_round_number [OF assms] round_dec_idem del: toFixed.simps round_dec.simps)

lemma scalar_string: "scalar v \<Longrightarrow> \<not> nullish v \<Longrightarrow> v \<noteq> JStr [] \<Longrightarrow> to_string v \<noteq> []"
  by (cases v) auto

lemma normalize_toDb:
  assumes "scalar v"
  shows "normalize t (toDb t v) = normalize t v"
proof (cases "nullish v \<or> v = JStr []")
  case True
  then show ?thesis by (auto simp: normalize_def toDb_def)
next
  case False
  then have s: "to_string v \<noteq> []" using scalar_string [OF assms] by blast
  show ?thesis
  proof (cases t)
    case Ty_int
    then show ?thesis using False by (simp add: normalize_def toDb_def)
  next
    case Ty_money
    then show ?thesis using False
      by (simp add: normalize_def toDb_def toFixed_nonempty normalize_toFixed del: toFixed.simps round_dec.simps to_number.simps)
  next
    case Ty_dec2
    then show ?thesis using False
      by (simp add: normalize_def toDb_def toFixed_nonempty normalize_toFixed del: toFixed.simps round_dec.simps to_number.simps)
  next
    case Ty_pct
    then show ?thesis using False
      by (simp add: normalize_def toDb_def toFixed_nonempty normalize_toFixed del: toFixed.simps round_dec.simps to_number.simps)
  qed (use False s in \<open>simp_all add: normalize_def toDb_def\<close>)
qed

end
