(* ===== verification/Marcom_Store.thy ===== *)
theory Marcom_Store
  imports Marcom_Diff
begin

text \<open>
  The append-only MARCOM tables (migrations 0022, 0057, 0062): a live row has \<open>is_current = 1\<close>; a row that
  a later batch replaced has \<open>is_current\<close> NULL and \<open>superseded_by_batch\<close> set to that batch. This theory
  holds the rows, the read-back with its brand and category joins (\<open>lookupJoins\<close>, \<open>selectCol\<close> of
  \<open>marcom/tables.ts\<close>), the natural-key view of a row (\<open>DbRow\<close> of \<open>marcom/removal.ts\<close>), the writes of a
  commit on one table (\<open>insertRow\<close> and the update loop of \<open>marcom/service.ts\<close>), and the invariant of a
  table's history: the rows of one natural key form a chain ordered by batch, each row linked to the next
  one and only the last one live.
  The database's own part is the argument \<open>env\<close>: the collation key of a string (\<open>me_ci\<close>) its unique
  indexes compare, and which values fit the columns (\<open>me_storable\<close>).
\<close>

section \<open>Rows\<close>

datatype marcom_error = Marcom nat string | Invalid_file | Structure "string list" | Unexpected

record mk_row =
  kr_id :: nat
  kr_cols :: row_data
  kr_batch :: nat
  kr_current :: bool
  kr_superseded :: "nat option"

record mk_brand =
  kb_id :: nat
  kb_name :: string
  kb_created :: "nat option"
  kb_group :: bool
  kb_company :: "int option"

record mk_category =
  kc_id :: nat
  kc_name :: string
  kc_sort :: int
  kc_active :: bool

record mk_env =
  me_ci :: "string \<Rightarrow> string"
  me_storable :: "table_id \<Rightarrow> row_data \<Rightarrow> bool"

definition id_val :: "nat \<Rightarrow> jsval" where
  "id_val n = JNum (Fin (of_nat n))"

lemma id_val_inj [simp]: "id_val m = id_val n \<longleftrightarrow> m = n"
  by (simp add: id_val_def)

lemma id_val_JNull [simp]: "id_val n \<noteq> JNull" "JNull \<noteq> id_val n"
  by (simp_all add: id_val_def)

section \<open>Reading rows back\<close>

definition brand_name :: "mk_brand list \<Rightarrow> jsval \<Rightarrow> jsval option" where
  "brand_name bs v = map_option (\<lambda>b. JStr (kb_name b)) (List.find (\<lambda>b. id_val (kb_id b) = v) bs)"

definition category_name :: "mk_category list \<Rightarrow> jsval \<Rightarrow> jsval option" where
  "category_name cs v = map_option (\<lambda>c. JStr (kc_name c)) (List.find (\<lambda>c. id_val (kc_id c) = v) cs)"

definition selectCol :: "mk_brand list \<Rightarrow> mk_category list \<Rightarrow> mk_row \<Rightarrow> field_def \<Rightarrow> jsval option" where
  "selectCol bs cs r fd =
     (let v = dat (kr_cols r) (fd_col fd) in
      case fd_type fd of
        Ty_brand \<Rightarrow> brand_name bs v
      | Ty_category \<Rightarrow> category_name cs v
      | _ \<Rightarrow> Some v)"

text \<open>The inner joins: a row whose brand or category does not resolve is not in the result.\<close>

definition join_row :: "mk_brand list \<Rightarrow> mk_category list \<Rightarrow> adapter \<Rightarrow> mk_row \<Rightarrow> row_data option" where
  "join_row bs cs a r =
     those (map (\<lambda>fd. map_option (\<lambda>v. (fd_field fd, v)) (selectCol bs cs r fd)) (ad_fields a))"

definition currentRows :: "mk_brand list \<Rightarrow> mk_category list \<Rightarrow> adapter \<Rightarrow> mk_row list \<Rightarrow> current_row list" where
  "currentRows bs cs a rows =
     List.map_filter (\<lambda>r. map_option (\<lambda>d. (kr_id r, d)) (join_row bs cs a r)) (filter kr_current rows)"

record db_row =
  dr_id :: nat
  dr_batch :: nat
  dr_current :: bool
  dr_superseded :: "nat option"
  dr_key :: string
  dr_label :: string

text \<open>\<open>String(d[k] ?? '')\<close> and the label of a key; the separator is the middle dot, code unit 183.\<close>

definition str_or_empty :: "jsval \<Rightarrow> string" where
  "str_or_empty v = (if nullish v then [] else to_string v)"

definition pad_start2 :: "string \<Rightarrow> string" where
  "pad_start2 s = replicate (2 - length s) (CHR ''0'') @ s"

definition dot_separator :: string where
  "dot_separator = [CHR '' '', CHR 0xB7, CHR '' '']"

definition keyLabel :: "adapter \<Rightarrow> row_data \<Rightarrow> string" where
  "keyLabel a d =
     (if dat d ''year'' \<noteq> JUndef \<and> dat d ''month'' \<noteq> JUndef
      then join_with dot_separator
        ((to_string (dat d ''year'') @ ''-'' @ pad_start2 (to_string (dat d ''month'')))
         # map (\<lambda>k. str_or_empty (dat d k)) (filter (\<lambda>k. k \<noteq> ''year'' \<and> k \<noteq> ''month'') (ad_keyFields a)))
      else join_with dot_separator (map (\<lambda>k. str_or_empty (dat d k)) (ad_keyFields a)))"

definition read_row :: "mk_brand list \<Rightarrow> mk_category list \<Rightarrow> adapter \<Rightarrow> mk_row \<Rightarrow> db_row option" where
  "read_row bs cs a r =
     map_option (\<lambda>d. \<lparr>dr_id = kr_id r, dr_batch = kr_batch r, dr_current = kr_current r,
                      dr_superseded = kr_superseded r, dr_key = keyOf a d, dr_label = keyLabel a d\<rparr>)
       (join_row bs cs a r)"

definition read_rows :: "mk_brand list \<Rightarrow> mk_category list \<Rightarrow> adapter \<Rightarrow> mk_row list \<Rightarrow> db_row list" where
  "read_rows bs cs a rows = List.map_filter (read_row bs cs a) rows"

section \<open>The unique index\<close>

text \<open>
  UNIQUE (natural-key columns, \<open>is_current\<close>): two live rows may not agree on every key column. NULL never
  agrees with anything, strings agree when their collation keys do.
\<close>

fun col_agrees :: "(string \<Rightarrow> string) \<Rightarrow> jsval \<Rightarrow> jsval \<Rightarrow> bool" where
  "col_agrees ci (JStr s) (JStr t) = (ci s = ci t)"
| "col_agrees ci v w = (\<not> nullish v \<and> \<not> nullish w \<and> v = w)"

definition key_cols :: "adapter \<Rightarrow> string list" where
  "key_cols a = map fd_col (filter (\<lambda>fd. fd_field fd \<in> set (ad_keyFields a)) (ad_fields a))"

definition collides :: "mk_env \<Rightarrow> adapter \<Rightarrow> mk_row \<Rightarrow> mk_row \<Rightarrow> bool" where
  "collides env a r s \<longleftrightarrow>
     kr_current r \<and> kr_current s \<and>
     list_all (\<lambda>c. col_agrees (me_ci env) (dat (kr_cols r) c) (dat (kr_cols s) c)) (key_cols a)"

fun unique_ok :: "mk_env \<Rightarrow> adapter \<Rightarrow> mk_row list \<Rightarrow> bool" where
  "unique_ok env a [] = True"
| "unique_ok env a (r # rs) = (\<not> list_ex (collides env a r) rs \<and> unique_ok env a rs)"

section \<open>The writes of a commit\<close>

fun rfold :: "('a \<Rightarrow> 's \<Rightarrow> 'e + 's) \<Rightarrow> 'a list \<Rightarrow> 's \<Rightarrow> 'e + 's" where
  "rfold f [] s = Inr s"
| "rfold f (x # xs) s = rbind (f x s) (rfold f xs)"

text \<open>\<open>ids.brands\<close> and \<open>ids.categories\<close>: maps from lower-cased names, filled in row order.\<close>

definition brand_id :: "mk_brand list \<Rightarrow> string \<Rightarrow> nat option" where
  "brand_id bs k = map_option kb_id (List.find (\<lambda>b. to_lower (kb_name b) = k) (rev bs))"

definition category_id :: "mk_category list \<Rightarrow> string \<Rightarrow> nat option" where
  "category_id cs k = map_option kc_id (List.find (\<lambda>c. to_lower (kc_name c) = k) (rev cs))"

definition resolved :: "nat option \<Rightarrow> jsval option" where
  "resolved i = (case i of None \<Rightarrow> None | Some n \<Rightarrow> if n = 0 then None else Some (id_val n))"

definition column_value :: "mk_brand list \<Rightarrow> mk_category list \<Rightarrow> row_data \<Rightarrow> field_def \<Rightarrow> jsval option" where
  "column_value bs cs d fd =
     (let v = dat d (fd_field fd) in
      case fd_type fd of
        Ty_brand \<Rightarrow> resolved (brand_id bs (to_lower (to_string v)))
      | Ty_category \<Rightarrow> resolved (category_id cs (to_lower (to_string v)))
      | t \<Rightarrow> Some (toDb t v))"

definition row_values :: "mk_brand list \<Rightarrow> mk_category list \<Rightarrow> adapter \<Rightarrow> row_data \<Rightarrow> row_data option" where
  "row_values bs cs a d =
     those (map (\<lambda>fd. map_option (\<lambda>v. (fd_col fd, v)) (column_value bs cs d fd)) (ad_fields a))"

text \<open>A table with its AUTO_INCREMENT counter.\<close>

type_synonym mk_table = "nat \<times> mk_row list"

definition insertRow ::
  "mk_env \<Rightarrow> mk_brand list \<Rightarrow> mk_category list \<Rightarrow> adapter \<Rightarrow> nat \<Rightarrow> row_data \<Rightarrow> mk_table \<Rightarrow> marcom_error + mk_table" where
  "insertRow env bs cs a B d t =
     (case row_values bs cs a d of
        None \<Rightarrow> Inl Unexpected
      | Some cols \<Rightarrow>
          (let r = \<lparr>kr_id = fst t, kr_cols = cols, kr_batch = B, kr_current = True, kr_superseded = None\<rparr> in
           if me_storable env (ad_id a) cols \<and> \<not> list_ex (\<lambda>s. collides env a s r) (snd t)
           then Inr (fst t + 1, snd t @ [r]) else Inl Unexpected))"

definition supersede :: "nat \<Rightarrow> nat \<Rightarrow> mk_table \<Rightarrow> marcom_error + mk_table" where
  "supersede B i t =
     (if length (filter (\<lambda>r. kr_id r = i \<and> kr_current r) (snd t)) = 1
      then Inr (fst t, update_where (\<lambda>r. kr_id r = i \<and> kr_current r)
                         (\<lambda>r. r\<lparr>kr_current := False, kr_superseded := Some B\<rparr>) (snd t))
      else Inl Unexpected)"

definition write_update ::
  "mk_env \<Rightarrow> mk_brand list \<Rightarrow> mk_category list \<Rightarrow> adapter \<Rightarrow> nat \<Rightarrow> row_update \<Rightarrow> mk_table \<Rightarrow> marcom_error + mk_table" where
  "write_update env bs cs a B u t =
     rbind (supersede B (ru_existingId u) t) (insertRow env bs cs a B (pr_data (ru_row u)))"

definition write_diff ::
  "mk_env \<Rightarrow> mk_brand list \<Rightarrow> mk_category list \<Rightarrow> adapter \<Rightarrow> nat \<Rightarrow> table_diff \<Rightarrow> mk_table \<Rightarrow> marcom_error + mk_table" where
  "write_diff env bs cs a B d t =
     rbind (rfold (write_update env bs cs a B) (df_updates d) t)
       (rfold (\<lambda>r. insertRow env bs cs a B (pr_data r)) (df_inserts d))"

section \<open>The history of a table\<close>

definition later_batches :: "db_row list \<Rightarrow> db_row \<Rightarrow> nat list" where
  "later_batches rs r = map dr_batch (filter (\<lambda>x. dr_key x = dr_key r \<and> dr_batch r < dr_batch x) rs)"

definition earliest :: "nat list \<Rightarrow> nat option" where
  "earliest bs = (if bs = [] then None else Some (Min (set bs)))"

definition history_ok :: "db_row list \<Rightarrow> bool" where
  "history_ok rs \<longleftrightarrow>
     distinct (map dr_id rs) \<and>
     distinct (map (\<lambda>r. (dr_key r, dr_batch r)) rs) \<and>
     list_all (\<lambda>r. dr_superseded r = earliest (later_batches rs r) \<and> dr_current r = (dr_superseded r = None)) rs"

section \<open>Facts on a history\<close>

lemma later_batches_mem:
  "b \<in> set (later_batches rs r) \<longleftrightarrow> (\<exists>x \<in> set rs. dr_key x = dr_key r \<and> dr_batch x = b \<and> dr_batch r < b)"
  by (auto simp: later_batches_def)

lemma later_batches_Nil:
  "later_batches rs r = [] \<longleftrightarrow> (\<forall>x \<in> set rs. dr_key x = dr_key r \<longrightarrow> dr_batch x \<le> dr_batch r)"
  by (auto simp: later_batches_def filter_empty_conv not_less)

lemma later_batches_append [simp]: "later_batches (xs @ ys) r = later_batches xs r @ later_batches ys r"
  by (simp add: later_batches_def)

lemma later_batches_map:
  assumes "\<And>x. dr_key (f x) = dr_key x" "\<And>x. dr_batch (f x) = dr_batch x"
  shows "later_batches (map f xs) r = later_batches xs r"
  using assms by (simp add: later_batches_def filter_map comp_def)

lemma later_batches_one_batch:
  assumes "\<And>x. x \<in> set xs \<Longrightarrow> dr_batch x = B" "dr_batch r < B"
  shows "set (later_batches xs r) = (if dr_key r \<in> dr_key ` set xs then {B} else {})"
proof -
  have "b \<in> set (later_batches xs r) \<longleftrightarrow> b = B \<and> dr_key r \<in> dr_key ` set xs" for b
    using assms by (auto simp: later_batches_mem image_iff) metis
  then show ?thesis by (intro set_eqI) simp
qed

lemma earliest_Nil [simp]: "earliest [] = None"
  by (simp add: earliest_def)

lemma earliest_None [simp]: "earliest bs = None \<longleftrightarrow> bs = []"
  by (simp add: earliest_def)

lemma earliest_SomeI: "b \<in> set bs \<Longrightarrow> (\<And>c. c \<in> set bs \<Longrightarrow> b \<le> c) \<Longrightarrow> earliest bs = Some b"
  by (auto simp: earliest_def intro!: Min_eqI)

lemma earliest_SomeD: "earliest bs = Some b \<Longrightarrow> b \<in> set bs \<and> (\<forall>c \<in> set bs. b \<le> c)"
  by (auto simp: earliest_def split: if_splits)

lemma earliest_cong: "set bs = set cs \<Longrightarrow> earliest bs = earliest cs"
  by (auto simp: earliest_def)

lemma history_ids:
  fixes rs
  assumes ok: "history_ok rs"
  shows "distinct (map dr_id rs)"
  using ok by (simp add: history_ok_def)

lemma history_link:
  fixes rs
  assumes ok: "history_ok rs"
  shows "r \<in> set rs \<Longrightarrow> dr_superseded r = earliest (later_batches rs r)"
  using ok by (auto simp: history_ok_def list_all_iff)

lemma history_live:
  fixes rs
  assumes ok: "history_ok rs"
  shows "r \<in> set rs \<Longrightarrow> dr_current r \<longleftrightarrow> later_batches rs r = []"
  using ok by (auto simp: history_ok_def list_all_iff)

lemma history_live_link:
  fixes rs
  assumes ok: "history_ok rs"
  shows "r \<in> set rs \<Longrightarrow> dr_current r \<longleftrightarrow> dr_superseded r = None"
  using ok by (auto simp: history_ok_def list_all_iff)

lemma history_same:
  fixes rs
  assumes ok: "history_ok rs"
  shows "r \<in> set rs \<Longrightarrow> s \<in> set rs \<Longrightarrow> dr_key r = dr_key s \<Longrightarrow> dr_batch r = dr_batch s \<Longrightarrow> r = s"
  using ok by (auto simp: history_ok_def distinct_map dest: inj_onD)

lemma history_same_id:
  fixes rs
  assumes ok: "history_ok rs"
  shows "r \<in> set rs \<Longrightarrow> s \<in> set rs \<Longrightarrow> dr_id r = dr_id s \<Longrightarrow> r = s"
  using history_ids [OF ok] by (auto simp: distinct_map dest: inj_onD)

lemma history_one_live:
  fixes rs
  assumes ok: "history_ok rs"
  assumes "r \<in> set rs" "s \<in> set rs" "dr_key r = dr_key s" "dr_current r" "dr_current s"
  shows "r = s"
proof -
  have "dr_batch s \<le> dr_batch r" "dr_batch r \<le> dr_batch s"
    using assms(2-) history_live [OF ok] later_batches_Nil by auto
  then show ?thesis using history_same [OF ok assms(2-4)] by simp
qed

lemma history_has_live:
  fixes rs
  assumes ok: "history_ok rs"
  assumes "r \<in> set rs"
  shows "\<exists>c \<in> set rs. dr_key c = dr_key r \<and> dr_current c"
proof -
  let ?S = "dr_batch ` {x \<in> set rs. dr_key x = dr_key r}"
  have fin: "finite ?S" "?S \<noteq> {}" using assms(2-) by auto
  obtain c where c: "c \<in> set rs" "dr_key c = dr_key r" "dr_batch c = Max ?S"
    using Max_in [OF fin] by auto
  have "later_batches rs c = []"
    using c Max_ge [OF fin(1)] by (auto simp: later_batches_Nil)
  with c show ?thesis using history_live [OF ok] by blast
qed

lemma history_okI:
  assumes "distinct (map dr_id rs)"
    and "\<And>r s. r \<in> set rs \<Longrightarrow> s \<in> set rs \<Longrightarrow> dr_key r = dr_key s \<Longrightarrow> dr_batch r = dr_batch s \<Longrightarrow> dr_id r = dr_id s"
    and "\<And>r. r \<in> set rs \<Longrightarrow> dr_superseded r = earliest (later_batches rs r)"
    and "\<And>r. r \<in> set rs \<Longrightarrow> dr_current r = (dr_superseded r = None)"
  shows "history_ok rs"
proof -
  have inj: "inj_on dr_id (set rs)" and d: "distinct rs" using assms(1) by (auto simp: distinct_map)
  have "inj_on (\<lambda>r. (dr_key r, dr_batch r)) (set rs)"
  proof (rule inj_onI)
    fix r s
    assume rs: "r \<in> set rs" "s \<in> set rs" and eq: "(dr_key r, dr_batch r) = (dr_key s, dr_batch s)"
    have "dr_id r = dr_id s" using assms(2) [OF rs] eq by simp
    from inj_onD [OF inj this rs] show "r = s" .
  qed
  with d assms(1,3,4) show ?thesis by (auto simp: history_ok_def distinct_map list_all_iff)
qed

text \<open>The rows of a table after a batch: the rows it replaced are history, its own rows are live.\<close>

definition superseded_by :: "nat \<Rightarrow> db_row \<Rightarrow> db_row" where
  "superseded_by B r = r\<lparr>dr_current := False, dr_superseded := Some B\<rparr>"

lemma superseded_by_simps [simp]:
  "dr_id (superseded_by B r) = dr_id r" "dr_batch (superseded_by B r) = dr_batch r"
  "dr_key (superseded_by B r) = dr_key r" "dr_label (superseded_by B r) = dr_label r"
  "dr_current (superseded_by B r) = False" "dr_superseded (superseded_by B r) = Some B"
  by (simp_all add: superseded_by_def)

definition with_batch :: "nat \<Rightarrow> nat list \<Rightarrow> db_row list \<Rightarrow> db_row list \<Rightarrow> db_row list" where
  "with_batch B U new rs = map (\<lambda>r. if dr_id r \<in> set U then superseded_by B r else r) rs @ new"

lemma with_batch_history:
  assumes ok: "history_ok rs" and old: "\<And>r. r \<in> set rs \<Longrightarrow> dr_batch r < B"
    and new: "\<And>x. x \<in> set new \<Longrightarrow> dr_batch x = B \<and> dr_current x \<and> dr_superseded x = None"
    and ids: "distinct (map dr_id rs @ map dr_id new)" and keys: "distinct (map dr_key new)"
    and repl: "\<And>r. r \<in> set rs \<Longrightarrow> dr_id r \<in> set U \<Longrightarrow> dr_current r \<and> dr_key r \<in> dr_key ` set new"
    and live: "\<And>r x. r \<in> set rs \<Longrightarrow> x \<in> set new \<Longrightarrow> dr_key r = dr_key x \<Longrightarrow> dr_current r \<Longrightarrow> dr_id r \<in> set U"
  shows "history_ok (with_batch B U new rs)"
proof (rule history_okI)
  define f where "f r = (if dr_id r \<in> set U then superseded_by B r else r)" for r
  have f: "dr_id (f r) = dr_id r" "dr_key (f r) = dr_key r" "dr_batch (f r) = dr_batch r" for r
    by (auto simp: f_def)
  have wb: "with_batch B U new rs = map f rs @ new" by (simp add: with_batch_def f_def)
  have mem: "y \<in> set (with_batch B U new rs) \<longleftrightarrow> (\<exists>r \<in> set rs. y = f r) \<or> y \<in> set new" for y
    by (auto simp: wb)
  have "map dr_id (with_batch B U new rs) = map dr_id rs @ map dr_id new"
    using f by (simp add: wb)
  with ids show "distinct (map dr_id (with_batch B U new rs))" by metis
  have newinj: "x = y" if "x \<in> set new" "y \<in> set new" "dr_key x = dr_key y" for x y
    using keys that by (auto simp: distinct_map dest: inj_onD)
  show "dr_id r = dr_id s" if "r \<in> set (with_batch B U new rs)" "s \<in> set (with_batch B U new rs)"
      "dr_key r = dr_key s" "dr_batch r = dr_batch s" for r s
  proof -
    note h = that
    consider (oo) a b where "a \<in> set rs" "r = f a" "b \<in> set rs" "s = f b"
      | (nn) "r \<in> set new" "s \<in> set new"
      | (on) a where "a \<in> set rs" "r = f a" "s \<in> set new"
      | (no) b where "r \<in> set new" "b \<in> set rs" "s = f b"
      using h(1,2) unfolding mem by blast
    then show ?thesis
    proof cases
      case oo
      have k: "dr_key a = dr_key b" "dr_batch a = dr_batch b"
        using h(3,4) f [of a] f [of b] unfolding oo(2,4) by simp_all
      have "a = b" using history_same [OF ok oo(1,3) k] .
      then show ?thesis using oo by simp
    next
      case nn
      from newinj [OF nn h(3)] show ?thesis by simp
    next
      case on
      have "dr_batch r < B" using old [OF on(1)] f [of a] on(2) by simp
      then show ?thesis using new [OF on(3)] h(4) by simp
    next
      case no
      have "dr_batch s < B" using old [OF no(2)] f [of b] no(3) by simp
      then show ?thesis using new [OF no(1)] h(4) by simp
    qed
  qed
  have later_old: "set (later_batches (with_batch B U new rs) r) =
      set (later_batches rs r) \<union> (if dr_key r \<in> dr_key ` set new then {B} else {})" if "dr_batch r < B" for r
    using later_batches_one_batch [of new B, OF _ that] new by (simp add: wb later_batches_map f)
  have later_new: "later_batches (with_batch B U new rs) x = []" if "x \<in> set new" for x
  proof -
    have "later_batches rs x = []" "later_batches new x = []"
      using old new new [OF that] by (auto simp: later_batches_Nil less_imp_le)
    then show ?thesis by (simp add: wb later_batches_map f)
  qed
  have lt: "b < B" if "b \<in> set (later_batches rs r)" for b r
    using that old by (auto simp: later_batches_mem)
  show "dr_superseded y = earliest (later_batches (with_batch B U new rs) y)" if "y \<in> set (with_batch B U new rs)" for y
  proof (cases "y \<in> set new")
    case True
    then show ?thesis using new later_new by simp
  next
    case False
    with that have "\<exists>r \<in> set rs. y = f r" unfolding mem by blast
    then obtain r where r: "r \<in> set rs" "y = f r" by blast
    note lo = later_old [of y] old [OF r(1)] f [of r] r(2)
    have ly: "later_batches rs y = later_batches rs r"
      unfolding r(2) by (simp only: later_batches_def f)
    show ?thesis
    proof (cases "dr_id r \<in> set U")
      case True
      then have "later_batches rs r = []" "dr_key r \<in> dr_key ` set new"
        using repl [OF r(1)] history_live [OF ok r(1)] by auto
      then have "set (later_batches (with_batch B U new rs) y) = {B}" using lo ly by simp
      then have "earliest (later_batches (with_batch B U new rs) y) = Some B" by (auto intro!: earliest_SomeI)
      then show ?thesis using True r(2) by (simp add: f_def)
    next
      case nU: False
      show ?thesis
      proof (cases "dr_key r \<in> dr_key ` set new")
        case True
        then obtain x where x: "x \<in> set new" "dr_key r = dr_key x" by auto
        obtain b where b: "earliest (later_batches rs r) = Some b"
          using live [OF r(1) x] nU history_live [OF ok r(1)] by (cases "earliest (later_batches rs r)") auto
        have "earliest (later_batches (with_batch B U new rs) y) = Some b"
          using earliest_SomeD [OF b] lt [of _ r] lo ly by (intro earliest_SomeI) (auto simp: less_imp_le split: if_splits)
        then show ?thesis using b nU r history_link [OF ok r(1)] by (simp add: f_def)
      next
        case False
        then have "set (later_batches (with_batch B U new rs) y) = set (later_batches rs r)"
          using lo ly by simp
        then have "earliest (later_batches (with_batch B U new rs) y) = earliest (later_batches rs r)"
          by (rule earliest_cong)
        then show ?thesis using nU r history_link [OF ok r(1)] by (simp add: f_def)
      qed
    qed
  qed
  show "dr_current y = (dr_superseded y = None)" if "y \<in> set (with_batch B U new rs)" for y
    using that new history_live_link [OF ok] unfolding mem by (auto simp: f_def)
qed

end
