(* ===== verification/Marcom_Removal.thy ===== *)
theory Marcom_Removal
  imports Marcom_Store "HOL-Library.List_Lexorder" "HOL-Library.Char_ord"
begin

text \<open>
  Removing one upload batch from the append-only tables (\<open>marcom/removal.ts\<close>), used by "Remove batch" and
  by "Roll back latest batch": the plan of one table (\<open>planTable\<close>), the plan of all tables and of the
  brands the batch created (\<open>planRemoval\<close>), and its writes (\<open>applyRemoval\<close>). \<open>removal_spec\<close> states row by
  row what the comment at the head of the source promises (rules a, b, c1, c2, c3); the lemmas prove that
  the planned writes do exactly that and that the history invariant of \<open>Marcom_Store\<close> survives.
\<close>

section \<open>The plan of one table\<close>

record superseded_ref =
  sr_key :: string
  sr_label :: string
  sr_supersededBy :: nat

record handed_ref =
  ho_id :: nat
  ho_key :: string
  ho_label :: string
  ho_toBatch :: nat

record rearm_ref =
  ra_id :: nat
  ra_key :: string
  ra_label :: string
  ra_batch :: nat

record relink_ref =
  rl_id :: nat
  rl_key :: string
  rl_label :: string
  rl_batch :: nat
  rl_toBatch :: nat

record table_plan =
  tp_id :: table_id
  tp_label :: string
  tp_deleteIds :: "nat list"
  tp_deletedCurrent :: nat
  tp_deletedSuperseded :: "superseded_ref list"
  tp_handedOver :: "handed_ref list"
  tp_rearm :: "rearm_ref list"
  tp_relink :: "relink_ref list"

text \<open>\<open>LaterKeys\<close>: for each later batch the natural keys its file holds, per table.\<close>

type_synonym later_keys = "(nat \<times> (table_id \<Rightarrow> string list)) list"

definition file_has :: "later_keys \<Rightarrow> table_id \<Rightarrow> string \<Rightarrow> nat \<Rightarrow> bool" where
  "file_has lk t k i = (case map_of lk i of None \<Rightarrow> False | Some ks \<Rightarrow> k \<in> set (ks t))"

text \<open>\<open>handedTo\<close>: the earliest later batch whose file restates a live row.\<close>

definition handedTo :: "later_keys \<Rightarrow> table_id \<Rightarrow> db_row \<Rightarrow> nat option" where
  "handedTo lk t r =
     (if dr_current r then List.find (file_has lk t (dr_key r)) (sort (map fst lk)) else None)"

text \<open>The batch an earlier row is linked to afterwards; none makes it live again.\<close>

definition toBatch :: "later_keys \<Rightarrow> table_id \<Rightarrow> db_row list \<Rightarrow> db_row list \<Rightarrow> db_row \<Rightarrow> nat option" where
  "toBatch lk t own others e =
     (case List.find (\<lambda>r. dr_key r = dr_key e) (rev own) of
        Some m \<Rightarrow>
          (case handedTo lk t m of
             Some b \<Rightarrow> Some b
           | None \<Rightarrow> if dr_current m then None else dr_superseded m)
      | None \<Rightarrow> map_option dr_batch (List.find (\<lambda>r. dr_key r = dr_key e) (rev others)))"

definition planTable ::
  "table_id \<Rightarrow> db_row list \<Rightarrow> db_row list \<Rightarrow> later_keys \<Rightarrow> db_row list \<Rightarrow> table_plan" where
  "planTable t own earlier lk others =
     \<lparr>tp_id = t, tp_label = TABLE_LABELS t,
      tp_deleteIds = map dr_id (filter (\<lambda>r. handedTo lk t r = None) own),
      tp_deletedCurrent = length (filter (\<lambda>r. handedTo lk t r = None \<and> dr_current r) own),
      tp_deletedSuperseded =
        List.map_filter
          (\<lambda>r. if handedTo lk t r = None \<and> \<not> dr_current r
               then map_option (\<lambda>s. \<lparr>sr_key = dr_key r, sr_label = dr_label r, sr_supersededBy = s\<rparr>) (dr_superseded r)
               else None) own,
      tp_handedOver =
        List.map_filter
          (\<lambda>r. map_option (\<lambda>b. \<lparr>ho_id = dr_id r, ho_key = dr_key r, ho_label = dr_label r, ho_toBatch = b\<rparr>)
                 (handedTo lk t r)) own,
      tp_rearm =
        map (\<lambda>e. \<lparr>ra_id = dr_id e, ra_key = dr_key e, ra_label = dr_label e, ra_batch = dr_batch e\<rparr>)
          (filter (\<lambda>e. toBatch lk t own others e = None) earlier),
      tp_relink =
        List.map_filter
          (\<lambda>e. map_option (\<lambda>b. \<lparr>rl_id = dr_id e, rl_key = dr_key e, rl_label = dr_label e,
                                 rl_batch = dr_batch e, rl_toBatch = b\<rparr>)
                 (toBatch lk t own others e)) earlier\<rparr>"

section \<open>The plan of a removal\<close>

record deleted_brand =
  db_id :: nat
  db_name :: string

record kept_brand =
  bk_id :: nat
  bk_name :: string
  bk_usedBy :: "nat list"

record removal_plan =
  rp_batchId :: nat
  rp_tables :: "table_plan list"
  rp_deleted :: "deleted_brand list"
  rp_kept :: "kept_brand list"

definition plan_of :: "mk_brand list \<Rightarrow> mk_category list \<Rightarrow> (table_id \<Rightarrow> mk_row list) \<Rightarrow> nat \<Rightarrow> later_keys \<Rightarrow> table_id \<Rightarrow> table_plan" where
  "plan_of bs cs rows B lk t =
     (let rs = read_rows bs cs (adapter_of t) (rows t);
          own = filter (\<lambda>r. dr_batch r = B) rs;
          earlier = filter (\<lambda>r. dr_superseded r = Some B) rs;
          others = (if earlier = [] then [] else filter (\<lambda>r. dr_current r \<and> dr_batch r \<noteq> B) rs)
      in planTable t own earlier lk others)"

definition BRAND_TABLES :: "table_id list" where
  "BRAND_TABLES = filter (\<lambda>t. list_ex (\<lambda>f. fd_type f = Ty_brand) (ad_fields (adapter_of t))) table_ids"

text \<open>The batches that use a brand once the plan is applied, smallest first.\<close>

definition refs_of :: "mk_row list \<Rightarrow> nat \<Rightarrow> mk_row list" where
  "refs_of rows b = filter (\<lambda>r. dat (kr_cols r) ''brand_id'' = id_val b) rows"

definition used_in :: "table_plan \<Rightarrow> mk_row list \<Rightarrow> nat \<Rightarrow> nat list" where
  "used_in p rows b =
     map (\<lambda>r. case List.find (\<lambda>h. ho_id h = kr_id r) (rev (tp_handedOver p)) of
                Some h \<Rightarrow> ho_toBatch h
              | None \<Rightarrow> kr_batch r)
       (filter (\<lambda>r. kr_id r \<notin> set (tp_deleteIds p)) (refs_of rows b))"

definition usedBy :: "(table_id \<Rightarrow> table_plan) \<Rightarrow> (table_id \<Rightarrow> mk_row list) \<Rightarrow> nat \<Rightarrow> nat list" where
  "usedBy plan rows b = sort (dedup (concat (map (\<lambda>t. used_in (plan t) (rows t) b) BRAND_TABLES)))"

definition planRemoval ::
  "mk_brand list \<Rightarrow> mk_category list \<Rightarrow> (table_id \<Rightarrow> mk_row list) \<Rightarrow> nat \<Rightarrow> later_keys \<Rightarrow> removal_plan" where
  "planRemoval bs cs rows B lk =
     (let plan = plan_of bs cs rows B lk;
          created = sort_key kb_name (filter (\<lambda>b. kb_created b = Some B) bs)
      in \<lparr>rp_batchId = B, rp_tables = map plan table_ids,
          rp_deleted =
            map (\<lambda>b. \<lparr>db_id = kb_id b, db_name = kb_name b\<rparr>) (filter (\<lambda>b. usedBy plan rows (kb_id b) = []) created),
          rp_kept =
            map (\<lambda>b. \<lparr>bk_id = kb_id b, bk_name = kb_name b, bk_usedBy = usedBy plan rows (kb_id b)\<rparr>)
              (filter (\<lambda>b. usedBy plan rows (kb_id b) \<noteq> []) created)\<rparr>)"

section \<open>Applying the plan\<close>

definition hand_over :: "table_plan \<Rightarrow> mk_row list \<Rightarrow> mk_row list" where
  "hand_over p = fold (\<lambda>h. update_where (\<lambda>r. kr_id r = ho_id h) (\<lambda>r. r\<lparr>kr_batch := ho_toBatch h\<rparr>)) (tp_handedOver p)"

definition relink :: "table_plan \<Rightarrow> mk_row list \<Rightarrow> mk_row list" where
  "relink p = fold (\<lambda>l. update_where (\<lambda>r. kr_id r = rl_id l) (\<lambda>r. r\<lparr>kr_superseded := Some (rl_toBatch l)\<rparr>)) (tp_relink p)"

definition rearm :: "table_plan \<Rightarrow> mk_row list \<Rightarrow> mk_row list" where
  "rearm p = update_where (\<lambda>r. kr_id r \<in> ra_id ` set (tp_rearm p)) (\<lambda>r. r\<lparr>kr_current := True, kr_superseded := None\<rparr>)"

text \<open>Making a row live again can hit the unique index, which ends the transaction.\<close>

definition apply_table :: "mk_env \<Rightarrow> table_plan \<Rightarrow> mk_row list \<Rightarrow> marcom_error + mk_row list" where
  "apply_table env p rows =
     (let rows1 = hand_over p rows;
          rows2 = delete_where (\<lambda>r. kr_id r \<in> set (tp_deleteIds p)) rows1;
          rows3 = rearm p rows2
      in if unique_ok env (adapter_of (tp_id p)) rows3 then Inr (relink p rows3) else Inl Unexpected)"

definition apply_tables ::
  "mk_env \<Rightarrow> table_plan list \<Rightarrow> (table_id \<Rightarrow> mk_row list) \<Rightarrow> marcom_error + (table_id \<Rightarrow> mk_row list)" where
  "apply_tables env =
     rfold (\<lambda>p rows. rbind (apply_table env p (rows (tp_id p))) (\<lambda>rs. Inr (rows(tp_id p := rs))))"

definition apply_brands :: "removal_plan \<Rightarrow> (table_id \<Rightarrow> mk_row list) \<Rightarrow> mk_brand list \<Rightarrow> mk_brand list" where
  "apply_brands plan rows bs =
     (let bs1 = fold (\<lambda>d. delete_where (\<lambda>b. kb_id b = db_id d \<and>
                       list_all (\<lambda>t. refs_of (rows t) (kb_id b) = []) BRAND_TABLES)) (rp_deleted plan) bs
      in fold (\<lambda>k. update_where (\<lambda>b. kb_id b = bk_id k) (\<lambda>b. b\<lparr>kb_created := Some (hd (bk_usedBy k))\<rparr>)) (rp_kept plan) bs1)"

definition applyRemoval ::
  "mk_env \<Rightarrow> removal_plan \<Rightarrow> (table_id \<Rightarrow> mk_row list) \<times> mk_brand list \<Rightarrow>
   marcom_error + (table_id \<Rightarrow> mk_row list) \<times> mk_brand list" where
  "applyRemoval env plan s =
     rbind (apply_tables env (rp_tables plan) (fst s)) (\<lambda>rows. Inr (rows, apply_brands plan rows (snd s)))"

record plan_count =
  pc_id :: table_id
  pc_deleted :: nat
  pc_deletedCurrent :: nat
  pc_deletedSuperseded :: nat
  pc_handedOver :: nat
  pc_rearmed :: nat
  pc_relinked :: nat

definition planCounts :: "removal_plan \<Rightarrow> plan_count list" where
  "planCounts plan =
     map (\<lambda>t. \<lparr>pc_id = tp_id t, pc_deleted = length (tp_deleteIds t), pc_deletedCurrent = tp_deletedCurrent t,
               pc_deletedSuperseded = length (tp_deletedSuperseded t), pc_handedOver = length (tp_handedOver t),
               pc_rearmed = length (tp_rearm t), pc_relinked = length (tp_relink t)\<rparr>) (rp_tables plan)"

section \<open>What a removal does, row by row\<close>

text \<open>
  Rule a and c2: a row of the batch goes, or moves to the later batch that restated it. Rules c1 to c3: a row
  the batch had replaced becomes live again, or is linked to the batch that now replaces it.
\<close>

definition relinked :: "nat \<Rightarrow> (db_row \<Rightarrow> nat option) \<Rightarrow> db_row list \<Rightarrow> db_row \<Rightarrow> nat option" where
  "relinked B hand rs e =
     (case List.find (\<lambda>r. dr_key r = dr_key e \<and> dr_batch r = B) rs of
        None \<Rightarrow> None
      | Some m \<Rightarrow> (case hand m of Some b \<Rightarrow> Some b | None \<Rightarrow> if dr_current m then None else dr_superseded m))"

definition after_removal :: "nat \<Rightarrow> (db_row \<Rightarrow> nat option) \<Rightarrow> db_row list \<Rightarrow> db_row \<Rightarrow> db_row option" where
  "after_removal B hand rs r =
     (if dr_batch r = B then map_option (\<lambda>b. r\<lparr>dr_batch := b\<rparr>) (hand r)
      else if dr_superseded r = Some B
        then Some (case relinked B hand rs r of
                     None \<Rightarrow> r\<lparr>dr_current := True, dr_superseded := None\<rparr>
                   | Some b \<Rightarrow> r\<lparr>dr_superseded := Some b\<rparr>)
      else Some r)"

definition removal_spec :: "nat \<Rightarrow> (db_row \<Rightarrow> nat option) \<Rightarrow> db_row list \<Rightarrow> db_row list" where
  "removal_spec B hand rs = List.map_filter (after_removal B hand rs) rs"

section \<open>The history survives\<close>

lemma mem_map_filter: "y \<in> set (List.map_filter f xs) \<longleftrightarrow> (\<exists>x \<in> set xs. f x = Some y)"
  by (force simp: map_filter_def)

lemma map_filter_twice:
  "List.map_filter f (List.map_filter g xs) = List.map_filter (\<lambda>x. Option.bind (g x) f) xs"
  by (induction xs) (auto simp: map_filter_simps split: option.splits)

lemma map_filter_cong': "(\<And>x. x \<in> set xs \<Longrightarrow> f x = g x) \<Longrightarrow> List.map_filter f xs = List.map_filter g xs"
  by (induction xs) (auto simp: map_filter_simps split: option.splits)

lemma distinct_filter_ids:
  assumes "distinct (map f xs)" "\<And>x y. g x = Some y \<Longrightarrow> h y = f x"
  shows "distinct (map h (List.map_filter g xs))"
  using assms(1)
proof (induction xs)
  case (Cons x xs)
  have f: "f x \<notin> h ` set (List.map_filter g xs)"
    using Cons.prems assms(2) by (auto simp: mem_map_filter)
  show ?case
  proof (cases "g x")
    case (Some y)
    then show ?thesis using Cons assms(2) [OF Some] f by (simp add: map_filter_simps)
  qed (use Cons in \<open>simp add: map_filter_simps\<close>)
qed (simp add: map_filter_simps)

lemma after_removal_same:
  assumes "after_removal B hand rs r = Some y"
  shows "dr_id y = dr_id r" "dr_key y = dr_key r"
  using assms by (auto simp: after_removal_def split: if_splits option.splits)

lemma after_removal_batch:
  assumes "after_removal B hand rs r = Some y"
  shows "if dr_batch r = B then hand r = Some (dr_batch y) \<and> y = r\<lparr>dr_batch := dr_batch y\<rparr> else dr_batch y = dr_batch r"
  using assms by (auto simp: after_removal_def split: if_splits option.splits)

lemma own_row:
  assumes "history_ok rs" "m \<in> set rs" "dr_batch m = B"
  shows "List.find (\<lambda>r. dr_key r = dr_key m \<and> dr_batch r = B) rs = Some m"
proof -
  obtain x where x: "List.find (\<lambda>r. dr_key r = dr_key m \<and> dr_batch r = B) rs = Some x"
    using find_exists [of m rs "\<lambda>r. dr_key r = dr_key m \<and> dr_batch r = B"] assms by auto
  from find_SomeD [OF this] have "x = m" using history_same [OF assms(1)] assms by auto
  with x show ?thesis by simp
qed

text \<open>The row of the batch that replaced an earlier one, and the batches after both.\<close>

lemma replaced_by:
  assumes ok: "history_ok rs" and e: "e \<in> set rs" "dr_superseded e = Some B"
  obtains m where "m \<in> set rs" "dr_key m = dr_key e" "dr_batch m = B" "dr_batch e < B"
    "set (later_batches rs e) = insert B (set (later_batches rs m))"
    "relinked B hand rs e = (case hand m of Some b \<Rightarrow> Some b | None \<Rightarrow> dr_superseded m)"
proof -
  have B: "earliest (later_batches rs e) = Some B" using history_link [OF ok e(1)] e(2) by simp
  note eB = earliest_SomeD [OF B]
  then obtain m where m: "m \<in> set rs" "dr_key m = dr_key e" "dr_batch m = B" "dr_batch e < B"
    by (auto simp: later_batches_mem)
  have "b \<in> set (later_batches rs e) \<longleftrightarrow> b = B \<or> b \<in> set (later_batches rs m)" for b
  proof
    assume b: "b \<in> set (later_batches rs e)"
    then have "B \<le> b" using eB by blast
    then show "b = B \<or> b \<in> set (later_batches rs m)"
      using b m by (auto simp: later_batches_mem)
  next
    assume "b = B \<or> b \<in> set (later_batches rs m)"
    then show "b \<in> set (later_batches rs e)"
      using eB m by (auto simp: later_batches_mem)
  qed
  then have s: "set (later_batches rs e) = insert B (set (later_batches rs m))" by blast
  have r: "relinked B hand rs e = (case hand m of Some b \<Rightarrow> Some b | None \<Rightarrow> dr_superseded m)"
    using own_row [OF ok m(1,3)] m(2) history_live_link [OF ok m(1)]
    by (auto simp: relinked_def split: option.splits)
  show thesis by (rule that [OF m s r])
qed

lemma after_removal_later:
  assumes ok: "history_ok rs" and r: "r \<in> set rs" "dr_batch r \<noteq> B" and y: "dr_key y = dr_key r" "dr_batch y = dr_batch r"
  shows "set (later_batches (removal_spec B hand rs) y) =
    (set (later_batches rs r) - {B}) \<union>
    {b. dr_batch r < b \<and> (\<exists>m \<in> set rs. dr_key m = dr_key r \<and> dr_batch m = B \<and> hand m = Some b)}"
    (is "_ = ?L \<union> ?H")
proof (rule set_eqI)
  fix b
  show "b \<in> set (later_batches (removal_spec B hand rs) y) \<longleftrightarrow> b \<in> ?L \<union> ?H"
  proof
    assume "b \<in> set (later_batches (removal_spec B hand rs) y)"
    then obtain x x' where x: "x \<in> set rs" "after_removal B hand rs x = Some x'" "dr_key x' = dr_key r" "dr_batch x' = b" "dr_batch r < b"
      by (auto simp: later_batches_mem removal_spec_def mem_map_filter y)
    show "b \<in> ?L \<union> ?H"
    proof (cases "dr_batch x = B")
      case True
      then have "hand x = Some b" using after_removal_batch [OF x(2)] x(4) by simp
      then show ?thesis using x True after_removal_same(2) [OF x(2)] by auto
    next
      case False
      then have "dr_batch x = b" using after_removal_batch [OF x(2)] x(4) by simp
      then show ?thesis using x False after_removal_same(2) [OF x(2)] by (auto simp: later_batches_mem)
    qed
  next
    assume "b \<in> ?L \<union> ?H"
    then show "b \<in> set (later_batches (removal_spec B hand rs) y)"
    proof
      assume "b \<in> ?L"
      then obtain x where x: "x \<in> set rs" "dr_key x = dr_key r" "dr_batch x = b" "dr_batch r < b" "b \<noteq> B"
        by (auto simp: later_batches_mem)
      then have "after_removal B hand rs x \<noteq> None" by (simp add: after_removal_def)
      then obtain x' where x': "after_removal B hand rs x = Some x'" by blast
      have "dr_batch x' = b" using after_removal_batch [OF x'] x by simp
      moreover have "x' \<in> set (removal_spec B hand rs)"
        using x(1) x' by (auto simp: removal_spec_def mem_map_filter)
      ultimately show ?thesis
        using x after_removal_same(2) [OF x'] by (auto simp: later_batches_mem y)
    next
      assume "b \<in> ?H"
      then obtain m where m: "m \<in> set rs" "dr_key m = dr_key r" "dr_batch m = B" "hand m = Some b" "dr_batch r < b" by auto
      then have "after_removal B hand rs m = Some (m\<lparr>dr_batch := b\<rparr>)" by (simp add: after_removal_def)
      then have "m\<lparr>dr_batch := b\<rparr> \<in> set (removal_spec B hand rs)"
        using m(1) by (auto simp: removal_spec_def mem_map_filter)
      then show ?thesis
        unfolding later_batches_mem using m y by (intro bexI [of _ "m\<lparr>dr_batch := b\<rparr>"]) simp_all
    qed
  qed
qed

text \<open>
  Removing a batch keeps the history of every natural key a chain: rows are handed over only to later batches,
  and only live ones.
\<close>

lemma removal_history:
  assumes ok: "history_ok rs" and hand: "\<And>r b. r \<in> set rs \<Longrightarrow> hand r = Some b \<Longrightarrow> dr_current r \<and> dr_batch r < b"
  shows "history_ok (removal_spec B hand rs)"
proof (rule history_okI)
  let ?L = "removal_spec B hand rs"
  have mem: "y \<in> set ?L \<longleftrightarrow> (\<exists>r \<in> set rs. after_removal B hand rs r = Some y)" for y
    by (simp add: removal_spec_def mem_map_filter)
  show "distinct (map dr_id ?L)"
    unfolding removal_spec_def using history_ids [OF ok] by (rule distinct_filter_ids) (rule after_removal_same(1))
  have top: "dr_batch x \<le> dr_batch r" if "r \<in> set rs" "hand r = Some b" "x \<in> set rs" "dr_key x = dr_key r" for r b x
    using hand [OF that(1,2)] history_live [OF ok that(1)] that(3,4) by (auto simp: later_batches_Nil)
  show "dr_id y = dr_id z"
    if "y \<in> set ?L" "z \<in> set ?L" "dr_key y = dr_key z" "dr_batch y = dr_batch z" for y z
  proof -
    note h = that
    obtain r s where r: "r \<in> set rs" "after_removal B hand rs r = Some y"
      and s: "s \<in> set rs" "after_removal B hand rs s = Some z"
      using h(1,2) mem by blast
    note rb = after_removal_batch [OF r(2)] and sb = after_removal_batch [OF s(2)]
    have k: "dr_key r = dr_key s" using h(3) after_removal_same(2) r(2) s(2) by metis
    have "dr_batch r = dr_batch s"
    proof (cases "dr_batch r = B")
      case True
      show ?thesis
      proof (rule ccontr)
        assume n: "dr_batch r \<noteq> dr_batch s"
        have "dr_batch s \<le> dr_batch r" using top [OF r(1) _ s(1)] rb True k by auto
        moreover have "dr_batch r < dr_batch s" using hand [OF r(1)] rb sb n True h(4) by auto
        ultimately show False by simp
      qed
    next
      case False
      show ?thesis
      proof (rule ccontr)
        assume n: "dr_batch r \<noteq> dr_batch s"
        have sB: "dr_batch s = B" using rb sb False h(4) n by (cases "dr_batch s = B") simp_all
        then have "dr_batch r \<le> dr_batch s" using top [OF s(1) _ r(1)] sb k by auto
        moreover have "dr_batch s < dr_batch r" using hand [OF s(1)] rb sb sB False h(4) by auto
        ultimately show False by simp
      qed
    qed
    then have "r = s" by (rule history_same [OF ok r(1) s(1) k])
    then show ?thesis using r(2) s(2) by simp
  qed
  have main: "dr_superseded y = earliest (later_batches ?L y) \<and> dr_current y = (dr_superseded y = None)"
    if r: "r \<in> set rs" and y: "after_removal B hand rs r = Some y" for r y
  proof (cases "dr_batch r = B")
    case True
    then obtain b where b: "hand r = Some b" "y = r\<lparr>dr_batch := b\<rparr>"
      using y by (auto simp: after_removal_def)
    have cur: "dr_current r" "dr_superseded r = None" "dr_batch r < b"
      using hand [OF r b(1)] history_live_link [OF ok r] by auto
    have "later_batches ?L y = []"
    proof -
      have "dr_batch x' \<le> b" if x: "x \<in> set rs" "after_removal B hand rs x = Some x'" "dr_key x = dr_key r" for x x'
      proof (cases "dr_batch x = B")
        case True
        then have "x = r" using history_same [OF ok x(1) r x(3)] \<open>dr_batch r = B\<close> by simp
        then have "x' = y" using x(2) y by simp
        then show ?thesis using b(2) by simp
      next
        case False
        then have "dr_batch x' = dr_batch x" using after_removal_batch [OF x(2)] by simp
        then show ?thesis using top [OF r b(1) x(1,3)] cur(3) by simp
      qed
      then show ?thesis
        using after_removal_same(2) by (auto simp: later_batches_Nil mem b(2))
    qed
    then show ?thesis using cur b(2) by simp
  next
    case nB: False
    have yb: "dr_key y = dr_key r" "dr_batch y = dr_batch r"
      using after_removal_same(2) [OF y] after_removal_batch [OF y] nB by auto
    note L = after_removal_later [OF ok r nB yb, of hand]
    show ?thesis
    proof (cases "dr_superseded r = Some B")
      case True
      obtain m where m: "m \<in> set rs" "dr_key m = dr_key r" "dr_batch m = B" "dr_batch r < B"
        "set (later_batches rs r) = insert B (set (later_batches rs m))"
        "relinked B hand rs r = (case hand m of Some b \<Rightarrow> Some b | None \<Rightarrow> dr_superseded m)"
        using replaced_by [OF ok r True, where hand = hand] by blast
      have mB: "B \<notin> set (later_batches rs m)" using m(3) by (auto simp: later_batches_mem)
      have uniq: "x = m" if "x \<in> set rs" "dr_key x = dr_key r" "dr_batch x = B" for x
        using history_same [OF ok that(1) m(1)] that m by simp
      have LL: "set (later_batches ?L y) = set (later_batches rs m) \<union> {b. dr_batch r < b \<and> hand m = Some b}"
      proof -
        have "(\<exists>x \<in> set rs. dr_key x = dr_key r \<and> dr_batch x = B \<and> hand x = Some b) \<longleftrightarrow> hand m = Some b" for b
          using uniq m(1-3) by blast
        then show ?thesis using mB by (simp add: L m(5))
      qed
      show ?thesis
      proof (cases "hand m")
        case (Some b)
        have c: "dr_current m" "B < b" using hand [OF m(1) Some] m(3) by auto
        have "later_batches rs m = []" using c(1) history_live [OF ok m(1)] by simp
        moreover have "{n. dr_batch r < n \<and> hand m = Some n} = {b}" using c(2) m(4) Some by auto
        ultimately have "set (later_batches ?L y) = {b}" unfolding LL by simp
        then have "earliest (later_batches ?L y) = Some b" by (auto intro!: earliest_SomeI)
        moreover have "y = r\<lparr>dr_superseded := Some b\<rparr>" using y nB True m(6) Some by (simp add: after_removal_def)
        ultimately show ?thesis using history_live_link [OF ok r] True by simp
      next
        case None
        then have "earliest (later_batches ?L y) = dr_superseded m"
          using LL earliest_cong [of "later_batches ?L y" "later_batches rs m"] history_link [OF ok m(1)] by simp
        moreover have "dr_superseded y = dr_superseded m" "dr_current y = (dr_superseded y = None)"
          using y nB True m(6) None history_live_link [OF ok r] by (auto simp: after_removal_def split: option.splits)
        ultimately show ?thesis by simp
      qed
    next
      case nS: False
      then have yr: "y = r" using y nB by (simp add: after_removal_def)
      show ?thesis
      proof (cases "dr_superseded r")
        case None
        then have none: "later_batches rs r = []" using history_link [OF ok r] by simp
        have "dr_batch m < dr_batch r" if "m \<in> set rs" "dr_key m = dr_key r" "dr_batch m = B" for m
          using none that nB by (auto simp: later_batches_Nil)
        moreover have "dr_batch r \<le> B" if "m \<in> set rs" "dr_key m = dr_key r" "dr_batch m = B" "hand m = Some b" for m b
          using top [OF that(1,4) r] that by simp
        ultimately have "set (later_batches ?L y) = {}"
          unfolding L using none by fastforce
        then show ?thesis using None yr history_live_link [OF ok r] by simp
      next
        case (Some b)
        then have eb: "earliest (later_batches rs r) = Some b" using history_link [OF ok r] by simp
        note bb = earliest_SomeD [OF eb]
        have hb: "b < c" if "m \<in> set rs" "dr_key m = dr_key r" "dr_batch m = B" "hand m = Some c" for m c
        proof -
          obtain x where x: "x \<in> set rs" "dr_key x = dr_key r" "dr_batch x = b"
            using bb by (auto simp: later_batches_mem)
          then have "b \<le> B" using top [OF that(1,4) x(1)] that by simp
          then show ?thesis using hand [OF that(1,4)] that(3) by simp
        qed
        have "earliest (later_batches ?L y) = Some b"
          using bb nS Some hb by (intro earliest_SomeI; unfold L) (auto simp: less_imp_le)
        then show ?thesis using Some yr history_live_link [OF ok r] by simp
      qed
    qed
  qed
  show "dr_superseded y = earliest (later_batches ?L y)" if "y \<in> set ?L" for y
    using that main unfolding mem by blast
  show "dr_current y = (dr_superseded y = None)" if "y \<in> set ?L" for y
    using that main unfolding mem by blast
qed

section \<open>The planned writes do what the rules say\<close>

text \<open>A loop of updates by id, each id at most once, is one pass over the rows.\<close>

lemma fold_update_by_id:
  assumes keep: "\<And>h r. kr_id (upd h r) = kr_id r" and d: "distinct (map hid hs)"
  shows "fold (\<lambda>h. update_where (\<lambda>r. kr_id r = hid h) (upd h)) hs rows =
         map (\<lambda>r. case List.find (\<lambda>h. hid h = kr_id r) hs of None \<Rightarrow> r | Some h \<Rightarrow> upd h r) rows"
  using d
proof (induction hs arbitrary: rows)
  case (Cons h hs)
  have "List.find (\<lambda>g. hid g = hid h) hs = None"
    using Cons.prems by (simp add: find_None_iff) (metis image_eqI)
  then show ?case using Cons by (auto simp: update_where_def keep)
qed simp

definition planned :: "table_plan \<Rightarrow> mk_row \<Rightarrow> mk_row option" where
  "planned p r =
     (let r1 = (case List.find (\<lambda>h. ho_id h = kr_id r) (tp_handedOver p) of
                  None \<Rightarrow> r | Some h \<Rightarrow> r\<lparr>kr_batch := ho_toBatch h\<rparr>);
          r3 = (if kr_id r \<in> ra_id ` set (tp_rearm p) then r1\<lparr>kr_current := True, kr_superseded := None\<rparr> else r1)
      in if kr_id r \<in> set (tp_deleteIds p) then None
         else Some (case List.find (\<lambda>l. rl_id l = kr_id r) (tp_relink p) of
                      None \<Rightarrow> r3 | Some l \<Rightarrow> r3\<lparr>kr_superseded := Some (rl_toBatch l)\<rparr>))"

lemma planned_rows:
  assumes "distinct (map ho_id (tp_handedOver p))" "distinct (map rl_id (tp_relink p))"
  shows "relink p (rearm p (delete_where (\<lambda>r. kr_id r \<in> set (tp_deleteIds p)) (hand_over p rows))) =
         List.map_filter (planned p) rows"
proof -
  have h: "hand_over p rows' = map (\<lambda>r. case List.find (\<lambda>h. ho_id h = kr_id r) (tp_handedOver p) of
                  None \<Rightarrow> r | Some h \<Rightarrow> r\<lparr>kr_batch := ho_toBatch h\<rparr>) rows'" for rows'
    unfolding hand_over_def by (rule fold_update_by_id [OF _ assms(1)]) simp
  have l: "relink p rows' = map (\<lambda>r. case List.find (\<lambda>l. rl_id l = kr_id r) (tp_relink p) of
                  None \<Rightarrow> r | Some l \<Rightarrow> r\<lparr>kr_superseded := Some (rl_toBatch l)\<rparr>) rows'" for rows'
    unfolding relink_def by (rule fold_update_by_id [OF _ assms(2)]) simp
  show ?thesis
    unfolding h l rearm_def update_where_def delete_where_def
    by (induction rows) (simp_all add: map_filter_simps planned_def Let_def split: option.splits)
qed

lemma apply_table_planned:
  assumes "distinct (map ho_id (tp_handedOver p))" "distinct (map rl_id (tp_relink p))"
    and "apply_table env p rows = Inr rows'"
  shows "rows' = List.map_filter (planned p) rows"
  using assms(3) planned_rows [OF assms(1,2)] by (simp add: apply_table_def Let_def split: if_splits)

lemma find_by_id:
  assumes "distinct (map dr_id xs)" "\<And>x y. g x = Some y \<Longrightarrow> idf y = dr_id x"
  shows "List.find (\<lambda>h. idf h = i) (List.map_filter g xs) = Option.bind (List.find (\<lambda>x. dr_id x = i) xs) g"
  using assms(1)
proof (induction xs)
  case (Cons x xs)
  show ?case
  proof (cases "dr_id x = i")
    case True
    then have "List.find (\<lambda>x. dr_id x = i) xs = None" using Cons.prems by (simp add: find_None_iff) (metis image_eqI)
    then show ?thesis using Cons True assms(2) by (auto simp: map_filter_simps split: option.splits)
  next
    case False
    then show ?thesis using Cons assms(2) by (auto simp: map_filter_simps split: option.splits)
  qed
qed (simp add: map_filter_simps)

lemma find_filter_id:
  assumes "distinct (map dr_id xs)" "d \<in> set xs"
  shows "List.find (\<lambda>x. dr_id x = dr_id d) (filter P xs) = (if P d then Some d else None)"
proof -
  have u: "x = d" if "x \<in> set xs" "dr_id x = dr_id d" for x
    using assms that by (auto simp: distinct_map dest: inj_onD)
  show ?thesis
  proof (cases "P d")
    case True
    then obtain y where "List.find (\<lambda>x. dr_id x = dr_id d) (filter P xs) = Some y"
      using find_exists [of d "filter P xs" "\<lambda>x. dr_id x = dr_id d"] assms(2) by auto
    then show ?thesis using True u find_SomeD by fastforce
  next
    case False
    then show ?thesis using u by (auto simp: find_None_iff)
  qed
qed

lemma own_find:
  fixes bs cs rows B lk t rs p
  assumes rs: "rs = read_rows bs cs (adapter_of t) (rows t)" and p: "p = plan_of bs cs rows B lk t"
    and ok: "history_ok rs"
  assumes "e \<in> set rs" "dr_superseded e = Some B"
  shows "toBatch lk t (filter (\<lambda>r. dr_batch r = B) rs) others e = relinked B (handedTo lk t) rs e"
proof -
  obtain m where m: "m \<in> set rs" "dr_key m = dr_key e" "dr_batch m = B"
    "relinked B (handedTo lk t) rs e = (case handedTo lk t m of Some b \<Rightarrow> Some b | None \<Rightarrow> dr_superseded m)"
    using replaced_by [OF ok assms(4-), where hand = "handedTo lk t"] by metis
  obtain y where y: "List.find (\<lambda>r. dr_key r = dr_key e) (rev (filter (\<lambda>r. dr_batch r = B) rs)) = Some y"
    using find_exists [of m "rev (filter (\<lambda>r. dr_batch r = B) rs)" "\<lambda>r. dr_key r = dr_key e"] m by auto
  from find_SomeD [OF this] have "y = m" using history_same [OF ok _ m(1)] m(2,3) by auto
  then show ?thesis
    using y m(4) history_live_link [OF ok m(1)] by (auto simp: toBatch_def split: option.splits)
qed

lemma plan_ids:
  fixes bs cs rows B lk t rs p
  assumes rs: "rs = read_rows bs cs (adapter_of t) (rows t)" and p: "p = plan_of bs cs rows B lk t"
    and ok: "history_ok rs"
  shows "distinct (map ho_id (tp_handedOver p))" "distinct (map rl_id (tp_relink p))"
  unfolding p plan_of_def planTable_def Let_def rs [symmetric] table_plan.simps
  by (rule distinct_filter_ids [where f = dr_id]; force simp: distinct_map_filter [OF history_ids [OF ok]])+

lemma plan_outside:
  fixes bs cs rows B lk t rs p
  assumes rs: "rs = read_rows bs cs (adapter_of t) (rows t)" and p: "p = plan_of bs cs rows B lk t"
    and ok: "history_ok rs"
  assumes "i \<notin> dr_id ` set rs"
  shows "List.find (\<lambda>h. ho_id h = i) (tp_handedOver p) = None" "i \<notin> set (tp_deleteIds p)"
    "i \<notin> ra_id ` set (tp_rearm p)" "List.find (\<lambda>l. rl_id l = i) (tp_relink p) = None"
  using assms(4-) unfolding p plan_of_def planTable_def Let_def rs [symmetric]
  by (auto simp: find_None_iff mem_map_filter)

lemma same_id:
  fixes bs cs rows B lk t rs p
  assumes rs: "rs = read_rows bs cs (adapter_of t) (rows t)" and p: "p = plan_of bs cs rows B lk t"
    and ok: "history_ok rs"
  shows "d \<in> set rs \<Longrightarrow> e \<in> set rs \<Longrightarrow> dr_id e = dr_id d \<longleftrightarrow> e = d"
  using history_same_id [OF ok] by blast

lemma plan_handed:
  fixes bs cs rows B lk t rs p
  assumes rs: "rs = read_rows bs cs (adapter_of t) (rows t)" and p: "p = plan_of bs cs rows B lk t"
    and ok: "history_ok rs"
  assumes "d \<in> set rs"
  shows "map_option ho_toBatch (List.find (\<lambda>h. ho_id h = dr_id d) (tp_handedOver p)) =
         (if dr_batch d = B then handedTo lk t d else None)"
proof -
  let ?own = "filter (\<lambda>r. dr_batch r = B) rs"
  let ?g = "\<lambda>r. map_option (\<lambda>b. \<lparr>ho_id = dr_id r, ho_key = dr_key r, ho_label = dr_label r, ho_toBatch = b\<rparr>) (handedTo lk t r)"
  have "tp_handedOver p = List.map_filter ?g ?own"
    by (simp add: p plan_of_def planTable_def Let_def rs)
  moreover have "List.find (\<lambda>h. ho_id h = dr_id d) (List.map_filter ?g ?own) =
      Option.bind (List.find (\<lambda>x. dr_id x = dr_id d) ?own) ?g"
    by (rule find_by_id) (auto intro: distinct_map_filter [OF history_ids [OF ok]])
  ultimately show ?thesis
    using find_filter_id [OF history_ids [OF ok] assms(4-)] by (simp add: option.map_comp comp_def option.map_ident)
qed

lemma plan_deleted:
  fixes bs cs rows B lk t rs p
  assumes rs: "rs = read_rows bs cs (adapter_of t) (rows t)" and p: "p = plan_of bs cs rows B lk t"
    and ok: "history_ok rs"
  assumes "d \<in> set rs"
  shows "dr_id d \<in> set (tp_deleteIds p) \<longleftrightarrow> dr_batch d = B \<and> handedTo lk t d = None"
  using assms(4-) same_id [OF rs p ok] by (auto simp: p plan_of_def planTable_def Let_def rs [symmetric])

lemma plan_rearmed:
  fixes bs cs rows B lk t rs p
  assumes rs: "rs = read_rows bs cs (adapter_of t) (rows t)" and p: "p = plan_of bs cs rows B lk t"
    and ok: "history_ok rs"
  assumes "d \<in> set rs"
  shows "dr_id d \<in> ra_id ` set (tp_rearm p) \<longleftrightarrow>
         dr_superseded d = Some B \<and> relinked B (handedTo lk t) rs d = None"
  using assms(4-) same_id [OF rs p ok] own_find [OF rs p ok] by (auto simp: p plan_of_def planTable_def Let_def rs [symmetric] image_iff)

lemma plan_relinked:
  fixes bs cs rows B lk t rs p
  assumes rs: "rs = read_rows bs cs (adapter_of t) (rows t)" and p: "p = plan_of bs cs rows B lk t"
    and ok: "history_ok rs"
  assumes "d \<in> set rs"
  shows "map_option rl_toBatch (List.find (\<lambda>h. rl_id h = dr_id d) (tp_relink p)) =
         (if dr_superseded d = Some B then relinked B (handedTo lk t) rs d else None)"
proof -
  let ?ear = "filter (\<lambda>r. dr_superseded r = Some B) rs"
  let ?oth = "if ?ear = [] then [] else filter (\<lambda>r. dr_current r \<and> dr_batch r \<noteq> B) rs"
  let ?g = "\<lambda>e. map_option (\<lambda>b. \<lparr>rl_id = dr_id e, rl_key = dr_key e, rl_label = dr_label e, rl_batch = dr_batch e, rl_toBatch = b\<rparr>)
      (toBatch lk t (filter (\<lambda>r. dr_batch r = B) rs) ?oth e)"
  have "tp_relink p = List.map_filter ?g ?ear"
    by (simp add: p plan_of_def planTable_def Let_def rs)
  moreover have "List.find (\<lambda>h. rl_id h = dr_id d) (List.map_filter ?g ?ear) =
      Option.bind (List.find (\<lambda>x. dr_id x = dr_id d) ?ear) ?g"
    by (rule find_by_id) (auto intro: distinct_map_filter [OF history_ids [OF ok]])
  ultimately show ?thesis
    using find_filter_id [OF history_ids [OF ok] assms(4-)] own_find [OF rs p ok assms(4-)]
    by (simp add: option.map_comp comp_def option.map_ident)
qed

lemma read_row_update [simp]:
  "read_row bs cs a (r\<lparr>kr_batch := b\<rparr>) = map_option (\<lambda>d. d\<lparr>dr_batch := b\<rparr>) (read_row bs cs a r)"
  "read_row bs cs a (r\<lparr>kr_superseded := s\<rparr>) = map_option (\<lambda>d. d\<lparr>dr_superseded := s\<rparr>) (read_row bs cs a r)"
  "read_row bs cs a (r\<lparr>kr_current := c\<rparr>) = map_option (\<lambda>d. d\<lparr>dr_current := c\<rparr>) (read_row bs cs a r)"
  by (simp_all add: read_row_def join_row_def selectCol_def option.map_comp comp_def)

lemma read_row_fields:
  assumes "read_row bs cs a r = Some d"
  shows "dr_id d = kr_id r" "dr_batch d = kr_batch r" "dr_current d = kr_current r" "dr_superseded d = kr_superseded r"
  using assms by (auto simp: read_row_def)

lemma planned_read:
  assumes rs: "rs = read_rows bs cs (adapter_of t) (rows t)" and p: "p = plan_of bs cs rows B lk t"
    and ok: "history_ok rs" and ids: "distinct (map kr_id (rows t))" and r: "r \<in> set (rows t)"
  shows "Option.bind (planned p r) (read_row bs cs (adapter_of t)) =
         Option.bind (read_row bs cs (adapter_of t) r) (after_removal B (handedTo lk t) rs)"
proof (cases "read_row bs cs (adapter_of t) r")
  case None
  have "kr_id r \<noteq> dr_id d" if dd: "d \<in> set rs" for d
  proof
    assume eq: "kr_id r = dr_id d"
    obtain x where x: "x \<in> set (rows t)" "read_row bs cs (adapter_of t) x = Some d"
      using dd by (auto simp: rs read_rows_def mem_map_filter)
    then have "x = r" using eq ids r read_row_fields(1) [OF x(2)] by (auto simp: distinct_map dest: inj_onD)
    with x None show False by simp
  qed
  then have "kr_id r \<notin> dr_id ` set rs" by auto
  note out = plan_outside [OF rs p ok this]
  have "planned p r = Some r" by (simp add: planned_def Let_def out)
  with None show ?thesis by simp
next
  case (Some d)
  have d: "d \<in> set rs" using Some r by (auto simp: rs read_rows_def mem_map_filter)
  note f = read_row_fields [OF Some]
  note h = plan_handed [OF rs p ok d] and del = plan_deleted [OF rs p ok d]
    and ra = plan_rearmed [OF rs p ok d] and rl = plan_relinked [OF rs p ok d]
  have BB: "dr_superseded d \<noteq> Some B" if "dr_batch d = B"
    using replaced_by [OF ok d, of B] that by (metis less_irrefl)
  show ?thesis
  proof (cases "dr_batch d = B")
    case True
    then have n: "List.find (\<lambda>h. rl_id h = kr_id r) (tp_relink p) = None" "kr_id r \<notin> ra_id ` set (tp_rearm p)"
      using rl ra BB f(1) by auto
    show ?thesis
    proof (cases "handedTo lk t d")
      case None
      then show ?thesis using True del f(1) Some by (simp add: planned_def after_removal_def)
    next
      case h': (Some b)
      then obtain g where "List.find (\<lambda>h. ho_id h = kr_id r) (tp_handedOver p) = Some g" "ho_toBatch g = b"
        using h True f(1) by auto
      then show ?thesis using True del f(1) Some n h' by (simp add: planned_def after_removal_def Let_def)
    qed
  next
    case False
    then have n: "List.find (\<lambda>h. ho_id h = kr_id r) (tp_handedOver p) = None" "kr_id r \<notin> set (tp_deleteIds p)"
      using h del f(1) by auto
    show ?thesis
    proof (cases "dr_superseded d = Some B")
      case True
      show ?thesis
      proof (cases "relinked B (handedTo lk t) rs d")
        case None
        then have "List.find (\<lambda>h. rl_id h = kr_id r) (tp_relink p) = None" "kr_id r \<in> ra_id ` set (tp_rearm p)"
          using rl ra True f(1) by auto
        then show ?thesis using n None True False Some by (simp add: planned_def after_removal_def Let_def)
      next
        case l: (Some b)
        then obtain g where "List.find (\<lambda>h. rl_id h = kr_id r) (tp_relink p) = Some g" "rl_toBatch g = b"
          using rl True f(1) by auto
        moreover have "kr_id r \<notin> ra_id ` set (tp_rearm p)" using ra l f(1) by auto
        ultimately show ?thesis using n l True False Some by (simp add: planned_def after_removal_def Let_def)
      qed
    next
      case nS: False
      then have "List.find (\<lambda>h. rl_id h = kr_id r) (tp_relink p) = None" "kr_id r \<notin> ra_id ` set (tp_rearm p)"
        using rl ra f(1) by auto
      then show ?thesis using n nS False Some by (simp add: planned_def after_removal_def Let_def)
    qed
  qed
qed

lemma apply_table_read:
  assumes ok: "history_ok (read_rows bs cs (adapter_of t) (rows t))" and ids: "distinct (map kr_id (rows t))"
    and a: "apply_table env (plan_of bs cs rows B lk t) (rows t) = Inr rows'"
  shows "rows' = List.map_filter (planned (plan_of bs cs rows B lk t)) (rows t)"
    and "read_rows bs cs (adapter_of t) rows' =
         removal_spec B (handedTo lk t) (read_rows bs cs (adapter_of t) (rows t))"
proof -
  show r: "rows' = List.map_filter (planned (plan_of bs cs rows B lk t)) (rows t)"
    using apply_table_planned [OF plan_ids [where rows = rows and t = t, OF refl refl ok] a] .
  show "read_rows bs cs (adapter_of t) rows' =
      removal_spec B (handedTo lk t) (read_rows bs cs (adapter_of t) (rows t))"
    unfolding r removal_spec_def read_rows_def map_filter_twice
    using planned_read [where rows = rows and t = t, OF refl refl ok ids, of _ B lk] by (intro map_filter_cong') (simp add: read_rows_def)
qed

text \<open>Only the batch's own rows are ever handed over.\<close>

lemma removal_spec_own: "removal_spec B (\<lambda>r. if dr_batch r = B then hand r else None) rs = removal_spec B hand rs"
proof -
  have "relinked B (\<lambda>r. if dr_batch r = B then hand r else None) rs e = relinked B hand rs e" for e
    by (auto simp: relinked_def dest!: find_SomeD split: option.splits)
  then have "after_removal B (\<lambda>r. if dr_batch r = B then hand r else None) rs = after_removal B hand rs"
    by (simp add: fun_eq_iff after_removal_def)
  then show ?thesis by (simp add: removal_spec_def)
qed

end
