(* ===== verification/Marcom_Zip.thy ===== *)
theory Marcom_Zip
  imports Marcom_Store "HOL-Library.Word"
begin

text \<open>
  The structural check of an uploaded workbook (\<open>marcom/zipGuard.ts\<close>), run on its bytes before any library
  parses them: the ZIP signature, the end-of-central-directory record found by a backward scan, and the
  central directory read entry by entry with its limits on entries, declared size and compression ratio.
  A \<open>Buffer\<close> read past the end raises, so a read is an option; the lemmas show that no read of the check
  ever does. The names are compared byte by byte, which is what the ASCII patterns see of them.
\<close>

section \<open>Reading a buffer\<close>

type_synonym bytes = "8 word list"

definition byte_at :: "bytes \<Rightarrow> nat \<Rightarrow> nat option" where
  "byte_at b i = (if i < length b then Some (unat (b ! i)) else None)"

definition readUInt16LE :: "bytes \<Rightarrow> nat \<Rightarrow> nat option" where
  "readUInt16LE b i =
     (case (byte_at b i, byte_at b (i + 1)) of (Some x, Some y) \<Rightarrow> Some (x + 256 * y) | _ \<Rightarrow> None)"

definition readUInt32LE :: "bytes \<Rightarrow> nat \<Rightarrow> nat option" where
  "readUInt32LE b i =
     (case (readUInt16LE b i, readUInt16LE b (i + 2)) of (Some x, Some y) \<Rightarrow> Some (x + 65536 * y) | _ \<Rightarrow> None)"

definition read_or_raise :: "nat option \<Rightarrow> marcom_error + nat" where
  "read_or_raise v = (case v of None \<Rightarrow> Inl Unexpected | Some n \<Rightarrow> Inr n)"

definition slice_string :: "bytes \<Rightarrow> nat \<Rightarrow> nat \<Rightarrow> string" where
  "slice_string b i n = map (\<lambda>w. char_of (unat w)) (take n (drop i b))"

section \<open>The check\<close>

definition MAX_ENTRIES :: nat where "MAX_ENTRIES = 300"

definition MAX_UNCOMPRESSED_TOTAL :: nat where "MAX_UNCOMPRESSED_TOTAL = 150 * 1024 * 1024"

definition MAX_RATIO :: nat where "MAX_RATIO = 250"

text \<open>The backward scan: from \<open>i\<close> down to \<open>low\<close>, the first offset that holds the signature.\<close>

fun find_eocd :: "bytes \<Rightarrow> nat \<Rightarrow> nat \<Rightarrow> marcom_error + nat" where
  "find_eocd b low i =
     (if i < low then Inl Invalid_file
      else rbind (read_or_raise (readUInt32LE b i)) (\<lambda>v.
        if v = 0x06054b50 then Inr i
        else if i = 0 then Inl Invalid_file
        else find_eocd b low (i - 1)))"

declare find_eocd.simps [simp del]

record zip_totals =
  zt_uncompressed :: nat
  zt_compressed :: nat
  zt_names :: "string list"

text \<open>The central directory: \<open>n\<close> entries are left to read at offset \<open>p\<close>.\<close>

fun read_entries :: "bytes \<Rightarrow> nat \<Rightarrow> nat \<Rightarrow> zip_totals \<Rightarrow> marcom_error + zip_totals" where
  "read_entries b 0 p t = Inr t"
| "read_entries b (Suc n) p t =
     (if p + 46 > length b then Inl Invalid_file
      else rbind (read_or_raise (readUInt32LE b p)) (\<lambda>sig.
        if sig \<noteq> 0x02014b50 then Inl Invalid_file
        else rbind (read_or_raise (readUInt32LE b (p + 20))) (\<lambda>compressed.
          rbind (read_or_raise (readUInt32LE b (p + 24))) (\<lambda>uncompressed.
          rbind (read_or_raise (readUInt16LE b (p + 28))) (\<lambda>nameLen.
          rbind (read_or_raise (readUInt16LE b (p + 30))) (\<lambda>extraLen.
          rbind (read_or_raise (readUInt16LE b (p + 32))) (\<lambda>commentLen.
            (let t' = \<lparr>zt_uncompressed = zt_uncompressed t + uncompressed,
                       zt_compressed = zt_compressed t + compressed,
                       zt_names = zt_names t @ [slice_string b (p + 46) nameLen]\<rparr>
             in if uncompressed = 0xffffffff \<or> zt_uncompressed t' > MAX_UNCOMPRESSED_TOTAL
                then Inl Invalid_file
                else read_entries b n (p + 46 + nameLen + extraLen + commentLen) t'))))))))"

definition unsafe_name :: "string \<Rightarrow> bool" where
  "unsafe_name s \<longleftrightarrow>
     contains_sub ''..'' s \<or> ends_with ''vbaproject.bin'' (to_lower s) \<or> starts_with ''xl/externallinks/'' (to_lower s)"

definition assertSafeXlsx :: "bytes \<Rightarrow> string \<Rightarrow> marcom_error + unit" where
  "assertSafeXlsx b filename =
     rbind (ensure (ends_with ''.xlsx'' (to_lower filename)) Invalid_file) (\<lambda>_.
     rbind (ensure (length b \<noteq> 0) Invalid_file) (\<lambda>_.
     rbind (ensure (length b \<le> MAX_FILE_BYTES) Invalid_file) (\<lambda>_.
     rbind (ensure (22 \<le> length b) Invalid_file) (\<lambda>_.
     rbind (read_or_raise (readUInt32LE b 0)) (\<lambda>magic.
     rbind (ensure (magic = 0x04034b50) Invalid_file) (\<lambda>_.
     rbind (find_eocd b (length b - 22 - 65535) (length b - 22)) (\<lambda>eocd.
     rbind (read_or_raise (readUInt16LE b (eocd + 10))) (\<lambda>entryCount.
     rbind (read_or_raise (readUInt32LE b (eocd + 16))) (\<lambda>cdOffset.
     rbind (ensure (entryCount \<noteq> 0xffff \<and> cdOffset \<noteq> 0xffffffff) Invalid_file) (\<lambda>_.
     rbind (ensure (entryCount \<le> MAX_ENTRIES) Invalid_file) (\<lambda>_.
     rbind (read_entries b entryCount cdOffset \<lparr>zt_uncompressed = 0, zt_compressed = 0, zt_names = []\<rparr>) (\<lambda>t.
     rbind (ensure (\<not> (zt_compressed t > 0 \<and> zt_uncompressed t > MAX_RATIO * zt_compressed t
                       \<and> zt_uncompressed t > 5 * 1024 * 1024)) Invalid_file) (\<lambda>_.
     ensure (\<not> list_ex unsafe_name (zt_names t)) Invalid_file)))))))))))))"

section \<open>No read is out of range\<close>

lemma read16: "i + 2 \<le> length b \<Longrightarrow> readUInt16LE b i \<noteq> None"
  by (simp add: readUInt16LE_def byte_at_def)

lemma read32: "i + 4 \<le> length b \<Longrightarrow> readUInt32LE b i \<noteq> None"
  using read16 [of i b] read16 [of "i + 2" b] by (auto simp: readUInt32LE_def split: option.splits)

lemma read_or_raise_ok: "v \<noteq> None \<Longrightarrow> \<exists>n. read_or_raise v = Inr n"
  by (auto simp: read_or_raise_def)

definition no_raise :: "marcom_error + 'a \<Rightarrow> bool" where
  "no_raise m \<longleftrightarrow> m \<noteq> Inl Unexpected"

lemma no_raise_simps [simp]: "no_raise (Inr x)" "no_raise (Inl Invalid_file)" "no_raise (ensure c Invalid_file)"
  by (auto simp: no_raise_def ensure_def)

lemma rbind_no_raise:
  assumes "no_raise m" "\<And>x. m = Inr x \<Longrightarrow> no_raise (f x)"
  shows "no_raise (rbind m f)"
  using assms by (auto simp: no_raise_def rbind_eq_Inl)

lemma if_no_raise: "(c \<Longrightarrow> no_raise x) \<Longrightarrow> (\<not> c \<Longrightarrow> no_raise y) \<Longrightarrow> no_raise (if c then x else y)"
  by simp

lemma read16_no_raise: "i + 2 \<le> length b \<Longrightarrow> no_raise (read_or_raise (readUInt16LE b i))"
proof -
  assume "i + 2 \<le> length b"
  from read_or_raise_ok [OF read16 [OF this]] show ?thesis by (auto simp: no_raise_def)
qed

lemma read32_no_raise: "i + 4 \<le> length b \<Longrightarrow> no_raise (read_or_raise (readUInt32LE b i))"
proof -
  assume "i + 4 \<le> length b"
  from read_or_raise_ok [OF read32 [OF this]] show ?thesis by (auto simp: no_raise_def)
qed

lemmas no_raise_intros = rbind_no_raise if_no_raise read16_no_raise read32_no_raise

lemma find_eocd_result:
  assumes "i + 22 \<le> length b"
  shows "no_raise (find_eocd b low i)"
    and "find_eocd b low i = Inr e \<Longrightarrow> e + 22 \<le> length b \<and> readUInt32LE b e = Some 0x06054b50"
  using assms
proof (induction i)
  case 0
  {
    case 1
    then show ?case
      unfolding find_eocd.simps [of b low 0] by (intro no_raise_intros) simp_all
  next
    case 2
    then show ?case
      by (subst (asm) find_eocd.simps) (auto simp: rbind_eq_Inr read_or_raise_def split: if_splits option.splits)
  }
next
  case (Suc i)
  {
    case 1
    then show ?case
      unfolding find_eocd.simps [of b low "Suc i"] using Suc.IH(1) by (intro no_raise_intros) simp_all
  next
    case 2
    then show ?case using Suc.IH(2)
      by (subst (asm) find_eocd.simps) (auto simp: rbind_eq_Inr read_or_raise_def split: if_splits option.splits)
  }
qed

lemma read_entries_no_raise: "no_raise (read_entries b n p t)"
proof (induction n arbitrary: p t)
  case (Suc n)
  then show ?case
    unfolding read_entries.simps Let_def by (intro no_raise_intros) simp_all
qed simp

section \<open>What the bytes of an accepted file say\<close>

text \<open>The central directory as the ZIP format has it: a header at an offset declares a compressed and an uncompressed
size and a name, and the next header follows the name, the extra field and the comment.\<close>

definition header_at :: "bytes \<Rightarrow> nat \<Rightarrow> nat \<times> nat \<times> string \<Rightarrow> nat \<Rightarrow> bool" where
  "header_at b p e q \<longleftrightarrow> p + 46 \<le> length b \<and> readUInt32LE b p = Some 0x02014b50 \<and>
     readUInt32LE b (p + 20) = Some (fst e) \<and> readUInt32LE b (p + 24) = Some (fst (snd e)) \<and>
     (\<exists>nl el cl. readUInt16LE b (p + 28) = Some nl \<and> readUInt16LE b (p + 30) = Some el \<and> readUInt16LE b (p + 32) = Some cl \<and>
        snd (snd e) = slice_string b (p + 46) nl \<and> q = p + 46 + nl + el + cl)"

inductive directory :: "bytes \<Rightarrow> nat \<Rightarrow> (nat \<times> nat \<times> string) list \<Rightarrow> bool" where
  directory_end: "directory b p []"
| directory_entry: "header_at b p e q \<Longrightarrow> directory b q es \<Longrightarrow> directory b p (e # es)"

inductive_cases directory_ConsE: "directory b p (e # es)"

definition compressed_of :: "(nat \<times> nat \<times> string) list \<Rightarrow> nat" where
  "compressed_of es = sum_list (map fst es)"

definition uncompressed_of :: "(nat \<times> nat \<times> string) list \<Rightarrow> nat" where
  "uncompressed_of es = sum_list (map (\<lambda>e. fst (snd e)) es)"

lemma read_or_raise_Inr [simp]: "read_or_raise v = Inr n \<longleftrightarrow> v = Some n"
  by (auto simp: read_or_raise_def split: option.splits)

text \<open>The last end-of-central-directory record within reach.\<close>

definition last_record :: "bytes \<Rightarrow> nat \<Rightarrow> nat \<Rightarrow> nat \<Rightarrow> bool" where
  "last_record b low i e \<longleftrightarrow> low \<le> e \<and> e \<le> i \<and> readUInt32LE b e = Some 0x06054b50 \<and>
     (\<forall>j. e < j \<longrightarrow> j \<le> i \<longrightarrow> readUInt32LE b j \<noteq> Some 0x06054b50)"

lemma find_eocd_iff:
  assumes "i + 22 \<le> length b"
  shows "find_eocd b low i = Inr e \<longleftrightarrow> last_record b low i e"
  using assms
proof (induction i)
  case 0
  then show ?case
    by (subst find_eocd.simps) (auto simp: rbind_eq_Inr last_record_def split: if_splits)
next
  case (Suc i)
  then obtain v where v: "readUInt32LE b (Suc i) = Some v" using read32 [of "Suc i" b] by fastforce
  have "last_record b low (Suc i) e \<longleftrightarrow> low \<le> Suc i \<and> (if v = 0x06054b50 then e = Suc i else last_record b low i e)"
  proof (cases "v = 0x06054b50")
    case True
    then have "e = Suc i" if "last_record b low (Suc i) e" using that v by (metis last_record_def le_neq_implies_less order_refl)
    then show ?thesis using True v by (auto simp: last_record_def)
  next
    case False
    then have "(\<forall>j. e < j \<longrightarrow> j \<le> Suc i \<longrightarrow> readUInt32LE b j \<noteq> Some 0x06054b50) \<longleftrightarrow>
        (\<forall>j. e < j \<longrightarrow> j \<le> i \<longrightarrow> readUInt32LE b j \<noteq> Some 0x06054b50)"
      using v by (metis le_Suc_eq option.inject)
    moreover have "readUInt32LE b e = Some 0x06054b50 \<Longrightarrow> e \<noteq> Suc i" using v False by auto
    ultimately show ?thesis using False unfolding last_record_def by (metis le_Suc_eq le_SucI order_trans)
  qed
  moreover have "find_eocd b low (Suc i) = Inr e \<longleftrightarrow> low \<le> Suc i \<and> (if v = 0x06054b50 then e = Suc i else find_eocd b low i = Inr e)"
    by (subst find_eocd.simps) (auto simp: rbind_eq_Inr v)
  ultimately show ?case using Suc by simp
qed

text \<open>The loop over the entries reads exactly a directory of the given length, and sums what it declares.\<close>

lemma read_entries_Suc:
  "read_entries b (Suc n) p t = Inr t' \<longleftrightarrow>
     (\<exists>e q. header_at b p e q \<and> zt_uncompressed t + fst (snd e) \<le> MAX_UNCOMPRESSED_TOTAL \<and>
        read_entries b n q \<lparr>zt_uncompressed = zt_uncompressed t + fst (snd e), zt_compressed = zt_compressed t + fst e,
          zt_names = zt_names t @ [snd (snd e)]\<rparr> = Inr t')"
proof -
  have m: "zt_uncompressed t + u \<le> MAX_UNCOMPRESSED_TOTAL \<Longrightarrow> u \<noteq> 0xffffffff" for u by (simp add: MAX_UNCOMPRESSED_TOTAL_def)
  show ?thesis
    unfolding read_entries.simps header_at_def
    by (auto simp: rbind_eq_Inr Let_def not_less not_le dest: m split: if_splits)
qed

lemma read_entries_iff:
  assumes "zt_uncompressed t \<le> MAX_UNCOMPRESSED_TOTAL"
  shows "read_entries b n p t = Inr t' \<longleftrightarrow>
    (\<exists>es. directory b p es \<and> length es = n \<and> zt_uncompressed t + uncompressed_of es \<le> MAX_UNCOMPRESSED_TOTAL \<and>
       t' = \<lparr>zt_uncompressed = zt_uncompressed t + uncompressed_of es, zt_compressed = zt_compressed t + compressed_of es,
         zt_names = zt_names t @ map (\<lambda>e. snd (snd e)) es\<rparr>)"
  using assms
proof (induction n arbitrary: p t)
  case 0
  then show ?case by (auto simp: uncompressed_of_def compressed_of_def intro: directory_end)
next
  case (Suc n)
  let ?t = "\<lambda>e. \<lparr>zt_uncompressed = zt_uncompressed t + fst (snd e), zt_compressed = zt_compressed t + fst e,
    zt_names = zt_names t @ [snd (snd e)]\<rparr>"
  let ?fin = "\<lambda>es. \<lparr>zt_uncompressed = zt_uncompressed t + uncompressed_of es, zt_compressed = zt_compressed t + compressed_of es,
    zt_names = zt_names t @ map (\<lambda>e. snd (snd e)) es\<rparr>"
  have "read_entries b (Suc n) p t = Inr t' \<longleftrightarrow>
      (\<exists>e q es. header_at b p e q \<and> directory b q es \<and> length es = n \<and>
        zt_uncompressed t + uncompressed_of (e # es) \<le> MAX_UNCOMPRESSED_TOTAL \<and> t' = ?fin (e # es))" (is "_ \<longleftrightarrow> ?R")
    unfolding read_entries_Suc
  proof (intro ex_cong1)
    fix e q
    show "(header_at b p e q \<and> zt_uncompressed t + fst (snd e) \<le> MAX_UNCOMPRESSED_TOTAL \<and> read_entries b n q (?t e) = Inr t') \<longleftrightarrow>
      (\<exists>es. header_at b p e q \<and> directory b q es \<and> length es = n \<and>
        zt_uncompressed t + uncompressed_of (e # es) \<le> MAX_UNCOMPRESSED_TOTAL \<and> t' = ?fin (e # es))"
      using Suc.IH [of "?t e" q] by (auto simp: uncompressed_of_def compressed_of_def add.assoc)
  qed
  also have "?R \<longleftrightarrow> (\<exists>es. directory b p es \<and> length es = Suc n \<and>
      zt_uncompressed t + uncompressed_of es \<le> MAX_UNCOMPRESSED_TOTAL \<and> t' = ?fin es)"
    by (auto simp: length_Suc_conv elim!: directory_ConsE intro: directory_entry) (metis directory_entry)
  finally show ?case .
qed

lemma acceptance_cases:
  "assertSafeXlsx b f = Inr () \<longleftrightarrow>
     ends_with ''.xlsx'' (to_lower f) \<and> 22 \<le> length b \<and> length b \<le> MAX_FILE_BYTES \<and> readUInt32LE b 0 = Some 0x04034b50 \<and>
     (\<exists>e n cd. find_eocd b (length b - 22 - 65535) (length b - 22) = Inr e \<and> readUInt16LE b (e + 10) = Some n \<and>
        readUInt32LE b (e + 16) = Some cd \<and> cd \<noteq> 0xffffffff \<and> n \<le> MAX_ENTRIES \<and>
        (\<exists>t. read_entries b n cd \<lparr>zt_uncompressed = 0, zt_compressed = 0, zt_names = []\<rparr> = Inr t \<and>
          \<not> (0 < zt_compressed t \<and> MAX_RATIO * zt_compressed t < zt_uncompressed t \<and> 5242880 < zt_uncompressed t) \<and>
          \<not> list_ex unsafe_name (zt_names t)))"
proof -
  have m: "n \<le> MAX_ENTRIES \<Longrightarrow> n \<noteq> 0xffff" for n by (simp add: MAX_ENTRIES_def)
  show ?thesis
    unfolding assertSafeXlsx_def rbind_eq_Inr ensure_eq_Inr read_or_raise_Inr
    by (auto simp: list_ex_iff dest: m)
qed

text \<open>C32. The check of an uploaded workbook ends for every byte string and every name, and its only failure is the
  validation error: no read of the signature, of the end-of-central-directory record or of a directory entry
  is ever outside the buffer, however the lengths and offsets inside the file were forged.
\<close>

theorem zip_check_never_raises: "assertSafeXlsx b f \<noteq> Inl Unexpected"
proof -
  have "no_raise (assertSafeXlsx b f)"
    unfolding assertSafeXlsx_def ensure_eq_Inr
    using find_eocd_result [of "length b - 22" b] read_entries_no_raise
    by (intro no_raise_intros) (fastforce simp: ensure_eq_Inr)+
  then show ?thesis by (simp add: no_raise_def)
qed

text \<open>C25. Exactly what the check accepts: a \<open>.xlsx\<close> file of 22 bytes to 10 MB with the ZIP signature whose last
  end-of-central-directory record names a directory (so many entries, from such an offset) that is there in the bytes, header after
  header; it lists at most 300 entries that declare at most 150 MB in all, at most 250 times their compressed size when
  they declare over 5 MB and a compressed size at all, and none of which has a parent path, a macro project or an external link in its name.
\<close>

theorem zip_check_bounds:
  "assertSafeXlsx b f = Inr () \<longleftrightarrow>
     ends_with ''.xlsx'' (to_lower f) \<and> 22 \<le> length b \<and> length b \<le> 10485760 \<and> readUInt32LE b 0 = Some 0x04034b50 \<and>
     (\<exists>e n cd es. last_record b (length b - 22 - 65535) (length b - 22) e \<and>
        readUInt16LE b (e + 10) = Some n \<and> readUInt32LE b (e + 16) = Some cd \<and> cd \<noteq> 0xffffffff \<and>
        directory b cd es \<and> length es = n \<and> n \<le> 300 \<and> uncompressed_of es \<le> 157286400 \<and>
        \<not> (0 < compressed_of es \<and> 5242880 < uncompressed_of es \<and> 250 * compressed_of es < uncompressed_of es) \<and>
        \<not> list_ex (\<lambda>(_, _, s). contains_sub ''..'' s \<or> ends_with ''vbaproject.bin'' (to_lower s) \<or>
           starts_with ''xl/externallinks/'' (to_lower s)) es)"
proof (cases "22 \<le> length b")
  case True
  then have "length b - 22 + 22 \<le> length b" by simp
  note eocd = find_eocd_iff [OF this]
  have entries: "(\<exists>t. read_entries b n cd \<lparr>zt_uncompressed = 0, zt_compressed = 0, zt_names = []\<rparr> = Inr t \<and> R t) \<longleftrightarrow>
    (\<exists>es. directory b cd es \<and> length es = n \<and> uncompressed_of es \<le> MAX_UNCOMPRESSED_TOTAL \<and>
      R \<lparr>zt_uncompressed = uncompressed_of es, zt_compressed = compressed_of es, zt_names = map (\<lambda>e. snd (snd e)) es\<rparr>)" for n cd R
    by (subst read_entries_iff) auto
  have names: "list_ex unsafe_name (map (\<lambda>e. snd (snd e)) es) \<longleftrightarrow> list_ex (\<lambda>(_, _, s). contains_sub ''..'' s \<or>
      ends_with ''vbaproject.bin'' (to_lower s) \<or> starts_with ''xl/externallinks/'' (to_lower s)) es" for es :: "(nat \<times> nat \<times> string) list"
    by (induction es) (simp_all add: unsafe_name_def case_prod_beta)
  have limits: "MAX_FILE_BYTES = 10485760" "MAX_ENTRIES = 300" "MAX_UNCOMPRESSED_TOTAL = 157286400" "MAX_RATIO = 250"
    by (simp_all add: MAX_FILE_BYTES_def MAX_ENTRIES_def MAX_UNCOMPRESSED_TOTAL_def MAX_RATIO_def)
  show ?thesis unfolding acceptance_cases eocd entries zip_totals.simps names limits by blast
qed (simp add: acceptance_cases)

text \<open>The smallest file the check accepts: the signature and a directory record with no entry.\<close>

definition empty_zip :: bytes where
  "empty_zip = [0x50, 0x4b, 3, 4, 0x50, 0x4b, 5, 6, 0, 0, 0, 0, 0, 0, 0, 0, 0, 0, 0, 0, 0, 0, 0, 0, 0, 0]"

lemma empty_zip_reads:
  "length empty_zip = 26" "readUInt32LE empty_zip 0 = Some 0x04034b50" "readUInt32LE empty_zip 4 = Some 0x06054b50"
  "readUInt16LE empty_zip 14 = Some 0" "readUInt32LE empty_zip 20 = Some 0"
  by (simp_all add: empty_zip_def readUInt32LE_def readUInt16LE_def byte_at_def nth_Cons')

lemma empty_zip_accepted: "assertSafeXlsx empty_zip ''plan.xlsx'' = Inr ()"
proof -
  have "find_eocd empty_zip 0 4 = Inr 4"
    by (subst find_eocd.simps) (simp add: empty_zip_reads read_or_raise_def)
  moreover have "ends_with ''.xlsx'' (to_lower ''plan.xlsx'')" by code_simp
  moreover have "empty_zip \<noteq> []" by (simp add: empty_zip_def)
  ultimately show ?thesis
    by (simp add: assertSafeXlsx_def empty_zip_reads read_or_raise_def MAX_FILE_BYTES_def MAX_ENTRIES_def ensure_def)
qed

end
