(* ===== verification/Marcom_Cells.thy ===== *)
theory Marcom_Cells
  imports Marcom_Diff Calendar
begin

text \<open>
  The cells of an uploaded MARCOM workbook (\<open>marcom/parser.ts\<close>): what \<open>readCell\<close> makes of a value the
  spreadsheet library returns, the cleaning of text and digits, the parsing of numbers and dates, and
  \<open>coerce\<close>, which turns a raw cell into the value of its column or into an issue with its code. A cell value
  is \<open>xl\<close>; a date holds its time value in milliseconds. The one text the model does not compute,
  \<open>String(date)\<close>, is the argument \<open>ds\<close>. Code units above 255 are outside \<open>string\<close>, so of
  \<open>normalizeDigits\<close> only the removal of the no-break space remains.
\<close>

section \<open>Cell values\<close>

datatype xl =
    X_null | X_bool bool | X_num jsnum | X_str string | X_date "int option"
  | X_obj "(string \<times> xl) list" | X_arr "xl list"

definition xl_field :: "(string \<times> xl) list \<Rightarrow> string \<Rightarrow> xl option" where
  "xl_field o' k = map_of o' k"

fun xl_string :: "(int option \<Rightarrow> string) \<Rightarrow> xl \<Rightarrow> string" where
  "xl_string ds X_null = ''null''"
| "xl_string ds (X_bool b) = (if b then ''true'' else ''false'')"
| "xl_string ds (X_num n) = num_str n"
| "xl_string ds (X_str s) = s"
| "xl_string ds (X_date t) = ds t"
| "xl_string ds (X_obj kvs) = ''[object Object]''"
| "xl_string ds (X_arr vs) = join_with '','' (map (\<lambda>v. if v = X_null then [] else xl_string ds v) vs)"

record raw_cell =
  rc_value :: xl
  rc_formulaNoResult :: bool
  rc_isErrorValue :: bool

text \<open>The text of one rich-text run; a run without \<open>text\<close> joins as nothing.\<close>

fun run_text :: "(int option \<Rightarrow> string) \<Rightarrow> xl \<Rightarrow> string" where
  "run_text ds (X_obj kvs) =
     (case xl_field kvs ''text'' of None \<Rightarrow> [] | Some v \<Rightarrow> if v = X_null then [] else xl_string ds v)"
| "run_text ds v = []"

definition is_error_object :: "xl \<Rightarrow> bool" where
  "is_error_object v = (case v of X_obj kvs \<Rightarrow> xl_field kvs ''error'' \<noteq> None | _ \<Rightarrow> False)"

definition blank_to_null :: "xl \<Rightarrow> xl" where
  "blank_to_null v = (case v of X_str s \<Rightarrow> if trim s = [] then X_null else v | _ \<Rightarrow> v)"

definition readCell :: "(int option \<Rightarrow> string) \<Rightarrow> xl \<Rightarrow> raw_cell" where
  "readCell ds v =
     (case v of
        X_obj kvs \<Rightarrow>
          (if xl_field kvs ''formula'' \<noteq> None \<or> xl_field kvs ''sharedFormula'' \<noteq> None
           then (case xl_field kvs ''result'' of
                   None \<Rightarrow> \<lparr>rc_value = X_null, rc_formulaNoResult = True, rc_isErrorValue = False\<rparr>
                 | Some r \<Rightarrow>
                     if r = X_null then \<lparr>rc_value = X_null, rc_formulaNoResult = True, rc_isErrorValue = False\<rparr>
                     else if is_error_object r
                       then \<lparr>rc_value = X_null, rc_formulaNoResult = False, rc_isErrorValue = True\<rparr>
                     else \<lparr>rc_value = blank_to_null r, rc_formulaNoResult = False, rc_isErrorValue = False\<rparr>)
           else case xl_field kvs ''richText'' of
             Some (X_arr runs) \<Rightarrow>
               \<lparr>rc_value = blank_to_null (X_str (concat (map (run_text ds) runs))),
                rc_formulaNoResult = False, rc_isErrorValue = False\<rparr>
           | _ \<Rightarrow>
               (case xl_field kvs ''text'' of
                  Some t \<Rightarrow> \<lparr>rc_value = blank_to_null t, rc_formulaNoResult = False, rc_isErrorValue = False\<rparr>
                | None \<Rightarrow>
                    if xl_field kvs ''error'' \<noteq> None
                    then \<lparr>rc_value = X_null, rc_formulaNoResult = False, rc_isErrorValue = True\<rparr>
                    else \<lparr>rc_value = v, rc_formulaNoResult = False, rc_isErrorValue = False\<rparr>))
      | _ \<Rightarrow> \<lparr>rc_value = blank_to_null v, rc_formulaNoResult = False, rc_isErrorValue = False\<rparr>)"

section \<open>Text\<close>

definition sig_char :: "char \<Rightarrow> bool" where
  "sig_char c \<longleftrightarrow> is_lower c \<or> is_digit c \<or> c = CHR ''#''"

definition sig :: "string \<Rightarrow> string" where
  "sig s = filter sig_char (to_lower s)"

fun colLetter :: "nat \<Rightarrow> string" where
  "colLetter n = (if n = 0 then [] else colLetter ((n - 1) div 26) @ [char_of (65 + (n - 1) mod 26)])"

declare colLetter.simps [simp del]

definition sanitizeText :: "string \<Rightarrow> string" where
  "sanitizeText s =
     take 200 (trim (squeeze_spaces
       (map (\<lambda>c. if code_of c < 32 \<or> code_of c = 127 \<or> c = CHR ''<'' \<or> c = CHR ''>'' then CHR '' '' else c) s)))"

definition normalizeDigits :: "string \<Rightarrow> string" where
  "normalizeDigits s = filter (\<lambda>c. code_of c \<noteq> 160) s"

section \<open>Numbers and dates\<close>

text \<open>\<open>/^[+-]?(\d+\.?\d*|\.\d+)$/\<close>\<close>

definition decimal_shape :: "string \<Rightarrow> bool" where
  "decimal_shape s0 =
     (let s = (case s0 of c # t \<Rightarrow> if c = CHR ''+'' \<or> c = CHR ''-'' then t else s0 | [] \<Rightarrow> []);
          ip = takeWhile is_digit s; r = dropWhile is_digit s
      in (case r of
            [] \<Rightarrow> ip \<noteq> []
          | c # fp \<Rightarrow> c = CHR ''.'' \<and> list_all is_digit fp \<and> (ip \<noteq> [] \<or> fp \<noteq> [])))"

definition finite_number :: "jsnum \<Rightarrow> rat option" where
  "finite_number n = (case n of Fin r \<Rightarrow> Some r | _ \<Rightarrow> None)"

definition parseNumber :: "xl \<Rightarrow> rat option" where
  "parseNumber v =
     (case v of
        X_num n \<Rightarrow> finite_number n
      | X_str t \<Rightarrow>
          (let s = filter (\<lambda>c. \<not> is_space c \<and> c \<noteq> CHR '','') (normalizeDigits t) in
           if decimal_shape s then finite_number (string_to_number s) else None)
      | _ \<Rightarrow> None)"

text \<open>\<open>Date.UTC(y, m - 1, d)\<close> as a day number: a year from 0 to 99 counts from 1900.\<close>

definition utc_day :: "int \<Rightarrow> int \<Rightarrow> int \<Rightarrow> int" where
  "utc_day y m d = make_day (if 0 \<le> y \<and> y \<le> 99 then 1900 + y else y) m d"

definition pad2 :: "int \<Rightarrow> string" where
  "pad2 n = (let s = int_str n in replicate (2 - length s) (CHR ''0'') @ s)"

definition validYmd :: "int \<Rightarrow> int \<Rightarrow> int \<Rightarrow> string option" where
  "validYmd y m d =
     (if civil_of_day (utc_day y m d) = (y, m, d)
      then Some (int_str y @ ''-'' @ pad2 m @ ''-'' @ pad2 d) else None)"

definition day_ymd :: "int \<Rightarrow> string option" where
  "day_ymd n = (case civil_of_day n of (y, m, d) \<Rightarrow> validYmd y m d)"

definition serial_date :: "rat \<Rightarrow> string option" where
  "serial_date v = (if v < 1 \<or> v > 2958465 then None else day_ymd (\<lfloor>v\<rfloor> - 25569))"

definition digits_between :: "nat \<Rightarrow> nat \<Rightarrow> string \<Rightarrow> bool" where
  "digits_between lo hi s \<longleftrightarrow> lo \<le> length s \<and> length s \<le> hi \<and> list_all is_digit s"

text \<open>
  \<open>/^(\d{4})-(\d{1,2})-(\d{1,2})(?:[T ].*)?$/\<close>: the fields up to the first \<open>T\<close> or space after the second
  dash, and no line break in what follows it.
\<close>

definition is_line_end :: "char \<Rightarrow> bool" where
  "is_line_end c \<longleftrightarrow> code_of c = 10 \<or> code_of c = 13"

definition iso_text :: "string \<Rightarrow> (int \<times> int \<times> int) option" where
  "iso_text s =
     (let y = takeWhile is_digit s; r1 = dropWhile is_digit s;
          m = takeWhile is_digit (tl r1); r2 = dropWhile is_digit (tl r1);
          d = takeWhile is_digit (tl r2); r3 = dropWhile is_digit (tl r2)
      in if digits_between 4 4 y \<and> r1 \<noteq> [] \<and> hd r1 = CHR ''-'' \<and> digits_between 1 2 m \<and> r2 \<noteq> [] \<and> hd r2 = CHR ''-''
            \<and> digits_between 1 2 d \<and> (r3 = [] \<or> (hd r3 = CHR ''T'' \<or> hd r3 = CHR '' '') \<and> \<not> list_ex is_line_end (tl r3))
         then Some (int (dec_val y), int (dec_val m), int (dec_val d)) else None)"

definition is_date_sep :: "char \<Rightarrow> bool" where
  "is_date_sep c \<longleftrightarrow> c = CHR ''/'' \<or> c = CHR ''.'' \<or> c = CHR ''-''"

text \<open>\<open>/^(\d{1,2})[/.\-](\d{1,2})[/.\-](\d{4})$/\<close>, day first.\<close>

definition dmy_text :: "string \<Rightarrow> (int \<times> int \<times> int) option" where
  "dmy_text s =
     (let d = takeWhile is_digit s; r1 = dropWhile is_digit s;
          m = takeWhile is_digit (tl r1); r2 = dropWhile is_digit (tl r1); y = tl r2
      in if digits_between 1 2 d \<and> r1 \<noteq> [] \<and> is_date_sep (hd r1) \<and> digits_between 1 2 m \<and> r2 \<noteq> [] \<and> is_date_sep (hd r2)
            \<and> digits_between 4 4 y
         then Some (int (dec_val y), int (dec_val m), int (dec_val d)) else None)"

text \<open>\<open>/^\d+(\.\d+)?$/\<close>\<close>

definition serial_text :: "string \<Rightarrow> bool" where
  "serial_text s =
     (let ip = takeWhile is_digit s; r = dropWhile is_digit s
      in ip \<noteq> [] \<and> (r = [] \<or> hd r = CHR ''.'' \<and> tl r \<noteq> [] \<and> list_all is_digit (tl r)))"

definition parseDate :: "xl \<Rightarrow> string option" where
  "parseDate v =
     (case v of
        X_date None \<Rightarrow> None
      | X_date (Some ms) \<Rightarrow> day_ymd (ms div 86400000)
      | X_num n \<Rightarrow> (case finite_number n of None \<Rightarrow> None | Some r \<Rightarrow> serial_date r)
      | X_str t \<Rightarrow>
          (let s = normalizeDigits (trim t) in
           case iso_text s of
             Some (y, m, d) \<Rightarrow> validYmd y m d
           | None \<Rightarrow>
               (case dmy_text s of
                  Some (y, m, d) \<Rightarrow> validYmd y m d
                | None \<Rightarrow>
                    if serial_text s
                    then (case finite_number (string_to_number s) of None \<Rightarrow> None | Some r \<Rightarrow> serial_date r)
                    else None))
      | _ \<Rightarrow> None)"

section \<open>Coercion to the column\<close>

datatype cell_issue = No_issue | Cell_error string | Cell_warning string

record coerced =
  co_value :: jsval
  co_issue :: cell_issue

definition good :: "jsval \<Rightarrow> coerced" where
  "good v = \<lparr>co_value = v, co_issue = No_issue\<rparr>"

definition bad :: "string \<Rightarrow> coerced" where
  "bad code = \<lparr>co_value = JNull, co_issue = Cell_error code\<rparr>"

definition warned :: "jsval \<Rightarrow> string \<Rightarrow> coerced" where
  "warned v code = \<lparr>co_value = v, co_issue = Cell_warning code\<rparr>"

definition num :: "rat \<Rightarrow> jsval" where
  "num r = JNum (Fin r)"

definition coerce_year :: "xl \<Rightarrow> coerced" where
  "coerce_year raw =
     (case parseNumber raw of
        None \<Rightarrow> bad ''INVALID_YEAR''
      | Some r \<Rightarrow>
          (case as_integer (Fin r) of
             None \<Rightarrow> bad ''INVALID_YEAR''
           | Some n \<Rightarrow> if n < YEAR_MIN \<or> n > YEAR_MAX then bad ''YEAR_OUT_OF_RANGE'' else good (num r)))"

definition index_of :: "('a \<Rightarrow> bool) \<Rightarrow> 'a list \<Rightarrow> nat option" where
  "index_of P xs = map_option fst (List.find (\<lambda>p. P (snd p)) (zip [0..<length xs] xs))"

definition clean_word :: "string \<Rightarrow> string" where
  "clean_word s = to_lower (trim (squeeze_spaces s))"

definition coerce_month :: "(int option \<Rightarrow> string) \<Rightarrow> xl \<Rightarrow> coerced" where
  "coerce_month ds raw =
     (case index_of (\<lambda>m. to_lower m = to_lower (trim (xl_string ds raw))) MONTHS of
        None \<Rightarrow> bad ''INVALID_MONTH''
      | Some i \<Rightarrow> good (num (of_nat (i + 1))))"

definition coerce_text :: "(int option \<Rightarrow> string) \<Rightarrow> xl \<Rightarrow> coerced" where
  "coerce_text ds raw =
     (let s = sanitizeText (xl_string ds raw) in
      if s \<noteq> [] then good (JStr s) else bad ''REQUIRED_MISSING'')"

text \<open>A brand seen for the first time and unknown to the database is reported once per file.\<close>

definition coerce_brand ::
  "(int option \<Rightarrow> string) \<Rightarrow> xl \<Rightarrow> string list option \<Rightarrow> string list \<Rightarrow> coerced \<times> string list" where
  "coerce_brand ds raw known seen =
     (let s = sanitizeText (xl_string ds raw); k = to_lower s in
      if s = [] then (bad ''REQUIRED_MISSING'', seen)
      else case known of
        Some ks \<Rightarrow>
          if ks \<noteq> [] \<and> k \<notin> set ks \<and> k \<notin> set seen
          then (warned (JStr s) ''NEW_BRAND'', seen @ [k]) else (good (JStr s), seen)
      | None \<Rightarrow> (good (JStr s), seen))"

definition coerce_choice :: "(int option \<Rightarrow> string) \<Rightarrow> xl \<Rightarrow> string list \<Rightarrow> string \<Rightarrow> coerced" where
  "coerce_choice ds raw allowed code =
     (case List.find (\<lambda>e. to_lower e = clean_word (xl_string ds raw)) allowed of
        None \<Rightarrow> bad code
      | Some e \<Rightarrow> good (JStr e))"

definition coerce_date :: "xl \<Rightarrow> coerced" where
  "coerce_date raw = (case parseDate raw of None \<Rightarrow> bad ''INVALID_DATE'' | Some d \<Rightarrow> good (JStr d))"

definition coerce_number :: "bool \<Rightarrow> xl \<Rightarrow> coerced" where
  "coerce_number whole raw =
     (case parseNumber raw of
        None \<Rightarrow> bad ''INVALID_NUMBER''
      | Some n \<Rightarrow>
          if n < 0 then bad ''NEGATIVE_NUMBER''
          else if whole then (if as_integer (Fin n) = None then bad ''NOT_INTEGER'' else good (num n))
          else good (JNum (round_dec 2 (Fin n))))"

definition coerce_pct :: "xl \<Rightarrow> coerced" where
  "coerce_pct raw =
     (let explicit = (case raw of X_str t \<Rightarrow> ends_with ''%'' (trim t) | _ \<Rightarrow> False);
          s = (case raw of X_str t \<Rightarrow> if explicit then X_str (butlast (trim t)) else raw | _ \<Rightarrow> raw)
      in case parseNumber s of
           None \<Rightarrow> bad ''INVALID_PERCENT''
         | Some n \<Rightarrow>
             if n < 0 then bad ''NEGATIVE_NUMBER''
             else if explicit then (if n \<le> 100 then good (num (n / 100)) else bad ''PERCENT_OUT_OF_RANGE'')
             else if n \<le> 1 then good (num n)
             else if n \<le> 100 then warned (num (n / 100)) ''PERCENT_SCALED''
             else bad ''PERCENT_OUT_OF_RANGE'')"

definition coerce ::
  "(int option \<Rightarrow> string) \<Rightarrow> col_spec \<Rightarrow> xl \<Rightarrow> string list option \<Rightarrow> string list \<Rightarrow> string list \<Rightarrow> coerced \<times> string list" where
  "coerce ds c raw known seen categories =
     (case cs_kind c of
        K_year \<Rightarrow> (coerce_year raw, seen)
      | K_month \<Rightarrow> (coerce_month ds raw, seen)
      | K_text \<Rightarrow> (coerce_text ds raw, seen)
      | K_brand \<Rightarrow> coerce_brand ds raw known seen
      | K_category \<Rightarrow> (coerce_choice ds raw categories ''INVALID_CATEGORY'', seen)
      | K_enum \<Rightarrow> (coerce_choice ds raw (cs_enumValues c) ''INVALID_ENUM'', seen)
      | K_date \<Rightarrow> (coerce_date raw, seen)
      | K_int \<Rightarrow> (coerce_number True raw, seen)
      | K_money \<Rightarrow> (coerce_number False raw, seen)
      | K_decimal \<Rightarrow> (coerce_number False raw, seen)
      | K_pct \<Rightarrow> (coerce_pct raw, seen))"

end
