(* ===== verification/Marcom_Batches.thy ===== *)
theory Marcom_Batches
  imports Marcom_Removal Marcom_Zip Marcom_Cells
begin

text \<open>
  The MARCOM upload service (\<open>marcom/service.ts\<close>): a validated file is staged, a commit writes it as one
  batch in a transaction under the write lock, and a batch can be rolled back (the latest one) or removed
  (any successful one). Each operation returns its outcome and the new database; a failed transaction
  leaves the database as it was, apart from the FAILED batch row an unexpected commit error records.
  The parser run (a worker with a timeout, on a file the spreadsheet library loads), the hash and the
  check that a brand name fits its column are the fields of \<open>mk_service\<close>; the outcome of \<open>GET_LOCK\<close> and the
  clock are arguments. Identifiers an aborted transaction consumed are not skipped.
\<close>

section \<open>The database\<close>

record parse_options =
  po_knownBrands :: "string list option"
  po_groupBrands :: "string list option"
  po_knownCategories :: "string list option"
  po_knownCampaigns :: "string list option"

record mk_service =
  sv_env :: mk_env
  sv_parse :: "bytes \<Rightarrow> string \<Rightarrow> parse_options \<Rightarrow> marcom_error + parse_result"
  sv_sha :: "bytes \<Rightarrow> string"
  sv_brand_fits :: "string \<Rightarrow> bool"

datatype batch_status = B_success | B_failed | B_rolled_back | B_removed

record mk_period =
  pd_from :: string
  pd_to :: string
  pd_label :: string

record table_count =
  tc_id :: table_id
  tc_label :: string
  tc_inserted :: nat
  tc_updated :: nat
  tc_unchanged :: nat

record mk_summary =
  sm_templateVersion :: string
  sm_changed :: bool
  sm_inserted :: nat
  sm_updated :: nat
  sm_unchanged :: nat
  sm_examples :: nat
  sm_tables :: "table_count list"
  sm_period :: "mk_period option"
  sm_newBrands :: "string list"
  sm_warnings :: "issue list"

record mk_batch =
  mb_id :: nat
  mb_filename :: string
  mb_hash :: string
  mb_version :: string
  mb_uploaded_by :: nat
  mb_uploaded_at :: int
  mb_status :: batch_status
  mb_summary :: "mk_summary option"
  mb_period :: "(string \<times> string) option"
  mb_file :: "bytes option"
  mb_rolled_back :: "(nat \<times> int \<times> string) option"
  mb_removed :: "(nat \<times> int \<times> string) option"
  mb_failed :: bool

record mk_staged =
  st_id :: string
  st_user :: nat
  st_filename :: string
  st_hash :: string
  st_size :: nat
  st_issues :: "issue list"
  st_expires :: int
  st_consumed :: "int option"

record mk_db =
  kd_rows :: "table_id \<Rightarrow> mk_row list"
  kd_next :: "table_id \<Rightarrow> nat"
  kd_brands :: "mk_brand list"
  kd_next_brand :: nat
  kd_categories :: "mk_category list"
  kd_batches :: "mk_batch list"
  kd_next_batch :: nat
  kd_staged :: "mk_staged list"
  kd_files :: "(string \<times> bytes) list"

section \<open>Reading a parse\<close>

definition num_of :: "string \<Rightarrow> nat" where
  "num_of s = dec_val s"

text \<open>\<open>periodLabel\<close>, on two \<open>YYYY-MM\<close> months.\<close>

definition month_part :: "string \<Rightarrow> string" where
  "month_part ym = MONTHS ! (num_of (split_on (CHR ''-'') ym ! 1) - 1)"

definition year_part :: "string \<Rightarrow> string" where
  "year_part ym = dec_digits (num_of (split_on (CHR ''-'') ym ! 0))"

definition periodLabel :: "string \<Rightarrow> string \<Rightarrow> string" where
  "periodLabel f t =
     (if f = t then month_part f @ '' '' @ year_part f
      else if year_part f = year_part t then month_part f @ '' to '' @ month_part t @ '' '' @ year_part t
      else month_part f @ '' '' @ year_part f @ '' to '' @ month_part t @ '' '' @ year_part t)"

definition row_month :: "parsed_row \<Rightarrow> string option" where
  "row_month r =
     (let y = dat (pr_data r) ''year''; m = dat (pr_data r) ''month'' in
      if truthy y \<and> truthy m then Some (to_string y @ ''-'' @ pad_start2 (to_string m)) else None)"

definition date_month :: "jsval \<Rightarrow> string option" where
  "date_month v = (case v of JStr s \<Rightarrow> if 7 \<le> length s then Some (take 7 s) else None | _ \<Rightarrow> None)"

definition file_months :: "parse_result \<Rightarrow> string list" where
  "file_months p =
     (let ym = concat (map (\<lambda>t. List.map_filter row_month (tr_rows (pp_tables p t))) [T_spend, T_other, T_social, T_web, T_trade])
      in if ym \<noteq> [] then ym
         else concat (map (\<lambda>r. List.map_filter date_month [dat (pr_data r) ''startDate'', dat (pr_data r) ''endDate''])
                       (tr_rows (pp_tables p T_campaigns)))
            @ List.map_filter (\<lambda>r. date_month (dat (pr_data r) ''plannedDate'')) (tr_rows (pp_tables p T_events)))"

definition computePeriod :: "parse_result \<Rightarrow> mk_period option" where
  "computePeriod p =
     (let ym = sort (file_months p) in
      if ym = [] then None
      else Some \<lparr>pd_from = hd ym, pd_to = last ym, pd_label = periodLabel (hd ym) (last ym)\<rparr>)"

definition new_brand_step :: "string list \<Rightarrow> jsval \<Rightarrow> (string \<times> string) list \<Rightarrow> (string \<times> string) list" where
  "new_brand_step have b out =
     (case b of
        JStr s \<Rightarrow> if to_lower s \<in> set have \<or> to_lower s \<in> fst ` set out then out else out @ [(to_lower s, s)]
      | _ \<Rightarrow> out)"

definition file_brands :: "parse_result \<Rightarrow> jsval list" where
  "file_brands p = concat (map (\<lambda>t. map (\<lambda>r. dat (pr_data r) ''brand'') (tr_rows (pp_tables p t))) BRAND_TABLES)"

definition newBrandsOf :: "parse_result \<Rightarrow> string list \<Rightarrow> string list" where
  "newBrandsOf p known = map snd (fold (new_brand_step (map to_lower known)) (file_brands p) [])"

section \<open>What is known and what would change\<close>

definition table_data :: "mk_db \<Rightarrow> table_id \<Rightarrow> current_row list" where
  "table_data db t = currentRows (kd_brands db) (kd_categories db) (adapter_of t) (kd_rows db t)"

definition loadKnown :: "mk_db \<Rightarrow> parse_options" where
  "loadKnown db =
     \<lparr>po_knownBrands = Some (map kb_name (kd_brands db)),
      po_groupBrands = Some (map kb_name (filter kb_group (kd_brands db))),
      po_knownCategories =
        Some (map kc_name (sort_key (\<lambda>c. (kc_name c)) (sort_key kc_sort (filter kc_active (kd_categories db))))),
      po_knownCampaigns =
        Some (map (\<lambda>r. to_string (dat (kr_cols r) ''name'')) (filter kr_current (kd_rows db T_campaigns)))\<rparr>"

definition diffAll :: "mk_db \<Rightarrow> parse_result \<Rightarrow> table_id \<Rightarrow> table_diff" where
  "diffAll db p t =
     diffTable (adapter_of t) (tr_rows (pp_tables p t)) (table_data db t) (invalid_rows p t)"

section \<open>Staged uploads\<close>

definition staged_file :: "mk_db \<Rightarrow> string \<Rightarrow> bytes option" where
  "staged_file db i = map_of (kd_files db) i"

definition removeStagedFile :: "string \<Rightarrow> mk_db \<Rightarrow> mk_db" where
  "removeStagedFile i db = db\<lparr>kd_files := filter (\<lambda>f. fst f \<noteq> i) (kd_files db)\<rparr>"

definition loadStaged :: "mk_db \<Rightarrow> int \<Rightarrow> string \<Rightarrow> nat \<Rightarrow> marcom_error + mk_staged" where
  "loadStaged db now i actor =
     (case List.find (\<lambda>s. st_id s = i) (kd_staged db) of
        None \<Rightarrow> Inl (Marcom 404 ''STAGED_NOT_FOUND'')
      | Some s \<Rightarrow>
          if st_user s \<noteq> actor then Inl (Marcom 403 ''STAGED_FORBIDDEN'')
          else if st_consumed s \<noteq> None then Inl (Marcom 409 ''STAGED_CONSUMED'')
          else if st_expires s \<le> now then Inl (Marcom 410 ''STAGED_EXPIRED'')
          else Inr s)"

section \<open>Commit\<close>

definition insert_brand :: "mk_service \<Rightarrow> nat \<Rightarrow> string \<Rightarrow> mk_db \<Rightarrow> marcom_error + mk_db" where
  "insert_brand svc B n db =
     (if sv_brand_fits svc n \<and> \<not> list_ex (\<lambda>b. me_ci (sv_env svc) (kb_name b) = me_ci (sv_env svc) n) (kd_brands db)
      then Inr (db\<lparr>kd_brands := kd_brands db @
                    [\<lparr>kb_id = kd_next_brand db, kb_name = n, kb_created = Some B, kb_group = False, kb_company = None\<rparr>],
                   kd_next_brand := kd_next_brand db + 1\<rparr>)
      else Inl Unexpected)"

definition write_table :: "mk_service \<Rightarrow> nat \<Rightarrow> (table_id \<Rightarrow> table_diff) \<Rightarrow> table_id \<Rightarrow> mk_db \<Rightarrow> marcom_error + mk_db" where
  "write_table svc B diff t db =
     rbind (write_diff (sv_env svc) (kd_brands db) (kd_categories db) (adapter_of t) B (diff t) (kd_next db t, kd_rows db t))
       (\<lambda>(n, rs). Inr (db\<lparr>kd_next := (kd_next db)(t := n), kd_rows := (kd_rows db)(t := rs)\<rparr>))"

definition count_of :: "(table_id \<Rightarrow> table_diff) \<Rightarrow> table_id \<Rightarrow> table_count" where
  "count_of diff t =
     \<lparr>tc_id = t, tc_label = TABLE_LABELS t, tc_inserted = length (df_inserts (diff t)),
      tc_updated = length (df_updates (diff t)), tc_unchanged = length (df_unchanged (diff t))\<rparr>"

definition summary_of :: "parse_result \<Rightarrow> (table_id \<Rightarrow> table_diff) \<Rightarrow> string list \<Rightarrow> mk_summary" where
  "summary_of p diff newBrands =
     (let ts = map (count_of diff) table_ids; i = sum_list (map tc_inserted ts); u = sum_list (map tc_updated ts)
      in \<lparr>sm_templateVersion = pp_templateVersion p, sm_changed = (i + u > 0),
          sm_inserted = i, sm_updated = u, sm_unchanged = sum_list (map tc_unchanged ts),
          sm_examples = pp_exampleRowsSkipped p, sm_tables = ts, sm_period = computePeriod p,
          sm_newBrands = newBrands,
          sm_warnings = take 500 (filter (\<lambda>i. iss_severity i = Sev_warning) (pp_issues p))\<rparr>)"

text \<open>The INSERT of the batch row, completed by the UPDATE of its summary.\<close>

definition new_batch :: "mk_db \<Rightarrow> mk_staged \<Rightarrow> nat \<Rightarrow> int \<Rightarrow> bytes \<Rightarrow> mk_summary \<Rightarrow> mk_batch" where
  "new_batch db s actor now file sm =
     \<lparr>mb_id = kd_next_batch db, mb_filename = st_filename s, mb_hash = st_hash s, mb_version = TEMPLATE_VERSION,
      mb_uploaded_by = actor, mb_uploaded_at = now, mb_status = B_success, mb_summary = Some sm,
      mb_period = map_option (\<lambda>p. (pd_from p @ ''-01'', pd_to p @ ''-01'')) (sm_period sm), mb_file = Some file,
      mb_rolled_back = None, mb_removed = None, mb_failed = False\<rparr>"

definition failed_batch :: "mk_db \<Rightarrow> mk_staged \<Rightarrow> nat \<Rightarrow> int \<Rightarrow> mk_batch" where
  "failed_batch db s actor now =
     \<lparr>mb_id = kd_next_batch db, mb_filename = st_filename s, mb_hash = st_hash s, mb_version = TEMPLATE_VERSION,
      mb_uploaded_by = actor, mb_uploaded_at = now, mb_status = B_failed, mb_summary = None, mb_period = None,
      mb_file = None, mb_rolled_back = None, mb_removed = None, mb_failed = True\<rparr>"

definition add_batch :: "mk_batch \<Rightarrow> mk_db \<Rightarrow> mk_db" where
  "add_batch b db = db\<lparr>kd_batches := kd_batches db @ [b], kd_next_batch := kd_next_batch db + 1\<rparr>"

definition consume :: "string \<Rightarrow> int \<Rightarrow> mk_db \<Rightarrow> mk_db" where
  "consume i now db = db\<lparr>kd_staged := update_where (\<lambda>s. st_id s = i) (\<lambda>s. s\<lparr>st_consumed := Some now\<rparr>) (kd_staged db)\<rparr>"

text \<open>The rows and brands a parse writes as batch \<open>B\<close>.\<close>

definition write_batch :: "mk_service \<Rightarrow> nat \<Rightarrow> parse_result \<Rightarrow> mk_db \<Rightarrow> marcom_error + mk_db" where
  "write_batch svc B p db =
     rbind (rfold (insert_brand svc B) (newBrandsOf p (map kb_name (kd_brands db))) db)
       (rfold (write_table svc B (diffAll db p)) table_ids)"

definition commit_tx :: "mk_service \<Rightarrow> mk_db \<Rightarrow> int \<Rightarrow> string \<Rightarrow> nat \<Rightarrow> bool \<Rightarrow> bytes \<Rightarrow> marcom_error + (nat \<times> mk_summary) \<times> mk_db" where
  "commit_tx svc db now i actor confirm file =
     rbind (loadStaged db now i actor) (\<lambda>s.
     rbind (sv_parse svc file (st_filename s) (loadKnown db)) (\<lambda>p.
     rbind (ensure (errors_of p = []) (Marcom 422 ''BLOCKING_ERRORS'')) (\<lambda>_.
       (let newBrands = newBrandsOf p (map kb_name (kd_brands db));
            sm = summary_of p (diffAll db p) newBrands; B = kd_next_batch db
        in rbind (ensure (newBrands = [] \<or> confirm) (Marcom 409 ''NEW_BRANDS_UNCONFIRMED'')) (\<lambda>_.
           rbind (write_batch svc B p db) (\<lambda>db1.
             Inr ((B, sm), consume i now (add_batch (new_batch db s actor now file sm) db1))))))))"

definition commitUpload ::
  "mk_service \<Rightarrow> mk_db \<Rightarrow> bool \<Rightarrow> int \<Rightarrow> string \<Rightarrow> nat \<Rightarrow> bool \<Rightarrow> (marcom_error + nat \<times> mk_summary) \<times> mk_db" where
  "commitUpload svc db locked now i actor confirm =
     (case loadStaged db now i actor of
        Inl e \<Rightarrow> (Inl e, db)
      | Inr s \<Rightarrow>
          (case staged_file db i of
             None \<Rightarrow> (Inl (Marcom 410 ''STAGED_EXPIRED''), db)
           | Some file \<Rightarrow>
               if sv_sha svc file \<noteq> st_hash s then (Inl (Marcom 409 ''FILE_CHANGED''), db)
               else if \<not> locked then (Inl (Marcom 503 ''BUSY''), db)
               else (case commit_tx svc db now i actor confirm file of
                       Inr (r, db1) \<Rightarrow> (Inr r, removeStagedFile i db1)
                     | Inl Unexpected \<Rightarrow> (Inl Unexpected, add_batch (failed_batch db s actor now) db)
                     | Inl e \<Rightarrow> (Inl e, db))))"

section \<open>Rollback and removal\<close>

definition cleanReason :: "jsval \<Rightarrow> marcom_error + string" where
  "cleanReason raw =
     (let reason = take 500 (sanitizeText (str_or_empty raw)) in
      if length reason < 3 then Inl (Marcom 400 ''REASON_REQUIRED'') else Inr reason)"

definition find_batch :: "mk_db \<Rightarrow> nat \<Rightarrow> mk_batch option" where
  "find_batch db B = List.find (\<lambda>b. mb_id b = B) (kd_batches db)"

definition latestSuccessId :: "mk_db \<Rightarrow> nat option" where
  "latestSuccessId db =
     (let ids = map mb_id (filter (\<lambda>b. mb_status b = B_success) (kd_batches db))
      in if ids = [] then None else Some (Max (set ids)))"

text \<open>
  The natural keys in the files of the later successful batches that restated rows unchanged. A file written
  for an older template is a structure error of the parser.
\<close>

definition later_file_keys :: "mk_service \<Rightarrow> mk_db \<Rightarrow> mk_batch \<Rightarrow> marcom_error + nat \<times> (table_id \<Rightarrow> string list)" where
  "later_file_keys svc db b =
     (case mb_file b of
        None \<Rightarrow> Inl (Marcom 409 ''LATER_FILE_MISSING'')
      | Some file \<Rightarrow>
          (case sv_parse svc file (mb_filename b)
                  \<lparr>po_knownBrands = None, po_groupBrands = None,
                   po_knownCategories = po_knownCategories (loadKnown db), po_knownCampaigns = None\<rparr> of
             Inr p \<Rightarrow> Inr (mb_id b, \<lambda>t. map (\<lambda>r. keyOf (adapter_of t) (pr_data r)) (tr_rows (pp_tables p t)))
           | Inl (Structure ps) \<Rightarrow> Inl (Marcom 409 ''LATER_FILE_OLD_TEMPLATE'')
           | Inl e \<Rightarrow> Inl e))"

definition kept_unchanged :: "mk_batch \<Rightarrow> bool" where
  "kept_unchanged b = (case mb_summary b of None \<Rightarrow> False | Some sm \<Rightarrow> sm_unchanged sm > 0)"

definition laterBatchKeys :: "mk_service \<Rightarrow> mk_db \<Rightarrow> nat \<Rightarrow> marcom_error + later_keys" where
  "laterBatchKeys svc db B =
     rmap (later_file_keys svc db)
       (filter kept_unchanged
         (sort_key mb_id (filter (\<lambda>b. B < mb_id b \<and> mb_status b = B_success) (kd_batches db))))"

definition set_batch :: "nat \<Rightarrow> (mk_batch \<Rightarrow> mk_batch) \<Rightarrow> mk_db \<Rightarrow> mk_db" where
  "set_batch B f db = db\<lparr>kd_batches := update_where (\<lambda>b. mb_id b = B) f (kd_batches db)\<rparr>"

definition remove_rows :: "mk_service \<Rightarrow> nat \<Rightarrow> later_keys \<Rightarrow> mk_db \<Rightarrow> marcom_error + removal_plan \<times> mk_db" where
  "remove_rows svc B lk db =
     (let plan = planRemoval (kd_brands db) (kd_categories db) (kd_rows db) B lk in
      rbind (applyRemoval (sv_env svc) plan (kd_rows db, kd_brands db)) (\<lambda>(rows, bs).
        Inr (plan, db\<lparr>kd_rows := rows, kd_brands := bs\<rparr>)))"

definition removeWithin ::
  "mk_service \<Rightarrow> mk_db \<Rightarrow> bool \<Rightarrow> nat \<Rightarrow> (mk_batch \<Rightarrow> marcom_error + unit) \<Rightarrow> (mk_batch \<Rightarrow> mk_batch) \<Rightarrow>
   marcom_error + later_keys \<Rightarrow> (marcom_error + removal_plan) \<times> mk_db" where
  "removeWithin svc db locked B check finish laterKeys =
     (if \<not> locked then (Inl (Marcom 503 ''BUSY''), db)
      else case find_batch db B of
        None \<Rightarrow> (Inl (Marcom 404 ''BATCH_NOT_FOUND''), db)
      | Some b \<Rightarrow>
          (case rbind (check b) (\<lambda>_. rbind laterKeys (\<lambda>lk. remove_rows svc B lk db)) of
             Inl e \<Rightarrow> (Inl e, db)
           | Inr (plan, db1) \<Rightarrow> (Inr plan, set_batch B finish db1)))"

definition rollback_check :: "mk_db \<Rightarrow> nat \<Rightarrow> mk_batch \<Rightarrow> marcom_error + unit" where
  "rollback_check db B b =
     (if mb_status b \<noteq> B_success then Inl (Marcom 409 ''NOT_ROLLBACKABLE'')
      else if latestSuccessId db \<noteq> Some B then Inl (Marcom 409 ''NOT_LATEST'')
      else Inr ())"

definition rollbackBatch ::
  "mk_service \<Rightarrow> mk_db \<Rightarrow> bool \<Rightarrow> int \<Rightarrow> nat \<Rightarrow> nat \<Rightarrow> jsval \<Rightarrow> (marcom_error + nat) \<times> mk_db" where
  "rollbackBatch svc db locked now B actor raw =
     (case cleanReason raw of
        Inl e \<Rightarrow> (Inl e, db)
      | Inr reason \<Rightarrow>
          (case removeWithin svc db locked B (rollback_check db B)
                  (\<lambda>b. b\<lparr>mb_status := B_rolled_back, mb_rolled_back := Some (actor, now, reason)\<rparr>) (Inr []) of
             (Inl e, db1) \<Rightarrow> (Inl e, db1)
           | (Inr plan, db1) \<Rightarrow> (Inr B, db1)))"

definition notRemovable :: "batch_status \<Rightarrow> bool" where
  "notRemovable st \<longleftrightarrow> st \<noteq> B_success"

definition removeBatch ::
  "mk_service \<Rightarrow> mk_db \<Rightarrow> bool \<Rightarrow> int \<Rightarrow> nat \<Rightarrow> nat \<Rightarrow> jsval \<Rightarrow> (marcom_error + removal_plan) \<times> mk_db" where
  "removeBatch svc db locked now B actor raw =
     (case cleanReason raw of
        Inl e \<Rightarrow> (Inl e, db)
      | Inr reason \<Rightarrow>
          removeWithin svc db locked B
            (\<lambda>b. if notRemovable (mb_status b) then Inl (Marcom 409 ''NOT_REMOVABLE'') else Inr ())
            (\<lambda>b. b\<lparr>mb_status := B_removed, mb_removed := Some (actor, now, reason)\<rparr>)
            (laterBatchKeys svc db B))"

end
