(* ===== verification/Marcom_Parser.thy ===== *)
theory Marcom_Parser
  imports Marcom_Batches
begin

text \<open>
  The MARCOM workbook parser (\<open>marcom/parser.ts\<close>): the tables of the template are located on their
  sheets, every row is read, its cells coerced and checked, example and pre-filled rows skipped, duplicate
  natural keys reported, and the checks across rows and tables run. A workbook is what the spreadsheet
  library loads: its sheets with their cell values and the colours of their pattern fills (\<open>xl_load\<close>); an
  issue keeps its severity, place and code, its message is left out.
  Reading a row of a sheet may extend the library's \<open>rowCount\<close>; the rows it adds are blank and never
  score as a header, so the count of the loaded sheet is used throughout.
\<close>

section \<open>The spreadsheet library\<close>

record worksheet =
  wk_name :: string
  wk_rowCount :: nat
  wk_value :: "nat \<Rightarrow> nat \<Rightarrow> xl"
  wk_fill :: "nat \<Rightarrow> nat \<Rightarrow> string option"

record xlsx_lib =
  xl_load :: "bytes \<Rightarrow> worksheet list option"
  xl_date :: "int option \<Rightarrow> string"

text \<open>\<open>isExampleFill\<close>: the foreground of a pattern fill ends in the example colour.\<close>

definition isExampleFill :: "worksheet \<Rightarrow> nat \<Rightarrow> nat \<Rightarrow> bool" where
  "isExampleFill ws r c =
     (case wk_fill ws r c of None \<Rightarrow> False | Some argb \<Rightarrow> argb \<noteq> [] \<and> ends_with EXAMPLE_FILL (to_upper argb))"

section \<open>Numbers of a row\<close>

fun num_less :: "jsnum \<Rightarrow> jsnum \<Rightarrow> bool" where
  "num_less (Fin a) (Fin b) = (a < b)"
| "num_less NegInf (Fin b) = True"
| "num_less NegInf PosInf = True"
| "num_less (Fin a) PosInf = True"
| "num_less _ _ = False"

fun num_add :: "jsnum \<Rightarrow> jsnum \<Rightarrow> jsnum" where
  "num_add (Fin a) (Fin b) = Fin (a + b)"
| "num_add NaN b = NaN"
| "num_add a NaN = NaN"
| "num_add (Fin a) b = b"
| "num_add a (Fin b) = a"
| "num_add PosInf PosInf = PosInf"
| "num_add NegInf NegInf = NegInf"
| "num_add _ _ = NaN"

text \<open>The strict equality of two numbers, and \<open>Number(x) > Number(y)\<close> on two fields.\<close>

definition num_same :: "jsnum \<Rightarrow> jsnum \<Rightarrow> bool" where
  "num_same a b \<longleftrightarrow> a \<noteq> NaN \<and> a = b"

definition field_num :: "row_data \<Rightarrow> string \<Rightarrow> jsnum" where
  "field_num d f = to_number (dat d f)"

definition exceeds :: "row_data \<Rightarrow> string \<Rightarrow> string \<Rightarrow> bool" where
  "exceeds d f g \<longleftrightarrow> num_less (field_num d g) (field_num d f)"

text \<open>A field that holds a number, \<open>typeof d[f] === 'number'\<close>.\<close>

definition number_field :: "row_data \<Rightarrow> string \<Rightarrow> jsnum option" where
  "number_field d f = (case dat d f of JNum n \<Rightarrow> Some n | _ \<Rightarrow> None)"

definition more_than :: "row_data \<Rightarrow> string \<Rightarrow> string \<Rightarrow> bool" where
  "more_than d f g =
     (case (number_field d f, number_field d g) of (Some a, Some b) \<Rightarrow> num_less b a | _ \<Rightarrow> False)"

section \<open>The shipped example rows\<close>

text \<open>The text of the P1b example holds the code unit U+2013, which no string of the model equals.\<close>

fun EXAMPLES :: "table_id \<Rightarrow> row_data \<Rightarrow> bool" where
  "EXAMPLES T_spend d =
     (dat d ''year'' = num 2026 \<and> dat d ''month'' = num 9 \<and> dat d ''brand'' = JStr ''Xtreme''
      \<and> dat d ''brandRevenueCurrent'' = num 3000000 \<and> dat d ''revenueAttributed'' = num 450000)"
| "EXAMPLES T_other d = False"
| "EXAMPLES T_campaigns d =
     (dat d ''name'' = JStr ''Ramadan Lighting Campaign'' \<and> dat d ''spend'' = num 120000
      \<and> dat d ''revenueAttributed'' = num 650000)"
| "EXAMPLES T_media d =
     (dat d ''campaignName'' = JStr ''Ramadan Lighting Campaign'' \<and> dat d ''mediaType'' = JStr ''1-Street Lights''
      \<and> dat d ''city'' = JStr ''Tripoli'' \<and> dat d ''units'' = num 45 \<and> dat d ''cost'' = num 30000)"
| "EXAMPLES T_social d =
     (dat d ''year'' = num 2026 \<and> dat d ''month'' = num 9 \<and> dat d ''brand'' = JStr ''Xtreme''
      \<and> dat d ''platform'' = JStr ''Instagram'' \<and> dat d ''followers'' = num 52000 \<and> dat d ''impressions'' = num 180000)"
| "EXAMPLES T_web d =
     (dat d ''year'' = num 2026 \<and> dat d ''month'' = num 9 \<and> dat d ''brand'' = JStr ''Xtreme''
      \<and> dat d ''bounceVisitors'' = num 3400 \<and> dat d ''totalVisitors'' = num 12000)"
| "EXAMPLES T_trade d =
     (dat d ''year'' = num 2026 \<and> dat d ''month'' = num 8 \<and> dat d ''compliancePct'' = num (94 / 100))"
| "EXAMPLES T_events d = (dat d ''name'' = JStr ''Product Launch Night - Brand A'')"

section \<open>Checks within a row\<close>

text \<open>The soft warnings of a row: the field they point at and their code.\<close>

fun CROSS_CHECKS :: "table_id \<Rightarrow> row_data \<Rightarrow> (string \<times> string) list" where
  "CROSS_CHECKS T_spend d =
     (if dat d ''budget'' = num 0 then [(''budget'', ''ZERO_BUDGET'')] else []) @
     (if dat d ''brandRevenueCurrent'' \<noteq> JNull \<and> dat d ''companyRevenueTotal'' \<noteq> JNull
         \<and> num_same (field_num d ''brandRevenueCurrent'') (field_num d ''companyRevenueTotal'')
         \<and> num_less (Fin 0) (field_num d ''brandRevenueCurrent'')
      then [(''brandRevenueCurrent'', ''BRAND_REVENUE_EQUALS_COMPANY'')] else [])"
| "CROSS_CHECKS T_other d = (if dat d ''amount'' = num 0 then [(''amount'', ''ZERO_AMOUNT'')] else [])"
| "CROSS_CHECKS T_social d =
     (if exceeds d ''clicks'' ''impressions'' then [(''clicks'', ''CLICKS_GT_IMPRESSIONS'')] else []) @
     (if num_less (field_num d ''impressions'')
           (num_add (field_num d ''engagementPaid'') (field_num d ''engagementOrganic''))
      then [(''engagementPaid'', ''ENGAGEMENT_GT_IMPRESSIONS'')] else [])"
| "CROSS_CHECKS T_web d =
     (if exceeds d ''bounceVisitors'' ''totalVisitors'' then [(''bounceVisitors'', ''BOUNCE_GT_VISITORS'')] else [])"
| "CROSS_CHECKS T_trade d =
     (if exceeds d ''attendeesActual'' ''attendeesExpected'' then [(''attendeesActual'', ''ATTENDANCE_GT_EXPECTED'')]
      else [])"
| "CROSS_CHECKS _ d = []"

text \<open>A column is found by its field; \<open>cellOf\<close> is applied to fields of the table only.\<close>

definition col_of :: "table_spec \<Rightarrow> string \<Rightarrow> nat" where
  "col_of spec f = (case List.find (\<lambda>c. cs_field c = f) (ts_cols spec) of None \<Rightarrow> 0 | Some c \<Rightarrow> cs_col c)"

definition cellOf :: "table_spec \<Rightarrow> string \<Rightarrow> nat \<Rightarrow> string" where
  "cellOf spec f r = colLetter (col_of spec f) @ dec_digits r"

definition issue_at :: "table_spec \<Rightarrow> severity \<Rightarrow> string \<Rightarrow> string \<Rightarrow> issue" where
  "issue_at spec sev cell code =
     \<lparr>iss_severity = sev, iss_sheet = ts_sheet spec, iss_table = Some (ts_id spec), iss_cell = cell, iss_code = code\<rparr>"

definition REVENUE_FIELDS :: "string list" where
  "REVENUE_FIELDS = [''brandRevenueCurrent'', ''brandRevenueLy'', ''revenueAttributed'']"

definition is_group :: "row_data \<Rightarrow> string list \<Rightarrow> bool" where
  "is_group d groups = (case dat d ''brand'' of JStr b \<Rightarrow> to_lower b \<in> set groups | _ \<Rightarrow> False)"

definition spendRevenueIssues :: "table_spec \<Rightarrow> nat \<Rightarrow> row_data \<Rightarrow> string list \<Rightarrow> issue list" where
  "spendRevenueIssues spec r d groups =
     (let err = (\<lambda>f code. issue_at spec Sev_error (cellOf spec f r) code) in
      (if is_group d groups then []
       else map (\<lambda>f. err f ''REQUIRED_MISSING'') (filter (\<lambda>f. dat d f = JNull) REVENUE_FIELDS)) @
      (if more_than d ''revenueAttributed'' ''brandRevenueCurrent''
       then [err ''revenueAttributed'' ''ATTRIBUTED_GT_BRAND_REVENUE''] else []) @
      (if more_than d ''brandRevenueCurrent'' ''companyRevenueTotal''
       then [err ''brandRevenueCurrent'' ''BRAND_REVENUE_GT_COMPANY''] else []))"

text \<open>\<open>d[f] < d[g]\<close> on two fields that hold text, compared code unit by code unit.\<close>

definition text_before :: "row_data \<Rightarrow> string \<Rightarrow> string \<Rightarrow> bool" where
  "text_before d f g = (case (dat d f, dat d g) of (JStr a, JStr b) \<Rightarrow> a < b | _ \<Rightarrow> False)"

definition date_issues :: "table_spec \<Rightarrow> nat \<Rightarrow> row_data \<Rightarrow> issue list" where
  "date_issues spec r d =
     (if ts_id spec = T_campaigns \<and> text_before d ''endDate'' ''startDate''
      then [issue_at spec Sev_error (CHR ''D'' # dec_digits r) ''END_BEFORE_START''] else []) @
     (if ts_id spec = T_events \<and> text_before d ''completionDate'' ''plannedDate''
      then [issue_at spec Sev_warning (CHR ''E'' # dec_digits r) ''COMPLETION_BEFORE_PLANNED''] else [])"

definition cross_issues :: "table_spec \<Rightarrow> nat \<Rightarrow> row_data \<Rightarrow> issue list" where
  "cross_issues spec r d =
     map (\<lambda>(f, code). issue_at spec Sev_warning (cellOf spec f r) code) (CROSS_CHECKS (ts_id spec) d)"

section \<open>Reading a row\<close>

record parse_ctx =
  cx_date :: "int option \<Rightarrow> string"
  cx_known :: "string list option"
  cx_groups :: "string list"
  cx_categories :: "string list"
  cx_includeExamples :: bool

definition raw_at :: "parse_ctx \<Rightarrow> worksheet \<Rightarrow> nat \<Rightarrow> col_spec \<Rightarrow> raw_cell" where
  "raw_at cx ws r c = readCell (cx_date cx) (wk_value ws r (cs_col c))"

definition cell_ref :: "col_spec \<Rightarrow> nat \<Rightarrow> string" where
  "cell_ref c r = colLetter (cs_col c) @ dec_digits r"

text \<open>What a cell is reported for whether its row counts or not.\<close>

definition cell_issues :: "parse_ctx \<Rightarrow> table_spec \<Rightarrow> worksheet \<Rightarrow> nat \<Rightarrow> issue list" where
  "cell_issues cx spec ws r =
     concat (map (\<lambda>c. let rc = raw_at cx ws r c in
         (if rc_formulaNoResult rc then [issue_at spec Sev_warning (cell_ref c r) ''FORMULA_NO_VALUE''] else []) @
         (if rc_isErrorValue rc then [issue_at spec Sev_error (cell_ref c r) ''EXCEL_ERROR_VALUE''] else []))
       (ts_cols spec))"

definition row_empty :: "parse_ctx \<Rightarrow> table_spec \<Rightarrow> worksheet \<Rightarrow> nat \<Rightarrow> bool" where
  "row_empty cx spec ws r =
     (let filled = filter (\<lambda>c. rc_value (raw_at cx ws r c) \<noteq> X_null) (ts_cols spec);
          typed = (case ts_prefillFields spec of None \<Rightarrow> True
                   | Some prefill \<Rightarrow> list_ex (\<lambda>c. cs_field c \<notin> set prefill) filled)
      in filled = [] \<or> \<not> typed)"

record row_read =
  rd_data :: row_data
  rd_issues :: "issue list"
  rd_seen :: "string list"

definition cell_issue_at :: "table_spec \<Rightarrow> string \<Rightarrow> cell_issue \<Rightarrow> issue list" where
  "cell_issue_at spec cell i =
     (case i of No_issue \<Rightarrow> []
      | Cell_error code \<Rightarrow> [issue_at spec Sev_error cell code]
      | Cell_warning code \<Rightarrow> [issue_at spec Sev_warning cell code])"

definition coerce_cell :: "parse_ctx \<Rightarrow> table_spec \<Rightarrow> worksheet \<Rightarrow> nat \<Rightarrow> col_spec \<Rightarrow> row_read \<Rightarrow> row_read" where
  "coerce_cell cx spec ws r c rd =
     (let rc = raw_at cx ws r c in
      if rc_value rc = X_null
      then rd\<lparr>rd_data := rd_data rd @ [(cs_field c, JNull)],
              rd_issues := rd_issues rd @
                (if cs_required c \<and> \<not> rc_isErrorValue rc
                 then [issue_at spec Sev_error (cell_ref c r) ''REQUIRED_MISSING''] else [])\<rparr>
      else (case coerce (cx_date cx) c (rc_value rc) (cx_known cx) (rd_seen rd) (cx_categories cx) of
              (out, seen) \<Rightarrow>
                \<lparr>rd_data = rd_data rd @ [(cs_field c, co_value out)],
                 rd_issues = rd_issues rd @ cell_issue_at spec (cell_ref c r) (co_issue out), rd_seen = seen\<rparr>))"

definition read_cells :: "parse_ctx \<Rightarrow> table_spec \<Rightarrow> worksheet \<Rightarrow> nat \<Rightarrow> string list \<Rightarrow> row_read" where
  "read_cells cx spec ws r seen =
     fold (coerce_cell cx spec ws r) (ts_cols spec) \<lparr>rd_data = [], rd_issues = [], rd_seen = seen\<rparr>"

definition row_key :: "table_spec \<Rightarrow> row_data \<Rightarrow> string" where
  "row_key spec d =
     join_with ''|'' (map (\<lambda>f. to_lower (if nullish (dat d f) then [] else to_string (dat d f))) (ts_keyFields spec))"

definition has_key :: "table_spec \<Rightarrow> row_data \<Rightarrow> bool" where
  "has_key spec d \<longleftrightarrow> list_all (\<lambda>f. dat d f \<noteq> JNull) (ts_keyFields spec)"

definition default_account :: "table_spec \<Rightarrow> row_data \<Rightarrow> row_data" where
  "default_account spec d =
     (if ts_id spec = T_social \<and> dat d ''accountName'' = JNull
      then map (\<lambda>(f, v). if f = ''accountName'' then (f, JStr []) else (f, v)) d else d)"

section \<open>Reading a table\<close>

record read_state =
  sx_issues :: "issue list"
  sx_brandSeen :: "string list"
  sx_rows :: "parsed_row list"
  sx_empty :: nat
  sx_examples :: nat
  sx_keys :: "(string \<times> nat) list"

definition row_issues ::
  "parse_ctx \<Rightarrow> table_spec \<Rightarrow> nat \<Rightarrow> bool \<Rightarrow> row_read \<Rightarrow> row_data \<Rightarrow> (string \<times> nat) list \<Rightarrow> issue list" where
  "row_issues cx spec r coloured rd d keys =
     rd_issues rd @
     (if coloured then [issue_at spec Sev_warning (CHR ''A'' # dec_digits r) ''EXAMPLE_COLOUR''] else []) @
     (if ts_id spec = T_spend then spendRevenueIssues spec r d (cx_groups cx) else []) @
     date_issues spec r d @ cross_issues spec r d @
     (if has_key spec d \<and> map_of keys (row_key spec d) \<noteq> None
      then [issue_at spec Sev_error (CHR ''A'' # dec_digits r) ''DUPLICATE_KEY''] else [])"

definition parse_row :: "parse_ctx \<Rightarrow> table_spec \<Rightarrow> worksheet \<Rightarrow> nat \<Rightarrow> read_state \<Rightarrow> read_state" where
  "parse_row cx spec ws r st0 =
     (let st = st0\<lparr>sx_issues := sx_issues st0 @ cell_issues cx spec ws r\<rparr> in
      if row_empty cx spec ws r then st\<lparr>sx_empty := sx_empty st + 1\<rparr>
      else
        let rd = read_cells cx spec ws r (sx_brandSeen st);
            green = list_ex (\<lambda>c. isExampleFill ws r (cs_col c)) (ts_cols spec);
            isExample = EXAMPLES (ts_id spec) (rd_data rd)
        in if green \<and> isExample \<and> \<not> cx_includeExamples cx
           then st\<lparr>sx_brandSeen := rd_seen rd, sx_examples := sx_examples st + 1\<rparr>
           else
             let d = default_account spec (rd_data rd); k = row_key spec d in
             st\<lparr>sx_issues := sx_issues st @ row_issues cx spec r (green \<and> \<not> isExample) rd d (sx_keys st),
                sx_brandSeen := rd_seen rd,
                sx_rows := sx_rows st @
                  [\<lparr>pr_table = ts_id spec, pr_sheet = ts_sheet spec, pr_rowNumber = r, pr_key = k, pr_data = d\<rparr>],
                sx_keys := (if has_key spec d \<and> map_of (sx_keys st) k = None then (k, r) # sx_keys st else sx_keys st)\<rparr>)"

record parse_state =
  pt_issues :: "issue list"
  pt_seen :: "string list"
  pt_tables :: "table_id \<Rightarrow> table_result"

definition parse_table ::
  "parse_ctx \<Rightarrow> (string \<Rightarrow> worksheet) \<Rightarrow> (table_id \<Rightarrow> nat) \<Rightarrow> table_spec \<Rightarrow> parse_state \<Rightarrow> parse_state" where
  "parse_table cx sheets located spec st =
     (let header = located (ts_id spec);
          s = fold (parse_row cx spec (sheets (ts_sheet spec)))
                [Suc header..<Suc (header + (ts_lastRow spec - ts_headerRow spec))]
                \<lparr>sx_issues = pt_issues st, sx_brandSeen = pt_seen st, sx_rows = [], sx_empty = 0, sx_examples = 0, sx_keys = []\<rparr>
      in \<lparr>pt_issues = sx_issues s, pt_seen = sx_brandSeen s,
          pt_tables = (pt_tables st)(ts_id spec :=
            \<lparr>tr_rows = sx_rows s, tr_emptyRows = sx_empty s, tr_exampleRowsSkipped = sx_examples s\<rparr>)\<rparr>)"

section \<open>Plausibility of the P1 figures\<close>

definition PLAUSIBILITY_FIELDS :: "string list" where
  "PLAUSIBILITY_FIELDS =
     [''brandRevenueCurrent'', ''brandRevenueLy'', ''revenueAttributed'', ''companyRevenueTotal'', ''budget'',
      ''financeBookedTotal'']"

definition OUTLIER_FACTOR :: rat where "OUTLIER_FACTOR = 5"

definition median :: "rat list \<Rightarrow> rat" where
  "median xs =
     (let v = sort xs; m = length v div 2 in if odd (length v) then v ! m else (v ! (m - 1) + v ! m) / 2)"

text \<open>The rows of each brand, in the order the brands appear; a row without a brand is left out.\<close>

definition add_to_brand :: "parsed_row \<Rightarrow> (string \<times> parsed_row list) list \<Rightarrow> (string \<times> parsed_row list) list" where
  "add_to_brand r by_brand =
     (case dat (pr_data r) ''brand'' of
        JStr b \<Rightarrow>
          if b = [] then by_brand
          else if to_lower b \<in> fst ` set by_brand
          then map (\<lambda>(k, rs). (k, if k = to_lower b then rs @ [r] else rs)) by_brand
          else by_brand @ [(to_lower b, [r])]
      | _ \<Rightarrow> by_brand)"

definition group_rows :: "parsed_row list \<Rightarrow> (string \<times> parsed_row list) list" where
  "group_rows rows = fold add_to_brand rows []"

text \<open>\<open>num(r, f)\<close>; the parser's numbers are finite.\<close>

definition money_of :: "string \<Rightarrow> parsed_row \<Rightarrow> rat option" where
  "money_of f r = (case dat (pr_data r) f of JNum (Fin v) \<Rightarrow> Some v | _ \<Rightarrow> None)"

definition month_key :: "parsed_row \<Rightarrow> string" where
  "month_key r = to_string (dat (pr_data r) ''year'') @ ''-'' @ to_string (dat (pr_data r) ''month'')"

definition outliers :: "string \<Rightarrow> parsed_row list \<Rightarrow> parsed_row list" where
  "outliers f rows =
     (let vals = filter (\<lambda>v. v > 0) (List.map_filter (money_of f) rows); med = median vals in
      if length vals < 3 then []
      else filter (\<lambda>r. case money_of f r of None \<Rightarrow> False | Some v \<Rightarrow> med > 0 \<and> v > OUTLIER_FACTOR * med) rows)"

text \<open>The rows of \<open>b\<close> whose month \<open>a\<close> has too, both with a value; a later row of a month replaces an earlier one.\<close>

definition month_map :: "string \<Rightarrow> parsed_row list \<Rightarrow> (string \<times> rat option) list" where
  "month_map f a = rev (map (\<lambda>r. (month_key r, money_of f r)) a)"

definition shared_months :: "string \<Rightarrow> parsed_row list \<Rightarrow> parsed_row list \<Rightarrow> parsed_row list" where
  "shared_months f a b =
     filter (\<lambda>r. money_of f r \<noteq> None \<and> (case map_of (month_map f a) (month_key r) of Some (Some v) \<Rightarrow> True | _ \<Rightarrow> False)) b"

definition copied :: "string \<Rightarrow> parsed_row list \<Rightarrow> parsed_row list \<Rightarrow> parsed_row option" where
  "copied f a b =
     (let shared = shared_months f a b in
      if 3 \<le> length shared
         \<and> list_all (\<lambda>r. Some (money_of f r) = map_of (month_map f a) (month_key r)) shared
         \<and> list_ex (\<lambda>r. money_of f r \<noteq> Some 0) shared
      then Some (hd shared) else None)"

fun copied_pairs :: "string \<Rightarrow> parsed_row list list \<Rightarrow> parsed_row list" where
  "copied_pairs f [] = []"
| "copied_pairs f (a # bs) = List.map_filter (copied f a) bs @ copied_pairs f bs"

definition same_everywhere :: "string \<Rightarrow> parsed_row list \<Rightarrow> (string \<times> parsed_row list) list \<Rightarrow> parsed_row list" where
  "same_everywhere f rows by_brand =
     (let vals = List.map_filter (money_of f) rows in
      if 6 \<le> length vals \<and> by_brand \<noteq> [] \<and> list_all (\<lambda>v. v = hd vals) vals \<and> hd vals \<noteq> 0
      then take 1 (filter (\<lambda>r. money_of f r \<noteq> None) rows) else [])"

definition spendPlausibility :: "parsed_row list \<Rightarrow> string list \<Rightarrow> issue list" where
  "spendPlausibility rows groups =
     (let by_brand = group_rows rows;
          warn = (\<lambda>f code r. issue_at spec_spend Sev_warning (cellOf spec_spend f (pr_rowNumber r)) code)
      in concat (map (\<lambda>f.
           map (warn f ''OUTLIER_VS_MEDIAN'') (concat (map (\<lambda>p. outliers f (snd p)) by_brand)) @
           map (warn f ''COPIED_ACROSS_BRANDS'')
             (copied_pairs f (map snd (filter (\<lambda>p. fst p \<notin> set groups) by_brand))) @
           map (warn f ''SAME_VALUE_EVERY_ROW'') (same_everywhere f rows by_brand)) PLAUSIBILITY_FIELDS))"

section \<open>Locating the tables\<close>

definition has_header :: "xlsx_lib \<Rightarrow> worksheet \<Rightarrow> nat \<Rightarrow> col_spec \<Rightarrow> bool" where
  "has_header lib ws r c =
     (let v = rc_value (readCell (xl_date lib) (wk_value ws r (cs_col c))) in
      starts_with (sig (cs_label c)) (sig (if v = X_null then [] else xl_string (xl_date lib) v)))"

definition scoreRow :: "xlsx_lib \<Rightarrow> worksheet \<Rightarrow> table_spec \<Rightarrow> nat \<Rightarrow> nat" where
  "scoreRow lib ws spec r = length (filter (has_header lib ws r) (ts_cols spec))"

definition row_distance :: "table_spec \<Rightarrow> int \<Rightarrow> int" where
  "row_distance spec r = \<bar>r - int (ts_headerRow spec)\<bar>"

text \<open>The best row so far and its score, from \<open>(-1, -1)\<close>.\<close>

definition better_row :: "xlsx_lib \<Rightarrow> worksheet \<Rightarrow> table_spec \<Rightarrow> nat \<Rightarrow> int \<times> int \<Rightarrow> int \<times> int" where
  "better_row lib ws spec r best =
     (let s = int (scoreRow lib ws spec r) in
      if s > snd best \<or> s = snd best \<and> row_distance spec (int r) < row_distance spec (fst best)
      then (int r, s) else best)"

definition header_problem :: "table_spec \<Rightarrow> nat \<Rightarrow> col_spec \<Rightarrow> string" where
  "header_problem spec r c =
     ''Sheet '' @ [CHR 39] @ ts_sheet spec @ [CHR 39] @ '' ('' @ TABLE_LABELS (ts_id spec) @ ''): expected header '' @
     [CHR 39] @ cs_label c @ [CHR 39] @ '' in column '' @ colLetter (cs_col c) @ '' of row '' @ dec_digits r @ ''.''"

definition locateHeader :: "xlsx_lib \<Rightarrow> worksheet \<Rightarrow> table_spec \<Rightarrow> nat \<Rightarrow> nat \<times> string list" where
  "locateHeader lib ws spec fromRow =
     (let hr = ts_headerRow spec;
          lastr = min (if wk_rowCount ws = 0 then hr else wk_rowCount ws) (hr + 60);
          best = fold (better_row lib ws spec) [max 1 fromRow..<Suc (max lastr hr)] (-1, -1)
      in if snd best = int (length (ts_cols spec)) then (nat (fst best), [])
         else let r = (if snd best > 0 then nat (fst best) else hr)
              in (r, map (header_problem spec r) (filter (\<lambda>c. \<not> has_header lib ws r c) (ts_cols spec))))"

record located =
  lc_row :: "table_id \<Rightarrow> nat"
  lc_problems :: "string list"
  lc_last :: "(string \<times> nat) list"

definition locate_table :: "xlsx_lib \<Rightarrow> (string \<Rightarrow> worksheet) \<Rightarrow> table_spec \<Rightarrow> located \<Rightarrow> located" where
  "locate_table lib sheets spec l =
     (let from_row = (case map_of (lc_last l) (ts_sheet spec) of None \<Rightarrow> 0 | Some n \<Rightarrow> n) + 1 in
      case locateHeader lib (sheets (ts_sheet spec)) spec from_row of
        (row, p) \<Rightarrow>
          \<lparr>lc_row = (lc_row l)(ts_id spec := row), lc_problems = lc_problems l @ p,
           lc_last = (ts_sheet spec, row) # lc_last l\<rparr>)"

definition locate_tables :: "xlsx_lib \<Rightarrow> (string \<Rightarrow> worksheet) \<Rightarrow> located" where
  "locate_tables lib sheets =
     fold (locate_table lib sheets) TABLES \<lparr>lc_row = (\<lambda>t. 0), lc_problems = [], lc_last = []\<rparr>"

section \<open>The workbook\<close>

definition find_sheet :: "worksheet list \<Rightarrow> string \<Rightarrow> worksheet option" where
  "find_sheet wss s = List.find (\<lambda>w. sig (wk_name w) = sig s) wss"

definition missing_sheets :: "worksheet list \<Rightarrow> string list" where
  "missing_sheets wss = filter (\<lambda>s. find_sheet wss s = None) (remdups (map ts_sheet TABLES))"

definition empty_table :: table_result where
  "empty_table = \<lparr>tr_rows = [], tr_emptyRows = 0, tr_exampleRowsSkipped = 0\<rparr>"

definition read_tables ::
  "parse_ctx \<Rightarrow> (string \<Rightarrow> worksheet) \<Rightarrow> (table_id \<Rightarrow> nat) \<Rightarrow> parse_state" where
  "read_tables cx sheets rows =
     fold (parse_table cx sheets rows) TABLES
       \<lparr>pt_issues = [], pt_seen = [], pt_tables = (\<lambda>t. empty_table)\<rparr>"

definition unknown_campaign_issues :: "(table_id \<Rightarrow> table_result) \<Rightarrow> string list \<Rightarrow> issue list" where
  "unknown_campaign_issues tabs known =
     (let names = map (\<lambda>r. to_lower (to_string (dat (pr_data r) ''name''))) (tr_rows (tabs T_campaigns)) @ map to_lower known
      in List.map_filter
           (\<lambda>r. case dat (pr_data r) ''campaignName'' of
              JStr n \<Rightarrow>
                if to_lower n \<in> set names then None
                else Some \<lparr>iss_severity = Sev_error, iss_sheet = pr_sheet r, iss_table = Some (pr_table r),
                           iss_cell = CHR ''A'' # dec_digits (pr_rowNumber r), iss_code = ''UNKNOWN_CAMPAIGN''\<rparr>
            | _ \<Rightarrow> None)
           (tr_rows (tabs T_media)))"

definition list_or_empty :: "string list option \<Rightarrow> string list" where
  "list_or_empty v = (case v of None \<Rightarrow> [] | Some xs \<Rightarrow> xs)"

definition context_of :: "xlsx_lib \<Rightarrow> parse_options \<Rightarrow> bool \<Rightarrow> parse_ctx" where
  "context_of lib opts includeExamples =
     \<lparr>cx_date = xl_date lib, cx_known = map_option (map to_lower) (po_knownBrands opts),
      cx_groups = map to_lower (list_or_empty (po_groupBrands opts)),
      cx_categories = (case po_knownCategories opts of None \<Rightarrow> DEFAULT_SPEND_CATEGORIES | Some cs \<Rightarrow> cs),
      cx_includeExamples = includeExamples\<rparr>"

definition parse_sheets :: "xlsx_lib \<Rightarrow> (string \<Rightarrow> worksheet) \<Rightarrow> (table_id \<Rightarrow> nat) \<Rightarrow> parse_options \<Rightarrow> bool \<Rightarrow> parse_result" where
  "parse_sheets lib sheets rows opts includeExamples =
     (let cx = context_of lib opts includeExamples; st = read_tables cx sheets rows; tabs = pt_tables st
      in \<lparr>pp_templateVersion = TEMPLATE_VERSION, pp_tables = tabs,
          pp_issues = pt_issues st @ spendPlausibility (tr_rows (tabs T_spend)) (cx_groups cx) @
            unknown_campaign_issues tabs (list_or_empty (po_knownCampaigns opts)),
          pp_exampleRowsSkipped = sum_list (map (\<lambda>t. tr_exampleRowsSkipped (tabs t)) table_ids)\<rparr>)"

definition parseMarcomWorkbook ::
  "xlsx_lib \<Rightarrow> bytes \<Rightarrow> string \<Rightarrow> parse_options \<Rightarrow> bool \<Rightarrow> marcom_error + parse_result" where
  "parseMarcomWorkbook lib buf filename opts includeExamples =
     rbind (assertSafeXlsx buf filename) (\<lambda>_.
       (case xl_load lib buf of
          None \<Rightarrow> Inl Invalid_file
        | Some wss \<Rightarrow>
            (case missing_sheets wss of
               s # _ \<Rightarrow> Inl (Structure [''Sheet '' @ [CHR 39] @ s @ [CHR 39] @ '' is missing or was renamed.''])
             | [] \<Rightarrow>
                 (let sheets = (\<lambda>s. the (find_sheet wss s)); l = locate_tables lib sheets
                  in if lc_problems l \<noteq> [] then Inl (Structure (lc_problems l))
                     else Inr (parse_sheets lib sheets (lc_row l) opts includeExamples)))))"

section \<open>Running the parser\<close>

text \<open>
  \<open>runParse\<close> of \<open>marcom/parseRunner.ts\<close> with \<open>marcom/parseWorker.ts\<close>: the worker parses the staged file
  and posts the outcome, unless it is stopped for taking too long (a validation error) or dies. An error
  that is neither a structure error nor a validation error is rethrown as a plain one.
\<close>

datatype worker_end = Worker_answers | Worker_times_out | Worker_dies

definition worker_answer :: "marcom_error + parse_result \<Rightarrow> marcom_error + parse_result" where
  "worker_answer m =
     (case m of Inr p \<Rightarrow> Inr p | Inl (Structure ps) \<Rightarrow> Inl (Structure ps) | Inl Invalid_file \<Rightarrow> Inl Invalid_file
      | Inl e \<Rightarrow> Inl Unexpected)"

definition runParse ::
  "xlsx_lib \<Rightarrow> (bytes \<Rightarrow> worker_end) \<Rightarrow> bytes \<Rightarrow> string \<Rightarrow> parse_options \<Rightarrow> marcom_error + parse_result" where
  "runParse lib ending buf filename opts =
     (case ending buf of
        Worker_answers \<Rightarrow>
          worker_answer (parseMarcomWorkbook lib buf filename
            (opts\<lparr>po_knownBrands := Some (list_or_empty (po_knownBrands opts)),
                  po_knownCampaigns := Some (list_or_empty (po_knownCampaigns opts))\<rparr>) False)
      | Worker_times_out \<Rightarrow> Inl Invalid_file
      | Worker_dies \<Rightarrow> Inl Unexpected)"

definition marcom_service ::
  "xlsx_lib \<Rightarrow> (bytes \<Rightarrow> worker_end) \<Rightarrow> mk_env \<Rightarrow> (bytes \<Rightarrow> string) \<Rightarrow> (string \<Rightarrow> bool) \<Rightarrow> mk_service" where
  "marcom_service lib ending env sha brand_fits =
     \<lparr>sv_env = env, sv_parse = runParse lib ending, sv_sha = sha, sv_brand_fits = brand_fits\<rparr>"

end
