(* ===== verification/Marcom_Commit.thy ===== *)
theory Marcom_Commit
  imports Marcom_Batches
begin

text \<open>
  What a commit writes. The first part proves that a stored row reads back with the natural key and the
  canonical values of the parsed row it came from; the second that the writes of one table are the history
  step \<open>with_batch\<close> of \<open>Marcom_Store\<close>.
\<close>

section \<open>Lists of optional fields\<close>

lemma those_fields:
  assumes "those (map (\<lambda>x. map_option (\<lambda>v. (k x, v)) (g x)) xs) = Some d" "distinct (map k xs)" "x \<in> set xs"
  shows "g x = Some (dat d (k x))"
  using assms
proof (induction xs arbitrary: d)
  case (Cons y ys)
  from Cons.prems(1) obtain v e where v: "g y = Some v"
    and e: "those (map (\<lambda>x. map_option (\<lambda>v. (k x, v)) (g x)) ys) = Some e" and d: "d = (k y, v) # e"
    by (auto split: option.splits)
  show ?case
  proof (cases "x = y")
    case True
    then show ?thesis using v d by (simp add: dat_def)
  next
    case False
    then have x: "x \<in> set ys" using Cons.prems(3) by simp
    then have "k x \<noteq> k y" using Cons.prems(2) by (simp) (metis image_eqI)
    then show ?thesis using Cons.IH [OF e _ x] Cons.prems(2) d by (simp add: dat_def)
  qed
qed simp

lemma those_exists:
  assumes "\<And>x. x \<in> set xs \<Longrightarrow> g x \<noteq> None"
  shows "\<exists>d. those (map (\<lambda>x. map_option (\<lambda>v. (k x, v)) (g x)) xs) = Some d"
  using assms by (induction xs) (auto split: option.splits)

lemma those_SomeD:
  "those (map (\<lambda>x. map_option (\<lambda>v. (k x, v)) (g x)) xs) = Some d \<Longrightarrow> x \<in> set xs \<Longrightarrow> g x \<noteq> None"
proof (induction xs arbitrary: d)
  case (Cons y ys)
  then show ?case by (auto split: option.splits)
qed simp

section \<open>Case and white space\<close>

lemma is_space_lower [simp]: "is_space (to_lower_char c) \<longleftrightarrow> is_space c"
proof (cases "is_upper c")
  case True
  then have "65 \<le> code_of c" "code_of c \<le> 90" by (auto simp: is_upper_def)
  then show ?thesis by (auto simp: to_lower_char_def is_space_def)
qed (simp add: to_lower_char_def)

lemma trim_to_lower: "trim (to_lower s) = to_lower (trim s)"
  by (simp add: trim_def to_lower_def dropWhile_map rev_map comp_def)

section \<open>The adapters\<close>

text \<open>Every adapter names each field and each column once, and its natural key consists of its fields.\<close>

lemma adapter_ids [simp]: "ad_id (adapter_of t) = t"
  by (cases t) simp_all

lemma adapter_distinct:
  "distinct (map fd_field (ad_fields (adapter_of t)))" "distinct (map fd_col (ad_fields (adapter_of t)))"
  by (cases t; simp add: fdef_def)+

lemma adapter_keys: "k \<in> set (ad_keyFields (adapter_of t)) \<Longrightarrow> \<exists>fd \<in> set (ad_fields (adapter_of t)). fd_field fd = k"
  by (cases t) (auto simp: fdef_def)

lemma adapter_brand_col: "fd \<in> set (ad_fields (adapter_of t)) \<Longrightarrow> fd_type fd = Ty_brand \<longleftrightarrow> fd_col fd = ''brand_id''"
  by (cases t) (auto simp: fdef_def)

lemma brand_tables: "t \<in> set BRAND_TABLES \<longleftrightarrow> (\<exists>fd \<in> set (ad_fields (adapter_of t)). fd_type fd = Ty_brand)"
  by (cases t) (auto simp: BRAND_TABLES_def table_ids_def fdef_def)

lemma table_ids_all [simp]: "t \<in> set table_ids"
  by (cases t) (simp_all add: table_ids_def)

lemma table_ids_distinct: "distinct table_ids"
  by (simp add: table_ids_def)

lemma field_type_of_field:
  assumes "fd \<in> set (ad_fields (adapter_of t))"
  shows "field_type_of (adapter_of t) (fd_field fd) = fd_type fd"
proof -
  obtain x where x: "List.find (\<lambda>x. fd_field x = fd_field fd) (ad_fields (adapter_of t)) = Some x"
    using find_exists [OF assms, of "\<lambda>x. fd_field x = fd_field fd"] by auto
  from find_SomeD [OF this] have "x = fd"
    using adapter_distinct(1) [of t] assms by (auto simp: distinct_map dest: inj_onD)
  with x show ?thesis by (simp add: field_type_of_def)
qed

section \<open>A stored row reads back\<close>

definition is_name :: "jsval \<Rightarrow> bool" where
  "is_name v = (case v of JStr s \<Rightarrow> s \<noteq> [] | _ \<Rightarrow> False)"

lemma is_name_iff [simp]: "is_name v \<longleftrightarrow> (\<exists>s. v = JStr s \<and> s \<noteq> [])"
  by (cases v) (auto simp: is_name_def)

definition row_typed :: "adapter \<Rightarrow> row_data \<Rightarrow> bool" where
  "row_typed a d \<longleftrightarrow>
     list_all (\<lambda>fd. if fd_type fd = Ty_brand \<or> fd_type fd = Ty_category
                     then is_name (dat d (fd_field fd))
                     else scalar (dat d (fd_field fd)) \<or> dat d (fd_field fd) = JUndef)
       (ad_fields a)"

lemma normalize_toDb': "scalar v \<or> v = JUndef \<Longrightarrow> normalize t (toDb t v) = normalize t v"
  using normalize_toDb [of v t] by (auto simp: toDb_def normalize_def)

lemma brand_id_Some:
  assumes "brand_id bs k = Some n" "distinct (map kb_id bs)"
  shows "\<exists>b \<in> set bs. kb_id b = n \<and> to_lower (kb_name b) = k \<and> brand_name bs (id_val n) = Some (JStr (kb_name b))"
proof -
  from assms(1) obtain b where b: "b \<in> set bs" "kb_id b = n" "to_lower (kb_name b) = k"
    by (auto simp: brand_id_def dest!: find_SomeD)
  then obtain c where c: "List.find (\<lambda>b. id_val (kb_id b) = id_val n) bs = Some c"
    using find_exists [of b bs "\<lambda>b. id_val (kb_id b) = id_val n"] by auto
  from find_SomeD [OF this] have "c = b" using assms(2) b by (auto simp: distinct_map dest: inj_onD)
  with b c show ?thesis by (auto simp: brand_name_def)
qed

lemma category_id_Some:
  assumes "category_id cs k = Some n" "distinct (map kc_id cs)"
  shows "\<exists>c \<in> set cs. kc_id c = n \<and> to_lower (kc_name c) = k \<and> category_name cs (id_val n) = Some (JStr (kc_name c))"
proof -
  from assms(1) obtain b where b: "b \<in> set cs" "kc_id b = n" "to_lower (kc_name b) = k"
    by (auto simp: category_id_def dest!: find_SomeD)
  then obtain c where c: "List.find (\<lambda>b. id_val (kc_id b) = id_val n) cs = Some c"
    using find_exists [of b cs "\<lambda>b. id_val (kc_id b) = id_val n"] by auto
  from find_SomeD [OF this] have "c = b" using assms(2) b by (auto simp: distinct_map dest: inj_onD)
  with b c show ?thesis by (auto simp: category_name_def)
qed

text \<open>The canonical value of a field after the round trip: a name keeps its letters but not their case.\<close>

definition same_value :: "field_type \<Rightarrow> jsval \<Rightarrow> jsval \<Rightarrow> bool" where
  "same_value t v w \<longleftrightarrow>
     (if t = Ty_brand \<or> t = Ty_category then \<exists>s n. v = JStr s \<and> w = JStr n \<and> s \<noteq> [] \<and> to_lower n = to_lower s
      else normalize t w = normalize t v)"

lemma stored_column:
  fixes bs cs t d cols and r :: mk_row
  assumes vals: "row_values bs cs (adapter_of t) d = Some cols" and typed: "row_typed (adapter_of t) d"
    and bids: "distinct (map kb_id bs)" and cids: "distinct (map kc_id cs)" and r: "kr_cols r = cols"
  shows "fd \<in> set (ad_fields (adapter_of t)) \<Longrightarrow> column_value bs cs d fd = Some (dat cols (fd_col fd))"
  using vals adapter_distinct(2) unfolding row_values_def by (rule those_fields)

lemma stored_select:
  fixes bs cs t d cols and r :: mk_row
  assumes vals: "row_values bs cs (adapter_of t) d = Some cols" and typed: "row_typed (adapter_of t) d"
    and bids: "distinct (map kb_id bs)" and cids: "distinct (map kc_id cs)" and r: "kr_cols r = cols"
  assumes fd: "fd \<in> set (ad_fields (adapter_of t))"
  shows "\<exists>w. selectCol bs cs r fd = Some w \<and> same_value (fd_type fd) (dat d (fd_field fd)) w"
proof -
  note c = stored_column [OF vals typed bids cids r fd]
  have ty: "if fd_type fd = Ty_brand \<or> fd_type fd = Ty_category then \<exists>s. dat d (fd_field fd) = JStr s \<and> s \<noteq> []
      else scalar (dat d (fd_field fd)) \<or> dat d (fd_field fd) = JUndef"
    using typed fd by (auto simp: row_typed_def list_all_iff)
  show ?thesis
  proof (cases "fd_type fd = Ty_brand \<or> fd_type fd = Ty_category")
    case True
    then obtain s where s: "dat d (fd_field fd) = JStr s" "s \<noteq> []" using ty by auto
    show ?thesis
    proof (cases "fd_type fd = Ty_brand")
      case b: True
      then obtain n where n: "brand_id bs (to_lower s) = Some n" "dat cols (fd_col fd) = id_val n"
        using c s by (auto simp: column_value_def resolved_def split: option.splits if_splits)
      from brand_id_Some [OF n(1) bids] show ?thesis
        using b n(2) s by (auto simp: selectCol_def same_value_def r)
    next
      case False
      then have ct: "fd_type fd = Ty_category" using True by simp
      then obtain n where n: "category_id cs (to_lower s) = Some n" "dat cols (fd_col fd) = id_val n"
        using c s by (auto simp: column_value_def resolved_def split: option.splits if_splits)
      from category_id_Some [OF n(1) cids] show ?thesis
        using ct n(2) s by (auto simp: selectCol_def same_value_def r)
    qed
  next
    case False
    then have "dat cols (fd_col fd) = toDb (fd_type fd) (dat d (fd_field fd))"
      using c by (cases "fd_type fd") (auto simp: column_value_def)
    then have "selectCol bs cs r fd = Some (toDb (fd_type fd) (dat d (fd_field fd)))"
      using False by (cases "fd_type fd") (auto simp: selectCol_def r)
    then show ?thesis using False ty normalize_toDb' by (auto simp: same_value_def)
  qed
qed

lemma stored_join:
  fixes bs cs t d cols and r :: mk_row
  assumes vals: "row_values bs cs (adapter_of t) d = Some cols" and typed: "row_typed (adapter_of t) d"
    and bids: "distinct (map kb_id bs)" and cids: "distinct (map kc_id cs)" and r: "kr_cols r = cols"
  shows "\<exists>e. join_row bs cs (adapter_of t) r = Some e \<and>
       (\<forall>fd \<in> set (ad_fields (adapter_of t)). same_value (fd_type fd) (dat d (fd_field fd)) (dat e (fd_field fd)))"
proof -
  obtain e where e: "join_row bs cs (adapter_of t) r = Some e"
    unfolding join_row_def using those_exists [of "ad_fields (adapter_of t)" "selectCol bs cs r" fd_field] stored_select [OF vals typed bids cids r]
    by fastforce
  have "selectCol bs cs r fd = Some (dat e (fd_field fd))" if "fd \<in> set (ad_fields (adapter_of t))" for fd
    using e adapter_distinct(1) that unfolding join_row_def by (rule those_fields)
  with e stored_select [OF vals typed bids cids r] show ?thesis by fastforce
qed

lemma same_value_key:
  assumes "same_value t v w"
  shows "to_lower (case normalize t w of None \<Rightarrow> [] | Some s \<Rightarrow> s) = to_lower (case normalize t v of None \<Rightarrow> [] | Some s \<Rightarrow> s)"
proof (cases "t = Ty_brand \<or> t = Ty_category")
  case True
  then obtain s n where s: "v = JStr s" "w = JStr n" "s \<noteq> []" "to_lower n = to_lower s"
    using assms by (auto simp: same_value_def)
  have "n \<noteq> []" using s(3,4) by (auto simp: to_lower_def)
  then show ?thesis using True s trim_to_lower by (auto simp: normalize_def) (metis trim_to_lower)+
qed (use assms in \<open>simp add: same_value_def\<close>)

lemma keyOf_cong:
  assumes "\<And>fd. fd \<in> set (ad_fields (adapter_of t)) \<Longrightarrow> same_value (fd_type fd) (dat d (fd_field fd)) (dat e (fd_field fd))"
  shows "keyOf (adapter_of t) e = keyOf (adapter_of t) d"
proof -
  have "to_lower (case normalize (field_type_of (adapter_of t) k) (dat e k) of None \<Rightarrow> [] | Some s \<Rightarrow> s) =
        to_lower (case normalize (field_type_of (adapter_of t) k) (dat d k) of None \<Rightarrow> [] | Some s \<Rightarrow> s)"
    if k: "k \<in> set (ad_keyFields (adapter_of t))" for k
  proof -
    obtain fd where fd: "fd \<in> set (ad_fields (adapter_of t))" "fd_field fd = k" using adapter_keys [OF k] by auto
    from same_value_key [OF assms [OF fd(1)]] field_type_of_field [OF fd(1)] fd(2) show ?thesis by simp
  qed
  then show ?thesis by (simp add: keyOf_def cong: map_cong)
qed

text \<open>So the row a commit stores is found again under the key of the parsed row.\<close>

lemma stored_key:
  fixes r :: mk_row
  assumes "row_values bs cs (adapter_of t) d = Some cols" "row_typed (adapter_of t) d"
    "distinct (map kb_id bs)" "distinct (map kc_id cs)" "kr_cols r = cols"
  shows "\<exists>x. read_row bs cs (adapter_of t) r = Some x \<and> dr_key x = keyOf (adapter_of t) d"
proof -
  from stored_join [OF assms] obtain e where e: "join_row bs cs (adapter_of t) r = Some e"
    "\<And>fd. fd \<in> set (ad_fields (adapter_of t)) \<Longrightarrow> same_value (fd_type fd) (dat d (fd_field fd)) (dat e (fd_field fd))"
    by blast
  from keyOf_cong [OF e(2)] e(1) show ?thesis by (simp add: read_row_def)
qed

section \<open>The writes of one table\<close>

definition new_row :: "nat \<Rightarrow> nat \<Rightarrow> row_data \<Rightarrow> mk_row" where
  "new_row B i cols = \<lparr>kr_id = i, kr_cols = cols, kr_batch = B, kr_current = True, kr_superseded = None\<rparr>"

lemma new_row_simps [simp]:
  "kr_id (new_row B i c) = i" "kr_cols (new_row B i c) = c" "kr_batch (new_row B i c) = B"
  "kr_current (new_row B i c)" "kr_superseded (new_row B i c) = None"
  by (simp_all add: new_row_def)

definition new_rows :: "nat \<Rightarrow> nat \<Rightarrow> row_data list \<Rightarrow> mk_row list" where
  "new_rows B n colss = map (\<lambda>(i, c). new_row B i c) (zip [n..<n + length colss] colss)"

lemma new_rows_Nil [simp]: "new_rows B n [] = []"
  by (simp add: new_rows_def)

lemma new_rows_snoc: "new_rows B n (cs @ [c]) = new_rows B n cs @ [new_row B (n + length cs) c]"
  by (simp add: new_rows_def)

lemma new_rows_facts:
  "map kr_id (new_rows B n cs) = [n..<n + length cs]" "map kr_cols (new_rows B n cs) = cs"
  "x \<in> set (new_rows B n cs) \<Longrightarrow> kr_batch x = B \<and> kr_current x \<and> kr_superseded x = None"
  by (auto simp: new_rows_def map_map comp_def case_prod_unfold map_zip_map set_zip)

definition replace_rows :: "nat \<Rightarrow> nat list \<Rightarrow> mk_row list \<Rightarrow> mk_row list" where
  "replace_rows B U rows =
     map (\<lambda>r. if kr_id r \<in> set U then r\<lparr>kr_current := False, kr_superseded := Some B\<rparr> else r) rows"

lemma replace_rows_ids [simp]: "map kr_id (replace_rows B U rows) = map kr_id rows"
  by (auto simp: replace_rows_def)

lemma replace_rows_Nil [simp]: "replace_rows B [] rows = rows"
  by (simp add: replace_rows_def)

lemma insertRow_Inr:
  assumes "insertRow env bs cs a B d (n, rows) = Inr t"
  obtains cols where "row_values bs cs a d = Some cols" "t = (n + 1, rows @ [new_row B n cols])"
    "\<not> list_ex (\<lambda>s. collides env a s (new_row B n cols)) rows"
  using assms by (auto simp: insertRow_def new_row_def Let_def split: option.splits if_splits)

lemma same_kr_id: "distinct (map kr_id rows) \<Longrightarrow> r \<in> set rows \<Longrightarrow> s \<in> set rows \<Longrightarrow> kr_id r = kr_id s \<Longrightarrow> r = s"
  by (auto simp: distinct_map dest: inj_onD)

lemma supersede_Inr:
  assumes "supersede B i (n, rows) = Inr t" "distinct (map kr_id rows)"
  shows "t = (n, replace_rows B [i] rows)" "\<exists>r \<in> set rows. kr_id r = i \<and> kr_current r"
proof -
  have l: "length (filter (\<lambda>r. kr_id r = i \<and> kr_current r) rows) = 1"
    and t: "t = (n, update_where (\<lambda>r. kr_id r = i \<and> kr_current r) (\<lambda>r. r\<lparr>kr_current := False, kr_superseded := Some B\<rparr>) rows)"
    using assms by (auto simp: supersede_def split: if_splits)
  from l have "filter (\<lambda>r. kr_id r = i \<and> kr_current r) rows \<noteq> []" by auto
  then show ex: "\<exists>r \<in> set rows. kr_id r = i \<and> kr_current r" by (auto simp: filter_empty_conv)
  then obtain r where r: "r \<in> set rows" "kr_id r = i" "kr_current r" by blast
  have "kr_current s" if "s \<in> set rows" "kr_id s = i" for s
    using same_kr_id [OF assms(2) that(1) r(1)] that(2) r by simp
  then show "t = (n, replace_rows B [i] rows)"
    unfolding t by (auto simp: update_where_def replace_rows_def)
qed

lemma replace_rows_append [simp]: "replace_rows B U (xs @ ys) = replace_rows B U xs @ replace_rows B U ys"
  by (simp add: replace_rows_def)

lemma replace_rows_twice: "replace_rows B V (replace_rows B U rows) = replace_rows B (U @ V) rows"
  by (auto simp: replace_rows_def)

lemma replace_rows_other: "(\<And>r. r \<in> set rows \<Longrightarrow> kr_id r \<notin> set U) \<Longrightarrow> replace_rows B U rows = rows"
  by (auto simp: replace_rows_def intro: map_idI)

lemma replace_rows_mem:
  assumes "r \<in> set (replace_rows B U rows)" "kr_current r"
  shows "r \<in> set rows" "kr_id r \<notin> set U"
  using assms by (auto simp: replace_rows_def split: if_splits)

text \<open>After some of a diff's writes: the rows \<open>U\<close> are history, a new row stands for each of \<open>colss\<close>.\<close>

definition written :: "nat \<Rightarrow> nat \<Rightarrow> mk_row list \<Rightarrow> nat list \<Rightarrow> row_data list \<Rightarrow> mk_table" where
  "written B n rows U colss = (n + length colss, replace_rows B U rows @ new_rows B n colss)"

lemma written_ids:
  assumes "distinct (map kr_id rows)" "\<And>r. r \<in> set rows \<Longrightarrow> kr_id r < n"
  shows "distinct (map kr_id (snd (written B n rows U colss)))"
  using assms(1) by (auto simp: written_def new_rows_facts dest: assms(2))

text \<open>The parsed rows a diff writes, in the order it writes them.\<close>

definition written_data :: "table_diff \<Rightarrow> row_data list" where
  "written_data d = map (\<lambda>u. pr_data (ru_row u)) (df_updates d) @ map pr_data (df_inserts d)"

lemma insert_written:
  fixes env :: mk_env and bs :: "mk_brand list" and cs :: "mk_category list" and t :: table_id and B n :: nat and rows :: "mk_row list"
  assumes ids: "distinct (map kr_id rows)" and fresh: "\<And>r. r \<in> set rows \<Longrightarrow> kr_id r < n"
  assumes "insertRow env bs cs (adapter_of t) B d (written B n rows U colss) = Inr s"
  obtains cols where "row_values bs cs (adapter_of t) d = Some cols" "s = written B n rows U (colss @ [cols])"
proof -
  obtain cols where c: "row_values bs cs (adapter_of t) d = Some cols"
    "s = (n + length colss + 1, (replace_rows B U rows @ new_rows B n colss) @ [new_row B (n + length colss) cols])"
    using assms(3-) unfolding written_def by (elim insertRow_Inr)
  then have "s = written B n rows U (colss @ [cols])" by (simp add: written_def new_rows_snoc)
  with c(1) show thesis by (rule that)
qed

lemma update_written:
  fixes env :: mk_env and bs :: "mk_brand list" and cs :: "mk_category list" and t :: table_id and B n :: nat and rows :: "mk_row list"
  assumes ids: "distinct (map kr_id rows)" and fresh: "\<And>r. r \<in> set rows \<Longrightarrow> kr_id r < n"
  assumes "write_update env bs cs (adapter_of t) B u (written B n rows U colss) = Inr s" "ru_existingId u < n"
  obtains cols where "row_values bs cs (adapter_of t) (pr_data (ru_row u)) = Some cols"
    "s = written B n rows (U @ [ru_existingId u]) (colss @ [cols])"
    "\<exists>r \<in> set rows. kr_id r = ru_existingId u \<and> kr_current r"
proof -
  let ?rs = "replace_rows B U rows @ new_rows B n colss"
  obtain m where m: "supersede B (ru_existingId u) (n + length colss, ?rs) = Inr m"
    and i: "insertRow env bs cs (adapter_of t) B (pr_data (ru_row u)) m = Inr s"
    using assms(3) unfolding write_update_def written_def rbind_eq_Inr by blast
  have d: "distinct (map kr_id ?rs)" using written_ids [OF ids fresh, of B U colss] by (simp add: written_def)
  have new: "kr_id x \<noteq> ru_existingId u" if "x \<in> set (new_rows B n colss)" for x
    using that assms(4) new_rows_facts(1) [of B n colss]
    by (metis atLeastLessThan_iff image_eqI leD list.set_map set_upt)
  have "replace_rows B [ru_existingId u] ?rs = replace_rows B (U @ [ru_existingId u]) rows @ new_rows B n colss"
    using new by (simp add: replace_rows_twice replace_rows_other)
  then have "m = written B n rows (U @ [ru_existingId u]) colss"
    using supersede_Inr(1) [OF m d] by (simp add: written_def)
  from insert_written [OF ids fresh i [unfolded this]] obtain cols
    where c: "row_values bs cs (adapter_of t) (pr_data (ru_row u)) = Some cols"
      "s = written B n rows (U @ [ru_existingId u]) (colss @ [cols])" by blast
  obtain r where r: "r \<in> set ?rs" "kr_id r = ru_existingId u" "kr_current r"
    using supersede_Inr(2) [OF m d] by blast
  then have "r \<in> set (replace_rows B U rows)" using new by auto
  then have "r \<in> set rows" using replace_rows_mem r(3) by blast
  with r have "\<exists>r \<in> set rows. kr_id r = ru_existingId u \<and> kr_current r" by blast
  with c show thesis by (rule that)
qed

lemma updates_written:
  fixes env :: mk_env and bs :: "mk_brand list" and cs :: "mk_category list" and t :: table_id and B n :: nat and rows :: "mk_row list"
  assumes ids: "distinct (map kr_id rows)" and fresh: "\<And>r. r \<in> set rows \<Longrightarrow> kr_id r < n"
  assumes "rfold (write_update env bs cs (adapter_of t) B) us (written B n rows U colss) = Inr s"
    "\<And>u. u \<in> set us \<Longrightarrow> ru_existingId u < n"
  shows "\<exists>cs'. s = written B n rows (U @ map ru_existingId us) (colss @ cs')
    \<and> list_all2 (\<lambda>u c. row_values bs cs (adapter_of t) (pr_data (ru_row u)) = Some c) us cs'
    \<and> (\<forall>u \<in> set us. \<exists>r \<in> set rows. kr_id r = ru_existingId u \<and> kr_current r)"
  using assms(3-)
proof (induction us arbitrary: U colss)
  case (Cons u us)
  obtain m where m: "write_update env bs cs (adapter_of t) B u (written B n rows U colss) = Inr m"
    and rest: "rfold (write_update env bs cs (adapter_of t) B) us m = Inr s"
    using Cons.prems(1) by (auto simp: rbind_eq_Inr)
  obtain c where c: "row_values bs cs (adapter_of t) (pr_data (ru_row u)) = Some c"
    "m = written B n rows (U @ [ru_existingId u]) (colss @ [c])"
    "\<exists>r \<in> set rows. kr_id r = ru_existingId u \<and> kr_current r"
    by (rule update_written [OF ids fresh m]) (use Cons.prems(2) in auto)
  obtain cs' where cs': "s = written B n rows (U @ map ru_existingId (u # us)) (colss @ c # cs')"
    "list_all2 (\<lambda>u c. row_values bs cs (adapter_of t) (pr_data (ru_row u)) = Some c) us cs'"
    "\<forall>u \<in> set us. \<exists>r \<in> set rows. kr_id r = ru_existingId u \<and> kr_current r"
    using Cons.IH [OF rest [unfolded c(2)]] Cons.prems(2) by auto
  then show ?case using c(1,3) by (intro exI [of _ "c # cs'"]) auto
qed (auto simp: written_def)

lemma inserts_written:
  fixes env :: mk_env and bs :: "mk_brand list" and cs :: "mk_category list" and t :: table_id and B n :: nat and rows :: "mk_row list"
  assumes ids: "distinct (map kr_id rows)" and fresh: "\<And>r. r \<in> set rows \<Longrightarrow> kr_id r < n"
  assumes "rfold (\<lambda>r. insertRow env bs cs (adapter_of t) B (pr_data r)) rs (written B n rows U colss) = Inr s"
  shows "\<exists>cs'. s = written B n rows U (colss @ cs')
    \<and> list_all2 (\<lambda>r c. row_values bs cs (adapter_of t) (pr_data r) = Some c) rs cs'"
  using assms(3-)
proof (induction rs arbitrary: colss)
  case (Cons r rs)
  obtain m where m: "insertRow env bs cs (adapter_of t) B (pr_data r) (written B n rows U colss) = Inr m"
    and rest: "rfold (\<lambda>r. insertRow env bs cs (adapter_of t) B (pr_data r)) rs m = Inr s"
    using Cons.prems by (auto simp: rbind_eq_Inr)
  obtain c where c: "row_values bs cs (adapter_of t) (pr_data r) = Some c" "m = written B n rows U (colss @ [c])"
    by (rule insert_written [OF ids fresh m])
  obtain cs' where "s = written B n rows U (colss @ c # cs')"
    "list_all2 (\<lambda>r c. row_values bs cs (adapter_of t) (pr_data r) = Some c) rs cs'"
    using Cons.IH [OF rest [unfolded c(2)]] by auto
  then show ?case using c(1) by (intro exI [of _ "c # cs'"]) auto
qed (auto simp: written_def)

lemma write_diff_written:
  fixes env :: mk_env and bs :: "mk_brand list" and cs :: "mk_category list" and t :: table_id and B n :: nat and rows :: "mk_row list"
  assumes ids: "distinct (map kr_id rows)" and fresh: "\<And>r. r \<in> set rows \<Longrightarrow> kr_id r < n"
  assumes "write_diff env bs cs (adapter_of t) B d (n, rows) = Inr s"
    "\<And>u. u \<in> set (df_updates d) \<Longrightarrow> ru_existingId u < n"
  shows "\<exists>colss. s = written B n rows (map ru_existingId (df_updates d)) colss
    \<and> list_all2 (\<lambda>x c. row_values bs cs (adapter_of t) x = Some c) (written_data d) colss
    \<and> (\<forall>u \<in> set (df_updates d). \<exists>r \<in> set rows. kr_id r = ru_existingId u \<and> kr_current r)"
proof -
  have start: "(n, rows) = written B n rows [] []" by (simp add: written_def)
  obtain m where m: "rfold (write_update env bs cs (adapter_of t) B) (df_updates d) (written B n rows [] []) = Inr m"
    and i: "rfold (\<lambda>r. insertRow env bs cs (adapter_of t) B (pr_data r)) (df_inserts d) m = Inr s"
    using assms(3) unfolding write_diff_def rbind_eq_Inr start by blast
  from updates_written [OF ids fresh m assms(4)] obtain c1 where c1: "m = written B n rows (map ru_existingId (df_updates d)) c1"
    "list_all2 (\<lambda>u c. row_values bs cs (adapter_of t) (pr_data (ru_row u)) = Some c) (df_updates d) c1"
    "\<forall>u \<in> set (df_updates d). \<exists>r \<in> set rows. kr_id r = ru_existingId u \<and> kr_current r" by auto
  from inserts_written [OF ids fresh i [unfolded c1(1)]] obtain c2
    where c2: "s = written B n rows (map ru_existingId (df_updates d)) (c1 @ c2)"
    "list_all2 (\<lambda>r c. row_values bs cs (adapter_of t) (pr_data r) = Some c) (df_inserts d) c2" by blast
  have "list_all2 (\<lambda>x c. row_values bs cs (adapter_of t) x = Some c) (written_data d) (c1 @ c2)"
    unfolding written_data_def using c1(2) c2(2)
    by (auto simp: list_all2_map1 intro!: list_all2_appendI)
  with c1(3) c2(1) show ?thesis by blast
qed

end
