(* ===== verification/Marcom_Typed.thy ===== *)
theory Marcom_Typed
  imports Marcom_Parser Marcom_Commit
begin

text \<open>
  What an error-free parse guarantees (\<open>marcom/parser.ts\<close>): every row has the value types its table's
  columns need, no natural key appears twice in a table, and the key the parser compares is the key the
  diff and the database compare (\<open>keyOf\<close> of \<open>marcom/tables.ts\<close>), as long as no key text ends in a space,
  which the 200-character cap can produce.
\<close>

section \<open>The specification of a table\<close>

fun spec_of :: "table_id \<Rightarrow> table_spec" where
  "spec_of T_spend = spec_spend"
| "spec_of T_other = spec_other"
| "spec_of T_campaigns = spec_campaigns"
| "spec_of T_media = spec_media"
| "spec_of T_social = spec_social"
| "spec_of T_web = spec_web"
| "spec_of T_trade = spec_trade"
| "spec_of T_events = spec_events"

lemmas spec_defs = spec_spend_def spec_other_def spec_campaigns_def spec_media_def spec_social_def spec_web_def
  spec_trade_def spec_events_def F_col_def optional_def enum_of_def

lemma TABLES_specs: "TABLES = map spec_of table_ids"
  by (simp add: TABLES_def table_ids_def)

lemma spec_id [simp]: "ts_id (spec_of t) = t"
  by (cases t) (simp_all add: spec_defs)

lemma spec_keyFields: "ts_keyFields (spec_of t) = ad_keyFields (adapter_of t)"
  by (cases t) (simp_all add: spec_defs)

lemma spec_fields_distinct: "distinct (map cs_field (ts_cols (spec_of t)))"
  by (cases t) (simp_all add: spec_defs)

text \<open>Every stored field is a column of the template whose kind fits the field's type.\<close>

fun kind_fits :: "field_type \<Rightarrow> col_spec \<Rightarrow> bool" where
  "kind_fits Ty_brand c = (cs_kind c = K_brand \<and> cs_required c)"
| "kind_fits Ty_category c = (cs_kind c = K_category \<and> cs_required c)"
| "kind_fits Ty_int c = (cs_kind c \<in> {K_year, K_month, K_int})"
| "kind_fits Ty_text c = (cs_kind c \<in> {K_text, K_enum})"
| "kind_fits Ty_date c = (cs_kind c = K_date)"
| "kind_fits _ c = (cs_kind c \<in> {K_money, K_decimal, K_pct})"

lemma spec_covers:
  "list_all (\<lambda>fd. list_ex (\<lambda>c. cs_field c = fd_field fd \<and> kind_fits (fd_type fd) c) (ts_cols (spec_of t))) (ad_fields (adapter_of t))"
  by (cases t) (simp_all add: spec_defs fdef_def)

text \<open>A key field is required, apart from the account name, and holds a number or a text.\<close>

lemma key_fields:
  "list_all (\<lambda>k. list_ex (\<lambda>c. cs_field c = k \<and> kind_fits (field_type_of (adapter_of t) k) c
       \<and> (cs_required c \<or> t = T_social \<and> k = ''accountName'')) (ts_cols (spec_of t))
     \<and> field_type_of (adapter_of t) k \<in> {Ty_int, Ty_text, Ty_brand, Ty_category}) (ad_keyFields (adapter_of t))"
  by (cases t) (simp_all add: spec_defs fdef_def field_type_of_def)

declare spec_of.simps [simp del]

section \<open>A coerced cell\<close>

definition no_error :: "issue list \<Rightarrow> bool" where
  "no_error is \<longleftrightarrow> list_all (\<lambda>i. iss_severity i \<noteq> Sev_error) is"

lemma no_error_simps [simp]:
  "no_error []" "no_error (i # is) \<longleftrightarrow> iss_severity i \<noteq> Sev_error \<and> no_error is"
  "no_error (xs @ ys) \<longleftrightarrow> no_error xs \<and> no_error ys"
  by (simp_all add: no_error_def)

lemma no_error_errors_of: "errors_of p = [] \<longleftrightarrow> no_error (pp_issues p)"
  by (auto simp: errors_of_def no_error_def filter_empty_conv list_all_iff)

lemma issue_at_severity [simp]: "iss_severity (issue_at spec sev cell code) = sev"
  by (simp add: issue_at_def)

fun is_num :: "jsval \<Rightarrow> bool" where
  "is_num (JNum n) = True"
| "is_num _ = False"

fun is_text :: "jsval \<Rightarrow> bool" where
  "is_text (JStr s) = True"
| "is_text _ = False"

lemma is_num_iff: "is_num v \<longleftrightarrow> (\<exists>n. v = JNum n)" by (cases v) auto

lemma is_text_iff: "is_text v \<longleftrightarrow> (\<exists>s. v = JStr s)" by (cases v) auto

fun kind_value :: "col_kind \<Rightarrow> jsval \<Rightarrow> bool" where
  "kind_value K_brand v = is_name v"
| "kind_value K_category v = is_name v"
| "kind_value K_text v = is_text v"
| "kind_value K_enum v = is_text v"
| "kind_value K_date v = is_text v"
| "kind_value _ v = is_num v"

lemma coerce_kind:
  assumes "coerce ds c raw known seen cats = (out, seen')" "no_error (cell_issue_at spec cell (co_issue out))"
    "[] \<notin> set cats"
  shows "kind_value (cs_kind c) (co_value out)"
proof -
  have ne: "case co_issue out of Cell_error code \<Rightarrow> False | _ \<Rightarrow> True"
    using assms(2) by (auto simp: cell_issue_at_def split: cell_issue.splits)
  have cat: "s \<noteq> []" if "List.find P cats = Some s" for P s
    using find_SomeD [OF that] assms(3) by auto
  show ?thesis
    using assms(1) ne
    by (cases "cs_kind c")
      (auto simp: coerce_def coerce_year_def coerce_month_def coerce_text_def coerce_brand_def coerce_choice_def
        coerce_date_def coerce_number_def coerce_pct_def good_def bad_def warned_def num_def Let_def
        split: option.splits if_splits prod.splits dest!: cat)
qed

definition cell_value_ok :: "col_spec \<Rightarrow> jsval \<Rightarrow> bool" where
  "cell_value_ok c v \<longleftrightarrow> v = JNull \<and> \<not> cs_required c \<or> kind_value (cs_kind c) v"

lemma kind_fits_value:
  assumes "kind_fits ty c" "cell_value_ok c v"
  shows "if ty = Ty_brand \<or> ty = Ty_category then is_name v
         else v = JNull \<and> \<not> cs_required c \<or> (if ty = Ty_text \<or> ty = Ty_date then is_text v else is_num v)"
  using assms by (cases ty) (auto simp: cell_value_ok_def simp del: is_name_iff)

text \<open>The values the cells of a row are read as.\<close>

lemma cells_read:
  assumes "rd = fold (coerce_cell cx spec ws r) cs rd0" "[] \<notin> set (cx_categories cx)"
  shows "\<exists>vs. rd_data rd = rd_data rd0 @ zip (map cs_field cs) vs \<and> length vs = length cs \<and>
    (no_error (rd_issues rd) \<longrightarrow> (\<forall>c \<in> set cs. \<not> rc_isErrorValue (raw_at cx ws r c)) \<longrightarrow>
       no_error (rd_issues rd0) \<and> list_all2 cell_value_ok cs vs)"
  using assms(1)
proof (induction cs arbitrary: rd0)
  case Nil
  then show ?case by (auto intro!: exI [of _ "[]"])
next
  case (Cons c cs)
  let ?rd = "coerce_cell cx spec ws r c rd0"
  obtain vs where vs: "rd_data rd = rd_data ?rd @ zip (map cs_field cs) vs" "length vs = length cs"
    "no_error (rd_issues rd) \<Longrightarrow> (\<forall>c \<in> set cs. \<not> rc_isErrorValue (raw_at cx ws r c)) \<Longrightarrow>
       no_error (rd_issues ?rd) \<and> list_all2 cell_value_ok cs vs"
    using Cons.IH [of ?rd] Cons.prems by auto
  obtain v where v: "rd_data ?rd = rd_data rd0 @ [(cs_field c, v)]"
    "no_error (rd_issues ?rd) \<Longrightarrow> \<not> rc_isErrorValue (raw_at cx ws r c) \<Longrightarrow>
       no_error (rd_issues rd0) \<and> cell_value_ok c v"
  proof (cases "rc_value (raw_at cx ws r c) = X_null")
    case True
    show thesis
      by (rule that [of JNull]) (use True in \<open>auto simp: coerce_cell_def Let_def cell_value_ok_def split: if_splits\<close>)
  next
    case False
    obtain out seen where o: "coerce (cx_date cx) c (rc_value (raw_at cx ws r c)) (cx_known cx) (rd_seen rd0) (cx_categories cx)
        = (out, seen)" by (metis surj_pair)
    have "rd_data ?rd = rd_data rd0 @ [(cs_field c, co_value out)]"
      "rd_issues ?rd = rd_issues rd0 @ cell_issue_at spec (cell_ref c r) (co_issue out)"
      using False o by (simp_all add: coerce_cell_def Let_def)
    with coerce_kind [OF o _ assms(2)] show thesis by (intro that [of "co_value out"]) (auto simp: cell_value_ok_def)
  qed
  show ?case
    by (rule exI [of _ "v # vs"]) (use vs v in auto)
qed

section \<open>A row\<close>

definition text_trimmed :: "jsval \<Rightarrow> bool" where
  "text_trimmed v = (case v of JStr s \<Rightarrow> trim s = s | _ \<Rightarrow> True)"

lemma text_trimmed_simps [simp]: "text_trimmed (JStr s) \<longleftrightarrow> trim s = s" "text_trimmed (JNum n)"
  by (simp_all add: text_trimmed_def)

definition row_trimmed :: "table_id \<Rightarrow> row_data \<Rightarrow> bool" where
  "row_trimmed t d \<longleftrightarrow> list_all (\<lambda>k. text_trimmed (dat d k)) (ad_keyFields (adapter_of t))"

lemma dat_zip:
  assumes "list_all2 P cs vs" "distinct (map cs_field cs)" "c \<in> set cs"
  shows "P c (dat (zip (map cs_field cs) vs) (cs_field c))"
  using assms
proof (induction rule: list_all2_induct)
  case (Cons x xs y ys)
  then have "c \<in> set xs \<Longrightarrow> cs_field c \<noteq> cs_field x" by (auto simp: image_iff)
  with Cons show ?case by (cases "c = x") (auto simp: dat_def)
qed simp

lemma dat_default_account:
  "dat (default_account spec d) f =
     (if ts_id spec = T_social \<and> f = ''accountName'' \<and> dat d f = JNull then JStr [] else dat d f)"
proof -
  have "map_of (map (\<lambda>(g, v). if g = ''accountName'' then (g, JStr []) else (g, v)) d) f =
      (if f = ''accountName'' then map_option (\<lambda>v. JStr []) (map_of d f) else map_of d f)"
    by (induction d) auto
  then show ?thesis by (auto simp: default_account_def dat_def split: option.splits)
qed

lemma column_ok:
  fixes cx ws r t seen and d :: row_data and rd :: row_read
  assumes rd: "rd = read_cells cx (spec_of t) ws r seen" and cats: "[] \<notin> set (cx_categories cx)"
    and clean: "no_error (rd_issues rd)" "no_error (cell_issues cx (spec_of t) ws r)"
    and d: "d = default_account (spec_of t) (rd_data rd)"
  assumes "c \<in> set (ts_cols (spec_of t))"
  shows "cell_value_ok c (dat (rd_data rd) (cs_field c))"
proof -
  have "\<not> rc_isErrorValue (raw_at cx ws r c)" if "c \<in> set (ts_cols (spec_of t))" for c
    using clean(2) that by (auto simp: cell_issues_def no_error_def list_all_iff Let_def split: if_splits)
  with cells_read [OF rd [unfolded read_cells_def] cats] clean(1) obtain vs where
    "rd_data rd = zip (map cs_field (ts_cols (spec_of t))) vs" "list_all2 cell_value_ok (ts_cols (spec_of t)) vs" by auto
  with dat_zip [OF _ spec_fields_distinct assms(6-)] show ?thesis by simp
qed

lemma field_value:
  fixes cx ws r t seen and d :: row_data and rd :: row_read
  assumes rd: "rd = read_cells cx (spec_of t) ws r seen" and cats: "[] \<notin> set (cx_categories cx)"
    and clean: "no_error (rd_issues rd)" "no_error (cell_issues cx (spec_of t) ws r)"
    and d: "d = default_account (spec_of t) (rd_data rd)"
  assumes "fd \<in> set (ad_fields (adapter_of t))"
  shows "if fd_type fd = Ty_brand \<or> fd_type fd = Ty_category then is_name (dat d (fd_field fd)) else scalar (dat d (fd_field fd))"
proof -
  obtain c where c: "c \<in> set (ts_cols (spec_of t))" "cs_field c = fd_field fd" "kind_fits (fd_type fd) c"
    using spec_covers [of t] assms(6-) by (auto simp: list_all_iff list_ex_iff)
  from kind_fits_value [OF c(3) column_ok [OF rd cats clean d c(1)]] c(2)
  have "if fd_type fd = Ty_brand \<or> fd_type fd = Ty_category then is_name (dat (rd_data rd) (fd_field fd))
        else scalar (dat (rd_data rd) (fd_field fd))"
    by (auto simp: is_num_iff is_text_iff split: if_splits)
  then show ?thesis by (auto simp: d dat_default_account split: if_splits)
qed

lemma row_is_typed:
  fixes cx ws r t seen and d :: row_data and rd :: row_read
  assumes rd: "rd = read_cells cx (spec_of t) ws r seen" and cats: "[] \<notin> set (cx_categories cx)"
    and clean: "no_error (rd_issues rd)" "no_error (cell_issues cx (spec_of t) ws r)"
    and d: "d = default_account (spec_of t) (rd_data rd)"
  shows "row_typed (adapter_of t) d"
  unfolding row_typed_def list_all_iff
proof
  fix fd assume "fd \<in> set (ad_fields (adapter_of t))"
  from field_value [OF rd cats clean d this]
  show "if fd_type fd = Ty_brand \<or> fd_type fd = Ty_category then is_name (dat d (fd_field fd))
        else scalar (dat d (fd_field fd)) \<or> dat d (fd_field fd) = JUndef"
    by (simp split: if_splits)
qed

lemma key_value:
  fixes cx ws r t seen and d :: row_data and rd :: row_read
  assumes rd: "rd = read_cells cx (spec_of t) ws r seen" and cats: "[] \<notin> set (cx_categories cx)"
    and clean: "no_error (rd_issues rd)" "no_error (cell_issues cx (spec_of t) ws r)"
    and d: "d = default_account (spec_of t) (rd_data rd)"
  assumes "k \<in> set (ad_keyFields (adapter_of t))"
  shows "is_num (dat d k) \<and> field_type_of (adapter_of t) k = Ty_int \<or>
         is_text (dat d k) \<and> field_type_of (adapter_of t) k \<in> {Ty_text, Ty_brand, Ty_category}"
proof -
  obtain c where c: "c \<in> set (ts_cols (spec_of t))" "cs_field c = k" "kind_fits (field_type_of (adapter_of t) k) c"
    "cs_required c \<or> t = T_social \<and> k = ''accountName''" "field_type_of (adapter_of t) k \<in> {Ty_int, Ty_text, Ty_brand, Ty_category}"
    using key_fields [of t] assms(6-) unfolding list_all_iff list_ex_iff by blast
  have acc: "field_type_of (adapter_of T_social) ''accountName'' = Ty_text" by (simp add: fdef_def field_type_of_def)
  have name_text: "is_text v" if "is_name v" for v using that by auto
  note val = kind_fits_value [OF c(3) column_ok [OF rd cats clean d c(1)], unfolded c(2)]
  show ?thesis
  proof (cases "t = T_social \<and> k = ''accountName''")
    case True
    then show ?thesis using val acc by (auto simp: d dat_default_account split: if_splits)
  next
    case False
    then have "dat d k = dat (rd_data rd) k" by (auto simp: d dat_default_account)
    with False val c(4,5) name_text [of "dat d k"] show ?thesis by (auto split: if_splits)
  qed
qed

lemma row_has_key:
  fixes cx ws r t seen and d :: row_data and rd :: row_read
  assumes rd: "rd = read_cells cx (spec_of t) ws r seen" and cats: "[] \<notin> set (cx_categories cx)"
    and clean: "no_error (rd_issues rd)" "no_error (cell_issues cx (spec_of t) ws r)"
    and d: "d = default_account (spec_of t) (rd_data rd)"
  shows "has_key (spec_of t) d"
  using key_value [OF rd cats clean d] by (force simp: has_key_def list_all_iff spec_keyFields is_num_iff is_text_iff)

lemma row_key_is_keyOf:
  fixes cx ws r t seen and d :: row_data and rd :: row_read
  assumes rd: "rd = read_cells cx (spec_of t) ws r seen" and cats: "[] \<notin> set (cx_categories cx)"
    and clean: "no_error (rd_issues rd)" "no_error (cell_issues cx (spec_of t) ws r)"
    and d: "d = default_account (spec_of t) (rd_data rd)"
  assumes "row_trimmed t d"
  shows "row_key (spec_of t) d = keyOf (adapter_of t) d"
proof -
  have "(if nullish (dat d k) then [] else to_string (dat d k)) =
      (case normalize (field_type_of (adapter_of t) k) (dat d k) of None \<Rightarrow> [] | Some s \<Rightarrow> s)"
    if k: "k \<in> set (ad_keyFields (adapter_of t))" for k
    using key_value [OF rd cats clean d k] assms(6-) k by (auto simp: row_trimmed_def list_all_iff is_num_iff is_text_iff normalize_def)
  then show ?thesis
    by (auto simp: row_key_def keyOf_def spec_keyFields intro!: arg_cong [of _ _ "join_with _"])
qed

section \<open>A table\<close>

definition rows_ok :: "table_id \<Rightarrow> parsed_row list \<Rightarrow> bool" where
  "rows_ok t rows \<longleftrightarrow>
     list_all (\<lambda>x. row_typed (adapter_of t) (pr_data x)
                 \<and> (row_trimmed t (pr_data x) \<longrightarrow> pr_key x = keyOf (adapter_of t) (pr_data x))) rows \<and>
     distinct (map pr_key rows)"

definition state_ok :: "table_id \<Rightarrow> read_state \<Rightarrow> bool" where
  "state_ok t st \<longleftrightarrow> no_error (sx_issues st) \<longrightarrow> rows_ok t (sx_rows st) \<and> pr_key ` set (sx_rows st) \<subseteq> fst ` set (sx_keys st)"

lemma parse_row_issues: "\<exists>is. sx_issues (parse_row cx spec ws r st) = sx_issues st @ is"
  by (simp add: parse_row_def Let_def)

lemma parse_row_ok:
  assumes st: "state_ok t st" and cats: "[] \<notin> set (cx_categories cx)"
  shows "state_ok t (parse_row cx (spec_of t) ws r st)"
proof (cases "sx_rows (parse_row cx (spec_of t) ws r st) = sx_rows st \<and> sx_keys (parse_row cx (spec_of t) ws r st) = sx_keys st")
  case True
  with st parse_row_issues [of cx "spec_of t" ws r st] show ?thesis by (auto simp: state_ok_def)
next
  case False
  define rd where "rd = read_cells cx (spec_of t) ws r (sx_brandSeen st)"
  define d where "d = default_account (spec_of t) (rd_data rd)"
  define k where "k = row_key (spec_of t) d"
  define col where "col = (list_ex (\<lambda>c. isExampleFill ws r (cs_col c)) (ts_cols (spec_of t)) \<and> \<not> EXAMPLES t (rd_data rd))"
  have eq: "sx_issues (parse_row cx (spec_of t) ws r st) =
      sx_issues st @ cell_issues cx (spec_of t) ws r @ row_issues cx (spec_of t) r col rd d (sx_keys st)"
    "sx_rows (parse_row cx (spec_of t) ws r st) =
      sx_rows st @ [\<lparr>pr_table = t, pr_sheet = ts_sheet (spec_of t), pr_rowNumber = r, pr_key = k, pr_data = d\<rparr>]"
    "sx_keys (parse_row cx (spec_of t) ws r st) =
      (if has_key (spec_of t) d \<and> map_of (sx_keys st) k = None then (k, r) # sx_keys st else sx_keys st)"
    using False by (auto simp: parse_row_def Let_def rd_def d_def k_def col_def split: if_splits)
  show ?thesis
    unfolding state_ok_def
  proof
    assume "no_error (sx_issues (parse_row cx (spec_of t) ws r st))"
    then have ne: "no_error (sx_issues st)" "no_error (cell_issues cx (spec_of t) ws r)" "no_error (rd_issues rd)"
      "has_key (spec_of t) d \<Longrightarrow> map_of (sx_keys st) k = None"
      unfolding eq by (auto simp: row_issues_def k_def split: if_splits)
    note row = row_is_typed [OF rd_def cats ne(3,2) d_def] row_has_key [OF rd_def cats ne(3,2) d_def]
      row_key_is_keyOf [OF rd_def cats ne(3,2) d_def]
    have "k \<notin> fst ` set (sx_keys st)" using ne(4) [OF row(2)] by (simp add: map_of_eq_None_iff)
    then show "rows_ok t (sx_rows (parse_row cx (spec_of t) ws r st)) \<and>
        pr_key ` set (sx_rows (parse_row cx (spec_of t) ws r st)) \<subseteq> fst ` set (sx_keys (parse_row cx (spec_of t) ws r st))"
      using st ne(1) ne(4) [OF row(2)] row unfolding eq state_ok_def by (auto simp: rows_ok_def k_def)
  qed
qed

lemma parse_rows_ok:
  assumes "state_ok t st" "[] \<notin> set (cx_categories cx)"
  shows "state_ok t (fold (parse_row cx (spec_of t) ws) rs st)"
  using assms by (induction rs arbitrary: st) (auto intro: parse_row_ok)

lemma parse_rows_issues: "\<exists>is. sx_issues (fold (parse_row cx spec ws) rs st) = sx_issues st @ is"
proof (induction rs arbitrary: st)
  case (Cons r rs)
  from Cons [of "parse_row cx spec ws r st"] parse_row_issues [of cx spec ws r st] show ?case by auto
qed simp

lemma parse_rows_no_error: "no_error (sx_issues (fold (parse_row cx spec ws) rs st)) \<Longrightarrow> no_error (sx_issues st)"
  using parse_rows_issues [of cx spec ws rs st] by auto

lemma parse_table_ok:
  assumes "[] \<notin> set (cx_categories cx)" "no_error (pt_issues (parse_table cx sheets rows (spec_of t) st))"
  shows "no_error (pt_issues st)" "rows_ok t (tr_rows (pt_tables (parse_table cx sheets rows (spec_of t) st) t))"
    "t' \<noteq> t \<Longrightarrow> pt_tables (parse_table cx sheets rows (spec_of t) st) t' = pt_tables st t'"
proof -
  let ?init = "\<lparr>sx_issues = pt_issues st, sx_brandSeen = pt_seen st, sx_rows = [], sx_empty = 0, sx_examples = 0, sx_keys = []\<rparr>"
  let ?rs = "[Suc (rows t)..<Suc (rows t + (ts_lastRow (spec_of t) - ts_headerRow (spec_of t)))]"
  let ?s = "fold (parse_row cx (spec_of t) (sheets (ts_sheet (spec_of t)))) ?rs ?init"
  have ne: "no_error (sx_issues ?s)" using assms(2) by (simp add: parse_table_def Let_def del: upt_Suc)
  from parse_rows_no_error [OF ne] show "no_error (pt_issues st)" by simp
  have "state_ok t ?init" by (simp add: state_ok_def rows_ok_def)
  from parse_rows_ok [OF this assms(1)] ne have "rows_ok t (sx_rows ?s)" by (simp add: state_ok_def del: upt_Suc)
  then show "rows_ok t (tr_rows (pt_tables (parse_table cx sheets rows (spec_of t) st) t))"
    by (simp add: parse_table_def Let_def del: upt_Suc)
  show "t' \<noteq> t \<Longrightarrow> pt_tables (parse_table cx sheets rows (spec_of t) st) t' = pt_tables st t'"
    by (simp add: parse_table_def Let_def)
qed

lemma parse_tables_ok:
  assumes "no_error (pt_issues (fold (parse_table cx sheets rows) (map spec_of ts) st))" "[] \<notin> set (cx_categories cx)"
    "\<And>t. rows_ok t (tr_rows (pt_tables st t))"
  shows "rows_ok t (tr_rows (pt_tables (fold (parse_table cx sheets rows) (map spec_of ts) st) t))"
  using assms(1)
proof (induction ts arbitrary: t rule: rev_induct)
  case Nil
  then show ?case using assms(3) by simp
next
  case (snoc u ts)
  let ?st = "fold (parse_table cx sheets rows) (map spec_of ts) st"
  have "no_error (pt_issues (parse_table cx sheets rows (spec_of u) ?st))" using snoc.prems by simp
  note step = parse_table_ok [OF assms(2) this]
  from snoc.IH [OF step(1)] step(2) step(3) [of t] show ?case by (cases "t = u") simp_all
qed

section \<open>The workbook\<close>

definition keys_trimmed :: "parse_result \<Rightarrow> bool" where
  "keys_trimmed p \<longleftrightarrow> list_all (\<lambda>t. list_all (\<lambda>r. row_trimmed t (pr_data r)) (tr_rows (pp_tables p t))) table_ids"

definition parse_ok :: "parse_result \<Rightarrow> bool" where
  "parse_ok p \<longleftrightarrow>
     list_all (\<lambda>t. list_all (\<lambda>r. row_typed (adapter_of t) (pr_data r)) (tr_rows (pp_tables p t)) \<and>
                   distinct (map (\<lambda>r. keyOf (adapter_of t) (pr_data r)) (tr_rows (pp_tables p t)))) table_ids"

lemma parse_sheets_ok:
  assumes "errors_of (parse_sheets lib sheets rows opts ex) = []" "[] \<notin> set (cx_categories (context_of lib opts ex))"
    "keys_trimmed (parse_sheets lib sheets rows opts ex)"
  shows "parse_ok (parse_sheets lib sheets rows opts ex)"
proof -
  let ?p = "parse_sheets lib sheets rows opts ex" and ?cx = "context_of lib opts ex"
  have "no_error (pt_issues (read_tables ?cx sheets rows))"
    using assms(1) by (simp add: no_error_errors_of parse_sheets_def Let_def)
  from parse_tables_ok [OF this [unfolded read_tables_def TABLES_specs] assms(2)]
  have ok: "rows_ok t (tr_rows (pp_tables ?p t))" for t
    by (simp add: parse_sheets_def Let_def read_tables_def TABLES_specs rows_ok_def empty_table_def)
  have "distinct (map (\<lambda>r. keyOf (adapter_of t) (pr_data r)) (tr_rows (pp_tables ?p t)))" if "t \<in> set table_ids" for t
  proof -
    have eq: "map (\<lambda>r. keyOf (adapter_of t) (pr_data r)) (tr_rows (pp_tables ?p t)) = map pr_key (tr_rows (pp_tables ?p t))"
      using ok [of t] assms(3) that by (auto simp: keys_trimmed_def rows_ok_def list_all_iff)
    show ?thesis unfolding eq using ok [of t] by (simp add: rows_ok_def)
  qed
  with ok show ?thesis by (auto simp: parse_ok_def rows_ok_def list_all_iff)
qed

definition categories_of :: "parse_options \<Rightarrow> string list" where
  "categories_of opts = (case po_knownCategories opts of None \<Rightarrow> DEFAULT_SPEND_CATEGORIES | Some cs \<Rightarrow> cs)"

lemma parse_workbook_ok:
  assumes "parseMarcomWorkbook lib buf filename opts ex = Inr p" "errors_of p = []" "[] \<notin> set (categories_of opts)"
    "keys_trimmed p"
  shows "parse_ok p"
proof -
  obtain sheets rows where p: "p = parse_sheets lib sheets rows opts ex"
    using assms(1) by (auto simp: parseMarcomWorkbook_def rbind_eq_Inr Let_def split: option.splits list.splits if_splits)
  from assms(2-4) show ?thesis
    unfolding p by (intro parse_sheets_ok) (simp_all add: context_of_def categories_of_def)
qed

lemma run_parse_ok:
  assumes "runParse lib ending buf filename opts = Inr p" "errors_of p = []" "[] \<notin> set (categories_of opts)" "keys_trimmed p"
  shows "parse_ok p"
proof -
  let ?opts = "opts\<lparr>po_knownBrands := Some (list_or_empty (po_knownBrands opts)),
                  po_knownCampaigns := Some (list_or_empty (po_knownCampaigns opts))\<rparr>"
  have "parseMarcomWorkbook lib buf filename ?opts False = Inr p"
    using assms(1) by (auto simp: runParse_def worker_answer_def split: worker_end.splits sum.splits marcom_error.splits)
  from parse_workbook_ok [OF this] assms(2-4) show ?thesis by (simp add: categories_of_def)
qed

end
