(* ===== verification/Marcom_History.thy ===== *)
theory Marcom_History
  imports Marcom_Commit
begin

text \<open>
  The invariant of the MARCOM tables and that a commit keeps it: \<open>table_ok\<close> for one table (ids, batches,
  foreign keys, the unique index, the history of \<open>Marcom_Store\<close>), \<open>store_ok\<close> for the database. The lemmas
  of a commit say which rows and brands it adds; \<open>Marcom_Safety\<close> builds the claims on them.
\<close>

section \<open>The invariant\<close>

definition brand_ref_ok :: "table_id \<Rightarrow> mk_brand list \<Rightarrow> mk_row \<Rightarrow> bool" where
  "brand_ref_ok t bs r \<longleftrightarrow>
     nullish (dat (kr_cols r) ''brand_id'') \<or>
     (t \<in> set BRAND_TABLES \<and> list_ex (\<lambda>b. dat (kr_cols r) ''brand_id'' = id_val (kb_id b)) bs)"

definition table_ok :: "mk_env \<Rightarrow> mk_brand list \<Rightarrow> mk_category list \<Rightarrow> nat \<Rightarrow> table_id \<Rightarrow> mk_table \<Rightarrow> bool" where
  "table_ok env bs cs N t tb \<longleftrightarrow>
     distinct (map kr_id (snd tb)) \<and>
     list_all (\<lambda>r. kr_id r < fst tb \<and> kr_batch r < N \<and> brand_ref_ok t bs r) (snd tb) \<and>
     unique_ok env (adapter_of t) (snd tb) \<and>
     history_ok (read_rows bs cs (adapter_of t) (snd tb))"

definition table_of :: "mk_db \<Rightarrow> table_id \<Rightarrow> mk_table" where
  "table_of db t = (kd_next db t, kd_rows db t)"

definition store_ok :: "mk_service \<Rightarrow> mk_db \<Rightarrow> bool" where
  "store_ok svc db \<longleftrightarrow>
     list_all (\<lambda>t. table_ok (sv_env svc) (kd_brands db) (kd_categories db) (kd_next_batch db) t (table_of db t)) table_ids \<and>
     distinct (map kb_id (kd_brands db)) \<and>
     list_all (\<lambda>b. kb_id b < kd_next_brand db \<and> (case kb_created b of None \<Rightarrow> True | Some B \<Rightarrow> B < kd_next_batch db)) (kd_brands db) \<and>
     distinct (map kc_id (kd_categories db)) \<and>
     distinct (map mb_id (kd_batches db)) \<and>
     list_all (\<lambda>b. mb_id b < kd_next_batch db) (kd_batches db) \<and>
     list_all (\<lambda>c. kc_name c \<noteq> []) (kd_categories db)"

lemma table_okD:
  assumes "table_ok env bs cs N t (n, rows)"
  shows "distinct (map kr_id rows)" "\<And>r. r \<in> set rows \<Longrightarrow> kr_id r < n" "\<And>r. r \<in> set rows \<Longrightarrow> kr_batch r < N"
    "\<And>r. r \<in> set rows \<Longrightarrow> brand_ref_ok t bs r" "unique_ok env (adapter_of t) rows"
    "history_ok (read_rows bs cs (adapter_of t) rows)"
  using assms by (auto simp: table_ok_def list_all_iff)

lemma store_okD:
  assumes "store_ok svc db"
  shows "table_ok (sv_env svc) (kd_brands db) (kd_categories db) (kd_next_batch db) t (kd_next db t, kd_rows db t)"
    "distinct (map kb_id (kd_brands db))" "\<And>b. b \<in> set (kd_brands db) \<Longrightarrow> kb_id b < kd_next_brand db"
    "\<And>b B. b \<in> set (kd_brands db) \<Longrightarrow> kb_created b = Some B \<Longrightarrow> B < kd_next_batch db"
    "distinct (map kc_id (kd_categories db))" "distinct (map mb_id (kd_batches db))"
    "\<And>b. b \<in> set (kd_batches db) \<Longrightarrow> mb_id b < kd_next_batch db"
    "\<And>c. c \<in> set (kd_categories db) \<Longrightarrow> kc_name c \<noteq> []"
  using assms by (auto simp: store_ok_def table_of_def list_all_iff split: option.splits)

section \<open>The unique index under the writes\<close>

lemma unique_ok_append:
  "unique_ok env a (xs @ ys) \<longleftrightarrow>
   unique_ok env a xs \<and> unique_ok env a ys \<and> (\<forall>x \<in> set xs. \<forall>y \<in> set ys. \<not> collides env a x y)"
  by (induction xs) (auto simp: list_ex_iff)

lemma collides_current: "collides env a x y \<Longrightarrow> kr_current x \<and> kr_current y"
  by (simp add: collides_def)

lemma collides_cols:
  "kr_cols x = kr_cols x' \<Longrightarrow> kr_cols y = kr_cols y' \<Longrightarrow> kr_current x = kr_current x' \<Longrightarrow> kr_current y = kr_current y' \<Longrightarrow>
   collides env a x y = collides env a x' y'"
  by (simp add: collides_def)

lemma unique_ok_replace:
  assumes "unique_ok env a rows"
  shows "unique_ok env a (replace_rows B U rows)"
  using assms
proof (induction rows)
  case (Cons r rows)
  have "\<not> collides env a (if kr_id r \<in> set U then r\<lparr>kr_current := False, kr_superseded := Some B\<rparr> else r) y"
    if "y \<in> set (replace_rows B U rows)" for y
  proof
    assume c: "collides env a (if kr_id r \<in> set U then r\<lparr>kr_current := False, kr_superseded := Some B\<rparr> else r) y"
    from collides_current [OF c] have "kr_id r \<notin> set U" "kr_current y" by (auto split: if_splits)
    with replace_rows_mem that have "y \<in> set rows" by blast
    with c \<open>kr_id r \<notin> set U\<close> Cons.prems show False by (auto simp: list_ex_iff)
  qed
  with Cons show ?case by (auto simp: replace_rows_def list_ex_iff)
qed (simp add: replace_rows_def)

lemma unique_ok_insert:
  assumes "insertRow env bs cs a B d (n, rows) = Inr t" "unique_ok env a rows"
  shows "unique_ok env a (snd t)"
  using assms(2) by (rule_tac insertRow_Inr [OF assms(1)]) (auto simp: unique_ok_append list_ex_iff)

lemma unique_ok_supersede:
  assumes "supersede B i (n, rows) = Inr t" "unique_ok env a rows" "distinct (map kr_id rows)"
  shows "unique_ok env a (snd t)"
  using supersede_Inr(1) [OF assms(1,3)] unique_ok_replace [OF assms(2)] by simp

lemma unique_ok_writes:
  assumes "distinct (map kr_id rows)" "\<And>r. r \<in> set rows \<Longrightarrow> kr_id r < n" "unique_ok env (adapter_of t) rows"
    "write_diff env bs cs (adapter_of t) B d (n, rows) = Inr s" "\<And>u. u \<in> set (df_updates d) \<Longrightarrow> ru_existingId u < n"
  shows "unique_ok env (adapter_of t) (snd s)"
proof -
  let ?ok = "\<lambda>s. unique_ok env (adapter_of t) (snd s)"
  note ids = written_ids [OF assms(1,2)]
  have ins: "?ok s'" if "insertRow env bs cs (adapter_of t) B x s = Inr s'" "?ok s" for x s s'
    using unique_ok_insert that by (metis prod.collapse)
  have inserts: "?ok s'" if "rfold (\<lambda>r. insertRow env bs cs (adapter_of t) B (pr_data r)) rs s = Inr s'" "?ok s" for rs s s'
    using that by (induction rs arbitrary: s) (auto simp: rbind_eq_Inr dest: ins)
  have updates: "?ok s'"
    if "rfold (write_update env bs cs (adapter_of t) B) us (written B n rows U colss) = Inr s'"
      "?ok (written B n rows U colss)" "\<And>u. u \<in> set us \<Longrightarrow> ru_existingId u < n" for us U colss s'
    using that
  proof (induction us arbitrary: U colss)
    case (Cons u us)
    obtain m where m: "write_update env bs cs (adapter_of t) B u (written B n rows U colss) = Inr m"
      and rest: "rfold (write_update env bs cs (adapter_of t) B) us m = Inr s'"
      using Cons.prems(1) by (auto simp: rbind_eq_Inr)
    have "?ok m"
    proof -
      obtain k where k: "supersede B (ru_existingId u) (written B n rows U colss) = Inr k"
        and i: "insertRow env bs cs (adapter_of t) B (pr_data (ru_row u)) k = Inr m"
        using m unfolding write_update_def rbind_eq_Inr by blast
      have "?ok k"
        using unique_ok_supersede [of B _ "fst (written B n rows U colss)" "snd (written B n rows U colss)"] k Cons.prems(2) ids
        by simp
      with ins [OF i] show ?thesis .
    qed
    obtain c where "m = written B n rows (U @ [ru_existingId u]) (colss @ [c])"
      by (rule update_written [OF assms(1,2) m]) (use Cons.prems(3) in auto)
    with Cons.IH rest \<open>?ok m\<close> Cons.prems(3) show ?case by auto
  qed simp
  have start: "(n, rows) = written B n rows [] []" by (simp add: written_def)
  obtain m where m: "rfold (write_update env bs cs (adapter_of t) B) (df_updates d) (written B n rows [] []) = Inr m"
    and i: "rfold (\<lambda>r. insertRow env bs cs (adapter_of t) B (pr_data r)) (df_inserts d) m = Inr s"
    using assms(4) unfolding write_diff_def rbind_eq_Inr start by blast
  have "?ok m" using updates [OF m _ assms(5)] assms(3) by (simp add: written_def)
  with inserts [OF i] show ?thesis .
qed

section \<open>Reading with more brands\<close>

lemma find_append_Some: "List.find P xs = Some x \<Longrightarrow> List.find P (xs @ ys) = Some x"
  by (induction xs) auto

lemma brand_name_append:
  assumes "nullish v \<or> list_ex (\<lambda>b. v = id_val (kb_id b)) bs"
  shows "brand_name (bs @ new) v = brand_name bs v"
proof (cases "nullish v")
  case True
  then have "id_val n \<noteq> v" for n by (auto simp: id_val_def)
  then have "List.find (\<lambda>b. id_val (kb_id b) = v) xs = None" for xs by (simp add: find_None_iff)
  from this [of bs] this [of "bs @ new"] show ?thesis by (simp add: brand_name_def)
next
  case False
  then obtain b where "List.find (\<lambda>b. id_val (kb_id b) = v) bs = Some b"
    using assms find_exists [of _ bs "\<lambda>b. id_val (kb_id b) = v"] by (auto simp: list_ex_iff)
  then show ?thesis by (simp add: brand_name_def find_append_Some)
qed

lemma join_row_append:
  assumes "brand_ref_ok t bs r"
  shows "join_row (bs @ new) cs (adapter_of t) r = join_row bs cs (adapter_of t) r"
proof -
  have "selectCol (bs @ new) cs r fd = selectCol bs cs r fd" if "fd \<in> set (ad_fields (adapter_of t))" for fd
    using adapter_brand_col [OF that] brand_name_append assms
    by (cases "fd_type fd") (auto simp: selectCol_def brand_ref_ok_def)
  then show ?thesis by (simp add: join_row_def cong: map_cong)
qed

lemma read_row_append: "brand_ref_ok t bs r \<Longrightarrow> read_row (bs @ new) cs (adapter_of t) r = read_row bs cs (adapter_of t) r"
  by (simp add: read_row_def join_row_append)

section \<open>A commit on one table\<close>

lemma read_rows_append [simp]: "read_rows bs cs a (xs @ ys) = read_rows bs cs a xs @ read_rows bs cs a ys"
  by (induction xs) (simp_all add: read_rows_def map_filter_simps split: option.splits)

lemma read_replaced:
  assumes "\<And>r. r \<in> set rows \<Longrightarrow> brand_ref_ok t bs r"
  shows "read_rows (bs @ nb) cs (adapter_of t) (replace_rows B U rows) =
         map (\<lambda>r. if dr_id r \<in> set U then superseded_by B r else r) (read_rows bs cs (adapter_of t) rows)"
  using assms
proof (induction rows)
  case (Cons r rows)
  have j: "read_row (bs @ nb) cs (adapter_of t) r = read_row bs cs (adapter_of t) r"
    using read_row_append Cons.prems by simp
  show ?case
  proof (cases "read_row bs cs (adapter_of t) r")
    case None
    then show ?thesis using Cons j by (simp add: replace_rows_def read_rows_def map_filter_simps)
  next
    case (Some x)
    then show ?thesis using Cons j read_row_fields(1) [OF Some]
      by (simp add: replace_rows_def read_rows_def map_filter_simps superseded_by_def)
  qed
qed (simp add: replace_rows_def read_rows_def map_filter_simps)

lemma new_rows_Cons: "new_rows B n (c # cs) = new_row B n c # new_rows B (Suc n) cs"
  by (simp add: new_rows_def upt_conv_Cons del: upt_Suc)

lemma read_new_rows:
  assumes "list_all2 (\<lambda>x c. row_values bs cs (adapter_of t) x = Some c) ds colss"
    "\<And>d. d \<in> set ds \<Longrightarrow> row_typed (adapter_of t) d" "distinct (map kb_id bs)" "distinct (map kc_id cs)"
  shows "map dr_key (read_rows bs cs (adapter_of t) (new_rows B n colss)) = map (keyOf (adapter_of t)) ds
    \<and> map dr_id (read_rows bs cs (adapter_of t) (new_rows B n colss)) = [n..<n + length colss]
    \<and> (\<forall>x \<in> set (read_rows bs cs (adapter_of t) (new_rows B n colss)). dr_batch x = B \<and> dr_current x \<and> dr_superseded x = None)"
  using assms(1,2)
proof (induction ds colss arbitrary: n rule: list_all2_induct)
  case Nil
  then show ?case by (simp add: read_rows_def map_filter_simps)
next
  case (Cons d ds c colss)
  obtain x where x: "read_row bs cs (adapter_of t) (new_row B n c) = Some x" "dr_key x = keyOf (adapter_of t) d"
    using stored_key [OF Cons.hyps(1) _ assms(3,4), of "new_row B n c"] Cons.prems by auto
  note f = read_row_fields [OF x(1)]
  have tl: "read_rows bs cs (adapter_of t) (new_rows B n (c # colss)) =
      x # read_rows bs cs (adapter_of t) (new_rows B (Suc n) colss)"
    using x(1) by (simp add: new_rows_Cons read_rows_def map_filter_simps)
  from Cons.IH [of "Suc n"] Cons.prems have IH:
    "map dr_key (read_rows bs cs (adapter_of t) (new_rows B (Suc n) colss)) = map (keyOf (adapter_of t)) ds"
    "map dr_id (read_rows bs cs (adapter_of t) (new_rows B (Suc n) colss)) = [Suc n..<Suc n + length colss]"
    "\<forall>x \<in> set (read_rows bs cs (adapter_of t) (new_rows B (Suc n) colss)). dr_batch x = B \<and> dr_current x \<and> dr_superseded x = None"
    by (auto simp del: upt_Suc)
  then show ?case using x(2) f unfolding tl by (simp add: upt_conv_Cons del: upt_Suc)
qed

lemma map_filter_filter:
  assumes "\<And>x y. f x = Some y \<Longrightarrow> g y = h x"
  shows "map g (List.map_filter f xs) = map h (filter (\<lambda>x. f x \<noteq> None) xs)"
  using assms by (induction xs) (auto simp: map_filter_simps split: option.splits)

lemma written_data_diff:
  "written_data (diffTable a rows c []) =
   map pr_data (filter (\<lambda>r. update_of a c r \<noteq> None) rows) @ map pr_data (filter (is_new a c) rows)"
  using map_filter_filter [of "update_of a c" "\<lambda>u. pr_data (ru_row u)" pr_data rows] update_of_Some(1)
  by (auto simp: written_data_def diffTable_classes)

lemma written_keys:
  assumes "distinct (map (\<lambda>r. keyOf a (pr_data r)) rows)"
  shows "distinct (map (keyOf a) (written_data (diffTable a rows c [])))"
proof -
  have disj: "\<not> (update_of a c r \<noteq> None \<and> is_new a c r)" for r
    by (cases "existing_row a c (keyOf a (pr_data r))") (auto simp: update_of_def is_new_def)
  have inj: "r = s" if "r \<in> set rows" "s \<in> set rows" "keyOf a (pr_data r) = keyOf a (pr_data s)" for r s
    using assms that by (auto simp: distinct_map dest: inj_onD)
  have sep: "keyOf a (pr_data r) \<noteq> keyOf a (pr_data s)"
    if "r \<in> set rows" "s \<in> set rows" "update_of a c r \<noteq> None" "is_new a c s" for r s
    using inj [OF that(1,2)] that(3,4) disj [of r] by auto
  have "distinct (map (\<lambda>r. keyOf a (pr_data r)) (filter P rows))" for P
    using assms by (rule distinct_map_filter)
  moreover have "(\<lambda>r. keyOf a (pr_data r)) ` set (filter (\<lambda>r. update_of a c r \<noteq> None) rows)
      \<inter> (\<lambda>r. keyOf a (pr_data r)) ` set (filter (is_new a c) rows) = {}"
    using sep by fastforce
  ultimately show ?thesis
    by (simp add: written_data_diff comp_def image_image)
qed

lemma currentRows_mem:
  assumes "(i, d) \<in> set (currentRows bs cs a rows)"
  shows "\<exists>x \<in> set (read_rows bs cs a rows). dr_id x = i \<and> dr_key x = keyOf a d \<and> dr_current x"
proof -
  obtain r where r: "r \<in> set rows" "kr_current r" "kr_id r = i" "join_row bs cs a r = Some d"
    using assms by (auto simp: currentRows_def mem_map_filter)
  let ?x = "\<lparr>dr_id = kr_id r, dr_batch = kr_batch r, dr_current = kr_current r,
    dr_superseded = kr_superseded r, dr_key = keyOf a d, dr_label = keyLabel a d\<rparr>"
  have "?x \<in> set (read_rows bs cs a rows)"
    using r(1,4) unfolding read_rows_def mem_map_filter by (intro bexI [of _ r]) (simp_all add: read_row_def)
  then show ?thesis using r(2,3) by (intro bexI [of _ ?x]) simp_all
qed

lemma currentRows_of:
  assumes "x \<in> set (read_rows bs cs a rows)" "dr_current x"
  shows "\<exists>d. (dr_id x, d) \<in> set (currentRows bs cs a rows) \<and> keyOf a d = dr_key x"
proof -
  obtain r where r: "r \<in> set rows" "read_row bs cs a r = Some x"
    using assms(1) by (auto simp: read_rows_def mem_map_filter)
  then obtain d where d: "join_row bs cs a r = Some d" "dr_key x = keyOf a d"
    by (auto simp: read_row_def)
  then have "(kr_id r, d) \<in> set (currentRows bs cs a rows)"
    using r assms(2) read_row_fields [OF r(2)] by (auto simp: currentRows_def mem_map_filter intro!: bexI [of _ r])
  with d read_row_fields [OF r(2)] show ?thesis by auto
qed

lemma row_values_keys: "row_values bs cs a d = Some cols \<Longrightarrow> map fst cols = map fd_col (ad_fields a)"
proof -
  have "map fst cols = map fd_col fds"
    if "those (map (\<lambda>fd. map_option (\<lambda>v. (fd_col fd, v)) (g fd)) fds) = Some cols" for fds cols and g :: "field_def \<Rightarrow> jsval option"
    using that by (induction fds arbitrary: cols) (auto split: option.splits)
  then show "row_values bs cs a d = Some cols \<Longrightarrow> map fst cols = map fd_col (ad_fields a)"
    by (auto simp: row_values_def)
qed

lemma not_in_image: "(\<And>x. x \<in> S \<Longrightarrow> f x \<noteq> c) \<Longrightarrow> c \<notin> f ` S"
  by auto

lemma stored_brand_ref:
  assumes "row_values bs cs (adapter_of t) d = Some cols" "row_typed (adapter_of t) d"
    "distinct (map kb_id bs)" "distinct (map kc_id cs)" "kr_cols r = cols"
  shows "brand_ref_ok t bs (r :: mk_row)"
proof (cases "\<exists>fd \<in> set (ad_fields (adapter_of t)). fd_type fd = Ty_brand")
  case True
  then obtain fd where fd: "fd \<in> set (ad_fields (adapter_of t))" "fd_type fd = Ty_brand" by blast
  obtain s where "dat d (fd_field fd) = JStr s"
    using assms(2) fd(2) unfolding row_typed_def list_all_iff by (auto dest!: bspec [OF _ fd(1)])
  then obtain n where n: "brand_id bs (to_lower s) = Some n" "dat cols (fd_col fd) = id_val n"
    using stored_column [OF assms fd(1)] fd(2)
    by (auto simp: column_value_def resolved_def split: option.splits if_splits)
  moreover have "fd_col fd = ''brand_id''" using adapter_brand_col [OF fd(1)] fd(2) by simp
  moreover have "t \<in> set BRAND_TABLES" using brand_tables fd by blast
  ultimately show ?thesis
    using brand_id_Some [OF n(1) assms(3)] assms(5) by (auto simp: brand_ref_ok_def list_ex_iff)
next
  case False
  have "fst ` set cols = set (map fst cols)" by simp
  also have "\<dots> = fd_col ` set (ad_fields (adapter_of t))" using row_values_keys [OF assms(1)] by simp
  finally have eq: "fst ` set cols = fd_col ` set (ad_fields (adapter_of t))" .
  have "fd_col fd \<noteq> ''brand_id''" if fd: "fd \<in> set (ad_fields (adapter_of t))" for fd
    using False fd adapter_brand_col [OF fd] by blast
  then have "''brand_id'' \<notin> fst ` set cols" unfolding eq by (rule not_in_image)
  then have "map_of cols ''brand_id'' = None" by (simp add: map_of_eq_None_iff)
  then have "dat cols ''brand_id'' = JUndef" by (simp add: dat_def)
  then show ?thesis using assms(5) by (simp add: brand_ref_ok_def)
qed

lemma brand_ref_append: "brand_ref_ok t bs r \<Longrightarrow> brand_ref_ok t (bs @ nb) r"
  by (auto simp: brand_ref_ok_def)

lemma list_all2_right: "list_all2 P xs ys \<Longrightarrow> y \<in> set ys \<Longrightarrow> \<exists>x \<in> set xs. P x y"
  by (induction xs ys rule: list_all2_induct) auto

text \<open>A table after a commit: one history step, and the invariant again.\<close>

lemma table_commit:
  assumes ok: "table_ok env bs cs B t (n, rows)"
    and bids: "distinct (map kb_id (bs @ nb))" and cids: "distinct (map kc_id cs)"
    and typed: "\<And>r. r \<in> set prows \<Longrightarrow> row_typed (adapter_of t) (pr_data r)"
    and keys: "distinct (map (\<lambda>r. keyOf (adapter_of t) (pr_data r)) prows)"
    and d: "d = diffTable (adapter_of t) prows (currentRows bs cs (adapter_of t) rows) []"
    and w: "write_diff env (bs @ nb) cs (adapter_of t) B d (n, rows) = Inr (n', rows')"
  obtains U colss where "(n', rows') = written B n rows U colss"
    "list_all2 (\<lambda>x c. row_values (bs @ nb) cs (adapter_of t) x = Some c) (written_data d) colss"
    "\<And>r. r \<in> set rows \<Longrightarrow> kr_id r \<in> set U \<Longrightarrow> kr_current r \<and> kr_superseded r = None \<and> join_row bs cs (adapter_of t) r \<noteq> None"
    "read_rows (bs @ nb) cs (adapter_of t) rows' =
       with_batch B U (read_rows (bs @ nb) cs (adapter_of t) (new_rows B n colss)) (read_rows bs cs (adapter_of t) rows)"
    "table_ok env (bs @ nb) cs (Suc B) t (n', rows')"
proof -
  note T = table_okD [OF ok]
  let ?a = "adapter_of t" and ?c = "currentRows bs cs (adapter_of t) rows"
  let ?rs = "read_rows bs cs (adapter_of t) rows"
  let ?U = "map ru_existingId (df_updates d)"
  have upd: "u \<in> set (df_updates d) \<Longrightarrow> \<exists>r \<in> set prows. update_of ?a ?c r = Some u" for u
    by (auto simp: d diffTable_classes mem_map_filter)
  have U: "\<exists>x \<in> set ?rs. dr_id x = ru_existingId u \<and> dr_key x = keyOf ?a (pr_data (ru_row u)) \<and> dr_current x"
    if u: "u \<in> set (df_updates d)" for u
  proof -
    obtain r where r: "update_of ?a ?c r = Some u" using upd [OF u] by blast
    obtain old where "(ru_existingId u, old) \<in> set ?c" "keyOf ?a old = keyOf ?a (pr_data r)"
      using update_of_Some(2) [OF r] by blast
    then show ?thesis using currentRows_mem [of _ _ bs cs ?a rows] update_of_Some(1) [OF r] by fastforce
  qed
  have rid: "\<exists>r \<in> set rows. read_row bs cs ?a r = Some x" if "x \<in> set ?rs" for x
    using that by (simp add: read_rows_def mem_map_filter)
  have lt: "ru_existingId u < n" if "u \<in> set (df_updates d)" for u
    using U [OF that] rid T(2) read_row_fields(1) by metis
  obtain colss where c: "(n', rows') = written B n rows ?U colss"
    "list_all2 (\<lambda>x c. row_values (bs @ nb) cs ?a x = Some c) (written_data d) colss"
    using write_diff_written [OF T(1,2) w lt] by auto
  have wtyped: "row_typed ?a x" if "x \<in> set (written_data d)" for x
    using that typed by (auto simp: d written_data_diff)
  note new = read_new_rows [OF c(2) wtyped bids cids, of B n]
  let ?new = "read_rows (bs @ nb) cs ?a (new_rows B n colss)"
  have rows': "rows' = replace_rows B ?U rows @ new_rows B n colss" and n': "n' = n + length colss"
    using c(1) by (simp_all add: written_def)
  have rd: "read_rows (bs @ nb) cs ?a rows' = with_batch B ?U ?new ?rs"
    unfolding rows' with_batch_def by (simp add: read_replaced [OF T(4)])
  have Ur: "kr_current r \<and> kr_superseded r = None \<and> join_row bs cs ?a r \<noteq> None"
    if r: "r \<in> set rows" "kr_id r \<in> set ?U" for r
  proof -
    obtain u where u: "u \<in> set (df_updates d)" "ru_existingId u = kr_id r" using r(2) by auto
    obtain x where x: "x \<in> set ?rs" "dr_id x = kr_id r" "dr_current x" using U [OF u(1)] u(2) by auto
    obtain s where s: "s \<in> set rows" "read_row bs cs ?a s = Some x" using rid [OF x(1)] by blast
    have "s = r" using same_kr_id [OF T(1) s(1) r(1)] read_row_fields(1) [OF s(2)] x(2) by simp
    then show ?thesis
      using read_row_fields [OF s(2)] x(3) history_live_link [OF T(6) x(1)] s(2) by (auto simp: read_row_def)
  qed
  have keyset: "dr_key ` set ?new = keyOf ?a ` set (written_data d)"
    using new by (metis list.set_map)
  have hist: "history_ok (with_batch B ?U ?new ?rs)"
  proof (rule with_batch_history [OF T(6)])
    show "dr_batch x < B" if "x \<in> set ?rs" for x
      using rid [OF that] T(3) read_row_fields(2) by metis
    show "dr_batch x = B \<and> dr_current x \<and> dr_superseded x = None" if "x \<in> set ?new" for x
      using new that by blast
    have "dr_id x < n" if "x \<in> set ?rs" for x
      using rid [OF that] T(2) read_row_fields(1) by metis
    then have "dr_id ` set ?rs \<inter> set [n..<n + length colss] = {}" by fastforce
    then show "distinct (map dr_id ?rs @ map dr_id ?new)"
      using new history_ids [OF T(6)] by (simp only: distinct_append set_map) (auto simp: distinct_upt)
    show "distinct (map dr_key ?new)"
      using new written_keys [OF keys, of ?c] by (simp add: d)
    show "dr_current x \<and> dr_key x \<in> dr_key ` set ?new" if x: "x \<in> set ?rs" "dr_id x \<in> set ?U" for x
    proof -
      obtain u where u: "u \<in> set (df_updates d)" "ru_existingId u = dr_id x" using x(2) by auto
      obtain y where y: "y \<in> set ?rs" "dr_id y = dr_id x" "dr_key y = keyOf ?a (pr_data (ru_row u))" "dr_current y"
        using U [OF u(1)] u(2) by auto
      have "y = x" using history_same_id [OF T(6) y(1) x(1) y(2)] .
      moreover have "pr_data (ru_row u) \<in> set (written_data d)" using u(1) by (auto simp: written_data_def)
      ultimately show ?thesis using y unfolding keyset by blast
    qed
    show "dr_id x \<in> set ?U" if x: "x \<in> set ?rs" "y \<in> set ?new" "dr_key x = dr_key y" "dr_current x" for x y
    proof -
      have "dr_key x \<in> keyOf ?a ` set (written_data d)" using x(2,3) keyset by auto
      then obtain w where w: "w \<in> set (written_data d)" "dr_key x = keyOf ?a w" by blast
      obtain e where e: "(dr_id x, e) \<in> set ?c" "keyOf ?a e = dr_key x" using currentRows_of [OF x(1,4)] by blast
      obtain r where r: "r \<in> set prows" "w = pr_data r" "update_of ?a ?c r \<noteq> None \<or> is_new ?a ?c r"
        using w(1) by (auto simp: d written_data_diff)
      have "existing_row ?a ?c (keyOf ?a (pr_data r)) \<noteq> None"
        using e w(2) r(2) existing_row_None by fastforce
      then obtain u where u: "update_of ?a ?c r = Some u" using r(3) by (auto simp: is_new_def)
      have mem: "u \<in> set (df_updates d)" using u r(1) by (auto simp: d diffTable_classes mem_map_filter)
      from U [OF mem] obtain y where y: "y \<in> set ?rs" "dr_id y = ru_existingId u" "dr_key y = keyOf ?a w" "dr_current y"
        using update_of_Some(1) [OF u] r(2) by auto
      have "x = y" using history_one_live [OF T(6) x(1) y(1) _ x(4) y(4)] w(2) y(3) by simp
      then show ?thesis using mem y(2) by auto
    qed
  qed
  have uniq: "unique_ok env ?a rows'"
    using unique_ok_writes [OF T(1,2,5) w lt] by simp
  have newrefs: "brand_ref_ok t (bs @ nb) r" if r: "r \<in> set (new_rows B n colss)" for r
  proof -
    have "kr_cols r \<in> set colss" using r new_rows_facts(2) [of B n colss] by (metis image_eqI list.set_map)
    then obtain x where x: "x \<in> set (written_data d)" "row_values (bs @ nb) cs ?a x = Some (kr_cols r)"
      using list_all2_right [OF c(2)] by blast
    show ?thesis using stored_brand_ref [OF x(2) wtyped [OF x(1)] bids cids refl] .
  qed
  have newids: "kr_id r < n'" if "r \<in> set (new_rows B n colss)" for r
    using that new_rows_facts(1) [of B n colss] n' by (metis atLeastLessThan_iff image_eqI list.set_map set_upt)
  have "table_ok env (bs @ nb) cs (Suc B) t (n', rows')"
    unfolding table_ok_def fst_conv snd_conv
  proof (intro conjI)
    show "distinct (map kr_id rows')" using written_ids [OF T(1,2), of B ?U colss] c(1) by (metis snd_conv)
    have old: "kr_id r < n' \<and> kr_batch r < Suc B \<and> brand_ref_ok t (bs @ nb) r" if r: "r \<in> set (replace_rows B ?U rows)" for r
    proof -
      obtain s where s: "s \<in> set rows" "kr_id r = kr_id s" "kr_batch r = kr_batch s" "kr_cols r = kr_cols s"
        using r by (auto simp: replace_rows_def split: if_splits)
      have "brand_ref_ok t (bs @ nb) s" using brand_ref_append [OF T(4) [OF s(1)]] .
      then have "brand_ref_ok t (bs @ nb) r" using s(4) by (simp add: brand_ref_ok_def)
      with T(2,3) [OF s(1)] s n' show ?thesis by auto
    qed
    show "list_all (\<lambda>r. kr_id r < n' \<and> kr_batch r < Suc B \<and> brand_ref_ok t (bs @ nb) r) rows'"
      unfolding rows' using old newrefs newids new_rows_facts(3) by (auto simp: list_all_iff)
    show "unique_ok env ?a rows'" by (rule uniq)
    show "history_ok (read_rows (bs @ nb) cs ?a rows')" unfolding rd by (rule hist)
  qed
  from that [OF c Ur rd this] show thesis .
qed

end
