(* ===== verification/Marcom_Safety.thy ===== *)
theory Marcom_Safety
  imports Marcom_History Marcom_Typed
begin

text \<open>
  A commit keeps the invariant of the store and is undone exactly by its rollback. What the service needs of the
  parser (typed fields and distinct natural keys in a file without errors) is the locale \<open>parser_contract\<close>; the
  modelled parser meets it in \<open>Marcom_Claims\<close>.
\<close>

section \<open>The rows of an accepted file\<close>

lemma parse_okD:
  assumes "parse_ok p"
  shows "r \<in> set (tr_rows (pp_tables p t)) \<Longrightarrow> row_typed (adapter_of t) (pr_data r)"
    "distinct (map (\<lambda>r. keyOf (adapter_of t) (pr_data r)) (tr_rows (pp_tables p t)))"
  using assms table_ids_all [of t] by (auto simp: parse_ok_def list_all_iff simp del: table_ids_all)

section \<open>Brands and tables of a commit\<close>

definition new_brands :: "nat \<Rightarrow> nat \<Rightarrow> string list \<Rightarrow> mk_brand list" where
  "new_brands B n ns =
     map (\<lambda>(i, x). \<lparr>kb_id = i, kb_name = x, kb_created = Some B, kb_group = False, kb_company = None\<rparr>)
       (zip [n..<n + length ns] ns)"

lemma new_brands_Cons:
  "new_brands B n (x # ns) =
     \<lparr>kb_id = n, kb_name = x, kb_created = Some B, kb_group = False, kb_company = None\<rparr> # new_brands B (Suc n) ns"
  by (simp add: new_brands_def upt_conv_Cons del: upt_Suc)

lemma new_brands_facts:
  "map kb_id (new_brands B n ns) = [n..<n + length ns]" "b \<in> set (new_brands B n ns) \<Longrightarrow> kb_created b = Some B"
  "map kb_name (new_brands B n ns) = ns"
  by (auto simp: new_brands_def map_map comp_def case_prod_unfold map_zip_map)

lemma new_brand_ids: "b \<in> set (new_brands B n ns) \<Longrightarrow> n \<le> kb_id b \<and> kb_id b < n + length ns"
  using new_brands_facts(1) [of B n ns] by (metis atLeastLessThan_iff image_eqI list.set_map set_upt)

lemma brands_inserted:
  "rfold (insert_brand svc B) ns db = Inr db1 \<Longrightarrow>
   db1 = db\<lparr>kd_brands := kd_brands db @ new_brands B (kd_next_brand db) ns,
            kd_next_brand := kd_next_brand db + length ns\<rparr>"
proof (induction ns arbitrary: db)
  case Nil
  then show ?case by (simp add: new_brands_def)
next
  case (Cons x ns)
  let ?b = "\<lparr>kb_id = kd_next_brand db, kb_name = x, kb_created = Some B, kb_group = False, kb_company = None\<rparr>"
  obtain db' where s: "insert_brand svc B x db = Inr db'" and r: "rfold (insert_brand svc B) ns db' = Inr db1"
    using Cons.prems by (auto simp: rbind_eq_Inr)
  have "db' = db\<lparr>kd_brands := kd_brands db @ [?b], kd_next_brand := kd_next_brand db + 1\<rparr>"
    using s by (auto simp: insert_brand_def split: if_splits)
  with Cons.IH [OF r] show ?case by (simp add: new_brands_Cons)
qed

text \<open>The fields a write of rows leaves alone.\<close>

definition same_rest :: "mk_db \<Rightarrow> mk_db \<Rightarrow> bool" where
  "same_rest db db' \<longleftrightarrow>
     kd_brands db' = kd_brands db \<and> kd_categories db' = kd_categories db \<and> kd_next_brand db' = kd_next_brand db \<and>
     kd_batches db' = kd_batches db \<and> kd_next_batch db' = kd_next_batch db \<and>
     kd_staged db' = kd_staged db \<and> kd_files db' = kd_files db"

lemma write_table_Inr:
  assumes "write_table svc B diff t db = Inr db'"
  shows "same_rest db db'"
    "write_diff (sv_env svc) (kd_brands db) (kd_categories db) (adapter_of t) B (diff t) (kd_next db t, kd_rows db t) =
       Inr (kd_next db' t, kd_rows db' t)"
    "t' \<noteq> t \<Longrightarrow> kd_next db' t' = kd_next db t' \<and> kd_rows db' t' = kd_rows db t'"
  using assms by (auto simp: write_table_def rbind_eq_Inr same_rest_def)

lemma tables_written:
  assumes "rfold (write_table svc B diff) ts db = Inr db'" "distinct ts"
  shows "same_rest db db' \<and>
    (\<forall>t. if t \<in> set ts
         then write_diff (sv_env svc) (kd_brands db) (kd_categories db) (adapter_of t) B (diff t) (kd_next db t, kd_rows db t) =
                Inr (kd_next db' t, kd_rows db' t)
         else kd_next db' t = kd_next db t \<and> kd_rows db' t = kd_rows db t)"
  using assms
proof (induction ts arbitrary: db)
  case Nil
  then show ?case by (simp add: same_rest_def)
next
  case (Cons u ts)
  obtain d where d: "write_table svc B diff u db = Inr d" and r: "rfold (write_table svc B diff) ts d = Inr db'"
    using Cons.prems(1) by (auto simp: rbind_eq_Inr)
  note w = write_table_Inr [OF d]
  note f = w(1) [unfolded same_rest_def]
  have IH: "same_rest d db'"
    "\<And>t. if t \<in> set ts
         then write_diff (sv_env svc) (kd_brands d) (kd_categories d) (adapter_of t) B (diff t) (kd_next d t, kd_rows d t) =
                Inr (kd_next db' t, kd_rows db' t)
         else kd_next db' t = kd_next d t \<and> kd_rows db' t = kd_rows d t"
    using Cons.IH [OF r] Cons.prems(2) by auto
  have "same_rest db db'" using w(1) IH(1) by (simp add: same_rest_def)
  moreover have "if t \<in> set (u # ts)
         then write_diff (sv_env svc) (kd_brands db) (kd_categories db) (adapter_of t) B (diff t) (kd_next db t, kd_rows db t) =
                Inr (kd_next db' t, kd_rows db' t)
         else kd_next db' t = kd_next db t \<and> kd_rows db' t = kd_rows db t" for t
  proof (cases "t = u")
    case True
    then have "t \<notin> set ts" using Cons.prems(2) by simp
    with IH(2) [of t] w(2) True show ?thesis by simp
  next
    case False
    with IH(2) [of t] w(3) [OF False] f show ?thesis by auto
  qed
  ultimately show ?case by blast
qed

lemma no_errors_no_invalid: "errors_of p = [] \<Longrightarrow> invalid_rows p t = []"
  by (auto simp: errors_of_def invalid_rows_def map_filter_def filter_empty_conv)

lemma batch_brands:
  assumes "write_batch svc B p db = Inr db1"
  shows "kd_brands db1 = kd_brands db @ new_brands B (kd_next_brand db) (newBrandsOf p (map kb_name (kd_brands db)))"
    "kd_next_brand db1 = kd_next_brand db + length (newBrandsOf p (map kb_name (kd_brands db)))"
    "kd_categories db1 = kd_categories db" "kd_batches db1 = kd_batches db" "kd_next_batch db1 = kd_next_batch db"
    "kd_staged db1 = kd_staged db" "kd_files db1 = kd_files db"
  using assms brands_inserted tables_written [OF _ table_ids_distinct]
  by (fastforce simp: write_batch_def rbind_eq_Inr same_rest_def)+

lemma batch_diff:
  assumes "write_batch svc B p db = Inr db1"
  shows "write_diff (sv_env svc) (kd_brands db1) (kd_categories db) (adapter_of t) B (diffAll db p t) (kd_next db t, kd_rows db t) =
         Inr (kd_next db1 t, kd_rows db1 t)"
proof -
  obtain d where d: "rfold (insert_brand svc B) (newBrandsOf p (map kb_name (kd_brands db))) db = Inr d"
    and w: "rfold (write_table svc B (diffAll db p)) table_ids d = Inr db1"
    using assms by (auto simp: write_batch_def rbind_eq_Inr)
  have s: "same_rest d db1"
    "write_diff (sv_env svc) (kd_brands d) (kd_categories d) (adapter_of t) B (diffAll db p t) (kd_next d t, kd_rows d t) =
     Inr (kd_next db1 t, kd_rows db1 t)"
    using tables_written [OF w table_ids_distinct] by auto
  have "kd_rows d = kd_rows db" "kd_next d = kd_next db" "kd_categories d = kd_categories db"
    using brands_inserted [OF d] by simp_all
  with s show ?thesis by (simp add: same_rest_def)
qed

lemma brand_ids_distinct:
  assumes "store_ok svc db"
  shows "distinct (map kb_id (kd_brands db @ new_brands B (kd_next_brand db) ns))"
proof -
  have "kb_id b \<noteq> kb_id c" if "b \<in> set (kd_brands db)" "c \<in> set (new_brands B (kd_next_brand db) ns)" for b c
    using store_okD(3) [OF assms that(1)] new_brand_ids [OF that(2)] by simp
  then show ?thesis
    using store_okD(2) [OF assms] by (auto simp: new_brands_facts(1) dest: store_okD(3) [OF assms])
qed

lemma batch_table:
  fixes svc :: mk_service and db db1 :: mk_db and p :: parse_result and B :: nat
  assumes ok: "store_ok svc db" and good: "parse_ok p" and no_errors: "errors_of p = []"
    and B: "B = kd_next_batch db" and w: "write_batch svc B p db = Inr db1"
  obtains U colss where "(kd_next db1 t, kd_rows db1 t) = written B (kd_next db t) (kd_rows db t) U colss"
    "list_all2 (\<lambda>x c. row_values (kd_brands db1) (kd_categories db) (adapter_of t) x = Some c) (written_data (diffAll db p t)) colss"
    "\<And>r. r \<in> set (kd_rows db t) \<Longrightarrow> kr_id r \<in> set U \<Longrightarrow>
       kr_current r \<and> kr_superseded r = None \<and> join_row (kd_brands db) (kd_categories db) (adapter_of t) r \<noteq> None"
    "read_rows (kd_brands db1) (kd_categories db) (adapter_of t) (kd_rows db1 t) =
       with_batch B U (read_rows (kd_brands db1) (kd_categories db) (adapter_of t) (new_rows B (kd_next db t) colss))
         (read_rows (kd_brands db) (kd_categories db) (adapter_of t) (kd_rows db t))"
    "table_ok (sv_env svc) (kd_brands db1) (kd_categories db) (Suc B) t (kd_next db1 t, kd_rows db1 t)"
proof -
  note bb = batch_brands(1) [OF w]
  have d: "diffAll db p t = diffTable (adapter_of t) (tr_rows (pp_tables p t))
      (currentRows (kd_brands db) (kd_categories db) (adapter_of t) (kd_rows db t)) []"
    by (simp add: diffAll_def table_data_def no_errors_no_invalid [OF no_errors])
  note wd = batch_diff [OF w, of t, unfolded bb]
  obtain U colss where c: "(kd_next db1 t, kd_rows db1 t) = written B (kd_next db t) (kd_rows db t) U colss"
    "list_all2 (\<lambda>x c. row_values (kd_brands db1) (kd_categories db) (adapter_of t) x = Some c) (written_data (diffAll db p t)) colss"
    "\<forall>r \<in> set (kd_rows db t). kr_id r \<in> set U \<longrightarrow>
       kr_current r \<and> kr_superseded r = None \<and> join_row (kd_brands db) (kd_categories db) (adapter_of t) r \<noteq> None"
    "read_rows (kd_brands db1) (kd_categories db) (adapter_of t) (kd_rows db1 t) =
       with_batch B U (read_rows (kd_brands db1) (kd_categories db) (adapter_of t) (new_rows B (kd_next db t) colss))
         (read_rows (kd_brands db) (kd_categories db) (adapter_of t) (kd_rows db t))"
    "table_ok (sv_env svc) (kd_brands db1) (kd_categories db) (Suc B) t (kd_next db1 t, kd_rows db1 t)"
    unfolding bb
    by (rule table_commit [OF store_okD(1) [OF ok, of t, folded B] brand_ids_distinct [OF ok] store_okD(5) [OF ok]
      parse_okD(1) [OF good] parse_okD(2) [OF good] d wd]) blast+
  show thesis by (rule that [OF c(1,2) _ c(4,5)]) (use c(3) in blast)
qed

lemma batch_store_ok:
  fixes svc :: mk_service and db db1 :: mk_db and p :: parse_result and B :: nat
  assumes ok: "store_ok svc db" and good: "parse_ok p" and no_errors: "errors_of p = []"
    and B: "B = kd_next_batch db" and w: "write_batch svc B p db = Inr db1"
  assumes "mb_id b = B"
  shows "store_ok svc (add_batch b db1)"
proof -
  note bb = batch_brands [OF w]
  have t: "table_ok (sv_env svc) (kd_brands db1) (kd_categories db1) (Suc B) t (kd_next db1 t, kd_rows db1 t)" for t
    unfolding bb(3) by (rule batch_table [OF ok good no_errors B w])
  have brand: "kb_id b < kd_next_brand db1" "kb_created b = Some c \<Longrightarrow> c < Suc B" if "b \<in> set (kd_brands db1)" for b c
    using that store_okD(3,4) [OF ok] new_brand_ids new_brands_facts(2) B unfolding bb(1,2)
    by (fastforce simp: less_Suc_eq)+
  have fresh: "B \<notin> mb_id ` set (kd_batches db)"
    using store_okD(7) [OF ok] unfolding B by (metis imageE less_irrefl)
  have f: "kd_rows (add_batch b db1) = kd_rows db1" "kd_next (add_batch b db1) = kd_next db1"
    "kd_brands (add_batch b db1) = kd_brands db1" "kd_categories (add_batch b db1) = kd_categories db1"
    "kd_next_brand (add_batch b db1) = kd_next_brand db1" "kd_next_batch (add_batch b db1) = Suc B"
    "kd_batches (add_batch b db1) = kd_batches db @ [b]"
    by (simp_all add: add_batch_def bb B)
  show ?thesis
    unfolding store_ok_def table_of_def f
  proof (intro conjI)
    show "distinct (map kb_id (kd_brands db1))" unfolding bb(1) by (rule brand_ids_distinct [OF ok])
    show "distinct (map kc_id (kd_categories db1))" unfolding bb(3) by (rule store_okD(5) [OF ok])
    show "distinct (map mb_id (kd_batches db @ [b]))" using store_okD(6) [OF ok] fresh assms(6-) by simp
    show "list_all (\<lambda>x. mb_id x < Suc B) (kd_batches db @ [b])"
      using store_okD(7) [OF ok] assms(6-) B by (auto simp: list_all_iff less_Suc_eq)
    show "list_all (\<lambda>c. kc_name c \<noteq> []) (kd_categories db1)"
      using store_okD(8) [OF ok] by (simp add: list_all_iff bb(3))
  qed (use t brand in \<open>auto simp: list_all_iff split: option.splits\<close>)
qed

lemma written_typed:
  fixes svc :: mk_service and db db1 :: mk_db and p :: parse_result and B :: nat
  assumes ok: "store_ok svc db" and good: "parse_ok p" and no_errors: "errors_of p = []"
    and B: "B = kd_next_batch db" and w: "write_batch svc B p db = Inr db1"
  shows "x \<in> set (written_data (diffAll db p t)) \<Longrightarrow> row_typed (adapter_of t) x"
  using parse_okD(1) [OF good, of _ t]
  by (auto simp: diffAll_def no_errors_no_invalid [OF no_errors] written_data_diff)

text \<open>The plan of the batch that was written last: its rows go, the rows it replaced come back.\<close>

lemma rollback_table:
  fixes svc :: mk_service and db db1 :: mk_db and p :: parse_result and B :: nat
  assumes ok: "store_ok svc db" and good: "parse_ok p" and no_errors: "errors_of p = []"
    and B: "B = kd_next_batch db" and w: "write_batch svc B p db = Inr db1"
  fixes t :: table_id
  assumes pl: "pl = plan_of (kd_brands db1) (kd_categories db) (kd_rows db1) B [] t"
  shows "apply_table (sv_env svc) pl (kd_rows db1 t) = Inr (kd_rows db t)"
    and "tp_handedOver pl = []"
    and "\<And>r. r \<in> set (kd_rows db1 t) \<Longrightarrow> r \<notin> set (kd_rows db t) \<Longrightarrow> kr_batch r = B \<Longrightarrow> kr_id r \<in> set (tp_deleteIds pl)"
    and "\<And>r. r \<in> set (kd_rows db1 t) \<Longrightarrow> kr_batch r = B \<or> (\<exists>s \<in> set (kd_rows db t). kr_cols r = kr_cols s)"
proof -
  let ?a = "adapter_of t" and ?rs = "read_rows (kd_brands db) (kd_categories db) (adapter_of t) (kd_rows db t)"
  let ?rs1 = "read_rows (kd_brands db1) (kd_categories db) (adapter_of t) (kd_rows db1 t)"
  let ?n = "kd_next db t"
  obtain U colss where c: "(kd_next db1 t, kd_rows db1 t) = written B ?n (kd_rows db t) U colss"
    "list_all2 (\<lambda>x c. row_values (kd_brands db1) (kd_categories db) ?a x = Some c) (written_data (diffAll db p t)) colss"
    "\<forall>r \<in> set (kd_rows db t). kr_id r \<in> set U \<longrightarrow>
       kr_current r \<and> kr_superseded r = None \<and> join_row (kd_brands db) (kd_categories db) ?a r \<noteq> None"
    "?rs1 = with_batch B U (read_rows (kd_brands db1) (kd_categories db) ?a (new_rows B ?n colss)) ?rs"
    "table_ok (sv_env svc) (kd_brands db1) (kd_categories db) (Suc B) t (kd_next db1 t, kd_rows db1 t)"
    by (rule batch_table [OF ok good no_errors B w, of t]) blast
  let ?new = "read_rows (kd_brands db1) (kd_categories db) ?a (new_rows B ?n colss)"
  have "distinct (map kb_id (kd_brands db1))" unfolding batch_brands(1) [OF w] by (rule brand_ids_distinct [OF ok])
  from read_new_rows [OF c(2) written_typed [OF ok good no_errors B w] this store_okD(5) [OF ok], of B ?n]
  have new: "map dr_id ?new = [?n..<?n + length colss]"
    "\<And>x. x \<in> set ?new \<Longrightarrow> dr_batch x = B \<and> dr_current x \<and> dr_superseded x = None" by auto
  note T = table_okD [OF store_okD(1) [OF ok, of t, folded B]] and T1 = table_okD [OF c(5)]
  have rows1: "kd_rows db1 t = replace_rows B U (kd_rows db t) @ new_rows B ?n colss"
    using c(1) by (simp add: written_def)
  have rid: "\<exists>r \<in> set (kd_rows db t). read_row (kd_brands db) (kd_categories db) ?a r = Some x" if "x \<in> set ?rs" for x
    using that by (simp add: read_rows_def mem_map_filter)
  have old_batch: "dr_batch x < B" if "x \<in> set ?rs" for x using rid [OF that] T(3) read_row_fields(2) by metis
  have old_sup: "dr_superseded x \<noteq> Some B" if x: "x \<in> set ?rs" for x
  proof
    assume "dr_superseded x = Some B"
    then have "B \<in> set (later_batches ?rs x)" using history_link [OF T(6) x] earliest_SomeD by metis
    then show False using old_batch by (auto simp: later_batches_mem)
  qed
  define g where "g x = (if dr_id x \<in> set U then superseded_by B x else x)" for x
  have g: "dr_id (g x) = dr_id x" "dr_batch (g x) = dr_batch x" for x by (simp_all add: g_def)
  have rs1: "?rs1 = map g ?rs @ ?new" unfolding c(4) with_batch_def g_def by simp
  have own: "filter (\<lambda>x. dr_batch x = B) ?rs1 = ?new"
    using old_batch new(2) g(2) unfolding rs1 by (auto simp: filter_map filter_empty_conv intro!: filter_True)
  have hand: "handedTo [] t x = None" for x by (simp add: handedTo_def)
  have to_none: "toBatch [] t (filter (\<lambda>r. dr_batch r = B) ?rs1) oth e = None"
    if e: "e \<in> set ?rs1" "dr_superseded e = Some B" for e oth
  proof -
    obtain m where m: "m \<in> set ?rs1" "dr_batch m = B"
      "relinked B (handedTo [] t) ?rs1 e = (case handedTo [] t m of Some b \<Rightarrow> Some b | None \<Rightarrow> dr_superseded m)"
      using replaced_by [OF T1(6) e, where hand = "handedTo [] t"] by metis
    have "m \<in> set (filter (\<lambda>x. dr_batch x = B) ?rs1)" using m(1,2) by simp
    then have "m \<in> set ?new" unfolding own .
    then have "dr_superseded m = None" using new(2) by blast
    then have "relinked B (handedTo [] t) ?rs1 e = None" using m(3) hand by simp
    then show ?thesis using own_find [where rows = "kd_rows db1" and t = t, OF refl refl T1(6) e] by simp
  qed
  have del: "tp_deleteIds pl = map dr_id ?new"
    by (simp add: pl plan_of_def planTable_def Let_def own hand)
  show ho: "tp_handedOver pl = []"
    by (simp add: pl plan_of_def planTable_def Let_def hand map_filter_def)
  have rl: "tp_relink pl = []"
    using to_none by (auto simp: pl plan_of_def planTable_def Let_def map_filter_def filter_empty_conv)
  have ra: "i \<in> ra_id ` set (tp_rearm pl) \<longleftrightarrow> i \<in> dr_id ` {x \<in> set ?rs1. dr_superseded x = Some B}" for i
    using to_none by (auto simp: pl plan_of_def planTable_def Let_def image_iff)
  have ra_U: "kr_id r \<in> ra_id ` set (tp_rearm pl) \<longleftrightarrow> kr_id r \<in> set U" if r: "r \<in> set (kd_rows db t)" for r
  proof
    assume "kr_id r \<in> ra_id ` set (tp_rearm pl)"
    then obtain y where y: "y \<in> set ?rs1" "dr_superseded y = Some B" "dr_id y = kr_id r" unfolding ra by auto
    have "y \<notin> set ?new" using new(2) y(2) by fastforce
    then obtain x where x: "x \<in> set ?rs" "y = g x" using y(1) unfolding rs1 by auto
    then show "kr_id r \<in> set U" using old_sup [OF x(1)] y(2,3) by (auto simp: g_def split: if_splits)
  next
    assume U: "kr_id r \<in> set U"
    then obtain x where x: "read_row (kd_brands db) (kd_categories db) ?a r = Some x"
      using c(3) r by (auto simp: read_row_def)
    then have "x \<in> set ?rs" using r by (auto simp: read_rows_def mem_map_filter)
    moreover have "dr_id x = kr_id r" by (rule read_row_fields(1) [OF x])
    ultimately have "g x \<in> set ?rs1" "dr_superseded (g x) = Some B" "dr_id (g x) = kr_id r"
      using U unfolding rs1 by (auto simp: g_def)
    then show "kr_id r \<in> ra_id ` set (tp_rearm pl)" unfolding ra by force
  qed
  have new_ids: "kr_id r \<in> set (map dr_id ?new)" if "r \<in> set (new_rows B ?n colss)" for r
    using that new_rows_facts(1) [of B ?n colss] unfolding new(1) by (metis image_eqI list.set_map)
  have old_ids: "kr_id r \<notin> set (map dr_id ?new)" if "r \<in> set (replace_rows B U (kd_rows db t))" for r
    using that T(2) unfolding new(1) by (auto simp: replace_rows_def split: if_splits) (metis leD)+
  have "delete_where (\<lambda>r. kr_id r \<in> set (tp_deleteIds pl)) (kd_rows db1 t) = replace_rows B U (kd_rows db t)"
    unfolding rows1 del delete_where_def using new_ids old_ids by (simp add: filter_empty_conv filter_id_conv)
  moreover have "rearm pl (replace_rows B U (kd_rows db t)) = kd_rows db t"
    using ra_U c(3) by (auto simp: rearm_def update_where_def replace_rows_def intro!: map_idI)
  moreover have "tp_id pl = t" by (simp add: pl plan_of_def planTable_def Let_def)
  ultimately show "apply_table (sv_env svc) pl (kd_rows db1 t) = Inr (kd_rows db t)"
    using T(5) by (simp add: apply_table_def Let_def hand_over_def relink_def ho rl)
  show "kr_id r \<in> set (tp_deleteIds pl)"
    if "r \<in> set (kd_rows db1 t)" "r \<notin> set (kd_rows db t)" "kr_batch r = B" for r
  proof -
    have "r \<notin> set (replace_rows B U (kd_rows db t))"
    proof
      assume "r \<in> set (replace_rows B U (kd_rows db t))"
      then obtain s where "s \<in> set (kd_rows db t)" "kr_batch r = kr_batch s"
        by (auto simp: replace_rows_def split: if_splits)
      with T(3) that(3) show False by fastforce
    qed
    with that(1) have "r \<in> set (new_rows B ?n colss)" unfolding rows1 by simp
    with new_ids show ?thesis unfolding del by blast
  qed
  show "kr_batch r = B \<or> (\<exists>s \<in> set (kd_rows db t). kr_cols r = kr_cols s)" if "r \<in> set (kd_rows db1 t)" for r
    using that new_rows_facts(3) unfolding rows1 by (auto simp: replace_rows_def split: if_splits)
qed

section \<open>Rolling the batch back\<close>

lemma apply_tables_each:
  assumes "\<And>t. t \<in> set ts \<Longrightarrow> apply_table env (plan t) (rows t) = Inr (rows' t) \<and> tp_id (plan t) = t" "distinct ts"
  shows "apply_tables env (map plan ts) rows = Inr (\<lambda>t. if t \<in> set ts then rows' t else rows t)"
  using assms
proof (induction ts arbitrary: rows)
  case (Cons u ts)
  have "apply_tables env (map plan ts) (rows(u := rows' u)) =
      Inr (\<lambda>t. if t \<in> set ts then rows' t else (rows(u := rows' u)) t)"
    using Cons.prems by (intro Cons.IH) auto
  then show ?case using Cons.prems by (auto simp: apply_tables_def fun_eq_iff)
qed (simp add: apply_tables_def)

lemma fold_delete_where:
  "fold (\<lambda>d. delete_where (\<lambda>b. key b = idf d \<and> Q b)) ds bs = filter (\<lambda>b. \<not> (key b \<in> idf ` set ds \<and> Q b)) bs"
  by (induction ds arbitrary: bs) (auto simp: delete_where_def intro!: filter_cong)

lemma plan_of_id [simp]: "tp_id (plan_of bs cs rows B lk t) = t"
  by (simp add: plan_of_def planTable_def Let_def)

lemma usedBy_Nil:
  assumes "\<And>t r. r \<in> set (rows t) \<Longrightarrow> dat (kr_cols r) ''brand_id'' = id_val b \<Longrightarrow> kr_id r \<in> set (tp_deleteIds (plan t))"
  shows "usedBy plan rows b = []"
proof -
  have "used_in (plan t) (rows t) b = []" for t
    using assms by (auto simp: used_in_def refs_of_def filter_empty_conv)
  then have c: "concat (map (\<lambda>t. used_in (plan t) (rows t) b) BRAND_TABLES) = []" by (simp add: concat_eq_Nil_conv)
  show ?thesis unfolding usedBy_def c by simp
qed

lemma rollback_rows:
  assumes ok: "store_ok svc db" and good: "parse_ok p" and no_errors: "errors_of p = []"
    and B: "B = kd_next_batch db" and w: "write_batch svc B p db = Inr db1"
    and same: "kd_rows d = kd_rows db1" "kd_brands d = kd_brands db1" "kd_categories d = kd_categories db"
  shows "\<exists>plan. remove_rows svc B [] d = Inr (plan, d\<lparr>kd_rows := kd_rows db, kd_brands := kd_brands db\<rparr>)"
proof -
  let ?pl = "plan_of (kd_brands d) (kd_categories d) (kd_rows d) B []"
  let ?plan = "planRemoval (kd_brands d) (kd_categories d) (kd_rows d) B []"
  let ?nb = "new_brands B (kd_next_brand db) (newBrandsOf p (map kb_name (kd_brands db)))"
  have pl: "?pl t = plan_of (kd_brands db1) (kd_categories db) (kd_rows db1) B [] t" for t
    by (simp add: same)
  note R = rollback_table [OF ok good no_errors B w pl]
  note bb = batch_brands(1) [OF w]
  have "apply_tables (sv_env svc) (map ?pl table_ids) (kd_rows d) =
      Inr (\<lambda>t. if t \<in> set table_ids then kd_rows db t else kd_rows d t)"
    using R(1) table_ids_distinct by (intro apply_tables_each) (simp_all add: same)
  then have tabs: "apply_tables (sv_env svc) (rp_tables ?plan) (kd_rows d) = Inr (kd_rows db)"
    by (simp add: planRemoval_def Let_def)
  have old: "kb_created b \<noteq> Some B" "kb_id b < kd_next_brand db" if "b \<in> set (kd_brands db)" for b
    using store_okD(3,4) [OF ok that] B by auto
  have ref: "dat (kr_cols r) ''brand_id'' \<noteq> id_val (kb_id b)"
    if r: "r \<in> set (kd_rows db t)" and b: "b \<in> set ?nb" for r t b
  proof
    assume eq: "dat (kr_cols r) ''brand_id'' = id_val (kb_id b)"
    have "\<exists>c \<in> set (kd_brands db). kb_id c = kb_id b"
      using table_okD(4) [OF store_okD(1) [OF ok, of t] r] eq by (auto simp: brand_ref_ok_def list_ex_iff id_val_def)
    with old(2) new_brand_ids [OF b] show False by fastforce
  qed
  have used: "usedBy ?pl (kd_rows d) (kb_id b) = []" if b: "b \<in> set ?nb" for b
  proof (rule usedBy_Nil)
    fix t r
    assume r: "r \<in> set (kd_rows d t)" "dat (kr_cols r) ''brand_id'' = id_val (kb_id b)"
    then have r1: "r \<in> set (kd_rows db1 t)" using same by simp
    have "kr_batch r = B" "r \<notin> set (kd_rows db t)" using R(4) [OF r1] ref [OF _ b] r(2) by auto
    then show "kr_id r \<in> set (tp_deleteIds (?pl t))" using R(3) [OF r1] by simp
  qed
  have created: "set (filter (\<lambda>b. kb_created b = Some B) (kd_brands d)) = set ?nb"
    using old(1) new_brands_facts(2) by (auto simp: same bb)
  have kept: "rp_kept ?plan = []"
    using used created by (auto simp: planRemoval_def Let_def filter_empty_conv)
  have dels: "db_id ` set (rp_deleted ?plan) = kb_id ` set ?nb"
    using used created by (force simp: planRemoval_def Let_def image_iff)
  have "apply_brands ?plan (kd_rows db) (kd_brands d) = kd_brands db"
  proof -
    have "\<not> (kb_id b \<in> kb_id ` set ?nb)" if "b \<in> set (kd_brands db)" for b
      using old(2) [OF that] new_brand_ids by fastforce
    moreover have "list_all (\<lambda>t. refs_of (kd_rows db t) (kb_id b) = []) BRAND_TABLES" if "b \<in> set ?nb" for b
      using ref that by (auto simp: list_all_iff refs_of_def filter_empty_conv)
    moreover have "apply_brands ?plan (kd_rows db) (kd_brands d) =
        filter (\<lambda>b. \<not> (kb_id b \<in> kb_id ` set ?nb \<and> list_all (\<lambda>t. refs_of (kd_rows db t) (kb_id b) = []) BRAND_TABLES))
          (kd_brands db @ ?nb)"
      unfolding apply_brands_def Let_def kept fold_delete_where dels by (simp add: same bb)
    ultimately show ?thesis by (auto simp: filter_empty_conv intro!: filter_True)
  qed
  with tabs show ?thesis
    by (simp add: remove_rows_def Let_def applyRemoval_def)
qed

section \<open>Commits under the parser's contract\<close>

text \<open>No key text of the uploaded file ends in a space.\<close>

definition upload_trimmed :: "mk_service \<Rightarrow> mk_db \<Rightarrow> int \<Rightarrow> string \<Rightarrow> nat \<Rightarrow> bool" where
  "upload_trimmed svc db now i actor =
     (case loadStaged db now i actor of
        Inl e \<Rightarrow> True
      | Inr s \<Rightarrow>
          (case staged_file db i of
             None \<Rightarrow> True
           | Some file \<Rightarrow>
               (case sv_parse svc file (st_filename s) (loadKnown db) of Inl e \<Rightarrow> True | Inr p \<Rightarrow> keys_trimmed p)))"

lemma store_ok_staging [simp]:
  "store_ok svc (removeStagedFile i db) = store_ok svc db" "store_ok svc (consume i now db) = store_ok svc db"
  by (simp_all add: store_ok_def table_of_def removeStagedFile_def consume_def split: option.split)

lemma new_batch_id [simp]: "mb_id (new_batch db s actor now buf sm) = kd_next_batch db"
  by (simp add: new_batch_def)

lemma known_categories: "store_ok svc db \<Longrightarrow> [] \<notin> set (categories_of (loadKnown db))"
  by (auto simp: categories_of_def loadKnown_def dest!: store_okD(8))

lemma find_last: "\<forall>b \<in> set bs. mb_id b < mb_id c \<Longrightarrow> List.find (\<lambda>b. mb_id b = mb_id c) (bs @ [c]) = Some c"
  by (induction bs) auto

lemma latest_last:
  assumes "\<forall>b \<in> set (kd_batches db). mb_id b < mb_id c" "mb_status c = B_success" "kd_batches db1 = kd_batches db @ [c]"
  shows "latestSuccessId db1 = Some (mb_id c)"
proof -
  let ?ids = "map mb_id (filter (\<lambda>b. mb_status b = B_success) (kd_batches db1))"
  have "Max (set ?ids) = mb_id c"
    by (rule Max_eqI) (use assms in \<open>auto intro: less_imp_le\<close>)
  moreover have "?ids \<noteq> []" using assms(2,3) by simp
  ultimately show ?thesis by (simp add: latestSuccessId_def Let_def)
qed

locale parser_contract =
  fixes svc :: mk_service
  assumes parsed_ok:
    "sv_parse svc f n opts = Inr p \<Longrightarrow> errors_of p = [] \<Longrightarrow> [] \<notin> set (categories_of opts) \<Longrightarrow> keys_trimmed p \<Longrightarrow> parse_ok p"
begin

lemma commit_steps:
  assumes "commitUpload svc db locked now i actor confirm = (Inr (B, sm), db1)" "store_ok svc db"
    "upload_trimmed svc db now i actor"
  obtains s buf p d where "loadStaged db now i actor = Inr s" "staged_file db i = Some buf" "locked"
    "sv_sha svc buf = st_hash s" "sv_parse svc buf (st_filename s) (loadKnown db) = Inr p" "errors_of p = []" "parse_ok p"
    "newBrandsOf p (map kb_name (kd_brands db)) = [] \<or> confirm"
    "sm = summary_of p (diffAll db p) (newBrandsOf p (map kb_name (kd_brands db)))" "B = kd_next_batch db"
    "write_batch svc B p db = Inr d"
    "db1 = removeStagedFile i (consume i now (add_batch (new_batch db s actor now buf sm) d))"
proof -
  obtain s where s: "loadStaged db now i actor = Inr s"
    using assms(1) by (auto simp: commitUpload_def split: sum.splits)
  obtain buf where f: "staged_file db i = Some buf" "sv_sha svc buf = st_hash s" "locked"
    using assms(1) s by (auto simp: commitUpload_def split: option.splits if_splits)
  obtain d where d: "commit_tx svc db now i actor confirm buf = Inr ((B, sm), d)" "db1 = removeStagedFile i d"
    using assms(1) s f by (auto simp: commitUpload_def split: sum.splits marcom_error.splits)
  from d(1) obtain p e where p: "sv_parse svc buf (st_filename s) (loadKnown db) = Inr p" "errors_of p = []"
    "newBrandsOf p (map kb_name (kd_brands db)) = [] \<or> confirm"
    "sm = summary_of p (diffAll db p) (newBrandsOf p (map kb_name (kd_brands db)))" "B = kd_next_batch db"
    "write_batch svc B p db = Inr e" "d = consume i now (add_batch (new_batch db s actor now buf sm) e)"
    using s by (auto simp: commit_tx_def Let_def rbind_eq_Inr ensure_eq_Inr)
  have "keys_trimmed p" using assms(3) s f(1) p(1) by (simp add: upload_trimmed_def)
  from that [OF s f(1) f(3,2) p(1,2) parsed_ok [OF p(1,2) known_categories [OF assms(2)] this] p(3,4,5,6)]
  show thesis by (simp add: d(2) p(7))
qed

lemma commit_store_ok:
  assumes "commitUpload svc db locked now i actor confirm = (Inr (B, sm), db1)" "store_ok svc db"
    "upload_trimmed svc db now i actor"
  shows "store_ok svc db1"
proof -
  obtain s buf p d where "parse_ok p" "errors_of p = []" "B = kd_next_batch db" "write_batch svc B p db = Inr d"
    "db1 = removeStagedFile i (consume i now (add_batch (new_batch db s actor now buf sm) d))"
    by (rule commit_steps [OF assms])
  with batch_store_ok [OF assms(2)] show ?thesis by simp
qed

lemma rollback_after_commit:
  assumes "commitUpload svc db locked now i actor confirm = (Inr (B, sm), db1)" "store_ok svc db"
    "upload_trimmed svc db now i actor" "cleanReason raw = Inr reason"
  shows "rollbackBatch svc db1 True now2 B actor2 raw =
    (Inr B, (set_batch B (\<lambda>b. b\<lparr>mb_status := B_rolled_back, mb_rolled_back := Some (actor2, now2, reason)\<rparr>) db1)
       \<lparr>kd_rows := kd_rows db, kd_brands := kd_brands db\<rparr>)"
proof -
  obtain s buf p d where c: "parse_ok p" "errors_of p = []" "B = kd_next_batch db" "write_batch svc B p db = Inr d"
    "db1 = removeStagedFile i (consume i now (add_batch (new_batch db s actor now buf sm) d))"
    by (rule commit_steps [OF assms(1-3)])
  note bb = batch_brands [OF c(4)]
  let ?b = "new_batch db s actor now buf sm"
  have f: "kd_rows db1 = kd_rows d" "kd_brands db1 = kd_brands d" "kd_categories db1 = kd_categories db"
    "kd_batches db1 = kd_batches db @ [?b]"
    by (simp_all add: c(5) removeStagedFile_def consume_def add_batch_def bb)
  have B: "mb_id ?b = B" "mb_status ?b = B_success" by (simp_all add: new_batch_def c(3))
  have old: "\<forall>b \<in> set (kd_batches db). mb_id b < mb_id ?b" using store_okD(7) [OF assms(2)] B c(3) by simp
  have "find_batch db1 B = Some ?b" using find_last [OF old] by (simp add: find_batch_def f c(3))
  moreover have "latestSuccessId db1 = Some B" using latest_last [OF old B(2) f(4)] B by simp
  moreover obtain plan where
    "remove_rows svc B [] db1 = Inr (plan, db1\<lparr>kd_rows := kd_rows db, kd_brands := kd_brands db\<rparr>)"
    using rollback_rows [OF assms(2) c(1,2,3,4) f(1,2,3)] by blast
  ultimately show ?thesis
    using assms(4) B by (simp add: rollbackBatch_def removeWithin_def rollback_check_def set_batch_def)
qed

end

end
