(* ===== verification/Marcom_Undo.thy ===== *)
theory Marcom_Undo
  imports Marcom_Safety
begin

text \<open>
  Removing any batch (\<open>removeBatch\<close> and \<open>rollbackBatch\<close> of \<open>marcom/service.ts\<close> on \<open>marcom/removal.ts\<close>):
  the planned writes, read back with the brands that remain, are those of \<open>removal_spec\<close>, and the store
  keeps its invariant, so that the history of every natural key stays a chain whose last row is live.
\<close>

section \<open>One table\<close>

lemma unique_ok_map:
  assumes "\<And>r. kr_cols (f r) = kr_cols r" "\<And>r. kr_current (f r) = kr_current r"
  shows "unique_ok env a (map f rows) = unique_ok env a rows"
proof (induction rows)
  case (Cons r rows)
  have "collides env a (f r) (f y) = collides env a r y" for y
    by (rule collides_cols) (simp_all add: assms)
  with Cons show ?case by (auto simp: list_ex_iff)
qed simp

lemma unique_ok_relink: "unique_ok env a (relink p rows) = unique_ok env a rows"
proof -
  have "unique_ok env a (fold (\<lambda>l. update_where (\<lambda>r. kr_id r = rl_id l) (\<lambda>r. r\<lparr>kr_superseded := Some (rl_toBatch l)\<rparr>)) ls rows)
      = unique_ok env a rows" for ls
  proof (induction ls arbitrary: rows)
    case (Cons l ls)
    have "unique_ok env a (update_where (\<lambda>r. kr_id r = rl_id l) (\<lambda>r. r\<lparr>kr_superseded := Some (rl_toBatch l)\<rparr>) rows)
        = unique_ok env a rows"
      unfolding update_where_def by (rule unique_ok_map) simp_all
    with Cons show ?case by simp
  qed simp
  then show ?thesis by (simp add: relink_def)
qed

lemma applied_unique: "apply_table env p rows = Inr rows' \<Longrightarrow> unique_ok env (adapter_of (tp_id p)) rows'"
  by (auto simp: apply_table_def Let_def unique_ok_relink split: if_splits)

lemma planned_fields:
  assumes "planned p r = Some y"
  shows "kr_id y = kr_id r" "kr_cols y = kr_cols r"
    "kr_batch y = kr_batch r \<or> kr_batch y \<in> ho_toBatch ` set (tp_handedOver p)"
  using assms by (auto simp: planned_def Let_def split: if_splits option.splits dest!: find_SomeD)

lemma handed_over_to:
  assumes "b \<in> ho_toBatch ` set (tp_handedOver (plan_of bs cs rows B lk t))"
  shows "b \<in> fst ` set lk"
proof -
  obtain r where "handedTo lk t r = Some b"
    using assms by (auto simp: plan_of_def planTable_def Let_def mem_map_filter)
  then show ?thesis by (auto simp: handedTo_def split: if_splits dest!: find_SomeD)
qed

section \<open>All tables\<close>

lemma applied_tables:
  assumes "apply_tables env (map plan ts) rows = Inr rows'" "distinct ts" "\<And>t. tp_id (plan t) = t"
  shows "if t \<in> set ts then apply_table env (plan t) (rows t) = Inr (rows' t) else rows' t = rows t"
  using assms(1,2)
proof (induction ts arbitrary: rows)
  case (Cons u ts)
  obtain rs where a: "apply_table env (plan u) (rows u) = Inr rs"
    and rest: "apply_tables env (map plan ts) (rows(u := rs)) = Inr rows'"
    using Cons.prems(1) assms(3) by (auto simp: apply_tables_def rbind_eq_Inr)
  from Cons.IH [OF rest] Cons.prems(2) a show ?case by (cases "t = u") auto
qed (simp add: apply_tables_def)

section \<open>The brands that remain\<close>

text \<open>A brand list with the same names, in which every brand a row refers to is still there.\<close>

definition brands_kept :: "mk_brand list \<Rightarrow> mk_brand list \<Rightarrow> (nat \<Rightarrow> bool) \<Rightarrow> bool" where
  "brands_kept bs bs' Q \<longleftrightarrow>
     map (\<lambda>b. (kb_id b, kb_name b)) bs' = map (\<lambda>b. (kb_id b, kb_name b)) (filter (\<lambda>b. Q (kb_id b)) bs)"

lemma brand_name_pairs:
  "brand_name bs v = map_option (\<lambda>p. JStr (snd p)) (List.find (\<lambda>p. id_val (fst p) = v) (map (\<lambda>b. (kb_id b, kb_name b)) bs))"
  unfolding brand_name_def by (induction bs) auto

lemma brand_name_kept:
  assumes "brands_kept bs bs' Q" "\<And>b. v = id_val b \<Longrightarrow> Q b"
  shows "brand_name bs' v = brand_name bs v"
proof -
  have "List.find (\<lambda>p. id_val (fst p) = v) (map (\<lambda>b. (kb_id b, kb_name b)) (filter (\<lambda>b. Q (kb_id b)) bs)) =
        List.find (\<lambda>p. id_val (fst p) = v) (map (\<lambda>b. (kb_id b, kb_name b)) bs)"
    using assms(2) by (induction bs) auto
  then show ?thesis using assms(1) by (simp add: brand_name_pairs brands_kept_def)
qed

lemma read_row_kept:
  assumes "brands_kept bs bs' Q" "t \<in> set BRAND_TABLES \<Longrightarrow> \<forall>b. dat (kr_cols r) ''brand_id'' = id_val b \<longrightarrow> Q b"
  shows "read_row bs' cs (adapter_of t) r = read_row bs cs (adapter_of t) r"
proof -
  have "selectCol bs' cs r fd = selectCol bs cs r fd" if fd: "fd \<in> set (ad_fields (adapter_of t))" for fd
  proof (cases "fd_type fd = Ty_brand")
    case True
    then have "t \<in> set BRAND_TABLES" "fd_col fd = ''brand_id''" using fd brand_tables adapter_brand_col [OF fd] by auto
    with True assms show ?thesis by (simp add: selectCol_def brand_name_kept [OF assms(1)])
  qed (cases "fd_type fd"; simp add: selectCol_def)
  then have "join_row bs' cs (adapter_of t) r = join_row bs cs (adapter_of t) r"
    unfolding join_row_def by (intro arg_cong [of _ _ those]) simp
  then show ?thesis by (simp add: read_row_def)
qed

lemma fold_update_where_map:
  assumes "\<And>k b. f (upd k b) = f b"
  shows "map f (fold (\<lambda>k. update_where (P k) (upd k)) ks bs) = map f bs"
  using assms by (induction ks arbitrary: bs) (auto simp: update_where_def)

definition unused_in :: "(table_id \<Rightarrow> mk_row list) \<Rightarrow> nat \<Rightarrow> bool" where
  "unused_in rows b \<longleftrightarrow> list_all (\<lambda>t. refs_of (rows t) b = []) BRAND_TABLES"

lemma apply_brands_kept:
  "brands_kept bs (apply_brands plan rows bs) (\<lambda>i. \<not> (i \<in> db_id ` set (rp_deleted plan) \<and> unused_in rows i))"
  unfolding brands_kept_def apply_brands_def Let_def unused_in_def [symmetric] fold_delete_where
  by (rule fold_update_where_map) simp

lemma brands_kept_ids:
  assumes "brands_kept bs bs' Q"
  shows "map kb_id bs' = filter Q (map kb_id bs)"
proof -
  from assms have "map fst (map (\<lambda>b. (kb_id b, kb_name b)) bs') = map fst (map (\<lambda>b. (kb_id b, kb_name b)) (filter (\<lambda>b. Q (kb_id b)) bs))"
    unfolding brands_kept_def by (rule arg_cong)
  then show ?thesis by (simp add: comp_def filter_map)
qed

lemma fold_created:
  assumes "b \<in> set (fold (\<lambda>k. update_where (\<lambda>b. kb_id b = bk_id k) (\<lambda>b. b\<lparr>kb_created := Some (hd (bk_usedBy k))\<rparr>)) ks bs)"
  shows "kb_created b \<in> kb_created ` set bs \<or> (\<exists>k \<in> set ks. kb_created b = Some (hd (bk_usedBy k)))"
  using assms
proof (induction ks arbitrary: bs)
  case (Cons k ks)
  from Cons.IH [of "update_where (\<lambda>b. kb_id b = bk_id k) (\<lambda>b. b\<lparr>kb_created := Some (hd (bk_usedBy k))\<rparr>) bs"] Cons.prems
  show ?case by (auto simp: update_where_def)
qed auto

lemma used_by_batches:
  assumes "u \<in> set (usedBy plan rows b)"
  shows "(\<exists>t. \<exists>r \<in> set (rows t). u = kr_batch r) \<or> (\<exists>t. u \<in> ho_toBatch ` set (tp_handedOver (plan t)))"
proof -
  obtain t where t: "u \<in> set (used_in (plan t) (rows t) b)" using assms by (auto simp: usedBy_def)
  then obtain r where r: "r \<in> set (rows t)"
    "u = (case List.find (\<lambda>h. ho_id h = kr_id r) (rev (tp_handedOver (plan t))) of Some h \<Rightarrow> ho_toBatch h | None \<Rightarrow> kr_batch r)"
    by (auto simp: used_in_def refs_of_def)
  show ?thesis
  proof (cases "List.find (\<lambda>h. ho_id h = kr_id r) (rev (tp_handedOver (plan t)))")
    case None
    with r show ?thesis by auto
  next
    case (Some h)
    from find_SomeD(1) [OF this] r Some show ?thesis by auto
  qed
qed

section \<open>A removal\<close>

lemma removed_parts:
  fixes svc db B lk plan db1
  assumes ok: "store_ok svc db" and r: "remove_rows svc B lk db = Inr (plan, db1)"
    and ids: "\<forall>i \<in> fst ` set lk. B < i \<and> i < kd_next_batch db"
  shows "plan = planRemoval (kd_brands db) (kd_categories db) (kd_rows db) B lk"
  "kd_rows db1 t = List.map_filter (planned (plan_of (kd_brands db) (kd_categories db) (kd_rows db) B lk t)) (kd_rows db t)"
  "unique_ok (sv_env svc) (adapter_of t) (kd_rows db1 t)"
  "kd_brands db1 = apply_brands plan (kd_rows db1) (kd_brands db)"
  "db1 = db\<lparr>kd_rows := kd_rows db1, kd_brands := kd_brands db1\<rparr>"
  "read_rows (kd_brands db) (kd_categories db) (adapter_of t) (kd_rows db1 t) =
     removal_spec B (handedTo lk t) (read_rows (kd_brands db) (kd_categories db) (adapter_of t) (kd_rows db t))"
proof -
  let ?pl = "plan_of (kd_brands db) (kd_categories db) (kd_rows db) B lk"
  show p: "plan = planRemoval (kd_brands db) (kd_categories db) (kd_rows db) B lk"
    using r by (auto simp: remove_rows_def Let_def rbind_eq_Inr)
  obtain rows where a: "apply_tables (sv_env svc) (map ?pl table_ids) (kd_rows db) = Inr rows"
    and d: "db1 = db\<lparr>kd_rows := rows, kd_brands := apply_brands plan rows (kd_brands db)\<rparr>"
    using r p by (auto simp: remove_rows_def Let_def rbind_eq_Inr applyRemoval_def planRemoval_def)
  then show "db1 = db\<lparr>kd_rows := kd_rows db1, kd_brands := kd_brands db1\<rparr>"
    "kd_brands db1 = apply_brands plan (kd_rows db1) (kd_brands db)" by simp_all
  have t: "apply_table (sv_env svc) (?pl t) (kd_rows db t) = Inr (kd_rows db1 t)"
    using applied_tables [OF a table_ids_distinct plan_of_id, of t] d by simp
  note T = table_okD [OF store_okD(1) [OF ok, of t]]
  note A = apply_table_read [OF T(6,1) t]
  show "kd_rows db1 t = List.map_filter (planned (?pl t)) (kd_rows db t)" by (rule A(1))
  show "read_rows (kd_brands db) (kd_categories db) (adapter_of t) (kd_rows db1 t) =
     removal_spec B (handedTo lk t) (read_rows (kd_brands db) (kd_categories db) (adapter_of t) (kd_rows db t))"
    by (rule A(2))
  show "unique_ok (sv_env svc) (adapter_of t) (kd_rows db1 t)" using applied_unique [OF t] by simp
qed

lemma removed_row:
  fixes svc db B lk plan db1
  assumes ok: "store_ok svc db" and r: "remove_rows svc B lk db = Inr (plan, db1)"
    and ids: "\<forall>i \<in> fst ` set lk. B < i \<and> i < kd_next_batch db"
  assumes "y \<in> set (kd_rows db1 t)"
  obtains x where "x \<in> set (kd_rows db t)" "kr_id y = kr_id x" "kr_cols y = kr_cols x" "kr_batch y < kd_next_batch db"
proof -
  let ?p = "plan_of (kd_brands db) (kd_categories db) (kd_rows db) B lk t"
  obtain x where x: "x \<in> set (kd_rows db t)" "planned ?p x = Some y"
    using assms(4-) by (auto simp: removed_parts(2) [OF ok r ids, of t] mem_map_filter)
  note f = planned_fields [OF x(2)]
  have "kr_batch y < kd_next_batch db"
    using f(3) handed_over_to ids table_okD(3) [OF store_okD(1) [OF ok] x(1)] by fastforce
  with x f show thesis by (intro that)
qed

lemma removed_brands:
  fixes svc db B lk plan db1
  assumes ok: "store_ok svc db" and r: "remove_rows svc B lk db = Inr (plan, db1)"
    and ids: "\<forall>i \<in> fst ` set lk. B < i \<and> i < kd_next_batch db"
  shows "brands_kept (kd_brands db) (kd_brands db1) (\<lambda>i. \<not> (i \<in> db_id ` set (rp_deleted plan) \<and> unused_in (kd_rows db1) i))"
  using apply_brands_kept [of "kd_brands db" plan "kd_rows db1"] by (simp add: removed_parts(4) [OF ok r ids])

lemma used_brand:
  fixes svc db B lk plan db1
  assumes ok: "store_ok svc db" and r: "remove_rows svc B lk db = Inr (plan, db1)"
    and ids: "\<forall>i \<in> fst ` set lk. B < i \<and> i < kd_next_batch db"
  assumes "y \<in> set (kd_rows db1 t)" "t \<in> set BRAND_TABLES" "dat (kr_cols y) ''brand_id'' = id_val i"
  shows "\<not> unused_in (kd_rows db1) i"
  using assms(4-) by (auto simp: unused_in_def list_all_iff refs_of_def filter_empty_conv)

lemma removed_read:
  fixes svc db B lk plan db1
  assumes ok: "store_ok svc db" and r: "remove_rows svc B lk db = Inr (plan, db1)"
    and ids: "\<forall>i \<in> fst ` set lk. B < i \<and> i < kd_next_batch db"
  shows "read_rows (kd_brands db1) (kd_categories db) (adapter_of t) (kd_rows db1 t) =
     removal_spec B (handedTo lk t) (read_rows (kd_brands db) (kd_categories db) (adapter_of t) (kd_rows db t))"
proof -
  have "read_row (kd_brands db1) (kd_categories db) (adapter_of t) y = read_row (kd_brands db) (kd_categories db) (adapter_of t) y"
    if "y \<in> set (kd_rows db1 t)" for y
    by (rule read_row_kept [OF removed_brands [OF ok r ids]]) (use used_brand [OF ok r ids that] in blast)
  then have "read_rows (kd_brands db1) (kd_categories db) (adapter_of t) (kd_rows db1 t) =
      read_rows (kd_brands db) (kd_categories db) (adapter_of t) (kd_rows db1 t)"
    unfolding read_rows_def by (rule map_filter_cong')
  then show ?thesis by (simp add: removed_parts(6) [OF ok r ids])
qed

lemma removed_table:
  fixes svc db B lk plan db1
  assumes ok: "store_ok svc db" and r: "remove_rows svc B lk db = Inr (plan, db1)"
    and ids: "\<forall>i \<in> fst ` set lk. B < i \<and> i < kd_next_batch db"
  shows "table_ok (sv_env svc) (kd_brands db1) (kd_categories db) (kd_next_batch db) t (kd_next db t, kd_rows db1 t)"
proof -
  note T = table_okD [OF store_okD(1) [OF ok, of t]]
  let ?rs = "read_rows (kd_brands db) (kd_categories db) (adapter_of t) (kd_rows db t)"
  let ?own = "\<lambda>r. if dr_batch r = B then handedTo lk t r else None"
  have "history_ok (removal_spec B ?own ?rs)"
  proof (rule removal_history [OF T(6)])
    fix x b assume "x \<in> set ?rs" "?own x = Some b"
    then show "dr_current x \<and> dr_batch x < b"
      using bspec [OF ids, of b] by (auto simp: handedTo_def split: if_splits dest!: find_SomeD)
  qed
  moreover have "distinct (map kr_id (kd_rows db1 t))"
    unfolding removed_parts(2) [OF ok r ids, of t] by (rule distinct_filter_ids [OF T(1)]) (rule planned_fields(1))
  moreover have "kr_id y < kd_next db t \<and> kr_batch y < kd_next_batch db \<and> brand_ref_ok t (kd_brands db1) y"
    if y: "y \<in> set (kd_rows db1 t)" for y
  proof -
    obtain x where x: "x \<in> set (kd_rows db t)" "kr_id y = kr_id x" "kr_cols y = kr_cols x" "kr_batch y < kd_next_batch db"
      by (rule removed_row [OF ok r ids y])
    have "brand_ref_ok t (kd_brands db1) y"
    proof (cases "nullish (dat (kr_cols y) ''brand_id'')")
      case False
      with T(4) [OF x(1)] x(3) obtain b where b: "t \<in> set BRAND_TABLES" "b \<in> set (kd_brands db)"
        "dat (kr_cols y) ''brand_id'' = id_val (kb_id b)" by (auto simp: brand_ref_ok_def list_ex_iff)
      have "kb_id b \<in> set (map kb_id (kd_brands db1))"
        unfolding brands_kept_ids [OF removed_brands [OF ok r ids]] using b(2) used_brand [OF ok r ids y b(1,3)] by simp
      with b show ?thesis by (auto simp: brand_ref_ok_def list_ex_iff)
    qed (simp add: brand_ref_ok_def)
    with x T(2) [OF x(1)] show ?thesis by simp
  qed
  ultimately show ?thesis
    using removed_parts(3) [OF ok r ids, of t] by (simp add: table_ok_def list_all_iff removed_read [OF ok r ids] removal_spec_own)
qed

lemma removed_brand_ok:
  fixes svc db B lk plan db1
  assumes ok: "store_ok svc db" and r: "remove_rows svc B lk db = Inr (plan, db1)"
    and ids: "\<forall>i \<in> fst ` set lk. B < i \<and> i < kd_next_batch db"
  assumes "b \<in> set (kd_brands db1)"
  shows "kb_id b < kd_next_brand db" "kb_created b = Some C \<Longrightarrow> C < kd_next_batch db"
proof -
  have "kb_id b \<in> set (map kb_id (kd_brands db1))" using assms(4-) by simp
  then show "kb_id b < kd_next_brand db"
    unfolding brands_kept_ids [OF removed_brands [OF ok r ids]] using store_okD(3) [OF ok] by auto
  assume C: "kb_created b = Some C"
  from assms(4-) have "kb_created b \<in> kb_created ` set (kd_brands db) \<or>
      (\<exists>k \<in> set (rp_kept plan). kb_created b = Some (hd (bk_usedBy k)))"
    unfolding removed_parts(4) [OF ok r ids] apply_brands_def Let_def fold_delete_where by (auto dest!: fold_created)
  then show "C < kd_next_batch db"
  proof
    assume "kb_created b \<in> kb_created ` set (kd_brands db)"
    then show ?thesis using C store_okD(4) [OF ok] by auto
  next
    assume "\<exists>k \<in> set (rp_kept plan). kb_created b = Some (hd (bk_usedBy k))"
    then obtain c where c: "C = hd (usedBy (plan_of (kd_brands db) (kd_categories db) (kd_rows db) B lk) (kd_rows db) c)"
      "usedBy (plan_of (kd_brands db) (kd_categories db) (kd_rows db) B lk) (kd_rows db) c \<noteq> []"
      using C by (auto simp: removed_parts(1) [OF ok r ids] planRemoval_def Let_def)
    then have "C \<in> set (usedBy (plan_of (kd_brands db) (kd_categories db) (kd_rows db) B lk) (kd_rows db) c)" by simp
    from used_by_batches [OF this] show ?thesis
    proof (elim disjE exE bexE)
      fix t r assume "r \<in> set (kd_rows db t)" "C = kr_batch r"
      then show ?thesis using table_okD(3) [OF store_okD(1) [OF ok]] by simp
    next
      fix t assume "C \<in> ho_toBatch ` set (tp_handedOver (plan_of (kd_brands db) (kd_categories db) (kd_rows db) B lk t))"
      then show ?thesis using handed_over_to ids by blast
    qed
  qed
qed

lemma removed_store_ok:
  fixes svc db B lk plan db1
  assumes ok: "store_ok svc db" and r: "remove_rows svc B lk db = Inr (plan, db1)"
    and ids: "\<forall>i \<in> fst ` set lk. B < i \<and> i < kd_next_batch db"
  shows "store_ok svc db1"
proof -
  have f: "kd_categories db1 = kd_categories db" "kd_next_batch db1 = kd_next_batch db" "kd_next_brand db1 = kd_next_brand db"
    "kd_next db1 = kd_next db" "kd_batches db1 = kd_batches db"
    by (subst removed_parts(5) [OF ok r ids], simp)+
  have "distinct (map kb_id (kd_brands db1))"
    unfolding brands_kept_ids [OF removed_brands [OF ok r ids]] using store_okD(2) [OF ok] by simp
  with removed_table [OF ok r ids] removed_brand_ok [OF ok r ids] store_okD(5-8) [OF ok] show ?thesis
    unfolding store_ok_def table_of_def f by (auto simp: list_all_iff split: option.split)
qed

end
