(* ===== verification/Marcom_Rules.thy ===== *)
theory Marcom_Rules
  imports Marcom_Undo
begin

text \<open>
  The rules of a removal as the head of \<open>marcom/removal.ts\<close> states them, independently of the code that carries
  them out: which later file restates a row, the batch a row is handed over to, and what becomes of every row of
  a table (rules a, b, c1, c2, c3). The lemmas show that the plan follows these rules on a store in order.
\<close>

section \<open>The rules\<close>

text \<open>A later successful batch restates a key when its upload left rows unchanged and its stored file, parsed again,
has a row with the key.\<close>

definition restated_by :: "mk_service \<Rightarrow> mk_db \<Rightarrow> nat \<Rightarrow> table_id \<Rightarrow> string \<Rightarrow> nat \<Rightarrow> bool" where
  "restated_by svc db B t key i \<longleftrightarrow>
     (\<exists>b sm file p row. b \<in> set (kd_batches db) \<and> mb_id b = i \<and> B < i \<and> mb_status b = B_success \<and>
        mb_summary b = Some sm \<and> 0 < sm_unchanged sm \<and> mb_file b = Some file \<and>
        sv_parse svc file (mb_filename b) \<lparr>po_knownBrands = None, po_groupBrands = None,
          po_knownCategories = po_knownCategories (loadKnown db), po_knownCampaigns = None\<rparr> = Inr p \<and>
        row \<in> set (tr_rows (pp_tables p t)) \<and> keyOf (adapter_of t) (pr_data row) = key)"

text \<open>Rule c2: a live row goes to the earliest later batch that restates it.\<close>

definition goes_to :: "mk_service \<Rightarrow> mk_db \<Rightarrow> nat \<Rightarrow> table_id \<Rightarrow> db_row \<Rightarrow> nat \<Rightarrow> bool" where
  "goes_to svc db B t r b \<longleftrightarrow> dr_current r \<and> restated_by svc db B t (dr_key r) b \<and>
     (\<forall>i. restated_by svc db B t (dr_key r) i \<longrightarrow> b \<le> i)"

text \<open>What becomes of a row of the table \<open>rs\<close>; \<open>None\<close> is deletion. In the rules for an earlier row, \<open>m\<close> is the row of
the batch that had replaced it.\<close>

inductive removal_rule ::
  "mk_service \<Rightarrow> mk_db \<Rightarrow> nat \<Rightarrow> table_id \<Rightarrow> db_row list \<Rightarrow> db_row \<Rightarrow> db_row option \<Rightarrow> bool"
  for svc db B t rs
where
  rule_a: "dr_batch r = B \<Longrightarrow> (\<And>b. \<not> goes_to svc db B t r b) \<Longrightarrow> removal_rule svc db B t rs r None"
| rule_c2: "dr_batch r = B \<Longrightarrow> goes_to svc db B t r b \<Longrightarrow> removal_rule svc db B t rs r (Some (r\<lparr>dr_batch := b\<rparr>))"
| rule_c1: "dr_batch r \<noteq> B \<Longrightarrow> dr_superseded r = Some B \<Longrightarrow> m \<in> set rs \<Longrightarrow> dr_batch m = B \<Longrightarrow> dr_key m = dr_key r \<Longrightarrow>
    dr_current m \<Longrightarrow> (\<And>b. \<not> goes_to svc db B t m b) \<Longrightarrow>
    removal_rule svc db B t rs r (Some (r\<lparr>dr_current := True, dr_superseded := None\<rparr>))"
| rule_c2_link: "dr_batch r \<noteq> B \<Longrightarrow> dr_superseded r = Some B \<Longrightarrow> m \<in> set rs \<Longrightarrow> dr_batch m = B \<Longrightarrow> dr_key m = dr_key r \<Longrightarrow>
    goes_to svc db B t m b \<Longrightarrow> removal_rule svc db B t rs r (Some (r\<lparr>dr_superseded := Some b\<rparr>))"
| rule_c3: "dr_batch r \<noteq> B \<Longrightarrow> dr_superseded r = Some B \<Longrightarrow> m \<in> set rs \<Longrightarrow> dr_batch m = B \<Longrightarrow> dr_key m = dr_key r \<Longrightarrow>
    \<not> dr_current m \<Longrightarrow> dr_superseded m = Some c \<Longrightarrow> removal_rule svc db B t rs r (Some (r\<lparr>dr_superseded := Some c\<rparr>))"
| rule_other: "dr_batch r \<noteq> B \<Longrightarrow> dr_superseded r \<noteq> Some B \<Longrightarrow> removal_rule svc db B t rs r (Some r)"

inductive_cases removal_ruleE: "removal_rule svc db B t rs r y"

section \<open>The keys of the later files\<close>

lemma later_file_keys_Inr:
  "later_file_keys svc db b = Inr (i, ks) \<longleftrightarrow> mb_id b = i \<and>
     (\<exists>file p. mb_file b = Some file \<and>
        sv_parse svc file (mb_filename b) \<lparr>po_knownBrands = None, po_groupBrands = None,
          po_knownCategories = po_knownCategories (loadKnown db), po_knownCampaigns = None\<rparr> = Inr p \<and>
        ks = (\<lambda>t. map (\<lambda>r. keyOf (adapter_of t) (pr_data r)) (tr_rows (pp_tables p t))))"
  by (auto simp: later_file_keys_def split: option.splits sum.splits marcom_error.splits)

lemma restated_by_iff:
  assumes "laterBatchKeys svc db B = Inr lk" "store_ok svc db"
  shows "restated_by svc db B t k i \<longleftrightarrow> file_has lk t k i"
proof -
  let ?bs = "filter kept_unchanged (sort_key mb_id (filter (\<lambda>b. B < mb_id b \<and> mb_status b = B_success) (kd_batches db)))"
  have all: "list_all2 (\<lambda>b e. later_file_keys svc db b = Inr e) ?bs lk"
    using assms(1) unfolding laterBatchKeys_def rmap_eq_Inr .
  have i: "later_file_keys svc db b = Inr e \<Longrightarrow> fst e = mb_id b" for b e by (cases e) (simp add: later_file_keys_Inr)
  have "map fst es = map mb_id bs" if "list_all2 (\<lambda>b e. later_file_keys svc db b = Inr e) bs es" for bs es
    using that by (induction bs es rule: list_all2_induct) (simp_all add: i)
  then have "map fst lk = map mb_id ?bs" using all .
  moreover have "distinct (map mb_id ?bs)"
    using store_okD(6) [OF assms(2)] by (simp add: distinct_map inj_on_def)
  ultimately have d: "distinct (map fst lk)" by simp
  have "e \<in> set es \<longleftrightarrow> (\<exists>b \<in> set bs. later_file_keys svc db b = Inr e)"
    if "list_all2 (\<lambda>b e. later_file_keys svc db b = Inr e) bs es" for e bs es
    using that by (induction bs es rule: list_all2_induct) auto
  from this [OF all] have mem: "(i, ks) \<in> set lk \<longleftrightarrow> (\<exists>b \<in> set ?bs. later_file_keys svc db b = Inr (i, ks))" for ks .
  have kept: "kept_unchanged b \<longleftrightarrow> (\<exists>sm. mb_summary b = Some sm \<and> 0 < sm_unchanged sm)" for b
    by (auto simp: kept_unchanged_def split: option.splits)
  have "file_has lk t k i \<longleftrightarrow> (\<exists>ks. (i, ks) \<in> set lk \<and> k \<in> set (ks t))"
    unfolding map_of_eq_Some_iff [OF d, symmetric] by (auto simp: file_has_def split: option.splits)
  also have "\<dots> \<longleftrightarrow> restated_by svc db B t k i"
  proof -
    let ?parsed = "\<lambda>b file p. mb_file b = Some file \<and>
        sv_parse svc file (mb_filename b) \<lparr>po_knownBrands = None, po_groupBrands = None,
          po_knownCategories = po_knownCategories (loadKnown db), po_knownCampaigns = None\<rparr> = Inr p"
    have "(\<exists>ks. (i, ks) \<in> set lk \<and> k \<in> set (ks t)) \<longleftrightarrow>
        (\<exists>b file p. b \<in> set ?bs \<and> mb_id b = i \<and> ?parsed b file p \<and>
          k \<in> set (map (\<lambda>r. keyOf (adapter_of t) (pr_data r)) (tr_rows (pp_tables p t))))"
      unfolding mem later_file_keys_Inr by blast
    also have "\<dots> \<longleftrightarrow> restated_by svc db B t k i"
      unfolding restated_by_def set_filter set_sort mem_Collect_eq kept set_map image_iff Bex_def by blast
    finally show ?thesis .
  qed
  finally show ?thesis ..
qed

lemma find_sorted:
  fixes xs :: "nat list"
  shows "sorted xs \<Longrightarrow> List.find P xs = Some b \<longleftrightarrow> b \<in> set xs \<and> P b \<and> (\<forall>i \<in> set xs. P i \<longrightarrow> b \<le> i)"
  by (induction xs) auto

lemma goes_to_iff:
  assumes "laterBatchKeys svc db B = Inr lk" "store_ok svc db"
  shows "goes_to svc db B t r b \<longleftrightarrow> handedTo lk t r = Some b"
proof -
  have "file_has lk t k i \<Longrightarrow> i \<in> fst ` set lk" for k i
    by (auto simp: file_has_def split: option.splits dest!: map_of_SomeD intro: rev_image_eqI)
  then show ?thesis
    by (auto simp: goes_to_def restated_by_iff [OF assms] handedTo_def find_sorted)
qed

section \<open>The plan follows the rules\<close>

lemma after_removal_rule:
  assumes lk: "laterBatchKeys svc db B = Inr lk" and ok: "store_ok svc db" and h: "history_ok rs" and r: "r \<in> set rs"
  shows "removal_rule svc db B t rs r y \<longleftrightarrow> after_removal B (handedTo lk t) rs r = y"
proof -
  have none: "(\<forall>b. \<not> goes_to svc db B t x b) \<longleftrightarrow> handedTo lk t x = None" for x
    unfolding goes_to_iff [OF lk ok] by (cases "handedTo lk t x") simp_all
  consider (own) "dr_batch r = B" | (earlier) "dr_batch r \<noteq> B" "dr_superseded r = Some B"
    | (other) "dr_batch r \<noteq> B" "dr_superseded r \<noteq> Some B" by blast
  then show ?thesis
  proof cases
    case own
    then have "removal_rule svc db B t rs r y \<longleftrightarrow> (handedTo lk t r = None \<and> y = None) \<or>
        (\<exists>b. handedTo lk t r = Some b \<and> y = Some (r\<lparr>dr_batch := b\<rparr>))"
      unfolding none [symmetric] goes_to_iff [OF lk ok, symmetric] by (blast elim: removal_ruleE intro: rule_a rule_c2)
    then show ?thesis using own by (cases "handedTo lk t r") (auto simp: after_removal_def)
  next
    case earlier
    obtain m where m: "m \<in> set rs" "dr_key m = dr_key r" "dr_batch m = B"
      "relinked B (handedTo lk t) rs r = (case handedTo lk t m of Some b \<Rightarrow> Some b | None \<Rightarrow> dr_superseded m)"
      using replaced_by [OF h r earlier(2), where hand = "handedTo lk t"] by metis
    have only: "x = m" if "x \<in> set rs" "dr_key x = dr_key r" "dr_batch x = B" for x
      using history_same [OF h that(1) m(1)] m(2,3) that by simp
    have cur: "dr_current m \<longleftrightarrow> dr_superseded m = None" using h m(1) by (auto simp: history_ok_def list_all_iff)
    have live: "goes_to svc db B t m b \<Longrightarrow> dr_current m" for b by (simp add: goes_to_def)
    have "removal_rule svc db B t rs r y \<longleftrightarrow>
        (dr_current m \<and> handedTo lk t m = None \<and> y = Some (r\<lparr>dr_current := True, dr_superseded := None\<rparr>)) \<or>
        (\<exists>b. handedTo lk t m = Some b \<and> y = Some (r\<lparr>dr_superseded := Some b\<rparr>)) \<or>
        (\<exists>c. \<not> dr_current m \<and> dr_superseded m = Some c \<and> y = Some (r\<lparr>dr_superseded := Some c\<rparr>))"
      unfolding none [symmetric] goes_to_iff [OF lk ok, symmetric]
      using earlier m(1-3) only by (blast elim: removal_ruleE intro: rule_c1 rule_c2_link rule_c3)
    moreover have "handedTo lk t m = Some b \<Longrightarrow> dr_superseded m = None" for b
      using live cur unfolding goes_to_iff [OF lk ok] by blast
    ultimately show ?thesis
      using earlier m(4) cur by (cases "handedTo lk t m"; cases "dr_superseded m") (auto simp: after_removal_def)
  next
    case other
    then show ?thesis by (auto simp: after_removal_def elim: removal_ruleE intro: rule_other)
  qed
qed

text \<open>A table after a removal: every row in its order, changed or dropped as its rule says.\<close>

definition follows_rules :: "mk_service \<Rightarrow> mk_db \<Rightarrow> nat \<Rightarrow> table_id \<Rightarrow> db_row list \<Rightarrow> db_row list \<Rightarrow> bool" where
  "follows_rules svc db B t rs rs' \<longleftrightarrow>
     (\<exists>result. (\<forall>r \<in> set rs. \<forall>y. removal_rule svc db B t rs r y \<longleftrightarrow> y = result r) \<and> rs' = List.map_filter result rs)"

lemma removal_follows:
  assumes "laterBatchKeys svc db B = Inr lk" "store_ok svc db" "history_ok rs"
  shows "follows_rules svc db B t rs (removal_spec B (handedTo lk t) rs)"
  unfolding follows_rules_def removal_spec_def
  by (intro exI [of _ "after_removal B (handedTo lk t) rs"] conjI ballI allI refl) (auto simp: after_removal_rule [OF assms])

end
