(* ===== verification/Marcom_Template.thy ===== *)
theory Marcom_Template
  imports Marcom_Typed
begin

text \<open>
  Locating the tables (\<open>locateHeader\<close> of \<open>marcom/parser.ts\<close>): a workbook that keeps the header rows of
  the template is accepted whatever else its sheets hold, and every table is found at its template row.
\<close>

section \<open>The best row wins\<close>

lemma score_bounds: "scoreRow lib ws spec r \<le> length (ts_cols spec)"
  by (simp add: scoreRow_def)

lemma better_row_cases:
  "better_row lib ws spec r best = best \<or> better_row lib ws spec r best = (int r, int (scoreRow lib ws spec r))"
  by (simp add: better_row_def Let_def)

text \<open>Once the template row with a full score has been seen, no other row replaces it.\<close>

lemma best_stays:
  assumes "snd best = int (length (ts_cols spec))" "fst best = int (ts_headerRow spec)"
  shows "fold (better_row lib ws spec) rs best = best"
  using assms
proof (induction rs)
  case (Cons r rs)
  have "better_row lib ws spec r best = best"
    using score_bounds [of lib ws spec r] Cons.prems by (auto simp: better_row_def Let_def row_distance_def)
  with Cons show ?case by simp
qed simp

lemma best_before:
  assumes "ts_headerRow spec \<notin> set rs" "snd best \<le> int (length (ts_cols spec))"
    "snd best = int (length (ts_cols spec)) \<longrightarrow> fst best \<noteq> int (ts_headerRow spec)"
  shows "snd (fold (better_row lib ws spec) rs best) \<le> int (length (ts_cols spec)) \<and>
    (snd (fold (better_row lib ws spec) rs best) = int (length (ts_cols spec)) \<longrightarrow>
       fst (fold (better_row lib ws spec) rs best) \<noteq> int (ts_headerRow spec))"
  using assms
proof (induction rs arbitrary: best)
  case (Cons r rs)
  let ?b = "better_row lib ws spec r best"
  have "snd ?b \<le> int (length (ts_cols spec)) \<and> (snd ?b = int (length (ts_cols spec)) \<longrightarrow> fst ?b \<noteq> int (ts_headerRow spec))"
    using better_row_cases [of lib ws spec r best] score_bounds [of lib ws spec r] Cons.prems by auto
  with Cons.IH [of ?b] Cons.prems(1) show ?case by simp
qed simp

lemma header_located:
  assumes full: "list_all (has_header lib ws (ts_headerRow spec)) (ts_cols spec)"
    and h: "fromRow \<le> ts_headerRow spec" "1 \<le> ts_headerRow spec"
  shows "locateHeader lib ws spec fromRow = (ts_headerRow spec, [])"
proof -
  let ?h = "ts_headerRow spec" and ?n = "int (length (ts_cols spec))"
  let ?last = "min (if wk_rowCount ws = 0 then ?h else wk_rowCount ws) (?h + 60)"
  have score: "scoreRow lib ws spec ?h = length (ts_cols spec)"
    using full by (simp add: scoreRow_def list_all_iff)
  have split: "[max 1 fromRow..<Suc (max ?last ?h)] = [max 1 fromRow..<?h] @ ?h # [Suc ?h..<Suc (max ?last ?h)]"
    using h upt_add_eq_append [of "max 1 fromRow" ?h "Suc (max ?last ?h) - ?h"] by (simp add: upt_conv_Cons del: upt_Suc)
  let ?b = "fold (better_row lib ws spec) [max 1 fromRow..<?h] (-1, -1)"
  have b: "snd ?b \<le> ?n" "snd ?b = ?n \<longrightarrow> fst ?b \<noteq> int ?h"
    using best_before [of spec "[max 1 fromRow..<?h]" "(-1, -1)" lib ws] by auto
  have "better_row lib ws spec ?h ?b = (int ?h, ?n)"
    using b score by (auto simp: better_row_def Let_def row_distance_def)
  then have "fold (better_row lib ws spec) [max 1 fromRow..<Suc (max ?last ?h)] (-1, -1) = (int ?h, ?n)"
    unfolding split using best_stays [of "(int ?h, ?n)" spec lib ws] by simp
  then show ?thesis by (simp add: locateHeader_def Let_def)
qed

section \<open>All tables\<close>

definition keeps_headers :: "xlsx_lib \<Rightarrow> (string \<Rightarrow> worksheet) \<Rightarrow> bool" where
  "keeps_headers lib sheets \<longleftrightarrow>
     list_all (\<lambda>spec. list_all (has_header lib (sheets (ts_sheet spec)) (ts_headerRow spec)) (ts_cols spec)) TABLES"

lemma locate_kept:
  assumes "list_all (has_header lib (sheets (ts_sheet spec)) (ts_headerRow spec)) (ts_cols spec)" "1 \<le> ts_headerRow spec"
    "case map_of (lc_last l) (ts_sheet spec) of None \<Rightarrow> True | Some n \<Rightarrow> n < ts_headerRow spec"
  shows "locate_table lib sheets spec l =
    \<lparr>lc_row = (lc_row l)(ts_id spec := ts_headerRow spec), lc_problems = lc_problems l,
     lc_last = (ts_sheet spec, ts_headerRow spec) # lc_last l\<rparr>"
proof -
  have "(case map_of (lc_last l) (ts_sheet spec) of None \<Rightarrow> 0 | Some n \<Rightarrow> n) + 1 \<le> ts_headerRow spec"
    using assms(2,3) by (auto split: option.splits)
  from header_located [OF assms(1) this assms(2)] show ?thesis by (simp add: locate_table_def Let_def)
qed

fun in_order :: "(string \<times> nat) list \<Rightarrow> table_spec list \<Rightarrow> bool" where
  "in_order seen [] = True"
| "in_order seen (s # ss) =
     (1 \<le> ts_headerRow s \<and> (case map_of seen (ts_sheet s) of None \<Rightarrow> True | Some n \<Rightarrow> n < ts_headerRow s)
      \<and> in_order ((ts_sheet s, ts_headerRow s) # seen) ss)"

lemma TABLES_in_order: "in_order [] TABLES"
  by (simp add: TABLES_def spec_defs SHEET_P1_def SHEET_P1B_def SHEET_P2_def SHEET_P3_def SHEET_P4_def)

lemma locate_fold:
  assumes "\<And>t. t \<in> set ts \<Longrightarrow> list_all (has_header lib (sheets (ts_sheet (spec_of t))) (ts_headerRow (spec_of t))) (ts_cols (spec_of t))"
    "in_order (lc_last l) (map spec_of ts)" "distinct ts"
  shows "lc_problems (fold (locate_table lib sheets) (map spec_of ts) l) = lc_problems l \<and>
    lc_row (fold (locate_table lib sheets) (map spec_of ts) l) t = (if t \<in> set ts then ts_headerRow (spec_of t) else lc_row l t)"
  using assms
proof (induction ts arbitrary: l)
  case (Cons u ts)
  have one: "locate_table lib sheets (spec_of u) l =
    \<lparr>lc_row = (lc_row l)(u := ts_headerRow (spec_of u)), lc_problems = lc_problems l,
     lc_last = (ts_sheet (spec_of u), ts_headerRow (spec_of u)) # lc_last l\<rparr>"
    using locate_kept [of lib sheets "spec_of u" l] Cons.prems by simp
  show ?case
    using Cons.IH [of "locate_table lib sheets (spec_of u) l"] Cons.prems by (auto simp: one)
qed simp

lemma tables_located:
  assumes "keeps_headers lib sheets"
  shows "lc_problems (locate_tables lib sheets) = []" "lc_row (locate_tables lib sheets) t = ts_headerRow (spec_of t)"
  using locate_fold [of table_ids lib sheets "\<lparr>lc_row = (\<lambda>t. 0), lc_problems = [], lc_last = []\<rparr>" t] assms
    TABLES_in_order table_ids_distinct
  by (simp_all add: locate_tables_def TABLES_specs keeps_headers_def list_all_iff)

text \<open>C28. A workbook whose sheets are all there and whose header rows are those of the template is never refused for
  its structure, whatever its other cells hold, even copies of the header: every table is read from its
  template row.\<close>

theorem template_layout_accepted:
  assumes "assertSafeXlsx buf filename = Inr ()" "xl_load lib buf = Some wss" "missing_sheets wss = []"
    "keeps_headers lib (\<lambda>s. the (find_sheet wss s))"
  shows "parseMarcomWorkbook lib buf filename opts ex =
         Inr (parse_sheets lib (\<lambda>s. the (find_sheet wss s)) (\<lambda>t. ts_headerRow (spec_of t)) opts ex)"
proof -
  have "lc_row (locate_tables lib (\<lambda>s. the (find_sheet wss s))) = (\<lambda>t. ts_headerRow (spec_of t))"
    using tables_located(2) [OF assms(4)] by (simp add: fun_eq_iff)
  then show ?thesis
    using assms(1-3) tables_located(1) [OF assms(4)] by (simp add: parseMarcomWorkbook_def Let_def)
qed

end
