(* ===== verification/Marcom_Demo.thy ===== *)
theory Marcom_Demo
  imports Marcom_Template
begin

text \<open>
  A small workbook in the template's layout with one campaign row, and its parse by the model of
  \<open>marcom/parser.ts\<close>, worked out once: the witnesses of the MARCOM claims upload it.
\<close>

section \<open>The workbook\<close>

definition header_cell :: "string \<Rightarrow> nat \<Rightarrow> nat \<Rightarrow> xl" where
  "header_cell s r c =
     (case List.find (\<lambda>t. ts_sheet t = s \<and> ts_headerRow t = r) TABLES of
        None \<Rightarrow> X_null
      | Some t \<Rightarrow> (case List.find (\<lambda>k. cs_col k = c) (ts_cols t) of None \<Rightarrow> X_null | Some k \<Rightarrow> X_str (cs_label k)))"

definition filled_sheet :: "xl list \<Rightarrow> string \<Rightarrow> worksheet" where
  "filled_sheet cells s =
     \<lparr>wk_name = s, wk_rowCount = 0,
      wk_value = (\<lambda>r c. if s = SHEET_P2 \<and> r = 6 then (if 1 \<le> c \<and> c \<le> length cells then cells ! (c - 1) else X_null) else header_cell s r c),
      wk_fill = (\<lambda>r c. None)\<rparr>"

definition filled_lib :: "xl list \<Rightarrow> xlsx_lib" where
  "filled_lib cells =
     \<lparr>xl_load = (\<lambda>b. Some (map (filled_sheet cells) [SHEET_P1, SHEET_P1B, SHEET_P2, SHEET_P3, SHEET_P4])),
      xl_date = (\<lambda>t. ''date'')\<rparr>"

definition demo_cells :: "xl list" where
  "demo_cells = [X_str ''Spring'', X_str ''Acme'', X_str ''2026-03-01'', X_str ''31/03/2026'', X_str ''planned'', X_num (Fin 100), X_num (Fin 50)]"


section \<open>Its campaign row\<close>

definition demo_row :: parsed_row where
  "demo_row = \<lparr>pr_table = T_campaigns, pr_sheet = ''P2 - Media Campaigns'', pr_rowNumber = 6, pr_key = ''spring'',
    pr_data = [(''name'', JStr ''Spring''), (''brand'', JStr ''Acme''), (''startDate'', JStr ''2026-03-01''),
              (''endDate'', JStr ''2026-03-31''), (''status'', JStr ''Planned''), (''spend'', JNum (Fin 100)),
              (''revenueAttributed'', JNum (Fin 50))]\<rparr>"
definition demo_ctx :: parse_ctx where
  "demo_ctx = \<lparr>cx_date = (\<lambda>t. ''date''), cx_known = Some [], cx_groups = [], cx_categories = [], cx_includeExamples = False\<rparr>"

lemma read_text: "trim s \<noteq> [] \<Longrightarrow> readCell ds (X_str s) = \<lparr>rc_value = X_str s, rc_formulaNoResult = False, rc_isErrorValue = False\<rparr>"
  by (simp add: readCell_def blank_to_null_def)

lemma read_num: "readCell ds (X_num n) = \<lparr>rc_value = X_num n, rc_formulaNoResult = False, rc_isErrorValue = False\<rparr>"
  by (simp add: readCell_def blank_to_null_def)

lemma demo_texts: "trim ''Spring'' \<noteq> []" "trim ''Acme'' \<noteq> []" "trim ''2026-03-01'' \<noteq> []" "trim ''31/03/2026'' \<noteq> []" "trim ''planned'' \<noteq> []"
  by code_simp+

lemma demo_coerced_text:
  "coerce_text ds (X_str ''Spring'') = good (JStr ''Spring'')"
  "coerce_brand ds (X_str ''Acme'') (Some []) [] = (good (JStr ''Acme''), [])"
  "coerce_choice ds (X_str ''planned'') CAMPAIGN_STATUSES e = good (JStr ''Planned'')"
  by code_simp+

lemma demo_coerced_iso: "coerce_date (X_str ''2026-03-01'') = good (JStr ''2026-03-01'')"
  by code_simp

lemma demo_coerced_dmy: "coerce_date (X_str ''31/03/2026'') = good (JStr ''2026-03-31'')"
  by code_simp

lemma demo_coerced_number:
  "coerce_number False (X_num (Fin 100)) = good (JNum (Fin 100))"
  "coerce_number False (X_num (Fin 50)) = good (JNum (Fin 50))"
  by code_simp+

lemmas demo_coerced = demo_coerced_text demo_coerced_iso demo_coerced_dmy demo_coerced_number

lemma demo_nth:
  "demo_cells ! 0 = X_str ''Spring''" "demo_cells ! Suc 0 = X_str ''Acme''" "demo_cells ! 2 = X_str ''2026-03-01''"
  "demo_cells ! 3 = X_str ''31/03/2026''" "demo_cells ! 4 = X_str ''planned''" "demo_cells ! 5 = X_num (Fin 100)"
  "demo_cells ! 6 = X_num (Fin 50)"
  by (simp_all add: demo_cells_def)

lemma demo_raw:
  assumes "1 \<le> cs_col c" "cs_col c \<le> 7"
  shows "raw_at demo_ctx (filled_sheet demo_cells SHEET_P2) 6 c =
    \<lparr>rc_value = demo_cells ! (cs_col c - 1), rc_formulaNoResult = False, rc_isErrorValue = False\<rparr>"
proof -
  have "cs_col c \<in> {1, 2, 3, 4, 5, 6, 7}" using assms by auto
  moreover have "wk_value (filled_sheet demo_cells SHEET_P2) 6 (cs_col c) = demo_cells ! (cs_col c - 1)"
    using assms by (simp add: filled_sheet_def demo_cells_def)
  ultimately show ?thesis
    by (auto simp: raw_at_def demo_nth read_text read_num demo_texts)
qed

lemma demo_ctx_simps: "cx_date demo_ctx = (\<lambda>t. ''date'')" "cx_known demo_ctx = Some []" "cx_groups demo_ctx = []"
  "cx_categories demo_ctx = []" "cx_includeExamples demo_ctx = False"
  by (simp_all add: demo_ctx_def)

lemma demo_read:
  "read_cells demo_ctx spec_campaigns (filled_sheet demo_cells SHEET_P2) 6 [] =
   \<lparr>rd_data = pr_data demo_row, rd_issues = [], rd_seen = []\<rparr>"
proof -
  have "read_cells demo_ctx spec (filled_sheet demo_cells SHEET_P2) 6 [] =
     \<lparr>rd_data = pr_data demo_row, rd_issues = [], rd_seen = []\<rparr>" if "ts_cols spec = ts_cols spec_campaigns" for spec
    unfolding read_cells_def that
    by (simp add: spec_campaigns_def F_col_def enum_of_def coerce_cell_def demo_raw demo_nth coerce_def demo_ctx_simps demo_coerced
      good_def cell_issue_at_def demo_row_def)
  then show ?thesis by simp
qed

lemma demo_cells_quiet: "cell_issues demo_ctx spec_campaigns (filled_sheet demo_cells SHEET_P2) 6 = []"
  "\<not> row_empty demo_ctx spec_campaigns (filled_sheet demo_cells SHEET_P2) 6"
  by (simp_all add: cell_issues_def row_empty_def spec_campaigns_def F_col_def enum_of_def demo_raw demo_nth)

lemma demo_strings: "\<not> (''2026-03-31'' < ''2026-03-01'')" "to_lower ''Spring'' = ''spring''" by code_simp+

lemma demo_row_read:
  "parse_row demo_ctx spec_campaigns (filled_sheet demo_cells SHEET_P2) 6 \<lparr>sx_issues = [], sx_brandSeen = [], sx_rows = [], sx_empty = 0, sx_examples = 0, sx_keys = []\<rparr>
   = \<lparr>sx_issues = [], sx_brandSeen = [], sx_rows = [demo_row], sx_empty = 0, sx_examples = 0, sx_keys = [(''spring'', 6)]\<rparr>"
proof -
  have fill: "\<not> isExampleFill (filled_sheet demo_cells SHEET_P2) 6 c" for c by (simp add: isExampleFill_def filled_sheet_def)
  have d: "dat (pr_data demo_row) ''name'' = JStr ''Spring''" "dat (pr_data demo_row) ''startDate'' = JStr ''2026-03-01''"
    "dat (pr_data demo_row) ''endDate'' = JStr ''2026-03-31''"
    by (simp_all add: demo_row_def dat_def)
  have s: "ts_id spec_campaigns = T_campaigns" "ts_keyFields spec_campaigns = [''name'']" "ts_sheet spec_campaigns = SHEET_P2"
    by (simp_all add: spec_campaigns_def)
  have k: "row_key spec_campaigns (pr_data demo_row) = ''spring''" "has_key spec_campaigns (pr_data demo_row)"
    "default_account spec_campaigns (pr_data demo_row) = pr_data demo_row"
    by (simp_all add: row_key_def has_key_def default_account_def s d demo_strings)
  have i: "row_issues demo_ctx spec_campaigns 6 False \<lparr>rd_data = pr_data demo_row, rd_issues = [], rd_seen = []\<rparr> (pr_data demo_row) [] = []"
    by (simp add: row_issues_def date_issues_def cross_issues_def text_before_def s d demo_strings)
  show ?thesis
    by (simp add: parse_row_def Let_def demo_cells_quiet demo_read fill s k i list_ex_iff) (simp add: demo_row_def SHEET_P2_def)
qed

section \<open>Its headers\<close>

lemma sheet_sigs: "sig SHEET_P1 = ''p1marcomspending''" "sig SHEET_P1B = ''p1bothermarcomspending''"
  "sig SHEET_P2 = ''p2mediacampaigns''" "sig SHEET_P3 = ''p3digitalperformance''" "sig SHEET_P4 = ''p4trademarketing''"
  by code_simp+

definition filled_sheets :: "xl list \<Rightarrow> worksheet list" where
  "filled_sheets cells = map (filled_sheet cells) [SHEET_P1, SHEET_P1B, SHEET_P2, SHEET_P3, SHEET_P4]"

lemma wk_name_filled [simp]: "wk_name (filled_sheet cells s) = s"
  by (simp add: filled_sheet_def)

lemma spec_sheets:
  "ts_sheet (spec_of T_spend) = SHEET_P1" "ts_sheet (spec_of T_other) = SHEET_P1B" "ts_sheet (spec_of T_campaigns) = SHEET_P2"
  "ts_sheet (spec_of T_media) = SHEET_P2" "ts_sheet (spec_of T_social) = SHEET_P3" "ts_sheet (spec_of T_web) = SHEET_P3"
  "ts_sheet (spec_of T_trade) = SHEET_P4" "ts_sheet (spec_of T_events) = SHEET_P4"
  by (simp_all add: spec_of.simps spec_defs)

lemma filled_found: "find_sheet (filled_sheets cells) (ts_sheet (spec_of t)) = Some (filled_sheet cells (ts_sheet (spec_of t)))"
  by (cases t) (simp_all add: spec_sheets find_sheet_def filled_sheets_def sheet_sigs)

lemma filled_present: "missing_sheets (filled_sheets cells) = []"
  using filled_found by (auto simp: missing_sheets_def filter_empty_conv TABLES_specs)

lemma trim_hd: "s \<noteq> [] \<Longrightarrow> \<not> is_space (hd s) \<Longrightarrow> trim s \<noteq> []"
  by (cases s) (auto simp: trim_def dropWhile_eq_Nil_conv)

lemma labels_present: "list_all (\<lambda>spec. list_all (\<lambda>c. cs_label c \<noteq> [] \<and> \<not> is_space (hd (cs_label c))) (ts_cols spec)) TABLES"
  by (simp add: TABLES_def spec_defs is_space_def code_of_def)

lemma header_rows: "list_all (\<lambda>t. List.find (\<lambda>u. ts_sheet u = ts_sheet t \<and> ts_headerRow u = ts_headerRow t) TABLES = Some t) TABLES"
  by (simp add: TABLES_def spec_defs SHEET_P1_def SHEET_P1B_def SHEET_P2_def SHEET_P3_def SHEET_P4_def)

lemma header_cols: "list_all (\<lambda>t. list_all (\<lambda>c. List.find (\<lambda>k. cs_col k = cs_col c) (ts_cols t) = Some c) (ts_cols t)) TABLES"
  by (simp add: TABLES_def spec_defs)

lemma header_not_6: "list_all (\<lambda>t. ts_headerRow t \<noteq> 6) TABLES"
  by (simp add: TABLES_def spec_defs)

lemma filled_headers: "keeps_headers lib (\<lambda>s. the (find_sheet (filled_sheets cells) s))"
  unfolding keeps_headers_def list_all_iff
proof (intro ballI)
  fix spec c
  assume s: "spec \<in> set TABLES" and c: "c \<in> set (ts_cols spec)"
  obtain t where t: "spec = spec_of t" using s by (auto simp: TABLES_specs)
  have "wk_value (filled_sheet cells (ts_sheet spec)) (ts_headerRow spec) (cs_col c) = X_str (cs_label c)"
    using header_rows header_cols header_not_6 s c by (auto simp: filled_sheet_def header_cell_def list_all_iff)
  moreover have "trim (cs_label c) \<noteq> []" using labels_present s c trim_hd by (simp add: list_all_iff)
  ultimately show "has_header lib (the (find_sheet (filled_sheets cells) (ts_sheet spec))) (ts_headerRow spec) c"
    by (simp add: has_header_def Let_def filled_found t read_text starts_with_iff)
qed

section \<open>Its blank rows\<close>

text \<open>A row without a value is counted and leaves nothing else behind.\<close>

lemma parse_row_blank:
  assumes "list_all (\<lambda>c. wk_value ws r (cs_col c) = X_null) (ts_cols spec)"
  shows "parse_row cx spec ws r st = st\<lparr>sx_empty := sx_empty st + 1\<rparr>"
proof -
  have "raw_at cx ws r c = \<lparr>rc_value = X_null, rc_formulaNoResult = False, rc_isErrorValue = False\<rparr>" if "c \<in> set (ts_cols spec)" for c
    using assms that by (auto simp: raw_at_def readCell_def blank_to_null_def list_all_iff)
  then have "cell_issues cx spec ws r = []" "row_empty cx spec ws r"
    by (auto simp: cell_issues_def row_empty_def Let_def filter_empty_conv)
  then show ?thesis by (simp add: parse_row_def Let_def)
qed

lemma parse_rows_blank:
  assumes "\<And>r. r \<in> set rs \<Longrightarrow> list_all (\<lambda>c. wk_value ws r (cs_col c) = X_null) (ts_cols spec)"
  shows "fold (parse_row cx spec ws) rs st = st\<lparr>sx_empty := sx_empty st + length rs\<rparr>"
  using assms by (induction rs arbitrary: st) (simp_all add: parse_row_blank)

text \<open>No header lies among the rows of a table.\<close>

lemma rows_apart:
  "list_all (\<lambda>t. list_all (\<lambda>u. ts_sheet u = ts_sheet t \<longrightarrow> ts_headerRow u \<le> ts_headerRow t \<or> ts_lastRow t < ts_headerRow u) TABLES) TABLES"
  by (simp add: TABLES_def spec_defs SHEET_P1_def SHEET_P1B_def SHEET_P2_def SHEET_P3_def SHEET_P4_def)

lemma filled_blank:
  assumes "ts_headerRow (spec_of t) < r" "r \<le> ts_lastRow (spec_of t)" "\<not> (t = T_campaigns \<and> r = 6)"
  shows "wk_value (filled_sheet cells (ts_sheet (spec_of t))) r c = X_null"
proof -
  have "spec_of t \<in> set TABLES" by (simp add: TABLES_specs)
  then have "ts_sheet u = ts_sheet (spec_of t) \<Longrightarrow> ts_headerRow u \<le> ts_headerRow (spec_of t) \<or> ts_lastRow (spec_of t) < ts_headerRow u"
    if "u \<in> set TABLES" for u
    using rows_apart that unfolding list_all_iff by blast
  with assms(1,2) have "\<not> (ts_sheet u = ts_sheet (spec_of t) \<and> ts_headerRow u = r)" if "u \<in> set TABLES" for u
    using that by fastforce
  then have "List.find (\<lambda>u. ts_sheet u = ts_sheet (spec_of t) \<and> ts_headerRow u = r) TABLES = None"
    by (auto simp: find_None_iff)
  moreover have "\<not> (ts_sheet (spec_of t) = SHEET_P2 \<and> r = 6)"
  proof
    assume "ts_sheet (spec_of t) = SHEET_P2 \<and> r = 6"
    with assms show False
      by (cases t) (simp_all add: spec_of.simps spec_defs SHEET_P1_def SHEET_P1B_def SHEET_P2_def SHEET_P3_def SHEET_P4_def)
  qed
  ultimately show ?thesis by (auto simp: filled_sheet_def header_cell_def)
qed

section \<open>Its parse\<close>

definition demo_table :: "table_id \<Rightarrow> table_result" where
  "demo_table t =
     (if t = T_campaigns then \<lparr>tr_rows = [demo_row], tr_emptyRows = 19, tr_exampleRowsSkipped = 0\<rparr>
      else \<lparr>tr_rows = [], tr_emptyRows = ts_lastRow (spec_of t) - ts_headerRow (spec_of t), tr_exampleRowsSkipped = 0\<rparr>)"

definition demo_parse :: parse_result where
  "demo_parse =
     \<lparr>pp_templateVersion = TEMPLATE_VERSION, pp_tables = demo_table, pp_issues = [], pp_exampleRowsSkipped = 0\<rparr>"

abbreviation demo_sheets :: "string \<Rightarrow> worksheet" where
  "demo_sheets \<equiv> (\<lambda>s. the (find_sheet (filled_sheets demo_cells) s))"

lemma demo_blank_rows:
  assumes "\<And>r. r \<in> set rs \<Longrightarrow> ts_headerRow (spec_of t) < r \<and> r \<le> ts_lastRow (spec_of t) \<and> \<not> (t = T_campaigns \<and> r = 6)"
  shows "fold (parse_row cx (spec_of t) (filled_sheet cells (ts_sheet (spec_of t)))) rs st = st\<lparr>sx_empty := sx_empty st + length rs\<rparr>"
  by (rule parse_rows_blank) (use filled_blank assms in \<open>auto simp: list_all_iff\<close>)

lemma header_before_last: "ts_headerRow (spec_of t) \<le> ts_lastRow (spec_of t)"
  by (cases t) (simp_all add: spec_of.simps spec_defs)

lemma demo_table_read:
  assumes "pt_issues st = []" "pt_seen st = []"
  shows "parse_table demo_ctx demo_sheets (\<lambda>t. ts_headerRow (spec_of t)) (spec_of t) st =
    \<lparr>pt_issues = [], pt_seen = [], pt_tables = (pt_tables st)(t := demo_table t)\<rparr>"
proof (cases "t = T_campaigns")
  case False
  let ?h = "ts_headerRow (spec_of t)" and ?l = "ts_lastRow (spec_of t)"
  have rest: "fold (parse_row demo_ctx (spec_of t) (filled_sheet demo_cells (ts_sheet (spec_of t)))) [Suc ?h..<Suc (?h + (?l - ?h))] s =
      s\<lparr>sx_empty := sx_empty s + (?l - ?h)\<rparr>" for s
    using demo_blank_rows [of "[Suc ?h..<Suc (?h + (?l - ?h))]" t demo_ctx demo_cells s] False header_before_last [of t]
    by (simp del: upt_Suc)
  show ?thesis
    unfolding parse_table_def Let_def spec_id filled_found option.sel assms rest
    using False by (simp add: demo_table_def)
next
  case True
  have c: "spec_of T_campaigns = spec_campaigns" "ts_headerRow spec_campaigns = 5" "ts_lastRow spec_campaigns = 25"
    "ts_sheet spec_campaigns = SHEET_P2" "ts_id spec_campaigns = T_campaigns"
    by (simp_all add: spec_of.simps spec_campaigns_def)
  have rows: "[Suc 5..<Suc (5 + (25 - 5))] = 6 # [7..<26]" by (simp add: upt_conv_Cons)
  have f: "find_sheet (filled_sheets demo_cells) SHEET_P2 = Some (filled_sheet demo_cells SHEET_P2)"
    using filled_found [of demo_cells T_campaigns] c by simp
  have rest: "fold (parse_row demo_ctx spec_campaigns (filled_sheet demo_cells SHEET_P2)) [7..<26] s = s\<lparr>sx_empty := sx_empty s + 19\<rparr>" for s
  proof -
    have "5 < r \<and> r \<le> 25 \<and> r \<noteq> 6" if "r \<in> set [7..<26]" for r using that unfolding set_upt by auto
    with demo_blank_rows [of "[7..<26]" T_campaigns demo_ctx demo_cells s] c 
    have "fold (parse_row demo_ctx spec_campaigns (filled_sheet demo_cells SHEET_P2)) [7..<26] s = s\<lparr>sx_empty := sx_empty s + length [7..<26::nat]\<rparr>"
      by fastforce
    then show ?thesis unfolding length_upt by simp
  qed
  show ?thesis
    unfolding True parse_table_def Let_def c f option.sel rows fold.simps comp_def assms demo_row_read rest
    by (simp add: demo_table_def)
qed

lemma demo_tables_read:
  assumes "pt_issues st = []" "pt_seen st = []"
  shows "fold (parse_table demo_ctx demo_sheets (\<lambda>t. ts_headerRow (spec_of t))) (map spec_of ts) st =
    \<lparr>pt_issues = [], pt_seen = [], pt_tables = (\<lambda>t. if t \<in> set ts then demo_table t else pt_tables st t)\<rparr>"
  using assms by (induction ts arbitrary: st) (auto simp: demo_table_read fun_eq_iff)

definition demo_opts :: "parse_options \<Rightarrow> bool" where
  "demo_opts opts \<longleftrightarrow>
     list_or_empty (po_knownBrands opts) = [] \<and> list_or_empty (po_groupBrands opts) = [] \<and> po_knownCategories opts = Some []"

lemma demo_parsed:
  assumes "demo_opts opts"
  shows "runParse (filled_lib demo_cells) (\<lambda>f. Worker_answers) empty_zip ''plan.xlsx'' opts = Inr demo_parse"
proof -
  let ?o = "opts\<lparr>po_knownBrands := Some (list_or_empty (po_knownBrands opts)),
                  po_knownCampaigns := Some (list_or_empty (po_knownCampaigns opts))\<rparr>"
  have lib: "xl_load (filled_lib demo_cells) empty_zip = Some (filled_sheets demo_cells)" "xl_date (filled_lib demo_cells) = (\<lambda>t. ''date'')"
    by (simp_all add: filled_lib_def filled_sheets_def)
  have "lc_row (locate_tables (filled_lib demo_cells) demo_sheets) = (\<lambda>t. ts_headerRow (spec_of t))"
    using tables_located(2) [OF filled_headers] by (simp add: fun_eq_iff)
  then have p: "parseMarcomWorkbook (filled_lib demo_cells) empty_zip ''plan.xlsx'' ?o False =
      Inr (parse_sheets (filled_lib demo_cells) demo_sheets (\<lambda>t. ts_headerRow (spec_of t)) ?o False)"
    using lib(1) filled_present tables_located(1) [OF filled_headers]
    by (simp add: parseMarcomWorkbook_def empty_zip_accepted Let_def)
  have cx: "context_of (filled_lib demo_cells) ?o False = demo_ctx"
    using assms by (simp add: context_of_def demo_ctx_def lib demo_opts_def list_or_empty_def)
  have st: "read_tables demo_ctx demo_sheets (\<lambda>t. ts_headerRow (spec_of t)) =
      \<lparr>pt_issues = [], pt_seen = [], pt_tables = demo_table\<rparr>"
    by (simp add: read_tables_def TABLES_specs demo_tables_read)
  have "spendPlausibility [] gs = []" for gs
    by (simp add: spendPlausibility_def group_rows_def same_everywhere_def map_filter_def Let_def PLAUSIBILITY_FIELDS_def)
  then have "parse_sheets (filled_lib demo_cells) demo_sheets (\<lambda>t. ts_headerRow (spec_of t)) ?o False = demo_parse"
    by (simp add: parse_sheets_def cx st Let_def demo_parse_def demo_table_def unknown_campaign_issues_def map_filter_def table_ids_def)
  with p show ?thesis by (simp add: runParse_def worker_answer_def)
qed

section \<open>The template's layout\<close>

lemma template_layout_accepted_witness:
  "\<exists>p. parseMarcomWorkbook (filled_lib demo_cells) empty_zip ''plan.xlsx''
     \<lparr>po_knownBrands = None, po_groupBrands = None, po_knownCategories = None, po_knownCampaigns = None\<rparr> False = Inr p"
proof -
  have lib: "xl_load (filled_lib demo_cells) empty_zip = Some (filled_sheets demo_cells)"
    by (simp add: filled_lib_def filled_sheets_def)
  from template_layout_accepted [OF empty_zip_accepted lib filled_present filled_headers] show ?thesis by blast
qed

end
