(* ===== verification/Marcom_Preview.thy ===== *)
theory Marcom_Preview
  imports Marcom_Parser
begin

text \<open>
  The rest of the MARCOM upload service: the dry run (\<open>validateUpload\<close>), the staged files and their
  expiry (\<open>marcom/staging.ts\<close>), the batch history and the removal preview (\<open>marcom/service.ts\<close>), the
  company and kind of a brand (\<open>marcom/brandCompany.ts\<close>) and the issue list as CSV (\<open>marcom/csv.ts\<close>).
  Times are seconds. The identifier of a staged upload is chosen by the random source; \<open>ttl\<close> is
  \<open>STAGED_TTL_MINUTES\<close>. Messages of issues and the names of users are left out.
\<close>

section \<open>Staging\<close>

definition is_hex :: "char \<Rightarrow> bool" where
  "is_hex c \<longleftrightarrow> is_digit c \<or> c \<in> set ''abcdefABCDEF''"

text \<open>\<open>UUID_RE\<close>\<close>

definition isUuid :: "string \<Rightarrow> bool" where
  "isUuid s \<longleftrightarrow>
     (let ps = split_on (CHR ''-'') s in map length ps = [8, 4, 4, 4, 12] \<and> list_all (list_all is_hex) ps)"

definition stagedPath :: "string \<Rightarrow> string \<Rightarrow> marcom_error + string" where
  "stagedPath dir i = (if isUuid i then Inr (dir @ ''/'' @ to_lower i @ ''.xlsx'') else Inl Unexpected)"

definition writeStaged :: "string \<Rightarrow> bytes \<Rightarrow> mk_db \<Rightarrow> mk_db" where
  "writeStaged i buf db = db\<lparr>kd_files := (i, buf) # filter (\<lambda>f. fst f \<noteq> i) (kd_files db)\<rparr>"

text \<open>The rows and files of expired uploads; \<open>old\<close> are the files the sweep of the directory finds outdated.\<close>

definition cleanupExpiredStaged :: "mk_db \<Rightarrow> int \<Rightarrow> string list \<Rightarrow> mk_db" where
  "cleanupExpiredStaged db now old =
     (let ids = map st_id (filter (\<lambda>s. st_expires s < now) (kd_staged db)) in
      db\<lparr>kd_staged := filter (\<lambda>s. st_id s \<notin> set ids) (kd_staged db),
         kd_files := filter (\<lambda>f. fst f \<notin> set ids \<and> fst f \<notin> set old) (kd_files db)\<rparr>)"

section \<open>The dry run\<close>

definition safeFilename :: "string \<Rightarrow> string" where
  "safeFilename raw =
     (let base = last (split_on (CHR ''/'') (map (\<lambda>c. if code_of c = 92 then CHR ''/'' else c) raw));
          s = take 200 (sanitizeText base)
      in if s = [] then ''upload.xlsx'' else s)"

record table_preview =
  tv_id :: table_id
  tv_label :: string
  tv_rowsFound :: nat
  tv_insert :: nat
  tv_update :: nat
  tv_unchanged :: nat
  tv_invalid :: nat
  tv_skippedEmpty :: nat
  tv_skippedExample :: nat
  tv_updates :: "(nat \<times> string \<times> field_change list) list"
  tv_updatesTruncated :: bool

record mk_preview =
  pv_stagedUploadId :: string
  pv_expiresAt :: int
  pv_filename :: string
  pv_fileHash :: string
  pv_templateVersion :: string
  pv_period :: "mk_period option"
  pv_tables :: "table_preview list"
  pv_insert :: nat
  pv_update :: nat
  pv_unchanged :: nat
  pv_examplesSkipped :: nat
  pv_newBrands :: "string list"
  pv_issues :: "issue list"
  pv_errorCount :: nat
  pv_warningCount :: nat
  pv_duplicateOf :: "nat option"
  pv_requiresNewBrandConfirmation :: bool
  pv_nothingToImport :: bool
  pv_canCommit :: bool

definition MAX_UPDATE_DETAILS :: nat where "MAX_UPDATE_DETAILS = 200"

definition findDuplicate :: "mk_db \<Rightarrow> string \<Rightarrow> nat option" where
  "findDuplicate db h =
     (let ids = map mb_id (filter (\<lambda>b. mb_hash b = h \<and> mb_status b = B_success) (kd_batches db))
      in if ids = [] then None else Some (Max (set ids)))"

definition table_preview_of :: "parse_result \<Rightarrow> (table_id \<Rightarrow> table_diff) \<Rightarrow> table_id \<Rightarrow> table_preview" where
  "table_preview_of p diff t =
     (let d = diff t; r = pp_tables p t in
      \<lparr>tv_id = t, tv_label = TABLE_LABELS t, tv_rowsFound = length (tr_rows r), tv_insert = length (df_inserts d),
       tv_update = length (df_updates d), tv_unchanged = length (df_unchanged d), tv_invalid = length (df_invalid d),
       tv_skippedEmpty = tr_emptyRows r, tv_skippedExample = tr_exampleRowsSkipped r,
       tv_updates = map (\<lambda>u. (pr_rowNumber (ru_row u), pr_key (ru_row u), ru_changes u))
                      (take MAX_UPDATE_DETAILS (df_updates d)),
       tv_updatesTruncated = (length (df_updates d) > MAX_UPDATE_DETAILS)\<rparr>)"

definition buildTablePreviews :: "parse_result \<Rightarrow> (table_id \<Rightarrow> table_diff) \<Rightarrow> table_preview list" where
  "buildTablePreviews p diff = map (table_preview_of p diff) table_ids"

definition overwrite_issues :: "(table_id \<Rightarrow> table_diff) \<Rightarrow> issue list" where
  "overwrite_issues diff =
     concat (map (\<lambda>t. map (\<lambda>u. \<lparr>iss_severity = Sev_warning, iss_sheet = pr_sheet (ru_row u), iss_table = Some t,
                                 iss_cell = CHR ''A'' # dec_digits (pr_rowNumber (ru_row u)),
                                 iss_code = ''ROW_UPDATES_EXISTING''\<rparr>) (df_updates (diff t))) table_ids)"

definition duplicate_issue :: issue where
  "duplicate_issue =
     \<lparr>iss_severity = Sev_warning, iss_sheet = [], iss_table = None, iss_cell = [], iss_code = ''DUPLICATE_FILE''\<rparr>"

text \<open>The stable sort that puts the errors first.\<close>

definition errors_first :: "issue list \<Rightarrow> issue list" where
  "errors_first is = filter (\<lambda>i. iss_severity i = Sev_error) is @ filter (\<lambda>i. iss_severity i \<noteq> Sev_error) is"

definition preview_of ::
  "mk_service \<Rightarrow> mk_db \<Rightarrow> int \<Rightarrow> nat \<Rightarrow> string \<Rightarrow> string \<Rightarrow> bytes \<Rightarrow> parse_result \<Rightarrow> mk_preview" where
  "preview_of svc db now ttl i filename buf p =
     (let diff = diffAll db p; dup = findDuplicate db (sv_sha svc buf);
          issues = errors_first (pp_issues p @ overwrite_issues diff @ (if dup \<noteq> None then [duplicate_issue] else []));
          tables = buildTablePreviews p diff;
          ins = sum_list (map tv_insert tables); upd = sum_list (map tv_update tables);
          newBrands = newBrandsOf p (map kb_name (kd_brands db));
          errorCount = length (filter (\<lambda>i. iss_severity i = Sev_error) issues)
      in \<lparr>pv_stagedUploadId = i, pv_expiresAt = now + 60 * int ttl, pv_filename = filename,
          pv_fileHash = sv_sha svc buf, pv_templateVersion = pp_templateVersion p, pv_period = computePeriod p,
          pv_tables = tables, pv_insert = ins, pv_update = upd, pv_unchanged = sum_list (map tv_unchanged tables),
          pv_examplesSkipped = pp_exampleRowsSkipped p, pv_newBrands = newBrands, pv_issues = issues,
          pv_errorCount = errorCount, pv_warningCount = length issues - errorCount, pv_duplicateOf = dup,
          pv_requiresNewBrandConfirmation = (newBrands \<noteq> []), pv_nothingToImport = (ins + upd = 0),
          pv_canCommit = (errorCount = 0 \<and> ins + upd \<noteq> 0)\<rparr>)"

definition staged_row :: "mk_preview \<Rightarrow> nat \<Rightarrow> bytes \<Rightarrow> mk_staged" where
  "staged_row pv actor buf =
     \<lparr>st_id = pv_stagedUploadId pv, st_user = actor, st_filename = pv_filename pv, st_hash = pv_fileHash pv,
      st_size = length buf, st_issues = pv_issues pv, st_expires = pv_expiresAt pv, st_consumed = None\<rparr>"

definition validateUpload ::
  "mk_service \<Rightarrow> mk_db \<Rightarrow> int \<Rightarrow> nat \<Rightarrow> string \<Rightarrow> nat \<Rightarrow> string \<Rightarrow> bytes \<Rightarrow> (marcom_error + mk_preview) \<times> mk_db" where
  "validateUpload svc db now ttl i actor raw_name buf =
     (let filename = safeFilename raw_name in
      case assertSafeXlsx buf filename of
        Inl e \<Rightarrow> (Inl e, db)
      | Inr _ \<Rightarrow>
          (let db1 = writeStaged i buf db in
           case sv_parse svc buf filename (loadKnown db1) of
             Inl e \<Rightarrow> (Inl e, removeStagedFile i db1)
           | Inr p \<Rightarrow>
               (let pv = preview_of svc db1 now ttl i filename buf p
                in (Inr pv, db1\<lparr>kd_staged := kd_staged db1 @ [staged_row pv actor buf]\<rparr>))))"

definition getStagedIssues :: "mk_db \<Rightarrow> int \<Rightarrow> string \<Rightarrow> nat \<Rightarrow> marcom_error + issue list" where
  "getStagedIssues db now i actor = rbind (loadStaged db now i actor) (\<lambda>s. Inr (st_issues s))"

section \<open>The history\<close>

record batch_item =
  bi_batchId :: nat
  bi_filename :: string
  bi_fileHash :: string
  bi_templateVersion :: string
  bi_uploadedBy :: nat
  bi_uploadedAt :: int
  bi_status :: batch_status
  bi_period :: "mk_period option"
  bi_totals :: "(nat \<times> nat \<times> nat \<times> nat) option"
  bi_canRollback :: bool
  bi_canRemove :: bool
  bi_rolledBack :: "(nat \<times> int \<times> string) option"
  bi_removed :: "(nat \<times> int \<times> string) option"
  bi_failed :: bool

definition item_period :: "mk_batch \<Rightarrow> mk_period option" where
  "item_period b =
     map_option (\<lambda>(f, t). \<lparr>pd_from = take 7 f, pd_to = take 7 t, pd_label = periodLabel (take 7 f) (take 7 t)\<rparr>) (mb_period b)"

definition toItem :: "mk_batch \<Rightarrow> nat option \<Rightarrow> batch_item" where
  "toItem b latest =
     \<lparr>bi_batchId = mb_id b, bi_filename = mb_filename b, bi_fileHash = mb_hash b, bi_templateVersion = mb_version b,
      bi_uploadedBy = mb_uploaded_by b, bi_uploadedAt = mb_uploaded_at b, bi_status = mb_status b, bi_period = item_period b,
      bi_totals = map_option (\<lambda>s. (sm_inserted s, sm_updated s, sm_unchanged s, sm_examples s)) (mb_summary b),
      bi_canRollback = (mb_status b = B_success \<and> Some (mb_id b) = latest), bi_canRemove = (mb_status b = B_success),
      bi_rolledBack = mb_rolled_back b, bi_removed = mb_removed b, bi_failed = mb_failed b\<rparr>"

text \<open>\<open>listBatches\<close>, newest first; \<open>page\<close> and \<open>pageSize\<close> are integers already (\<open>| 0\<close>), 0 standing for none.\<close>

definition listBatches :: "mk_db \<Rightarrow> int \<Rightarrow> int \<Rightarrow> batch_item list \<times> nat \<times> int \<times> int" where
  "listBatches db page pageSize =
     (let p = max 1 (if page = 0 then 1 else page);
          size = min 100 (max 1 (if pageSize = 0 then 25 else pageSize));
          newest = rev (sort_key mb_id (kd_batches db))
      in (map (\<lambda>b. toItem b (latestSuccessId db)) (take (nat size) (drop (nat ((p - 1) * size)) newest)),
          length (kd_batches db), p, size))"

definition getBatch :: "mk_db \<Rightarrow> nat \<Rightarrow> marcom_error + batch_item \<times> table_count list \<times> issue list \<times> string list" where
  "getBatch db B =
     (case find_batch db B of
        None \<Rightarrow> Inl (Marcom 404 ''BATCH_NOT_FOUND'')
      | Some b \<Rightarrow>
          Inr (toItem b (latestSuccessId db),
            (case mb_summary b of None \<Rightarrow> ([], [], []) | Some s \<Rightarrow> (sm_tables s, sm_warnings s, sm_newBrands s))))"

definition getBatchFile :: "mk_db \<Rightarrow> nat \<Rightarrow> marcom_error + bytes \<times> string" where
  "getBatchFile db B =
     (case Option.bind (find_batch db B) mb_file of
        None \<Rightarrow> Inl (Marcom 404 ''FILE_NOT_FOUND'')
      | Some f \<Rightarrow> Inr (f, ''MARCOM_upload_batch_'' @ dec_digits B @ ''.xlsx''))"

text \<open>\<open>previewRemoveBatch\<close>: the plan of a removal, or none when the batch's status blocks it.\<close>

definition previewRemoveBatch :: "mk_service \<Rightarrow> mk_db \<Rightarrow> nat \<Rightarrow> marcom_error + batch_item \<times> removal_plan option" where
  "previewRemoveBatch svc db B =
     (case find_batch db B of
        None \<Rightarrow> Inl (Marcom 404 ''BATCH_NOT_FOUND'')
      | Some b \<Rightarrow>
          (let item = toItem b (latestSuccessId db) in
           if notRemovable (mb_status b) then Inr (item, None)
           else rbind (laterBatchKeys svc db B) (\<lambda>lk.
                  Inr (item, Some (planRemoval (kd_brands db) (kd_categories db) (kd_rows db) B lk)))))"

section \<open>Company and kind of a brand\<close>

record mk_company =
  my_key :: "int option"
  my_name :: string
  my_active :: bool
  my_order :: int

definition active_company :: "mk_company list \<Rightarrow> int \<Rightarrow> mk_company option" where
  "active_company cs k = first_row (sort_key my_order (sort_key my_name (filter (\<lambda>c. my_key c = Some k \<and> my_active c) cs)))"

definition setBrandCompany :: "mk_company list \<Rightarrow> mk_db \<Rightarrow> nat \<Rightarrow> int option \<Rightarrow> (marcom_error + nat) \<times> mk_db" where
  "setBrandCompany cs db i key =
     (if \<not> list_ex (\<lambda>b. kb_id b = i) (kd_brands db) then (Inl (Marcom 404 ''BRAND_NOT_FOUND''), db)
      else if (case key of None \<Rightarrow> False | Some k \<Rightarrow> active_company cs k = None)
        then (Inl (Marcom 400 ''UNKNOWN_COMPANY''), db)
      else (Inr i, db\<lparr>kd_brands := update_where (\<lambda>b. kb_id b = i) (\<lambda>b. b\<lparr>kb_company := key\<rparr>) (kd_brands db)\<rparr>))"

definition setBrandKind :: "mk_db \<Rightarrow> nat \<Rightarrow> bool \<Rightarrow> (marcom_error + nat) \<times> mk_db" where
  "setBrandKind db i grp =
     (if \<not> list_ex (\<lambda>b. kb_id b = i) (kd_brands db) then (Inl (Marcom 404 ''BRAND_NOT_FOUND''), db)
      else (Inr i, db\<lparr>kd_brands := update_where (\<lambda>b. kb_id b = i) (\<lambda>b. b\<lparr>kb_group := grp\<rparr>) (kd_brands db)\<rparr>))"

section \<open>The issues as CSV\<close>

definition csvCell :: "string \<Rightarrow> string" where
  "csvCell s =
     (let s' = (case s of c # t \<Rightarrow> if c \<in> set ''=+-@'' \<or> code_of c = 9 \<or> code_of c = 13 then CHR 39 # s else s | [] \<Rightarrow> s)
      in CHR 34 # concat (map (\<lambda>c. if code_of c = 34 then [CHR 34, CHR 34] else [c]) s') @ [CHR 34])"

text \<open>A reader of quoted CSV: the content of a quoted cell and what follows it.\<close>

fun csv_content :: "string \<Rightarrow> string \<times> string" where
  "csv_content [] = ([], [])"
| "csv_content [c] = (if code_of c = 34 then ([], []) else ([c], []))"
| "csv_content (c # d # s) =
     (if code_of c = 34
      then (if code_of d = 34 then (case csv_content s of (a, r) \<Rightarrow> (CHR 34 # a, r)) else ([], d # s))
      else (case csv_content (d # s) of (a, r) \<Rightarrow> (c # a, r)))"

end
