(* ===== verification/Marcom_Claims.thy ===== *)
theory Marcom_Claims
  imports Marcom_Rules Marcom_Preview Marcom_Demo
begin

text \<open>
  The claims of the MARCOM upload, on the parser as modelled: the interpretation of \<open>parser_contract\<close>, the
  invariant of the store under every operation of the service, commit and rollback as inverses, removal as
  the rules of \<open>marcom/removal.ts\<close>, and the dry run as a prediction of the commit.
\<close>

section \<open>The parser keeps its contract\<close>

interpretation marcom: parser_contract "marcom_service lib ending env sha brand_fits" for lib ending env sha brand_fits
  by unfold_locales (simp add: marcom_service_def run_parse_ok)

section \<open>Every operation keeps the store\<close>

lemma rows_later_table:
  assumes "table_ok env bs cs N t tb" "N \<le> M"
  shows "table_ok env bs cs M t tb"
  using assms by (auto simp: table_ok_def list_all_iff)

lemma failed_store_ok:
  assumes "store_ok svc db"
  shows "store_ok svc (add_batch (failed_batch db s actor now) db)"
proof -
  let ?db = "add_batch (failed_batch db s actor now) db"
  have f: "kd_rows ?db = kd_rows db" "kd_next ?db = kd_next db" "kd_brands ?db = kd_brands db"
    "kd_categories ?db = kd_categories db" "kd_next_brand ?db = kd_next_brand db" "kd_next_batch ?db = Suc (kd_next_batch db)"
    "kd_batches ?db = kd_batches db @ [failed_batch db s actor now]" "mb_id (failed_batch db s actor now) = kd_next_batch db"
    by (simp_all add: add_batch_def failed_batch_def)
  have t: "table_ok (sv_env svc) (kd_brands db) (kd_categories db) (Suc (kd_next_batch db)) t (kd_next db t, kd_rows db t)" for t
    using rows_later_table [OF store_okD(1) [OF assms]] by simp
  have fresh: "kd_next_batch db \<notin> mb_id ` set (kd_batches db)"
    using store_okD(7) [OF assms] by (metis imageE less_irrefl)
  show ?thesis
    unfolding store_ok_def table_of_def f
    using t fresh store_okD(2-8) [OF assms]
    by (auto simp: list_all_iff f less_Suc_eq split: option.split)
qed

lemma commit_failed:
  assumes "commitUpload svc db locked now i actor confirm = (Inl e, db1)" "store_ok svc db"
  shows "store_ok svc db1"
  using assms failed_store_ok [OF assms(2)]
  by (auto simp: commitUpload_def split: sum.splits option.splits if_splits marcom_error.splits)

lemma later_file_id: "later_file_keys svc db b = Inr x \<Longrightarrow> fst x = mb_id b"
  by (auto simp: later_file_keys_def split: option.splits sum.splits marcom_error.splits)

lemma rmap_ids:
  assumes "rmap (later_file_keys svc db) bs = Inr lk" "i \<in> fst ` set lk"
  shows "\<exists>b \<in> set bs. mb_id b = i"
  using assms
proof (induction bs arbitrary: lk)
  case (Cons b bs)
  then obtain x xs where x: "later_file_keys svc db b = Inr x" "rmap (later_file_keys svc db) bs = Inr xs" "lk = x # xs"
    by (auto simp: rbind_eq_Inr)
  with Cons.IH [OF x(2)] Cons.prems(2) later_file_id [OF x(1)] show ?case by auto
qed simp

lemma later_ids:
  assumes "laterBatchKeys svc db B = Inr lk" "store_ok svc db" "i \<in> fst ` set lk"
  shows "B < i \<and> i < kd_next_batch db"
  using rmap_ids [OF assms(1) [unfolded laterBatchKeys_def] assms(3)] store_okD(7) [OF assms(2)] by auto

lemma store_ok_set_batch:
  assumes "store_ok svc db" "\<And>b. mb_id (f b) = mb_id b"
  shows "store_ok svc (set_batch B f db)"
proof -
  have "map mb_id (update_where (\<lambda>b. mb_id b = B) f (kd_batches db)) = map mb_id (kd_batches db)"
    by (rule map_update_where_key) (rule assms(2))
  moreover have "list_all (\<lambda>b. mb_id b < kd_next_batch db) (update_where (\<lambda>b. mb_id b = B) f (kd_batches db))"
    using store_okD(7) [OF assms(1)] by (auto simp: list_all_iff update_where_def assms(2))
  ultimately show ?thesis
    using assms(1) by (simp add: store_ok_def set_batch_def table_of_def cong: option.case_cong)
qed

lemma remove_within_ok:
  assumes "store_ok svc db" "\<And>b. mb_id (finish b) = mb_id b"
    "\<And>lk i. later = Inr lk \<Longrightarrow> i \<in> fst ` set lk \<Longrightarrow> B < i \<and> i < kd_next_batch db"
  shows "store_ok svc (snd (removeWithin svc db locked B check finish later))"
proof (cases "removeWithin svc db locked B check finish later")
  case (Pair r db1)
  show ?thesis
  proof (cases "db1 = db")
    case False
    then obtain lk plan d where "later = Inr lk" "remove_rows svc B lk db = Inr (plan, d)" "db1 = set_batch B finish d"
      using Pair by (auto simp: removeWithin_def rbind_eq_Inr split: if_splits option.splits sum.splits)
    then show ?thesis
      using store_ok_set_batch [OF removed_store_ok [OF assms(1)] assms(2)] assms(3) Pair by auto
  qed (use assms(1) Pair in simp)
qed

lemma store_ok_brands:
  assumes "store_ok svc db" "\<And>b. kb_id (f b) = kb_id b \<and> kb_name (f b) = kb_name b \<and> kb_created (f b) = kb_created b"
  shows "store_ok svc (db\<lparr>kd_brands := update_where P f (kd_brands db)\<rparr>)"
proof -
  let ?bs = "update_where P f (kd_brands db)"
  have k: "brands_kept (kd_brands db) ?bs (\<lambda>i. True)"
    using assms(2) by (auto simp: brands_kept_def update_where_def)
  have reads: "read_rows ?bs cs (adapter_of t) rows = read_rows (kd_brands db) cs (adapter_of t) rows" for cs t rows
    unfolding read_rows_def by (rule map_filter_cong') (rule read_row_kept [OF k], simp)
  have ids: "map kb_id ?bs = map kb_id (kd_brands db)"
    by (rule map_update_where_key) (simp add: assms(2))
  have ref: "list_ex (\<lambda>b. v = id_val (kb_id b)) bs = list_ex (\<lambda>i. v = id_val i) (map kb_id bs)" for v bs
    by (simp add: list_ex_iff)
  have "list_ex (\<lambda>b. v = id_val (kb_id b)) ?bs = list_ex (\<lambda>b. v = id_val (kb_id b)) (kd_brands db)" for v
    unfolding ref ids ..
  with reads have "table_ok env ?bs cs N t tb = table_ok env (kd_brands db) cs N t tb" for env cs N t tb
    by (simp add: table_ok_def brand_ref_ok_def)
  moreover note ids
  moreover have "list_all (\<lambda>b. kb_id b < n \<and> (case kb_created b of None \<Rightarrow> True | Some B \<Rightarrow> B < N)) ?bs =
      list_all (\<lambda>b. kb_id b < n \<and> (case kb_created b of None \<Rightarrow> True | Some B \<Rightarrow> B < N)) (kd_brands db)" for n N
  proof -
    have "kb_id (if P r then f r else r) = kb_id r" "kb_created (if P r then f r else r) = kb_created r" for r
      by (simp_all add: assms(2))
    then show ?thesis by (simp add: update_where_def list.pred_map comp_def)
  qed
  ultimately show ?thesis
    using assms(1) by (simp add: store_ok_def table_of_def cong: option.case_cong)
qed

section \<open>The service as a state machine\<close>

inductive marcom_step :: "mk_service \<Rightarrow> mk_db \<Rightarrow> mk_db \<Rightarrow> bool" for svc where
  validated: "marcom_step svc db (snd (validateUpload svc db now ttl i actor name buf))"
| committed: "upload_trimmed svc db now i actor \<Longrightarrow> marcom_step svc db (snd (commitUpload svc db locked now i actor confirm))"
| rolled_back: "marcom_step svc db (snd (rollbackBatch svc db locked now B actor raw))"
| removed: "marcom_step svc db (snd (removeBatch svc db locked now B actor raw))"
| swept: "marcom_step svc db (cleanupExpiredStaged db now old)"
| company_set: "marcom_step svc db (snd (setBrandCompany cs db i key))"
| kind_set: "marcom_step svc db (snd (setBrandKind db i grp))"

lemma rollback_db:
  "snd (rollbackBatch svc db locked now B actor raw) =
     (case cleanReason raw of Inl e \<Rightarrow> db
      | Inr reason \<Rightarrow> snd (removeWithin svc db locked B (rollback_check db B)
          (\<lambda>b. b\<lparr>mb_status := B_rolled_back, mb_rolled_back := Some (actor, now, reason)\<rparr>) (Inr [])))"
  by (auto simp: rollbackBatch_def split: sum.split prod.split)

lemma store_ok_staged:
  "store_ok svc (db\<lparr>kd_staged := ss, kd_files := fs\<rparr>) = store_ok svc db"
  by (simp add: store_ok_def table_of_def split: option.split)

lemma store_ok_files:
  "store_ok svc (db\<lparr>kd_files := fs\<rparr>) = store_ok svc db" "store_ok svc (db\<lparr>kd_staged := ss\<rparr>) = store_ok svc db"
  by (simp_all add: store_ok_def table_of_def split: option.split)

lemma step_keeps_store:
  assumes "marcom_step svc db db1" "parser_contract svc" "store_ok svc db"
  shows "store_ok svc db1"
  using assms(1,3)
proof (cases rule: marcom_step.cases)
  case (validated now ttl i actor name buf)
  then show ?thesis
    using assms(3)
    by (auto simp: validateUpload_def Let_def writeStaged_def removeStagedFile_def store_ok_files split: sum.splits)
next
  case (committed now i actor locked confirm)
  obtain r d where c: "commitUpload svc db locked now i actor confirm = (r, d)" by (metis surj_pair)
  show ?thesis
  proof (cases r)
    case (Inl e)
    then show ?thesis using commit_failed c assms(3) committed by simp
  next
    case (Inr x)
    obtain B sm where "x = (B, sm)" by (metis surj_pair)
    then show ?thesis
      using parser_contract.commit_store_ok [OF assms(2)] c Inr assms(3) committed by simp
  qed
next
  case (rolled_back locked now B actor raw)
  then show ?thesis
    using assms(3) by (auto simp: rollback_db split: sum.splits intro!: remove_within_ok)
next
  case (removed locked now B actor raw)
  then show ?thesis
    using assms(3) by (auto simp: removeBatch_def split: sum.splits intro!: remove_within_ok dest: later_ids)
next
  case (swept now old)
  then show ?thesis using assms(3) by (simp add: cleanupExpiredStaged_def Let_def store_ok_staged)
next
  case (company_set cs i key)
  then show ?thesis using assms(3) by (auto simp: setBrandCompany_def intro!: store_ok_brands)
next
  case (kind_set i grp)
  then show ?thesis using assms(3) by (auto simp: setBrandKind_def intro!: store_ok_brands)
qed

definition fresh_store :: "mk_db \<Rightarrow> bool" where
  "fresh_store db \<longleftrightarrow>
     list_all (\<lambda>t. kd_rows db t = []) table_ids \<and> kd_batches db = [] \<and>
     distinct (map kb_id (kd_brands db)) \<and> list_all (\<lambda>b. kb_id b < kd_next_brand db \<and> kb_created b = None) (kd_brands db) \<and>
     distinct (map kc_id (kd_categories db)) \<and> list_all (\<lambda>c. kc_name c \<noteq> []) (kd_categories db)"

lemma fresh_store_ok: "fresh_store db \<Longrightarrow> store_ok svc db"
  by (auto simp: fresh_store_def store_ok_def table_of_def table_ok_def list_all_iff read_rows_def map_filter_def history_ok_def)

lemma reachable_store_ok:
  assumes "(marcom_step svc)\<^sup>*\<^sup>* db0 db" "parser_contract svc" "fresh_store db0"
  shows "store_ok svc db"
  using assms(1) by (induction rule: rtranclp_induct) (auto intro: fresh_store_ok [OF assms(3)] step_keeps_store [OF _ assms(2)])

text \<open>A table as the removal reads it: its rows with their natural keys.\<close>

definition table_view :: "mk_db \<Rightarrow> table_id \<Rightarrow> db_row list" where
  "table_view db t = read_rows (kd_brands db) (kd_categories db) (adapter_of t) (kd_rows db t)"

lemma view_history: "store_ok svc db \<Longrightarrow> history_ok (table_view db t)"
  unfolding table_view_def by (rule table_okD(6) [OF store_okD(1)])

section \<open>A store with one staged upload\<close>

definition demo_env :: mk_env where
  "demo_env = \<lparr>me_ci = to_lower, me_storable = (\<lambda>t d. True)\<rparr>"

definition demo_svc :: mk_service where
  "demo_svc = marcom_service (filled_lib demo_cells) (\<lambda>f. Worker_answers) demo_env (\<lambda>f. ''hash'') (\<lambda>n. True)"

definition empty_db :: mk_db where
  "empty_db =
     \<lparr>kd_rows = (\<lambda>t. []), kd_next = (\<lambda>t. 1), kd_brands = [], kd_next_brand = 1, kd_categories = [],
      kd_batches = [], kd_next_batch = 1, kd_staged = [], kd_files = []\<rparr>"

definition demo_db :: mk_db where
  "demo_db = snd (validateUpload demo_svc empty_db 0 60 ''u'' 7 ''plan.xlsx'' empty_zip)"

lemma demo_name: "safeFilename ''plan.xlsx'' = ''plan.xlsx''"
  by code_simp

lemma demo_parse_any: "list_or_empty (po_knownBrands opts) = [] \<Longrightarrow> list_or_empty (po_groupBrands opts) = [] \<Longrightarrow>
    po_knownCategories opts = Some [] \<Longrightarrow> sv_parse demo_svc empty_zip ''plan.xlsx'' opts = Inr demo_parse"
  by (simp add: demo_svc_def marcom_service_def demo_parsed demo_opts_def)

lemma known_empty:
  assumes "kd_brands db = []" "kd_categories db = []"
  shows "sv_parse demo_svc empty_zip ''plan.xlsx'' (loadKnown db) = Inr demo_parse"
  using assms by (intro demo_parse_any) (simp_all add: loadKnown_def list_or_empty_def)

lemma demo_validated:
  "validateUpload demo_svc empty_db 0 60 ''u'' 7 ''plan.xlsx'' empty_zip =
   (Inr (preview_of demo_svc (writeStaged ''u'' empty_zip empty_db) 0 60 ''u'' ''plan.xlsx'' empty_zip demo_parse), demo_db)"
proof -
  have "sv_parse demo_svc empty_zip ''plan.xlsx'' (loadKnown (writeStaged ''u'' empty_zip empty_db)) = Inr demo_parse"
    by (rule known_empty) (simp_all add: writeStaged_def empty_db_def)
  then show ?thesis by (simp add: demo_db_def validateUpload_def demo_name empty_zip_accepted Let_def)
qed

lemma demo_db_parts:
  "kd_rows demo_db = (\<lambda>t. [])" "kd_next demo_db = (\<lambda>t. 1)" "kd_brands demo_db = []" "kd_next_brand demo_db = 1"
  "kd_categories demo_db = []" "kd_batches demo_db = []" "kd_next_batch demo_db = 1" "kd_files demo_db = [(''u'', empty_zip)]"
  "kd_staged demo_db = [staged_row (preview_of demo_svc (writeStaged ''u'' empty_zip empty_db) 0 60 ''u'' ''plan.xlsx'' empty_zip demo_parse) 7 empty_zip]"
proof -
  have "sv_parse demo_svc empty_zip ''plan.xlsx'' (loadKnown (writeStaged ''u'' empty_zip empty_db)) = Inr demo_parse"
    by (rule known_empty) (simp_all add: writeStaged_def empty_db_def)
  then have d: "demo_db = (writeStaged ''u'' empty_zip empty_db)\<lparr>kd_staged :=
      kd_staged (writeStaged ''u'' empty_zip empty_db) @
      [staged_row (preview_of demo_svc (writeStaged ''u'' empty_zip empty_db) 0 60 ''u'' ''plan.xlsx'' empty_zip demo_parse) 7 empty_zip]\<rparr>"
    by (simp add: demo_db_def validateUpload_def demo_name empty_zip_accepted Let_def)
  show "kd_rows demo_db = (\<lambda>t. [])" "kd_next demo_db = (\<lambda>t. 1)" "kd_brands demo_db = []" "kd_next_brand demo_db = 1"
    "kd_categories demo_db = []" "kd_batches demo_db = []" "kd_next_batch demo_db = 1" "kd_files demo_db = [(''u'', empty_zip)]"
    "kd_staged demo_db = [staged_row (preview_of demo_svc (writeStaged ''u'' empty_zip empty_db) 0 60 ''u'' ''plan.xlsx'' empty_zip demo_parse) 7 empty_zip]"
    unfolding d by (simp_all add: writeStaged_def empty_db_def)
qed

lemma demo_store_ok: "fresh_store empty_db" "store_ok svc demo_db"
  by (auto simp: fresh_store_def empty_db_def list_all_iff)
    (rule fresh_store_ok, simp add: fresh_store_def demo_db_parts list_all_iff)

lemma demo_trimmed: "keys_trimmed demo_parse"
proof -
  have "trim ''Spring'' = ''Spring''" by code_simp
  moreover have "dat (pr_data demo_row) ''name'' = JStr ''Spring''" by (simp add: demo_row_def dat_def)
  ultimately show ?thesis by (simp add: keys_trimmed_def table_ids_def demo_parse_def demo_table_def row_trimmed_def)
qed

lemma demo_staged:
  "loadStaged demo_db now ''u'' 7 = (if now < 3600 then Inr (hd (kd_staged demo_db)) else Inl (Marcom 410 ''STAGED_EXPIRED''))"
  "staged_file demo_db ''u'' = Some empty_zip" "st_filename (hd (kd_staged demo_db)) = ''plan.xlsx''"
  "st_hash (hd (kd_staged demo_db)) = ''hash''" "sv_sha demo_svc f = ''hash''"
  by (simp_all add: loadStaged_def demo_db_parts staged_row_def preview_of_def Let_def staged_file_def demo_svc_def marcom_service_def)

lemma demo_upload_trimmed: "upload_trimmed demo_svc demo_db now ''u'' 7"
proof -
  have "sv_parse demo_svc empty_zip ''plan.xlsx'' (loadKnown demo_db) = Inr demo_parse"
    by (rule known_empty) (simp_all add: demo_db_parts)
  then show ?thesis by (simp add: upload_trimmed_def demo_staged demo_trimmed)
qed

text \<open>Its commit writes the brand and the campaign.\<close>

lemma demo_diff:
  "diffAll demo_db demo_parse t = (if t = T_campaigns then empty_diff\<lparr>df_inserts := [demo_row]\<rparr> else empty_diff)"
  by (simp add: diffAll_def diffTable_def demo_parse_def demo_table_def table_data_def demo_db_parts currentRows_def
      map_filter_def invalid_rows_def diff_step_def existing_row_def empty_diff_def)

lemma demo_brands: "newBrandsOf demo_parse (map kb_name (kd_brands demo_db)) = [''Acme'']"
proof -
  have "file_brands demo_parse = [JStr ''Acme'']"
    by (simp add: file_brands_def BRAND_TABLES_def table_ids_def demo_parse_def demo_table_def demo_row_def dat_def fdef_def)
  then show ?thesis by (simp add: newBrandsOf_def new_brand_step_def demo_db_parts)
qed

lemma demo_written: "\<exists>d. write_batch demo_svc 1 demo_parse demo_db = Inr d"
proof -
  let ?b = "\<lparr>kb_id = 1, kb_name = ''Acme'', kb_created = Some 1, kb_group = False, kb_company = None\<rparr>"
  have "brand_id [?b] (to_lower ''Acme'') = Some 1" by (simp add: brand_id_def)
  then have "row_values [?b] [] (adapter_of T_campaigns) (pr_data demo_row) \<noteq> None"
    by (simp add: row_values_def column_value_def Let_def fdef_def demo_row_def dat_def resolved_def)
  then obtain cols where c: "row_values [?b] [] (adapter_of T_campaigns) (pr_data demo_row) = Some cols" by blast
  have e: "sv_env demo_svc = demo_env" "me_storable demo_env t x" "sv_brand_fits demo_svc n" for t x n
    by (simp_all add: demo_svc_def marcom_service_def demo_env_def)
  define d where "d = demo_db\<lparr>kd_brands := [?b], kd_next_brand := 2\<rparr>"
  have d: "kd_brands d = [?b]" "kd_categories d = []" "kd_rows d = (\<lambda>t. [])" "kd_next d = (\<lambda>t. 1)"
    by (simp_all add: d_def demo_db_parts)
  have w: "rfold (write_table demo_svc 1 (diffAll demo_db demo_parse)) ts x \<noteq> Inl err"
    if "kd_brands x = [?b]" "kd_categories x = []" "\<And>t. t \<in> set ts \<Longrightarrow> kd_rows x t = []" "distinct ts" for ts x err
    using that
  proof (induction ts arbitrary: x)
    case (Cons t ts)
    obtain y where y: "write_table demo_svc 1 (diffAll demo_db demo_parse) t x = Inr y" "kd_brands y = [?b]" "kd_categories y = []"
        "\<And>u. u \<noteq> t \<Longrightarrow> kd_rows y u = kd_rows x u"
    proof (cases "t = T_campaigns")
      case True
      have "write_diff demo_env [?b] [] (adapter_of t) 1 (diffAll demo_db demo_parse t) (kd_next x t, []) =
          Inr (kd_next x t + 1, [\<lparr>kr_id = kd_next x t, kr_cols = cols, kr_batch = 1, kr_current = True, kr_superseded = None\<rparr>])"
        using c by (simp add: True demo_diff write_diff_def empty_diff_def insertRow_def e del: adapter_of.simps)
      with Cons.prems(1-3) show ?thesis
        by (intro that [of "x\<lparr>kd_next := (kd_next x)(t := kd_next x t + 1),
            kd_rows := (kd_rows x)(t := [\<lparr>kr_id = kd_next x t, kr_cols = cols, kr_batch = 1, kr_current = True, kr_superseded = None\<rparr>])\<rparr>"])
          (simp_all add: write_table_def e)
    next
      case False
      have "write_diff demo_env [?b] [] (adapter_of t) 1 (diffAll demo_db demo_parse t) (kd_next x t, []) = Inr (kd_next x t, [])"
        using False by (simp add: demo_diff write_diff_def empty_diff_def)
      with Cons.prems(1-3) show ?thesis
        by (intro that [of "x\<lparr>kd_next := (kd_next x)(t := kd_next x t), kd_rows := (kd_rows x)(t := [])\<rparr>"])
          (simp_all add: write_table_def e)
    qed
    have "kd_rows y u = []" if "u \<in> set ts" for u
      using y(4) [of u] Cons.prems(3,4) that by auto
    with Cons.IH [OF y(2,3)] Cons.prems(4) y(1) show ?case by simp
  qed simp
  have "rfold (insert_brand demo_svc 1) [''Acme''] demo_db = Inr d"
    by (simp add: insert_brand_def e demo_db_parts d_def)
  then show ?thesis
    using w [of d table_ids] d table_ids_distinct
    by (cases "rfold (write_table demo_svc 1 (diffAll demo_db demo_parse)) table_ids d") (simp_all add: write_batch_def demo_brands)
qed

lemma demo_committed: "\<exists>sm db1. commitUpload demo_svc demo_db True 0 ''u'' 7 True = (Inr (1, sm), db1)"
proof -
  obtain d where d: "write_batch demo_svc 1 demo_parse demo_db = Inr d" using demo_written by blast
  have "sv_parse demo_svc empty_zip ''plan.xlsx'' (loadKnown demo_db) = Inr demo_parse"
    by (rule known_empty) (simp_all add: demo_db_parts)
  moreover have "errors_of demo_parse = []" by (simp add: errors_of_def demo_parse_def)
  ultimately show ?thesis
    using d by (simp add: commitUpload_def commit_tx_def demo_staged Let_def ensure_def demo_db_parts(7))
qed

section \<open>Commit and rollback\<close>

text \<open>C2. Whatever uploads, commits, rollbacks, removals, clean-ups and brand edits happen, in any order, the store
  stays consistent: in every table each natural key has exactly one live row, every other row of the key is
  linked to the next later batch that wrote it, no two live rows collide in the unique index, and every brand
  a row refers to exists. (Files are taken whose key texts do not end in a space.)\<close>

theorem marcom_store_consistent:
  assumes "(marcom_step (marcom_service lib ending env sha brand_fits))\<^sup>*\<^sup>* db0 db" "fresh_store db0"
  shows "(\<forall>t. \<forall>r \<in> set (table_view db t).
            (\<exists>!c. c \<in> set (table_view db t) \<and> dr_key c = dr_key r \<and> dr_current c) \<and>
            dr_superseded r = earliest (later_batches (table_view db t) r) \<and> dr_current r = (dr_superseded r = None)) \<and>
         (\<forall>t. unique_ok env (adapter_of t) (kd_rows db t)) \<and>
         (\<forall>t. \<forall>r \<in> set (kd_rows db t). brand_ref_ok t (kd_brands db) r)"
proof -
  let ?svc = "marcom_service lib ending env sha brand_fits"
  have ok: "store_ok ?svc db" by (rule reachable_store_ok [OF assms(1) marcom.parser_contract_axioms assms(2)])
  note h = view_history [OF ok]
  have "\<exists>!c. c \<in> set (table_view db t) \<and> dr_key c = dr_key r \<and> dr_current c" if "r \<in> set (table_view db t)" for r t
    using history_has_live [OF h that] history_one_live [OF h] by metis
  moreover have "unique_ok env (adapter_of t) (kd_rows db t)" for t
    using table_okD(5) [OF store_okD(1) [OF ok]] by (simp add: marcom_service_def)
  ultimately show ?thesis
    using history_link [OF h] history_live_link [OF h] table_okD(4) [OF store_okD(1) [OF ok]] by blast
qed

lemma marcom_store_consistent_witness:
  "\<exists>sm db. commitUpload demo_svc demo_db True 0 ''u'' 7 True = (Inr (1, sm), db) \<and>
     unique_ok demo_env (adapter_of T_campaigns) (kd_rows db T_campaigns)"
proof -
  obtain sm db where c: "commitUpload demo_svc demo_db True 0 ''u'' 7 True = (Inr (1, sm), db)" using demo_committed by blast
  have "marcom_step demo_svc empty_db demo_db" unfolding demo_db_def by (rule marcom_step.validated)
  moreover have "marcom_step demo_svc demo_db db"
    using marcom_step.committed [OF demo_upload_trimmed [of 0], of True True] c by simp
  ultimately have "(marcom_step demo_svc)\<^sup>*\<^sup>* empty_db db" by (meson rtranclp.simps)
  from marcom_store_consistent [OF this [unfolded demo_svc_def] demo_store_ok(1)] c show ?thesis by blast
qed

text \<open>C5. Rolling back the batch just committed restores the state before it exactly: every row, live or history,
  and every brand, in all eight tables. Only the batch's record stays, marked as rolled back.\<close>

theorem rollback_undoes_commit:
  assumes "commitUpload (marcom_service lib ending env sha brand_fits) db locked now i actor confirm = (Inr (B, sm), db1)"
    and "store_ok (marcom_service lib ending env sha brand_fits) db"
    and "upload_trimmed (marcom_service lib ending env sha brand_fits) db now i actor"
    and "cleanReason raw = Inr reason"
  shows "rollbackBatch (marcom_service lib ending env sha brand_fits) db1 True now2 B actor2 raw =
    (Inr B, (set_batch B (\<lambda>b. b\<lparr>mb_status := B_rolled_back, mb_rolled_back := Some (actor2, now2, reason)\<rparr>) db1)
       \<lparr>kd_rows := kd_rows db, kd_brands := kd_brands db\<rparr>)"
  using assms by (rule marcom.rollback_after_commit)

lemma rollback_undoes_commit_witness:
  "\<exists>sm db1. commitUpload demo_svc demo_db True 0 ''u'' 7 True = (Inr (1, sm), db1) \<and>
     kd_brands (snd (rollbackBatch demo_svc db1 True 1 1 8 (JStr ''wrong file''))) = []"
proof -
  obtain sm db1 where c: "commitUpload demo_svc demo_db True 0 ''u'' 7 True = (Inr (1, sm), db1)" using demo_committed by blast
  have r: "cleanReason (JStr ''wrong file'') = Inr ''wrong file''" by code_simp
  from rollback_undoes_commit [OF c [unfolded demo_svc_def] demo_store_ok(2) demo_upload_trimmed [unfolded demo_svc_def] r, of 1 8]
  show ?thesis using c by (simp add: demo_svc_def [symmetric] demo_db_parts)
qed

section \<open>Removing any batch\<close>

lemma remove_batch_steps:
  assumes "removeBatch svc db locked now B actor raw = (Inr plan, db1)"
  obtains reason b lk d where "cleanReason raw = Inr reason" "find_batch db B = Some b" "mb_status b = B_success"
    "laterBatchKeys svc db B = Inr lk" "remove_rows svc B lk db = Inr (plan, d)"
    "db1 = set_batch B (\<lambda>b. b\<lparr>mb_status := B_removed, mb_removed := Some (actor, now, reason)\<rparr>) d"
  using assms
  by (auto simp: removeBatch_def removeWithin_def notRemovable_def rbind_eq_Inr split: sum.splits if_splits option.splits)

lemma rollback_parts:
  assumes "rollbackBatch svc db locked now B actor raw = (Inr B, d)"
  obtains reason b plan e where "cleanReason raw = Inr reason" "locked" "find_batch db B = Some b" "mb_status b = B_success"
    "latestSuccessId db = Some B" "remove_rows svc B [] db = Inr (plan, e)"
  using assms
  by (auto simp: rollbackBatch_def removeWithin_def rollback_check_def rbind_eq_Inr split: sum.splits if_splits option.splits prod.splits)

lemma all_updated: "(\<And>b. Q (f b)) \<Longrightarrow> \<forall>b \<in> set (update_where P f bs). P b \<longrightarrow> Q b"
  by (auto simp: update_where_def)

lemma find_append_None: "List.find P xs = None \<Longrightarrow> List.find P (xs @ ys) = List.find P ys"
  by (induction xs) (auto split: if_splits)

lemma no_later_keys: "latestSuccessId db = Some B \<Longrightarrow> laterBatchKeys svc db B = Inr []"
proof -
  assume l: "latestSuccessId db = Some B"
  let ?ids = "map mb_id (filter (\<lambda>b. mb_status b = B_success) (kd_batches db))"
  have "B = Max (set ?ids)" using l by (simp add: latestSuccessId_def Let_def split: if_splits)
  then have "mb_id b \<le> B" if "b \<in> set (kd_batches db)" "mb_status b = B_success" for b
    using that by (auto intro!: Max_ge)
  then have "filter (\<lambda>b. B < mb_id b \<and> mb_status b = B_success) (kd_batches db) = []"
    by (auto simp: filter_empty_conv not_less)
  then show ?thesis by (simp add: laterBatchKeys_def)
qed

text \<open>C8. Removing a batch does to every table exactly what its rules say, row by row: a row of the batch goes unless
  a later batch that kept rows unchanged has its key in its stored file, in which case the live row moves to the earliest
  such batch; a row the batch had replaced becomes live again, or is linked to the batch its successor moved to or was
  replaced by; every other row is untouched and no row's values change. The dry run shows this plan, and the batch ends as
  removed.\<close>

theorem removal_follows_rules:
  assumes "removeBatch svc db locked now B actor raw = (Inr plan, db1)" "store_ok svc db"
  shows "(\<forall>t. follows_rules svc db B t (table_view db t) (table_view db1 t)) \<and>
     (\<forall>t. \<forall>y \<in> set (kd_rows db1 t). \<exists>x \<in> set (kd_rows db t). kr_id y = kr_id x \<and> kr_cols y = kr_cols x) \<and>
     (\<exists>item. previewRemoveBatch svc db B = Inr (item, Some plan)) \<and>
     (\<forall>b \<in> set (kd_batches db1). mb_id b = B \<longrightarrow> mb_status b = B_removed)"
proof -
  obtain reason b lk d where r: "find_batch db B = Some b" "mb_status b = B_success" "laterBatchKeys svc db B = Inr lk"
    "remove_rows svc B lk db = Inr (plan, d)"
    "db1 = set_batch B (\<lambda>b. b\<lparr>mb_status := B_removed, mb_removed := Some (actor, now, reason)\<rparr>) d"
    by (rule remove_batch_steps [OF assms(1)])
  have ids: "\<forall>i \<in> fst ` set lk. B < i \<and> i < kd_next_batch db" using later_ids [OF r(3) assms(2)] by blast
  note rem = removed_parts [OF assms(2) r(4) ids] removed_read [OF assms(2) r(4) ids]
  have d: "kd_categories d = kd_categories db" using arg_cong [OF rem(5), of kd_categories] by simp
  have "table_view db1 t = removal_spec B (handedTo lk t) (table_view db t)" for t
    using rem(7) by (simp add: table_view_def r(5) set_batch_def d)
  then have "\<forall>t. follows_rules svc db B t (table_view db t) (table_view db1 t)"
    using removal_follows [OF r(3) assms(2) view_history [OF assms(2)]] by simp
  moreover have "\<forall>t. \<forall>y \<in> set (kd_rows db1 t). \<exists>x \<in> set (kd_rows db t). kr_id y = kr_id x \<and> kr_cols y = kr_cols x"
    using removed_row [OF assms(2) r(4) ids] by (auto simp: r(5) set_batch_def) metis
  moreover have "previewRemoveBatch svc db B = Inr (toItem b (latestSuccessId db), Some plan)"
    using r(1-3) rem(1) by (simp add: previewRemoveBatch_def notRemovable_def Let_def)
  moreover have "\<forall>b \<in> set (kd_batches db1). mb_id b = B \<longrightarrow> mb_status b = B_removed"
  proof -
    have b: "kd_batches db1 = update_where (\<lambda>b. mb_id b = B)
        (\<lambda>b. b\<lparr>mb_status := B_removed, mb_removed := Some (actor, now, reason)\<rparr>) (kd_batches d)"
      by (simp add: r(5) set_batch_def)
    show ?thesis unfolding b by (rule all_updated) simp
  qed
  ultimately show ?thesis by blast
qed

lemma removal_follows_rules_witness:
  "\<exists>sm db1 plan db2. commitUpload demo_svc demo_db True 0 ''u'' 7 True = (Inr (1, sm), db1) \<and>
     removeBatch demo_svc db1 True 1 1 8 (JStr ''wrong file'') = (Inr plan, db2) \<and>
     follows_rules demo_svc db1 1 T_campaigns (table_view db1 T_campaigns) (table_view db2 T_campaigns)"
proof -
  obtain sm db1 where c: "commitUpload demo_svc demo_db True 0 ''u'' 7 True = (Inr (1, sm), db1)" using demo_committed by blast
  have r: "cleanReason (JStr ''wrong file'') = Inr ''wrong file''" by code_simp
  note cm = c [unfolded demo_svc_def] demo_store_ok(2) demo_upload_trimmed [unfolded demo_svc_def]
  obtain b plan e where p: "find_batch db1 1 = Some b" "mb_status b = B_success" "latestSuccessId db1 = Some 1"
    "remove_rows demo_svc 1 [] db1 = Inr (plan, e)"
    using rollback_parts [OF marcom.rollback_after_commit [OF cm r, of 1 8]] by (metis demo_svc_def)
  have ok: "store_ok demo_svc db1" using marcom.commit_store_ok [OF cm] by (simp add: demo_svc_def)
  have "\<exists>db2. removeBatch demo_svc db1 True 1 1 8 (JStr ''wrong file'') = (Inr plan, db2)"
    using p by (simp add: removeBatch_def r removeWithin_def notRemovable_def no_later_keys)
  then obtain db2 where rm: "removeBatch demo_svc db1 True 1 1 8 (JStr ''wrong file'') = (Inr plan, db2)" by blast
  from removal_follows_rules [OF this ok] c rm show ?thesis by blast
qed

section \<open>The dry run\<close>

lemma insert_row_error: "insertRow env bs cs a B d t = Inl e \<Longrightarrow> e = Unexpected"
  by (auto simp: insertRow_def Let_def split: option.splits if_splits)

lemma rfold_error:
  assumes "rfold f xs s = Inl e" "\<And>x s e. f x s = Inl e \<Longrightarrow> e = Unexpected"
  shows "e = Unexpected"
  using assms(1) by (induction xs arbitrary: s) (auto simp: rbind_eq_Inl dest: assms(2))

lemma write_diff_error: "write_diff env bs cs a B d t = Inl e \<Longrightarrow> e = Unexpected"
  by (auto simp: write_diff_def rbind_eq_Inl write_update_def supersede_def split: if_splits dest!: rfold_error insert_row_error)

lemma write_batch_error: "write_batch svc B p db = Inl e \<Longrightarrow> e = Unexpected"
  by (auto simp: write_batch_def rbind_eq_Inl insert_brand_def write_table_def split: if_splits dest!: rfold_error write_diff_error)

lemma validate_steps:
  assumes "validateUpload svc db now ttl i actor raw buf = (Inr pv, db1)"
  obtains p where "sv_parse svc buf (safeFilename raw) (loadKnown db1) = Inr p"
    "pv = preview_of svc db1 now ttl i (safeFilename raw) buf p"
    "kd_staged db1 = kd_staged db @ [staged_row pv actor buf]" "staged_file db1 i = Some buf"
proof -
  let ?fn = "safeFilename raw" and ?db = "writeStaged i buf db"
  have "assertSafeXlsx buf ?fn = Inr ()" using assms by (cases "assertSafeXlsx buf ?fn") (simp_all add: validateUpload_def)
  moreover obtain p where q1: "sv_parse svc buf ?fn (loadKnown ?db) = Inr p"
    using assms calculation by (cases "sv_parse svc buf ?fn (loadKnown ?db)") (simp_all add: validateUpload_def Let_def)
  ultimately have "(Inr (preview_of svc ?db now ttl i ?fn buf p),
      ?db\<lparr>kd_staged := kd_staged ?db @ [staged_row (preview_of svc ?db now ttl i ?fn buf p) actor buf]\<rparr>) =
      ((Inr pv, db1) :: (marcom_error + mk_preview) \<times> mk_db)"
    using assms unfolding validateUpload_def Let_def by (simp only: sum.case)
  then have q: "preview_of svc ?db now ttl i ?fn buf p = pv"
    "?db\<lparr>kd_staged := kd_staged ?db @ [staged_row (preview_of svc ?db now ttl i ?fn buf p) actor buf]\<rparr> = db1"
    by blast+
  note p = q1 q(1) [symmetric] q(2) [unfolded q(1), symmetric]
  have f: "kd_rows db1 = kd_rows db" "kd_brands db1 = kd_brands db" "kd_categories db1 = kd_categories db" "kd_batches db1 = kd_batches db"
    "kd_staged db1 = kd_staged db @ [staged_row pv actor buf]" "kd_files db1 = (i, buf) # filter (\<lambda>f. fst f \<noteq> i) (kd_files db)"
    by (simp_all add: p(3) writeStaged_def)
  have k: "loadKnown db1 = loadKnown (writeStaged i buf db)" by (simp add: loadKnown_def f) (simp add: writeStaged_def)
  have d: "diffAll db1 q = diffAll (writeStaged i buf db) q" for q
    by (simp add: fun_eq_iff diffAll_def table_data_def f) (simp add: writeStaged_def)
  have "preview_of svc db1 now ttl i (safeFilename raw) buf p = pv"
  proof -
    have "diffAll db1 = diffAll ?db" using d by blast
    moreover have "findDuplicate db1 h = findDuplicate ?db h" for h by (simp add: findDuplicate_def f) (simp add: writeStaged_def)
    moreover have "kd_brands db1 = kd_brands ?db" by (simp add: f writeStaged_def)
    ultimately show ?thesis unfolding p(2) preview_of_def by (simp only:)
  qed
  with p(1) k f(5,6) show thesis by (intro that [of p]) (simp_all add: staged_file_def)
qed

lemma preview_errors: "pv_errorCount (preview_of svc db now ttl i fn buf p) = 0 \<longleftrightarrow> errors_of p = []"
  by (auto simp: preview_of_def Let_def errors_first_def errors_of_def overwrite_issues_def duplicate_issue_def filter_empty_conv)

lemma preview_totals:
  "pv_insert (preview_of svc db now ttl i fn buf p) = sm_inserted (summary_of p (diffAll db p) nb)"
  "pv_update (preview_of svc db now ttl i fn buf p) = sm_updated (summary_of p (diffAll db p) nb)"
  "pv_unchanged (preview_of svc db now ttl i fn buf p) = sm_unchanged (summary_of p (diffAll db p) nb)"
  "pv_period (preview_of svc db now ttl i fn buf p) = sm_period (summary_of p (diffAll db p) nb)"
  "pv_newBrands (preview_of svc db now ttl i fn buf p) = newBrandsOf p (map kb_name (kd_brands db))"
  by (simp_all add: preview_of_def summary_of_def Let_def buildTablePreviews_def count_of_def table_preview_of_def table_ids_def)

lemma dry_run_predicts:
  assumes "validateUpload svc db now ttl i actor raw buf = (Inr pv, db1)"
    and "i \<notin> st_id ` set (kd_staged db)" and "now2 < pv_expiresAt pv"
  shows "case commitUpload svc db1 True now2 i actor confirm of
      (Inr (B, sm), db2) \<Rightarrow>
        pv_errorCount pv = 0 \<and> (pv_newBrands pv = [] \<or> confirm) \<and> sm_inserted sm = pv_insert pv \<and>
        sm_updated sm = pv_update pv \<and> sm_unchanged sm = pv_unchanged pv \<and> sm_newBrands sm = pv_newBrands pv \<and>
        sm_period sm = pv_period pv
    | (Inl e, db2) \<Rightarrow>
        e = (if pv_errorCount pv \<noteq> 0 then Marcom 422 ''BLOCKING_ERRORS''
             else if pv_newBrands pv \<noteq> [] \<and> \<not> confirm then Marcom 409 ''NEW_BRANDS_UNCONFIRMED'' else Unexpected)"
proof -
  obtain p where p: "sv_parse svc buf (safeFilename raw) (loadKnown db1) = Inr p"
    "pv = preview_of svc db1 now ttl i (safeFilename raw) buf p"
    "kd_staged db1 = kd_staged db @ [staged_row pv actor buf]" "staged_file db1 i = Some buf"
    by (rule validate_steps [OF assms(1)])
  have pv: "pv_stagedUploadId pv = i" "pv_filename pv = safeFilename raw" "pv_fileHash pv = sv_sha svc buf"
    by (simp_all add: p(2) preview_of_def Let_def)
  have "List.find (\<lambda>s. st_id s = i) (kd_staged db) = None" using assms(2) by (auto simp: find_None_iff)
  from find_append_None [OF this] have find: "List.find (\<lambda>s. st_id s = i) (kd_staged db1) = Some (staged_row pv actor buf)"
    unfolding p(3) by (simp add: staged_row_def pv)
  have load: "loadStaged db1 now2 i actor = Inr (staged_row pv actor buf)"
    using find assms(3) by (simp add: loadStaged_def staged_row_def)
  let ?nb = "newBrandsOf p (map kb_name (kd_brands db1))"
  have nb: "pv_newBrands pv = ?nb" unfolding p(2) by (rule preview_totals(5))
  have er: "pv_errorCount pv = 0 \<longleftrightarrow> errors_of p = []" unfolding p(2) by (rule preview_errors)
  have tot: "sm_inserted (summary_of p (diffAll db1 p) ?nb) = pv_insert pv" "sm_updated (summary_of p (diffAll db1 p) ?nb) = pv_update pv"
    "sm_unchanged (summary_of p (diffAll db1 p) ?nb) = pv_unchanged pv" "sm_period (summary_of p (diffAll db1 p) ?nb) = pv_period pv"
    "sm_newBrands (summary_of p (diffAll db1 p) ?nb) = ?nb"
    unfolding p(2) by (simp_all add: preview_totals(1-4) [where nb = "newBrandsOf p (map kb_name (kd_brands db1))"] summary_of_def Let_def)
  have tx: "commit_tx svc db1 now2 i actor confirm buf =
      (if errors_of p \<noteq> [] then Inl (Marcom 422 ''BLOCKING_ERRORS'')
       else if ?nb \<noteq> [] \<and> \<not> confirm then Inl (Marcom 409 ''NEW_BRANDS_UNCONFIRMED'')
       else rbind (write_batch svc (kd_next_batch db1) p db1) (\<lambda>d. Inr ((kd_next_batch db1, summary_of p (diffAll db1 p) ?nb),
              consume i now2 (add_batch (new_batch db1 (staged_row pv actor buf) actor now2 buf (summary_of p (diffAll db1 p) ?nb)) d))))"
    using p(1) by (simp add: commit_tx_def load staged_row_def pv Let_def ensure_def)
  have hash: "sv_sha svc buf = st_hash (staged_row pv actor buf)" by (simp add: staged_row_def pv)
  show ?thesis
  proof (cases "commit_tx svc db1 now2 i actor confirm buf")
    case (Inl e)
    then have "e = (if pv_errorCount pv \<noteq> 0 then Marcom 422 ''BLOCKING_ERRORS''
             else if pv_newBrands pv \<noteq> [] \<and> \<not> confirm then Marcom 409 ''NEW_BRANDS_UNCONFIRMED'' else Unexpected)"
      using er unfolding tx nb by (auto simp: rbind_eq_Inl split: if_splits dest: write_batch_error)
    with Inl show ?thesis
      by (simp add: commitUpload_def load p(4) hash split: marcom_error.splits if_splits)
  next
    case (Inr r)
    then have "errors_of p = []" "?nb = [] \<or> confirm" "fst r = (kd_next_batch db1, summary_of p (diffAll db1 p) ?nb)"
      unfolding tx by (auto simp: rbind_eq_Inr split: if_splits)
    with er nb tot Inr show ?thesis by (cases r) (simp add: commitUpload_def load p(4) hash)
  qed
qed

text \<open>C11. The dry run tells what the commit does: with nothing changed in between and the lock free, the import is
  refused exactly for the errors the preview counted or the new brands it asked to confirm, and otherwise
  inserts, updates and leaves unchanged exactly the numbers of rows previewed and creates exactly the brands
  listed, or fails in the database as a whole.\<close>

theorem preview_predicts_commit:
  assumes "validateUpload svc db now ttl i actor raw buf = (Inr pv, db1)"
    and "i \<notin> st_id ` set (kd_staged db)" and "now2 < pv_expiresAt pv"
  shows "case commitUpload svc db1 True now2 i actor confirm of
      (Inr (B, sm), db2) \<Rightarrow>
        pv_errorCount pv = 0 \<and> (pv_newBrands pv = [] \<or> confirm) \<and> sm_inserted sm = pv_insert pv \<and>
        sm_updated sm = pv_update pv \<and> sm_unchanged sm = pv_unchanged pv \<and> sm_newBrands sm = pv_newBrands pv \<and>
        sm_period sm = pv_period pv
    | (Inl e, db2) \<Rightarrow>
        e = (if pv_errorCount pv \<noteq> 0 then Marcom 422 ''BLOCKING_ERRORS''
             else if pv_newBrands pv \<noteq> [] \<and> \<not> confirm then Marcom 409 ''NEW_BRANDS_UNCONFIRMED'' else Unexpected)"
  using assms by (rule dry_run_predicts)

lemma preview_predicts_commit_witness:
  "\<exists>pv. fst (validateUpload demo_svc empty_db 0 60 ''u'' 7 ''plan.xlsx'' empty_zip) = Inr pv \<and>
     (\<exists>sm db2. commitUpload demo_svc demo_db True 0 ''u'' 7 True = (Inr (1, sm), db2) \<and> sm_inserted sm = pv_insert pv)"
proof -
  let ?pv = "preview_of demo_svc (writeStaged ''u'' empty_zip empty_db) 0 60 ''u'' ''plan.xlsx'' empty_zip demo_parse"
  have "0 < pv_expiresAt ?pv" by (simp add: preview_of_def Let_def)
  moreover have "''u'' \<notin> st_id ` set (kd_staged empty_db)" by (simp add: empty_db_def)
  ultimately show ?thesis
    using preview_predicts_commit [OF demo_validated, of 0 True] demo_committed demo_validated by fastforce
qed

end
