(* ===== verification/Marcom_Reupload.thy ===== *)
theory Marcom_Reupload
  imports Marcom_Claims
begin

text \<open>
  Uploading the same figures again (\<open>diffTable\<close> of \<open>marcom/diff.ts\<close> after \<open>commitUpload\<close>): the second diff
  has no insert and no update as long as brands and categories are spelled as they are stored. The canonical
  value of a brand keeps its letter case while its lookup does not, so a file that spells a stored brand in
  another case rewrites all of that brand's rows on every upload.
\<close>

section \<open>The live row of a key\<close>

lemma current_same:
  assumes "history_ok (read_rows bs cs a rows)" "distinct (map kr_id rows)"
    "(i, d) \<in> set (currentRows bs cs a rows)" "(j, e) \<in> set (currentRows bs cs a rows)" "keyOf a d = keyOf a e"
  shows "d = e"
proof -
  obtain x y where x: "x \<in> set (read_rows bs cs a rows)" "dr_id x = i" "dr_key x = keyOf a d" "dr_current x"
    and y: "y \<in> set (read_rows bs cs a rows)" "dr_id y = j" "dr_key y = keyOf a e" "dr_current y"
    using currentRows_mem [OF assms(3)] currentRows_mem [OF assms(4)] by blast
  have "x = y" using history_one_live [OF assms(1) x(1) y(1)] x y assms(5) by simp
  then have ij: "i = j" using x y by simp
  obtain r s where r: "r \<in> set rows" "kr_id r = i" "join_row bs cs a r = Some d"
    and s: "s \<in> set rows" "kr_id s = j" "join_row bs cs a s = Some e"
    using assms(3,4) by (auto simp: currentRows_def mem_map_filter)
  have "r = s" using same_kr_id [OF assms(2) r(1) s(1)] r s ij by simp
  with r s show ?thesis by simp
qed

lemma row_unchanged:
  assumes "history_ok (read_rows bs cs a rows)" "distinct (map kr_id rows)" "(i, d) \<in> set (currentRows bs cs a rows)"
    "keyOf a d = keyOf a (pr_data x)" "field_changes a d (pr_data x) = []"
  shows "\<not> is_new a (currentRows bs cs a rows) x \<and> update_of a (currentRows bs cs a rows) x = None"
proof -
  have "existing_row a (currentRows bs cs a rows) (keyOf a (pr_data x)) \<noteq> None"
    unfolding existing_row_None using assms(3,4) by fastforce
  then obtain j e where e: "existing_row a (currentRows bs cs a rows) (keyOf a (pr_data x)) = Some (j, e)" by auto
  have "(j, e) \<in> set (currentRows bs cs a rows)" "keyOf a e = keyOf a (pr_data x)" using existing_row_Some [OF e] by auto
  then have "d = e" using current_same [OF assms(1-3)] assms(4) by simp
  with e assms(5) show ?thesis by (simp add: is_new_def update_of_def)
qed

lemma new_row_exists: "c \<in> set colss \<Longrightarrow> \<exists>r \<in> set (new_rows B n colss). kr_cols r = c \<and> kr_current r"
proof (induction colss arbitrary: n)
  case (Cons d ds)
  then show ?case by (auto simp: new_rows_Cons)
qed simp

lemma list_all2_left: "list_all2 P xs ys \<Longrightarrow> x \<in> set xs \<Longrightarrow> \<exists>y \<in> set ys. P x y"
  by (induction xs ys rule: list_all2_induct) auto

section \<open>Names spelled as stored\<close>

definition name_stored :: "mk_brand list \<Rightarrow> mk_category list \<Rightarrow> field_def \<Rightarrow> jsval \<Rightarrow> bool" where
  "name_stored bs cs fd v =
     (case v of
        JStr s \<Rightarrow>
          (fd_type fd = Ty_brand \<longrightarrow> list_all (\<lambda>b. to_lower (kb_name b) = to_lower s \<longrightarrow> kb_name b = s) bs) \<and>
          (fd_type fd = Ty_category \<longrightarrow> list_all (\<lambda>c. to_lower (kc_name c) = to_lower s \<longrightarrow> kc_name c = s) cs)
      | _ \<Rightarrow> True)"

definition spelled_as_stored :: "mk_db \<Rightarrow> parse_result \<Rightarrow> bool" where
  "spelled_as_stored db p \<longleftrightarrow>
     list_all (\<lambda>t. list_all (\<lambda>r. list_all (\<lambda>fd. name_stored (kd_brands db) (kd_categories db) fd (dat (pr_data r) (fd_field fd)))
        (ad_fields (adapter_of t))) (tr_rows (pp_tables p t))) table_ids"

lemma stored_exactly:
  fixes r :: mk_row
  assumes "row_values bs cs (adapter_of t) d = Some cols" "row_typed (adapter_of t) d"
    "distinct (map kb_id bs)" "distinct (map kc_id cs)" "kr_cols r = cols"
    "\<And>fd. fd \<in> set (ad_fields (adapter_of t)) \<Longrightarrow> name_stored bs cs fd (dat d (fd_field fd))"
  shows "\<exists>e. join_row bs cs (adapter_of t) r = Some e \<and> keyOf (adapter_of t) e = keyOf (adapter_of t) d \<and>
    field_changes (adapter_of t) e d = []"
proof -
  from stored_join [OF assms(1-5)] obtain e where e: "join_row bs cs (adapter_of t) r = Some e"
    "\<And>fd. fd \<in> set (ad_fields (adapter_of t)) \<Longrightarrow> same_value (fd_type fd) (dat d (fd_field fd)) (dat e (fd_field fd))"
    by blast
  have "normalize (fd_type fd) (dat e (fd_field fd)) = normalize (fd_type fd) (dat d (fd_field fd))"
    if fd: "fd \<in> set (ad_fields (adapter_of t))" for fd
  proof (cases "fd_type fd = Ty_brand \<or> fd_type fd = Ty_category")
    case True
    then obtain s n where v: "dat d (fd_field fd) = JStr s" "dat e (fd_field fd) = JStr n" "to_lower n = to_lower s"
      using e(2) [OF fd] by (auto simp: same_value_def)
    have "selectCol bs cs r fd = Some (dat e (fd_field fd))"
      using e(1) adapter_distinct(1) fd unfolding join_row_def by (rule those_fields)
    then have sel: "selectCol bs cs r fd = Some (JStr n)" by (simp add: v(2))
    have "n = s"
    proof (cases "fd_type fd = Ty_brand")
      case b: True
      then obtain c where "c \<in> set bs" "kb_name c = n"
        using sel by (auto simp: selectCol_def brand_name_def dest!: find_SomeD)
      then show ?thesis using assms(6) [OF fd] b v by (auto simp: name_stored_def list_all_iff)
    next
      case False
      then have ct: "fd_type fd = Ty_category" using True by simp
      then obtain c where "c \<in> set cs" "kc_name c = n"
        using sel by (auto simp: selectCol_def category_name_def dest!: find_SomeD)
      then show ?thesis using assms(6) [OF fd] ct v by (auto simp: name_stored_def list_all_iff)
    qed
    then show ?thesis using v by simp
  next
    case False
    then show ?thesis using e(2) [OF fd] by (simp add: same_value_def)
  qed
  with e(1) keyOf_cong [OF e(2)] show ?thesis by (simp add: field_changes_Nil)
qed

section \<open>The diff after a commit\<close>

lemma row_again:
  fixes svc :: mk_service and db db1 :: mk_db and p :: parse_result and B :: nat
  assumes ok: "store_ok svc db" and good: "parse_ok p" and no_errors: "errors_of p = []"
    and B: "B = kd_next_batch db" and w: "write_batch svc B p db = Inr db1" and names: "spelled_as_stored db1 p"
  assumes x: "x \<in> set (tr_rows (pp_tables p t))"
  shows "\<not> is_new (adapter_of t) (table_data db1 t) x \<and> update_of (adapter_of t) (table_data db1 t) x = None"
proof -
  let ?a = "adapter_of t" and ?cs = "kd_categories db"
  let ?c0 = "currentRows (kd_brands db) ?cs ?a (kd_rows db t)"
  note bb = batch_brands [OF w]
  have data1: "table_data db1 t = currentRows (kd_brands db1) ?cs ?a (kd_rows db1 t)" by (simp add: table_data_def bb(3))
  obtain U colss where c: "(kd_next db1 t, kd_rows db1 t) = written B (kd_next db t) (kd_rows db t) U colss"
    "list_all2 (\<lambda>x c. row_values (kd_brands db1) ?cs ?a x = Some c) (written_data (diffAll db p t)) colss"
    "read_rows (kd_brands db1) ?cs ?a (kd_rows db1 t) =
       with_batch B U (read_rows (kd_brands db1) ?cs ?a (new_rows B (kd_next db t) colss))
         (read_rows (kd_brands db) ?cs ?a (kd_rows db t))"
    "table_ok (sv_env svc) (kd_brands db1) ?cs (Suc B) t (kd_next db1 t, kd_rows db1 t)"
    by (rule batch_table [OF ok good no_errors B w, of t]) blast
  note T = table_okD [OF store_okD(1) [OF ok, of t, folded B]] and T1 = table_okD [OF c(4)]
  have rows1: "kd_rows db1 t = replace_rows B U (kd_rows db t) @ new_rows B (kd_next db t) colss"
    using c(1) by (simp add: written_def)
  have bids: "distinct (map kb_id (kd_brands db1))" unfolding bb(1) by (rule brand_ids_distinct [OF ok])
  have diff: "diffAll db p t = diffTable ?a (tr_rows (pp_tables p t)) ?c0 []"
    by (simp add: diffAll_def table_data_def no_errors_no_invalid [OF no_errors])
  have inj: "y = x" if "y \<in> set (tr_rows (pp_tables p t))" "keyOf ?a (pr_data y) = keyOf ?a (pr_data x)" for y
    using parse_okD(2) [OF good, of t] that x by (auto simp: distinct_map dest: inj_onD)
  show ?thesis
  proof (cases "pr_data x \<in> set (written_data (diffAll db p t))")
    case True
    obtain cols where cols: "cols \<in> set colss" "row_values (kd_brands db1) ?cs ?a (pr_data x) = Some cols"
      using list_all2_left [OF c(2) True] by blast
    obtain r where r: "r \<in> set (new_rows B (kd_next db t) colss)" "kr_cols r = cols" "kr_current r"
      using new_row_exists [OF cols(1)] by blast
    have "name_stored (kd_brands db1) ?cs fd (dat (pr_data x) (fd_field fd))" if "fd \<in> set (ad_fields ?a)" for fd
      using names x that table_ids_all [of t] by (auto simp: spelled_as_stored_def list_all_iff bb(3) simp del: table_ids_all)
    from stored_exactly [OF cols(2) parse_okD(1) [OF good x] bids store_okD(5) [OF ok] r(2) this] obtain e where e:
      "join_row (kd_brands db1) ?cs ?a r = Some e" "keyOf ?a e = keyOf ?a (pr_data x)" "field_changes ?a e (pr_data x) = []"
      by blast
    have "(kr_id r, e) \<in> set (currentRows (kd_brands db1) ?cs ?a (kd_rows db1 t))"
      using r e(1) by (auto simp: currentRows_def mem_map_filter rows1 intro!: bexI [of _ r])
    from row_unchanged [OF T1(6,1) this e(2,3)] show ?thesis by (simp add: data1)
  next
    case False
    then have un: "\<not> is_new ?a ?c0 x" "update_of ?a ?c0 x = None"
      using x unfolding diff written_data_diff by auto
    obtain i old where old: "existing_row ?a ?c0 (keyOf ?a (pr_data x)) = Some (i, old)" "field_changes ?a old (pr_data x) = []"
      using un by (auto simp: is_new_def update_of_def Let_def split: if_splits)
    have mem: "(i, old) \<in> set ?c0" "keyOf ?a old = keyOf ?a (pr_data x)" using existing_row_Some [OF old(1)] by auto
    obtain r where r: "r \<in> set (kd_rows db t)" "kr_current r" "kr_id r = i" "join_row (kd_brands db) ?cs ?a r = Some old"
      using mem(1) by (auto simp: currentRows_def mem_map_filter)
    have notU: "i \<notin> set U"
    proof
      assume U: "i \<in> set U"
      obtain v where v: "v \<in> set (read_rows (kd_brands db) ?cs ?a (kd_rows db t))" "dr_id v = i" "dr_key v = keyOf ?a old"
        using currentRows_mem [OF mem(1)] by blast
      have s: "superseded_by B v \<in> set (read_rows (kd_brands db1) ?cs ?a (kd_rows db1 t))"
        unfolding c(3) with_batch_def using v U by force
      have "earliest (later_batches (read_rows (kd_brands db1) ?cs ?a (kd_rows db1 t)) (superseded_by B v)) = Some B"
        using history_link [OF T1(6) s] by simp
      then obtain y where y: "y \<in> set (read_rows (kd_brands db1) ?cs ?a (kd_rows db1 t))" "dr_key y = keyOf ?a (pr_data x)" "dr_batch y = B"
        using v(3) mem(2) by (auto simp: later_batches_mem dest!: earliest_SomeD)
      have old_batch: "dr_batch z < B" if "z \<in> set (read_rows (kd_brands db) ?cs ?a (kd_rows db t))" for z
        using that T(3) by (auto simp: read_rows_def mem_map_filter dest!: read_row_fields(2))
      have "y \<in> set (read_rows (kd_brands db1) ?cs ?a (new_rows B (kd_next db t) colss))"
      proof (rule ccontr)
        assume "\<not> ?thesis"
        then obtain x' where x': "x' \<in> set (read_rows (kd_brands db) ?cs ?a (kd_rows db t))"
          "y = (if dr_id x' \<in> set U then superseded_by B x' else x')"
          using y(1) unfolding c(3) with_batch_def by auto
        have "dr_batch y = dr_batch x'" unfolding x'(2) by simp
        with old_batch [OF x'(1)] y(3) show False by simp
      qed
      then have "dr_key y \<in> keyOf ?a ` set (written_data (diffAll db p t))"
        using read_new_rows [OF c(2) written_typed [OF ok good no_errors B w] bids store_okD(5) [OF ok], of B "kd_next db t"]
        by (metis image_eqI list.set_map)
      then obtain z where "z \<in> set (tr_rows (pp_tables p t))" "pr_data z \<in> set (written_data (diffAll db p t))"
        "keyOf ?a (pr_data z) = keyOf ?a (pr_data x)"
        using y(2) unfolding diff written_data_diff by auto
      with inj False show False by metis
    qed
    have "r \<in> set (kd_rows db1 t)"
      unfolding rows1 using r(1,3) notU by (auto simp: replace_rows_def)
    moreover have "join_row (kd_brands db1) ?cs ?a r = Some old"
      unfolding bb(1) using join_row_append [OF T(4) [OF r(1)]] r(4) by simp
    ultimately have "(i, old) \<in> set (currentRows (kd_brands db1) ?cs ?a (kd_rows db1 t))"
      using r(2,3) by (auto simp: currentRows_def mem_map_filter intro!: bexI [of _ r])
    from row_unchanged [OF T1(6,1) this mem(2) old(2)] show ?thesis by (simp add: data1)
  qed
qed

lemma batch_again:
  fixes svc :: mk_service and db db1 :: mk_db and p :: parse_result and B :: nat
  assumes ok: "store_ok svc db" and good: "parse_ok p" and no_errors: "errors_of p = []"
    and B: "B = kd_next_batch db" and w: "write_batch svc B p db = Inr db1" and names: "spelled_as_stored db1 p"
  shows "df_inserts (diffAll db1 p t) = [] \<and> df_updates (diffAll db1 p t) = [] \<and>
    df_unchanged (diffAll db1 p t) = tr_rows (pp_tables p t)"
proof -
  have "diffAll db1 p t = diffTable (adapter_of t) (tr_rows (pp_tables p t)) (table_data db1 t) []"
    by (simp add: diffAll_def no_errors_no_invalid [OF no_errors])
  then show ?thesis
    using row_again [OF ok good no_errors B w names, of _ t] by (auto simp: diffTable_classes filter_empty_conv map_filter_def filter_id_conv)
qed

text \<open>A row that spells a stored brand in another letter case is never unchanged, though its key is found.\<close>

lemma case_variant_rewritten:
  assumes "fd \<in> set (ad_fields (adapter_of t))" "fd_type fd = Ty_brand" "dat (pr_data x) (fd_field fd) = JStr s" "s \<noteq> []"
    "\<And>b. b \<in> set (kd_brands db) \<Longrightarrow> trim (kb_name b) \<noteq> trim s"
  shows "x \<notin> set (df_unchanged (diffAll db p t))"
proof
  let ?a = "adapter_of t"
  assume "x \<in> set (df_unchanged (diffAll db p t))"
  then have "\<not> is_new ?a (table_data db t) x" "update_of ?a (table_data db t) x = None"
    by (auto simp: diffAll_def diffTable_classes)
  then obtain i old where old: "existing_row ?a (table_data db t) (keyOf ?a (pr_data x)) = Some (i, old)"
    "field_changes ?a old (pr_data x) = []"
    by (auto simp: is_new_def update_of_def Let_def split: if_splits)
  obtain r where "join_row (kd_brands db) (kd_categories db) ?a r = Some old"
    using existing_row_Some [OF old(1)] by (auto simp: table_data_def currentRows_def mem_map_filter)
  then have "selectCol (kd_brands db) (kd_categories db) r fd = Some (dat old (fd_field fd))"
    using adapter_distinct(1) assms(1) unfolding join_row_def by (rule those_fields)
  then obtain b where b: "b \<in> set (kd_brands db)" "dat old (fd_field fd) = JStr (kb_name b)"
    using assms(2) by (auto simp: selectCol_def brand_name_def dest!: find_SomeD)
  have "normalize Ty_brand (dat old (fd_field fd)) = normalize Ty_brand (JStr s)"
    using old(2) assms(1-3) by (auto simp: field_changes_Nil)
  with b assms(4,5) show False by (auto simp: normalize_def split: if_splits)
qed

section \<open>The same file once more\<close>

text \<open>C17. Importing a file leaves the store as the file says: diffed against the store right after its commit, the same
  parsed file has no row to insert and none to update, every row is unchanged, as long as it spells brands and
  categories as they are stored.\<close>

theorem reupload_changes_nothing:
  assumes "commitUpload (marcom_service lib ending env sha brand_fits) db locked now i actor confirm = (Inr (B, sm), db1)"
    and "store_ok (marcom_service lib ending env sha brand_fits) db"
    and "upload_trimmed (marcom_service lib ending env sha brand_fits) db now i actor"
    and "loadStaged db now i actor = Inr s" "staged_file db i = Some buf"
    and "runParse lib ending buf (st_filename s) (loadKnown db) = Inr p" and "spelled_as_stored db1 p"
  shows "\<forall>t. df_inserts (diffAll db1 p t) = [] \<and> df_updates (diffAll db1 p t) = [] \<and>
             df_unchanged (diffAll db1 p t) = tr_rows (pp_tables p t)"
proof -
  let ?svc = "marcom_service lib ending env sha brand_fits"
  obtain s' buf' q d where c: "loadStaged db now i actor = Inr s'" "staged_file db i = Some buf'"
    "sv_parse ?svc buf' (st_filename s') (loadKnown db) = Inr q" "errors_of q = []" "parse_ok q" "B = kd_next_batch db"
    "write_batch ?svc B q db = Inr d" "db1 = removeStagedFile i (consume i now (add_batch (new_batch db s' actor now buf' sm) d))"
    by (rule marcom.commit_steps [OF assms(1-3)])
  have q: "q = p" using c(1-3) assms(4-6) by (simp add: marcom_service_def)
  have f: "kd_rows db1 = kd_rows d" "kd_brands db1 = kd_brands d" "kd_categories db1 = kd_categories d"
    by (simp_all add: c(8) removeStagedFile_def consume_def add_batch_def)
  have "diffAll db1 p = diffAll d p" by (simp add: fun_eq_iff diffAll_def table_data_def f)
  moreover have "spelled_as_stored d p" using assms(7) by (simp add: spelled_as_stored_def f)
  ultimately show ?thesis
    using batch_again [OF assms(2) c(5,4,6,7) [unfolded q]] by simp
qed

lemma reupload_changes_nothing_witness:
  "\<exists>sm db1. commitUpload demo_svc demo_db True 0 ''u'' 7 True = (Inr (1, sm), db1) \<and>
     df_unchanged (diffAll db1 demo_parse T_campaigns) = [demo_row]"
proof -
  obtain sm db1 where c: "commitUpload demo_svc demo_db True 0 ''u'' 7 True = (Inr (1, sm), db1)" using demo_committed by blast
  have p: "runParse (filled_lib demo_cells) (\<lambda>f. Worker_answers) empty_zip ''plan.xlsx'' (loadKnown demo_db) = Inr demo_parse"
    using known_empty [of demo_db] by (simp add: demo_db_parts demo_svc_def marcom_service_def)
  have l: "loadStaged demo_db 0 ''u'' 7 = Inr (hd (kd_staged demo_db))" by (simp add: demo_staged)
  obtain s buf q d where d: "loadStaged demo_db 0 ''u'' 7 = Inr s" "staged_file demo_db ''u'' = Some buf"
    "sv_parse demo_svc buf (st_filename s) (loadKnown demo_db) = Inr q" "write_batch demo_svc 1 q demo_db = Inr d"
    "db1 = removeStagedFile ''u'' (consume ''u'' 0 (add_batch (new_batch demo_db s 7 0 buf sm) d))"
    by (rule marcom.commit_steps [OF c [unfolded demo_svc_def] demo_store_ok(2) demo_upload_trimmed [unfolded demo_svc_def]])
      (simp add: demo_svc_def)
  have q: "q = demo_parse" using d(1-3) p by (auto simp: demo_staged demo_svc_def marcom_service_def)
  have "kd_brands db1 = new_brands 1 1 [''Acme'']" "kd_categories db1 = []"
    using batch_brands [OF d(4)] by (simp_all add: d(5) q removeStagedFile_def consume_def add_batch_def demo_db_parts)
      (simp_all add: demo_db_parts demo_brands [unfolded demo_db_parts, simplified])
  then have "spelled_as_stored db1 demo_parse"
    by (simp add: spelled_as_stored_def table_ids_def demo_parse_def demo_table_def demo_row_def dat_def fdef_def name_stored_def new_brands_def)
  from reupload_changes_nothing [OF c [unfolded demo_svc_def] demo_store_ok(2) demo_upload_trimmed [unfolded demo_svc_def] l
      demo_staged(2), unfolded demo_staged(3), OF p this] c
  show ?thesis by (auto simp: demo_parse_def demo_table_def)
qed

end
