(* ===== verification/Marcom_Screen.thy ===== *)
theory Marcom_Screen
  imports Marcom_Reupload
begin

text \<open>
  The upload screen (\<open>frontend/src/lib/marcomUploadMachine.ts\<close>): a reducer over the events of the page
  (\<open>frontend/src/app/admin/marcom-upload/page.tsx\<close>). Its properties tie it to the service: an import that
  the screen starts right after the dry run is one the service takes. The tab \<open>all\<close> is \<open>None\<close>; an upload
  progress is a percentage.
\<close>

section \<open>The reducer\<close>

datatype upload_state =
    Idle "string option"
  | Validating string int
  | Previewing mk_preview bool "table_id option"
  | Committing mk_preview bool "table_id option"
  | Imported "nat \<times> mk_summary" string
  | Failed string "string option" "mk_preview option"
  | Expired string

datatype upload_event =
    FILE_REJECTED string
  | FILE_SELECTED string
  | PROGRESS int
  | VALIDATED mk_preview
  | VALIDATE_FAILED string "string option"
  | TOGGLE_BRANDS bool
  | SELECT_TAB "table_id option"
  | COMMIT_STARTED
  | COMMITTED "nat \<times> mk_summary"
  | COMMIT_FAILED string "string option"
  | BACK_TO_PREVIEW
  | RESET

definition initialUploadState :: upload_state where
  "initialUploadState = Idle None"

definition EXPIRED_CODES :: "string list" where
  "EXPIRED_CODES = [''STAGED_EXPIRED'', ''STAGED_NOT_FOUND'', ''STAGED_CONSUMED'', ''FILE_CHANGED'']"

definition canConfirm :: "upload_state \<Rightarrow> bool" where
  "canConfirm s =
     (case s of
        Previewing p confirmed tab \<Rightarrow>
          pv_errorCount p = 0 \<and> \<not> pv_nothingToImport p \<and> pv_canCommit p \<and> (\<not> pv_requiresNewBrandConfirmation p \<or> confirmed)
      | _ \<Rightarrow> False)"

fun busy :: "upload_state \<Rightarrow> bool" where
  "busy (Validating f n) = True"
| "busy (Committing p c t) = True"
| "busy s = False"

fun uploadReducer :: "upload_state \<Rightarrow> upload_event \<Rightarrow> upload_state" where
  "uploadReducer s RESET = initialUploadState"
| "uploadReducer s (FILE_REJECTED m) = (if busy s then s else Idle (Some m))"
| "uploadReducer s (FILE_SELECTED f) = (if busy s then s else Validating f 0)"
| "uploadReducer s (PROGRESS n) = (case s of Validating f k \<Rightarrow> Validating f (max 0 (min 100 n)) | _ \<Rightarrow> s)"
| "uploadReducer s (VALIDATED p) = (case s of Validating f k \<Rightarrow> Previewing p False None | _ \<Rightarrow> s)"
| "uploadReducer s (VALIDATE_FAILED m c) = (case s of Validating f k \<Rightarrow> Failed m c None | _ \<Rightarrow> s)"
| "uploadReducer s (TOGGLE_BRANDS v) = (case s of Previewing p c t \<Rightarrow> Previewing p v t | _ \<Rightarrow> s)"
| "uploadReducer s (SELECT_TAB t) = (case s of Previewing p c t' \<Rightarrow> Previewing p c t | _ \<Rightarrow> s)"
| "uploadReducer s COMMIT_STARTED = (case s of Previewing p c t \<Rightarrow> if canConfirm s then Committing p c t else s | _ \<Rightarrow> s)"
| "uploadReducer s (COMMITTED r) = (case s of Committing p c t \<Rightarrow> Imported r (pv_filename p) | _ \<Rightarrow> s)"
| "uploadReducer s (COMMIT_FAILED m code) =
     (case s of
        Committing p c t \<Rightarrow>
          (case code of
             Some k \<Rightarrow> if k \<noteq> [] \<and> k \<in> set EXPIRED_CODES then Expired m else Failed m code (Some p)
           | None \<Rightarrow> Failed m code (Some p))
      | _ \<Rightarrow> s)"
| "uploadReducer s BACK_TO_PREVIEW = (case s of Failed m c (Some p) \<Rightarrow> Previewing p False None | _ \<Rightarrow> s)"

text \<open>The state after the events of a session.\<close>

definition screen_after :: "upload_event list \<Rightarrow> upload_state" where
  "screen_after evs = foldl uploadReducer initialUploadState evs"

section \<open>What an import was confirmed for\<close>

fun commit_confirmed :: "upload_state \<Rightarrow> bool" where
  "commit_confirmed (Committing p c t) = canConfirm (Previewing p c t)"
| "commit_confirmed s = True"

lemma reducer_confirmed: "commit_confirmed s \<Longrightarrow> commit_confirmed (uploadReducer s ev)"
  by (cases ev; cases s) (auto simp: initialUploadState_def split: option.splits)

lemma screen_confirmed: "commit_confirmed (screen_after evs)"
proof -
  have "commit_confirmed s \<Longrightarrow> commit_confirmed (foldl uploadReducer s evs)" for s
    by (induction evs arbitrary: s) (auto dest: reducer_confirmed)
  then show ?thesis by (simp add: screen_after_def initialUploadState_def)
qed

lemma preview_nothing: "pv_nothingToImport (preview_of svc db now ttl i fn buf p) \<longleftrightarrow>
    pv_insert (preview_of svc db now ttl i fn buf p) + pv_update (preview_of svc db now ttl i fn buf p) = 0"
  "pv_requiresNewBrandConfirmation (preview_of svc db now ttl i fn buf p) \<longleftrightarrow> pv_newBrands (preview_of svc db now ttl i fn buf p) \<noteq> []"
  "pv_canCommit (preview_of svc db now ttl i fn buf p) \<longleftrightarrow> pv_errorCount (preview_of svc db now ttl i fn buf p) = 0 \<and>
    \<not> pv_nothingToImport (preview_of svc db now ttl i fn buf p)"
  unfolding preview_of_def Let_def mk_preview.simps by (rule refl)+

text \<open>C12. The screen starts only imports the service takes: when the preview it confirms is the one the dry run returned,
  and nothing changed in between, the import writes at least one row, exactly as previewed, with the confirmed
  new brands, or fails in the database as a whole; it is never refused for errors in the file or for
  unconfirmed brands.\<close>

theorem screen_imports_accepted:
  assumes "screen_after evs = Committing pv confirmed tab"
    and "validateUpload svc db now ttl i actor raw buf = (Inr pv, db1)"
    and "i \<notin> st_id ` set (kd_staged db)" and "now2 < pv_expiresAt pv"
  shows "case commitUpload svc db1 True now2 i actor confirmed of
      (Inr (B, sm), db2) \<Rightarrow>
        sm_inserted sm = pv_insert pv \<and> sm_updated sm = pv_update pv \<and> sm_newBrands sm = pv_newBrands pv \<and>
        0 < sm_inserted sm + sm_updated sm
    | (Inl e, db2) \<Rightarrow> e = Unexpected"
proof -
  obtain p where p: "pv = preview_of svc db1 now ttl i (safeFilename raw) buf p" by (rule validate_steps [OF assms(2)])
  have "canConfirm (Previewing pv confirmed tab)"
    using screen_confirmed [of evs] unfolding assms(1) by simp
  then have c: "pv_errorCount pv = 0" "pv_newBrands pv = [] \<or> confirmed" "0 < pv_insert pv + pv_update pv"
    using preview_nothing [of svc db1 now ttl i "safeFilename raw" buf p] by (auto simp: canConfirm_def p [symmetric])
  show ?thesis
    using dry_run_predicts [OF assms(2-4), of confirmed] c by (auto split: sum.splits prod.splits)
qed

lemma demo_preview:
  defines "pv \<equiv> preview_of demo_svc (writeStaged ''u'' empty_zip empty_db) 0 60 ''u'' ''plan.xlsx'' empty_zip demo_parse"
  shows "pv_errorCount pv = 0" "\<not> pv_nothingToImport pv" "pv_canCommit pv" "pv_expiresAt pv = 3600"
proof -
  have d: "diffAll (writeStaged ''u'' empty_zip empty_db) demo_parse t =
      (if t = T_campaigns then empty_diff\<lparr>df_inserts := [demo_row]\<rparr> else empty_diff)" for t
    by (simp add: writeStaged_def empty_db_def diffAll_def diffTable_def demo_parse_def demo_table_def table_data_def currentRows_def
        map_filter_def invalid_rows_def diff_step_def existing_row_def empty_diff_def)
  have e: "pv_errorCount pv = 0"
    unfolding pv_def by (simp add: preview_errors errors_of_def demo_parse_def)
  have "pv_insert pv = 1"
    unfolding pv_def by (simp add: preview_of_def Let_def buildTablePreviews_def table_preview_of_def table_ids_def d empty_diff_def)
  then show "pv_errorCount pv = 0" "\<not> pv_nothingToImport pv" "pv_canCommit pv"
    using e unfolding pv_def by (simp_all add: preview_nothing)
  show "pv_expiresAt pv = 3600" by (simp add: pv_def preview_of_def Let_def)
qed

lemma screen_imports_accepted_witness:
  "\<exists>pv sm db2. screen_after [FILE_SELECTED ''plan.xlsx'', VALIDATED pv, TOGGLE_BRANDS True, COMMIT_STARTED] = Committing pv True None \<and>
     commitUpload demo_svc demo_db True 0 ''u'' 7 True = (Inr (1, sm), db2) \<and> 0 < sm_inserted sm + sm_updated sm"
proof -
  let ?pv = "preview_of demo_svc (writeStaged ''u'' empty_zip empty_db) 0 60 ''u'' ''plan.xlsx'' empty_zip demo_parse"
  have s: "screen_after [FILE_SELECTED ''plan.xlsx'', VALIDATED ?pv, TOGGLE_BRANDS True, COMMIT_STARTED] = Committing ?pv True None"
    by (simp add: screen_after_def initialUploadState_def canConfirm_def demo_preview)
  have n: "''u'' \<notin> st_id ` set (kd_staged empty_db)" by (simp add: empty_db_def)
  have e: "(0::int) < pv_expiresAt ?pv" by (simp only: demo_preview)
  obtain sm db2 where c: "commitUpload demo_svc demo_db True 0 ''u'' 7 True = (Inr (1, sm), db2)" using demo_committed by blast
  with screen_imports_accepted [OF s demo_validated n e] s show ?thesis by auto
qed

end
