(* ===== verification/Marcom_Csv.thy ===== *)
theory Marcom_Csv
  imports Marcom_Preview
begin

text \<open>
  The exported issue list (\<open>marcom/csv.ts\<close>): a cell written by \<open>csvCell\<close> is read back by a reader of
  quoted CSV, and the text it holds never starts like a formula.
\<close>

definition csv_quoted :: "string \<Rightarrow> string" where
  "csv_quoted s = concat (map (\<lambda>c. if code_of c = 34 then [CHR 34, CHR 34] else [c]) s)"

definition formula_start :: "string \<Rightarrow> bool" where
  "formula_start s = (case s of [] \<Rightarrow> False | c # t \<Rightarrow> c \<in> set ''=+-@'' \<or> code_of c = 9 \<or> code_of c = 13)"

lemma csvCell_quoted: "csvCell s = CHR 34 # csv_quoted (if formula_start s then CHR 39 # s else s) @ [CHR 34]"
  by (auto simp: csvCell_def csv_quoted_def formula_start_def Let_def split: list.split)

lemma quote_char: "code_of c = 34 \<longleftrightarrow> c = CHR 34"
proof -
  have "code_of (CHR 34) = 34" by (simp add: code_of_def)
  then show ?thesis by (metis code_of_def of_char_eq_iff)
qed

lemma read_quoted:
  assumes "rest = [] \<or> hd rest \<noteq> CHR 34"
  shows "csv_content (csv_quoted s @ CHR 34 # rest) = (s, rest)"
proof (induction s)
  case Nil
  then show ?case using assms by (cases rest) (auto simp: csv_quoted_def quote_char)
next
  case (Cons c s)
  obtain d x where x: "csv_quoted s @ CHR 34 # rest = d # x" by (cases "csv_quoted s") auto
  have q: "csv_quoted (c # s) = (if c = CHR 34 then [CHR 34, CHR 34] else [c]) @ csv_quoted s"
    by (simp add: csv_quoted_def quote_char)
  show ?case using Cons.IH by (auto simp: q quote_char x)
qed

text \<open>C39. A cell of the exported list is read back by a reader of quoted CSV up to its closing quote, whatever quotes,
  commas or line ends it holds; it gives the text itself, or the text behind an apostrophe exactly when the
  text starts like a formula, and what a spreadsheet reads never starts like one.\<close>

theorem csv_cell_read_back:
  assumes "rest = [] \<or> hd rest \<noteq> CHR 34"
  shows "hd (csvCell s) = CHR 34 \<and>
    (\<exists>s'. csv_content (tl (csvCell s) @ rest) = (s', rest) \<and> \<not> formula_start s' \<and>
       s' = (if formula_start s then CHR 39 # s else s))"
  using read_quoted [OF assms] by (simp add: csvCell_quoted) (simp add: formula_start_def code_of_def)

lemma csv_cell_read_back_witness:
  "\<exists>s'. csv_content (tl (csvCell ''=1+1'') @ '',x'') = (s', '',x'') \<and> \<not> formula_start s'"
  using csv_cell_read_back [of "'',x''" "''=1+1''"] by auto

end
