(* ===== verification/Spec2Isabelle.thy ===== *)
theory Spec2Isabelle
  imports Prelude Js_Values Calendar Scope_Filters Data_Scope Cascade Identity_Db Permissions Accounts Roles Admin_Safety
    Nps_Sla Credit_Policy Kaizen Kaizen_Rules Sql_Like Kaizen_Board Nps_Case Nps_Reasons Nps_Followup Nps_Board
    Etl_Runs Etl_Guard Etl_Queue Etl_Job Etl_Poll Etl_Control Etl_Schedule
    Marcom_Tables Marcom_Diff Marcom_Store Marcom_Removal Marcom_Zip Marcom_Cells
    Marcom_Batches Marcom_Parser Marcom_Commit Marcom_Typed Marcom_History Marcom_Safety Marcom_Undo Marcom_Rules
    Marcom_Template Marcom_Demo Marcom_Preview Marcom_Claims Marcom_Reupload Marcom_Screen Marcom_Csv
begin

text \<open>
  A model of the backend of the sales dashboard (\<open>07ps-sales-dashboard-app/backend/src\<close>, TypeScript on Express
  and MySQL), of the parts whose logic is the backend's own. Paths below are relative to that directory.

  The parts and how they interact. A request passes the session check (\<open>middleware/auth.ts\<close>), the permission
  gate of its route (\<open>middleware/permission.ts\<close> on \<open>services/permissionService.ts\<close>) and, on a report, the scope
  middleware (\<open>middleware/scopeContext.ts\<close>), which narrows the request's filters by the rules of the user's roles
  (\<open>services/dataScopeService.ts\<close>) and by the salesperson lock before a measure builds its WHERE clause
  (\<open>measures/filters.ts\<close>). Accounts, roles and their permissions are edited by the admin services on the same
  tables. The Kaizen board, the follow-up of detractors, the ETL control and the MARCOM upload are services behind
  those gates with tables of their own. The ETL runs in a worker process fed by a message queue; backend and worker
  meet in the table of runs. The MARCOM upload takes a workbook, shows what it would change, writes it as one batch
  and can take any batch back.

  Theories and code.
  Shared: \<open>Prelude\<close> (results, list and table operations, the locales \<open>keyed_store\<close> and \<open>versioned_store\<close>),
  \<open>Js_Values\<close> (JavaScript values and conversions), \<open>Calendar\<close> (\<open>lib/businessWeek.ts\<close>, the windows of
  \<open>measures/filters.ts\<close>, \<open>marcomKpi/formulas.ts\<close>), \<open>Sql_Like\<close>.
  Access to data: \<open>Scope_Filters\<close> (\<open>measures/filters.ts\<close>), \<open>Data_Scope\<close> (\<open>services/dataScopeService.ts\<close>,
  \<open>middleware/scopeContext.ts\<close>), \<open>Cascade\<close> (\<open>filters/cascade.ts\<close>).
  Identity: \<open>Identity_Db\<close> (the tables), \<open>Permissions\<close> (\<open>config/permissionRegistry.ts\<close>,
  \<open>services/permissionService.ts\<close>, \<open>middleware/permission.ts\<close>), \<open>Accounts\<close> (\<open>lib/password.ts\<close>, \<open>lib/token.ts\<close>,
  \<open>services/userService.ts\<close>, \<open>services/authService.ts\<close>, \<open>middleware/auth.ts\<close>), \<open>Roles\<close>
  (\<open>services/roleService.ts\<close>), \<open>Admin_Safety\<close> (the admin operations as one step relation).
  Rules: \<open>Nps_Sla\<close> (\<open>config/npsSla.ts\<close>, \<open>config/npsThresholds.ts\<close>), \<open>Credit_Policy\<close> (\<open>config/creditPolicy.ts\<close>).
  Kaizen: \<open>Kaizen\<close>, \<open>Kaizen_Rules\<close>, \<open>Kaizen_Board\<close> (\<open>services/kaizenService.ts\<close>).
  Follow-up: \<open>Nps_Case\<close>, \<open>Nps_Reasons\<close>, \<open>Nps_Followup\<close>, \<open>Nps_Board\<close> (\<open>services/npsFollowupService.ts\<close>).
  ETL: \<open>Etl_Runs\<close> (\<open>etl/services/etlRunTracker.ts\<close>), \<open>Etl_Guard\<close> and \<open>Etl_Queue\<close> (\<open>etl/queue/etlQueue.ts\<close>),
  \<open>Etl_Job\<close> (\<open>etl/jobs/runPipelineJob.ts\<close>), \<open>Etl_Poll\<close> (\<open>etl/services/pythonRunner.ts\<close> and, of the service it
  polls, \<open>Job\<close> in \<open>07ps-sales-dashboard-app/data/etl/api/job_tracker.py\<close>), \<open>Etl_Control\<close>
  (\<open>etl/services/etlReconciliation.ts\<close>, \<open>routes/admin/etlControl.ts\<close>), \<open>Etl_Schedule\<close> (\<open>etl/config\<close>,
  \<open>etl/scheduler\<close>).
  MARCOM upload (\<open>marcom/\<close>): \<open>Marcom_Tables\<close> (\<open>templateConfig.ts\<close>, \<open>tables.ts\<close>), \<open>Marcom_Zip\<close> (\<open>zipGuard.ts\<close>),
  \<open>Marcom_Cells\<close> and \<open>Marcom_Parser\<close> (\<open>parser.ts\<close>, \<open>parseRunner.ts\<close>), \<open>Marcom_Diff\<close> (\<open>diff.ts\<close>),
  \<open>Marcom_Store\<close> (the tables), \<open>Marcom_Removal\<close> (\<open>removal.ts\<close>), \<open>Marcom_Batches\<close> and \<open>Marcom_Preview\<close>
  (\<open>service.ts\<close>, \<open>staging.ts\<close>, \<open>brandCompany.ts\<close>), \<open>Marcom_Csv\<close> (\<open>csv.ts\<close>), \<open>Marcom_Screen\<close>
  (\<open>frontend/src/lib/marcomUploadMachine.ts\<close>); their proofs are in \<open>Marcom_Commit\<close>, \<open>Marcom_Typed\<close>,
  \<open>Marcom_History\<close>, \<open>Marcom_Safety\<close>, \<open>Marcom_Undo\<close>, \<open>Marcom_Template\<close>, \<open>Marcom_Claims\<close> and \<open>Marcom_Reupload\<close>,
  the rules of a removal as its comments state them in \<open>Marcom_Rules\<close>, a worked workbook in \<open>Marcom_Demo\<close>.

  How the code is read. A definition has the name of the function it models. A table is the list of its rows, an
  operation maps the tables to its outcome and the new tables, and a transaction that throws leaves them as they
  were. An exception is a value of the error type of the component. A WHERE clause is the list of its conditions with
  the meaning SQL gives them, NULL being \<open>None\<close>. Strings are lists of 8-bit code units. Numbers are exact; binary
  rounding is not modelled, except for the rounding to decimal places the code writes out itself.

  What the lemmas show. Step relations (\<open>admin_step\<close>, \<open>followup_step\<close>, \<open>guard_step\<close>, \<open>marcom_step\<close>) have an
  invariant that every operation keeps, lifted to all reachable states by rule induction; no step is restricted beyond
  what the code checks, so a worker may start or retry any run, and the ETL invariant speaks of the runs with no
  recorded end. Operations have exact characterisations of success and of the state after it, errors included, against
  specifications of their own where the code has a contract: \<open>counts_under\<close> for the keys a row is filtered by,
  \<open>removal_rule\<close> for a removed batch, \<open>directory\<close> for the bytes of a workbook, \<open>mentioned_stored\<close> and
  \<open>left_out_kept\<close> for an edited case, \<open>handed_on\<close> for the lines of a log that grows while it is read. The locales state what one part needs of
  another and are interpreted on the model: \<open>scope_guard\<close> and its extension \<open>narrowing_guard\<close> by the two access
  locks, \<open>keyed_store\<close> by the table of scope rules, \<open>versioned_store\<close> by the follow-up cases, \<open>guarded_section\<close> by
  the start of an ETL run, \<open>parser_contract\<close> by the MARCOM parser.

  Bounds. The cascade runs at most \<open>MAX_PASSES\<close> passes, which \<open>cascade_passes_suffice\<close> shows to be enough. The
  candidates of a new role code or label end at 999, as in the code. The poll loop of the ETL is a
  \<open>partial_function\<close> whose \<open>None\<close> means that it never returns; \<open>pipeline_wait_ends\<close> gives the condition under which
  it does. The reading of a ZIP directory counts down its entries. All other recursion is structural or has a
  \<open>termination\<close> proof.

  Parameters for what is not in the repository, or happens outside the code modelled: the collation of the database (\<open>collate\<close>, \<open>same\<close>, \<open>me_ci\<close>), which
  values its columns take (\<open>en_storable\<close>, \<open>me_storable\<close>, \<open>sv_brand_fits\<close>), its date arithmetic (\<open>bd_next_day\<close>),
  luxon (\<open>luxon\<close>, \<open>back\<close>, \<open>bd_window\<close>), Unicode normalisation (\<open>nfkd\<close>), \<open>bcrypt\<close>, \<open>jsonwebtoken\<close>, SHA-256, the
  random sources, the message queue, whether a request to the ETL service gets through and how far the service's log has
  grown when it answers (\<open>down\<close>, \<open>reads\<close>, \<open>view\<close>), whether a write to the run table succeeds (\<open>unwritten\<close>), the cron library (\<open>valid\<close>, \<open>fires\<close>), the
  spreadsheet library (\<open>xl_load\<close>, \<open>xl_date\<close>) and the end of its worker thread (\<open>worker_end\<close>).

  Not modelled: the report measures, which are SQL over the warehouse and whose meaning lies in the SQL engine; the
  Express routes, which call a gate and a service; the CRUD of the reference tables; the layout of exported and
  imported workbooks; e-mail, logging, connection handling; the React pages; the MARCOM figures of \<open>marcomKpi/\<close>, which are SQL and its arithmetic; the Python ETL
  beyond the answers of its job tracker. Within the modelled
  parts: display texts of errors and issues, times of change, the columns a listing only copies.
\<close>

end
